(* ===== verification/Prelude.thy ===== *)
theory Prelude
  imports Main "HOL-Library.Word" "HOL-Library.Signed_Division"
begin

text \<open>
  Shared vocabulary of the development: the Go integer types, the Go clock, results that
  may be errors, and the list and word lemmas that several components use.

  \<^item> \<open>u8\<close>, \<open>u16\<close>, \<open>u32\<close>, \<open>u64\<close> are Go's unsigned integers; their arithmetic wraps.
  \<^item> A Go \<open>int\<close> or \<open>int64\<close> is an \<open>int\<close>. Where a computation can leave the 64-bit range
    its result is passed through \<open>i64\<close>, which wraps as two's complement does.
  \<^item> A \<open>time.Time\<close> is the number of nanoseconds since Go's zero time (January 1, year 1), so
    that the zero value is \<open>0\<close>; a \<open>time.Duration\<close> is a number of nanoseconds.
  \<^item> A value or an error is a sum: \<open>Inl e\<close> is the error \<open>e\<close>, \<open>Inr x\<close> the value.
\<close>

unbundle bit_operations_syntax

named_theorems codec_simps \<open>equations of the wire encoders and decoders\<close>
named_theorems time_simps \<open>the Go clock operations, unfolded\<close>

type_synonym u8 = "8 word"
type_synonym u16 = "16 word"
type_synonym u32 = "32 word"
type_synonym u64 = "64 word"
type_synonym bytes = "u8 list"

section \<open>Signed 64-bit wrap-around\<close>

definition i64 :: "int \<Rightarrow> int" where
  "i64 x = (x + 2 ^ 63) mod 2 ^ 64 - 2 ^ 63"

definition in_i64 :: "int \<Rightarrow> bool" where
  "in_i64 x \<longleftrightarrow> - (2 ^ 63) \<le> x \<and> x < 2 ^ 63"

lemma in_i64_i64 [simp]: "in_i64 (i64 x)"
  by (simp add: in_i64_def i64_def)

lemma i64_id [simp]: "in_i64 x \<Longrightarrow> i64 x = x"
  by (simp add: in_i64_def i64_def)

lemma i64_idem: "i64 (i64 x) = i64 x"
  by simp

section \<open>The Go clock\<close>

type_synonym time = int
type_synonym duration = int

abbreviation Microsecond :: duration where "Microsecond \<equiv> 1000"
abbreviation Millisecond :: duration where "Millisecond \<equiv> 1000000"
abbreviation Second :: duration where "Second \<equiv> 1000000000"

definition maxDuration :: duration where
  "maxDuration = 2 ^ 63 - 1"

definition minDuration :: duration where
  "minDuration = - (2 ^ 63)"

definition IsZero :: "time \<Rightarrow> bool" where
  [time_simps]: "IsZero t \<longleftrightarrow> t = 0"

text \<open>\<open>t.Sub(u)\<close> saturates at the ends of the duration range.\<close>

definition Sub :: "time \<Rightarrow> time \<Rightarrow> duration" where
  "Sub t u = max minDuration (min maxDuration (t - u))"

definition Add :: "time \<Rightarrow> duration \<Rightarrow> time" where
  [time_simps]: "Add t d = t + d"

definition After :: "time \<Rightarrow> time \<Rightarrow> bool" where
  [time_simps]: "After t u \<longleftrightarrow> u < t"

definition Before :: "time \<Rightarrow> time \<Rightarrow> bool" where
  [time_simps]: "Before t u \<longleftrightarrow> t < u"

lemma in_i64_Sub [simp]: "in_i64 (Sub t u)"
  by (simp add: in_i64_def Sub_def minDuration_def maxDuration_def)

lemma Sub_exact: "in_i64 (t - u) \<Longrightarrow> Sub t u = t - u"
  by (simp add: in_i64_def Sub_def minDuration_def maxDuration_def)

lemma Sub_le_iff: "0 \<le> d \<Longrightarrow> d < 2 ^ 63 - 1 \<Longrightarrow> Sub t u \<le> d \<longleftrightarrow> t - u \<le> d"
  by (auto simp: Sub_def minDuration_def maxDuration_def)

section \<open>Lists and results\<close>

type_synonym ('e, 'a) result = "'e + 'a"

text \<open>\<open>x, err := m; if err != nil { return err }; ...\<close>\<close>

fun rbind :: "('e, 'a) result \<Rightarrow> ('a \<Rightarrow> ('e, 'b) result) \<Rightarrow> ('e, 'b) result" where
  "rbind (Inl e) f = Inl e"
| "rbind (Inr x) f = f x"

lemma rbind_Inr_iff: "rbind m f = Inr y \<longleftrightarrow> (\<exists>x. m = Inr x \<and> f x = Inr y)"
  by (cases m) auto

lemma rbind_Inl_iff: "rbind m f = Inl e \<longleftrightarrow> m = Inl e \<or> (\<exists>x. m = Inr x \<and> f x = Inl e)"
  by (cases m) auto

lemma sum_list_filter_split:
  "sum_list (map f xs) =
     sum_list (map f (filter P xs)) + sum_list (map f (filter (\<lambda>x. \<not> P x) xs))"
  for f :: "'a \<Rightarrow> int"
  by (induction xs) auto

lemma length_filter_split:
  "length xs = length (filter P xs) + length (filter (\<lambda>x. \<not> P x) xs)"
  by (induction xs) auto

lemma concat_append_single [simp]: "concat (xs @ [x]) = concat xs @ x"
  by simp

lemma take_length_append_eq: "n = length xs \<Longrightarrow> take n (xs @ ys) = xs"
  by simp

lemma drop_length_append_eq: "n = length xs \<Longrightarrow> drop n (xs @ ys) = ys"
  by simp

section \<open>Words\<close>

lemma unat_add_no_wrap:
  "unat a + unat b < 2 ^ 64 \<Longrightarrow> unat (a + b) = unat a + unat b" for a b :: u64
  by (simp add: unat_word_ariths)

lemma unat_of_nat_len: "n < 2 ^ 64 \<Longrightarrow> unat (of_nat n :: u64) = n"
  by (simp add: unat_of_nat)

lemma unat_plus_one:
  "unat a + 1 < 2 ^ 64 \<Longrightarrow> unat (a + 1) = unat a + 1" for a :: u64
  by (simp add: unat_word_ariths)


section \<open>Big-endian integers (package encoding/binary)\<close>

definition PutUint16 :: "u16 \<Rightarrow> bytes" where
  "PutUint16 x = [ucast (drop_bit 8 x), ucast x]"

definition Uint16 :: "bytes \<Rightarrow> u16" where
  "Uint16 b = ucast (b ! 1) OR push_bit 8 (ucast (b ! 0))"

definition PutUint32 :: "u32 \<Rightarrow> bytes" where
  "PutUint32 x = [ucast (drop_bit 24 x), ucast (drop_bit 16 x), ucast (drop_bit 8 x), ucast x]"

definition Uint32 :: "bytes \<Rightarrow> u32" where
  "Uint32 b = ucast (b ! 3) OR push_bit 8 (ucast (b ! 2)) OR push_bit 16 (ucast (b ! 1))
     OR push_bit 24 (ucast (b ! 0))"

definition PutUint64 :: "u64 \<Rightarrow> bytes" where
  "PutUint64 x = map (\<lambda>k. ucast (drop_bit k x)) [56, 48, 40, 32, 24, 16, 8, 0]"

definition Uint64 :: "bytes \<Rightarrow> u64" where
  "Uint64 b = ucast (b ! 7) OR push_bit 8 (ucast (b ! 6)) OR push_bit 16 (ucast (b ! 5))
     OR push_bit 24 (ucast (b ! 4)) OR push_bit 32 (ucast (b ! 3)) OR push_bit 40 (ucast (b ! 2))
     OR push_bit 48 (ucast (b ! 1)) OR push_bit 56 (ucast (b ! 0))"

lemma bit_be_byte:
  "bit (push_bit k (ucast (ucast (drop_bit k x) :: u8)) :: 'a::len word) n
     \<longleftrightarrow> k \<le> n \<and> n < k + 8 \<and> bit x n" for x :: "'a::len word"
  by (auto simp: bit_simps dest: bit_imp_le_length)

lemma bit_be_low_byte:
  "bit (ucast (ucast x :: u8) :: 'a::len word) n \<longleftrightarrow> n < 8 \<and> bit x n" for x :: "'a::len word"
  using bit_be_byte [of 0 x n] by simp

lemma length_Put [simp]:
  "length (PutUint16 x) = 2" "length (PutUint32 y) = 4" "length (PutUint64 z) = 8"
  by (simp_all add: PutUint16_def PutUint32_def PutUint64_def)

lemma Uint16_PutUint16 [simp]: "Uint16 (PutUint16 x) = x"
  unfolding Uint16_def PutUint16_def
  by (rule bit_word_eqI) (auto simp: bit_or_iff bit_be_byte bit_be_low_byte)

lemma Uint32_PutUint32 [simp]: "Uint32 (PutUint32 x) = x"
  unfolding Uint32_def PutUint32_def
  by (rule bit_word_eqI) (auto simp: bit_or_iff bit_be_byte bit_be_low_byte)

lemma Uint64_PutUint64 [simp]: "Uint64 (PutUint64 x) = x"
  unfolding Uint64_def PutUint64_def
  by (rule bit_word_eqI) (auto simp: bit_or_iff bit_be_byte bit_be_low_byte)

end
