(* ===== verification/Wire_Varint.thy ===== *)
theory Wire_Varint
  imports Prelude
begin

text \<open>
  The variable-length integer of the trsf wire format (\<open>src/trsf/wire/stream.go\<close>, generated
  from \<open>stream.bgn\<close>, and \<open>src/trsf/wire/varint.go\<close>): a 64-bit cell whose top two bits are the
  length prefix and whose low 62 bits are the value.

  The theory also states what the other formats rely on, as two locales: \<open>exact_codec\<close> (an
  encoder whose output decodes to the encoded value when nothing follows it) and
  \<open>self_delimiting\<close> (the same when anything follows it), and interprets both on \<open>Varint\<close>.
\<close>

section \<open>Errors and slices\<close>

datatype wire_error =
    NotEnoughData string       \<comment> \<open>not enough data to read for field\<close>
  | SizeMismatch nat nat       \<comment> \<open>size mismatch when writing: expected, got\<close>
  | RemainingBytes nat         \<comment> \<open>expect no remaining bytes\<close>
  | UnexpectedPacket           \<comment> \<open>the error arm of a union\<close>
  | AssertionFailed            \<comment> \<open>a condition of the format does not hold\<close>
  | InvalidUnion               \<comment> \<open>invalid union type for encoding\<close>
  | NotEnoughSpace string      \<comment> \<open>not enough space to reserve or write a field\<close>
  | SubrangeMismatch nat nat   \<comment> \<open>subrange length mismatch\<close>
  | TooLarge nat nat           \<comment> \<open>too large length requested\<close>
  | IoEOF                      \<comment> \<open>\<open>io.EOF\<close>\<close>
  | IoUnexpectedEOF            \<comment> \<open>\<open>io.ErrUnexpectedEOF\<close>\<close>
  | IoFault nat                \<comment> \<open>any other error of a reader or a writer\<close>

text \<open>
  A \<open>DecodeSlice\<close> method reads from a slice at an offset and moves the offset; on an error the
  caller drops everything it has read.
\<close>

type_synonym 'a decoder = "bytes \<Rightarrow> nat \<Rightarrow> (wire_error, 'a \<times> nat) result"
type_synonym 'a encoder = "'a \<Rightarrow> bytes \<Rightarrow> (wire_error, bytes) result"

text \<open>
  Every format has the same two wrappers: \<open>Decode\<close> decodes from the start of the slice and
  returns what is left, \<open>DecodeExact\<close> in addition refuses leftover bytes.
\<close>

definition decode_rest :: "'a decoder \<Rightarrow> bytes \<Rightarrow> (wire_error, 'a \<times> bytes) result" where
  "decode_rest dec buf =
     (case dec buf 0 of Inl e \<Rightarrow> Inl e | Inr (x, off) \<Rightarrow> Inr (x, drop off buf))"

definition decode_exact :: "'a decoder \<Rightarrow> bytes \<Rightarrow> (wire_error, 'a) result" where
  "decode_exact dec buf =
     (case decode_rest dec buf of
        Inl e \<Rightarrow> Inl e
      | Inr (x, remain) \<Rightarrow>
          if length remain \<noteq> 0 then Inl (RemainingBytes (length remain)) else Inr x)"

section \<open>The varint cell\<close>

record Varint =
  tmp250 :: u64

definition Varint_zero :: Varint where
  "Varint_zero = \<lparr>tmp250 = 0\<rparr>"

definition Prefix :: "Varint \<Rightarrow> u8" where
  "Prefix v = ucast (drop_bit 62 (tmp250 v) AND 3)"

definition SetPrefix :: "Varint \<Rightarrow> u8 \<Rightarrow> Varint" where
  "SetPrefix v p =
     v\<lparr>tmp250 := (tmp250 v AND NOT (push_bit 62 3)) OR push_bit 62 (ucast p AND 3)\<rparr>"

definition tmp780 :: "Varint \<Rightarrow> u64" where
  "tmp780 v = drop_bit 0 (tmp250 v) AND 4611686018427387903"

definition settmp413 :: "Varint \<Rightarrow> u64 \<Rightarrow> Varint" where
  "settmp413 v x =
     v\<lparr>tmp250 := (tmp250 v AND NOT (push_bit 0 4611686018427387903))
                OR push_bit 0 (x AND 4611686018427387903)\<rparr>"

definition Varint_Value :: "Varint \<Rightarrow> u64" where
  "Varint_Value v =
     (if Prefix v = 0 then ucast (ucast (tmp780 v) :: u8)
      else if Prefix v = 1 then ucast (ucast (tmp780 v) :: u16)
      else if Prefix v = 2 then ucast (ucast (tmp780 v) :: u32)
      else if Prefix v = 3 then tmp780 v
      else 0)"

definition SetValue :: "Varint \<Rightarrow> u64 \<Rightarrow> Varint" where
  "SetValue v x =
     (if Prefix v = 0 then settmp413 v (ucast (ucast x :: u8))
      else if Prefix v = 1 then settmp413 v (ucast (ucast x :: u16))
      else if Prefix v = 2 then settmp413 v (ucast (ucast x :: u32))
      else if Prefix v = 3 then settmp413 v x
      else v)"

definition VarintLen :: "u64 \<Rightarrow> u8" where
  "VarintLen x =
     (if 0 \<le> x \<and> x \<le> 63 then 1
      else if 64 \<le> x \<and> x \<le> 16383 then 2
      else if 16384 \<le> x \<and> x \<le> 1073741823 then 4
      else if 1073741824 \<le> x \<and> x \<le> 4611686018427387903 then 8
      else 0)"

definition VarintPrefix :: "u64 \<Rightarrow> u8" where
  "VarintPrefix x =
     (let n = VarintLen x in
      if n = 1 then 0 else if n = 2 then 1 else if n = 4 then 2 else if n = 8 then 3 else 255)"

definition EncodeVarint :: "u64 \<Rightarrow> Varint \<times> bool" where
  "EncodeVarint x =
     (let prefix = VarintPrefix x in
      if prefix = 255 then (Varint_zero, False)
      else (SetValue (SetPrefix Varint_zero prefix) x, True))"

text \<open>The bytes \<open>Append\<close> adds: the prefix in the two top bits of the first byte.\<close>

definition Varint_Append :: "Varint encoder" where
  "Varint_Append v buf =
     (let b0 = push_bit 6 (Prefix v AND 3);
          x16 = (ucast (tmp780 v) :: u16);
          x32 = (ucast (tmp780 v) :: u32);
          x64 = tmp780 v in
      Inr (buf @
        (if Prefix v = 0 then [b0 OR (ucast (tmp780 v) AND 63)]
         else if Prefix v = 1 then
           [b0 OR ucast (drop_bit 8 x16 AND 63), ucast (x16 AND 255)]
         else if Prefix v = 2 then
           [b0 OR ucast (drop_bit 24 x32 AND 63), ucast (drop_bit 16 x32 AND 255),
            ucast (drop_bit 8 x32 AND 255), ucast (x32 AND 255)]
         else if Prefix v = 3 then
           [b0 OR ucast (drop_bit 56 x64 AND 63), ucast (drop_bit 48 x64 AND 255),
            ucast (drop_bit 40 x64 AND 255), ucast (drop_bit 32 x64 AND 255),
            ucast (drop_bit 24 x64 AND 255), ucast (drop_bit 16 x64 AND 255),
            ucast (drop_bit 8 x64 AND 255), ucast (x64 AND 255)]
         else [])))"

definition Varint_DecodeSlice :: "Varint \<Rightarrow> Varint decoder" where
  "Varint_DecodeSlice v buf off =
     (if length buf - off < 1 then Inl (NotEnoughData ''Varint::Prefix'')
      else
        let b0 = buf ! off;
            v1 = SetPrefix v (drop_bit 6 (b0 AND 192));
            off1 = off + 1;
            b = (\<lambda>i. buf ! (off + i)) in
        if Prefix v1 = 0 then Inr (settmp413 v1 (ucast (b0 AND 63)), off1)
        else if Prefix v1 = 1 then
          (if length buf - off1 < 1 then Inl (NotEnoughData ''Varint::tmp407::Value'')
           else Inr (settmp413 v1
             (ucast ((push_bit 8 (ucast (b0 AND 63)) OR ucast (b 1)) :: u16)), off1 + 1))
        else if Prefix v1 = 2 then
          (if length buf - off1 < 3 then Inl (NotEnoughData ''Varint::tmp407::Value'')
           else Inr (settmp413 v1
             (ucast ((push_bit 24 (ucast (b0 AND 63)) OR push_bit 16 (ucast (b 1))
                OR push_bit 8 (ucast (b 2)) OR ucast (b 3)) :: u32)), off1 + 3))
        else if Prefix v1 = 3 then
          (if length buf - off1 < 7 then Inl (NotEnoughData ''Varint::tmp407::Value'')
           else Inr (settmp413 v1
             (push_bit 56 (ucast (b0 AND 63)) OR push_bit 48 (ucast (b 1))
                OR push_bit 40 (ucast (b 2)) OR push_bit 32 (ucast (b 3))
                OR push_bit 24 (ucast (b 4)) OR push_bit 16 (ucast (b 5))
                OR push_bit 8 (ucast (b 6)) OR ucast (b 7)), off1 + 7))
        else Inr (v1, off1))"


section \<open>Bit lemmas\<close>

lemma mask_numerals:
  "(1::'a::len word) = mask 1" "(3::'a::len word) = mask 2" "(15::'a::len word) = mask 4"
  "(63::'a::len word) = mask 6" "(255::'a::len word) = mask 8"
  "(4611686018427387903::'a::len word) = mask 62"
  by (simp_all add: mask_eq_exp_minus_1)

text \<open>The bits of one byte of a word, moved back to its place.\<close>

lemma bit_byte_in_place:
  "bit (push_bit k (ucast (ucast (drop_bit k x AND 255) :: u8)) :: 'a::len word) n
     \<longleftrightarrow> k \<le> n \<and> n < k + 8 \<and> bit x n" for x :: "'a::len word"
  unfolding mask_numerals by (auto simp: bit_simps dest: bit_imp_le_length)

lemma bit_low_byte:
  "bit (ucast (ucast (x AND 255) :: u8) :: 'a::len word) n \<longleftrightarrow> n < 8 \<and> bit x n"
  for x :: "'a::len word"
  using bit_byte_in_place [of 0 x n] by simp

lemma bit_top_byte:
  "bit (push_bit k (ucast ((push_bit 6 p OR ucast (drop_bit k x AND 63)) AND 63 :: u8))
          :: 'a::len word) n
     \<longleftrightarrow> k \<le> n \<and> n < k + 6 \<and> bit x n" for x :: "'a::len word"
  unfolding mask_numerals by (auto simp: bit_simps dest: bit_imp_le_length)

lemmas bit_byte_simps = bit_or_iff bit_byte_in_place bit_low_byte bit_top_byte

lemma Prefix_SetPrefix [simp]: "Prefix (SetPrefix v p) = p AND 3"
  unfolding mask_numerals Prefix_def SetPrefix_def
  by (rule bit_word_eqI) (auto simp: bit_simps)

lemma tmp780_SetPrefix [simp]: "tmp780 (SetPrefix v p) = tmp780 v"
  unfolding mask_numerals tmp780_def SetPrefix_def
  by (rule bit_word_eqI) (auto simp: bit_simps)

lemma Prefix_settmp413 [simp]: "Prefix (settmp413 v x) = Prefix v"
  unfolding mask_numerals Prefix_def settmp413_def
  by (rule bit_word_eqI) (auto simp: bit_simps)

lemma tmp780_settmp413 [simp]: "tmp780 (settmp413 v x) = x AND 4611686018427387903"
  unfolding mask_numerals tmp780_def settmp413_def
  by (rule bit_word_eqI) (auto simp: bit_simps)

lemma Varint_eqI:
  assumes "Prefix v = Prefix w" and "tmp780 v = tmp780 w"
  shows "v = (w :: Varint)"
proof -
  have "tmp250 v = tmp250 w"
  proof (rule bit_word_eqI)
    fix n assume "n < LENGTH(64)"
    then consider "n < 62" | "n = 62" | "n = 63" by fastforce
    then show "bit (tmp250 v) n = bit (tmp250 w) n"
    proof cases
      case 1
      have "bit (tmp780 v) n = bit (tmp780 w) n" by (simp add: assms)
      with 1 show ?thesis unfolding tmp780_def mask_numerals by (simp add: bit_simps)
    next
      case 2
      have "bit (Prefix v) 0 = bit (Prefix w) 0" by (simp only: assms)
      with 2 show ?thesis unfolding Prefix_def mask_numerals by (simp add: bit_simps)
    next
      case 3
      have "bit (Prefix v) 1 = bit (Prefix w) 1" by (simp only: assms)
      with 3 show ?thesis unfolding Prefix_def mask_numerals by (simp add: bit_simps)
    qed
  qed
  then show ?thesis by simp
qed

lemma word_and_3_cases: "x AND 3 = 0 \<or> x AND 3 = 1 \<or> x AND 3 = 2 \<or> x AND 3 = (3 :: u8)"
proof -
  have "x AND 3 \<le> 3" by (rule word_and_le1)
  then have "unat (x AND 3) \<le> 3" by (simp add: word_le_nat_alt)
  then show ?thesis unfolding word_unat_eq_iff by auto
qed

lemma Prefix_cases: "Prefix v = 0 \<or> Prefix v = 1 \<or> Prefix v = 2 \<or> Prefix v = 3"
proof -
  have "Prefix v = Prefix v AND 3"
    unfolding Prefix_def mask_numerals by (rule bit_word_eqI) (auto simp: bit_simps)
  then show ?thesis using word_and_3_cases [of "Prefix v"] by metis
qed


section \<open>Round trip\<close>

text \<open>A varint is well formed when its value fits the length its prefix announces.\<close>

definition Varint_wf :: "Varint \<Rightarrow> bool" where
  "Varint_wf v \<longleftrightarrow>
     (if Prefix v = 0 then tmp780 v \<le> 63
      else if Prefix v = 1 then tmp780 v \<le> 16383
      else if Prefix v = 2 then tmp780 v \<le> 1073741823
      else True)"

definition Varint_wire :: "Varint \<Rightarrow> bytes" where
  "Varint_wire v = projr (Varint_Append v [])"

lemma Varint_Append_wire: "Varint_Append v buf = Inr (buf @ Varint_wire v)"
  by (simp add: Varint_wire_def Varint_Append_def Let_def)

definition Varint_size :: "Varint \<Rightarrow> nat" where
  "Varint_size v =
     (if Prefix v = 0 then 1 else if Prefix v = 1 then 2 else if Prefix v = 2 then 4 else 8)"

lemma length_Varint_wire [simp]: "length (Varint_wire v) = Varint_size v"
  using Prefix_cases [of v]
  by (auto simp: Varint_wire_def Varint_Append_def Varint_size_def Let_def)

lemma le_iff_take_bit:
  "x \<le> 63 \<longleftrightarrow> take_bit 6 x = x"
  "x \<le> 16383 \<longleftrightarrow> take_bit 14 x = x"
  "x \<le> 1073741823 \<longleftrightarrow> take_bit 30 x = x"
  "x \<le> 4611686018427387903 \<longleftrightarrow> take_bit 62 x = x" for x :: u64
  by (auto simp: word_le_nat_alt word_unat_eq_iff unsigned_take_bit_eq take_bit_nat_eq_self_iff)

lemma take_bit_self_bits: "take_bit n x = x \<Longrightarrow> bit x i \<Longrightarrow> i < n" for x :: "'a::len word"
  by (metis bit_take_bit_iff)

lemma tmp780_bits: "bit (tmp780 v) i \<Longrightarrow> i < 62"
  unfolding tmp780_def mask_numerals by (simp add: bit_simps)

lemma prefix_of_first_byte:
  "drop_bit 6 ((push_bit 6 (p AND 3) OR (y AND 63)) AND 192) AND 3 = p AND 3" for p y :: u8
proof -
  have m: "192 = push_bit 6 (mask 2 :: u8)" by (simp add: mask_eq_exp_minus_1)
  show ?thesis
    unfolding m mask_numerals by (rule bit_word_eqI) (auto simp: bit_simps)
qed

lemma ucast_and_63: "(ucast (x AND 63) :: u8) = ucast x AND 63" for x :: "'a::len word"
  unfolding mask_numerals by (rule bit_word_eqI) (auto simp: bit_simps dest: bit_imp_le_length)

text \<open>The four lengths: the decoder's shifts put back exactly the bytes the encoder cut out.\<close>

lemma join_8:
  assumes "take_bit 6 x = x"
  shows "ucast ((push_bit 6 p OR (ucast x AND 63)) AND 63 :: u8) = (x :: u64)"
  unfolding mask_numerals
  by (rule bit_word_eqI) (auto simp: bit_simps dest: take_bit_self_bits [OF assms])

lemma join_16:
  assumes "take_bit 14 x = x"
  shows "ucast ((push_bit 8 (ucast ((push_bit 6 p OR ucast (drop_bit 8 (ucast x :: u16) AND 63)) AND 63 :: u8))
            OR ucast (ucast ((ucast x :: u16) AND 255) :: u8)) :: u16) = (x :: u64)"
proof (rule bit_word_eqI, goal_cases)
  case (1 n)
  then show ?case
    by (subst bit_ucast_iff, simp only: bit_byte_simps)
      (auto simp: bit_simps dest: take_bit_self_bits [OF assms])
qed

lemma join_32:
  assumes "take_bit 30 x = x"
  shows "ucast ((push_bit 24 (ucast ((push_bit 6 p OR ucast (drop_bit 24 (ucast x :: u32) AND 63)) AND 63 :: u8))
            OR push_bit 16 (ucast (ucast (drop_bit 16 (ucast x :: u32) AND 255) :: u8))
            OR push_bit 8 (ucast (ucast (drop_bit 8 (ucast x :: u32) AND 255) :: u8))
            OR ucast (ucast ((ucast x :: u32) AND 255) :: u8)) :: u32) = (x :: u64)"
proof (rule bit_word_eqI, goal_cases)
  case (1 n)
  then show ?case
    by (subst bit_ucast_iff, simp only: bit_byte_simps)
      (auto simp: bit_simps dest: take_bit_self_bits [OF assms])
qed

lemma join_64:
  "(push_bit 56 (ucast ((push_bit 6 p OR ucast (drop_bit 56 x AND 63)) AND 63 :: u8))
    OR push_bit 48 (ucast (ucast (drop_bit 48 x AND 255) :: u8))
    OR push_bit 40 (ucast (ucast (drop_bit 40 x AND 255) :: u8))
    OR push_bit 32 (ucast (ucast (drop_bit 32 x AND 255) :: u8))
    OR push_bit 24 (ucast (ucast (drop_bit 24 x AND 255) :: u8))
    OR push_bit 16 (ucast (ucast (drop_bit 16 x AND 255) :: u8))
    OR push_bit 8 (ucast (ucast (drop_bit 8 x AND 255) :: u8))
    OR ucast (ucast (x AND 255) :: u8)) = x AND 4611686018427387903" for x :: u64
proof (rule bit_word_eqI, goal_cases)
  case (1 n)
  then show ?case
    by (simp only: bit_byte_simps) (simp add: mask_numerals bit_simps, linarith)
qed

lemma tmp780_mask [simp]: "tmp780 v AND 4611686018427387903 = tmp780 v"
  unfolding tmp780_def by (simp add: and.assoc)

lemma Prefix_and_3 [simp]: "Prefix v AND 3 = Prefix v"
  unfolding Prefix_def mask_numerals by (rule bit_word_eqI) (auto simp: bit_simps)

lemma Varint_DecodeSlice_bytes:
  "Prefix (SetPrefix w (drop_bit 6 (b0 AND 192))) = 0 \<Longrightarrow>
     Varint_DecodeSlice w (pre @ b0 # suf) (length pre) =
       Inr (settmp413 (SetPrefix w (drop_bit 6 (b0 AND 192))) (ucast (b0 AND 63)), length pre + 1)"
  "Prefix (SetPrefix w (drop_bit 6 (b0 AND 192))) = 1 \<Longrightarrow>
     Varint_DecodeSlice w (pre @ b0 # b1 # suf) (length pre) =
       Inr (settmp413 (SetPrefix w (drop_bit 6 (b0 AND 192)))
             (ucast (push_bit 8 (ucast (b0 AND 63)) OR ucast b1 :: u16)), length pre + 2)"
  "Prefix (SetPrefix w (drop_bit 6 (b0 AND 192))) = 2 \<Longrightarrow>
     Varint_DecodeSlice w (pre @ b0 # b1 # b2 # b3 # suf) (length pre) =
       Inr (settmp413 (SetPrefix w (drop_bit 6 (b0 AND 192)))
             (ucast (push_bit 24 (ucast (b0 AND 63)) OR push_bit 16 (ucast b1)
                OR push_bit 8 (ucast b2) OR ucast b3 :: u32)), length pre + 4)"
  "Prefix (SetPrefix w (drop_bit 6 (b0 AND 192))) = 3 \<Longrightarrow>
     Varint_DecodeSlice w (pre @ b0 # b1 # b2 # b3 # b4 # b5 # b6 # b7 # suf) (length pre) =
       Inr (settmp413 (SetPrefix w (drop_bit 6 (b0 AND 192)))
             (push_bit 56 (ucast (b0 AND 63)) OR push_bit 48 (ucast b1)
                OR push_bit 40 (ucast b2) OR push_bit 32 (ucast b3)
                OR push_bit 24 (ucast b4) OR push_bit 16 (ucast b5)
                OR push_bit 8 (ucast b6) OR ucast b7), length pre + 8)"
  by (simp_all add: Varint_DecodeSlice_def Let_def nth_append nth_Cons')

lemma SetPrefix_first_byte:
  "Prefix (SetPrefix w (drop_bit 6 ((push_bit 6 (Prefix v AND 3) OR ucast (y AND 63)) AND 192)))
     = Prefix v" for y :: "'a::len word"
  unfolding ucast_and_63 Prefix_SetPrefix prefix_of_first_byte by simp

lemma Varint_eq_settmp413:
  "Prefix u = Prefix v \<Longrightarrow> x = tmp780 v \<Longrightarrow> settmp413 u x = v"
  by (rule Varint_eqI) simp_all

lemmas Varint_wire_unfold = Varint_wire_def Varint_Append_def Varint_size_def Let_def

lemma Varint_roundtrip:
  assumes wf: "Varint_wf v" and off: "off = length pre"
  shows "Varint_DecodeSlice w (pre @ Varint_wire v @ suf) off = Inr (v, off + Varint_size v)"
proof -
  note pfx = SetPrefix_first_byte [of w v]
  note cell = Varint_eq_settmp413 [OF pfx]
  let ?x = "tmp780 v"
  from Prefix_cases [of v] show ?thesis
  proof (elim disjE)
    assume p: "Prefix v = 0"
    then have wire: "Varint_wire v = [push_bit 6 (Prefix v AND 3) OR ucast (?x AND 63)]"
      by (simp add: Varint_wire_unfold ucast_and_63)
    from wf p have "take_bit 6 ?x = ?x" by (simp add: Varint_wf_def le_iff_take_bit)
    then show ?thesis
      unfolding off wire append_Cons append_Nil Varint_DecodeSlice_bytes(1) [OF trans [OF pfx p]]
      by (subst cell) (simp_all only: ucast_and_63 join_8, simp add: Varint_size_def p)
  next
    assume p: "Prefix v = 1"
    then have wire: "Varint_wire v =
        [push_bit 6 (Prefix v AND 3) OR ucast (drop_bit 8 (ucast ?x :: u16) AND 63),
         ucast ((ucast ?x :: u16) AND 255)]"
      by (simp add: Varint_wire_unfold)
    from wf p have "take_bit 14 ?x = ?x" by (simp add: Varint_wf_def le_iff_take_bit)
    then show ?thesis
      unfolding off wire append_Cons append_Nil Varint_DecodeSlice_bytes(2) [OF trans [OF pfx p]]
      by (subst cell) (simp_all only: join_16, simp add: Varint_size_def p)
  next
    assume p: "Prefix v = 2"
    then have wire: "Varint_wire v =
        [push_bit 6 (Prefix v AND 3) OR ucast (drop_bit 24 (ucast ?x :: u32) AND 63),
         ucast (drop_bit 16 (ucast ?x :: u32) AND 255), ucast (drop_bit 8 (ucast ?x :: u32) AND 255),
         ucast ((ucast ?x :: u32) AND 255)]"
      by (simp add: Varint_wire_unfold)
    from wf p have "take_bit 30 ?x = ?x" by (simp add: Varint_wf_def le_iff_take_bit)
    then show ?thesis
      unfolding off wire append_Cons append_Nil Varint_DecodeSlice_bytes(3) [OF trans [OF pfx p]]
      by (subst cell) (simp_all only: join_32, simp add: Varint_size_def p)
  next
    assume p: "Prefix v = 3"
    then have wire: "Varint_wire v =
        [push_bit 6 (Prefix v AND 3) OR ucast (drop_bit 56 ?x AND 63),
         ucast (drop_bit 48 ?x AND 255), ucast (drop_bit 40 ?x AND 255),
         ucast (drop_bit 32 ?x AND 255), ucast (drop_bit 24 ?x AND 255),
         ucast (drop_bit 16 ?x AND 255), ucast (drop_bit 8 ?x AND 255), ucast (?x AND 255)]"
      by (simp add: Varint_wire_unfold)
    show ?thesis
      unfolding off wire append_Cons append_Nil Varint_DecodeSlice_bytes(4) [OF trans [OF pfx p]]
      by (subst cell) (simp_all only: join_64 tmp780_mask, simp add: Varint_size_def p)
  qed
qed


section \<open>EncodeVarint\<close>

lemma word_not_le_steps:
  "\<not> x \<le> 63 \<longleftrightarrow> 64 \<le> x" "\<not> x \<le> 16383 \<longleftrightarrow> 16384 \<le> x"
  "\<not> x \<le> 1073741823 \<longleftrightarrow> 1073741824 \<le> x" for x :: u64
  by (simp_all add: word_le_nat_alt not_le Suc_le_eq [symmetric])

lemma VarintLen_cases:
  "VarintLen x =
     (if x \<le> 63 then 1 else if x \<le> 16383 then 2 else if x \<le> 1073741823 then 4
      else if x \<le> 4611686018427387903 then 8 else 0)"
  using word_not_le_steps [of x] by (auto simp: VarintLen_def)

lemma VarintPrefix_cases:
  "VarintPrefix x =
     (if x \<le> 63 then 0 else if x \<le> 16383 then 1 else if x \<le> 1073741823 then 2
      else if x \<le> 4611686018427387903 then 3 else 255)"
  by (simp add: VarintPrefix_def VarintLen_cases Let_def)

lemma ucast_fits:
  "x \<le> 63 \<Longrightarrow> ucast (ucast x :: u8) = x"
  "x \<le> 16383 \<Longrightarrow> ucast (ucast x :: u16) = x"
  "x \<le> 1073741823 \<Longrightarrow> ucast (ucast x :: u32) = x" for x :: u64
  unfolding le_iff_take_bit
  by (auto intro!: bit_word_eqI simp: bit_simps dest: take_bit_self_bits)

lemma and_62_fits: "x \<le> 4611686018427387903 \<Longrightarrow> x AND 4611686018427387903 = x" for x :: u64
  unfolding le_iff_take_bit by (simp add: take_bit_eq_mask mask_eq_exp_minus_1)

lemma le_62:
  "x \<le> 63 \<Longrightarrow> x \<le> 4611686018427387903"
  "x \<le> 16383 \<Longrightarrow> x \<le> 4611686018427387903"
  "x \<le> 1073741823 \<Longrightarrow> x \<le> 4611686018427387903" for x :: u64
  by (simp_all add: word_le_nat_alt)

lemma EncodeVarint_None: "snd (EncodeVarint x) \<longleftrightarrow> x \<le> 4611686018427387903"
  using le_62 [of x] by (auto simp: EncodeVarint_def Let_def VarintPrefix_cases)

lemma EncodeVarint_Prefix:
  "x \<le> 4611686018427387903 \<Longrightarrow> Prefix (fst (EncodeVarint x)) = VarintPrefix x"
  by (auto simp: EncodeVarint_def Let_def VarintPrefix_cases SetValue_def)

lemma EncodeVarint_tmp780:
  "x \<le> 4611686018427387903 \<Longrightarrow> tmp780 (fst (EncodeVarint x)) = x"
  by (auto simp: EncodeVarint_def Let_def VarintPrefix_cases SetValue_def ucast_fits and_62_fits le_62)

lemma EncodeVarint_Value:
  "x \<le> 4611686018427387903 \<Longrightarrow> Varint_Value (fst (EncodeVarint x)) = x"
  by (auto simp: Varint_Value_def EncodeVarint_Prefix EncodeVarint_tmp780 VarintPrefix_cases ucast_fits)

lemma EncodeVarint_wf: "x \<le> 4611686018427387903 \<Longrightarrow> Varint_wf (fst (EncodeVarint x))"
  by (auto simp: Varint_wf_def EncodeVarint_Prefix EncodeVarint_tmp780 VarintPrefix_cases)

lemma EncodeVarint_size:
  "x \<le> 4611686018427387903 \<Longrightarrow> Varint_size (fst (EncodeVarint x)) = unat (VarintLen x)"
  by (auto simp: Varint_size_def EncodeVarint_Prefix VarintPrefix_cases VarintLen_cases)

lemma Varint_Value_le: "Varint_Value v \<le> 4611686018427387903"
proof -
  have "tmp780 v \<le> 4611686018427387903" unfolding tmp780_def by (rule word_and_le1)
  then have "unat (tmp780 v) \<le> 4611686018427387903" by (simp add: word_le_nat_alt)
  then show ?thesis
    by (auto simp: Varint_Value_def word_le_nat_alt unsigned_ucast_eq take_bit_eq_mod unat_mod
        intro: order.trans [OF mod_less_eq_dividend])
qed

lemma Varint_DecodeSlice_offset:
  assumes "Varint_DecodeSlice w buf off = Inr (v, off')"
  shows "off < off'" and "off' \<le> length buf"
  using assms by (auto simp: Varint_DecodeSlice_def Let_def split: if_splits)


section \<open>Codec interfaces\<close>

text \<open>
  What a format promises to the formats and handlers built on it. \<open>wire x\<close> is the byte
  sequence of a value and \<open>ok x\<close> says which values the encoder accepts without loss.
\<close>

locale wire_format =
  fixes enc :: "'a encoder" and dec :: "'a decoder" and wire :: "'a \<Rightarrow> bytes"
    and ok :: "'a \<Rightarrow> bool"
  assumes enc_wire: "ok x \<Longrightarrow> enc x buf = Inr (buf @ wire x)"

locale exact_codec = wire_format +
  assumes dec_wire_end: "ok x \<Longrightarrow> dec (pre @ wire x) (length pre) = Inr (x, length pre + length (wire x))"
begin

lemma exact_roundtrip: "ok x \<Longrightarrow> decode_exact dec (wire x) = Inr x"
  using dec_wire_end [of x "[]"] by (simp add: decode_exact_def decode_rest_def)

text \<open>Behind a tag byte, as the union of packets writes its variants.\<close>

lemma dec_after_tag:
  "ok x \<Longrightarrow> dec (pre @ b # wire x) (Suc (length pre)) = Inr (x, Suc (length pre + length (wire x)))"
  using dec_wire_end [of x "pre @ [b]"] by simp

lemma wire_inj: "ok x \<Longrightarrow> ok y \<Longrightarrow> wire x = wire y \<Longrightarrow> x = y"
  using exact_roundtrip by (metis sum.inject(2))

end

locale self_delimiting = wire_format +
  assumes dec_wire: "ok x \<Longrightarrow> dec (pre @ wire x @ suf) (length pre) = Inr (x, length pre + length (wire x))"
begin

text \<open>No encoding is a proper prefix of another: the next field starts where this one ends.\<close>

lemma prefix_free:
  assumes "ok x" and "ok y" and "wire x @ suf = wire y @ suf'"
  shows "x = y" and "suf = suf'"
proof -
  have "Inr (x, length (wire x)) = dec (wire x @ suf) 0"
    using dec_wire [OF assms(1), of "[]" suf] by simp
  also have "\<dots> = dec (wire y @ suf') 0" by (simp only: assms(3))
  also have "\<dots> = Inr (y, length (wire y))"
    using dec_wire [OF assms(2), of "[]" suf'] by simp
  finally show "x = y" by simp
  with assms(3) show "suf = suf'" by simp
qed

lemma dec_rest: "ok x \<Longrightarrow> decode_rest dec (wire x @ suf) = Inr (x, suf)"
  using dec_wire [of x "[]" suf] by (simp add: decode_rest_def)

end

sublocale self_delimiting \<subseteq> exact_codec
  using dec_wire [where suf = "[]"] by unfold_locales simp

interpretation varint: self_delimiting Varint_Append "Varint_DecodeSlice w" Varint_wire Varint_wf
  by unfold_locales (simp_all add: Varint_Append_wire Varint_roundtrip)

section \<open>Properties\<close>

text \<open>
  A 64-bit value is accepted by \<open>EncodeVarint\<close> exactly when it is below 2^62; then the
  bytes \<open>Append\<close> writes are \<open>VarintLen\<close> many, and decoding them, at any place of any buffer,
  gives the value back and moves the offset just behind them.
\<close>

theorem EncodeVarint_roundtrip:
  assumes "snd (EncodeVarint x)"
  shows "x \<le> 4611686018427387903 \<and>
    (\<exists>w. Varint_Append (fst (EncodeVarint x)) buf = Inr (buf @ w) \<and> length w = unat (VarintLen x) \<and>
      (\<exists>v. Varint_DecodeSlice u (buf @ w @ suf) (length buf) = Inr (v, length (buf @ w)) \<and>
           Varint_Value v = x))"
proof -
  from assms have le: "x \<le> 4611686018427387903" by (simp add: EncodeVarint_None)
  let ?v = "fst (EncodeVarint x)"
  show ?thesis
    using le varint.dec_wire [OF EncodeVarint_wf [OF le], of u buf suf] EncodeVarint_Value [OF le]
    by (auto simp: Varint_Append_wire EncodeVarint_size [OF le])
qed

theorem EncodeVarint_roundtrip_witness:
  "(16384 :: u64) \<le> 4611686018427387903 \<and>
    (\<exists>w. Varint_Append (fst (EncodeVarint 16384)) [7] = Inr ([7] @ w) \<and> length w = unat (VarintLen 16384) \<and>
      (\<exists>v. Varint_DecodeSlice Varint_zero ([7] @ w @ [9]) (length [7 :: u8]) = Inr (v, length ([7] @ w)) \<and>
           Varint_Value v = 16384))"
  by (rule EncodeVarint_roundtrip) (simp add: EncodeVarint_None)

end
