(* ===== verification/Wire_Stream.thy ===== *)
theory Wire_Stream
  imports Wire_Varint
begin

text \<open>
  The packet formats of the trsf layer (\<open>src/trsf/wire/stream.go\<close>): stream data, ACK, window
  update, cancel, the ping and close bodies, and the tagged union \<open>StreamAppPacket\<close> that the
  receive path decodes. For every format its \<open>Append\<close> encoder and its \<open>DecodeSlice\<close> decoder
  (with the \<open>Decode\<close> and \<open>DecodeExact\<close> wrappers of \<open>Wire_Varint\<close>), and the proof that the
  two are inverse to each other on the values the encoder accepts.
\<close>

section \<open>StreamPacket\<close>

record StreamPacket =
  tmp50 :: u8
  sp_Id :: Varint
  sp_Offset :: Varint
  sp_Data :: bytes

definition StreamPacket_zero :: StreamPacket where
  "StreamPacket_zero = \<lparr>tmp50 = 0, sp_Id = Varint_zero, sp_Offset = Varint_zero, sp_Data = []\<rparr>"

definition hasId :: "StreamPacket \<Rightarrow> u8" where
  "hasId s = drop_bit 7 (tmp50 s) AND 1"

definition setHasId :: "StreamPacket \<Rightarrow> u8 \<Rightarrow> StreamPacket" where
  "setHasId s x = s\<lparr>tmp50 := (tmp50 s AND NOT (push_bit 7 1)) OR push_bit 7 (x AND 1)\<rparr>"

definition SetHasId :: "StreamPacket \<Rightarrow> bool \<Rightarrow> StreamPacket" where
  "SetHasId s b = setHasId s (if b then 1 else 0)"

definition hasOffset :: "StreamPacket \<Rightarrow> u8" where
  "hasOffset s = drop_bit 6 (tmp50 s) AND 1"

definition setHasOffset :: "StreamPacket \<Rightarrow> u8 \<Rightarrow> StreamPacket" where
  "setHasOffset s x = s\<lparr>tmp50 := (tmp50 s AND NOT (push_bit 6 1)) OR push_bit 6 (x AND 1)\<rparr>"

definition SetHasOffset :: "StreamPacket \<Rightarrow> bool \<Rightarrow> StreamPacket" where
  "SetHasOffset s b = setHasOffset s (if b then 1 else 0)"

definition isEof :: "StreamPacket \<Rightarrow> u8" where
  "isEof s = drop_bit 5 (tmp50 s) AND 1"

definition IsEof :: "StreamPacket \<Rightarrow> bool" where
  "IsEof s \<longleftrightarrow> isEof s \<noteq> 0"

definition setIsEof :: "StreamPacket \<Rightarrow> u8 \<Rightarrow> StreamPacket" where
  "setIsEof s x = s\<lparr>tmp50 := (tmp50 s AND NOT (push_bit 5 1)) OR push_bit 5 (x AND 1)\<rparr>"

definition SetIsEof :: "StreamPacket \<Rightarrow> bool \<Rightarrow> StreamPacket" where
  "SetIsEof s b = setIsEof s (if b then 1 else 0)"

definition isProbe :: "StreamPacket \<Rightarrow> u8" where
  "isProbe s = drop_bit 4 (tmp50 s) AND 1"

definition IsProbe :: "StreamPacket \<Rightarrow> bool" where
  "IsProbe s \<longleftrightarrow> isProbe s \<noteq> 0"

definition setIsProbe :: "StreamPacket \<Rightarrow> u8 \<Rightarrow> StreamPacket" where
  "setIsProbe s x = s\<lparr>tmp50 := (tmp50 s AND NOT (push_bit 4 1)) OR push_bit 4 (x AND 1)\<rparr>"

definition SetIsProbe :: "StreamPacket \<Rightarrow> bool \<Rightarrow> StreamPacket" where
  "SetIsProbe s b = setIsProbe s (if b then 1 else 0)"

definition Reserved :: "StreamPacket \<Rightarrow> u8" where
  "Reserved s = drop_bit 0 (tmp50 s) AND 15"

definition SetReserved :: "StreamPacket \<Rightarrow> u8 \<Rightarrow> StreamPacket" where
  "SetReserved s x = s\<lparr>tmp50 := (tmp50 s AND NOT (push_bit 0 15)) OR push_bit 0 (x AND 15)\<rparr>"

definition StreamPacket_Id :: "StreamPacket \<Rightarrow> Varint option" where
  "StreamPacket_Id s = (if hasId s = 1 then Some (sp_Id s) else None)"

definition StreamPacket_SetId :: "StreamPacket \<Rightarrow> Varint \<Rightarrow> StreamPacket" where
  "StreamPacket_SetId s v = (if hasId s = 1 then s\<lparr>sp_Id := v\<rparr> else s)"

definition StreamPacket_Offset :: "StreamPacket \<Rightarrow> Varint option" where
  "StreamPacket_Offset s = (if hasOffset s = 1 then Some (sp_Offset s) else None)"

definition StreamPacket_SetOffset :: "StreamPacket \<Rightarrow> Varint \<Rightarrow> StreamPacket" where
  "StreamPacket_SetOffset s v = (if hasOffset s = 1 then s\<lparr>sp_Offset := v\<rparr> else s)"

definition StreamPacket_Append :: "StreamPacket encoder" where
  "StreamPacket_Append s buf =
     (let b = push_bit 7 (hasId s AND 1) OR push_bit 6 (hasOffset s AND 1)
              OR push_bit 5 (isEof s AND 1) OR push_bit 4 (isProbe s AND 1) OR (Reserved s AND 15)
      in rbind (if hasId s = 1 then Varint_Append (sp_Id s) (buf @ [b]) else Inr (buf @ [b])) (\<lambda>buf.
         rbind (if hasOffset s = 1 then Varint_Append (sp_Offset s) buf else Inr buf) (\<lambda>buf.
         Inr (buf @ sp_Data s))))"

definition StreamPacket_DecodeSlice :: "StreamPacket \<Rightarrow> StreamPacket decoder" where
  "StreamPacket_DecodeSlice s buf off =
     (if length buf - off < 1 then Inl (NotEnoughData ''tmp291'')
      else
        let b = buf ! off;
            s = setHasId s (drop_bit 7 (b AND 128));
            s = setHasOffset s (drop_bit 6 (b AND 64));
            s = setIsEof s (drop_bit 5 (b AND 32));
            s = setIsProbe s (drop_bit 4 (b AND 16));
            s = SetReserved s (b AND 15)
        in rbind (if hasId s = 1 then
                    rbind (Varint_DecodeSlice (sp_Id s) buf (off + 1)) (\<lambda>(v, off). Inr (s\<lparr>sp_Id := v\<rparr>, off))
                  else Inr (s, off + 1)) (\<lambda>(s, off).
           rbind (if hasOffset s = 1 then
                    rbind (Varint_DecodeSlice (sp_Offset s) buf off) (\<lambda>(v, off). Inr (s\<lparr>sp_Offset := v\<rparr>, off))
                  else Inr (s, off)) (\<lambda>(s, off).
           Inr (s\<lparr>sp_Data := drop off buf\<rparr>, off + length (drop off buf)))))"

section \<open>ACKRange and StreamACKPacket\<close>

record ACKRange =
  ar_Offset :: Varint
  ar_Delta :: Varint

definition ACKRange_zero :: ACKRange where
  "ACKRange_zero = \<lparr>ar_Offset = Varint_zero, ar_Delta = Varint_zero\<rparr>"

definition ACKRange_Append :: "ACKRange encoder" where
  "ACKRange_Append a buf =
     rbind (Varint_Append (ar_Offset a) buf) (\<lambda>buf. Varint_Append (ar_Delta a) buf)"

definition ACKRange_DecodeSlice :: "ACKRange \<Rightarrow> ACKRange decoder" where
  "ACKRange_DecodeSlice a buf off =
     rbind (Varint_DecodeSlice (ar_Offset a) buf off) (\<lambda>(o', off).
     rbind (Varint_DecodeSlice (ar_Delta a) buf off) (\<lambda>(d, off).
     Inr (a\<lparr>ar_Offset := o', ar_Delta := d\<rparr>, off)))"

record StreamACKPacket =
  LargestAck :: Varint
  AckDelay :: Varint
  FirstDelta :: Varint
  ack_Len :: Varint
  Ranges :: "ACKRange list"

definition StreamACKPacket_zero :: StreamACKPacket where
  "StreamACKPacket_zero =
     \<lparr>LargestAck = Varint_zero, AckDelay = Varint_zero, FirstDelta = Varint_zero,
      ack_Len = Varint_zero, Ranges = []\<rparr>"

fun append_ranges :: "ACKRange list \<Rightarrow> bytes \<Rightarrow> (wire_error, bytes) result" where
  "append_ranges [] buf = Inr buf"
| "append_ranges (r # rs) buf = rbind (ACKRange_Append r buf) (append_ranges rs)"

text \<open>
  The write loop runs \<open>Len\<close> times over \<open>Ranges\<close>; the size check just before it makes the two
  counts equal, so the loop is a walk over the list.
\<close>

definition StreamACKPacket_Append :: "StreamACKPacket encoder" where
  "StreamACKPacket_Append s buf =
     rbind (Varint_Append (LargestAck s) buf) (\<lambda>buf.
     rbind (Varint_Append (AckDelay s) buf) (\<lambda>buf.
     rbind (Varint_Append (FirstDelta s) buf) (\<lambda>buf.
     rbind (Varint_Append (ack_Len s) buf) (\<lambda>buf.
     if length (Ranges s) \<noteq> unat (Varint_Value (ack_Len s))
     then Inl (SizeMismatch (unat (Varint_Value (ack_Len s))) (length (Ranges s)))
     else append_ranges (Ranges s) buf))))"

fun decode_ranges :: "nat \<Rightarrow> bytes \<Rightarrow> nat \<Rightarrow> ACKRange list \<Rightarrow> (wire_error, ACKRange list \<times> nat) result" where
  "decode_ranges 0 buf off acc = Inr (acc, off)"
| "decode_ranges (Suc n) buf off acc =
     rbind (ACKRange_DecodeSlice ACKRange_zero buf off) (\<lambda>(r, off).
     decode_ranges n buf off (acc @ [r]))"

definition StreamACKPacket_DecodeSlice :: "StreamACKPacket \<Rightarrow> StreamACKPacket decoder" where
  "StreamACKPacket_DecodeSlice s buf off =
     rbind (Varint_DecodeSlice (LargestAck s) buf off) (\<lambda>(la, off).
     rbind (Varint_DecodeSlice (AckDelay s) buf off) (\<lambda>(ad, off).
     rbind (Varint_DecodeSlice (FirstDelta s) buf off) (\<lambda>(fd, off).
     rbind (Varint_DecodeSlice (ack_Len s) buf off) (\<lambda>(ln, off).
     rbind (decode_ranges (unat (Varint_Value ln)) buf off (Ranges s)) (\<lambda>(rs, off).
     Inr (\<lparr>LargestAck = la, AckDelay = ad, FirstDelta = fd, ack_Len = ln, Ranges = rs\<rparr>, off))))))"

section \<open>UpdateWindow and CancelStreamPacket\<close>

record UpdateWindow =
  uw_Id :: Varint
  WindowMax :: Varint

definition UpdateWindow_zero :: UpdateWindow where
  "UpdateWindow_zero = \<lparr>uw_Id = Varint_zero, WindowMax = Varint_zero\<rparr>"

definition UpdateWindow_Append :: "UpdateWindow encoder" where
  "UpdateWindow_Append u buf =
     rbind (Varint_Append (uw_Id u) buf) (\<lambda>buf. Varint_Append (WindowMax u) buf)"

definition UpdateWindow_DecodeSlice :: "UpdateWindow \<Rightarrow> UpdateWindow decoder" where
  "UpdateWindow_DecodeSlice u buf off =
     rbind (Varint_DecodeSlice (uw_Id u) buf off) (\<lambda>(i, off).
     rbind (Varint_DecodeSlice (WindowMax u) buf off) (\<lambda>(w, off).
     Inr (\<lparr>uw_Id = i, WindowMax = w\<rparr>, off)))"

record CancelStreamPacket =
  cs_Id :: Varint

definition CancelStreamPacket_zero :: CancelStreamPacket where
  "CancelStreamPacket_zero = \<lparr>cs_Id = Varint_zero\<rparr>"

definition CancelStreamPacket_Append :: "CancelStreamPacket encoder" where
  "CancelStreamPacket_Append c buf = Varint_Append (cs_Id c) buf"

definition CancelStreamPacket_DecodeSlice :: "CancelStreamPacket \<Rightarrow> CancelStreamPacket decoder" where
  "CancelStreamPacket_DecodeSlice c buf off =
     rbind (Varint_DecodeSlice (cs_Id c) buf off) (\<lambda>(i, off). Inr (\<lparr>cs_Id = i\<rparr>, off))"

section \<open>PingBody and CloseBody\<close>

record PingBody =
  Nanos :: u64

definition PingBody_Append :: "PingBody encoder" where
  "PingBody_Append p buf = Inr (buf @ PutUint64 (Nanos p))"

definition PingBody_DecodeSlice :: "PingBody decoder" where
  "PingBody_DecodeSlice buf off =
     (if length buf - off < 8 then Inl (NotEnoughData ''PingBody::Nanos'')
      else Inr (\<lparr>Nanos = Uint64 (take 8 (drop off buf))\<rparr>, off + 8))"

type_synonym CloseStatus = u8

abbreviation (input) CloseStatus_Ok :: CloseStatus where "CloseStatus_Ok \<equiv> 0"
abbreviation (input) CloseStatus_Failed :: CloseStatus where "CloseStatus_Failed \<equiv> 1"

record CloseBody =
  Status :: CloseStatus
  MessageLen :: u16
  Message :: bytes

definition SetMessage :: "CloseBody \<Rightarrow> bytes \<Rightarrow> CloseBody \<times> bool" where
  "SetMessage c m =
     (if length m > 65535 then (c, False)
      else (c\<lparr>MessageLen := of_nat (length m), Message := m\<rparr>, True))"

definition CloseBody_Append :: "CloseBody encoder" where
  "CloseBody_Append c buf =
     (let buf = buf @ [Status c]; buf = buf @ PutUint16 (MessageLen c) in
      if length (Message c) \<noteq> unat (MessageLen c)
      then Inl (SizeMismatch (unat (MessageLen c)) (length (Message c)))
      else Inr (buf @ Message c))"

definition CloseBody_DecodeSlice :: "CloseBody decoder" where
  "CloseBody_DecodeSlice buf off =
     (if length buf - off < 1 then Inl (NotEnoughData ''CloseBody::Status'')
      else if length buf - (off + 1) < 2 then Inl (NotEnoughData ''CloseBody::MessageLen'')
      else
        let n = Uint16 (take 2 (drop (off + 1) buf)); off3 = off + 3 in
        if length buf - off3 < unat n then Inl (NotEnoughData ''CloseBody::Message'')
        else Inr (\<lparr>Status = buf ! off, MessageLen = n, Message = take (unat n) (drop off3 buf)\<rparr>,
                  off3 + unat n))"

section \<open>PacketHeader and StreamAppPacket\<close>

definition USER_DEFINED_START :: u8 where
  "USER_DEFINED_START = 64"

type_synonym ApplicationPayloadKind = u8

abbreviation (input) ApplicationPayloadKind_Ping :: u8 where "ApplicationPayloadKind_Ping \<equiv> 0"
abbreviation (input) ApplicationPayloadKind_Pong :: u8 where "ApplicationPayloadKind_Pong \<equiv> 1"
abbreviation (input) ApplicationPayloadKind_Close :: u8 where "ApplicationPayloadKind_Close \<equiv> 2"
abbreviation (input) ApplicationPayloadKind_StreamData :: u8 where "ApplicationPayloadKind_StreamData \<equiv> 3"
abbreviation (input) ApplicationPayloadKind_StreamCancel :: u8 where "ApplicationPayloadKind_StreamCancel \<equiv> 4"
abbreviation (input) ApplicationPayloadKind_StreamAck :: u8 where "ApplicationPayloadKind_StreamAck \<equiv> 5"
abbreviation (input) ApplicationPayloadKind_StreamWindowUpdate :: u8 where
  "ApplicationPayloadKind_StreamWindowUpdate \<equiv> 6"

record PacketHeader =
  Kind :: ApplicationPayloadKind

definition PacketHeader_Append :: "PacketHeader encoder" where
  "PacketHeader_Append p buf = Inr (buf @ [Kind p])"

definition PacketHeader_DecodeSlice :: "PacketHeader decoder" where
  "PacketHeader_DecodeSlice buf off =
     (if length buf - off < 1 then Inl (NotEnoughData ''PacketHeader::Kind'')
      else Inr (\<lparr>Kind = buf ! off\<rparr>, off + 1))"

definition IsStreamRelated :: "ApplicationPayloadKind \<Rightarrow> bool" where
  "IsStreamRelated k \<longleftrightarrow>
     ApplicationPayloadKind_StreamData = k \<or> ApplicationPayloadKind_StreamCancel = k \<or>
     ApplicationPayloadKind_StreamAck = k \<or> ApplicationPayloadKind_StreamWindowUpdate = k"

record StreamAppPacket =
  Header :: PacketHeader
  var_StreamData :: StreamPacket
  var_StreamCancel :: CancelStreamPacket
  var_StreamAck :: StreamACKPacket
  var_WindowUpdate :: UpdateWindow

definition StreamAppPacket_zero :: StreamAppPacket where
  "StreamAppPacket_zero =
     \<lparr>Header = \<lparr>Kind = 0\<rparr>, var_StreamData = StreamPacket_zero,
      var_StreamCancel = CancelStreamPacket_zero, var_StreamAck = StreamACKPacket_zero,
      var_WindowUpdate = UpdateWindow_zero\<rparr>"

definition StreamData :: "StreamAppPacket \<Rightarrow> StreamPacket option" where
  "StreamData s =
     (if Kind (Header s) = ApplicationPayloadKind_StreamData then Some (var_StreamData s) else None)"

definition StreamCancel :: "StreamAppPacket \<Rightarrow> CancelStreamPacket option" where
  "StreamCancel s =
     (if Kind (Header s) = ApplicationPayloadKind_StreamData then None
      else if Kind (Header s) = ApplicationPayloadKind_StreamCancel then Some (var_StreamCancel s)
      else None)"

definition StreamAck :: "StreamAppPacket \<Rightarrow> StreamACKPacket option" where
  "StreamAck s =
     (if ApplicationPayloadKind_StreamData = Kind (Header s) \<or>
         ApplicationPayloadKind_StreamCancel = Kind (Header s) then None
      else if Kind (Header s) = ApplicationPayloadKind_StreamAck then Some (var_StreamAck s)
      else None)"

definition WindowUpdate :: "StreamAppPacket \<Rightarrow> UpdateWindow option" where
  "WindowUpdate s =
     (if ApplicationPayloadKind_StreamData = Kind (Header s) \<or>
         ApplicationPayloadKind_StreamCancel = Kind (Header s) \<or>
         ApplicationPayloadKind_StreamAck = Kind (Header s) then None
      else if Kind (Header s) = ApplicationPayloadKind_StreamWindowUpdate
      then Some (var_WindowUpdate s)
      else None)"

definition StreamAppPacket_Append :: "StreamAppPacket encoder" where
  "StreamAppPacket_Append s buf =
     rbind (PacketHeader_Append (Header s) buf) (\<lambda>buf.
     if Kind (Header s) = ApplicationPayloadKind_StreamData
     then StreamPacket_Append (var_StreamData s) buf
     else if Kind (Header s) = ApplicationPayloadKind_StreamCancel
     then CancelStreamPacket_Append (var_StreamCancel s) buf
     else if Kind (Header s) = ApplicationPayloadKind_StreamAck
     then StreamACKPacket_Append (var_StreamAck s) buf
     else if Kind (Header s) = ApplicationPayloadKind_StreamWindowUpdate
     then UpdateWindow_Append (var_WindowUpdate s) buf
     else Inl UnexpectedPacket)"

definition StreamAppPacket_DecodeSlice :: "StreamAppPacket \<Rightarrow> StreamAppPacket decoder" where
  "StreamAppPacket_DecodeSlice s buf off =
     rbind (PacketHeader_DecodeSlice buf off) (\<lambda>(h, off).
     if Kind h = ApplicationPayloadKind_StreamData then
       rbind (StreamPacket_DecodeSlice (var_StreamData s) buf off)
         (\<lambda>(p, off). Inr (s\<lparr>Header := h, var_StreamData := p\<rparr>, off))
     else if Kind h = ApplicationPayloadKind_StreamCancel then
       rbind (CancelStreamPacket_DecodeSlice (var_StreamCancel s) buf off)
         (\<lambda>(p, off). Inr (s\<lparr>Header := h, var_StreamCancel := p\<rparr>, off))
     else if Kind h = ApplicationPayloadKind_StreamAck then
       rbind (StreamACKPacket_DecodeSlice (var_StreamAck s) buf off)
         (\<lambda>(p, off). Inr (s\<lparr>Header := h, var_StreamAck := p\<rparr>, off))
     else if Kind h = ApplicationPayloadKind_StreamWindowUpdate then
       rbind (UpdateWindow_DecodeSlice (var_WindowUpdate s) buf off)
         (\<lambda>(p, off). Inr (s\<lparr>Header := h, var_WindowUpdate := p\<rparr>, off))
     else Inl UnexpectedPacket)"

definition StreamAppPacket_DecodeExact :: "bytes \<Rightarrow> (wire_error, StreamAppPacket) result" where
  "StreamAppPacket_DecodeExact buf =
     decode_exact (StreamAppPacket_DecodeSlice StreamAppPacket_zero) buf"

definition PingBody_DecodeExact :: "bytes \<Rightarrow> (wire_error, PingBody) result" where
  "PingBody_DecodeExact buf = decode_exact PingBody_DecodeSlice buf"

definition CloseBody_DecodeExact :: "bytes \<Rightarrow> (wire_error, CloseBody) result" where
  "CloseBody_DecodeExact buf = decode_exact CloseBody_DecodeSlice buf"


section \<open>Round trips\<close>

subsection \<open>StreamPacket\<close>

lemma word_bits_1: "(128::u8) = push_bit 7 (mask 1)" "(64::u8) = push_bit 6 (mask 1)"
  "(32::u8) = push_bit 5 (mask 1)" "(16::u8) = push_bit 4 (mask 1)"
  by (simp_all add: mask_eq_exp_minus_1)

lemma u8_bit_cases:
  assumes "n < LENGTH(8)"
  obtains "n < 4" | "n = 4" | "n = 5" | "n = 6" | "n = 7"
  using assms by fastforce

lemma flag_byte:
  "push_bit 7 (hasId s AND 1) OR push_bit 6 (hasOffset s AND 1) OR push_bit 5 (isEof s AND 1)
     OR push_bit 4 (isProbe s AND 1) OR (Reserved s AND 15) = tmp50 s"
proof (rule bit_word_eqI, goal_cases)
  case (1 n)
  then show ?case
    unfolding hasId_def hasOffset_def isEof_def isProbe_def Reserved_def mask_numerals
    by (cases rule: u8_bit_cases) (simp_all add: bit_simps)
qed

lemma flag_setters:
  "SetReserved (setIsProbe (setIsEof (setHasOffset (setHasId s (drop_bit 7 (b AND 128)))
      (drop_bit 6 (b AND 64))) (drop_bit 5 (b AND 32))) (drop_bit 4 (b AND 16))) (b AND 15)
     = s\<lparr>tmp50 := b\<rparr>"
proof -
  have "tmp50 (SetReserved (setIsProbe (setIsEof (setHasOffset (setHasId s (drop_bit 7 (b AND 128)))
      (drop_bit 6 (b AND 64))) (drop_bit 5 (b AND 32))) (drop_bit 4 (b AND 16))) (b AND 15)) = b"
  proof (rule bit_word_eqI, goal_cases)
    case (1 n)
    then show ?case
      unfolding setHasId_def setHasOffset_def setIsEof_def setIsProbe_def SetReserved_def
        word_bits_1 mask_numerals
      by (cases rule: u8_bit_cases) (simp_all add: bit_simps)
  qed
  then show ?thesis
    by (simp add: setHasId_def setHasOffset_def setIsEof_def setIsProbe_def SetReserved_def)
qed

definition StreamPacket_wire :: "StreamPacket \<Rightarrow> bytes" where
  "StreamPacket_wire s =
     [tmp50 s] @ (if hasId s = 1 then Varint_wire (sp_Id s) else [])
       @ (if hasOffset s = 1 then Varint_wire (sp_Offset s) else []) @ sp_Data s"

definition StreamPacket_ok :: "StreamPacket \<Rightarrow> bool" where
  "StreamPacket_ok s \<longleftrightarrow>
     (if hasId s = 1 then Varint_wf (sp_Id s) else sp_Id s = Varint_zero) \<and>
     (if hasOffset s = 1 then Varint_wf (sp_Offset s) else sp_Offset s = Varint_zero)"

lemma StreamPacket_Append_wire:
  "StreamPacket_Append s buf = Inr (buf @ StreamPacket_wire s)"
  unfolding StreamPacket_Append_def flag_byte Let_def
  by (simp add: StreamPacket_wire_def Varint_Append_wire)

lemma flags_update:
  "hasId (s\<lparr>sp_Id := i\<rparr>) = hasId s" "hasId (s\<lparr>sp_Offset := i\<rparr>) = hasId s"
  "hasOffset (s\<lparr>sp_Id := i\<rparr>) = hasOffset s" "hasOffset (s\<lparr>sp_Offset := i\<rparr>) = hasOffset s"
  by (simp_all add: hasId_def hasOffset_def)

lemma hasId_hasOffset_of: "tmp50 s = tmp50 t \<Longrightarrow> hasId s = hasId t"
  "tmp50 s = tmp50 t \<Longrightarrow> hasOffset s = hasOffset t"
  by (simp_all add: hasId_def hasOffset_def)

text \<open>The decoder on a buffer described by what stands at each offset.\<close>

lemma StreamPacket_DecodeSlice_parts:
  assumes "off < length buf" and "buf ! off = tmp50 s"
    and "(if hasId s = 1 then Varint_DecodeSlice Varint_zero buf (off + 1) = Inr (sp_Id s, n2)
          else sp_Id s = Varint_zero \<and> n2 = off + 1)"
    and "(if hasOffset s = 1 then Varint_DecodeSlice Varint_zero buf n2 = Inr (sp_Offset s, n3)
          else sp_Offset s = Varint_zero \<and> n3 = n2)"
    and "drop n3 buf = sp_Data s"
  shows "StreamPacket_DecodeSlice StreamPacket_zero buf off = Inr (s, n3 + length (sp_Data s))"
proof -
  define z where "z = StreamPacket_zero\<lparr>tmp50 := tmp50 s\<rparr>"
  have z: "hasId z = hasId s" "hasOffset z = hasOffset s"
    by (rule hasId_hasOffset_of, simp add: z_def)+
  have [simp]: "sp_Id z = Varint_zero" "sp_Offset z = Varint_zero"
    and eq: "z\<lparr>sp_Id := sp_Id s, sp_Offset := sp_Offset s, sp_Data := sp_Data s\<rparr> = s"
    by (simp_all add: z_def StreamPacket_zero_def)
  have keep: "sp_Id s = Varint_zero \<Longrightarrow> z = z\<lparr>sp_Id := sp_Id s\<rparr>"
    "sp_Offset s = Varint_zero \<Longrightarrow> z\<lparr>sp_Id := i\<rparr> = z\<lparr>sp_Id := i, sp_Offset := sp_Offset s\<rparr>" for i
    by (simp_all add: z_def StreamPacket_zero_def)
  have id: "(if hasId z = 1 then rbind (Varint_DecodeSlice (sp_Id z) buf (off + 1))
               (\<lambda>(v, off). Inr (z\<lparr>sp_Id := v\<rparr>, off)) else Inr (z, off + 1))
      = (Inr (z\<lparr>sp_Id := sp_Id s\<rparr>, n2) :: (wire_error, StreamPacket \<times> nat) result)"
    using assms(3) keep(1) by (auto simp: z split: if_splits)
  have ofs: "(if hasOffset (z\<lparr>sp_Id := i\<rparr>) = 1 then rbind (Varint_DecodeSlice (sp_Offset (z\<lparr>sp_Id := i\<rparr>)) buf n2)
               (\<lambda>(v, off). Inr (z\<lparr>sp_Id := i, sp_Offset := v\<rparr>, off)) else Inr (z\<lparr>sp_Id := i\<rparr>, n2))
      = (Inr (z\<lparr>sp_Id := i, sp_Offset := sp_Offset s\<rparr>, n3) :: (wire_error, StreamPacket \<times> nat) result)" for i
    using assms(4) keep(2) [of i] by (auto simp: z flags_update split: if_splits)
  from assms(1) have "\<not> length buf - off < 1" by simp
  then show ?thesis
    unfolding StreamPacket_DecodeSlice_def Let_def flag_setters assms(2) z_def [symmetric]
    by (simp only: if_False id rbind.simps case_prod_conv ofs assms(5) eq)
qed

lemma StreamPacket_roundtrip:
  assumes ok: "StreamPacket_ok s"
  shows "StreamPacket_DecodeSlice StreamPacket_zero (pre @ StreamPacket_wire s) (length pre) =
    Inr (s, length pre + length (StreamPacket_wire s))"
proof -
  let ?id = "if hasId s = 1 then Varint_wire (sp_Id s) else []"
  let ?of = "if hasOffset s = 1 then Varint_wire (sp_Offset s) else []"
  let ?n2 = "length (pre @ [tmp50 s] @ ?id)" and ?n3 = "length (pre @ [tmp50 s] @ ?id @ ?of)"
  have buf: "pre @ StreamPacket_wire s = (pre @ [tmp50 s]) @ ?id @ ?of @ sp_Data s"
    by (simp add: StreamPacket_wire_def)
  have "StreamPacket_DecodeSlice StreamPacket_zero (pre @ StreamPacket_wire s) (length pre) =
      Inr (s, ?n3 + length (sp_Data s))"
  proof (rule StreamPacket_DecodeSlice_parts [where ?n2.0 = ?n2])
    show "length pre < length (pre @ StreamPacket_wire s)"
      and "(pre @ StreamPacket_wire s) ! length pre = tmp50 s"
      by (simp_all add: StreamPacket_wire_def)
    show "if hasId s = 1 then Varint_DecodeSlice Varint_zero (pre @ StreamPacket_wire s) (length pre + 1)
            = Inr (sp_Id s, ?n2)
          else sp_Id s = Varint_zero \<and> ?n2 = length pre + 1"
      using ok Varint_roundtrip [of "sp_Id s" "length pre + 1" "pre @ [tmp50 s]" Varint_zero "?of @ sp_Data s"]
      unfolding buf by (auto simp: StreamPacket_ok_def)
    show "if hasOffset s = 1 then Varint_DecodeSlice Varint_zero (pre @ StreamPacket_wire s) ?n2
            = Inr (sp_Offset s, ?n3)
          else sp_Offset s = Varint_zero \<and> ?n3 = ?n2"
      using ok Varint_roundtrip [of "sp_Offset s" ?n2 "pre @ [tmp50 s] @ ?id" Varint_zero "sp_Data s"]
      unfolding buf by (auto simp: StreamPacket_ok_def)
    show "drop ?n3 (pre @ StreamPacket_wire s) = sp_Data s"
      unfolding StreamPacket_wire_def by simp
  qed
  then show ?thesis by (simp add: StreamPacket_wire_def)
qed

interpretation stream_packet: exact_codec StreamPacket_Append
  "StreamPacket_DecodeSlice StreamPacket_zero" StreamPacket_wire StreamPacket_ok
  by unfold_locales (simp_all add: StreamPacket_Append_wire StreamPacket_roundtrip)


subsection \<open>The fixed layouts\<close>

text \<open>
  A field that stands at an offset, and the offset just behind it: chaining this rule decodes a
  sequence of varints.
\<close>

lemma Varint_at:
  assumes "Varint_wf v" and "drop off buf = Varint_wire v @ suf"
  shows "Varint_DecodeSlice w buf off = Inr (v, off + Varint_size v)"
    and "drop (off + Varint_size v) buf = suf"
proof -
  have "off < length buf"
    using assms(2) length_Varint_wire [of v] by (cases "off < length buf") (auto simp: Varint_size_def split: if_splits)
  then have "buf = take off buf @ Varint_wire v @ suf" and "off = length (take off buf)"
    using append_take_drop_id [of off buf] assms(2) by simp_all
  then show "Varint_DecodeSlice w buf off = Inr (v, off + Varint_size v)"
    using Varint_roundtrip [OF assms(1), of off "take off buf" w suf] by simp
  show "drop (off + Varint_size v) buf = suf"
    using assms(2) by (simp add: drop_drop [symmetric] add.commute [of off])
qed

definition UpdateWindow_wire :: "UpdateWindow \<Rightarrow> bytes" where
  "UpdateWindow_wire u = Varint_wire (uw_Id u) @ Varint_wire (WindowMax u)"

definition UpdateWindow_ok :: "UpdateWindow \<Rightarrow> bool" where
  "UpdateWindow_ok u \<longleftrightarrow> Varint_wf (uw_Id u) \<and> Varint_wf (WindowMax u)"

interpretation update_window: self_delimiting UpdateWindow_Append
  "UpdateWindow_DecodeSlice w" UpdateWindow_wire UpdateWindow_ok
proof unfold_locales
  fix x buf assume "UpdateWindow_ok x"
  show "UpdateWindow_Append x buf = Inr (buf @ UpdateWindow_wire x)"
    by (simp add: UpdateWindow_Append_def UpdateWindow_wire_def Varint_Append_wire)
next
  fix x pre suf assume ok: "UpdateWindow_ok x"
  let ?buf = "pre @ UpdateWindow_wire x @ suf"
  have "drop (length pre) ?buf = Varint_wire (uw_Id x) @ Varint_wire (WindowMax x) @ suf"
    by (simp add: UpdateWindow_wire_def)
  note f1 = Varint_at [OF _ this]
  note f2 = Varint_at(1) [OF _ f1(2)]
  show "UpdateWindow_DecodeSlice w ?buf (length pre) = Inr (x, length pre + length (UpdateWindow_wire x))"
    using ok f1 f2 by (simp add: UpdateWindow_DecodeSlice_def UpdateWindow_ok_def UpdateWindow_wire_def)
qed

definition CancelStreamPacket_wire :: "CancelStreamPacket \<Rightarrow> bytes" where
  "CancelStreamPacket_wire c = Varint_wire (cs_Id c)"

definition CancelStreamPacket_ok :: "CancelStreamPacket \<Rightarrow> bool" where
  "CancelStreamPacket_ok c \<longleftrightarrow> Varint_wf (cs_Id c)"

interpretation cancel_stream: self_delimiting CancelStreamPacket_Append
  "CancelStreamPacket_DecodeSlice w" CancelStreamPacket_wire CancelStreamPacket_ok
  by unfold_locales
    (simp_all add: CancelStreamPacket_Append_def CancelStreamPacket_DecodeSlice_def
      CancelStreamPacket_wire_def CancelStreamPacket_ok_def Varint_Append_wire Varint_roundtrip)

definition PingBody_wire :: "PingBody \<Rightarrow> bytes" where
  "PingBody_wire p = PutUint64 (Nanos p)"

interpretation ping_body: self_delimiting PingBody_Append PingBody_DecodeSlice PingBody_wire "\<lambda>_. True"
  by unfold_locales (simp_all add: PingBody_Append_def PingBody_DecodeSlice_def PingBody_wire_def)

definition CloseBody_wire :: "CloseBody \<Rightarrow> bytes" where
  "CloseBody_wire c = [Status c] @ PutUint16 (MessageLen c) @ Message c"

definition CloseBody_ok :: "CloseBody \<Rightarrow> bool" where
  "CloseBody_ok c \<longleftrightarrow> length (Message c) = unat (MessageLen c)"

interpretation close_body: self_delimiting CloseBody_Append CloseBody_DecodeSlice CloseBody_wire CloseBody_ok
  by unfold_locales
    (simp_all add: CloseBody_Append_def CloseBody_DecodeSlice_def CloseBody_wire_def CloseBody_ok_def
      Let_def)

lemma SetMessage_ok: "snd (SetMessage c m) \<Longrightarrow> CloseBody_ok (fst (SetMessage c m))"
  by (auto simp: SetMessage_def CloseBody_ok_def unat_of_nat split: if_splits)

subsection \<open>StreamACKPacket\<close>

definition ACKRange_wire :: "ACKRange \<Rightarrow> bytes" where
  "ACKRange_wire a = Varint_wire (ar_Offset a) @ Varint_wire (ar_Delta a)"

definition ACKRange_ok :: "ACKRange \<Rightarrow> bool" where
  "ACKRange_ok a \<longleftrightarrow> Varint_wf (ar_Offset a) \<and> Varint_wf (ar_Delta a)"

lemma ACKRange_at:
  assumes ok: "ACKRange_ok a" and d: "drop off buf = ACKRange_wire a @ suf"
  shows "ACKRange_DecodeSlice w buf off = Inr (a, off + length (ACKRange_wire a))"
    and "drop (off + length (ACKRange_wire a)) buf = suf"
proof -
  have "drop off buf = Varint_wire (ar_Offset a) @ Varint_wire (ar_Delta a) @ suf"
    using d by (simp add: ACKRange_wire_def)
  note f1 = Varint_at [OF _ this]
  note f2 = Varint_at [OF _ f1(2)]
  show "ACKRange_DecodeSlice w buf off = Inr (a, off + length (ACKRange_wire a))"
    and "drop (off + length (ACKRange_wire a)) buf = suf"
    using ok f1 f2 by (simp_all add: ACKRange_DecodeSlice_def ACKRange_ok_def ACKRange_wire_def add.assoc)
qed

interpretation ack_range: self_delimiting ACKRange_Append "ACKRange_DecodeSlice w" ACKRange_wire ACKRange_ok
proof unfold_locales
  fix x buf assume "ACKRange_ok x"
  show "ACKRange_Append x buf = Inr (buf @ ACKRange_wire x)"
    by (simp add: ACKRange_Append_def ACKRange_wire_def Varint_Append_wire)
next
  fix x pre suf assume "ACKRange_ok x"
  then show "ACKRange_DecodeSlice w (pre @ ACKRange_wire x @ suf) (length pre)
      = Inr (x, length pre + length (ACKRange_wire x))"
    by (rule ACKRange_at(1)) simp
qed

lemma append_ranges_wire:
  "\<forall>r \<in> set rs. ACKRange_ok r \<Longrightarrow> append_ranges rs buf = Inr (buf @ concat (map ACKRange_wire rs))"
  by (induction rs arbitrary: buf) (simp_all add: ack_range.enc_wire)

lemma decode_ranges_at:
  "\<forall>r \<in> set rs. ACKRange_ok r \<Longrightarrow> drop off buf = concat (map ACKRange_wire rs) @ suf \<Longrightarrow>
     decode_ranges (length rs) buf off acc
       = Inr (acc @ rs, off + length (concat (map ACKRange_wire rs)))"
proof (induction rs arbitrary: off acc)
  case Nil
  then show ?case by simp
next
  case (Cons r rs)
  then have "drop off buf = ACKRange_wire r @ concat (map ACKRange_wire rs) @ suf" by simp
  note r = ACKRange_at [OF _ this]
  from Cons.prems have "ACKRange_ok r" and "\<forall>r \<in> set rs. ACKRange_ok r" by simp_all
  then show ?case using r Cons.IH [OF _ r(2)] by (simp add: add.assoc)
qed

definition StreamACKPacket_wire :: "StreamACKPacket \<Rightarrow> bytes" where
  "StreamACKPacket_wire s =
     Varint_wire (LargestAck s) @ Varint_wire (AckDelay s) @ Varint_wire (FirstDelta s)
       @ Varint_wire (ack_Len s) @ concat (map ACKRange_wire (Ranges s))"

definition StreamACKPacket_ok :: "StreamACKPacket \<Rightarrow> bool" where
  "StreamACKPacket_ok s \<longleftrightarrow>
     Varint_wf (LargestAck s) \<and> Varint_wf (AckDelay s) \<and> Varint_wf (FirstDelta s) \<and>
     Varint_wf (ack_Len s) \<and> (\<forall>r \<in> set (Ranges s). ACKRange_ok r) \<and>
     length (Ranges s) = unat (Varint_Value (ack_Len s))"

interpretation stream_ack: self_delimiting StreamACKPacket_Append
  "StreamACKPacket_DecodeSlice StreamACKPacket_zero" StreamACKPacket_wire StreamACKPacket_ok
proof unfold_locales
  fix x buf assume "StreamACKPacket_ok x"
  then show "StreamACKPacket_Append x buf = Inr (buf @ StreamACKPacket_wire x)"
    by (simp add: StreamACKPacket_Append_def StreamACKPacket_wire_def Varint_Append_wire
        StreamACKPacket_ok_def append_ranges_wire)
next
  fix x pre suf assume ok: "StreamACKPacket_ok x"
  let ?buf = "pre @ StreamACKPacket_wire x @ suf"
  have "drop (length pre) ?buf = Varint_wire (LargestAck x) @ Varint_wire (AckDelay x)
      @ Varint_wire (FirstDelta x) @ Varint_wire (ack_Len x)
      @ (concat (map ACKRange_wire (Ranges x)) @ suf)"
    by (simp add: StreamACKPacket_wire_def)
  note f1 = Varint_at [OF _ this]
  note f2 = Varint_at [OF _ f1(2)]
  note f3 = Varint_at [OF _ f2(2)]
  note f4 = Varint_at [OF _ f3(2)]
  note rs = decode_ranges_at [OF _ f4(2)]
  show "StreamACKPacket_DecodeSlice StreamACKPacket_zero ?buf (length pre)
      = Inr (x, length pre + length (StreamACKPacket_wire x))"
    using ok f1(1) f2(1) f3(1) f4(1) rs [where acc = "[]"]
    by (simp add: StreamACKPacket_DecodeSlice_def StreamACKPacket_ok_def StreamACKPacket_zero_def
        StreamACKPacket_wire_def add.assoc)
qed

subsection \<open>StreamAppPacket\<close>

definition StreamAppPacket_wire :: "StreamAppPacket \<Rightarrow> bytes" where
  "StreamAppPacket_wire s =
     [Kind (Header s)] @
     (if Kind (Header s) = ApplicationPayloadKind_StreamData then StreamPacket_wire (var_StreamData s)
      else if Kind (Header s) = ApplicationPayloadKind_StreamCancel
      then CancelStreamPacket_wire (var_StreamCancel s)
      else if Kind (Header s) = ApplicationPayloadKind_StreamAck
      then StreamACKPacket_wire (var_StreamAck s)
      else UpdateWindow_wire (var_WindowUpdate s))"

text \<open>A packet whose selected variant is encodable and whose other variants are unset.\<close>

definition StreamAppPacket_ok :: "StreamAppPacket \<Rightarrow> bool" where
  "StreamAppPacket_ok s \<longleftrightarrow>
     IsStreamRelated (Kind (Header s)) \<and>
     (if Kind (Header s) = ApplicationPayloadKind_StreamData then StreamPacket_ok (var_StreamData s)
      else var_StreamData s = StreamPacket_zero) \<and>
     (if Kind (Header s) = ApplicationPayloadKind_StreamCancel
      then CancelStreamPacket_ok (var_StreamCancel s) else var_StreamCancel s = CancelStreamPacket_zero) \<and>
     (if Kind (Header s) = ApplicationPayloadKind_StreamAck
      then StreamACKPacket_ok (var_StreamAck s) else var_StreamAck s = StreamACKPacket_zero) \<and>
     (if Kind (Header s) = ApplicationPayloadKind_StreamWindowUpdate
      then UpdateWindow_ok (var_WindowUpdate s) else var_WindowUpdate s = UpdateWindow_zero)"

lemma PacketHeader_at:
  "PacketHeader_DecodeSlice (pre @ [k] @ suf) (length pre) = Inr (\<lparr>Kind = k\<rparr>, length (pre @ [k]))"
  by (simp add: PacketHeader_DecodeSlice_def nth_append)

interpretation app_packet: exact_codec StreamAppPacket_Append
  "StreamAppPacket_DecodeSlice StreamAppPacket_zero" StreamAppPacket_wire StreamAppPacket_ok
proof unfold_locales
  fix x buf assume "StreamAppPacket_ok x"
  then show "StreamAppPacket_Append x buf = Inr (buf @ StreamAppPacket_wire x)"
    by (auto simp: StreamAppPacket_Append_def PacketHeader_Append_def StreamAppPacket_wire_def
        StreamAppPacket_ok_def IsStreamRelated_def StreamPacket_Append_wire cancel_stream.enc_wire
        stream_ack.enc_wire update_window.enc_wire)
next
  fix x pre assume ok: "StreamAppPacket_ok x"
  let ?h = "pre @ [Kind (Header x)]"
  have hd: "PacketHeader_DecodeSlice (pre @ StreamAppPacket_wire x) (length pre)
      = Inr (Header x, length ?h)"
    unfolding StreamAppPacket_wire_def PacketHeader_at by simp
  have split: "pre @ StreamAppPacket_wire x = ?h @ tl (StreamAppPacket_wire x)"
    by (simp add: StreamAppPacket_wire_def)
  from ok show "StreamAppPacket_DecodeSlice StreamAppPacket_zero (pre @ StreamAppPacket_wire x) (length pre)
      = Inr (x, length pre + length (StreamAppPacket_wire x))"
    unfolding StreamAppPacket_DecodeSlice_def hd rbind.simps case_prod_conv
    unfolding split StreamAppPacket_ok_def IsStreamRelated_def
    by (elim conjE disjE)
      (simp_all add: StreamAppPacket_wire_def StreamAppPacket_zero_def stream_packet.dec_after_tag
        cancel_stream.dec_after_tag stream_ack.dec_after_tag update_window.dec_after_tag)
qed

section \<open>Properties\<close>

text \<open>
  C37: every packet of the receive path's union (stream data, cancel, ACK, window update) whose
  selected variant is encodable is accepted by \<open>Append\<close>, and \<open>DecodeExact\<close> of the bytes gives the
  same packet, with no byte left over.
\<close>

theorem StreamAppPacket_roundtrip:
  assumes "StreamAppPacket_ok s"
  shows "\<exists>w. StreamAppPacket_Append s [] = Inr w \<and> StreamAppPacket_DecodeExact w = Inr s"
  using app_packet.enc_wire [OF assms, of "[]"] app_packet.exact_roundtrip [OF assms]
  by (simp add: StreamAppPacket_DecodeExact_def)

theorem StreamAppPacket_roundtrip_witness:
  "\<exists>w. StreamAppPacket_Append
        (StreamAppPacket_zero\<lparr>Header := \<lparr>Kind = 4\<rparr>, var_StreamCancel := \<lparr>cs_Id = fst (EncodeVarint 300)\<rparr>\<rparr>) [] = Inr w \<and>
      StreamAppPacket_DecodeExact w = Inr
        (StreamAppPacket_zero\<lparr>Header := \<lparr>Kind = 4\<rparr>, var_StreamCancel := \<lparr>cs_Id = fst (EncodeVarint 300)\<rparr>\<rparr>)"
  by (rule StreamAppPacket_roundtrip)
    (simp add: StreamAppPacket_ok_def StreamAppPacket_zero_def IsStreamRelated_def
      CancelStreamPacket_ok_def EncodeVarint_wf)

text \<open>
  A close message set by \<open>SetMessage\<close> travels unchanged: \<open>SetMessage\<close> accepts up to 65535
  bytes, \<open>Append\<close> then succeeds and \<open>DecodeExact\<close> returns status and message; a longer message is
  refused and leaves the body as it was.
\<close>

theorem CloseBody_roundtrip:
  "if length m \<le> 65535
   then \<exists>w. CloseBody_Append (fst (SetMessage c m)) [] = Inr w \<and>
          CloseBody_DecodeExact w = Inr \<lparr>Status = Status c, MessageLen = of_nat (length m), Message = m\<rparr>
   else SetMessage c m = (c, False)"
proof (cases "length m \<le> 65535")
  case True
  then have set: "snd (SetMessage c m)"
    and eq: "fst (SetMessage c m) = \<lparr>Status = Status c, MessageLen = of_nat (length m), Message = m\<rparr>"
    by (simp_all add: SetMessage_def)
  from set have ok: "CloseBody_ok (fst (SetMessage c m))" by (rule SetMessage_ok)
  from close_body.enc_wire [OF this, of "[]"] close_body.exact_roundtrip [OF ok] True
  show ?thesis by (simp add: CloseBody_DecodeExact_def eq)
qed (simp add: SetMessage_def)

end
