(* ===== verification/Pn_Track.thy ===== *)
theory Pn_Track
  imports Prelude
begin

text \<open>
  The receiver's record of packet numbers that still have to be acknowledged
  (\<open>src/trsf/pn_track.go\<close>): a list of half-open ranges, kept in ascending order, and the time at
  which the largest number was taken off the receive queue.

  The mutex is not modelled: every method holds it from its first to its last statement, so a
  method is one step. \<open>time.Now()\<close> is an argument. \<open>recvAdded\<close> is a channel of capacity one that is
  only ever sent to without blocking: it is the Boolean that says whether a token is in it.
\<close>

record Range =
  Begin :: u64
  End :: u64

record PacketNumTracker =
  unackedRanges :: "Range list"
  largestPN :: u64
  largestAt :: time
  haveLargest :: bool
  recvAdded :: bool

definition NewPacketNumTracker :: PacketNumTracker where
  "NewPacketNumTracker =
     \<lparr>unackedRanges = [], largestPN = 0, largestAt = 0, haveLargest = False, recvAdded = False\<rparr>"

definition pn_notify :: "PacketNumTracker \<Rightarrow> PacketNumTracker" where
  "pn_notify rc = rc\<lparr>recvAdded := True\<rparr>"

text \<open>
  The loop of \<open>InsertUnacked\<close> at index \<open>length front\<close> of the list \<open>front @ rest\<close>; \<open>None\<close> when
  the loop ends or returns without a change.
\<close>

fun insert_loop :: "u64 \<Rightarrow> Range list \<Rightarrow> Range list \<Rightarrow> Range list option" where
  "insert_loop seqNum front [] = None"
| "insert_loop seqNum front (r # rest) =
     (if seqNum \<ge> Begin r \<and> seqNum < End r then None
      else if seqNum = End r then
        (let r' = r\<lparr>End := End r + 1\<rparr> in
         Some (case rest of
             [] \<Rightarrow> front @ [r']
           | nx # rest' \<Rightarrow>
               if End r' = Begin nx then front @ r'\<lparr>End := End nx\<rparr> # rest'
               else front @ r' # nx # rest'))
      else if seqNum + 1 = Begin r then
        (let r' = r\<lparr>Begin := Begin r - 1\<rparr> in
         Some (if front \<noteq> [] \<and> End (last front) = Begin r'
               then butlast front @ (last front)\<lparr>End := End r'\<rparr> # rest
               else front @ r' # rest))
      else if seqNum < Begin r then
        Some (front @ \<lparr>Begin = seqNum, End = seqNum + 1\<rparr> # r # rest)
      else insert_loop seqNum (front @ [r]) rest)"

definition InsertUnacked :: "time \<Rightarrow> u64 \<Rightarrow> PacketNumTracker \<Rightarrow> PacketNumTracker" where
  "InsertUnacked now seqNum rc =
     (let rc = (if \<not> haveLargest rc \<or> seqNum > largestPN rc
                then rc\<lparr>largestPN := seqNum, largestAt := now, haveLargest := True\<rparr> else rc) in
      if unackedRanges rc = []
      then pn_notify (rc\<lparr>unackedRanges := [\<lparr>Begin = seqNum, End = seqNum + 1\<rparr>]\<rparr>)
      else (case insert_loop seqNum [] (unackedRanges rc) of
              None \<Rightarrow> rc
            | Some rs \<Rightarrow> pn_notify (rc\<lparr>unackedRanges := rs\<rparr>)))"

definition GenerateACK :: "time \<Rightarrow> PacketNumTracker \<Rightarrow> (Range list \<times> duration) \<times> PacketNumTracker" where
  "GenerateACK now rc =
     (let ranges = unackedRanges rc;
          rc' = rc\<lparr>unackedRanges := []\<rparr> in
      if haveLargest rc
      then ((ranges, Sub now (largestAt rc)), rc'\<lparr>haveLargest := False\<rparr>)
      else ((ranges, 0), rc'))"


section \<open>The numbers a list of ranges stands for\<close>

definition range_nums :: "Range \<Rightarrow> u64 set" where
  "range_nums r = {Begin r ..< End r}"

definition ranges_nums :: "Range list \<Rightarrow> u64 set" where
  "ranges_nums rs = (\<Union>r \<in> set rs. range_nums r)"

text \<open>Every range is non-empty and a number is missing between any two of them.\<close>

definition ranges_ok :: "Range list \<Rightarrow> bool" where
  "ranges_ok rs \<longleftrightarrow> (\<forall>r \<in> set rs. Begin r < End r) \<and> sorted_wrt (\<lambda>a b. End a < Begin b) rs"

lemma ranges_nums_simps [simp]:
  "ranges_nums [] = {}"
  "ranges_nums (r # rs) = range_nums r \<union> ranges_nums rs"
  "ranges_nums (rs @ rs') = ranges_nums rs \<union> ranges_nums rs'"
  by (auto simp: ranges_nums_def)

lemma ranges_ok_simps [simp]:
  "ranges_ok []"
  "ranges_ok (r # rs) \<longleftrightarrow> Begin r < End r \<and> (\<forall>x \<in> set rs. End r < Begin x) \<and> ranges_ok rs"
  "ranges_ok (rs @ rs') \<longleftrightarrow>
     ranges_ok rs \<and> ranges_ok rs' \<and> (\<forall>x \<in> set rs. \<forall>y \<in> set rs'. End x < Begin y)"
  by (auto simp: ranges_ok_def sorted_wrt_append)

lemma word_succ_cases:
  fixes seq x :: u64
  assumes "seq + 1 \<noteq> 0"
  shows "seq < seq + 1" and "x < seq + 1 \<longleftrightarrow> x \<le> seq" and "seq < x \<longleftrightarrow> seq + 1 \<le> x"
proof -
  have u: "unat (seq + 1) = unat seq + 1"
    using assms by (metis Suc_eq_plus1 add.commute unatSuc)
  show "seq < seq + 1" and "x < seq + 1 \<longleftrightarrow> x \<le> seq" and "seq < x \<longleftrightarrow> seq + 1 \<le> x"
    unfolding word_less_nat_alt word_le_nat_alt u by auto
qed

lemma range_nums_extend:
  assumes "seq + 1 \<noteq> 0"
  shows "Begin r \<le> seq \<Longrightarrow> seq = End r \<Longrightarrow> {Begin r ..< seq + 1} = insert seq (range_nums r)"
    and "seq + 1 = Begin r \<Longrightarrow> Begin r < End r \<Longrightarrow> {seq ..< End r} = insert seq (range_nums r)"
    and "{seq ..< seq + 1} = {seq}"
proof -
  note s = word_succ_cases [OF assms]
  show "{Begin r ..< seq + 1} = insert seq (range_nums r)" if "Begin r \<le> seq" "seq = End r"
    unfolding set_eq_iff atLeastLessThan_iff s(2) range_nums_def insert_iff
    using that by (metis order.order_iff_strict)
  show "{seq ..< End r} = insert seq (range_nums r)" if b: "seq + 1 = Begin r" "Begin r < End r"
  proof -
    have "seq < End r" using b s(1) by (metis order.strict_trans)
    then show ?thesis
      unfolding set_eq_iff atLeastLessThan_iff range_nums_def insert_iff b(1) [symmetric]
      unfolding s(3) [symmetric] by (metis order.order_iff_strict)
  qed
  show "{seq ..< seq + 1} = {seq}"
    unfolding set_eq_iff atLeastLessThan_iff s(2) by auto
qed

text \<open>
  The loop: every range in front of the index ends strictly below the number. In particular the
  merge with the previous range never happens (\<open>End (last front) = seqNum\<close> would have been
  answered one step earlier).
\<close>

lemma insert_loop_Some:
  assumes "insert_loop seq front rest = Some rs" and "ranges_ok (front @ rest)"
    and "\<forall>r \<in> set front. End r < seq" and "seq + 1 \<noteq> 0"
  shows "ranges_ok rs \<and> ranges_nums rs = insert seq (ranges_nums (front @ rest))"
  using assms
proof (induction seq front rest rule: insert_loop.induct)
  case (1 seq front)
  then show ?case by simp
next
  case (2 seq front r rest)
  note ok = "2.prems"(2) and front = "2.prems"(3) and nw = "2.prems"(4)
  note s = word_succ_cases [OF nw] and ext = range_nums_extend [OF nw]
  consider (hit) "seq \<ge> Begin r" "seq < End r" | (up) "seq = End r"
    | (down) "\<not> (seq \<ge> Begin r \<and> seq < End r)" "seq \<noteq> End r" "seq + 1 = Begin r"
    | (new) "\<not> (seq \<ge> Begin r \<and> seq < End r)" "seq \<noteq> End r" "seq + 1 \<noteq> Begin r" "seq < Begin r"
    | (pass) "\<not> (seq \<ge> Begin r \<and> seq < End r)" "seq \<noteq> End r" "seq + 1 \<noteq> Begin r" "\<not> seq < Begin r"
    by blast
  then show ?case
  proof cases
    case hit
    with "2.prems" show ?thesis by simp
  next
    case up
    have *: "{Begin r ..< seq + 1} = insert seq (range_nums r)"
      by (rule ext(1)) (use ok up in auto)
    show ?thesis
    proof (cases rest)
      case Nil
      with "2.prems" up * show ?thesis
        by (auto simp: range_nums_def s)
    next
      case (Cons nx rest')
      show ?thesis
      proof (cases "seq + 1 = Begin nx")
        case True
        have "{Begin r ..< End nx} = insert seq (range_nums r \<union> range_nums nx)"
          using ok up Cons True s(1) * by (auto simp: range_nums_def)
        with "2.prems" up Cons True show ?thesis
          by (auto simp: range_nums_def)
      next
        case False
        with "2.prems" up Cons * have "rs = front @ r\<lparr>End := seq + 1\<rparr> # nx # rest'" by simp
        moreover have "seq + 1 < Begin nx"
          using ok up Cons False s(3) [of "Begin nx"] by auto
        ultimately show ?thesis
          using ok up Cons * s(1) by (auto simp: range_nums_def)
      qed
    qed
  next
    case down
    have [simp]: "Begin r - 1 = seq" using down(3) by (metis add_diff_cancel_right')
    have "\<not> (front \<noteq> [] \<and> End (last front) = seq)" using front by fastforce
    with "2.prems" down have rs: "rs = front @ r\<lparr>Begin := seq\<rparr> # rest" by (auto simp: Let_def)
    have "{seq ..< End r} = insert seq (range_nums r)"
      by (rule ext(2)) (use ok down in auto)
    moreover have "seq < End r" using ok down(3) s(1) by auto
    ultimately show ?thesis
      using ok front unfolding rs by (auto simp: range_nums_def)
  next
    case new
    with "2.prems" have rs: "rs = front @ \<lparr>Begin = seq, End = seq + 1\<rparr> # r # rest" by auto
    have "seq + 1 < Begin r" using new s(3) [of "Begin r"] by auto
    with ok front new show ?thesis unfolding rs by (auto simp: range_nums_def s ext(3))
  next
    case pass
    then have "End r < seq" by auto
    with "2.prems" pass show ?thesis using "2.IH" by auto
  qed
qed

lemma insert_loop_None:
  assumes "insert_loop seq front rest = None"
  shows "seq \<in> ranges_nums rest \<or> (\<forall>r \<in> set rest. End r < seq)"
  using assms
  by (induction seq front rest rule: insert_loop.induct)
    (auto simp: range_nums_def Let_def split: if_splits list.splits)


section \<open>The tracker\<close>

text \<open>
  Invariant: the ranges are in order, and when any number waits, \<open>largestPN\<close> is at least the
  largest of them (so that \<open>largestAt\<close> is set).
\<close>

definition tracker_ok :: "PacketNumTracker \<Rightarrow> bool" where
  "tracker_ok rc \<longleftrightarrow>
     ranges_ok (unackedRanges rc) \<and> (unackedRanges rc \<noteq> [] \<longrightarrow> haveLargest rc) \<and>
     (haveLargest rc \<longrightarrow> (\<forall>n \<in> ranges_nums (unackedRanges rc). n \<le> largestPN rc))"

lemma tracker_ok_init: "tracker_ok NewPacketNumTracker"
  by (simp add: tracker_ok_def NewPacketNumTracker_def)

lemma tracker_ok_GenerateACK: "tracker_ok (snd (GenerateACK now rc))"
  by (simp add: tracker_ok_def GenerateACK_def Let_def)

text \<open>A number that is neither held nor adjacent to the last range falls out of the loop.\<close>

definition beyond :: "u64 \<Rightarrow> Range list \<Rightarrow> bool" where
  "beyond seqNum rs \<longleftrightarrow> rs \<noteq> [] \<and> (\<forall>r \<in> set rs. End r < seqNum)"

lemma insert_loop_beyond:
  "\<forall>r \<in> set rest. End r < seqNum \<Longrightarrow> ranges_ok rest \<Longrightarrow> seqNum + 1 \<noteq> 0 \<Longrightarrow>
     insert_loop seqNum front rest = None"
proof (induction seqNum front rest rule: insert_loop.induct)
  case (2 seqNum front r rest)
  then have "End r < seqNum" and "Begin r < seqNum" by (auto intro: order.strict_trans)
  moreover have "seqNum + 1 \<noteq> Begin r"
    using word_succ_cases(1) [OF "2.prems"(3)] \<open>Begin r < seqNum\<close> by auto
  ultimately show ?case using 2 by auto
qed simp

lemma ranges_nums_InsertUnacked:
  assumes "tracker_ok rc" and "seqNum + 1 \<noteq> 0"
  shows "ranges_ok (unackedRanges (InsertUnacked now seqNum rc))"
    and "ranges_nums (unackedRanges (InsertUnacked now seqNum rc)) =
         (if beyond seqNum (unackedRanges rc) then ranges_nums (unackedRanges rc)
          else insert seqNum (ranges_nums (unackedRanges rc)))"
proof -
  note s = word_succ_cases [OF assms(2)] and ext = range_nums_extend(3) [OF assms(2)]
  have ok: "ranges_ok (unackedRanges rc)" using assms(1) by (simp add: tracker_ok_def)
  let ?rs = "unackedRanges rc"
  have "ranges_ok (unackedRanges (InsertUnacked now seqNum rc)) \<and>
      ranges_nums (unackedRanges (InsertUnacked now seqNum rc)) =
         (if beyond seqNum ?rs then ranges_nums ?rs else insert seqNum (ranges_nums ?rs))"
  proof (cases "?rs = []")
    case True
    then show ?thesis
      by (simp add: InsertUnacked_def Let_def pn_notify_def beyond_def range_nums_def s ext)
  next
    case ne: False
    show ?thesis
    proof (cases "insert_loop seqNum [] ?rs")
      case None
      have "seqNum \<in> ranges_nums ?rs \<and> \<not> beyond seqNum ?rs \<or> beyond seqNum ?rs"
        using insert_loop_None [OF None] ne
        by (auto simp: beyond_def ranges_nums_def range_nums_def)
      with None ne ok show ?thesis
        by (auto simp: InsertUnacked_def Let_def insert_absorb)
    next
      case (Some rs)
      have new: "ranges_ok rs" "ranges_nums rs = insert seqNum (ranges_nums ?rs)"
        using insert_loop_Some [OF Some] ok assms(2) by simp_all
      have "\<not> beyond seqNum ?rs"
        using insert_loop_beyond [of ?rs seqNum "[]"] Some ok assms(2) by (auto simp: beyond_def)
      with Some ne new show ?thesis
        by (simp add: InsertUnacked_def Let_def pn_notify_def)
    qed
  qed
  then show "ranges_ok (unackedRanges (InsertUnacked now seqNum rc))"
    and "ranges_nums (unackedRanges (InsertUnacked now seqNum rc)) =
         (if beyond seqNum ?rs then ranges_nums ?rs else insert seqNum (ranges_nums ?rs))"
    by simp_all
qed


lemma tracker_ok_InsertUnacked:
  assumes "tracker_ok rc" and "seqNum + 1 \<noteq> 0"
  shows "tracker_ok (InsertUnacked now seqNum rc)"
proof -
  note new = ranges_nums_InsertUnacked [OF assms, of now]
  have "haveLargest (InsertUnacked now seqNum rc)"
    and l: "largestPN (InsertUnacked now seqNum rc) =
          (if haveLargest rc then max seqNum (largestPN rc) else seqNum)"
    by (auto simp: InsertUnacked_def Let_def pn_notify_def max_def split: option.splits)
  moreover have "\<forall>n \<in> ranges_nums (unackedRanges (InsertUnacked now seqNum rc)).
      n \<le> largestPN (InsertUnacked now seqNum rc)"
    using assms(1) unfolding new l by (auto simp: tracker_ok_def max_def)
  ultimately show ?thesis using new(1) by (simp add: tracker_ok_def)
qed

text \<open>Numbers that arrive in order are kept as one range.\<close>

lemma InsertUnacked_next:
  "unackedRanges rc = [\<lparr>Begin = b, End = e\<rparr>] \<Longrightarrow>
     unackedRanges (InsertUnacked now e rc) = [\<lparr>Begin = b, End = e + 1\<rparr>]"
  by (simp add: InsertUnacked_def pn_notify_def Let_def)

lemma InsertUnacked_in_order:
  assumes "unackedRanges rc = []"
  shows "unackedRanges (fold (\<lambda>i. InsertUnacked (clock i) (a + of_nat i)) [0..<Suc n] rc)
    = [\<lparr>Begin = a, End = a + of_nat (Suc n)\<rparr>]"
proof (induction n)
  case 0
  then show ?case using assms by (simp add: InsertUnacked_def pn_notify_def Let_def)
next
  case (Suc n)
  then show ?case by (simp add: InsertUnacked_next add.assoc)
qed

section \<open>Properties\<close>

text \<open>
  The tracker's invariant (ranges in order, non-empty, never touching; the largest number
  known whenever something waits) holds initially and is kept by \<open>InsertUnacked\<close> and by
  \<open>GenerateACK\<close>.
\<close>

theorem tracker_invariant:
  assumes "tracker_ok rc" and "seqNum + 1 \<noteq> 0"
  shows "tracker_ok NewPacketNumTracker \<and> tracker_ok (InsertUnacked now seqNum rc) \<and>
    tracker_ok (snd (GenerateACK now rc))"
  using assms tracker_ok_init tracker_ok_InsertUnacked tracker_ok_GenerateACK by blast

theorem tracker_invariant_witness:
  "tracker_ok NewPacketNumTracker \<and> tracker_ok (InsertUnacked 5 3 NewPacketNumTracker) \<and>
    tracker_ok (snd (GenerateACK 5 NewPacketNumTracker))"
  by (rule tracker_invariant) (simp_all add: tracker_ok_init)

text \<open>
  The exact effect of \<open>InsertUnacked\<close> on the set of numbers to acknowledge: the number is
  added, unless it lies more than one above the last range, and then it is not recorded at all.
\<close>

theorem InsertUnacked_effect:
  assumes "tracker_ok rc" and "seqNum + 1 \<noteq> 0"
  shows "ranges_nums (unackedRanges (InsertUnacked now seqNum rc)) =
    ranges_nums (unackedRanges rc) \<union>
      (if unackedRanges rc \<noteq> [] \<and> (\<forall>r \<in> set (unackedRanges rc). End r < seqNum) then {} else {seqNum})"
  using ranges_nums_InsertUnacked(2) [OF assms, of now] by (simp add: beyond_def)

theorem InsertUnacked_effect_witness:
  "ranges_nums (unackedRanges (InsertUnacked 9 2 (InsertUnacked 8 0 NewPacketNumTracker))) =
    ranges_nums (unackedRanges (InsertUnacked 8 0 NewPacketNumTracker))"
proof -
  have "tracker_ok (InsertUnacked 8 0 NewPacketNumTracker)"
    by (simp add: tracker_ok_InsertUnacked tracker_ok_init)
  from InsertUnacked_effect [OF this, of 2 9] show ?thesis
    by (simp add: InsertUnacked_def NewPacketNumTracker_def pn_notify_def Let_def)
qed

text \<open>
  Packet numbers that arrive in order, with none missing, are handed to the ACK as one range
  that covers exactly them, and the tracker is then empty.
\<close>

theorem in_order_ack:
  assumes "unackedRanges rc = []"
  shows "let rc' = fold (\<lambda>i. InsertUnacked (clock i) (a + of_nat i)) [0..<Suc n] rc in
    fst (fst (GenerateACK now rc')) = [\<lparr>Begin = a, End = a + of_nat (Suc n)\<rparr>] \<and>
    unackedRanges (snd (GenerateACK now rc')) = []"
  using InsertUnacked_in_order [OF assms, of clock a n]
  by (simp add: GenerateACK_def Let_def del: upt_Suc of_nat_Suc)

theorem in_order_ack_witness:
  "let rc' = fold (\<lambda>i. InsertUnacked (int i) (7 + of_nat i)) [0..<Suc 2] NewPacketNumTracker in
    fst (fst (GenerateACK 10 rc')) = [\<lparr>Begin = 7, End = 7 + of_nat (Suc 2)\<rparr>] \<and>
    unackedRanges (snd (GenerateACK 10 rc')) = []"
  by (rule in_order_ack) (simp add: NewPacketNumTracker_def)

end
