(* ===== verification/Ack_Wire.thy ===== *)
theory Ack_Wire
  imports Wire_Stream Pn_Track
begin

text \<open>
  The translation between the tracker's ranges and the ACK packet (\<open>src/trsf/wire.go\<close>):
  \<open>TransferACK\<close> on the receiving side, \<open>ParseTransferACK\<close> on the sending side. The ranges travel
  from the highest to the lowest, as gaps and lengths; all arithmetic is on 64-bit words.
\<close>

datatype ack_error =
    EmptyDelta            \<comment> \<open>empty delta\<close>
  | InvalidRange          \<comment> \<open>invalid range in delta\<close>
  | InvalidOffset         \<comment> \<open>invalid offset\<close>
  | InvalidDelta          \<comment> \<open>invalid delta\<close>
  | InvalidEnd            \<comment> \<open>invalid end\<close>
  | InvalidFirstDelta     \<comment> \<open>invalid first delta\<close>
  | InvalidAckDelay       \<comment> \<open>invalid ack delay\<close>

fun decode_loop :: "u64 \<Rightarrow> ACKRange list \<Rightarrow> Range list" where
  "decode_loop currentBegin [] = []"
| "decode_loop currentBegin (r # rs) =
     (let e = currentBegin - Varint_Value (ar_Offset r) - 2;
          b = e - Varint_Value (ar_Delta r) - 1 in
      \<lparr>Begin = b, End = e\<rparr> # decode_loop b rs)"

definition decodeRanges :: "u64 \<Rightarrow> u64 \<Rightarrow> ACKRange list \<Rightarrow> Range list" where
  "decodeRanges e firstDelta ranges =
     (let b = e - firstDelta - 1 in rev (\<lparr>Begin = b, End = e\<rparr> # decode_loop b ranges))"

text \<open>The product of the delay and \<open>time.Microsecond\<close> is a signed 64-bit one.\<close>

definition ParseTransferACK :: "StreamACKPacket \<Rightarrow> Range list \<times> duration" where
  "ParseTransferACK pkt =
     (decodeRanges (Varint_Value (LargestAck pkt)) (Varint_Value (FirstDelta pkt)) (Ranges pkt),
      i64 (uint (Varint_Value (AckDelay pkt)) * Microsecond))"

text \<open>
  The loop of \<open>TransferACK\<close>, over the ranges below the last one from the highest down.
  (\<open>maxDelta\<close> and \<open>maxOffset\<close> are computed there too and never read.)
\<close>

fun transfer_loop :: "u64 \<Rightarrow> Range list \<Rightarrow> (ack_error, ACKRange list) result" where
  "transfer_loop b [] = Inr []"
| "transfer_loop b (r # rs) =
     (if b \<le> End r then Inl InvalidRange
      else if End r \<le> Begin r then Inl InvalidRange
      else
        let (offset, ok1) = EncodeVarint (b - End r - 2);
            (delta, ok2) = EncodeVarint (End r - Begin r - 1) in
        if \<not> ok1 then Inl InvalidOffset
        else if \<not> ok2 then Inl InvalidDelta
        else rbind (transfer_loop (Begin r) rs)
               (\<lambda>w. Inr (\<lparr>ar_Offset = offset, ar_Delta = delta\<rparr> # w)))"

definition TransferACK :: "Range list \<Rightarrow> duration \<Rightarrow> (ack_error, StreamACKPacket) result" where
  "TransferACK ranges ackDelay =
     (case rev ranges of
        [] \<Rightarrow> Inl EmptyDelta
      | l # rest \<Rightarrow>
          if End l \<le> Begin l then Inl InvalidRange
          else rbind (transfer_loop (Begin l) rest) (\<lambda>wire_ranges.
            let (endWire, ok1) = EncodeVarint (End l);
                (firstDeltaWire, ok2) = EncodeVarint (End l - Begin l - 1);
                (delayWire, ok3) = EncodeVarint (word_of_int (max 0 ackDelay div Microsecond)) in
            if \<not> ok1 then Inl InvalidEnd
            else if \<not> ok2 then Inl InvalidFirstDelta
            else if \<not> ok3 then Inl InvalidAckDelay
            else Inr \<lparr>LargestAck = endWire, AckDelay = delayWire, FirstDelta = firstDeltaWire,
                      ack_Len = Varint_zero, Ranges = wire_ranges\<rparr>))"

section \<open>Round trip\<close>

lemma EncodeVarint_ok:
  "EncodeVarint x = (v, True) \<Longrightarrow> Varint_Value v = x \<and> Varint_wf v"
  using EncodeVarint_None [of x] EncodeVarint_Value [of x] EncodeVarint_wf [of x] by simp

lemma transfer_loop_ConsE:
  assumes "transfer_loop b (r # rs) = Inr w"
  obtains w1 w2 where "w = w1 # w2" and "transfer_loop (Begin r) rs = Inr w2"
    and "EncodeVarint (b - End r - 2) = (ar_Offset w1, True)"
    and "EncodeVarint (End r - Begin r - 1) = (ar_Delta w1, True)"
    and "End r < b" and "Begin r < End r"
proof -
  obtain v1 ok1 v2 ok2 where e: "EncodeVarint (b - End r - 2) = (v1, ok1)"
      "EncodeVarint (End r - Begin r - 1) = (v2, ok2)" by fastforce
  with assms that [of "\<lparr>ar_Offset = v1, ar_Delta = v2\<rparr>"] show thesis
    by (auto simp: rbind_Inr_iff split: if_splits)
qed

lemma decode_transfer_loop: "transfer_loop b rs = Inr w \<Longrightarrow> decode_loop b w = rs"
proof (induction rs arbitrary: b w)
  case (Cons r rs)
  from Cons.prems show ?case
    by (rule transfer_loop_ConsE) (auto dest!: EncodeVarint_ok Cons.IH simp: Let_def)
qed simp

lemma transfer_loop_ok:
  "transfer_loop b rs = Inr w \<Longrightarrow> (\<forall>r \<in> set w. ACKRange_ok r) \<and> length w = length rs"
proof (induction rs arbitrary: b w)
  case (Cons r rs)
  from Cons.prems show ?case
    by (rule transfer_loop_ConsE) (auto dest!: EncodeVarint_ok Cons.IH simp: ACKRange_ok_def)
qed simp

lemma TransferACK_InrE:
  assumes "TransferACK ranges d = Inr pkt"
  obtains l rest where "rev ranges = l # rest" and "Begin l < End l"
    and "transfer_loop (Begin l) rest = Inr (Ranges pkt)"
    and "EncodeVarint (End l) = (LargestAck pkt, True)"
    and "EncodeVarint (End l - Begin l - 1) = (FirstDelta pkt, True)"
    and "EncodeVarint (word_of_int (max 0 d div Microsecond)) = (AckDelay pkt, True)"
    and "ack_Len pkt = Varint_zero"
proof (cases "rev ranges")
  case Nil
  with assms show thesis by (simp add: TransferACK_def)
next
  case (Cons l rest)
  obtain v1 ok1 v2 ok2 v3 ok3 where "EncodeVarint (End l) = (v1, ok1)"
      "EncodeVarint (End l - Begin l - 1) = (v2, ok2)"
      "EncodeVarint (word_of_int (max 0 d div Microsecond)) = (v3, ok3)" by fastforce
  with assms Cons that [of l rest] show thesis
    by (auto simp: TransferACK_def rbind_Inr_iff split: if_splits)
qed

lemma i64_micros:
  assumes "in_i64 d"
  shows "i64 (uint (word_of_int (max 0 d div 1000) :: u64) * 1000) = max 0 d div 1000 * 1000"
proof -
  let ?m = "max 0 d div 1000"
  have "0 \<le> ?m" and "?m * 1000 < 2 ^ 63" using assms by (auto simp: in_i64_def)
  moreover from this have "uint (word_of_int ?m :: u64) = ?m"
    by (simp add: uint_word_of_int)
  ultimately show ?thesis by (simp add: in_i64_def)
qed

lemma ParseTransferACK_TransferACK:
  assumes "TransferACK ranges d = Inr pkt" and "in_i64 d"
  shows "ParseTransferACK pkt = (ranges, max 0 d div Microsecond * Microsecond)"
proof -
  from assms(1) obtain l rest where r: "rev ranges = l # rest"
    and t: "transfer_loop (Begin l) rest = Inr (Ranges pkt)"
    and e: "EncodeVarint (End l) = (LargestAck pkt, True)"
      "EncodeVarint (End l - Begin l - 1) = (FirstDelta pkt, True)"
      "EncodeVarint (word_of_int (max 0 d div Microsecond)) = (AckDelay pkt, True)"
    by (rule TransferACK_InrE)
  note v = e [THEN EncodeVarint_ok]
  have "ranges = rev (l # rest)" using r by (metis rev_rev_ident)
  then have "decodeRanges (End l) (End l - Begin l - 1) (Ranges pkt) = ranges"
    by (simp add: decodeRanges_def decode_transfer_loop [OF t])
  then show ?thesis using v by (simp add: ParseTransferACK_def i64_micros [OF assms(2)])
qed

lemma word_gap:
  fixes a b :: u64
  assumes "a < b" and "b \<le> 4611686018427387903"
  shows "b - a - 1 \<le> 4611686018427387903"
    and "b - a - 2 \<le> 4611686018427387903 \<longleftrightarrow> b - a \<noteq> 1"
proof -
  have u: "unat (b - a) = unat b - unat a" and le: "unat a < unat b" "unat b \<le> 4611686018427387903"
    using assms by (simp_all add: word_le_nat_alt word_less_nat_alt unat_sub_if')
  have "unat (b - a - 1) = unat b - unat a - 1" using le u by (simp add: unat_sub_if')
  then show "b - a - 1 \<le> 4611686018427387903" using le by (simp add: word_le_nat_alt)
  show "b - a - 2 \<le> 4611686018427387903 \<longleftrightarrow> b - a \<noteq> 1"
    unfolding word_le_nat_alt word_unat_eq_iff using le u by (auto simp: unat_sub_if')
qed

lemma EncodeVarint_total: "EncodeVarint x = (fst (EncodeVarint x), x \<le> 4611686018427387903)"
  by (simp add: EncodeVarint_None [symmetric])

lemma EncodeVarint_fits: "x \<le> 4611686018427387903 \<Longrightarrow> \<exists>v. EncodeVarint x = (v, True)"
  using EncodeVarint_total [of x] by auto

lemma transfer_loop_defined:
  assumes "ranges_ok (rev rs)" and "\<forall>r \<in> set rs. End r < b" and "b \<le> 4611686018427387903"
  shows "(\<exists>w. transfer_loop b rs = Inr w) \<longleftrightarrow>
    (rs \<noteq> [] \<longrightarrow> b - End (hd rs) \<noteq> 1) \<and> successively (\<lambda>y x. Begin y - End x \<noteq> 1) rs"
  using assms
proof (induction rs arbitrary: b)
  case (Cons r rs)
  then have r: "End r < b" "Begin r < End r" "\<forall>x \<in> set rs. End x < Begin r" "ranges_ok (rev rs)"
    by auto
  have bound: "End r \<le> 4611686018427387903" "Begin r \<le> 4611686018427387903"
    using r(1,2) Cons.prems(3) by (meson le_less_trans less_imp_le order.trans)+
  note enc = EncodeVarint_total [of "b - End r - 2"] EncodeVarint_total [of "End r - Begin r - 1"]
  have "transfer_loop b (r # rs) = (if b - End r = 1 then Inl InvalidOffset
      else rbind (transfer_loop (Begin r) rs) (\<lambda>w. Inr
        (\<lparr>ar_Offset = fst (EncodeVarint (b - End r - 2)), ar_Delta = fst (EncodeVarint (End r - Begin r - 1))\<rparr> # w)))"
    using r(1,2) word_gap [OF r(1) Cons.prems(3)] word_gap(1) [OF r(2) bound(1)]
    by (subst transfer_loop.simps, subst enc(1), subst enc(2)) (auto simp: not_le)
  moreover have "(\<exists>w. transfer_loop (Begin r) rs = Inr w) \<longleftrightarrow>
      (rs \<noteq> [] \<longrightarrow> Begin r - End (hd rs) \<noteq> 1) \<and> successively (\<lambda>y x. Begin y - End x \<noteq> 1) rs"
    using r bound by (intro Cons.IH) auto
  ultimately show ?case
    by (auto simp: rbind_Inr_iff successively_Cons)
qed simp

lemma TransferACK_defined:
  assumes ok: "ranges_ok ranges" and ne: "ranges \<noteq> []"
    and bound: "End (last ranges) \<le> 4611686018427387903" and d: "in_i64 d"
  shows "(\<exists>pkt. TransferACK ranges d = Inr pkt) \<longleftrightarrow>
    successively (\<lambda>x y. Begin y - End x \<noteq> 1) ranges"
proof -
  obtain l rest where l: "rev ranges = l # rest" using ne by (cases "rev ranges") auto
  then have r: "ranges = rev rest @ [l]" by (metis rev.simps(2) rev_rev_ident)
  have lb: "Begin l < End l" "\<forall>r \<in> set rest. End r < Begin l" "ranges_ok (rev rest)"
    and e: "End l \<le> 4611686018427387903"
    using ok bound unfolding r by auto
  from lb(1) e have b: "Begin l \<le> 4611686018427387903" by (metis less_imp_le order.trans)
  have "max 0 d div 1000 \<le> 4611686018427387903" using d by (auto simp: in_i64_def)
  then have delay: "(word_of_int (max 0 d div 1000) :: u64) \<le> 4611686018427387903"
    by (simp add: word_le_def uint_word_of_int)
  have "(\<exists>pkt. TransferACK ranges d = Inr pkt) \<longleftrightarrow> (\<exists>w. transfer_loop (Begin l) rest = Inr w)"
  proof -
    obtain v1 v2 v3 where v: "EncodeVarint (End l) = (v1, True)"
        "EncodeVarint (End l - Begin l - 1) = (v2, True)"
        "EncodeVarint (word_of_int (max 0 d div 1000)) = (v3, True)"
      using EncodeVarint_fits [OF e] EncodeVarint_fits [OF word_gap(1) [OF lb(1) e]]
        EncodeVarint_fits [OF delay] by blast
    have "\<not> End l \<le> Begin l" using lb(1) by (simp add: not_le)
    then show ?thesis by (simp add: TransferACK_def l rbind_Inr_iff v)
  qed
  also have "\<dots> \<longleftrightarrow> successively (\<lambda>y x. Begin y - End x \<noteq> 1) (l # rest)"
    unfolding transfer_loop_defined [OF lb(3,2) b] successively_Cons by (cases "rest = []") simp_all
  also have "\<dots> \<longleftrightarrow> successively (\<lambda>x y. Begin y - End x \<noteq> 1) ranges"
    unfolding r successively_rev [of _ "rev rest @ [l]", symmetric] by (simp only: rev_append rev.simps rev_rev_ident append.simps)
  finally show ?thesis .
qed

text \<open>
  \<open>TransferACK\<close> leaves \<open>Len\<close> at zero, so the encoder accepts its packet only when there is a
  single range.
\<close>

lemma Varint_Value_zero [simp]: "Varint_Value Varint_zero = 0"
  by (simp add: Varint_Value_def Varint_zero_def Prefix_def tmp780_def)

lemma Varint_wf_zero [simp]: "Varint_wf Varint_zero"
  by (simp add: Varint_wf_def Varint_zero_def Prefix_def tmp780_def)

lemma TransferACK_length:
  assumes "TransferACK ranges d = Inr pkt"
  shows "length ranges = Suc (length (Ranges pkt))"
proof -
  from assms obtain l rest where "rev ranges = l # rest" "transfer_loop (Begin l) rest = Inr (Ranges pkt)"
    by (rule TransferACK_InrE)
  with transfer_loop_ok show ?thesis by (metis length_Cons length_rev)
qed

lemma TransferACK_Append:
  assumes "TransferACK ranges d = Inr pkt"
  shows "StreamACKPacket_Append pkt buf =
    (if length ranges = 1 then Inr (buf @ StreamACKPacket_wire pkt)
     else Inl (SizeMismatch 0 (length ranges - 1)))"
proof -
  from assms obtain l rest where "rev ranges = l # rest" and
      e: "EncodeVarint (End l) = (LargestAck pkt, True)"
      "EncodeVarint (End l - Begin l - 1) = (FirstDelta pkt, True)"
      "EncodeVarint (word_of_int (max 0 d div Microsecond)) = (AckDelay pkt, True)"
    and len: "ack_Len pkt = Varint_zero"
    by (rule TransferACK_InrE)
  note v = e [THEN EncodeVarint_ok]
  show ?thesis
  proof (cases "Ranges pkt = []")
    case True
    with v len have "StreamACKPacket_ok pkt" by (simp add: StreamACKPacket_ok_def)
    with True TransferACK_length [OF assms] show ?thesis by (simp add: stream_ack.enc_wire)
  next
    case False
    with TransferACK_length [OF assms] show ?thesis
      by (simp add: StreamACKPacket_Append_def len Varint_Append_wire)
  qed
qed

section \<open>Properties\<close>

text \<open>
  Whatever \<open>TransferACK\<close> accepts, \<open>ParseTransferACK\<close> gives back: the same ranges in the same
  order, and the delay cut to whole microseconds (a negative delay is sent as zero).
\<close>

theorem ack_roundtrip:
  assumes "TransferACK ranges d = Inr pkt" and "in_i64 d"
  shows "ParseTransferACK pkt = (ranges, max 0 d div Microsecond * Microsecond)"
  using assms by (rule ParseTransferACK_TransferACK)

theorem ack_roundtrip_witness:
  "ParseTransferACK (projr (TransferACK [\<lparr>Begin = 1, End = 3\<rparr>, \<lparr>Begin = 9, End = 10\<rparr>] 2500))
    = ([\<lparr>Begin = 1, End = 3\<rparr>, \<lparr>Begin = 9, End = 10\<rparr>], max 0 2500 div Microsecond * Microsecond)"
proof (rule ack_roundtrip)
  have "\<exists>pkt. TransferACK [\<lparr>Begin = 1, End = 3\<rparr>, \<lparr>Begin = 9, End = 10\<rparr>] 2500 = Inr pkt"
    by (subst TransferACK_defined) (simp_all add: in_i64_def)
  then show "TransferACK [\<lparr>Begin = 1, End = 3\<rparr>, \<lparr>Begin = 9, End = 10\<rparr>] 2500
      = Inr (projr (TransferACK [\<lparr>Begin = 1, End = 3\<rparr>, \<lparr>Begin = 9, End = 10\<rparr>] 2500))"
    by auto
qed (simp add: in_i64_def)

text \<open>
  C39: for ranges as the tracker keeps them, \<open>TransferACK\<close> succeeds exactly when no two neighbouring
  ranges are one number apart: a single missing packet makes it fail.
\<close>

theorem transfer_ack_defined:
  assumes "ranges_ok ranges" and "ranges \<noteq> []"
    and "End (last ranges) \<le> 4611686018427387903" and "in_i64 d"
  shows "(\<exists>pkt. TransferACK ranges d = Inr pkt) \<longleftrightarrow>
    successively (\<lambda>x y. Begin y - End x \<noteq> 1) ranges"
  using assms by (rule TransferACK_defined)

theorem transfer_ack_defined_witness:
  "(\<exists>pkt. TransferACK [\<lparr>Begin = 0, End = 1\<rparr>, \<lparr>Begin = 2, End = 3\<rparr>] 0 = Inr pkt) \<longleftrightarrow>
    successively (\<lambda>x y. Begin y - End x \<noteq> 1) [\<lparr>Begin = 0, End = 1\<rparr>, \<lparr>Begin = 2, End = 3\<rparr>]"
  by (rule transfer_ack_defined) (simp_all add: in_i64_def)

text \<open>
  C40: the encoder accepts a packet of \<open>TransferACK\<close> when it acknowledges one range and refuses it
  (a size mismatch: \<open>Len\<close> is never set) when it acknowledges several.
\<close>

theorem transfer_ack_append:
  assumes "TransferACK ranges d = Inr pkt"
  shows "StreamACKPacket_Append pkt buf =
    (if length ranges = 1 then Inr (buf @ StreamACKPacket_wire pkt)
     else Inl (SizeMismatch 0 (length ranges - 1)))"
  using assms by (rule TransferACK_Append)

theorem transfer_ack_append_witness:
  "StreamACKPacket_Append (projr (TransferACK [\<lparr>Begin = 1, End = 3\<rparr>, \<lparr>Begin = 9, End = 10\<rparr>] 2500)) []
    = (if length [\<lparr>Begin = 1, End = 3\<rparr>, \<lparr>Begin = 9, End = 10\<rparr>] = 1
       then Inr ([] @ StreamACKPacket_wire (projr (TransferACK [\<lparr>Begin = 1, End = 3\<rparr>, \<lparr>Begin = 9, End = 10\<rparr>] 2500)))
       else Inl (SizeMismatch 0 (length [\<lparr>Begin = 1, End = 3\<rparr>, \<lparr>Begin = 9, End = 10\<rparr>] - 1)))"
proof (rule transfer_ack_append)
  have "\<exists>pkt. TransferACK [\<lparr>Begin = 1, End = 3\<rparr>, \<lparr>Begin = 9, End = 10\<rparr>] 2500 = Inr pkt"
    by (subst TransferACK_defined) (simp_all add: in_i64_def)
  then show "TransferACK [\<lparr>Begin = 1, End = 3\<rparr>, \<lparr>Begin = 9, End = 10\<rparr>] 2500
      = Inr (projr (TransferACK [\<lparr>Begin = 1, End = 3\<rparr>, \<lparr>Begin = 9, End = 10\<rparr>] 2500))"
    by auto
qed

end
