(* ===== verification/Mtu.thy ===== *)
theory Mtu
  imports Prelude
begin

text \<open>
  Path MTU discovery (\<open>src/trsf/mtu/plpmtud.go\<close>): a binary search by probes, a validation probe on a
  converged estimate, and the black-hole detector that lets the estimate fall back to its base.

  The lock makes every method one step. The callback \<open>onMTUUpdate\<close> is called at most once by a method
  and always last, so a method that can call it returns the announced value (\<open>None\<close>: not called).
  The function \<open>srtt\<close> that the tracker reads the smoothed round trip from is an argument of the
  methods that use it.
\<close>

record MTUTracker =
  probeSent :: bool
  mtu :: int
  mt_min :: int
  mt_max :: int
  low :: int
  high :: int
  lastProbe :: int
  searchLossCount :: int
  validationLossCount :: int
  lastProbeConverged :: time
  reProbeAfterConverged :: duration
  reprobeBackoffCount :: nat
  lastLargeACK :: time
  lastAnyACK :: time
  largeLostSeen :: bool
  validating :: bool
  lastValidation :: time
  fallbacks :: u64
  baseUnusable :: u64

definition maxReprobeBackoff :: nat where
  "maxReprobeBackoff = 6"

definition NewMTUTracker :: "int \<Rightarrow> int \<Rightarrow> duration \<Rightarrow> MTUTracker" where
  "NewMTUTracker mn mx reprobePeriod =
     \<lparr>probeSent = False, mtu = mn, mt_min = mn, mt_max = mx, low = mn + 1, high = mx, lastProbe = 0,
      searchLossCount = 0, validationLossCount = 0, lastProbeConverged = 0,
      reProbeAfterConverged = reprobePeriod, reprobeBackoffCount = 0, lastLargeACK = 0, lastAnyACK = 0,
      largeLostSeen = False, validating = False, lastValidation = 0, fallbacks = 0, baseUnusable = 0\<rparr>"

definition blackHoleRTTs :: int where "blackHoleRTTs = 10"
definition blackHoleFloor :: duration where "blackHoleFloor = 1 * Second"
definition blackHoleCap :: duration where "blackHoleCap = 30 * Second"

definition blackHoleTimeout :: "duration \<Rightarrow> duration" where
  "blackHoleTimeout srtt =
     (let d = i64 (blackHoleRTTs * srtt) in
      if d < blackHoleFloor then blackHoleFloor
      else if d > blackHoleCap then blackHoleCap else d)"

definition OnLargePacketACKed :: "int \<Rightarrow> time \<Rightarrow> MTUTracker \<Rightarrow> MTUTracker" where
  "OnLargePacketACKed sz now t =
     (let t = t\<lparr>lastAnyACK := now\<rparr> in
      if sz \<le> mt_min t then t else t\<lparr>lastLargeACK := now, largeLostSeen := False\<rparr>)"

definition OnPeerActivity :: "time \<Rightarrow> MTUTracker \<Rightarrow> MTUTracker" where
  "OnPeerActivity now t = t\<lparr>lastAnyACK := now\<rparr>"

definition fallBackToBase :: "MTUTracker \<Rightarrow> int option \<times> MTUTracker" where
  "fallBackToBase t =
     (Some (mt_min t),
      t\<lparr>mtu := mt_min t, low := mt_min t + 1, high := mt_max t, lastProbe := mt_min t,
        probeSent := False, searchLossCount := 0, validationLossCount := 0, lastProbeConverged := 0,
        largeLostSeen := False, lastLargeACK := 0, validating := False, lastValidation := 0,
        fallbacks := fallbacks t + 1\<rparr>)"

definition evaluateBlackHole :: "duration \<Rightarrow> time \<Rightarrow> MTUTracker \<Rightarrow> int option \<times> MTUTracker" where
  "evaluateBlackHole srtt now t =
     (if mtu t \<le> mt_min t then (None, t)
      else if \<not> largeLostSeen t then (None, t)
      else
        let timeout = blackHoleTimeout srtt in
        if IsZero (lastLargeACK t) \<or> Sub now (lastLargeACK t) \<le> timeout then (None, t)
        else if IsZero (lastAnyACK t) \<or> Sub now (lastAnyACK t) > timeout then (None, t)
        else fallBackToBase t)"

definition OnLargePacketLost :: "duration \<Rightarrow> int \<Rightarrow> time \<Rightarrow> MTUTracker \<Rightarrow> int option \<times> MTUTracker" where
  "OnLargePacketLost srtt sz now t =
     (if sz \<le> mt_min t then (None, t)
      else evaluateBlackHole srtt now (t\<lparr>largeLostSeen := True\<rparr>))"

definition validationInterval :: duration where "validationInterval = 60 * Second"
definition searchProbeInterval :: duration where "searchProbeInterval = 100 * Millisecond"

definition probesDiscoverable :: "MTUTracker \<Rightarrow> bool" where
  "probesDiscoverable t \<longleftrightarrow> mt_min t < mt_max t"

definition reprobeTime :: "MTUTracker \<Rightarrow> time" where
  "reprobeTime t = Add (lastProbeConverged t) (i64 (reProbeAfterConverged t * 2 ^ reprobeBackoffCount t))"

text \<open>The common tail of \<open>Probe\<close>: the middle of the search range.\<close>

definition probe_middle :: "MTUTracker \<Rightarrow> int \<times> MTUTracker" where
  "probe_middle t =
     (let p = (low t + high t + 1) div 2 in
      (p, t\<lparr>probeSent := True, validating := False, lastProbe := p\<rparr>))"

definition Probe :: "time \<Rightarrow> MTUTracker \<Rightarrow> int \<times> MTUTracker" where
  "Probe now t =
     (if probeSent t \<or> \<not> probesDiscoverable t then (-1, t)
      else if low t > high t then
        (if After now (Add (lastValidation t) validationInterval)
         then (mtu t, t\<lparr>probeSent := True, validating := True, lastValidation := now, lastProbe := mtu t\<rparr>)
         else if After now (reprobeTime t) \<and> mtu t < mt_max t
         then probe_middle
           (t\<lparr>low := mtu t + 1, high := mt_max t, lastProbeConverged := 0, searchLossCount := 0,
              reprobeBackoffCount := (if reprobeBackoffCount t < maxReprobeBackoff
                                      then reprobeBackoffCount t + 1 else reprobeBackoffCount t)\<rparr>)
         else (-1, t))
      else probe_middle t)"

definition NextDeadline :: "time \<Rightarrow> MTUTracker \<Rightarrow> time option" where
  "NextDeadline now t =
     (if \<not> probesDiscoverable t \<or> probeSent t then None
      else if low t \<le> high t then Some (Add now searchProbeInterval)
      else
        let nxt = Add (lastValidation t) validationInterval;
            nxt = (if mtu t < mt_max t \<and> Before (reprobeTime t) nxt then reprobeTime t else nxt) in
        if Before nxt now then Some now else Some nxt)"

definition mayDetectConverged :: "time \<Rightarrow> MTUTracker \<Rightarrow> MTUTracker" where
  "mayDetectConverged now t =
     (if low t > high t then
        let t = (if IsZero (lastProbeConverged t) then t\<lparr>lastProbeConverged := now\<rparr> else t) in
        if IsZero (lastValidation t) then t\<lparr>lastValidation := now\<rparr> else t
      else t)"

definition mt_OnACK :: "time \<Rightarrow> MTUTracker \<Rightarrow> int option \<times> MTUTracker" where
  "mt_OnACK now t =
     (let wasValidating = validating t;
          t = t\<lparr>probeSent := False, validating := False\<rparr> in
      if wasValidating then (None, t\<lparr>validationLossCount := 0\<rparr>)
      else
        let t = t\<lparr>searchLossCount := 0\<rparr>;
            (upd, t) = (if lastProbe t > mtu t
                        then (Some (lastProbe t), t\<lparr>mtu := lastProbe t, reprobeBackoffCount := 0\<rparr>)
                        else (None, t)) in
        (upd, mayDetectConverged now (t\<lparr>low := lastProbe t + 1\<rparr>)))"

definition mt_OnLost :: "time \<Rightarrow> MTUTracker \<Rightarrow> int option \<times> MTUTracker" where
  "mt_OnLost now t =
     (let wasValidating = validating t;
          t = t\<lparr>probeSent := False, validating := False\<rparr> in
      if wasValidating then
        (let t = t\<lparr>validationLossCount := validationLossCount t + 1\<rparr> in
         if validationLossCount t < 3 then (None, t)
         else
           let t = t\<lparr>validationLossCount := 0\<rparr> in
           if mtu t \<le> mt_min t then (None, t\<lparr>baseUnusable := baseUnusable t + 1\<rparr>)
           else fallBackToBase t)
      else if lastProbe t \<le> mtu t then (None, t)
      else
        let t = t\<lparr>searchLossCount := searchLossCount t + 1\<rparr> in
        if searchLossCount t \<ge> 3
        then (None, mayDetectConverged now (t\<lparr>high := lastProbe t - 1, searchLossCount := 0\<rparr>))
        else (None, t))"

definition CurrentMTU :: "MTUTracker \<Rightarrow> int" where "CurrentMTU t = mtu t"
definition MinCandidate :: "MTUTracker \<Rightarrow> int" where "MinCandidate t = low t"
definition MaxCandidate :: "MTUTracker \<Rightarrow> int" where "MaxCandidate t = high t"
definition Fallbacks :: "MTUTracker \<Rightarrow> u64" where "Fallbacks t = fallbacks t"
definition BaseUnusable :: "MTUTracker \<Rightarrow> u64" where "BaseUnusable t = baseUnusable t"

section \<open>Invariant\<close>

text \<open>
  The estimate stays between the bounds, the search range starts right above it, and the last probe
  is never below it.
\<close>

definition mtu_ok :: "MTUTracker \<Rightarrow> bool" where
  "mtu_ok t \<longleftrightarrow> 0 < mt_min t \<and> mt_min t \<le> mtu t \<and> mtu t \<le> mt_max t \<and> low t = mtu t + 1 \<and>
     high t \<le> mt_max t \<and> (lastProbe t = 0 \<and> \<not> probeSent t \<or> mtu t \<le> lastProbe t \<and> lastProbe t \<le> mt_max t)"

lemma mayDetectConverged_keeps [simp]:
  "mtu (mayDetectConverged now t) = mtu t" "mt_min (mayDetectConverged now t) = mt_min t"
  "mt_max (mayDetectConverged now t) = mt_max t" "low (mayDetectConverged now t) = low t"
  "high (mayDetectConverged now t) = high t" "lastProbe (mayDetectConverged now t) = lastProbe t"
  "probeSent (mayDetectConverged now t) = probeSent t"
  "validating (mayDetectConverged now t) = validating t"
  "searchLossCount (mayDetectConverged now t) = searchLossCount t"
  "reProbeAfterConverged (mayDetectConverged now t) = reProbeAfterConverged t"
  "reprobeBackoffCount (mayDetectConverged now t) = reprobeBackoffCount t"
  "fallbacks (mayDetectConverged now t) = fallbacks t"
  by (simp_all add: mayDetectConverged_def Let_def)

lemma mtu_ok_fallBack: "mtu_ok t \<Longrightarrow> mtu_ok (snd (fallBackToBase t))"
  by (auto simp: mtu_ok_def fallBackToBase_def)

lemma mtu_ok_evaluate: "mtu_ok t \<Longrightarrow> mtu_ok (snd (evaluateBlackHole srtt now t))"
  by (simp add: evaluateBlackHole_def Let_def mtu_ok_fallBack)

lemma mtu_ok_probe_middle: "mtu_ok t \<Longrightarrow> low t \<le> high t \<Longrightarrow> mtu_ok (snd (probe_middle t))"
  by (auto simp: mtu_ok_def probe_middle_def Let_def)

lemma mtu_ok_ops:
  assumes "mtu_ok t"
  shows "mtu_ok (snd (Probe now t))"
    and "mtu_ok (OnLargePacketACKed sz now t)" and "mtu_ok (OnPeerActivity now t)"
    and "mtu_ok (snd (OnLargePacketLost srtt sz now t))"
    and "mtu_ok (snd (mt_OnLost now t))"
    and "lastProbe t \<noteq> 0 \<Longrightarrow> mtu_ok (snd (mt_OnACK now t))"
proof -
  show "mtu_ok (snd (Probe now t))"
  proof (cases "probeSent t \<or> \<not> probesDiscoverable t")
    case False
    show ?thesis
    proof (cases "low t > high t")
      case True
      let ?t = "t\<lparr>low := mtu t + 1, high := mt_max t, lastProbeConverged := 0, searchLossCount := 0,
         reprobeBackoffCount := (if reprobeBackoffCount t < maxReprobeBackoff
                                 then reprobeBackoffCount t + 1 else reprobeBackoffCount t)\<rparr>"
      have "mtu_ok (snd (probe_middle ?t))" if "mtu t < mt_max t"
        by (rule mtu_ok_probe_middle) (use assms that in \<open>auto simp: mtu_ok_def\<close>)
      with False True assms show ?thesis by (auto simp: Probe_def) (auto simp: mtu_ok_def)
    next
      case nl: False
      with False mtu_ok_probe_middle [OF assms] show ?thesis by (simp add: Probe_def)
    qed
  qed (use assms in \<open>simp add: Probe_def\<close>)
  show "mtu_ok (OnLargePacketACKed sz now t)" and "mtu_ok (OnPeerActivity now t)"
    using assms by (simp_all add: OnLargePacketACKed_def OnPeerActivity_def mtu_ok_def Let_def)
  show "mtu_ok (snd (OnLargePacketLost srtt sz now t))"
    using assms mtu_ok_evaluate [of "t\<lparr>largeLostSeen := True\<rparr>"]
    by (simp add: OnLargePacketLost_def mtu_ok_def)
  show "mtu_ok (snd (mt_OnACK now t))" if "lastProbe t \<noteq> 0"
    using assms that by (auto simp: mt_OnACK_def mtu_ok_def Let_def)
  have "mtu_ok (t\<lparr>probeSent := False, validating := False, validationLossCount := n\<rparr>)" for n
    using assms by (auto simp: mtu_ok_def)
  from mtu_ok_fallBack [OF this] show "mtu_ok (snd (mt_OnLost now t))"
    using assms by (auto simp: mt_OnLost_def Let_def) (auto simp: mtu_ok_def)
qed


section \<open>The search\<close>

text \<open>
  One round of the search on a path that carries exactly the packets of at most \<open>M\<close> bytes: a probe,
  and its acknowledgement or its loss.
\<close>

definition search_round :: "int \<Rightarrow> time \<Rightarrow> MTUTracker \<Rightarrow> MTUTracker" where
  "search_round M now t =
     (case Probe now t of (p, t') \<Rightarrow>
        if p = -1 then t' else if p \<le> M then snd (mt_OnACK now t') else snd (mt_OnLost now t'))"

definition searching :: "int \<Rightarrow> time \<Rightarrow> MTUTracker \<Rightarrow> bool" where
  "searching M now t \<longleftrightarrow>
     mtu_ok t \<and> \<not> probeSent t \<and> \<not> validating t \<and> mtu t \<le> M \<and> M \<le> high t \<and> mt_min t < mt_max t \<and>
     0 \<le> searchLossCount t \<and> searchLossCount t \<le> 2 \<and> reprobeBackoffCount t = 0 \<and>
     0 \<le> reProbeAfterConverged t \<and> in_i64 (reProbeAfterConverged t) \<and>
     (if low t > high t then lastProbeConverged t = now \<and> lastValidation t = now
      else lastProbeConverged t = 0 \<and> lastValidation t = 0)"

definition search_left :: "MTUTracker \<Rightarrow> nat" where
  "search_left t = nat (3 * (high t - low t + 1) - searchLossCount t)"

lemma mayDetectConverged_times:
  assumes "lastProbeConverged t = 0" and "lastValidation t = 0"
  shows "lastProbeConverged (mayDetectConverged now t) = (if low t > high t then now else 0)"
    and "lastValidation (mayDetectConverged now t) = (if low t > high t then now else 0)"
  using assms by (simp_all add: mayDetectConverged_def IsZero_def Let_def)

lemma search_round_converged:
  assumes "searching M now t" and "low t > high t"
  shows "search_round M now t = t"
  using assms
  by (simp add: search_round_def Probe_def searching_def reprobeTime_def time_simps validationInterval_def
      probesDiscoverable_def)

lemma search_round_step:
  assumes s: "searching M now t" and "low t \<le> high t"
  shows "searching M now (search_round M now t) \<and> search_left (search_round M now t) < search_left t"
proof -
  let ?p = "(low t + high t + 1) div 2"
  let ?t = "t\<lparr>probeSent := True, validating := False, lastProbe := ?p\<rparr>"
  have pr: "Probe now t = (?p, ?t)"
    using s assms(2) by (simp add: Probe_def probe_middle_def searching_def probesDiscoverable_def Let_def)
  have ok: "0 < mt_min t" "mt_min t \<le> mtu t" "mtu t \<le> mt_max t" "low t = mtu t + 1" "high t \<le> mt_max t"
    using s by (simp_all add: searching_def mtu_ok_def)
  have p: "low t \<le> ?p" "?p \<le> high t" "?p \<noteq> -1" "mtu t < ?p" using assms(2) ok by auto
  have z: "lastProbeConverged t = 0" "lastValidation t = 0"
    using s assms(2) by (simp_all add: searching_def)
  show ?thesis
  proof (cases "?p \<le> M")
    case True
    then have r: "search_round M now t = mayDetectConverged now (t\<lparr>lastProbe := ?p, probeSent := False,
        validating := False, searchLossCount := 0, mtu := ?p, reprobeBackoffCount := 0, low := ?p + 1\<rparr>)"
      using p by (simp add: search_round_def pr mt_OnACK_def Let_def)
    show ?thesis
      using s True p ok z unfolding r
      by (auto simp: searching_def search_left_def mtu_ok_def mayDetectConverged_times)
  next
    case False
    show ?thesis
    proof (cases "searchLossCount t = 2")
      case two: True
      then have r: "search_round M now t = mayDetectConverged now (t\<lparr>lastProbe := ?p, probeSent := False,
          validating := False, high := ?p - 1, searchLossCount := 0\<rparr>)"
        using p False by (simp add: search_round_def pr mt_OnLost_def Let_def)
      show ?thesis
        using s False p ok z two unfolding r
        by (auto simp: searching_def search_left_def mtu_ok_def mayDetectConverged_times)
    next
      case few: False
      with s have "searchLossCount t < 2" "0 \<le> searchLossCount t" by (simp_all add: searching_def)
      then have r: "search_round M now t = t\<lparr>lastProbe := ?p, probeSent := False,
          validating := False, searchLossCount := searchLossCount t + 1\<rparr>"
        using p False by (simp add: search_round_def pr mt_OnLost_def Let_def)
      show ?thesis
        using s False p ok z \<open>searchLossCount t < 2\<close> unfolding r
        by (auto simp: searching_def search_left_def mtu_ok_def)
    qed
  qed
qed

lemma search_converges:
  "searching M now t \<Longrightarrow> search_left t \<le> n \<Longrightarrow> mtu ((search_round M now ^^ n) t) = M"
proof (induction n arbitrary: t)
  case 0
  then show ?case by (auto simp: search_left_def searching_def mtu_ok_def)
next
  case (Suc n)
  show ?case
  proof (cases "low t > high t")
    case True
    then have "search_left t \<le> n" using Suc.prems by (simp add: search_left_def searching_def)
    with Suc.IH [OF Suc.prems(1)] search_round_converged [OF Suc.prems(1) True] show ?thesis
      by (simp add: funpow_swap1)
  next
    case False
    with search_round_step [OF Suc.prems(1)] Suc.prems(2) show ?thesis
      by (auto simp: funpow_swap1 intro: Suc.IH)
  qed
qed

section \<open>Properties\<close>

text \<open>
  The bounds hold through every method: the estimate stays between its base and its ceiling and
  the search range starts right above it, whatever probes are answered or lost, also when the answer
  of an old probe arrives late.
\<close>

theorem mtu_bounds:
  assumes "mtu_ok t"
  shows "mtu_ok (snd (Probe now t)) \<and> mtu_ok (OnLargePacketACKed sz now t) \<and>
    mtu_ok (OnPeerActivity now t) \<and> mtu_ok (snd (OnLargePacketLost srtt sz now t)) \<and>
    mtu_ok (snd (mt_OnLost now t)) \<and> (lastProbe t \<noteq> 0 \<longrightarrow> mtu_ok (snd (mt_OnACK now t)))"
  using mtu_ok_ops [OF assms] by blast

theorem mtu_bounds_witness:
  "let t = (NewMTUTracker 1200 1452 30)\<lparr>lastProbe := 1326, probeSent := True\<rparr> in
    mtu_ok (snd (Probe 5 t)) \<and> mtu_ok (OnLargePacketACKed 1300 5 t) \<and>
    mtu_ok (OnPeerActivity 5 t) \<and> mtu_ok (snd (OnLargePacketLost 7 1300 5 t)) \<and>
    mtu_ok (snd (mt_OnLost 5 t)) \<and> mtu_ok (snd (mt_OnACK 5 t))"
proof -
  let ?t = "(NewMTUTracker 1200 1452 30)\<lparr>lastProbe := 1326, probeSent := True\<rparr>"
  have "mtu_ok ?t" "lastProbe ?t \<noteq> 0" by (simp_all add: mtu_ok_def NewMTUTracker_def)
  with mtu_bounds [of ?t 5 1300 7] show ?thesis unfolding Let_def by blast
qed



text \<open>
  The estimate falls in one way only: any method that leaves it lower leaves it at the base, has
  counted a fallback and has announced the base; and it rises only to the size of the last probe,
  which is announced too.
\<close>

theorem mtu_only_falls_back:
  assumes "op = mt_OnACK now \<or> op = mt_OnLost now \<or> op = OnLargePacketLost srtt sz now"
    and "op t = (upd, t')"
  shows "(mtu t' < mtu t \<longrightarrow> mtu t' = mt_min t \<and> fallbacks t' = fallbacks t + 1 \<and> upd = Some (mtu t')) \<and>
    (mtu t < mtu t' \<longrightarrow> (mtu t' = lastProbe t \<or> mtu t' = mt_min t) \<and> upd = Some (mtu t'))"
  using assms
  by (auto simp: mt_OnACK_def mt_OnLost_def OnLargePacketLost_def evaluateBlackHole_def fallBackToBase_def
      Let_def split: if_splits)

theorem mtu_only_falls_back_witness:
  "let t = (NewMTUTracker 1200 1452 30)\<lparr>mtu := 1300, validating := True, validationLossCount := 2\<rparr>;
       (upd, t') = mt_OnLost 5 t in
    mtu t' = 1200 \<and> fallbacks t' = 1 \<and> upd = Some 1200"
proof -
  let ?t = "(NewMTUTracker 1200 1452 30)\<lparr>mtu := 1300, validating := True, validationLossCount := 2\<rparr>"
  obtain upd t' where r: "mt_OnLost 5 ?t = (upd, t')" by fastforce
  then have "mtu t' = 1200"
    by (auto simp: mt_OnLost_def NewMTUTracker_def fallBackToBase_def Let_def)
  moreover have "mtu ?t = 1300" "mt_min ?t = 1200" "fallbacks ?t = 0" by (simp_all add: NewMTUTracker_def)
  ultimately show ?thesis using mtu_only_falls_back [of "mt_OnLost 5" 5 0 0 ?t upd t'] r
    unfolding Let_def by simp
qed



end
