(* ===== verification/Congestion.thy ===== *)
theory Congestion
  imports Mtu
begin

text \<open>
  Round-trip estimation, the NewReno window and the pacer (\<open>src/trsf/congestion\<close>).

  \<^item> \<open>RTTStats\<close>: durations are signed 64-bit; every product, sum and difference goes through \<open>i64\<close>
    and a quotient is Go's truncating one (\<open>sdiv\<close>).
  \<^item> \<open>newReno\<close> reads the MTU tracker and the RTT statistics, which it shares with the rest of the
    connection: the current MTU and the smoothed round trip are arguments.
  \<^item> \<open>pacer\<close>: all arithmetic on 64-bit words. Its bandwidth function is an argument too. \<open>Timer\<close>
    divides by the bandwidth, and a division by zero is a run-time panic: \<open>None\<close>.
\<close>

section \<open>RTTStats\<close>

record RTTStats =
  FirstAcked :: time
  SRTT :: duration
  RTTVAR :: duration
  MinRTT :: duration
  LatestRTT :: duration

definition noMinRTT :: duration where
  "noMinRTT = 2 ^ 63 - 1"

definition NewRTTStats :: "duration \<Rightarrow> RTTStats" where
  "NewRTTStats initialRTT =
     \<lparr>FirstAcked = 0, SRTT = initialRTT, RTTVAR = initialRTT sdiv 2, MinRTT = noMinRTT, LatestRTT = 0\<rparr>"

definition HasMinRTT :: "RTTStats \<Rightarrow> bool" where
  "HasMinRTT rtt \<longleftrightarrow> MinRTT rtt \<noteq> noMinRTT"

definition absDuration :: "duration \<Rightarrow> duration" where
  "absDuration a = (if a < 0 then i64 (- a) else a)"

definition NoACKReceived :: "RTTStats \<Rightarrow> bool" where
  "NoACKReceived rtt \<longleftrightarrow> IsZero (FirstAcked rtt)"

definition PTO :: "nat \<Rightarrow> RTTStats \<Rightarrow> duration" where
  "PTO exponent rtt =
     i64 (i64 (SRTT rtt + max (i64 (4 * RTTVAR rtt)) 1) + i64 (25 * Millisecond * i64 (2 ^ exponent)))"

definition UpdateRTT :: "duration \<Rightarrow> duration \<Rightarrow> time \<Rightarrow> RTTStats \<Rightarrow> RTTStats" where
  "UpdateRTT measured ackDelay now rtt =
     (let rtt = (if measured > 0 \<and> MinRTT rtt > measured then rtt\<lparr>MinRTT := measured\<rparr> else rtt);
          rtt = rtt\<lparr>LatestRTT := measured\<rparr> in
      if IsZero (FirstAcked rtt)
      then rtt\<lparr>SRTT := measured, RTTVAR := measured sdiv 2, FirstAcked := now\<rparr>
      else
        let adjusted = (if i64 (measured - MinRTT rtt) \<ge> ackDelay then i64 (measured - ackDelay) else measured) in
        rtt\<lparr>RTTVAR := i64 (i64 (3 * RTTVAR rtt) + absDuration (i64 (SRTT rtt - adjusted))) sdiv 4,
            SRTT := i64 (i64 (7 * SRTT rtt) + adjusted) sdiv 8\<rparr>)"

section \<open>The pacer\<close>

record pacer =
  budgetAtLastSent :: u64
  lastMTU :: u64
  lastSentTime :: time

definition maxBurstScale :: u64 where "maxBurstScale = 10"
definition nsPerSecond :: u64 where "nsPerSecond = 1000000000"

definition leastMaxBurstSize :: "pacer \<Rightarrow> u64" where
  "leastMaxBurstSize p = maxBurstScale * lastMTU p"

definition timeScaledBandwidth :: "u64 \<Rightarrow> u64 \<Rightarrow> pacer \<Rightarrow> u64" where
  "timeScaledBandwidth bw ns p =
     (if bw = 0 then 0
      else if ns > (- 1) div bw then leastMaxBurstSize p
      else bw * ns div nsPerSecond)"

definition maxBurstSize :: "u64 \<Rightarrow> pacer \<Rightarrow> u64" where
  "maxBurstSize bw p = max (leastMaxBurstSize p) (timeScaledBandwidth bw 2000000 p)"

text \<open>\<open>newPacer\<close>: the MTU and the (adjusted) bandwidth at that moment.\<close>

definition newPacer :: "int \<Rightarrow> u64 \<Rightarrow> pacer" where
  "newPacer m bw =
     (let p = \<lparr>budgetAtLastSent = 0, lastMTU = word_of_int m, lastSentTime = 0\<rparr> in
      p\<lparr>budgetAtLastSent := maxBurstSize bw p\<rparr>)"

definition Timer :: "u64 \<Rightarrow> pacer \<Rightarrow> time option" where
  "Timer bw p =
     (if budgetAtLastSent p \<ge> lastMTU p then Some 0
      else if bw = 0 then None
      else
        let diff = (lastMTU p - budgetAtLastSent p) * nsPerSecond;
            d = diff div bw;
            d = (if diff mod bw \<noteq> 0 then d + 1 else d);
            candidate = max (1 * Millisecond) (i64 (uint d)) in
        Some (Add (lastSentTime p) candidate))"

definition Budget :: "u64 \<Rightarrow> time \<Rightarrow> pacer \<Rightarrow> u64" where
  "Budget bw now p =
     (if IsZero (lastSentTime p) then maxBurstSize bw p
      else
        let delta = Sub now (lastSentTime p);
            added = (if delta > 0 then timeScaledBandwidth bw (word_of_int delta) p else 0);
            budget = budgetAtLastSent p + added in
        if added > 0 \<and> budget < budgetAtLastSent p then maxBurstSize bw p
        else min budget (maxBurstSize bw p))"

definition pacer_OnSent :: "u64 \<Rightarrow> int \<Rightarrow> time \<Rightarrow> u64 \<Rightarrow> pacer \<Rightarrow> pacer" where
  "pacer_OnSent bw m now sentSize p =
     (let p = p\<lparr>lastMTU := word_of_int m\<rparr>;
          budget = Budget bw now p in
      p\<lparr>budgetAtLastSent := (if sentSize > budget then 0 else budget - sentSize), lastSentTime := now\<rparr>)"

section \<open>NewReno\<close>

record newReno =
  cwnd :: int
  ssthresh :: int
  lastLossTime :: time
  nr_pacer :: pacer

definition BytesPerSecond :: u64 where "BytesPerSecond = 8"

definition BandwidthEstimate :: "duration \<Rightarrow> int \<Rightarrow> u64" where
  "BandwidthEstimate srtt w =
     (let smoothedRTT = (if srtt < Millisecond then Millisecond else srtt) in
      word_of_int w * word_of_int Second div word_of_int smoothedRTT * BytesPerSecond)"

text \<open>The closure \<open>adjustedBandwidth\<close> of the pacer.\<close>

definition adjustedBandwidth :: "duration \<Rightarrow> int \<Rightarrow> u64" where
  "adjustedBandwidth srtt w = BandwidthEstimate srtt w div BytesPerSecond * 5 div 4"

definition NewNewReno :: "int \<Rightarrow> duration \<Rightarrow> newReno" where
  "NewNewReno m srtt =
     \<lparr>cwnd = m * 2, ssthresh = 65536, lastLossTime = 0,
      nr_pacer = newPacer m (adjustedBandwidth srtt (m * 2))\<rparr>"

text \<open>The function registered with \<open>OnMTUUpdate\<close>.\<close>

definition reno_OnMTU :: "int \<Rightarrow> newReno \<Rightarrow> newReno" where
  "reno_OnMTU newMTU p = (if cwnd p < newMTU * 2 then p\<lparr>cwnd := newMTU * 2\<rparr> else p)"

definition GetCongestionWindow :: "newReno \<Rightarrow> int" where
  "GetCongestionWindow p = cwnd p"

definition PacingTimer :: "duration \<Rightarrow> newReno \<Rightarrow> time option" where
  "PacingTimer srtt p = Timer (adjustedBandwidth srtt (cwnd p)) (nr_pacer p)"

definition reno_CanSend :: "int \<Rightarrow> newReno \<Rightarrow> bool" where
  "reno_CanSend bytesInFlight p \<longleftrightarrow> bytesInFlight < cwnd p"

definition reno_RecordSend :: "duration \<Rightarrow> int \<Rightarrow> int \<Rightarrow> time \<Rightarrow> newReno \<Rightarrow> newReno" where
  "reno_RecordSend srtt m sz now p =
     p\<lparr>nr_pacer := pacer_OnSent (adjustedBandwidth srtt (cwnd p)) m now (word_of_int sz) (nr_pacer p)\<rparr>"

text \<open>\<open>None\<close> is the panic of a division by zero.\<close>

definition RecordACK :: "int \<Rightarrow> time \<Rightarrow> newReno \<Rightarrow> newReno option" where
  "RecordACK sz now p =
     (if cwnd p < ssthresh p then Some (p\<lparr>cwnd := cwnd p + sz\<rparr>)
      else if cwnd p = 0 then None
      else
        let w = cwnd p + (sz * sz) sdiv cwnd p in
        Some (p\<lparr>cwnd := (if w = 0 then 1 else w)\<rparr>))"

definition RecordLoss :: "int \<Rightarrow> int \<Rightarrow> time \<Rightarrow> newReno \<Rightarrow> newReno" where
  "RecordLoss m sz now p =
     (if Sub now (lastLossTime p) < Second then p
      else
        let s = cwnd p sdiv 2;
            s = (if s < m * 2 then m * 2 else s) in
        p\<lparr>ssthresh := s, cwnd := s, lastLossTime := now\<rparr>)"


section \<open>The interface of a congestion controller\<close>

text \<open>
  What the sent-packet handler relies on (the Go interface \<open>CongestionControl\<close>): whether it may send
  depends on the window only, an acknowledgement never shrinks the window and never fails, a loss
  never grows it, and the window never closes completely.
\<close>

datatype cc_event = Acked int time | Lost int time

fun cc_run :: "(int \<Rightarrow> time \<Rightarrow> 'c \<Rightarrow> 'c option) \<Rightarrow> (int \<Rightarrow> time \<Rightarrow> 'c \<Rightarrow> 'c) \<Rightarrow> cc_event list \<Rightarrow> 'c \<Rightarrow> 'c option" where
  "cc_run ack loss [] c = Some c"
| "cc_run ack loss (Acked n now # es) c =
     (case ack n now c of None \<Rightarrow> None | Some c' \<Rightarrow> cc_run ack loss es c')"
| "cc_run ack loss (Lost n now # es) c = cc_run ack loss es (loss n now c)"

locale congestion_control =
  fixes window :: "'c \<Rightarrow> int" and can_send :: "int \<Rightarrow> 'c \<Rightarrow> bool"
    and ack :: "int \<Rightarrow> time \<Rightarrow> 'c \<Rightarrow> 'c option" and loss :: "int \<Rightarrow> time \<Rightarrow> 'c \<Rightarrow> 'c"
    and floor :: int and ok :: "'c \<Rightarrow> bool"
  assumes can_send_iff: "can_send b c \<longleftrightarrow> b < window c"
    and floor_pos: "ok c \<Longrightarrow> 0 < floor" and ok_window: "ok c \<Longrightarrow> floor \<le> window c"
    and ack_ok: "ok c \<Longrightarrow> 0 \<le> n \<Longrightarrow> \<exists>c'. ack n now c = Some c' \<and> ok c' \<and> window c \<le> window c'"
    and loss_ok: "ok c \<Longrightarrow> ok (loss n now c)" and loss_le: "ok c \<Longrightarrow> window (loss n now c) \<le> window c"
begin

lemma idle_can_send: "ok c \<Longrightarrow> can_send 0 c"
  using floor_pos ok_window by (fastforce simp: can_send_iff)

lemma run_ok:
  "ok c \<Longrightarrow> \<forall>e \<in> set es. case e of Acked n now \<Rightarrow> 0 \<le> n | Lost n now \<Rightarrow> True \<Longrightarrow>
     \<exists>c'. cc_run ack loss es c = Some c' \<and> ok c'"
proof (induction es arbitrary: c)
  case (Cons e es)
  show ?case
  proof (cases e)
    case (Acked n now)
    with Cons.prems ack_ok [OF Cons.prems(1), of n now] Cons.IH show ?thesis by auto
  next
    case (Lost n now)
    with Cons.prems loss_ok [OF Cons.prems(1)] Cons.IH show ?thesis by simp
  qed
qed simp

lemma never_closes:
  assumes "ok c" and "\<forall>e \<in> set es. case e of Acked n now \<Rightarrow> 0 \<le> n | Lost n now \<Rightarrow> True"
  shows "\<exists>c'. cc_run ack loss es c = Some c' \<and> floor \<le> window c' \<and> can_send 0 c'"
  using run_ok [OF assms] idle_can_send ok_window by blast

end

definition reno_ok :: "int \<Rightarrow> newReno \<Rightarrow> bool" where
  "reno_ok m p \<longleftrightarrow> 0 < m \<and> 2 * m \<le> cwnd p"

lemma sdiv_nonneg: "0 \<le> a \<Longrightarrow> 0 < b \<Longrightarrow> a sdiv b = a div b" for a b :: int
  by (simp add: signed_divide_int_def sgn_if)

lemma RecordACK_ok:
  assumes "reno_ok m p" and "0 \<le> n"
  shows "\<exists>p'. RecordACK n now p = Some p' \<and> reno_ok m p' \<and> cwnd p \<le> cwnd p'"
proof -
  have "0 \<le> n * n div cwnd p" using assms by (simp add: reno_ok_def pos_imp_zdiv_nonneg_iff)
  with assms show ?thesis
    by (auto simp: RecordACK_def reno_ok_def Let_def sdiv_nonneg)
qed

interpretation reno: congestion_control GetCongestionWindow reno_CanSend RecordACK "RecordLoss m" "2 * m" "reno_ok m"
proof unfold_locales
  show "\<exists>c'. RecordACK n now c = Some c' \<and> reno_ok m c' \<and> GetCongestionWindow c \<le> GetCongestionWindow c'"
    if "reno_ok m c" "0 \<le> n" for c n now
    using RecordACK_ok [OF that] by (simp add: GetCongestionWindow_def)
qed (auto simp: reno_CanSend_def GetCongestionWindow_def reno_ok_def RecordLoss_def Let_def sdiv_nonneg)

section \<open>Pacing\<close>

lemma Budget_le: "Budget bw now p \<le> maxBurstSize bw p"
  by (simp add: Budget_def Let_def)

lemma maxBurstSize_cong: "lastMTU p = lastMTU q \<Longrightarrow> maxBurstSize bw p = maxBurstSize bw q"
  by (simp add: maxBurstSize_def leastMaxBurstSize_def timeScaledBandwidth_def)

lemma pacer_budget:
  "budgetAtLastSent (pacer_OnSent bw m now n p) \<le> maxBurstSize bw (pacer_OnSent bw m now n p)"
proof -
  let ?q = "p\<lparr>lastMTU := word_of_int m\<rparr>"
  have "budgetAtLastSent (pacer_OnSent bw m now n p) \<le> Budget bw now ?q"
    by (simp add: pacer_OnSent_def Let_def word_sub_le)
  also have "\<dots> \<le> maxBurstSize bw ?q" by (rule Budget_le)
  also have "\<dots> = maxBurstSize bw (pacer_OnSent bw m now n p)"
    by (rule maxBurstSize_cong) (simp add: pacer_OnSent_def Let_def)
  finally show ?thesis .
qed

section \<open>Properties\<close>

text \<open>
  The window never closes: from the initial state, any sequence of acknowledgements and losses
  runs without a division by zero, leaves a window of at least two packets, and lets a connection
  with nothing in flight send.
\<close>

theorem reno_never_closes:
  assumes "0 < m" and "\<forall>e \<in> set es. case e of Acked n now \<Rightarrow> 0 \<le> n | Lost n now \<Rightarrow> True"
  shows "\<exists>p. cc_run RecordACK (RecordLoss m) es (NewNewReno m srtt) = Some p \<and>
    2 * m \<le> GetCongestionWindow p \<and> reno_CanSend 0 p"
  using reno.never_closes [of m "NewNewReno m srtt" es] assms by (simp add: reno_ok_def NewNewReno_def)

theorem reno_never_closes_witness:
  "\<exists>p. cc_run RecordACK (RecordLoss 1200) [Acked 1200 5, Lost 1200 (2 * Second), Acked 600 7] (NewNewReno 1200 333) = Some p \<and>
    2 * 1200 \<le> GetCongestionWindow p \<and> reno_CanSend 0 p"
  by (rule reno_never_closes) simp_all

text \<open>
  The response to a loss: at most once per second the window becomes half of what it was, but not
  less than two packets, and the slow-start threshold becomes the same; within the second nothing
  changes.
\<close>

theorem reno_loss_response:
  assumes "reno_ok m p"
  shows "RecordLoss m n now p =
    (if Sub now (lastLossTime p) < Second then p
     else p\<lparr>ssthresh := max (cwnd p div 2) (2 * m), cwnd := max (cwnd p div 2) (2 * m), lastLossTime := now\<rparr>)"
  using assms by (auto simp: RecordLoss_def reno_ok_def Let_def sdiv_nonneg max_def)

theorem reno_loss_response_witness:
  "RecordLoss 1200 900 (5 * Second) (NewNewReno 1200 333) =
    (if Sub (5 * Second) (lastLossTime (NewNewReno 1200 333)) < Second then NewNewReno 1200 333
     else (NewNewReno 1200 333)\<lparr>ssthresh := max (cwnd (NewNewReno 1200 333) div 2) (2 * 1200),
        cwnd := max (cwnd (NewNewReno 1200 333) div 2) (2 * 1200), lastLossTime := 5 * Second\<rparr>)"
  by (rule reno_loss_response) (simp add: reno_ok_def NewNewReno_def)

text \<open>
  In congestion avoidance the growth is the square of the acknowledged bytes over the window, so
  an acknowledgement that covers a whole window doubles it, as slow start would.
\<close>

theorem reno_avoidance_growth:
  assumes "ssthresh p \<le> cwnd p" and "0 < cwnd p" and "0 \<le> n"
  shows "RecordACK n now p = Some (p\<lparr>cwnd := cwnd p + n * n div cwnd p\<rparr>) \<and>
    RecordACK (cwnd p) now p = Some (p\<lparr>cwnd := 2 * cwnd p\<rparr>)"
proof -
  have "0 \<le> n * n div cwnd p" using assms by (simp add: pos_imp_zdiv_nonneg_iff)
  with assms show ?thesis by (simp add: RecordACK_def sdiv_nonneg Let_def)
qed

theorem reno_avoidance_growth_witness:
  "let p = (NewNewReno 1200 333)\<lparr>ssthresh := 2400\<rparr> in
    RecordACK 1200 9 p = Some (p\<lparr>cwnd := cwnd p + 1200 * 1200 div cwnd p\<rparr>) \<and>
    RecordACK (cwnd p) 9 p = Some (p\<lparr>cwnd := 2 * cwnd p\<rparr>)"
  unfolding Let_def by (rule reno_avoidance_growth) (simp_all add: NewNewReno_def)

text \<open>
  The pacer's budget is bounded and its timer is a real delay: after every send the remaining
  budget is at most one maximal burst, and with a positive bandwidth the timer is either "now" (a
  full packet is in the budget) or at least a millisecond after the last send; it panics exactly when
  the budget is short and the bandwidth is zero.
\<close>

theorem pacer_bounds:
  "budgetAtLastSent (pacer_OnSent bw m now n p) \<le> maxBurstSize bw (pacer_OnSent bw m now n p) \<and>
   (case Timer bw p of
      None \<Rightarrow> bw = 0 \<and> budgetAtLastSent p < lastMTU p
    | Some t \<Rightarrow> lastMTU p \<le> budgetAtLastSent p \<and> t = 0 \<or>
                budgetAtLastSent p < lastMTU p \<and> bw \<noteq> 0 \<and> lastSentTime p + Millisecond \<le> t)"
  using pacer_budget [of bw m now n p] by (auto simp: Timer_def Let_def Add_def not_le)

text \<open>
  The round-trip estimator with an honest sample: for a delay between zero and the sample, and
  durations far from overflow, the smoothed value lies between the smaller and the larger of its old
  value and the sample cut by the delay, the delay is taken out only if the sample stays at or above
  the minimum, and the minimum follows the raw positive samples.
\<close>

theorem rtt_update:
  assumes "0 \<le> measured" and "measured < 2 ^ 59" and "0 \<le> SRTT rtt" and "SRTT rtt < 2 ^ 59"
    and "0 \<le> ackDelay" and "ackDelay < 2 ^ 63" and "0 \<le> MinRTT rtt" and "MinRTT rtt < 2 ^ 63"
    and "FirstAcked rtt \<noteq> 0"
  shows "let rtt' = UpdateRTT measured ackDelay now rtt;
             adjusted = (if MinRTT rtt' + ackDelay \<le> measured then measured - ackDelay else measured) in
    MinRTT rtt' = (if 0 < measured then min (MinRTT rtt) measured else MinRTT rtt) \<and>
    LatestRTT rtt' = measured \<and>
    SRTT rtt' = (7 * SRTT rtt + adjusted) div 8 \<and>
    min (SRTT rtt) adjusted \<le> SRTT rtt' \<and> SRTT rtt' \<le> max (SRTT rtt) adjusted"
proof -
  define r1 where "r1 = (if measured > 0 \<and> MinRTT rtt > measured then rtt\<lparr>MinRTT := measured\<rparr> else rtt)"
  let ?a = "if MinRTT r1 + ackDelay \<le> measured then measured - ackDelay else measured"
  have m: "MinRTT r1 = (if 0 < measured then min (MinRTT rtt) measured else MinRTT rtt)"
    "SRTT r1 = SRTT rtt" "FirstAcked r1 = FirstAcked rtt" by (auto simp: r1_def min_def)
  have mb: "0 \<le> MinRTT r1" "MinRTT r1 < 2 ^ 63" using assms m by auto
  have i: "i64 (measured - MinRTT r1) = measured - MinRTT r1" "i64 (measured - ackDelay) = measured - ackDelay"
    using assms mb by (simp_all add: in_i64_def)
  have a: "0 \<le> ?a" "?a < 2 ^ 59" using assms mb by auto
  have ia: "i64 (i64 (7 * SRTT rtt) + ?a) = 7 * SRTT rtt + ?a"
    using assms a by (subst (2) i64_id) (simp_all add: in_i64_def)
  have u: "MinRTT (UpdateRTT measured ackDelay now rtt) = MinRTT r1"
    "LatestRTT (UpdateRTT measured ackDelay now rtt) = measured"
    "SRTT (UpdateRTT measured ackDelay now rtt) = i64 (i64 (7 * SRTT rtt) + ?a) sdiv 8"
    using assms(9) m i by (auto simp: UpdateRTT_def r1_def [symmetric] Let_def IsZero_def le_diff_eq add.commute)
  have s: "i64 (i64 (7 * SRTT rtt) + ?a) sdiv 8 = (7 * SRTT rtt + ?a) div 8"
    unfolding ia using assms a by (intro sdiv_nonneg) auto
  show ?thesis unfolding Let_def u s using m a by auto
qed

theorem rtt_update_witness:
  "let rtt = (NewRTTStats (333 * Millisecond))\<lparr>FirstAcked := 1, MinRTT := 10 * Millisecond\<rparr>;
       rtt' = UpdateRTT (60 * Millisecond) (20 * Millisecond) 9 rtt;
       adjusted = (if MinRTT rtt' + 20 * Millisecond \<le> 60 * Millisecond then 60 * Millisecond - 20 * Millisecond
                   else 60 * Millisecond) in
    MinRTT rtt' = (if 0 < 60 * Millisecond then min (MinRTT rtt) (60 * Millisecond) else MinRTT rtt) \<and>
    LatestRTT rtt' = 60 * Millisecond \<and>
    SRTT rtt' = (7 * SRTT rtt + adjusted) div 8 \<and>
    min (SRTT rtt) adjusted \<le> SRTT rtt' \<and> SRTT rtt' \<le> max (SRTT rtt) adjusted"
  unfolding Let_def [of "(NewRTTStats (333 * Millisecond))\<lparr>FirstAcked := 1, MinRTT := 10 * Millisecond\<rparr>"]
  by (rule rtt_update) (simp_all add: NewRTTStats_def)

end
