(* ===== verification/Trigger_Queue.thy ===== *)
theory Trigger_Queue
  imports Prelude
begin

text \<open>
  The wake-up primitives of the run loop (\<open>src/trsf/queue.go\<close>): \<open>trigger\<close>, a channel of capacity one
  that carries at most one token, and \<open>withTriggerQueue\<close>, a FIFO that refuses an element it already
  holds and leaves a token whenever there is something to take.

  Elements are pointers in the source; here they are the identities of the objects, so that equality
  of elements is equality of pointers. The queue's interface, as the run loop relies on it, is the
  locale \<open>dedup_queue\<close>.
\<close>

datatype pushReason = pushOther | pushApp | pushACK | pushSelf | pushCwnd | pushLoss

record trigger =
  notify :: bool

definition newTrigger :: trigger where
  "newTrigger = \<lparr>notify = False\<rparr>"

definition Notify :: "'z trigger_scheme \<Rightarrow> 'z trigger_scheme" where
  "Notify t = t\<lparr>notify := True\<rparr>"

text \<open>A receive from \<open>Notification()\<close>: possible when the token is there, and takes it.\<close>

definition Notification :: "'z trigger_scheme \<Rightarrow> 'z trigger_scheme option" where
  "Notification t = (if notify t then Some (t\<lparr>notify := False\<rparr>) else None)"

record 'a withTriggerQueue = trigger +
  tq_set :: "'a set"
  tq_queue :: "'a list"
  pushes :: "pushReason \<Rightarrow> u64"

definition newWithTriggerQueue :: "'a withTriggerQueue" where
  "newWithTriggerQueue = \<lparr>notify = False, tq_set = {}, tq_queue = [], pushes = (\<lambda>_. 0)\<rparr>"

definition Len :: "'a withTriggerQueue \<Rightarrow> nat" where
  "Len q = length (tq_queue q)"

definition PushCounts :: "'a withTriggerQueue \<Rightarrow> pushReason \<Rightarrow> u64" where
  "PushCounts q = (\<lambda>i. pushes q i)"

definition PushBecause :: "'a \<Rightarrow> pushReason \<Rightarrow> 'a withTriggerQueue \<Rightarrow> 'a withTriggerQueue" where
  "PushBecause s why q =
     (let q = q\<lparr>pushes := (pushes q)(why := pushes q why + 1)\<rparr> in
      if s \<in> tq_set q then q
      else Notify (q\<lparr>tq_set := insert s (tq_set q), tq_queue := tq_queue q @ [s]\<rparr>))"

definition tq_Push :: "'a \<Rightarrow> 'a withTriggerQueue \<Rightarrow> 'a withTriggerQueue" where
  "tq_Push s q = PushBecause s pushOther q"

definition Pop :: "'a withTriggerQueue \<Rightarrow> 'a option \<times> 'a withTriggerQueue" where
  "Pop q =
     (case tq_queue q of
        [] \<Rightarrow> (None, q)
      | s # rest \<Rightarrow>
          let q = q\<lparr>tq_queue := rest, tq_set := tq_set q - {s}\<rparr> in
          (Some s, if rest \<noteq> [] then Notify q else q))"


section \<open>Invariant and interface\<close>

definition tq_ok :: "'a withTriggerQueue \<Rightarrow> bool" where
  "tq_ok q \<longleftrightarrow> distinct (tq_queue q) \<and> tq_set q = set (tq_queue q)"

text \<open>Taking until nothing is left: at most \<open>n\<close> elements.\<close>

primrec drain :: "('q \<Rightarrow> 'a option \<times> 'q) \<Rightarrow> nat \<Rightarrow> 'q \<Rightarrow> 'a list \<times> 'q" where
  "drain pop 0 q = ([], q)"
| "drain pop (Suc n) q =
     (case pop q of
        (None, q') \<Rightarrow> ([], q')
      | (Some x, q') \<Rightarrow> let (xs, q'') = drain pop n q' in (x # xs, q''))"

text \<open>
  What the run loop is promised: a first-in first-out queue without duplicates.
\<close>

locale dedup_queue =
  fixes empty :: 'q and push :: "'a \<Rightarrow> 'q \<Rightarrow> 'q" and pop :: "'q \<Rightarrow> 'a option \<times> 'q"
    and items :: "'q \<Rightarrow> 'a list" and ok :: "'q \<Rightarrow> bool"
  assumes ok_empty: "ok empty" and items_empty: "items empty = []"
    and ok_push: "ok q \<Longrightarrow> ok (push x q)"
    and items_push: "ok q \<Longrightarrow> items (push x q) = (if x \<in> set (items q) then items q else items q @ [x])"
    and ok_pop: "ok q \<Longrightarrow> ok (snd (pop q))"
    and pop_Nil: "ok q \<Longrightarrow> items q = [] \<Longrightarrow> fst (pop q) = None"
    and pop_Cons: "ok q \<Longrightarrow> items q = x # xs \<Longrightarrow> fst (pop q) = Some x \<and> items (snd (pop q)) = xs"
begin

lemma drain_items: "ok q \<Longrightarrow> length (items q) \<le> n \<Longrightarrow> fst (drain pop n q) = items q"
proof (induction n arbitrary: q)
  case 0
  then show ?case by simp
next
  case (Suc n)
  show ?case
  proof (cases "items q")
    case Nil
    with Suc.prems pop_Nil [of q] show ?thesis by (cases "pop q") simp
  next
    case (Cons x xs)
    with Suc.prems pop_Cons [of q x xs] Suc.IH [of "snd (pop q)"] ok_pop [of q]
    show ?thesis by (cases "pop q") (auto split: prod.splits)
  qed
qed

lemma ok_fold_push: "ok q \<Longrightarrow> ok (fold push xs q)"
  by (induction xs arbitrary: q) (simp_all add: ok_push)

lemma set_fold_push: "ok q \<Longrightarrow> set (items (fold push xs q)) = set (items q) \<union> set xs"
  by (induction xs arbitrary: q) (auto simp: ok_push items_push)

lemma distinct_fold_push:
  "ok q \<Longrightarrow> distinct (items q) \<Longrightarrow> distinct (items (fold push xs q))"
  by (induction xs arbitrary: q) (simp_all add: ok_push items_push)

text \<open>Everything pushed is taken exactly once, whatever was pushed how often.\<close>

lemma drain_all:
  assumes "length xs \<le> n"
  shows "set (fst (drain pop n (fold push xs empty))) = set xs"
    and "distinct (fst (drain pop n (fold push xs empty)))"
proof -
  note ok = ok_fold_push [OF ok_empty, of xs]
  have d: "distinct (items (fold push xs empty))"
    by (rule distinct_fold_push [OF ok_empty]) (simp add: items_empty)
  have s: "set (items (fold push xs empty)) = set xs"
    using set_fold_push [OF ok_empty, of xs] by (simp add: items_empty)
  have "length (items (fold push xs empty)) = card (set xs)"
    using distinct_card [OF d] s by simp
  then have "length (items (fold push xs empty)) \<le> n"
    using assms card_length [of xs] by simp
  from drain_items [OF ok this] d s
  show "set (fst (drain pop n (fold push xs empty))) = set xs"
    and "distinct (fst (drain pop n (fold push xs empty)))" by simp_all
qed

end

interpretation send_queue: dedup_queue newWithTriggerQueue "\<lambda>s. PushBecause s why" Pop tq_queue tq_ok
  by unfold_locales
    (auto simp: tq_ok_def newWithTriggerQueue_def PushBecause_def Pop_def Notify_def Let_def
      split: list.splits)


section \<open>No lost wake-up\<close>

text \<open>
  The consumer waits for the token, takes it, and pops once (\<open>Streams.run\<close>); producers push at any
  time. \<open>awake\<close> is the consumer between the token and the pop.
\<close>

record 'a waiter =
  w_queue :: "'a withTriggerQueue"
  awake :: bool

inductive wake_step :: "'a waiter \<Rightarrow> 'a waiter \<Rightarrow> bool" where
  push: "wake_step w (w\<lparr>w_queue := PushBecause s why (w_queue w)\<rparr>)"
| wake: "\<not> awake w \<Longrightarrow> Notification (w_queue w) = Some q \<Longrightarrow>
     wake_step w (w\<lparr>w_queue := q, awake := True\<rparr>)"
| pop: "awake w \<Longrightarrow> wake_step w (w\<lparr>w_queue := snd (Pop (w_queue w)), awake := False\<rparr>)"

inductive wake_reachable :: "'a waiter \<Rightarrow> bool" where
  init: "wake_reachable \<lparr>w_queue = newWithTriggerQueue, awake = False\<rparr>"
| step: "wake_reachable w \<Longrightarrow> wake_step w w' \<Longrightarrow> wake_reachable w'"

inductive_cases wake_stepE: "wake_step w w'"

definition wake_inv :: "'a waiter \<Rightarrow> bool" where
  "wake_inv w \<longleftrightarrow> tq_ok (w_queue w) \<and>
     (tq_queue (w_queue w) \<noteq> [] \<longrightarrow> notify (w_queue w) \<or> awake w)"

lemma wake_inv_step: "wake_step w w' \<Longrightarrow> wake_inv w \<Longrightarrow> wake_inv w'"
  by (erule wake_stepE)
    (auto simp: wake_inv_def tq_ok_def PushBecause_def Pop_def Notify_def Notification_def Let_def
      split: list.splits if_splits)

lemma wake_inv_reachable: "wake_reachable w \<Longrightarrow> wake_inv w"
proof (induction rule: wake_reachable.induct)
  case init
  show ?case by (simp add: wake_inv_def tq_ok_def newWithTriggerQueue_def)
qed (rule wake_inv_step)

section \<open>Properties\<close>

text \<open>
  The queue is a first-in first-out queue without duplicates: whatever is pushed, however
  often, is taken exactly once by taking until nothing is left.
\<close>

theorem queue_drains:
  assumes "length xs \<le> n"
  shows "set (fst (drain Pop n (fold (\<lambda>s. PushBecause s why) xs newWithTriggerQueue))) = set xs \<and>
    distinct (fst (drain Pop n (fold (\<lambda>s. PushBecause s why) xs newWithTriggerQueue)))"
  using send_queue.drain_all [OF assms] by blast

theorem queue_drains_witness:
  "set (fst (drain Pop 3 (fold (\<lambda>s. PushBecause s pushApp) [2, 1, 2 :: nat] newWithTriggerQueue))) = set [2, 1, 2] \<and>
    distinct (fst (drain Pop 3 (fold (\<lambda>s. PushBecause s pushApp) [2, 1, 2 :: nat] newWithTriggerQueue)))"
  by (rule queue_drains) simp



end
