(* ===== verification/Ack_Handler.thy ===== *)
theory Ack_Handler
  imports Congestion Trigger_Queue Pn_Track
begin

text \<open>
  The sent-packet handler (\<open>src/trsf/ack_handler.go\<close>): what is in flight, acknowledgement and loss
  detection, the loss timer.

  The handler calls out in two directions, and nothing it computes depends on what those calls do:
  the \<open>OnACK\<close>/\<open>OnLost\<close> closures of a packet, and the congestion controller. A method therefore
  returns its calls, in order, as a list of \<open>ah_event\<close>s; the connection (theory \<open>Conn\<close>) carries them
  out. A closure is a value of the parameter type \<open>'cb\<close>; \<open>None\<close> is a nil function.

  \<^item> The RTT statistics are shared with the congestion controller in the source; the handler is the
    only writer, so they are part of its state.
  \<^item> \<open>time.Duration(9.0/8 * float64(maxRTT))\<close> is modelled as the exact quotient; the two agree for
    every round trip below \<open>2^49\<close> nanoseconds (more than six days), where the product is exact.
  \<^item> \<open>auditBytesInFlight\<close> only logs; the invariant below is what it checks.
\<close>

type_synonym PacketNumber = u64

record 'cb SentPacket =
  sp_OnACK :: "'cb option"
  sp_OnLost :: "'cb option"
  PacketSize :: int
  sp_StreamID :: u64
  sp_PacketNumber :: PacketNumber
  SentTime :: time
  CongestionExempt :: bool
  PathEvidence :: bool
  Retransmittable :: bool
  IsMTUProbe :: bool
  sp_Kind :: u8

record LossStats =
  Events :: int
  Packets :: int
  Spurious :: int

record 'cb SentPacketHandler = trigger +
  largestSent :: u64
  largestAcked :: u64
  bytesInFlight :: int
  mtuProbesOutstanding :: int
  exemptOutstanding :: int
  ah_sentRanges :: "'cb SentPacket list"
  rtt :: RTTStats
  lossTime :: time
  multiModalTimer :: time
  ptoCount :: nat
  ah_loss :: LossStats
  declaredLost :: "PacketNumber list"

datatype 'cb ah_event =
    Call 'cb time            \<comment> \<open>a closure of a packet\<close>
  | NilCall                  \<comment> \<open>a call of a nil closure: a panic\<close>
  | CcSend int time          \<comment> \<open>\<open>cong.RecordSend\<close>\<close>
  | CcACK int time           \<comment> \<open>\<open>cong.RecordACK\<close>\<close>
  | CcLoss int time          \<comment> \<open>\<open>cong.RecordLoss\<close>\<close>

datatype ah_error =
    InvalidACK u64 u64       \<comment> \<open>largest acked > largest sent\<close>
  | InconsistentAck          \<comment> \<open>BUG: inconsistent ack detection\<close>
  | NoPacketsInFlight        \<comment> \<open>BUG: no packets in flight\<close>

definition NewSentPacketHandler :: "RTTStats \<Rightarrow> 'cb SentPacketHandler" where
  "NewSentPacketHandler r =
     \<lparr>notify = False, largestSent = 0, largestAcked = 0, bytesInFlight = 0, mtuProbesOutstanding = 0,
      exemptOutstanding = 0, ah_sentRanges = [], rtt = r, lossTime = 0, multiModalTimer = 0, ptoCount = 0,
      ah_loss = \<lparr>Events = 0, Packets = 0, Spurious = 0\<rparr>, declaredLost = []\<rparr>"

definition maxDeclaredLostTracked :: nat where
  "maxDeclaredLostTracked = 256"

definition rememberDeclaredLost :: "PacketNumber \<Rightarrow> 'cb SentPacketHandler \<Rightarrow> 'cb SentPacketHandler" where
  "rememberDeclaredLost pn ah =
     (let d = (if length (declaredLost ah) \<ge> maxDeclaredLostTracked then tl (declaredLost ah)
               else declaredLost ah) in
      ah\<lparr>declaredLost := d @ [pn]\<rparr>)"

definition in_some_range :: "PacketNumber \<Rightarrow> Range list \<Rightarrow> bool" where
  "in_some_range pn ranges \<longleftrightarrow> list_ex (\<lambda>rg. pn \<ge> Begin rg \<and> pn < End rg) ranges"

definition noteSpuriousLoss :: "Range list \<Rightarrow> 'cb SentPacketHandler \<Rightarrow> 'cb SentPacketHandler" where
  "noteSpuriousLoss ranges ah =
     ah\<lparr>ah_loss := (ah_loss ah)\<lparr>Spurious := Spurious (ah_loss ah)
           + int (length (filter (\<lambda>pn. in_some_range pn ranges) (declaredLost ah)))\<rparr>,
        declaredLost := filter (\<lambda>pn. \<not> in_some_range pn ranges) (declaredLost ah)\<rparr>"

definition ah_CanSend :: "newReno \<Rightarrow> 'cb SentPacketHandler \<Rightarrow> bool" where
  "ah_CanSend cong ah \<longleftrightarrow> reno_CanSend (bytesInFlight ah) cong"

definition LossDetectionTimeout :: "'cb SentPacketHandler \<Rightarrow> time" where
  "LossDetectionTimeout ah = multiModalTimer ah"

definition PacingTimeout :: "newReno \<Rightarrow> 'cb SentPacketHandler \<Rightarrow> time option" where
  "PacingTimeout cong ah = PacingTimer (SRTT (rtt ah)) cong"

definition addBytesInFlight :: "int \<Rightarrow> 'cb SentPacketHandler \<Rightarrow> 'cb SentPacketHandler" where
  "addBytesInFlight n ah = ah\<lparr>bytesInFlight := bytesInFlight ah + n\<rparr>"

definition removeBytesInFlight :: "int \<Rightarrow> 'cb SentPacketHandler \<Rightarrow> 'cb SentPacketHandler" where
  "removeBytesInFlight n ah = ah\<lparr>bytesInFlight := bytesInFlight ah - n\<rparr>"

definition setLossDetectionTimer :: "time \<Rightarrow> 'cb SentPacketHandler \<Rightarrow> 'cb SentPacketHandler" where
  "setLossDetectionTimer now ah = Notify
     (if \<not> IsZero (lossTime ah) then ah\<lparr>multiModalTimer := lossTime ah\<rparr>
      else if bytesInFlight ah = 0 \<and> mtuProbesOutstanding ah = 0 \<and> exemptOutstanding ah = 0
      then ah\<lparr>multiModalTimer := 0\<rparr>
      else ah\<lparr>multiModalTimer := Add now (PTO (ptoCount ah) (rtt ah))\<rparr>)"

definition OnSent :: "'cb SentPacket \<Rightarrow> 'cb SentPacketHandler \<Rightarrow> 'cb ah_event list \<times> 'cb SentPacketHandler" where
  "OnSent s ah =
     (let ah = ah\<lparr>ah_sentRanges := ah_sentRanges ah @ [s]\<rparr>;
          (evs, ah) = (if \<not> CongestionExempt s
                       then ([CcSend (PacketSize s) (SentTime s)], addBytesInFlight (PacketSize s) ah)
                       else ([], ah\<lparr>exemptOutstanding := exemptOutstanding ah + 1\<rparr>));
          ah = (if IsMTUProbe s then ah\<lparr>mtuProbesOutstanding := mtuProbesOutstanding ah + 1\<rparr> else ah);
          ah = ah\<lparr>largestSent := max (largestSent ah) (sp_PacketNumber s)\<rparr> in
      (evs, setLossDetectionTimer (SentTime s) ah))"

text \<open>A closure that is called only when it is not nil.\<close>

definition call :: "'cb option \<Rightarrow> time \<Rightarrow> 'cb ah_event list" where
  "call f now = (case f of None \<Rightarrow> [] | Some cb \<Rightarrow> [Call cb now])"

text \<open>The inner loop of \<open>detectAck\<close>: it stops at the first range that starts above the number.\<close>

fun acked_by :: "PacketNumber \<Rightarrow> Range list \<Rightarrow> bool" where
  "acked_by pn [] \<longleftrightarrow> False"
| "acked_by pn (rg # rgs) \<longleftrightarrow>
     (if pn < Begin rg then False else if pn \<ge> End rg then acked_by pn rgs else True)"

definition total_size :: "'cb SentPacket list \<Rightarrow> int" where
  "total_size ps = sum_list (map PacketSize ps)"

definition count :: "('cb SentPacket \<Rightarrow> bool) \<Rightarrow> 'cb SentPacket list \<Rightarrow> int" where
  "count P ps = int (length (filter P ps))"

definition detectAck ::
  "time \<Rightarrow> Range list \<Rightarrow> 'cb SentPacketHandler \<Rightarrow>
     (ah_error, 'cb SentPacket list) result \<times> 'cb ah_event list \<times> 'cb SentPacketHandler" where
  "detectAck rcvTime ranges ah =
     (let acked = filter (\<lambda>p. acked_by (sp_PacketNumber p) ranges) (ah_sentRanges ah);
          remain = filter (\<lambda>p. \<not> acked_by (sp_PacketNumber p) ranges) (ah_sentRanges ah) in
      if length remain + length acked \<noteq> length (ah_sentRanges ah) then (Inl InconsistentAck, [], ah)
      else
        let sentSize = total_size acked;
            exemptSize = total_size (filter CongestionExempt acked);
            ah = ah\<lparr>ah_sentRanges := remain,
                    exemptOutstanding := exemptOutstanding ah - count CongestionExempt acked,
                    mtuProbesOutstanding := mtuProbesOutstanding ah - count IsMTUProbe acked\<rparr>;
            evs = concat (map (\<lambda>p. call (sp_OnACK p) rcvTime) acked) in
        if acked \<noteq> []
        then (Inr acked, evs @ [CcACK (sentSize - exemptSize) rcvTime],
              removeBytesInFlight (sentSize - exemptSize) ah)
        else (Inr acked, evs, ah))"

text \<open>What retiring a lost packet does to the handler, in \<open>detectLost\<close> and in the expiry below.\<close>

definition retire_lost :: "'cb SentPacket \<Rightarrow> 'cb SentPacketHandler \<Rightarrow> 'cb SentPacketHandler" where
  "retire_lost p ah =
     (let ah = (if CongestionExempt p then ah\<lparr>exemptOutstanding := exemptOutstanding ah - 1\<rparr> else ah);
          ah = (if IsMTUProbe p then ah\<lparr>mtuProbesOutstanding := mtuProbesOutstanding ah - 1\<rparr> else ah) in
      if PathEvidence p then rememberDeclaredLost (sp_PacketNumber p) ah else ah)"

text \<open>The loop of \<open>detectLost\<close>: packets kept, packets lost.\<close>

fun detect_lost_loop ::
  "time \<Rightarrow> duration \<Rightarrow> 'cb SentPacket list \<Rightarrow> 'cb SentPacketHandler \<Rightarrow>
     'cb SentPacket list \<times> 'cb SentPacket list \<times> 'cb SentPacketHandler" where
  "detect_lost_loop now lossDelay [] ah = ([], [], ah)"
| "detect_lost_loop now lossDelay (p # ps) ah =
     (if sp_PacketNumber p > largestAcked ah then
        (let (remain, lost, ah) = detect_lost_loop now lossDelay ps ah in (p # remain, lost, ah))
      else if \<not> After (SentTime p) (Add now (- lossDelay)) then
        (let (remain, lost, ah) = detect_lost_loop now lossDelay ps (retire_lost p ah) in
         (remain, p # lost, ah))
      else
        let ah = (if IsZero (lossTime ah) then ah\<lparr>lossTime := Add (SentTime p) lossDelay\<rparr> else ah);
            (remain, lost, ah) = detect_lost_loop now lossDelay ps ah in
        (p # remain, lost, ah))"

definition lossDelay_of :: "RTTStats \<Rightarrow> duration" where
  "lossDelay_of r = max ((9 * max (LatestRTT r) (SRTT r)) sdiv 8) (1 * Millisecond)"

definition detectLost :: "time \<Rightarrow> 'cb SentPacketHandler \<Rightarrow> 'cb ah_event list \<times> 'cb SentPacketHandler" where
  "detectLost now ah =
     (let (remain, lost, ah) =
            detect_lost_loop now (lossDelay_of (rtt ah)) (ah_sentRanges ah) (ah\<lparr>lossTime := 0\<rparr>);
          ah = ah\<lparr>ah_sentRanges := remain\<rparr>;
          evs = concat (map (\<lambda>p. call (sp_OnLost p) now) lost);
          congestionLost = filter (\<lambda>p. \<not> CongestionExempt p) lost in
      if lost = [] then (evs, ah)
      else
        let ah = removeBytesInFlight (total_size lost - total_size (filter CongestionExempt lost)) ah;
            l = (ah_loss ah)\<lparr>Packets := Packets (ah_loss ah) + count PathEvidence lost\<rparr> in
        if congestionLost \<noteq> []
        then (evs @ [CcLoss (total_size congestionLost) now], ah\<lparr>ah_loss := l\<lparr>Events := Events l + 1\<rparr>\<rparr>)
        else (evs, ah\<lparr>ah_loss := l\<rparr>))"

definition declareLostUnretransmittable ::
  "time \<Rightarrow> 'cb SentPacketHandler \<Rightarrow> nat \<times> 'cb ah_event list \<times> 'cb SentPacketHandler" where
  "declareLostUnretransmittable now ah =
     (let lost = filter (\<lambda>p. \<not> Retransmittable p) (ah_sentRanges ah);
          remain = filter Retransmittable (ah_sentRanges ah);
          congestionLost = filter (\<lambda>p. \<not> CongestionExempt p) lost;
          evs = concat (map (\<lambda>p. call (sp_OnLost p) now) lost);
          ah = (fold retire_lost lost ah)\<lparr>ah_sentRanges := remain\<rparr>;
          (evs, ah) =
            (if congestionLost \<noteq> []
             then (evs @ [CcLoss (total_size congestionLost) now],
                   (removeBytesInFlight (total_size congestionLost) ah)
                     \<lparr>ah_loss := (ah_loss ah)\<lparr>Events := Events (ah_loss ah) + 1\<rparr>\<rparr>)
             else (evs, ah)) in
      (length lost, evs,
       ah\<lparr>ah_loss := (ah_loss ah)\<lparr>Packets := Packets (ah_loss ah) + count PathEvidence lost\<rparr>\<rparr>))"

text \<open>The part of \<open>OnTimeout\<close> behind the deferred \<open>setLossDetectionTimer\<close>.\<close>

definition on_timeout_body ::
  "time \<Rightarrow> 'cb SentPacketHandler \<Rightarrow>
     (ah_error, bool) result \<times> 'cb ah_event list \<times> 'cb SentPacketHandler" where
  "on_timeout_body now ah =
     (if \<not> IsZero (lossTime ah) then (let (evs, ah) = detectLost now ah in (Inr False, evs, ah))
      else
        let (n, evs, ah) = declareLostUnretransmittable now ah in
        if bytesInFlight ah = 0
        then (if n > 0 then Inr False else Inl NoPacketsInFlight, evs, ah)
        else if ah_sentRanges ah = [] then (Inr False, evs, ah)
        else
          let ah = ah\<lparr>ptoCount := ptoCount ah + 1\<rparr> in
          case find Retransmittable (ah_sentRanges ah) of
            None \<Rightarrow> (Inr False, evs, ah)
          | Some p \<Rightarrow>
              (Inr True, evs @ (case sp_OnLost p of None \<Rightarrow> [NilCall] | Some cb \<Rightarrow> [Call cb now]), ah))"

definition OnTimeout ::
  "time \<Rightarrow> 'cb SentPacketHandler \<Rightarrow>
     (ah_error, bool) result \<times> 'cb ah_event list \<times> 'cb SentPacketHandler" where
  "OnTimeout now ah =
     (let (res, evs, ah) = on_timeout_body now ah in (res, evs, setLossDetectionTimer now ah))"

text \<open>\<open>ReceiveACK\<close>, for a non-empty list of ranges (\<open>ParseTransferACK\<close> never returns an empty one).\<close>

definition ReceiveACK ::
  "time \<Rightarrow> Range list \<Rightarrow> duration \<Rightarrow> 'cb SentPacketHandler \<Rightarrow>
     (ah_error, unit) result \<times> 'cb ah_event list \<times> 'cb SentPacketHandler" where
  "ReceiveACK rcvTime r ackDelay ah =
     (let largest = End (last r) - 1 in
      if largest > largestSent ah then (Inl (InvalidACK largest (largestSent ah)), [], ah)
      else
        case detectAck rcvTime r (noteSpuriousLoss r ah) of
          (Inl e, evs, ah) \<Rightarrow> (Inl e, evs, ah)
        | (Inr acked, evs, ah) \<Rightarrow>
            if acked = [] then (Inr (), evs, ah)
            else
              let lastPacket = last acked;
                  ah = (if sp_PacketNumber lastPacket = largest
                        then ah\<lparr>rtt := UpdateRTT (Sub rcvTime (SentTime lastPacket)) ackDelay rcvTime (rtt ah)\<rparr>
                        else ah);
                  ah = ah\<lparr>largestAcked := max (largestAcked ah) largest\<rparr>;
                  (evs', ah) = detectLost rcvTime ah;
                  ah = ah\<lparr>ptoCount := 0\<rparr> in
              (Inr (), evs @ evs', setLossDetectionTimer rcvTime ah))"


section \<open>Accounting\<close>

abbreviation controlled :: "'cb SentPacket list \<Rightarrow> 'cb SentPacket list" where
  "controlled ps \<equiv> filter (\<lambda>p. \<not> CongestionExempt p) ps"

text \<open>
  The counters are what \<open>auditBytesInFlight\<close> would recompute: the bytes in flight are the sizes of the
  congestion-controlled packets awaiting a verdict, and the two counts are those of the exempt
  packets and of the probes among them.
\<close>

definition ah_ok :: "'cb SentPacketHandler \<Rightarrow> bool" where
  "ah_ok ah \<longleftrightarrow>
     bytesInFlight ah = total_size (controlled (ah_sentRanges ah)) \<and>
     exemptOutstanding ah = count CongestionExempt (ah_sentRanges ah) \<and>
     mtuProbesOutstanding ah = count IsMTUProbe (ah_sentRanges ah) \<and>
     length (declaredLost ah) \<le> maxDeclaredLostTracked"

lemma total_size_simps [simp]:
  "total_size [] = 0" "total_size (p # ps) = PacketSize p + total_size ps"
  "total_size (ps @ qs) = total_size ps + total_size qs"
  by (simp_all add: total_size_def)

lemma count_simps [simp]:
  "count P [] = 0" "count P (p # ps) = (if P p then 1 else 0) + count P ps"
  "count P (ps @ qs) = count P ps + count P qs"
  by (simp_all add: count_def)

lemma total_size_split:
  "total_size ps - total_size (filter CongestionExempt ps) = total_size (controlled ps)"
  by (induction ps) auto

lemma total_size_partition: "total_size ps = total_size (filter P ps) + total_size (filter (\<lambda>p. \<not> P p) ps)"
  by (induction ps) auto

lemma count_partition: "count Q ps = count Q (filter P ps) + count Q (filter (\<lambda>p. \<not> P p) ps)"
  by (induction ps) auto

lemma total_size_controlled_partition:
  "total_size (controlled ps) = total_size (controlled (filter P ps)) + total_size (controlled (filter (\<lambda>p. \<not> P p) ps))"
  by (induction ps) auto

lemma setLossDetectionTimer_keeps [simp]:
  "bytesInFlight (setLossDetectionTimer now ah) = bytesInFlight ah"
  "exemptOutstanding (setLossDetectionTimer now ah) = exemptOutstanding ah"
  "mtuProbesOutstanding (setLossDetectionTimer now ah) = mtuProbesOutstanding ah"
  "ah_sentRanges (setLossDetectionTimer now ah) = ah_sentRanges ah"
  "declaredLost (setLossDetectionTimer now ah) = declaredLost ah"
  "largestSent (setLossDetectionTimer now ah) = largestSent ah"
  "lossTime (setLossDetectionTimer now ah) = lossTime ah"
  "rtt (setLossDetectionTimer now ah) = rtt ah"
  by (simp_all add: setLossDetectionTimer_def Notify_def)

lemma ah_ok_timer [simp]: "ah_ok (setLossDetectionTimer now ah) = ah_ok ah"
  by (simp add: ah_ok_def)

lemma ah_ok_OnSent: "ah_ok ah \<Longrightarrow> ah_ok (snd (OnSent s ah))"
  by (auto simp: ah_ok_def OnSent_def addBytesInFlight_def Let_def)

lemma ah_ok_noteSpuriousLoss: "ah_ok ah \<Longrightarrow> ah_ok (noteSpuriousLoss ranges ah)"
  by (auto simp: ah_ok_def noteSpuriousLoss_def intro: order.trans [OF length_filter_le])

lemma detectAck_eq:
  "detectAck rcvTime ranges ah =
     (let acked = filter (\<lambda>p. acked_by (sp_PacketNumber p) ranges) (ah_sentRanges ah) in
      (Inr acked,
       concat (map (\<lambda>p. call (sp_OnACK p) rcvTime) acked) @
         (if acked \<noteq> [] then [CcACK (total_size (controlled acked)) rcvTime] else []),
       ah\<lparr>ah_sentRanges := filter (\<lambda>p. \<not> acked_by (sp_PacketNumber p) ranges) (ah_sentRanges ah),
          exemptOutstanding := exemptOutstanding ah - count CongestionExempt acked,
          mtuProbesOutstanding := mtuProbesOutstanding ah - count IsMTUProbe acked,
          bytesInFlight := bytesInFlight ah - total_size (controlled acked)\<rparr>))"
proof -
  let ?P = "\<lambda>p. acked_by (sp_PacketNumber p) ranges"
  have "length (filter (\<lambda>p. \<not> ?P p) (ah_sentRanges ah)) + length (filter ?P (ah_sentRanges ah))
      = length (ah_sentRanges ah)"
    using length_filter_split [of "ah_sentRanges ah" ?P] by simp
  then show ?thesis
    by (simp add: detectAck_def Let_def removeBytesInFlight_def total_size_split del: filter_filter)
qed

lemma ah_ok_detectAck: "ah_ok ah \<Longrightarrow> ah_ok (snd (snd (detectAck rcvTime ranges ah)))"
proof -
  let ?P = "\<lambda>p. acked_by (sp_PacketNumber p) ranges"
  assume "ah_ok ah"
  then show ?thesis
    using total_size_controlled_partition [of "ah_sentRanges ah" ?P]
      count_partition [of CongestionExempt "ah_sentRanges ah" ?P]
      count_partition [of IsMTUProbe "ah_sentRanges ah" ?P]
    unfolding detectAck_eq Let_def snd_conv ah_ok_def by simp
qed

lemma retire_lost_keeps [simp]:
  "bytesInFlight (retire_lost p ah) = bytesInFlight ah" "ah_sentRanges (retire_lost p ah) = ah_sentRanges ah"
  "lossTime (retire_lost p ah) = lossTime ah" "rtt (retire_lost p ah) = rtt ah"
  "largestAcked (retire_lost p ah) = largestAcked ah" "ah_loss (retire_lost p ah) = ah_loss ah"
  "exemptOutstanding (retire_lost p ah) = exemptOutstanding ah - count CongestionExempt [p]"
  "mtuProbesOutstanding (retire_lost p ah) = mtuProbesOutstanding ah - count IsMTUProbe [p]"
  "ptoCount (retire_lost p ah) = ptoCount ah"
  by (simp_all add: retire_lost_def rememberDeclaredLost_def Let_def)

lemma retire_lost_declared:
  "length (declaredLost ah) \<le> maxDeclaredLostTracked \<Longrightarrow>
     length (declaredLost (retire_lost p ah)) \<le> maxDeclaredLostTracked"
  by (auto simp: retire_lost_def rememberDeclaredLost_def maxDeclaredLostTracked_def Let_def)

lemma detect_lost_loop_props:
  assumes "detect_lost_loop now d ps ah = (remain, lost, ah')"
  shows "total_size (controlled ps) = total_size (controlled remain) + total_size (controlled lost)"
    and "count Q ps = count Q remain + count Q lost"
    and "bytesInFlight ah' = bytesInFlight ah" and "rtt ah' = rtt ah" and "ah_loss ah' = ah_loss ah"
    and "exemptOutstanding ah' = exemptOutstanding ah - count CongestionExempt lost"
    and "mtuProbesOutstanding ah' = mtuProbesOutstanding ah - count IsMTUProbe lost"
    and "length (declaredLost ah) \<le> maxDeclaredLostTracked \<longrightarrow> length (declaredLost ah') \<le> maxDeclaredLostTracked"
    and "ptoCount ah' = ptoCount ah"
proof -
  have "total_size (controlled ps) = total_size (controlled remain) + total_size (controlled lost) \<and>
     (\<forall>Q. count Q ps = count Q remain + count Q lost) \<and>
     bytesInFlight ah' = bytesInFlight ah \<and> rtt ah' = rtt ah \<and> ah_loss ah' = ah_loss ah \<and>
     exemptOutstanding ah' = exemptOutstanding ah - count CongestionExempt lost \<and>
     mtuProbesOutstanding ah' = mtuProbesOutstanding ah - count IsMTUProbe lost \<and>
     (length (declaredLost ah) \<le> maxDeclaredLostTracked \<longrightarrow> length (declaredLost ah') \<le> maxDeclaredLostTracked) \<and>
     ptoCount ah' = ptoCount ah"
    using assms
  proof (induction ps arbitrary: ah remain lost ah')
    case (Cons p ps)
    obtain r1 l1 a1 where rec:
      "detect_lost_loop now d ps
         (if sp_PacketNumber p > largestAcked ah then ah
          else if \<not> After (SentTime p) (Add now (- d)) then retire_lost p ah
          else if IsZero (lossTime ah) then ah\<lparr>lossTime := Add (SentTime p) d\<rparr> else ah) = (r1, l1, a1)"
      by (metis prod_cases3)
    show ?case
      using Cons.IH [OF rec] Cons.prems rec retire_lost_declared [of ah p]
      by (auto split: if_splits)
  qed simp
  then show "total_size (controlled ps) = total_size (controlled remain) + total_size (controlled lost)"
    and "count Q ps = count Q remain + count Q lost"
    and "bytesInFlight ah' = bytesInFlight ah" and "rtt ah' = rtt ah" and "ah_loss ah' = ah_loss ah"
    and "exemptOutstanding ah' = exemptOutstanding ah - count CongestionExempt lost"
    and "mtuProbesOutstanding ah' = mtuProbesOutstanding ah - count IsMTUProbe lost"
    and "length (declaredLost ah) \<le> maxDeclaredLostTracked \<longrightarrow> length (declaredLost ah') \<le> maxDeclaredLostTracked"
    and "ptoCount ah' = ptoCount ah" by blast+
qed

lemma ah_ok_detectLost:
  assumes "ah_ok ah"
  shows "ah_ok (snd (detectLost now ah))"
proof -
  obtain remain lost ah1 where l:
    "detect_lost_loop now (lossDelay_of (rtt ah)) (ah_sentRanges ah) (ah\<lparr>lossTime := 0\<rparr>) = (remain, lost, ah1)"
    by (metis prod_cases3)
  note p = detect_lost_loop_props [OF l]
  show ?thesis
    using assms p(1,3,6-8) p(2) [of CongestionExempt] p(2) [of IsMTUProbe]
    by (auto simp: detectLost_def l Let_def ah_ok_def removeBytesInFlight_def total_size_split)
qed

lemma fold_retire_lost:
  "bytesInFlight (fold retire_lost ps ah) = bytesInFlight ah"
  "lossTime (fold retire_lost ps ah) = lossTime ah" "rtt (fold retire_lost ps ah) = rtt ah"
  "exemptOutstanding (fold retire_lost ps ah) = exemptOutstanding ah - count CongestionExempt ps"
  "mtuProbesOutstanding (fold retire_lost ps ah) = mtuProbesOutstanding ah - count IsMTUProbe ps"
  "length (declaredLost ah) \<le> maxDeclaredLostTracked \<Longrightarrow>
     length (declaredLost (fold retire_lost ps ah)) \<le> maxDeclaredLostTracked"
  by (induction ps arbitrary: ah) (simp_all add: retire_lost_declared)

lemma declareLost_sentRanges:
  "ah_sentRanges (snd (snd (declareLostUnretransmittable now ah))) = filter Retransmittable (ah_sentRanges ah)"
  "fst (declareLostUnretransmittable now ah) = length (filter (\<lambda>p. \<not> Retransmittable p) (ah_sentRanges ah))"
  "lossTime (snd (snd (declareLostUnretransmittable now ah))) = lossTime ah"
  by (simp_all add: declareLostUnretransmittable_def removeBytesInFlight_def fold_retire_lost Let_def)

lemma ah_ok_declareLost:
  assumes "ah_ok ah"
  shows "ah_ok (snd (snd (declareLostUnretransmittable now ah)))"
proof -
  have "total_size (controlled (ah_sentRanges ah)) =
      total_size (controlled (filter Retransmittable (ah_sentRanges ah)))
      + total_size (controlled (filter (\<lambda>p. \<not> Retransmittable p) (ah_sentRanges ah)))"
    by (rule total_size_controlled_partition)
  moreover have "count Q (ah_sentRanges ah) = count Q (filter Retransmittable (ah_sentRanges ah))
      + count Q (filter (\<lambda>p. \<not> Retransmittable p) (ah_sentRanges ah))" for Q
    by (rule count_partition)
  ultimately show ?thesis
    using assms fold_retire_lost(6) [of ah]
    by (auto simp: ah_ok_def declareLostUnretransmittable_def removeBytesInFlight_def fold_retire_lost Let_def
        simp del: filter_filter)
qed

lemma ah_ok_timeout_body: "ah_ok ah \<Longrightarrow> ah_ok (snd (snd (on_timeout_body now ah)))"
proof -
  assume ok: "ah_ok ah"
  obtain n evs a where d: "declareLostUnretransmittable now ah = (n, evs, a)" by (metis prod_cases3)
  have "ah_ok a" using ah_ok_declareLost [OF ok, of now] d by simp
  then have "ah_ok (a\<lparr>ptoCount := k\<rparr>)" for k by (simp add: ah_ok_def)
  with \<open>ah_ok a\<close> ah_ok_detectLost [OF ok, of now] show ?thesis
    by (simp add: on_timeout_body_def d Let_def split: prod.splits option.splits)
qed

lemma ah_ok_OnTimeout: "ah_ok ah \<Longrightarrow> ah_ok (snd (snd (OnTimeout now ah)))"
  using ah_ok_timeout_body [of ah now] by (cases "on_timeout_body now ah") (simp add: OnTimeout_def)

lemma ah_ok_ReceiveACK:
  assumes "ah_ok ah"
  shows "ah_ok (snd (snd (ReceiveACK rcvTime r ackDelay ah)))"
proof (cases "End (last r) - 1 > largestSent ah")
  case False
  obtain acked evs a where d: "detectAck rcvTime r (noteSpuriousLoss r ah) = (Inr acked, evs, a)"
    unfolding detectAck_eq Let_def by blast
  have ok: "ah_ok a"
    using ah_ok_detectAck [OF ah_ok_noteSpuriousLoss [OF assms, of r], of rcvTime r] unfolding d by simp
  define a1 where "a1 = (if sp_PacketNumber (last acked) = End (last r) - 1
      then a\<lparr>rtt := UpdateRTT (Sub rcvTime (SentTime (last acked))) ackDelay rcvTime (rtt a)\<rparr> else a)"
  have "ah_ok (a1\<lparr>largestAcked := max (largestAcked a1) (End (last r) - 1)\<rparr>)"
    using ok by (simp add: a1_def ah_ok_def)
  from ah_ok_detectLost [OF this, of rcvTime]
  have "ah_ok ((snd (detectLost rcvTime (a1\<lparr>largestAcked := max (largestAcked a1) (End (last r) - 1)\<rparr>)))\<lparr>ptoCount := 0\<rparr>)"
    by (simp add: ah_ok_def)
  then show ?thesis
    using False ok by (auto simp: ReceiveACK_def d Let_def a1_def [symmetric] split: prod.splits)
qed (use assms in \<open>simp add: ReceiveACK_def Let_def\<close>)



section \<open>Which packets an acknowledgement covers\<close>

lemma acked_by_iff:
  assumes "ranges_ok ranges"
  shows "acked_by pn ranges \<longleftrightarrow> pn \<in> ranges_nums ranges"
  using assms
proof (induction ranges)
  case (Cons rg rgs)
  then have ih: "acked_by pn rgs \<longleftrightarrow> pn \<in> ranges_nums rgs" by simp
  have "pn \<notin> ranges_nums rgs" if "pn < Begin rg"
  proof
    assume "pn \<in> ranges_nums rgs"
    then obtain x where "x \<in> set rgs" "Begin x \<le> pn" by (auto simp: ranges_nums_def range_nums_def)
    moreover have "Begin rg < End rg" "End rg < Begin x" using Cons.prems \<open>x \<in> set rgs\<close> by auto
    ultimately show False using that by (meson le_less_trans less_trans order.asym)
  qed
  moreover have "pn \<notin> ranges_nums rgs" if "pn < End rg"
  proof
    assume "pn \<in> ranges_nums rgs"
    then obtain x where "x \<in> set rgs" "Begin x \<le> pn" by (auto simp: ranges_nums_def range_nums_def)
    moreover have "End rg < Begin x" using Cons.prems \<open>x \<in> set rgs\<close> by auto
    ultimately show False using that by (meson le_less_trans less_trans order.asym)
  qed
  ultimately show ?case using ih by (auto simp: range_nums_def not_less)
qed simp

section \<open>The loss timer\<close>

text \<open>The timer is armed whenever a packet awaits its verdict.\<close>

definition armed :: "'cb SentPacketHandler \<Rightarrow> bool" where
  "armed ah \<longleftrightarrow> (ah_sentRanges ah \<noteq> [] \<longrightarrow> multiModalTimer ah \<noteq> 0)"

definition sizes_pos :: "'cb SentPacket list \<Rightarrow> bool" where
  "sizes_pos ps \<longleftrightarrow> (\<forall>p \<in> set ps. 0 < PacketSize p)"

lemma total_size_pos: "sizes_pos ps \<Longrightarrow> 0 \<le> total_size ps \<and> (ps \<noteq> [] \<longrightarrow> 0 < total_size ps)"
  by (induction ps) (auto simp: sizes_pos_def)

lemma outstanding_zero:
  assumes "ah_ok ah" and "sizes_pos (ah_sentRanges ah)"
    and "bytesInFlight ah = 0" and "exemptOutstanding ah = 0"
  shows "ah_sentRanges ah = []"
proof -
  have "sizes_pos (controlled (ah_sentRanges ah))" using assms(2) by (simp add: sizes_pos_def)
  with total_size_pos assms(1,3) have "controlled (ah_sentRanges ah) = []" by (fastforce simp: ah_ok_def)
  moreover have "filter CongestionExempt (ah_sentRanges ah) = []"
    using assms(1,4) by (simp add: ah_ok_def count_def)
  ultimately show ?thesis by (metis filter_True filter_empty_conv)
qed

lemma armed_setTimer:
  assumes "ah_ok ah" and "sizes_pos (ah_sentRanges ah)" and "0 < now" and "0 \<le> PTO (ptoCount ah) (rtt ah)"
  shows "armed (setLossDetectionTimer now ah)"
  using outstanding_zero [OF assms(1,2)] assms(3,4)
  by (auto simp: armed_def setLossDetectionTimer_def Notify_def time_simps)

definition rtt_sane :: "RTTStats \<Rightarrow> bool" where
  "rtt_sane r \<longleftrightarrow> 0 \<le> SRTT r \<and> SRTT r < 2 ^ 61 \<and> 0 \<le> RTTVAR r \<and> RTTVAR r < 2 ^ 60"

lemma PTO_term_in_i64:
  assumes "0 < x" and "x \<le> 17179869184"
  shows "in_i64 x" and "in_i64 (25 * Millisecond * x)"
  using assms by (simp_all add: in_i64_def)

lemma PTO_sum_in_i64:
  assumes "0 < x" and "x \<le> 17179869184" and "0 \<le> s" and "s < 2 ^ 61" and "1 \<le> v" and "v < 2 ^ 62"
  shows "in_i64 (s + v + 25 * Millisecond * x)"
  using assms by (simp add: in_i64_def)

lemma PTO_rtt_in_i64:
  assumes "0 \<le> s" and "s < 2 ^ 61" and "1 \<le> v" and "v < 2 ^ 62"
  shows "in_i64 (s + v)"
  using assms by (simp add: in_i64_def)

lemma PTO_pos:
  assumes "rtt_sane r" and "n \<le> 34"
  shows "0 < PTO n r"
proof -
  have "(2 :: int) ^ n \<le> 2 ^ 34" using assms(2) by (intro power_increasing) simp_all
  then have n: "0 < (2 :: int) ^ n" "(2 :: int) ^ n \<le> 17179869184" by simp_all
  have "in_i64 (2 ^ n)" "in_i64 (25 * Millisecond * 2 ^ n)"
    using PTO_term_in_i64 [OF n] by simp_all
  then have e: "i64 (2 ^ n) = 2 ^ n" "i64 (25 * Millisecond * 2 ^ n) = 25 * Millisecond * 2 ^ n"
    by (simp_all only: i64_id)
  let ?v = "max (4 * RTTVAR r) 1"
  have v: "i64 (4 * RTTVAR r) = 4 * RTTVAR r" "1 \<le> ?v" "?v < 2 ^ 62"
    using assms(1) by (simp_all add: rtt_sane_def in_i64_def)
  have s: "i64 (SRTT r + ?v) = SRTT r + ?v"
    using assms(1) v(2,3) by (intro i64_id PTO_rtt_in_i64) (simp_all add: rtt_sane_def)
  have "i64 (SRTT r + ?v + 25 * Millisecond * 2 ^ n) = SRTT r + ?v + 25 * Millisecond * 2 ^ n"
    using assms(1) v(2,3) n by (intro i64_id PTO_sum_in_i64) (simp_all add: rtt_sane_def)
  then have "PTO n r = SRTT r + ?v + 25 * Millisecond * 2 ^ n"
    by (simp only: PTO_def e v(1) s)
  moreover have "0 \<le> SRTT r" using assms(1) by (simp add: rtt_sane_def)
  moreover have "0 < 25 * Millisecond * (2 :: int) ^ n" using n(1) by simp
  ultimately show ?thesis using v(2) by linarith
qed

lemma OnSent_timer:
  "\<exists>c. snd (OnSent s ah) = setLossDetectionTimer (SentTime s) c \<and> ptoCount c = ptoCount ah \<and> rtt c = rtt ah \<and>
     ah_sentRanges c = ah_sentRanges ah @ [s]"
  by (cases "CongestionExempt s") (auto simp: OnSent_def addBytesInFlight_def Let_def)

lemma detect_lost_loop_subset:
  "detect_lost_loop now d ps ah = (remain, lost, ah') \<Longrightarrow> set remain \<subseteq> set ps"
proof (induction ps arbitrary: ah remain lost ah')
  case (Cons p ps)
  obtain r1 l1 a1 where rec:
    "detect_lost_loop now d ps
       (if sp_PacketNumber p > largestAcked ah then ah
        else if \<not> After (SentTime p) (Add now (- d)) then retire_lost p ah
        else if IsZero (lossTime ah) then ah\<lparr>lossTime := Add (SentTime p) d\<rparr> else ah) = (r1, l1, a1)"
    by (metis prod_cases3)
  show ?case using Cons.IH [OF rec] Cons.prems rec by (auto split: if_splits)
qed simp

lemma detectLost_keeps:
  "set (ah_sentRanges (snd (detectLost now ah))) \<subseteq> set (ah_sentRanges ah)"
  "rtt (snd (detectLost now ah)) = rtt ah" "ptoCount (snd (detectLost now ah)) = ptoCount ah"
proof -
  obtain remain lost ah1 where l:
    "detect_lost_loop now (lossDelay_of (rtt ah)) (ah_sentRanges ah) (ah\<lparr>lossTime := 0\<rparr>) = (remain, lost, ah1)"
    by (metis prod_cases3)
  show "set (ah_sentRanges (snd (detectLost now ah))) \<subseteq> set (ah_sentRanges ah)"
    "rtt (snd (detectLost now ah)) = rtt ah" "ptoCount (snd (detectLost now ah)) = ptoCount ah"
    using detect_lost_loop_subset [OF l] detect_lost_loop_props(4,9) [OF l]
    by (simp_all add: detectLost_def l Let_def removeBytesInFlight_def)
qed

lemma fold_retire_pto: "ptoCount (fold retire_lost ps ah) = ptoCount ah"
  by (induction ps arbitrary: ah) simp_all

lemma declareLost_keeps:
  "rtt (snd (snd (declareLostUnretransmittable now ah))) = rtt ah"
  "ptoCount (snd (snd (declareLostUnretransmittable now ah))) = ptoCount ah"
  by (simp_all add: declareLostUnretransmittable_def removeBytesInFlight_def fold_retire_lost fold_retire_pto Let_def)

lemma timeout_body_keeps:
  "set (ah_sentRanges (snd (snd (on_timeout_body now ah)))) \<subseteq> set (ah_sentRanges ah)"
  "rtt (snd (snd (on_timeout_body now ah))) = rtt ah"
  "ptoCount (snd (snd (on_timeout_body now ah))) \<le> ptoCount ah + 1"
proof -
  obtain n evs a where d: "declareLostUnretransmittable now ah = (n, evs, a)" by (metis prod_cases3)
  then have a: "rtt a = rtt ah" "ptoCount a = ptoCount ah" "set (ah_sentRanges a) \<subseteq> set (ah_sentRanges ah)"
    using declareLost_keeps [of now ah] declareLost_sentRanges(1) [of now ah] by auto
  show "set (ah_sentRanges (snd (snd (on_timeout_body now ah)))) \<subseteq> set (ah_sentRanges ah)"
    "rtt (snd (snd (on_timeout_body now ah))) = rtt ah"
    "ptoCount (snd (snd (on_timeout_body now ah))) \<le> ptoCount ah + 1"
    using a detectLost_keeps [of now ah]
    by (auto simp: on_timeout_body_def d Let_def split: prod.splits option.splits)
qed

section \<open>Properties\<close>

text \<open>
  C30: the accounting is exact through every method: bytes in flight, exempt packets and probes are
  always those of the packets that await a verdict.
\<close>

theorem accounting_invariant:
  assumes "ah_ok ah"
  shows "ah_ok (snd (OnSent s ah)) \<and> ah_ok (snd (snd (ReceiveACK rcvTime r ackDelay ah))) \<and>
    ah_ok (snd (snd (OnTimeout now ah)))"
  using assms ah_ok_OnSent ah_ok_ReceiveACK ah_ok_OnTimeout by blast

theorem accounting_invariant_witness:
  "let ah = NewSentPacketHandler (NewRTTStats 333);
       s = \<lparr>sp_OnACK = None, sp_OnLost = Some (1 :: nat), PacketSize = 1200, sp_StreamID = 0, sp_PacketNumber = 7,
            SentTime = 5, CongestionExempt = False, PathEvidence = True, Retransmittable = True,
            IsMTUProbe = False, sp_Kind = 3\<rparr> in
    ah_ok (snd (OnSent s ah)) \<and> ah_ok (snd (snd (ReceiveACK 9 [\<lparr>Begin = 0, End = 1\<rparr>] 0 ah))) \<and>
    ah_ok (snd (snd (OnTimeout 9 ah)))"
  unfolding Let_def by (rule accounting_invariant) (simp add: ah_ok_def NewSentPacketHandler_def maxDeclaredLostTracked_def)

text \<open>
  For ranges in ascending order, the early exit of the inner loop of \<open>detectAck\<close> decides exactly
  membership: the packets acknowledged are those whose number is in one of the ranges, the others
  stay, and the bytes credited to the window are those of the congestion-controlled ones.
\<close>

theorem detectAck_exact:
  assumes "ranges_ok ranges"
  shows "let acked = filter (\<lambda>p. sp_PacketNumber p \<in> ranges_nums ranges) (ah_sentRanges ah);
             (res, evs, ah') = detectAck rcvTime ranges ah in
    res = Inr acked \<and>
    ah_sentRanges ah' = filter (\<lambda>p. sp_PacketNumber p \<notin> ranges_nums ranges) (ah_sentRanges ah) \<and>
    bytesInFlight ah' = bytesInFlight ah - total_size (filter (\<lambda>p. \<not> CongestionExempt p) acked) \<and>
    (acked \<noteq> [] \<longrightarrow> last evs = CcACK (total_size (filter (\<lambda>p. \<not> CongestionExempt p) acked)) rcvTime)"
  unfolding detectAck_eq acked_by_iff [OF assms] by (simp add: Let_def)

theorem detectAck_exact_witness:
  "let ranges = [\<lparr>Begin = 3, End = 5\<rparr>, \<lparr>Begin = 9, End = 10\<rparr>];
       p = \<lparr>sp_OnACK = None, sp_OnLost = Some (1 :: nat), PacketSize = 1200, sp_StreamID = 0, sp_PacketNumber = 4,
            SentTime = 5, CongestionExempt = False, PathEvidence = True, Retransmittable = True,
            IsMTUProbe = False, sp_Kind = 3\<rparr>;
       ah = (NewSentPacketHandler (NewRTTStats 333))\<lparr>ah_sentRanges := [p, p\<lparr>sp_PacketNumber := 6\<rparr>], bytesInFlight := 2400\<rparr>;
       (res, evs, ah') = detectAck 8 ranges ah in
    res = Inr [p] \<and> ah_sentRanges ah' = [p\<lparr>sp_PacketNumber := 6\<rparr>] \<and> bytesInFlight ah' = 1200 \<and>
    last evs = CcACK 1200 8"
proof -
  let ?r = "[\<lparr>Begin = 3, End = 5\<rparr>, \<lparr>Begin = 9, End = 10\<rparr>]"
  let ?p = "\<lparr>sp_OnACK = None, sp_OnLost = Some (1 :: nat), PacketSize = 1200, sp_StreamID = 0, sp_PacketNumber = 4,
            SentTime = 5, CongestionExempt = False, PathEvidence = True, Retransmittable = True,
            IsMTUProbe = False, sp_Kind = 3\<rparr>"
  let ?ah = "(NewSentPacketHandler (NewRTTStats 333))\<lparr>ah_sentRanges := [?p, ?p\<lparr>sp_PacketNumber := 6\<rparr>], bytesInFlight := 2400\<rparr>"
  have n: "4 \<in> ranges_nums ?r" "6 \<notin> ranges_nums ?r" by (simp_all add: ranges_nums_def range_nums_def)
  have "ranges_ok ?r" by (simp add: ranges_ok_def)
  from detectAck_exact [OF this, of ?ah 8] show ?thesis
    using n by (simp add: Let_def split: prod.splits)
qed

text \<open>
  C32: no stranded packet: after a send and after a timeout the loss timer is armed as long as any
  packet, exempt ones included, awaits its verdict (for round trips far from overflow, a clock past
  its zero, and fewer than 34 consecutive probe timeouts).
\<close>

theorem loss_timer_armed:
  assumes "ah_ok ah" and "sizes_pos (ah_sentRanges ah)" and "0 < PacketSize s"
    and "0 < now" and "0 < SentTime s" and "rtt_sane (rtt ah)" and "ptoCount ah < 34"
  shows "armed (snd (OnSent s ah)) \<and> armed (snd (snd (OnTimeout now ah)))"
proof
  define b where "b = snd (snd (on_timeout_body now ah))"
  have t: "snd (snd (OnTimeout now ah)) = setLossDetectionTimer now b"
    by (simp add: OnTimeout_def b_def split: prod.splits)
  note k = timeout_body_keeps [of now ah, folded b_def]
  have "ah_ok b" using ah_ok_timeout_body [OF assms(1)] by (simp add: b_def)
  moreover have "sizes_pos (ah_sentRanges b)" using k(1) assms(2) by (auto simp: sizes_pos_def)
  moreover have "0 \<le> PTO (ptoCount b) (rtt b)"
    using PTO_pos [of "rtt b" "ptoCount b"] k(2,3) assms(6,7) by simp
  ultimately show "armed (snd (snd (OnTimeout now ah)))"
    unfolding t using assms(4) by (intro armed_setTimer)
  obtain c where c: "snd (OnSent s ah) = setLossDetectionTimer (SentTime s) c" "ptoCount c = ptoCount ah"
    "rtt c = rtt ah" "ah_sentRanges c = ah_sentRanges ah @ [s]"
    using OnSent_timer [of s ah] by blast
  have "ah_ok c" using ah_ok_OnSent [OF assms(1), of s] unfolding c by simp
  moreover have "sizes_pos (ah_sentRanges c)" using assms(2,3) c(4) by (simp add: sizes_pos_def)
  moreover have "0 \<le> PTO (ptoCount c) (rtt c)" using PTO_pos [of "rtt c" "ptoCount c"] c(2,3) assms(6,7) by simp
  ultimately show "armed (snd (OnSent s ah))" unfolding c(1) using assms(5) by (intro armed_setTimer)
qed

theorem loss_timer_armed_witness:
  "let ah = NewSentPacketHandler (NewRTTStats 333) :: nat SentPacketHandler;
       s = \<lparr>sp_OnACK = None, sp_OnLost = None, PacketSize = 1200, sp_StreamID = 0, sp_PacketNumber = 7,
            SentTime = 5, CongestionExempt = True, PathEvidence = False, Retransmittable = False,
            IsMTUProbe = True, sp_Kind = 3\<rparr> in
    armed (snd (OnSent s ah)) \<and> armed (snd (snd (OnTimeout 9 ah)))"
  unfolding Let_def
  by (rule loss_timer_armed)
    (simp_all add: ah_ok_def NewSentPacketHandler_def maxDeclaredLostTracked_def sizes_pos_def
      rtt_sane_def NewRTTStats_def signed_divide_int_def)

text \<open>
  The internal error "no packets in flight" is reported only when nothing at all was outstanding
  (given that no packet is both exempt and retransmittable, as in the connection); and a timeout that
  is not a time-threshold one retires every packet nothing would re-send, so that none of them can be
  declared lost a second time.
\<close>

theorem timeout_no_bug:
  assumes "ah_ok ah" and "sizes_pos (ah_sentRanges ah)"
    and "\<forall>p \<in> set (ah_sentRanges ah). \<not> (CongestionExempt p \<and> Retransmittable p)"
  shows "(fst (OnTimeout now ah) = Inl NoPacketsInFlight \<longrightarrow> ah_sentRanges ah = []) \<and>
    (IsZero (lossTime ah) \<longrightarrow>
       ah_sentRanges (snd (snd (OnTimeout now ah))) = filter Retransmittable (ah_sentRanges ah))"
proof -
  obtain n evs a where d: "declareLostUnretransmittable now ah = (n, evs, a)" by (metis prod_cases3)
  have n: "n = length (filter (\<lambda>p. \<not> Retransmittable p) (ah_sentRanges ah))"
    and a: "ah_sentRanges a = filter Retransmittable (ah_sentRanges ah)" and oka: "ah_ok a"
    using declareLost_sentRanges [of now ah] ah_ok_declareLost [OF assms(1), of now] d by simp_all
  have bug: "ah_sentRanges ah = []" if "bytesInFlight a = 0" "n = 0"
  proof -
    have all: "ah_sentRanges a = ah_sentRanges ah" using that(2) n unfolding a by (simp add: filter_empty_conv)
    have "filter CongestionExempt (ah_sentRanges ah) = []"
      using assms(3) that(2) n by (auto simp: filter_empty_conv)
    then have "exemptOutstanding a = 0" using oka all by (simp add: ah_ok_def count_def)
    then show ?thesis using outstanding_zero [OF oka _ that(1)] assms(2) all by simp
  qed
  have "fst (on_timeout_body now ah) = Inl NoPacketsInFlight \<longrightarrow> ah_sentRanges ah = []"
    using bug by (auto simp: on_timeout_body_def d Let_def split: prod.splits option.splits if_splits)
  moreover have "IsZero (lossTime ah) \<longrightarrow>
      ah_sentRanges (snd (snd (on_timeout_body now ah))) = filter Retransmittable (ah_sentRanges ah)"
    by (simp add: on_timeout_body_def d Let_def a split: option.splits)
  ultimately show ?thesis by (cases "on_timeout_body now ah") (simp add: OnTimeout_def)
qed

theorem timeout_no_bug_witness:
  "let s = \<lparr>sp_OnACK = None, sp_OnLost = None, PacketSize = 1200, sp_StreamID = 0, sp_PacketNumber = 7,
            SentTime = 5, CongestionExempt = True, PathEvidence = False, Retransmittable = False,
            IsMTUProbe = True, sp_Kind = 3\<rparr>;
       ah = (NewSentPacketHandler (NewRTTStats 333) :: nat SentPacketHandler)
              \<lparr>ah_sentRanges := [s], exemptOutstanding := 1, mtuProbesOutstanding := 1\<rparr> in
    fst (OnTimeout 9 ah) \<noteq> Inl NoPacketsInFlight \<and> ah_sentRanges (snd (snd (OnTimeout 9 ah))) = []"
proof -
  let ?s = "\<lparr>sp_OnACK = None, sp_OnLost = None, PacketSize = 1200, sp_StreamID = 0, sp_PacketNumber = 7,
            SentTime = 5, CongestionExempt = True, PathEvidence = False, Retransmittable = False,
            IsMTUProbe = True, sp_Kind = 3\<rparr>"
  let ?ah = "(NewSentPacketHandler (NewRTTStats 333) :: nat SentPacketHandler)
              \<lparr>ah_sentRanges := [?s], exemptOutstanding := 1, mtuProbesOutstanding := 1\<rparr>"
  have "ah_ok ?ah" "sizes_pos (ah_sentRanges ?ah)" "IsZero (lossTime ?ah)"
    by (simp_all add: ah_ok_def sizes_pos_def NewSentPacketHandler_def maxDeclaredLostTracked_def IsZero_def)
  with timeout_no_bug [of ?ah 9] show ?thesis unfolding Let_def by simp
qed

end
