(* ===== verification/Flow.thy ===== *)
theory Flow
  imports Prelude
begin

text \<open>
  Send-side flow control (\<open>src/trsf/flow.go\<close>) and the interface through which a send stream uses it
  (\<open>FlowController\<close> in \<open>src/trsf/send_stream.go\<close>), as the locale \<open>flow_controller\<close>. Sizes are Go
  \<open>int\<close>s; they count bytes of one stream.
\<close>

record flowController =
  WindowSize :: int
  SentSize :: int

definition newFlowController :: "int \<Rightarrow> flowController" where
  "newFlowController windowSize = \<lparr>WindowSize = windowSize, SentSize = 0\<rparr>"

definition SendableSize :: "flowController \<Rightarrow> int" where
  "SendableSize fc = WindowSize fc - SentSize fc"

definition RecordSend :: "int \<Rightarrow> flowController \<Rightarrow> flowController" where
  "RecordSend n fc = fc\<lparr>SentSize := SentSize fc + n\<rparr>"

definition fc_UpdateWindow :: "int \<Rightarrow> flowController \<Rightarrow> bool \<times> flowController" where
  "fc_UpdateWindow n fc = (if n > WindowSize fc then (True, fc\<lparr>WindowSize := n\<rparr>) else (False, fc))"

text \<open>
  The contract: recording a send takes exactly its size off what may still be sent, and a window
  update never takes anything away.
\<close>

locale flow_controller =
  fixes sendable :: "'f \<Rightarrow> int" and record_send :: "int \<Rightarrow> 'f \<Rightarrow> 'f"
    and update_window :: "int \<Rightarrow> 'f \<Rightarrow> bool \<times> 'f"
  assumes sendable_record: "sendable (record_send n f) = sendable f - n"
    and sendable_update: "sendable f \<le> sendable (snd (update_window n f))"
    and update_silent: "\<not> fst (update_window n f) \<Longrightarrow> snd (update_window n f) = f"
begin

text \<open>A sender that asks before every send never sends more than it was granted.\<close>

lemma sendable_nonneg_record: "n \<le> sendable f \<Longrightarrow> 0 \<le> sendable (record_send n f)"
  by (simp add: sendable_record)

lemma sendable_nonneg_update: "0 \<le> sendable f \<Longrightarrow> 0 \<le> sendable (snd (update_window n f))"
  using sendable_update by (rule order.trans [rotated])

end

interpretation fc: flow_controller SendableSize RecordSend fc_UpdateWindow
  by unfold_locales (auto simp: SendableSize_def RecordSend_def fc_UpdateWindow_def split: if_splits)

end
