(* ===== verification/Ordering.thy ===== *)
theory Ordering
  imports Trigger_Queue
begin

text \<open>
  The reordering queue of a receive stream (\<open>src/trsf/ordering.go\<close>): frames arrive in any order,
  the reader gets the bytes in order, each once. Offsets are 64-bit words, as in the source.

  The correctness statements are relative to a sender that cuts frames out of one byte stream
  (\<open>frame_of\<close>); what is read is then always an initial piece of that stream.
\<close>

record RecvData =
  Offset :: u64
  Data :: bytes
  Eof :: bool

record OrderingQueue = trigger +
  queue :: "RecvData list"
  nextOffset :: u64
  eofReached :: bool

datatype push_error =
    Overlapping u64   \<comment> \<open>overlapping data at offset\<close>
  | AfterEof u64      \<comment> \<open>cannot add data after EOF at offset\<close>

definition NewOrderingQueue :: OrderingQueue where
  "NewOrderingQueue = \<lparr>notify = False, queue = [], nextOffset = 0, eofReached = False\<rparr>"

definition maybeNotify :: "OrderingQueue \<Rightarrow> OrderingQueue" where
  "maybeNotify oq = Notify oq"

text \<open>\<open>Offset + uint64(len(Data))\<close>\<close>

definition data_end :: "RecvData \<Rightarrow> u64" where
  "data_end d = Offset d + of_nat (length (Data d))"

text \<open>
  The loop of \<open>Push\<close> at index \<open>length front\<close> of the queue \<open>front @ rest\<close>: it ends by itself, or
  returns because the frame is a duplicate, overlaps, or was put in its place.
\<close>

datatype push_step = Fell | Duplicate | Overlap | Inserted "RecvData list"

fun push_loop :: "RecvData \<Rightarrow> RecvData list \<Rightarrow> RecvData list \<Rightarrow> push_step" where
  "push_loop data front [] = Fell"
| "push_loop data front (d # rest) =
     (if Offset data = Offset d then Duplicate
      else if Offset data < Offset d then
        (if data_end data > Offset d then Overlap
         else if front \<noteq> [] \<and> data_end (last front) > Offset data then Overlap
         else Inserted (front @ data # d # rest))
      else push_loop data (front @ [d]) rest)"

definition Push :: "RecvData \<Rightarrow> OrderingQueue \<Rightarrow> (push_error, OrderingQueue) result" where
  "Push data oq =
     (if length (Data data) = 0 \<and> \<not> Eof data then Inr oq
      else if nextOffset oq > Offset data then Inr oq
      else case push_loop data [] (queue oq) of
          Duplicate \<Rightarrow> Inr oq
        | Overlap \<Rightarrow> Inl (Overlapping (Offset data))
        | Inserted q \<Rightarrow> Inr (maybeNotify (oq\<lparr>queue := q\<rparr>))
        | Fell \<Rightarrow>
            if queue oq \<noteq> [] \<and> data_end (last (queue oq)) > Offset data
            then Inl (Overlapping (Offset data))
            else if queue oq \<noteq> [] \<and> Eof (last (queue oq)) then Inl (AfterEof (Offset data))
            else if eofReached oq then Inl (AfterEof (Offset data))
            else Inr (maybeNotify (oq\<lparr>queue := queue oq @ [data]\<rparr>)))"

definition HasData :: "OrderingQueue \<Rightarrow> bool" where
  "HasData oq \<longleftrightarrow> queue oq \<noteq> [] \<and> Offset (hd (queue oq)) = nextOffset oq"

definition EOF :: "OrderingQueue \<Rightarrow> bool" where
  "EOF oq \<longleftrightarrow> eofReached oq"

text \<open>The loop of \<open>ReadDirect\<close>: queue, next offset, bytes still wanted, result, end flag.\<close>

fun read_loop :: "RecvData list \<Rightarrow> u64 \<Rightarrow> u64 \<Rightarrow> bytes \<Rightarrow> bool \<Rightarrow> RecvData list \<times> u64 \<times> bytes \<times> bool" where
  "read_loop [] nxt n acc eof = ([], nxt, acc, eof)"
| "read_loop (d # q) nxt n acc eof =
     (if Offset d = nxt \<and> n > 0 then
        let len = of_nat (length (Data d));
            toRead = (if len > n then n else len);
            acc = acc @ take (unat toRead) (Data d);
            nxt = nxt + toRead;
            n = n - toRead in
        if toRead < len
        then (d\<lparr>Data := drop (unat toRead) (Data d), Offset := Offset d + toRead\<rparr> # q, nxt, acc, eof)
        else read_loop q nxt n acc (Eof d)
      else (d # q, nxt, acc, eof))"

definition ReadDirect :: "u64 \<Rightarrow> OrderingQueue \<Rightarrow> (bytes \<times> bool) \<times> OrderingQueue" where
  "ReadDirect n oq =
     (if eofReached oq then (([], True), oq)
      else if queue oq = [] then (([], False), oq)
      else if Offset (hd (queue oq)) \<noteq> nextOffset oq then (([], False), oq)
      else
        let (q, nxt, acc, eof) = read_loop (queue oq) (nextOffset oq) n [] False in
        ((acc, eof), oq\<lparr>queue := q, nextOffset := nxt, eofReached := eof\<rparr>))"

text \<open>
  \<open>Read(p)\<close> with a buffer of \<open>k\<close> bytes: \<open>None\<close> is \<open>io.EOF\<close>, otherwise the bytes copied into it.
\<close>

definition oq_Read :: "nat \<Rightarrow> OrderingQueue \<Rightarrow> bytes option \<times> OrderingQueue" where
  "oq_Read k oq =
     (let ((data, eof), oq) = ReadDirect (of_nat k) oq in
      if data = [] \<and> eof then (None, oq) else (Some data, oq))"

section \<open>Frames of one byte stream\<close>

definition frame_of :: "bytes \<Rightarrow> RecvData \<Rightarrow> bool" where
  "frame_of str d \<longleftrightarrow>
     unat (Offset d) + length (Data d) \<le> length str \<and>
     Data d = take (length (Data d)) (drop (unat (Offset d)) str) \<and>
     (Eof d \<longrightarrow> unat (Offset d) + length (Data d) = length str)"

text \<open>
  The queue holds frames of the stream, in ascending order, none reaching into the next, all at or
  behind the read position; a frame without bytes is an end mark; once the end has been read,
  everything has.
\<close>

definition oq_ok :: "bytes \<Rightarrow> OrderingQueue \<Rightarrow> bool" where
  "oq_ok str oq \<longleftrightarrow>
     length str < 2 ^ 64 \<and> unat (nextOffset oq) \<le> length str \<and>
     (\<forall>d \<in> set (queue oq). frame_of str d \<and> nextOffset oq \<le> Offset d \<and> (Data d = [] \<longrightarrow> Eof d)) \<and>
     sorted_wrt (\<lambda>a b. Offset a < Offset b \<and> unat (Offset a) + length (Data a) \<le> unat (Offset b)) (queue oq) \<and>
     (eofReached oq \<longrightarrow> unat (nextOffset oq) = length str)"

lemma frame_end:
  assumes "frame_of str d" and "length str < 2 ^ 64"
  shows "unat (data_end d) = unat (Offset d) + length (Data d)"
proof -
  from assms have "unat (Offset d) + length (Data d) < 2 ^ 64" by (simp add: frame_of_def)
  then show ?thesis
    unfolding data_end_def by (subst unat_add_no_wrap) (simp_all add: unat_of_nat_len)
qed

abbreviation before :: "RecvData \<Rightarrow> RecvData \<Rightarrow> bool" where
  "before a b \<equiv> Offset a < Offset b \<and> unat (Offset a) + length (Data a) \<le> unat (Offset b)"

lemma before_last:
  assumes "sorted_wrt before xs" and "x \<in> set xs"
    and "unat (Offset (last xs)) + length (Data (last xs)) \<le> b"
  shows "unat (Offset x) + length (Data x) \<le> b"
  using assms
proof (induction xs rule: rev_induct)
  case (snoc y ys)
  then show ?case by (auto simp: sorted_wrt_append)
qed simp

lemma data_end_le:
  assumes "frame_of str d" and "length str < 2 ^ 64"
  shows "data_end d \<le> b \<longleftrightarrow> unat (Offset d) + length (Data d) \<le> unat b"
  unfolding word_le_nat_alt frame_end [OF assms] by simp

lemma push_loop_Inserted:
  assumes "push_loop data front rest = Inserted q"
    and "\<forall>d \<in> set (front @ rest). frame_of str d" and "frame_of str data" and "length str < 2 ^ 64"
    and "sorted_wrt before (front @ rest)" and "\<forall>d \<in> set front. Offset d < Offset data"
  shows "sorted_wrt before q \<and> set q = insert data (set (front @ rest))"
  using assms
proof (induction data front rest rule: push_loop.induct)
  case (2 data front d rest)
  consider "Offset data = Offset d" | (less) "Offset data < Offset d" | (more) "Offset d < Offset data"
    by force
  then show ?case
  proof cases
    case less
    with "2.prems"(1) have q: "q = front @ data # d # rest" and e: "data_end data \<le> Offset d"
      and l: "front \<noteq> [] \<Longrightarrow> data_end (last front) \<le> Offset data"
      by (auto split: if_splits simp: not_less)
    have "unat (Offset x) + length (Data x) \<le> unat (Offset data)" if "x \<in> set front" for x
    proof (rule before_last)
      show "sorted_wrt before front" using "2.prems"(5) by (simp add: sorted_wrt_append)
      from that have ne: "front \<noteq> []" by auto
      then have "last front \<in> set front" by simp
      then show "unat (Offset (last front)) + length (Data (last front)) \<le> unat (Offset data)"
        using l [OF ne] data_end_le [OF _ "2.prems"(4), of "last front"] "2.prems"(2) by simp
    qed (rule that)
    moreover have "before data x" if "x \<in> set (d # rest)" for x
    proof -
      have "x = d \<or> before d x" using that "2.prems"(5) by (auto simp: sorted_wrt_append)
      with less e show ?thesis by (auto simp: data_end_le [OF "2.prems"(3,4)])
    qed
    ultimately show ?thesis
      using "2.prems"(5,6) unfolding q by (auto simp: sorted_wrt_append)
  qed (use "2.IH" "2.prems" in \<open>auto split: if_splits\<close>)
qed simp

lemma push_loop_Fell: "push_loop data front rest = Fell \<Longrightarrow> d \<in> set rest \<Longrightarrow> Offset d < Offset data"
  by (induction data front rest rule: push_loop.induct) (auto split: if_splits)

lemma push_queue:
  assumes ok: "oq_ok str oq" and frame: "frame_of str data" and push: "Push data oq = Inr oq'"
  shows "queue oq' = queue oq \<or>
    sorted_wrt before (queue oq') \<and> set (queue oq') = insert data (set (queue oq)) \<and>
      nextOffset oq \<le> Offset data \<and> (Data data = [] \<longrightarrow> Eof data)"
proof -
  from ok have len: "length str < 2 ^ 64" and fr: "\<forall>d \<in> set (queue oq). frame_of str d"
    and so: "sorted_wrt before (queue oq)"
    by (simp_all add: oq_ok_def)
  from push consider (same) "oq' = oq"
    | (ins) q where "push_loop data [] (queue oq) = Inserted q" "queue oq' = q"
        "nextOffset oq \<le> Offset data" "Data data = [] \<longrightarrow> Eof data"
    | (add) "push_loop data [] (queue oq) = Fell" "queue oq' = queue oq @ [data]"
        "queue oq \<noteq> [] \<longrightarrow> data_end (last (queue oq)) \<le> Offset data"
        "nextOffset oq \<le> Offset data" "Data data = [] \<longrightarrow> Eof data"
    by (auto simp: Push_def maybeNotify_def Notify_def not_less split: if_splits push_step.splits)
  then show ?thesis
  proof cases
    case ins
    with push_loop_Inserted [OF ins(1) _ frame len] fr so show ?thesis by simp
  next
    case add
    have "before x data" if "x \<in> set (queue oq)" for x
    proof -
      from that have ne: "queue oq \<noteq> []" by auto
      then have "last (queue oq) \<in> set (queue oq)" by simp
      with ne have "unat (Offset (last (queue oq))) + length (Data (last (queue oq))) \<le> unat (Offset data)"
        using add(3) fr data_end_le [OF _ len, of "last (queue oq)"] by simp
      then show ?thesis
        using before_last [OF so that] push_loop_Fell [OF add(1) that] by simp
    qed
    with add so show ?thesis by (auto simp: sorted_wrt_append)
  qed simp
qed

lemma oq_ok_Push:
  assumes "oq_ok str oq" and "frame_of str data" and "Push data oq = Inr oq'"
  shows "oq_ok str oq'"
proof -
  have "nextOffset oq' = nextOffset oq" and "eofReached oq' = eofReached oq"
    using assms(3)
    by (auto simp: Push_def maybeNotify_def Notify_def split: if_splits push_step.splits)
  with push_queue [OF assms] assms(1,2) show ?thesis
    by (auto simp: oq_ok_def)
qed

section \<open>Reading\<close>

abbreviation queue_ok :: "bytes \<Rightarrow> u64 \<Rightarrow> RecvData list \<Rightarrow> bool" where
  "queue_ok str nxt q \<equiv>
     (\<forall>d \<in> set q. frame_of str d \<and> nxt \<le> Offset d \<and> (Data d = [] \<longrightarrow> Eof d)) \<and> sorted_wrt before q"

lemma unat_min_len:
  assumes "k < 2 ^ 64"
  shows "unat (if of_nat k > n then n else (of_nat k :: u64)) = min (unat n) k"
  using assms by (auto simp: word_less_nat_alt unat_of_nat_len)

lemma queue_ok_tl:
  assumes "queue_ok str nxt (d # q)" and "unat nxt' = unat (Offset d) + length (Data d)"
  shows "queue_ok str nxt' q"
  using assms by (auto simp: word_le_nat_alt)

lemma frame_partial:
  assumes "frame_of str d" and "unat o' = unat (Offset d) + k" and "k < length (Data d)"
  shows "frame_of str (d\<lparr>Data := drop k (Data d), Offset := o'\<rparr>)"
proof -
  have "Data d = take (length (Data d)) (drop (unat (Offset d)) str)"
    using assms(1) by (simp add: frame_of_def)
  then have "drop k (Data d) = take (length (Data d) - k) (drop (unat (Offset d) + k) str)"
    by (metis drop_drop drop_take add.commute)
  then show ?thesis using assms by (auto simp: frame_of_def)
qed

lemma frame_prefix:
  assumes "frame_of str d" and "k \<le> length (Data d)"
  shows "take k (Data d) = take k (drop (unat (Offset d)) str)"
proof -
  have "Data d = take (length (Data d)) (drop (unat (Offset d)) str)"
    using assms(1) by (simp add: frame_of_def)
  then have "take k (Data d) = take k (take (length (Data d)) (drop (unat (Offset d)) str))"
    by (rule arg_cong [of _ _ "take k"])
  also have "\<dots> = take k (drop (unat (Offset d)) str)" using assms(2) by (simp add: min_def)
  finally show ?thesis .
qed

text \<open>One round of the read loop: the head is cut, or taken whole.\<close>

lemma read_loop_part:
  assumes "Offset d = nxt" and "n > 0" and "unat n < length (Data d)" and "length (Data d) < 2 ^ 64"
  shows "read_loop (d # q) nxt n acc eof =
    (d\<lparr>Data := drop (unat n) (Data d), Offset := nxt + n\<rparr> # q, nxt + n, acc @ take (unat n) (Data d), eof)"
proof -
  have "n < of_nat (length (Data d))"
    using assms(3,4) by (simp add: word_less_nat_alt unat_of_nat_len)
  with assms(1,2) show ?thesis by simp
qed

lemma read_loop_full:
  assumes "Offset d = nxt" and "n > 0" and "length (Data d) \<le> unat n" and "length (Data d) < 2 ^ 64"
  shows "read_loop (d # q) nxt n acc eof =
    read_loop q (nxt + of_nat (length (Data d))) (n - of_nat (length (Data d))) (acc @ Data d) (Eof d)"
proof -
  have "\<not> n < of_nat (length (Data d))"
    using assms(3,4) by (simp add: word_less_nat_alt unat_of_nat_len)
  with assms(1,2,4) show ?thesis by (simp add: unat_of_nat_len Let_def)
qed

lemma queue_ok_part:
  assumes ok: "queue_ok str (Offset d) (d # q)" and n: "unat n < length (Data d)"
    and o': "unat o' = unat (Offset d) + unat n"
  shows "queue_ok str o' (d\<lparr>Data := drop (unat n) (Data d), Offset := o'\<rparr> # q)"
proof -
  have "frame_of str (d\<lparr>Data := drop (unat n) (Data d), Offset := o'\<rparr>)"
    by (rule frame_partial [OF _ o' n]) (use ok in simp)
  moreover have "o' \<le> Offset x" "before (d\<lparr>Data := drop (unat n) (Data d), Offset := o'\<rparr>) x"
    if "x \<in> set q" for x
  proof -
    have "unat (Offset d) + length (Data d) \<le> unat (Offset x)" using ok that by simp
    with n o' show "o' \<le> Offset x" "before (d\<lparr>Data := drop (unat n) (Data d), Offset := o'\<rparr>) x"
      by (simp_all add: word_le_nat_alt word_less_nat_alt)
  qed
  ultimately show ?thesis using ok n by auto
qed

lemma read_loop_ok:
  assumes "read_loop q nxt n acc eof = (q', nxt', acc', eof')"
    and "queue_ok str nxt q" and "length str < 2 ^ 64" and "unat nxt \<le> length str"
    and "eof \<longrightarrow> unat nxt = length str"
  shows "\<exists>k. unat nxt' = unat nxt + k \<and> k \<le> unat n \<and> unat nxt' \<le> length str \<and>
      acc' = acc @ take k (drop (unat nxt) str) \<and> queue_ok str nxt' q' \<and>
      (eof' \<longrightarrow> unat nxt' = length str)"
  using assms
proof (induction q arbitrary: nxt n acc eof)
  case Nil
  then show ?case by auto
next
  case (Cons d q)
  note ok = Cons.prems(2) and len = Cons.prems(3)
  from ok have fr: "frame_of str d" by simp
  then have dl: "unat (Offset d) + length (Data d) \<le> length str" by (simp add: frame_of_def)
  with len have dl64: "length (Data d) < 2 ^ 64" by simp
  show ?case
  proof (cases "Offset d = nxt \<and> n > 0")
    case False
    with Cons.prems show ?thesis by (intro exI [of _ 0]) auto
  next
    case True
    then have nx: "Offset d = nxt" and n0: "n > 0" by auto
    show ?thesis
    proof (cases "unat n < length (Data d)")
      case part: True
      have nn: "unat (nxt + n) = unat nxt + unat n"
        using dl len part nx by (intro unat_add_no_wrap) simp
      have r: "q' = d\<lparr>Data := drop (unat n) (Data d), Offset := nxt + n\<rparr> # q"
        "nxt' = nxt + n" "acc' = acc @ take (unat n) (Data d)" "eof' = eof"
        using Cons.prems(1) unfolding read_loop_part [OF nx n0 part dl64] by auto
      have "\<not> eof" using Cons.prems(5) dl nx part by auto
      moreover have "queue_ok str nxt' q'"
        unfolding r by (rule queue_ok_part) (use ok nx nn part in simp_all)
      ultimately show ?thesis
        using r nn part dl nx frame_prefix [OF fr, of "unat n"] by (intro exI [of _ "unat n"]) simp
    next
      case False
      then have full: "length (Data d) \<le> unat n" by simp
      let ?l = "of_nat (length (Data d)) :: u64"
      have ul: "unat ?l = length (Data d)" by (rule unat_of_nat_len [OF dl64])
      have nn: "unat (nxt + ?l) = unat nxt + length (Data d)"
        using dl len nx ul by (subst unat_add_no_wrap) simp_all
      have sub: "unat (n - ?l) = unat n - length (Data d)"
        using full ul by (simp add: unat_sub word_le_nat_alt)
      have rec: "read_loop q (nxt + ?l) (n - ?l) (acc @ Data d) (Eof d) = (q', nxt', acc', eof')"
        using Cons.prems(1) unfolding read_loop_full [OF nx n0 full dl64] .
      have qok: "queue_ok str (nxt + ?l) q" by (rule queue_ok_tl [OF ok]) (simp add: nn nx)
      have le: "unat (nxt + ?l) \<le> length str" using dl nn nx by simp
      have eof: "Eof d \<longrightarrow> unat (nxt + ?l) = length str" using fr nn nx by (simp add: frame_of_def)
      from Cons.IH [OF rec qok len le eof] obtain k where k: "unat nxt' = unat (nxt + ?l) + k" "k \<le> unat (n - ?l)" "unat nxt' \<le> length str"
        "acc' = (acc @ Data d) @ take k (drop (unat (nxt + ?l)) str)" "queue_ok str nxt' q'"
        "eof' \<longrightarrow> unat nxt' = length str"
        by blast
      have "Data d = take (length (Data d)) (drop (unat nxt) str)"
        using frame_prefix [OF fr, of "length (Data d)"] nx by simp
      then have "acc' = acc @ take (length (Data d) + k) (drop (unat nxt) str)"
        using k(4) nn by (metis append.assoc add.commute drop_drop take_add)
      with k nn sub full show ?thesis
        by (intro exI [of _ "length (Data d) + k"]) simp
    qed
  qed
qed

lemma oq_ok_ReadDirect:
  assumes "oq_ok str oq" and "ReadDirect n oq = ((bs, eof), oq')"
  shows "oq_ok str oq'" and "bs = take (length bs) (drop (unat (nextOffset oq)) str)"
    and "unat (nextOffset oq') = unat (nextOffset oq) + length bs" and "length bs \<le> unat n"
    and "eof \<longrightarrow> unat (nextOffset oq') = length str"
proof -
  have "oq_ok str oq' \<and> bs = take (length bs) (drop (unat (nextOffset oq)) str) \<and>
      unat (nextOffset oq') = unat (nextOffset oq) + length bs \<and> length bs \<le> unat n \<and>
      (eof \<longrightarrow> unat (nextOffset oq') = length str)"
  proof (cases "eofReached oq \<or> queue oq = [] \<or> Offset (hd (queue oq)) \<noteq> nextOffset oq")
    case True
    with assms show ?thesis by (auto simp: ReadDirect_def oq_ok_def split: if_splits)
  next
    case False
    obtain q nxt acc e where r: "read_loop (queue oq) (nextOffset oq) n [] False = (q, nxt, acc, e)"
      by (metis prod_cases4)
    from assms(1) have "queue_ok str (nextOffset oq) (queue oq)" "length str < 2 ^ 64"
      "unat (nextOffset oq) \<le> length str" by (simp_all add: oq_ok_def)
    from read_loop_ok [OF r this] obtain k where k: "unat nxt = unat (nextOffset oq) + k" "k \<le> unat n"
      "unat nxt \<le> length str" "acc = take k (drop (unat (nextOffset oq)) str)" "queue_ok str nxt q"
      "e \<longrightarrow> unat nxt = length str" by auto
    from False r assms(2) have "bs = acc" "eof = e" "oq' = oq\<lparr>queue := q, nextOffset := nxt, eofReached := e\<rparr>"
      by (auto simp: ReadDirect_def)
    with k \<open>length str < 2 ^ 64\<close> show ?thesis by (auto simp: oq_ok_def min_def)
  qed
  then show "oq_ok str oq'" and "bs = take (length bs) (drop (unat (nextOffset oq)) str)"
    and "unat (nextOffset oq') = unat (nextOffset oq) + length bs" and "length bs \<le> unat n"
    and "eof \<longrightarrow> unat (nextOffset oq') = length str" by auto
qed


section \<open>Runs\<close>

lemma take_drop_step: "take a (drop m xs) @ take b (drop (m + a) xs) = take (a + b) (drop m xs)"
  by (metis add.commute drop_drop take_add)

text \<open>
  A run of the queue: frames are pushed and the reader reads, in any order. A refused frame leaves
  the queue as it was. The outputs are what the reads returned.
\<close>

datatype oq_op = OpPush RecvData | OpRead u64

fun oq_run :: "oq_op list \<Rightarrow> OrderingQueue \<Rightarrow> (bytes \<times> bool) list \<times> OrderingQueue" where
  "oq_run [] oq = ([], oq)"
| "oq_run (OpPush d # ops) oq =
     oq_run ops (case Push d oq of Inl _ \<Rightarrow> oq | Inr oq' \<Rightarrow> oq')"
| "oq_run (OpRead n # ops) oq =
     (let (out, oq') = ReadDirect n oq; (outs, oq'') = oq_run ops oq' in (out # outs, oq''))"

definition frames_of :: "bytes \<Rightarrow> oq_op list \<Rightarrow> bool" where
  "frames_of str ops \<longleftrightarrow> (\<forall>op \<in> set ops. case op of OpPush d \<Rightarrow> frame_of str d | OpRead n \<Rightarrow> True)"

lemma oq_run_ok:
  "oq_ok str oq \<Longrightarrow> frames_of str ops \<Longrightarrow> oq_run ops oq = (outs, oq') \<Longrightarrow>
     oq_ok str oq' \<and>
     concat (map fst outs) = take (length (concat (map fst outs))) (drop (unat (nextOffset oq)) str) \<and>
     unat (nextOffset oq') = unat (nextOffset oq) + length (concat (map fst outs)) \<and>
     (list_ex snd outs \<longrightarrow> unat (nextOffset oq') = length str)"
proof (induction ops oq arbitrary: outs rule: oq_run.induct)
  case (1 oq)
  then show ?case by auto
next
  case (2 d ops oq)
  let ?q = "case Push d oq of Inl _ \<Rightarrow> oq | Inr oq' \<Rightarrow> oq'"
  have fr: "frame_of str d" "frames_of str ops" using "2.prems"(2) by (simp_all add: frames_of_def)
  have ok: "oq_ok str ?q" using "2.prems"(1) fr(1) oq_ok_Push by (simp split: sum.splits)
  have "nextOffset ?q = nextOffset oq"
    by (auto simp: Push_def maybeNotify_def Notify_def split: sum.splits if_splits push_step.splits)
  with "2.IH" [OF ok fr(2)] "2.prems"(3) show ?case by auto
next
  case (3 n ops oq)
  obtain bs eof oq1 where r: "ReadDirect n oq = ((bs, eof), oq1)" by (metis prod.collapse)
  obtain outs1 where run: "oq_run ops oq1 = (outs1, oq')" and o: "outs = (bs, eof) # outs1"
    using "3.prems"(3) r by (auto split: prod.splits)
  note rd = oq_ok_ReadDirect [OF "3.prems"(1) r]
  have fr: "frames_of str ops" using "3.prems"(2) by (simp add: frames_of_def)
  from "3.IH" [OF r [symmetric] refl rd(1) fr run]
  have ih: "oq_ok str oq'"
    "concat (map fst outs1) = take (length (concat (map fst outs1))) (drop (unat (nextOffset oq1)) str)"
    "unat (nextOffset oq') = unat (nextOffset oq1) + length (concat (map fst outs1))"
    "list_ex snd outs1 \<longrightarrow> unat (nextOffset oq') = length str" by blast+
  let ?o = "concat (map fst outs1)"
  have "bs @ ?o = take (length bs + length ?o) (drop (unat (nextOffset oq)) str)"
    using take_drop_step [of "length bs" "unat (nextOffset oq)" str "length ?o"] rd(2) ih(2)
    unfolding rd(3) by simp
  moreover have "unat (nextOffset oq') \<le> length str" using ih(1) by (simp add: oq_ok_def)
  moreover have "eof \<longrightarrow> unat (nextOffset oq') = length str"
    using rd(5) ih(3) calculation(2) by linarith
  ultimately show ?case using ih(1,3,4) rd(3) by (simp add: o)
qed

lemma oq_ok_init: "length str < 2 ^ 64 \<Longrightarrow> oq_ok str NewOrderingQueue"
  by (simp add: oq_ok_def NewOrderingQueue_def)

section \<open>Order of arrival\<close>

text \<open>The frames a sender cuts a stream into, one after the other; the last one carries the end.\<close>

fun chunking :: "bytes \<Rightarrow> nat \<Rightarrow> RecvData list \<Rightarrow> bool" where
  "chunking str off [] \<longleftrightarrow> False"
| "chunking str off [d] \<longleftrightarrow> frame_of str d \<and> unat (Offset d) = off \<and> Eof d"
| "chunking str off (d # ds) \<longleftrightarrow>
     frame_of str d \<and> unat (Offset d) = off \<and> \<not> Eof d \<and> Data d \<noteq> [] \<and>
     chunking str (off + length (Data d)) ds"

lemma chunking_frames:
  "chunking str off cs \<Longrightarrow> d \<in> set cs \<Longrightarrow>
     frame_of str d \<and> off \<le> unat (Offset d) \<and> (Data d = [] \<longrightarrow> Eof d)"
  by (induction str off cs rule: chunking.induct) auto

lemma chunking_sorted: "chunking str off cs \<Longrightarrow> sorted_wrt before cs"
proof (induction str off cs rule: chunking.induct)
  case (3 str off d v va)
  have "before d x" if x: "x \<in> set (v # va)" for x
  proof -
    have "off + length (Data d) \<le> unat (Offset x)"
      using chunking_frames [OF _ x, of str "off + length (Data d)"] "3.prems" by simp
    moreover have "0 < length (Data d)" and "unat (Offset d) = off" using "3.prems" by auto
    ultimately show ?thesis unfolding word_less_nat_alt by linarith
  qed
  with 3 show ?case by simp
qed simp_all

lemma chunking_eof: "chunking str off cs \<Longrightarrow> d \<in> set cs \<Longrightarrow> Eof d \<Longrightarrow> d = last cs"
  by (induction str off cs rule: chunking.induct) auto

lemma sorted_before_cases:
  "sorted_wrt before cs \<Longrightarrow> a \<in> set cs \<Longrightarrow> b \<in> set cs \<Longrightarrow> a = b \<or> before a b \<or> before b a"
  by (induction cs) auto

lemma push_loop_total:
  assumes "\<forall>x \<in> set (front @ rest). x = d \<or> before x d \<or> before d x" and "frame_of str d"
    and "\<forall>x \<in> set (front @ rest). frame_of str x" and "length str < 2 ^ 64"
    and "\<forall>y \<in> set front. Offset y < Offset d"
  shows "push_loop d front rest \<noteq> Overlap \<and> (push_loop d front rest = Duplicate \<longrightarrow> d \<in> set rest)"
  using assms
proof (induction d front rest rule: push_loop.induct)
  case (2 d front x rest)
  have "\<not> Offset x < data_end d" if "Offset d < Offset x"
    using "2.prems"(1) that data_end_le [OF "2.prems"(2,4), of "Offset x"] by (auto simp: not_less)
  moreover have "\<not> Offset d < data_end (last front)" if "front \<noteq> []"
  proof -
    have l: "last front \<in> set front" using that by simp
    then have "before (last front) d" using "2.prems"(1,5) by fastforce
    moreover have "frame_of str (last front)" using l "2.prems"(3) by simp
    ultimately show ?thesis
      using data_end_le [OF _ "2.prems"(4), of "last front" "Offset d"] by (simp add: not_less)
  qed
  moreover have "Offset x < Offset d" if "Offset d \<noteq> Offset x" "\<not> Offset d < Offset x"
    using that by auto
  ultimately show ?case using 2 by auto
qed simp

text \<open>What the queue is after some of the chunks have arrived.\<close>

definition collected :: "RecvData list \<Rightarrow> OrderingQueue \<Rightarrow> bool" where
  "collected cs oq \<longleftrightarrow> set (queue oq) \<subseteq> set cs \<and> sorted_wrt before (queue oq) \<and>
     nextOffset oq = 0 \<and> \<not> eofReached oq"

lemma collected_Push:
  assumes ch: "chunking str 0 cs" and len: "length str < 2 ^ 64" and co: "collected cs oq"
    and d: "d \<in> set cs"
  shows "\<exists>oq'. Push d oq = Inr oq' \<and> collected cs oq' \<and> set (queue oq') = insert d (set (queue oq))"
proof -
  note fr = chunking_frames [OF ch] and so = chunking_sorted [OF ch]
  have sub: "set (queue oq) \<subseteq> set cs" using co by (simp add: collected_def)
  have rel: "x = d \<or> before x d \<or> before d x" if "x \<in> set (queue oq)" for x
    using sorted_before_cases [OF so] sub that d by blast
  have frq: "\<forall>x \<in> set (queue oq). frame_of str x" using fr sub by blast
  from fr [OF d] have frd: "frame_of str d" by simp
  have ok: "oq_ok str oq"
    using co fr sub len by (auto simp: oq_ok_def collected_def)
  have tot: "push_loop d [] (queue oq) \<noteq> Overlap \<and> (push_loop d [] (queue oq) = Duplicate \<longrightarrow> d \<in> set (queue oq))"
    by (rule push_loop_total) (use rel frd frq len in auto)
  have fell: "\<not> Offset d < data_end (last (queue oq)) \<and> \<not> Eof (last (queue oq))"
    if f: "push_loop d [] (queue oq) = Fell" and ne: "queue oq \<noteq> []"
  proof -
    let ?l = "last (queue oq)"
    have l: "?l \<in> set (queue oq)" using ne by simp
    have b: "before ?l d" using rel [OF l] push_loop_Fell [OF f l] by auto
    moreover have "\<not> Eof ?l"
    proof
      assume "Eof ?l"
      then have "?l = last cs" using chunking_eof [OF ch] l sub by blast
      moreover have "d = last cs \<or> before d (last cs)"
        using so d by (induction cs) (auto split: if_splits)
      ultimately show False using b by auto
    qed
    moreover have "frame_of str ?l" using frq l by blast
    ultimately show ?thesis using data_end_le [OF _ len, of ?l "Offset d"] by (simp add: not_less)
  qed
  have z: "\<not> (length (Data d) = 0 \<and> \<not> Eof d)" "\<not> Offset d < nextOffset oq" "\<not> eofReached oq"
    using fr [OF d] co by (auto simp: collected_def)
  obtain oq' where p: "Push d oq = Inr oq'"
    and q: "set (queue oq') = insert d (set (queue oq))"
    and st: "nextOffset oq' = nextOffset oq" "eofReached oq' = eofReached oq"
  proof (cases "push_loop d [] (queue oq)")
    case Fell
    have "Push d oq = Inr (maybeNotify (oq\<lparr>queue := queue oq @ [d]\<rparr>))"
      using z fell [OF Fell] by (auto simp: Push_def Fell)
    from that [OF this] show ?thesis by (simp add: maybeNotify_def Notify_def)
  next
    case (Inserted q')
    with z that push_loop_Inserted [OF Inserted _ frd len] frq ok show ?thesis
      by (auto simp: Push_def maybeNotify_def Notify_def oq_ok_def)
  qed (use z that tot in \<open>auto simp: Push_def insert_absorb\<close>)
  moreover have "sorted_wrt before (queue oq')" using oq_ok_Push [OF ok frd p] by (simp add: oq_ok_def)
  ultimately show ?thesis using co d by (auto simp: collected_def)
qed

fun push_all :: "RecvData list \<Rightarrow> OrderingQueue \<Rightarrow> (push_error, OrderingQueue) result" where
  "push_all [] oq = Inr oq"
| "push_all (d # ds) oq = rbind (Push d oq) (push_all ds)"

lemma push_all_collected:
  assumes "chunking str 0 cs" and "length str < 2 ^ 64"
  shows "collected cs oq \<Longrightarrow> set ds \<subseteq> set cs \<Longrightarrow>
    \<exists>oq'. push_all ds oq = Inr oq' \<and> collected cs oq' \<and> set (queue oq') = set (queue oq) \<union> set ds"
proof (induction ds arbitrary: oq)
  case (Cons d ds)
  from Cons.prems collected_Push [OF assms Cons.prems(1), of d] obtain oq1 where
    "Push d oq = Inr oq1" "collected cs oq1" "set (queue oq1) = insert d (set (queue oq))" by auto
  with Cons.IH [of oq1] Cons.prems(2) show ?case by auto
qed simp

lemma sorted_before_unique:
  assumes "sorted_wrt before xs" and "sorted_wrt before ys" and "set xs = set ys"
  shows "xs = ys"
proof -
  have "map Offset xs = map Offset ys"
    by (rule strict_sorted_equal)
      (use assms in \<open>auto simp: sorted_wrt_map elim: sorted_wrt_mono_rel [rotated]\<close>)
  moreover have "inj_on Offset (set xs \<union> set ys)"
  proof (rule inj_onI)
    fix a b assume "a \<in> set xs \<union> set ys" "b \<in> set xs \<union> set ys" "Offset a = Offset b"
    then show "a = b" using sorted_before_cases [OF assms(1), of a b] assms(3) by auto
  qed
  ultimately show ?thesis by (rule map_inj_on)
qed

lemma read_loop_chunking:
  "chunking str (unat nxt) cs \<Longrightarrow> length str < 2 ^ 64 \<Longrightarrow> length str < unat nxt + unat n \<Longrightarrow>
     read_loop cs nxt n acc eof = ([], of_nat (length str), acc @ drop (unat nxt) str, True)"
proof (induction cs arbitrary: nxt n acc eof)
  case (Cons d cs)
  from chunking_frames [OF Cons.prems(1), of d] have fr: "frame_of str d" by simp
  then have dl: "unat (Offset d) + length (Data d) \<le> length str" by (simp add: frame_of_def)
  have nx: "Offset d = nxt" using Cons.prems(1) by (cases cs) (auto simp: word_unat_eq_iff)
  have dl64: "length (Data d) < 2 ^ 64" using dl Cons.prems(2) by simp
  let ?l = "of_nat (length (Data d)) :: u64"
  have ul: "unat ?l = length (Data d)" by (rule unat_of_nat_len [OF dl64])
  have n0: "n > 0" and full: "length (Data d) \<le> unat n"
    using Cons.prems(3) dl nx by (auto simp: word_less_nat_alt)
  have nn: "unat (nxt + ?l) = unat nxt + length (Data d)"
    using dl Cons.prems(2) nx ul by (subst unat_add_no_wrap) simp_all
  have sub: "unat (n - ?l) = unat n - length (Data d)"
    using full ul by (simp add: unat_sub word_le_nat_alt)
  have dat: "Data d @ drop (unat nxt + length (Data d)) str = drop (unat nxt) str"
    using frame_prefix [OF fr, of "length (Data d)"] nx
    by (metis add.commute append_take_drop_id drop_drop order_refl take_all)
  note step = read_loop_full [OF nx n0 full dl64, of cs acc eof]
  show ?case
  proof (cases cs)
    case Nil
    then have e: "Eof d" "unat nxt + length (Data d) = length str"
      using Cons.prems(1) fr nx by (auto simp: frame_of_def)
    then have "nxt + ?l = of_nat (length str)" using nn by (metis word_unat_eq_iff unat_of_nat_len Cons.prems(2))
    with e dat show ?thesis unfolding step by (simp add: Nil)
  next
    case cs: (Cons c cs')
    have "chunking str (unat (nxt + ?l)) cs" using Cons.prems(1) cs nn by simp
    from Cons.IH [OF this Cons.prems(2), of "n - ?l"] Cons.prems(3) nn sub full dat
    show ?thesis unfolding step by simp
  qed
qed simp


section \<open>Properties\<close>

text \<open>
  The queue's invariant: pushing a frame of the stream and reading keep the queue in order,
  without overlaps, at or behind the read position.
\<close>

theorem ordering_invariant:
  assumes "oq_ok str oq" and "frame_of str d"
  shows "(\<forall>oq'. Push d oq = Inr oq' \<longrightarrow> oq_ok str oq') \<and> oq_ok str (snd (ReadDirect n oq))"
  using oq_ok_Push [OF assms] oq_ok_ReadDirect(1) [OF assms(1)] by (metis prod.collapse)

theorem ordering_invariant_witness:
  "oq_ok [7, 8] (projr (Push \<lparr>Offset = 1, Data = [8], Eof = True\<rparr> NewOrderingQueue)) \<and>
    oq_ok [7, 8] (snd (ReadDirect 5 NewOrderingQueue))"
proof -
  have "Push \<lparr>Offset = 1, Data = [8], Eof = True\<rparr> NewOrderingQueue =
      Inr (projr (Push \<lparr>Offset = 1, Data = [8], Eof = True\<rparr> NewOrderingQueue))"
    by (simp add: Push_def NewOrderingQueue_def maybeNotify_def Notify_def Let_def)
  moreover have "oq_ok [7, 8] NewOrderingQueue" "frame_of [7, 8] \<lparr>Offset = 1, Data = [8], Eof = True\<rparr>"
    by (simp_all add: oq_ok_init frame_of_def)
  ultimately show ?thesis using ordering_invariant [of "[7, 8]" NewOrderingQueue _ 5] by blast
qed

text \<open>
  In-order, exactly-once delivery. In every run, whatever the order, the repetitions and the
  overlaps of the frames, the bytes the reader got are an initial piece of the sender's stream, of
  the length of the read position; if a read reported the end, they are the whole stream.
\<close>

theorem delivery_in_order:
  assumes "length str < 2 ^ 64" and "frames_of str ops"
    and "oq_run ops NewOrderingQueue = (outs, oq)"
  shows "concat (map fst outs) = take (unat (nextOffset oq)) str \<and>
    (list_ex snd outs \<longrightarrow> concat (map fst outs) = str)"
proof -
  from oq_run_ok [OF oq_ok_init [OF assms(1)] assms(2,3)]
  have "concat (map fst outs) = take (length (concat (map fst outs))) str"
    "unat (nextOffset oq) = length (concat (map fst outs))"
    "list_ex snd outs \<longrightarrow> unat (nextOffset oq) = length str"
    by (auto simp: NewOrderingQueue_def)
  then show ?thesis by (metis order_refl take_all)
qed

theorem delivery_in_order_witness:
  "let ops = [OpPush \<lparr>Offset = 1, Data = [8], Eof = True\<rparr>, OpRead 9,
              OpPush \<lparr>Offset = 0, Data = [7], Eof = False\<rparr>, OpRead 9];
       (outs, oq) = oq_run ops NewOrderingQueue in
    concat (map fst outs) = [7, 8] \<and> list_ex snd outs"
proof -
  let ?ops = "[OpPush \<lparr>Offset = 1, Data = [8], Eof = True\<rparr>, OpRead 9,
              OpPush \<lparr>Offset = 0, Data = [7], Eof = False\<rparr>, OpRead 9]"
  have run: "oq_run ?ops NewOrderingQueue = ([([], False), ([7, 8], True)],
      \<lparr>notify = True, queue = [], nextOffset = 2, eofReached = True\<rparr>)"
    by (simp add: NewOrderingQueue_def Push_def ReadDirect_def maybeNotify_def Notify_def data_end_def)
  have "frames_of [7, 8] ?ops" by (simp add: frames_of_def frame_of_def)
  from delivery_in_order [OF _ this run] show ?thesis unfolding Let_def run by simp
qed

text \<open>
  C29: the order of arrival does not matter. When a stream is cut into frames and every frame
  arrives, in any order and any number of times, no frame is refused and one read returns the whole
  stream and its end.
\<close>

theorem arrival_order_irrelevant:
  assumes "chunking str 0 cs" and "length str < 2 ^ 64" and "set ds = set cs" and "length str < unat n"
  shows "\<exists>oq. push_all ds NewOrderingQueue = Inr oq \<and> fst (ReadDirect n oq) = (str, True)"
proof -
  have "collected cs NewOrderingQueue" by (simp add: collected_def NewOrderingQueue_def)
  from push_all_collected [OF assms(1,2) this, of ds] assms(3) obtain oq where
    p: "push_all ds NewOrderingQueue = Inr oq" "collected cs oq" "set (queue oq) = set cs"
    by (auto simp: NewOrderingQueue_def)
  have q: "queue oq = cs"
    using sorted_before_unique [OF _ chunking_sorted [OF assms(1)] p(3)] p(2) by (simp add: collected_def)
  have "cs \<noteq> []" and "unat (Offset (hd cs)) = 0" using assms(1) by (cases cs; cases "tl cs"; auto)+
  moreover have "read_loop cs 0 n [] False = ([], of_nat (length str), str, True)"
    using read_loop_chunking [of str 0 cs n "[]" False] assms by simp
  ultimately have "fst (ReadDirect n oq) = (str, True)"
    using p(2) by (simp add: ReadDirect_def q collected_def unat_eq_zero)
  with p(1) show ?thesis by blast
qed

theorem arrival_order_irrelevant_witness:
  "\<exists>oq. push_all [\<lparr>Offset = 1, Data = [8], Eof = True\<rparr>, \<lparr>Offset = 1, Data = [8], Eof = True\<rparr>,
                  \<lparr>Offset = 0, Data = [7], Eof = False\<rparr>] NewOrderingQueue = Inr oq \<and>
        fst (ReadDirect 10 oq) = ([7, 8], True)"
  by (rule arrival_order_irrelevant [where cs = "[\<lparr>Offset = 0, Data = [7], Eof = False\<rparr>,
        \<lparr>Offset = 1, Data = [8], Eof = True\<rparr>]"])
    (auto simp: frame_of_def)

end
