(* ===== verification/Recv_Stream.thy ===== *)
theory Recv_Stream
  imports Ordering
begin

text \<open>
  The receiving end of a stream (\<open>src/trsf/recv_stream.go\<close>): the reordering queue, the flow-control
  window the receiver has opened so far, and the two queues it shares with the connection (streams
  whose window update has to be sent, streams to cancel).

  The shared queues hold pointers to streams; \<open>rs_self\<close> is the address of the stream object. The
  mutex makes every method one step; the blocking read is modelled by one pass of its loop, which
  either returns or asks to wait for a notification (\<open>ReadWait\<close>).
\<close>

type_synonym StreamID = u64

text \<open>The address of a stream object: what the shared queues hold.\<close>

type_synonym ref = nat

definition InitialFlowWindow :: u64 where
  "InitialFlowWindow = 16 * 1024 * 1024"

record recvStream =
  rs_self :: ref
  rs_id :: StreamID
  oq :: OrderingQueue
  cancelSent :: bool
  removalScheduled :: bool
  initialWindow :: u64
  recvWindow :: u64
  ackedWindow :: u64

datatype recv_error = PushFailed StreamID u64 push_error

definition newReceiveStream :: "ref \<Rightarrow> StreamID \<Rightarrow> u64 \<Rightarrow> recvStream" where
  "newReceiveStream p i w =
     \<lparr>rs_self = p, rs_id = i, oq = NewOrderingQueue, cancelSent = False, removalScheduled = False,
      initialWindow = w, recvWindow = w, ackedWindow = w\<rparr>"

definition markRemovalScheduled :: "recvStream \<Rightarrow> bool \<times> recvStream" where
  "markRemovalScheduled rc =
     (if removalScheduled rc then (False, rc) else (True, rc\<lparr>removalScheduled := True\<rparr>))"

definition HasRecvData :: "recvStream \<Rightarrow> bool" where
  "HasRecvData rc \<longleftrightarrow> HasData (oq rc)"

definition rs_EOF :: "recvStream \<Rightarrow> bool" where
  "rs_EOF rc \<longleftrightarrow> EOF (oq rc)"

definition ProcessChunk :: "u64 \<Rightarrow> bytes \<Rightarrow> bool \<Rightarrow> recvStream \<Rightarrow> (recv_error, bool \<times> recvStream) result" where
  "ProcessChunk offset data eof rc =
     (if EOF (oq rc) then Inr (False, rc)
      else case Push \<lparr>Offset = offset, Data = data, Eof = eof\<rparr> (oq rc) of
          Inl e \<Rightarrow> Inl (PushFailed (rs_id rc) offset e)
        | Inr q \<Rightarrow> Inr (True, rc\<lparr>oq := q\<rparr>))"

definition rs_Window :: "recvStream \<Rightarrow> u64" where
  "rs_Window r = recvWindow r"

definition onWindowAck :: "u64 \<Rightarrow> recvStream \<Rightarrow> recvStream" where
  "onWindowAck sz r = r\<lparr>ackedWindow := sz\<rparr>"

definition rs_Cancel :: "recvStream \<times> ref withTriggerQueue \<Rightarrow> recvStream \<times> ref withTriggerQueue" where
  "rs_Cancel = (\<lambda>(r, cancelStream).
     if cancelSent r then (r, cancelStream)
     else (r\<lparr>cancelSent := True, oq := Notify (oq r)\<rparr>, tq_Push (rs_self r) cancelStream))"

text \<open>The window bookkeeping that follows a read of \<open>n\<close> bytes, \<open>n > 0\<close>.\<close>

definition grow_window :: "nat \<Rightarrow> recvStream \<times> ref withTriggerQueue \<Rightarrow> recvStream \<times> ref withTriggerQueue" where
  "grow_window n = (\<lambda>(r, updateWindow).
     let r = r\<lparr>recvWindow := recvWindow r + of_nat n\<rparr> in
     (r, if recvWindow r - ackedWindow r \<ge> initialWindow r div 2
         then tq_Push (rs_self r) updateWindow else updateWindow))"

datatype 'a read_outcome = ReadOk 'a | ReadCanceled | ReadWait

definition ReadDirectContext ::
  "u64 \<Rightarrow> recvStream \<times> ref withTriggerQueue \<Rightarrow>
     (bytes \<times> bool) read_outcome \<times> recvStream \<times> ref withTriggerQueue" where
  "ReadDirectContext maxN = (\<lambda>(r, updateWindow).
     let ((data, eof), q) = ReadDirect maxN (oq r);
         (r, updateWindow) = (if data \<noteq> [] then grow_window (length data) (r\<lparr>oq := q\<rparr>, updateWindow)
                              else (r\<lparr>oq := q\<rparr>, updateWindow)) in
     if data = [] \<and> \<not> eof
     then ((if cancelSent r then ReadCanceled else ReadWait), r, updateWindow)
     else (ReadOk (data, eof), r, updateWindow))"

text \<open>\<open>ReadContext\<close> into a buffer of \<open>k\<close> bytes; \<open>ReadOk None\<close> is \<open>io.EOF\<close>.\<close>

definition ReadContext ::
  "nat \<Rightarrow> recvStream \<times> ref withTriggerQueue \<Rightarrow>
     bytes option read_outcome \<times> recvStream \<times> ref withTriggerQueue" where
  "ReadContext k = (\<lambda>(r, updateWindow).
     let (res, q) = oq_Read k (oq r);
         n = (case res of None \<Rightarrow> 0 | Some data \<Rightarrow> length data);
         (r, updateWindow) = (if n > 0 then grow_window n (r\<lparr>oq := q\<rparr>, updateWindow)
                              else (r\<lparr>oq := q\<rparr>, updateWindow)) in
     if n = 0 \<and> res \<noteq> None
     then ((if cancelSent r then ReadCanceled else ReadWait), r, updateWindow)
     else (ReadOk res, r, updateWindow))"

section \<open>The receive window\<close>

text \<open>
  The window the receiver has granted is the initial window plus what the reader has taken. The
  equation is one of 64-bit words, so it needs no bound.
\<close>

definition window_ok :: "recvStream \<Rightarrow> bool" where
  "window_ok r \<longleftrightarrow> recvWindow r = initialWindow r + nextOffset (oq r)"

lemma window_ok_new: "window_ok (newReceiveStream p i w)"
  by (simp add: window_ok_def newReceiveStream_def NewOrderingQueue_def)

lemma nextOffset_Push: "Push d q = Inr q' \<Longrightarrow> nextOffset q' = nextOffset q"
  by (auto simp: Push_def maybeNotify_def Notify_def split: if_splits push_step.splits)

lemma window_ok_ProcessChunk:
  "window_ok rc \<Longrightarrow> ProcessChunk offset data eof rc = Inr (b, rc') \<Longrightarrow> window_ok rc'"
  by (auto simp: ProcessChunk_def window_ok_def nextOffset_Push split: if_splits sum.splits)

lemma read_loop_offset:
  "read_loop q nxt n acc eof = (q', nxt', acc', eof') \<Longrightarrow> (\<forall>d \<in> set q. length (Data d) < 2 ^ 64) \<Longrightarrow>
     length acc \<le> length acc' \<and> nxt' = nxt + of_nat (length acc' - length acc)"
proof (induction q arbitrary: nxt n acc eof)
  case (Cons d q)
  let ?len = "of_nat (length (Data d)) :: u64"
  have len: "unat ?len = length (Data d)" using Cons.prems(2) by (simp add: unat_of_nat_len)
  show ?case
  proof (cases "Offset d = nxt \<and> n > 0")
    case False
    with Cons.prems show ?thesis by auto
  next
    case True
    then have t: "Offset d = nxt" "n > 0" by auto
    have l64: "length (Data d) < 2 ^ 64" using Cons.prems(2) by simp
    show ?thesis
    proof (cases "unat n < length (Data d)")
      case part: True
      show ?thesis
        using Cons.prems(1) part unfolding read_loop_part [OF t part l64] by auto
    next
      case False
      then have full: "length (Data d) \<le> unat n" by simp
      have rec: "read_loop q (nxt + ?len) (n - ?len) (acc @ Data d) (Eof d) = (q', nxt', acc', eof')"
        using Cons.prems(1) unfolding read_loop_full [OF t full l64] .
      have "length (acc @ Data d) \<le> length acc' \<and>
          nxt' = nxt + ?len + of_nat (length acc' - length (acc @ Data d))"
        using Cons.IH [OF rec] Cons.prems(2) by simp
      moreover from this have "length acc' - length acc = length (Data d) + (length acc' - length (acc @ Data d))"
        by simp
      ultimately show ?thesis by (simp add: add.assoc)
    qed
  qed
qed auto

text \<open>A slice of Go is never longer than the largest \<open>int\<close>; the queue's frames are such slices.\<close>

definition slices_ok :: "OrderingQueue \<Rightarrow> bool" where
  "slices_ok q \<longleftrightarrow> (\<forall>d \<in> set (queue q). length (Data d) < 2 ^ 63)"

lemma nextOffset_ReadDirect:
  assumes "ReadDirect n q = ((bs, eof), q')" and "slices_ok q"
  shows "nextOffset q' = nextOffset q + of_nat (length bs)"
proof -
  have "\<forall>d \<in> set (queue q). length (Data d) < 2 ^ 64" using assms(2) by (auto simp: slices_ok_def)
  with assms(1) read_loop_offset [of "queue q" "nextOffset q" n "[]" False] show ?thesis
    by (auto simp: ReadDirect_def Let_def split: if_splits prod.splits)
qed

lemma window_ok_ReadDirectContext:
  assumes "window_ok r" and "slices_ok (oq r)"
  shows "window_ok (fst (snd (ReadDirectContext maxN (r, uw))))"
proof -
  obtain bs eof q where rd: "ReadDirect maxN (oq r) = ((bs, eof), q)" by (metis prod.collapse)
  from nextOffset_ReadDirect [OF rd assms(2)] assms(1) show ?thesis
    by (simp add: ReadDirectContext_def rd grow_window_def window_ok_def Let_def add.assoc split: prod.splits)
qed

lemma window_ok_ReadContext:
  assumes "window_ok r" and "slices_ok (oq r)"
  shows "window_ok (fst (snd (ReadContext k (r, uw))))"
proof -
  obtain bs eof q where rd: "ReadDirect (of_nat k) (oq r) = ((bs, eof), q)" by (metis prod.collapse)
  from nextOffset_ReadDirect [OF rd assms(2)] assms(1) show ?thesis
    by (auto simp: ReadContext_def oq_Read_def rd grow_window_def window_ok_def Let_def add.assoc
        split: prod.splits)
qed

section \<open>Properties\<close>

text \<open>
  Receive-side flow control: the granted window is always the initial window plus the bytes the
  reader has consumed, through every operation of the stream.
\<close>

theorem recv_window_invariant:
  assumes "window_ok r" and "slices_ok (oq r)"
  shows "window_ok (fst (snd (ReadDirectContext maxN (r, uw)))) \<and>
    window_ok (fst (snd (ReadContext k (r, uw)))) \<and>
    (\<forall>off data eof b r'. ProcessChunk off data eof r = Inr (b, r') \<longrightarrow> window_ok r') \<and>
    window_ok (onWindowAck s r) \<and> window_ok (fst (rs_Cancel (r, cs))) \<and>
    window_ok (snd (markRemovalScheduled r)) \<and> window_ok (newReceiveStream p i w)"
  using assms window_ok_ReadDirectContext window_ok_ReadContext window_ok_ProcessChunk window_ok_new
  by (auto simp: onWindowAck_def rs_Cancel_def markRemovalScheduled_def window_ok_def Notify_def)

theorem recv_window_invariant_witness:
  "let r = newReceiveStream 0 3 InitialFlowWindow; q = newWithTriggerQueue in
    window_ok (fst (snd (ReadDirectContext 9 (r, q)))) \<and>
    window_ok (fst (snd (ReadContext 9 (r, q)))) \<and>
    (\<exists>b r'. ProcessChunk 0 [] False r = Inr (b, r') \<and> window_ok r') \<and>
    window_ok (onWindowAck 5 r) \<and> window_ok (fst (rs_Cancel (r, q))) \<and>
    window_ok (snd (markRemovalScheduled r)) \<and> window_ok (newReceiveStream 0 3 7)"
proof -
  let ?r = "newReceiveStream 0 3 InitialFlowWindow"
  have p: "\<exists>b r'. ProcessChunk 0 [] False ?r = Inr (b, r')"
    by (simp add: ProcessChunk_def Push_def EOF_def newReceiveStream_def NewOrderingQueue_def maybeNotify_def Let_def) blast
  have "window_ok ?r" "slices_ok (oq ?r)"
    by (simp_all add: window_ok_def newReceiveStream_def slices_ok_def NewOrderingQueue_def)
  from recv_window_invariant [OF this, of 9 newWithTriggerQueue 9 5 newWithTriggerQueue 0 3 7] p
  show ?thesis unfolding Let_def by blast
qed

text \<open>
  When the reader has consumed half of the initial window beyond what the peer has confirmed, the
  stream is on the connection's window-update queue after the read; and the read returns exactly what
  the reordering queue gave.
\<close>

theorem window_update_queued:
  assumes "ReadDirect maxN (oq r) = ((data, eof), q)" and "data \<noteq> []" and "tq_ok uw"
    and "initialWindow r div 2 \<le> recvWindow r + of_nat (length data) - ackedWindow r"
  shows "\<exists>r' uw'. ReadDirectContext maxN (r, uw) = (ReadOk (data, eof), r', uw') \<and>
    oq r' = q \<and> rs_self r \<in> set (tq_queue uw')"
  using assms
  by (auto simp: ReadDirectContext_def grow_window_def tq_Push_def PushBecause_def Notify_def tq_ok_def
      Let_def)

theorem window_update_queued_witness:
  "\<exists>r' uw'. ReadDirectContext 9
      ((newReceiveStream 0 3 2)\<lparr>oq := \<lparr>notify = True, queue = [\<lparr>Offset = 0, Data = [7, 8], Eof = False\<rparr>],
          nextOffset = 0, eofReached = False\<rparr>\<rparr>, newWithTriggerQueue) = (ReadOk ([7, 8], False), r', uw') \<and>
    oq r' = \<lparr>notify = True, queue = [], nextOffset = 2, eofReached = False\<rparr> \<and>
    rs_self ((newReceiveStream 0 3 2)\<lparr>oq := \<lparr>notify = True, queue = [\<lparr>Offset = 0, Data = [7, 8], Eof = False\<rparr>],
          nextOffset = 0, eofReached = False\<rparr>\<rparr>) \<in> set (tq_queue uw')"
  by (rule window_update_queued)
    (simp_all add: ReadDirect_def tq_ok_def newReceiveStream_def newWithTriggerQueue_def)

end
