(* ===== verification/Send_Stream.thy ===== *)
theory Send_Stream
  imports Flow Recv_Stream Wire_Stream
begin

text \<open>
  The sending end of a stream (\<open>src/trsf/send_stream.go\<close>): the input buffer, the ranges in flight, the
  retransmission queue, and \<open>triggerPacket\<close>, which picks what goes into the next packet.

  \<^item> A \<open>*SentRange\<close> is matched by pointer identity in the source. It never changes after it has been
    built, so it is a value here, with a serial number \<open>sr_ref\<close> that is new for every allocation;
    \<open>ss_nextRef\<close> is the next one.
  \<^item> The closures \<open>OnACK\<close> and \<open>OnLost\<close> of a range are the functions \<open>onACK\<close> and \<open>onLost\<close> applied
    to the range.
  \<^item> The trigger queue shared with the connection is a second component of the state.
  \<^item> Blocking in \<open>AppendDataContext\<close> is the outcome \<open>AppendWait\<close>; the contexts and the write fence,
    which only orders writers, are not modelled.
\<close>

record SentRange =
  sr_ref :: nat
  sr_ID :: StreamID
  sr_Offset :: u64
  sr_Data :: bytes
  sr_SentSize :: int
  sr_Eof :: bool

record sendStream =
  ss_self :: ref
  inputBuffer :: "bytes list"
  dataInBuffer :: u64
  bufferLimit :: u64
  offset :: u64
  signalEOF :: bool
  cancelRequested :: bool
  eofSent :: bool
  pendingOpen :: bool
  sentRanges :: "SentRange list"
  flow :: flowController
  ss_id :: StreamID
  retransmitQueue :: "SentRange withTriggerQueue"
  writerSignal :: bool
  ss_nextRef :: nat

type_synonym send_state = "sendStream \<times> ref withTriggerQueue"

definition newSendStream :: "ref \<Rightarrow> StreamID \<Rightarrow> flowController \<Rightarrow> sendStream" where
  "newSendStream p i f =
     \<lparr>ss_self = p, inputBuffer = [], dataInBuffer = 0, bufferLimit = 1024 * 1024, offset = 0, signalEOF = False,
      cancelRequested = False, eofSent = False, pendingOpen = False, sentRanges = [], flow = f,
      ss_id = i, retransmitQueue = newWithTriggerQueue, writerSignal = False, ss_nextRef = 0\<rparr>"

definition updateFlowWindow :: "int \<Rightarrow> send_state \<Rightarrow> send_state" where
  "updateFlowWindow n = (\<lambda>(r, t).
     let (updated, f) = fc_UpdateWindow n (flow r); r = r\<lparr>flow := f\<rparr> in
     if updated then (r, PushBecause (ss_self r) pushOther t) else (r, t))"

definition onCancel :: "send_state \<Rightarrow> send_state" where
  "onCancel = (\<lambda>(r, t). (r\<lparr>cancelRequested := True\<rparr>, PushBecause (ss_self r) pushOther t))"

definition signalWriter :: "sendStream \<Rightarrow> sendStream" where
  "signalWriter r = r\<lparr>writerSignal := True\<rparr>"

definition ss_Close :: "send_state \<Rightarrow> send_state" where
  "ss_Close = (\<lambda>(r, t).
     (signalWriter (r\<lparr>signalEOF := True\<rparr>), PushBecause (ss_self r) pushApp t))"

definition HasSendData :: "sendStream \<Rightarrow> bool" where
  "HasSendData r \<longleftrightarrow> length (inputBuffer r) > 0"

definition Completed :: "sendStream \<Rightarrow> bool" where
  "Completed r \<longleftrightarrow> eofSent r \<and> sentRanges r = []"

datatype append_outcome = AppendOk | AppendClosed | AppendWait

text \<open>One pass of the loop of \<open>AppendDataContext\<close>.\<close>

definition AppendDataContext :: "bool \<Rightarrow> bytes list \<Rightarrow> send_state \<Rightarrow> append_outcome \<times> send_state" where
  "AppendDataContext eof data = (\<lambda>(r, t).
     if signalEOF r \<or> cancelRequested r then (AppendClosed, r, t)
     else if dataInBuffer r - offset r \<ge> bufferLimit r then (AppendWait, r, t)
     else
       let changed = (length data > 0 \<or> eof);
           r = (if length data > 0
                then r\<lparr>inputBuffer := inputBuffer r @ data,
                       dataInBuffer := fold (\<lambda>d n. n + of_nat (length d)) data (dataInBuffer r)\<rparr>
                else r);
           r = (if eof then r\<lparr>signalEOF := True\<rparr> else r) in
       (AppendOk, r, if changed then PushBecause (ss_self r) pushApp t else t))"

definition WriteContext :: "bytes \<Rightarrow> send_state \<Rightarrow> append_outcome \<times> send_state" where
  "WriteContext data = (\<lambda>(r, t).
     if signalEOF r \<or> cancelRequested r then (AppendClosed, r, t)
     else AppendDataContext False [data] (r, t))"

text \<open>The loop of \<open>readChunk\<close>: chunks left, bytes gathered, and whether the buffer was emptied.\<close>

fun read_chunk_loop :: "int \<Rightarrow> bytes list \<Rightarrow> bytes \<Rightarrow> bytes \<times> bytes list \<times> bool" where
  "read_chunk_loop maxSize [] buffer = (buffer, [], True)"
| "read_chunk_loop maxSize (chunk # rest) buffer =
     (if int (length buffer) + int (length chunk) > maxSize then
        let k = nat (maxSize - int (length buffer)) in
        (buffer @ take k chunk, drop k chunk # rest, False)
      else read_chunk_loop maxSize rest (buffer @ chunk))"

definition readChunk :: "int \<Rightarrow> sendStream \<Rightarrow> (bytes \<times> bool) \<times> sendStream" where
  "readChunk maxSize r =
     (if cancelRequested r \<and> \<not> eofSent r then (([], True), r)
      else
        let (buffer, rest, all) = read_chunk_loop maxSize (inputBuffer r) [] in
        ((buffer, all \<and> signalEOF r), r\<lparr>inputBuffer := rest\<rparr>))"

definition fixedOverhead :: int where
  "fixedOverhead = 6 + 8 + 16"

definition payloadOverhead :: int where
  "payloadOverhead = 2 + 1 + 1"

definition StreamPacketHeaderSize :: "StreamID \<Rightarrow> u64 \<Rightarrow> int \<Rightarrow> int" where
  "StreamPacketHeaderSize i off dataLen =
     payloadOverhead + (if i \<noteq> 0 then uint (VarintLen i) else 0)
       + (if off \<noteq> 0 then uint (VarintLen off) else 0)
       + (if dataLen \<noteq> 0 then uint (VarintLen (word_of_int dataLen)) else 0)"

text \<open>\<open>replaceSentRange\<close>: in place of the first match, or at the end when there is none.\<close>

fun replaceSentRange :: "SentRange \<Rightarrow> SentRange list \<Rightarrow> SentRange list \<Rightarrow> SentRange list" where
  "replaceSentRange src new [] = new"
| "replaceSentRange src new (sr # rest) =
     (if sr = src then new @ rest else sr # replaceSentRange src new rest)"

definition splitSentRange :: "SentRange \<Rightarrow> int \<Rightarrow> sendStream \<Rightarrow> (SentRange \<times> SentRange) \<times> sendStream" where
  "splitSentRange src maxPayload r =
     (let n = maxPayload - StreamPacketHeaderSize (sr_ID src) (sr_Offset src) (int (length (sr_Data src)));
          n = (if n > int (length (sr_Data src)) then int (length (sr_Data src)) else n);
          front = \<lparr>sr_ref = ss_nextRef r, sr_ID = sr_ID src, sr_Offset = sr_Offset src,
                   sr_Data = take (nat n) (sr_Data src), sr_SentSize = n, sr_Eof = False\<rparr>;
          tail = \<lparr>sr_ref = ss_nextRef r + 1, sr_ID = sr_ID src, sr_Offset = sr_Offset src + word_of_int n,
                  sr_Data = drop (nat n) (sr_Data src), sr_SentSize = int (length (sr_Data src)) - n,
                  sr_Eof = sr_Eof src\<rparr> in
      ((front, tail),
       r\<lparr>sentRanges := replaceSentRange src [front, tail] (sentRanges r), ss_nextRef := ss_nextRef r + 2\<rparr>))"

definition requeueIfMore :: "send_state \<Rightarrow> send_state" where
  "requeueIfMore = (\<lambda>(r, t).
     if SendableSize (flow r) > 0 \<and> length (inputBuffer r) > 0 \<or> (\<not> eofSent r \<and> signalEOF r)
     then (r, PushBecause (ss_self r) pushSelf t) else (r, t))"

text \<open>
  The part of \<open>triggerPacket\<close> that cuts new data out of the input buffer, in three pieces: what
  flow control and the buffer allow, the bookkeeping for the new range, and the decision.
\<close>

definition next_chunk :: "int \<Rightarrow> sendStream \<Rightarrow> (bytes \<times> bool) \<times> sendStream" where
  "next_chunk maxPayload r =
     (let sendable = SendableSize (flow r) in
      if sendable > 0 then readChunk (min maxPayload sendable) r else (([], False), r))"

definition emit_range :: "bytes \<Rightarrow> bool \<Rightarrow> send_state \<Rightarrow> SentRange \<times> send_state" where
  "emit_range data eof = (\<lambda>(r, t).
     let sentRange = \<lparr>sr_ref = ss_nextRef r, sr_ID = ss_id r, sr_Offset = offset r, sr_Data = data,
                      sr_SentSize = int (length data), sr_Eof = eof\<rparr>;
         r = r\<lparr>ss_nextRef := ss_nextRef r + 1, offset := offset r + of_nat (length data),
               sentRanges := sentRanges r @ [sentRange]\<rparr>;
         r = (if eof then r\<lparr>eofSent := True\<rparr> else r);
         r = r\<lparr>flow := RecordSend (sr_SentSize sentRange) (flow r)\<rparr>;
         (r, t) = requeueIfMore (r, t) in
     (sentRange, signalWriter r, t))"

definition trigger_new :: "int \<Rightarrow> send_state \<Rightarrow> SentRange option \<times> send_state" where
  "trigger_new maxPayload = (\<lambda>(r, t).
     if eofSent r then (None, r, t)
     else
       let headerSize = StreamPacketHeaderSize (ss_id r) (offset r) maxPayload in
       if maxPayload \<le> headerSize then (None, r, t)
       else
         let ((data, eof), r) = next_chunk (maxPayload - headerSize) r in
         if data = [] \<and> \<not> eof \<and> \<not> pendingOpen r then (None, r, t)
         else
           let r = (if data = [] \<and> \<not> eof then r\<lparr>pendingOpen := False\<rparr> else r);
               (sentRange, st) = emit_range data eof (r, t) in
           (Some sentRange, st))"

definition triggerPacket :: "int \<Rightarrow> send_state \<Rightarrow> SentRange option \<times> send_state" where
  "triggerPacket maxPayload = (\<lambda>(r, t).
     let (popped, q) = Pop (retransmitQueue r); r = r\<lparr>retransmitQueue := q\<rparr> in
     case popped of
       None \<Rightarrow> trigger_new maxPayload (r, t)
     | Some p \<Rightarrow>
         let headerSize = StreamPacketHeaderSize (sr_ID p) (sr_Offset p) (int (length (sr_Data p))) in
         if headerSize + int (length (sr_Data p)) \<le> maxPayload
         then (Some p, requeueIfMore (r, t))
         else if sr_Data p = [] \<or> maxPayload \<le> headerSize + 1
         then trigger_new maxPayload (r\<lparr>retransmitQueue := tq_Push p (retransmitQueue r)\<rparr>, t)
         else
           let ((front, tail), r) = splitSentRange p maxPayload r;
               r = r\<lparr>retransmitQueue := tq_Push tail (retransmitQueue r)\<rparr> in
           (Some front, requeueIfMore (r, t)))"

definition onACK :: "SentRange \<Rightarrow> send_state \<Rightarrow> send_state" where
  "onACK pkt = (\<lambda>(r, t).
     (case sentRanges r of
        sr # rest \<Rightarrow>
          if sr = pkt then (r\<lparr>sentRanges := rest\<rparr>, PushBecause (ss_self r) pushACK t)
          else (r\<lparr>sentRanges := filter (\<lambda>sr. sr \<noteq> pkt) (sentRanges r)\<rparr>, PushBecause (ss_self r) pushACK t)
      | [] \<Rightarrow> (r\<lparr>sentRanges := filter (\<lambda>sr. sr \<noteq> pkt) (sentRanges r)\<rparr>, PushBecause (ss_self r) pushACK t)))"

text \<open>The \<open>OnLost\<close> closure of a range, as built by \<open>triggerPacket\<close> and by \<open>splitSentRange\<close>.\<close>

definition onLost :: "SentRange \<Rightarrow> send_state \<Rightarrow> send_state" where
  "onLost sr = (\<lambda>(r, t).
     (r\<lparr>retransmitQueue := tq_Push sr (retransmitQueue r)\<rparr>, PushBecause (ss_self r) pushLoss t))"


section \<open>Every range is a piece of what was written\<close>

text \<open>
  \<open>W\<close> is everything the application has written so far. A range is good when it carries bytes of
  \<open>W\<close> from below the send offset, and the end mark only on the range that ends there.
\<close>

definition range_ok :: "bytes \<Rightarrow> sendStream \<Rightarrow> SentRange \<Rightarrow> bool" where
  "range_ok W r sr \<longleftrightarrow>
     sr_ID sr = ss_id r \<and> unat (sr_Offset sr) + length (sr_Data sr) \<le> unat (offset r) \<and>
     sr_Data sr = take (length (sr_Data sr)) (drop (unat (sr_Offset sr)) W) \<and>
     (sr_Eof sr \<longrightarrow> eofSent r \<and> unat (sr_Offset sr) + length (sr_Data sr) = unat (offset r))"

definition send_inv :: "bytes \<Rightarrow> sendStream \<Rightarrow> bool" where
  "send_inv W r \<longleftrightarrow>
     length W < 2 ^ 63 \<and> unat (offset r) \<le> length W \<and>
     concat (inputBuffer r) = drop (unat (offset r)) W \<and>
     (\<forall>sr \<in> set (sentRanges r) \<union> set (tq_queue (retransmitQueue r)). range_ok W r sr) \<and>
     tq_ok (retransmitQueue r) \<and>
     SentSize (flow r) = int (unat (offset r)) \<and> 0 \<le> SendableSize (flow r)"

text \<open>What keeps a range good: more bytes written, and no progress once the end has been sent.\<close>

lemma range_ok_mono:
  assumes "range_ok W r sr" and "unat (offset r) \<le> length W" and "ss_id r' = ss_id r"
    and "unat (offset r) \<le> unat (offset r')" and "eofSent r \<longrightarrow> eofSent r' \<and> offset r' = offset r"
  shows "range_ok (W @ V) r' sr"
  using assms by (auto simp: range_ok_def)

lemma range_ok_cong:
  "ss_id r' = ss_id r \<Longrightarrow> offset r' = offset r \<Longrightarrow> eofSent r' = eofSent r \<Longrightarrow>
     range_ok W r' sr = range_ok W r sr"
  by (simp add: range_ok_def)

lemma read_chunk_loop_props:
  "read_chunk_loop m cs buf = (buf', cs', all) \<Longrightarrow> int (length buf) \<le> m \<Longrightarrow>
     buf' @ concat cs' = buf @ concat cs \<and> int (length buf') \<le> m \<and> (all \<longrightarrow> cs' = [])"
proof (induction m cs buf rule: read_chunk_loop.induct)
  case (2 m chunk rest buf)
  show ?case
  proof (cases "int (length buf) + int (length chunk) > m")
    case True
    with 2 show ?thesis by (auto simp: Let_def min_def)
  next
    case False
    with 2 show ?thesis by simp
  qed
qed simp

lemma readChunk_props:
  assumes "readChunk m r = ((data, eof), r')" and "0 \<le> m"
  shows "data @ concat (inputBuffer r') = concat (inputBuffer r)" and "int (length data) \<le> m"
    and "r' = r\<lparr>inputBuffer := inputBuffer r'\<rparr>"
    and "eof \<longrightarrow> inputBuffer r' = [] \<and> signalEOF r \<or> cancelRequested r \<and> data = []"
  using assms read_chunk_loop_props [of m "inputBuffer r" "[]"]
  by (auto simp: readChunk_def Let_def split: if_splits prod.splits)

lemma requeueIfMore_fst [simp]: "fst (requeueIfMore (r, t)) = r"
  by (simp add: requeueIfMore_def)

lemma requeueIfMore_eq: "requeueIfMore (r, t) = (r', t') \<Longrightarrow> r' = r"
  by (auto simp: requeueIfMore_def split: if_splits)

lemma tq_Push_simps:
  "tq_ok q \<Longrightarrow> tq_ok (tq_Push x q)"
  "tq_ok q \<Longrightarrow> set (tq_queue (tq_Push x q)) = insert x (set (tq_queue q))"
  unfolding tq_Push_def by (simp_all add: send_queue.ok_push send_queue.items_push insert_absorb)

lemma Pop_simps:
  assumes "tq_ok q" and "Pop q = (x, q')"
  shows "tq_ok q'" and "set (tq_queue q') \<subseteq> set (tq_queue q)" and "x = Some y \<Longrightarrow> y \<in> set (tq_queue q)"
proof -
  have "tq_ok q' \<and> set (tq_queue q') \<subseteq> set (tq_queue q) \<and> (x = Some y \<longrightarrow> y \<in> set (tq_queue q))"
  proof (cases "tq_queue q")
    case Nil
    with assms show ?thesis by (simp add: Pop_def)
  next
    case (Cons z zs)
    with assms(2) have x: "x = Some z" "tq_queue q' = zs" "tq_set q' = tq_set q - {z}"
      by (auto simp: Pop_def Let_def Notify_def split: if_splits)
    with assms(1) Cons show ?thesis by (auto simp: tq_ok_def)
  qed
  then show "tq_ok q'" and "set (tq_queue q') \<subseteq> set (tq_queue q)" and "x = Some y \<Longrightarrow> y \<in> set (tq_queue q)"
    by blast+
qed

lemma next_chunk_props:
  assumes "next_chunk m r = ((data, eof), r')" and "0 \<le> m" and "0 \<le> SendableSize (flow r)"
  shows "data @ concat (inputBuffer r') = concat (inputBuffer r)" and "int (length data) \<le> m"
    and "int (length data) \<le> SendableSize (flow r)" and "r' = r\<lparr>inputBuffer := inputBuffer r'\<rparr>"
proof -
  have "data @ concat (inputBuffer r') = concat (inputBuffer r) \<and> int (length data) \<le> m \<and>
    int (length data) \<le> SendableSize (flow r) \<and> r' = r\<lparr>inputBuffer := inputBuffer r'\<rparr>"
  proof (cases "SendableSize (flow r) > 0")
    case True
    with assms(1) have "readChunk (min m (SendableSize (flow r))) r = ((data, eof), r')"
      by (simp add: next_chunk_def)
    from readChunk_props [OF this] True assms(2) show ?thesis by simp
  next
    case False
    with assms show ?thesis by (auto simp: next_chunk_def)
  qed
  then show "data @ concat (inputBuffer r') = concat (inputBuffer r)" and "int (length data) \<le> m"
    and "int (length data) \<le> SendableSize (flow r)" and "r' = r\<lparr>inputBuffer := inputBuffer r'\<rparr>"
    by blast+
qed

text \<open>The bookkeeping for new data, when the data are the next bytes of what was written.\<close>

lemma emit_range_inv:
  assumes inv: "send_inv W (r\<lparr>inputBuffer := b\<rparr>)" and data: "data @ concat (inputBuffer r) = concat b"
    and size: "int (length data) \<le> SendableSize (flow r)" and ne: "\<not> eofSent r"
    and emit: "emit_range data eof (r, t) = (sr, r', t')"
  shows "send_inv W r'" and "range_ok W r' sr"
    and "ss_id r' = ss_id r" and "unat (offset r') = unat (offset r) + length data"
    and "sr_Data sr = data" and "sr_Offset sr = offset r" and "sr_Eof sr = eof"
proof -
  from inv have W: "length W < 2 ^ 63" "unat (offset r) \<le> length W" "concat b = drop (unat (offset r)) W"
    by (simp_all add: send_inv_def)
  have len: "unat (offset r) + length data \<le> length W"
    using data W by (metis add_le_cancel_left le_add_diff_inverse length_append length_drop le_add1)
  then have off: "unat (offset r + of_nat (length data)) = unat (offset r) + length data"
    using W(1) by (subst unat_add_no_wrap) (simp_all add: unat_of_nat_len)
  have r': "ss_id r' = ss_id r" "offset r' = offset r + of_nat (length data)" "eofSent r' = eof"
      "inputBuffer r' = inputBuffer r" "sentRanges r' = sentRanges r @ [sr]"
      "retransmitQueue r' = retransmitQueue r" "flow r' = RecordSend (int (length data)) (flow r)"
    and sr: "sr_ID sr = ss_id r" "sr_Offset sr = offset r" "sr_Data sr = data" "sr_Eof sr = eof"
    using emit ne
    by (auto simp: emit_range_def requeueIfMore_def signalWriter_def Let_def split: if_splits)
  have rest: "concat (inputBuffer r) = drop (unat (offset r) + length data) W"
    using data W(3) by (metis add.commute append_eq_conv_conj drop_drop)
  have dat: "data = take (length data) (drop (unat (offset r)) W)"
    using data W(3) by (metis append_eq_conv_conj)
  show ok: "range_ok W r' sr" using r' sr off dat by (simp add: range_ok_def)
  have "range_ok W r' x" if "x \<in> set (sentRanges r) \<union> set (tq_queue (retransmitQueue r))" for x
  proof -
    have "range_ok W (r\<lparr>inputBuffer := b\<rparr>) x" using inv that by (simp add: send_inv_def)
    then have "range_ok (W @ []) r' x"
      by (rule range_ok_mono) (use W r' off ne in simp_all)
    then show ?thesis by simp
  qed
  moreover have "SentSize (flow r') = int (unat (offset r'))" "0 \<le> SendableSize (flow r')"
    using inv size off unfolding r'(2,7)
    by (simp_all add: send_inv_def RecordSend_def SendableSize_def)
  ultimately show "send_inv W r'"
    using inv ok W(1) len rest off unfolding send_inv_def r'(2) r'(4-6)
    by auto
  show "ss_id r' = ss_id r" and "unat (offset r') = unat (offset r) + length data"
    and "sr_Data sr = data" and "sr_Offset sr = offset r" and "sr_Eof sr = eof"
    using r' sr off by simp_all
qed

lemma send_inv_chunk:
  assumes "send_inv W r" and "concat b = concat (inputBuffer r)"
  shows "send_inv W (r\<lparr>inputBuffer := b\<rparr>)"
  using assms by (auto simp: send_inv_def range_ok_def)


abbreviation progress :: "sendStream \<Rightarrow> sendStream \<Rightarrow> bool" where
  "progress r r' \<equiv> ss_id r' = ss_id r \<and> unat (offset r) \<le> unat (offset r') \<and>
     (eofSent r \<longrightarrow> eofSent r' \<and> offset r' = offset r)"

text \<open>Changes that touch neither the position nor the buffer.\<close>

lemma send_inv_ranges:
  assumes "send_inv W r" and "ss_id r' = ss_id r" "offset r' = offset r" "eofSent r' = eofSent r"
    "inputBuffer r' = inputBuffer r" "flow r' = flow r"
    and "tq_ok (retransmitQueue r')"
    and "\<forall>sr \<in> set (sentRanges r') \<union> set (tq_queue (retransmitQueue r')). range_ok W r sr"
  shows "send_inv W r'"
  using assms by (simp add: send_inv_def range_ok_cong [of r' r])

lemma trigger_new_inv:
  assumes inv: "send_inv W r" and trig: "trigger_new mp (r, t) = (res, r', t')"
  shows "send_inv W r' \<and> progress r r' \<and> (\<forall>sr. res = Some sr \<longrightarrow> range_ok W r' sr)"
proof (cases "eofSent r \<or> mp \<le> StreamPacketHeaderSize (ss_id r) (offset r) mp")
  case True
  with inv trig show ?thesis by (auto simp: trigger_new_def Let_def split: if_splits)
next
  case False
  let ?m = "mp - StreamPacketHeaderSize (ss_id r) (offset r) mp"
  obtain data eof r1 where ch: "next_chunk ?m r = ((data, eof), r1)" by (metis prod.collapse)
  have "0 \<le> ?m" "0 \<le> SendableSize (flow r)" using False inv by (simp_all add: send_inv_def)
  note pr = next_chunk_props [OF ch this]
  obtain b where r1: "r1 = r\<lparr>inputBuffer := b\<rparr>" using pr(4) by blast
  show ?thesis
  proof (cases "data = [] \<and> \<not> eof \<and> \<not> pendingOpen r1")
    case none: True
    with False trig ch have "res = None" "r' = r1" by (simp_all add: trigger_new_def Let_def)
    moreover have "send_inv W r1" unfolding r1
      by (rule send_inv_chunk [OF inv]) (use none pr(1) r1 in simp)
    ultimately show ?thesis using r1 by simp
  next
    case some: False
    define r2 where "r2 = (if data = [] \<and> \<not> eof then r1\<lparr>pendingOpen := False\<rparr> else r1)"
    obtain sr st where em: "emit_range data eof (r2, t) = (sr, st)" by (rule prod.exhaust)
    with False trig ch some have res: "res = Some sr" "st = (r', t')"
      by (simp_all add: trigger_new_def Let_def r2_def [symmetric])
    have "send_inv W (r2\<lparr>inputBuffer := inputBuffer r\<rparr>)"
      by (rule send_inv_ranges [OF inv]) (use inv in \<open>simp_all add: r2_def r1 send_inv_def\<close>)
    note e = emit_range_inv [OF this _ _ _ em [unfolded res(2)]]
    have r2: "inputBuffer r2 = inputBuffer r1" "flow r2 = flow r" "eofSent r2 = eofSent r"
      "ss_id r2 = ss_id r" "offset r2 = offset r" by (simp_all add: r2_def r1)
    show ?thesis using e pr(1,3) False r2 res(1) by simp
  qed
qed

lemma set_replaceSentRange: "set (replaceSentRange src new xs) \<subseteq> set new \<union> set xs"
  by (induction xs) auto

lemma split_ranges_ok:
  assumes ok: "range_ok W r p" and W: "length W < 2 ^ 63" "unat (offset r) \<le> length W"
    and sp: "splitSentRange p mp r = ((fr, tlr), r')"
    and pos: "StreamPacketHeaderSize (sr_ID p) (sr_Offset p) (int (length (sr_Data p))) < mp"
  shows "range_ok W r fr" and "range_ok W r tlr"
    and "sr_Data fr @ sr_Data tlr = sr_Data p" and "sr_Eof tlr = sr_Eof p" and "\<not> sr_Eof fr"
    and "sr_Offset fr = sr_Offset p" and "unat (sr_Offset tlr) = unat (sr_Offset fr) + length (sr_Data fr)"
proof -
  let ?len = "length (sr_Data p)"
  let ?n = "min (mp - StreamPacketHeaderSize (sr_ID p) (sr_Offset p) (int ?len)) (int ?len)"
  have "0 \<le> ?n" using pos by simp
  then obtain k where k: "?n = int k" by (rule zero_le_imp_eq_int [THEN exE])
  then have n: "k \<le> ?len" by linarith
  have s: "fr = \<lparr>sr_ref = ss_nextRef r, sr_ID = sr_ID p, sr_Offset = sr_Offset p,
        sr_Data = take k (sr_Data p), sr_SentSize = int k, sr_Eof = False\<rparr>"
    "tlr = \<lparr>sr_ref = ss_nextRef r + 1, sr_ID = sr_ID p, sr_Offset = sr_Offset p + of_nat k,
        sr_Data = drop k (sr_Data p), sr_SentSize = int ?len - int k, sr_Eof = sr_Eof p\<rparr>"
  proof -
    have "(if mp - StreamPacketHeaderSize (sr_ID p) (sr_Offset p) (int ?len) > int ?len then int ?len
        else mp - StreamPacketHeaderSize (sr_ID p) (sr_Offset p) (int ?len)) = int k"
      using k by (auto simp: min_def split: if_splits)
    then show "fr = \<lparr>sr_ref = ss_nextRef r, sr_ID = sr_ID p, sr_Offset = sr_Offset p,
        sr_Data = take k (sr_Data p), sr_SentSize = int k, sr_Eof = False\<rparr>"
      "tlr = \<lparr>sr_ref = ss_nextRef r + 1, sr_ID = sr_ID p, sr_Offset = sr_Offset p + of_nat k,
        sr_Data = drop k (sr_Data p), sr_SentSize = int ?len - int k, sr_Eof = sr_Eof p\<rparr>"
      using sp by (auto simp: splitSentRange_def Let_def)
  qed
  have le: "unat (sr_Offset p) + ?len \<le> length W"
    using ok W by (simp add: range_ok_def)
  have off: "unat (sr_Offset p + of_nat k) = unat (sr_Offset p) + k"
    using le n W by (subst unat_add_no_wrap) (simp_all add: unat_of_nat_len)
  have d: "sr_Data p = take ?len (drop (unat (sr_Offset p)) W)" using ok by (simp add: range_ok_def)
  have d1: "take k (sr_Data p) = take k (drop (unat (sr_Offset p)) W)"
    using arg_cong [OF d, of "take k"] n by (simp add: min_absorb1)
  have d2: "drop k (sr_Data p) = take (?len - k) (drop (unat (sr_Offset p) + k) W)"
    using arg_cong [OF d, of "drop k"] by (simp add: drop_take add.commute)
  have lf: "length (sr_Data fr) = k" "length (sr_Data tlr) = ?len - k"
    "unat (sr_Offset tlr) = unat (sr_Offset p) + k"
    unfolding s using n off by simp_all
  show "range_ok W r fr"
    using ok d1 lf n unfolding range_ok_def by (simp add: s)
  show "range_ok W r tlr"
    using ok d2 lf n unfolding range_ok_def by (simp add: s(2))
  show "sr_Data fr @ sr_Data tlr = sr_Data p" and "sr_Eof tlr = sr_Eof p" and "\<not> sr_Eof fr"
    and "sr_Offset fr = sr_Offset p" unfolding s by simp_all
  then show "unat (sr_Offset tlr) = unat (sr_Offset fr) + length (sr_Data fr)" using lf by simp
qed

lemma triggerPacket_inv:
  assumes inv: "send_inv W r" and trig: "triggerPacket mp (r, t) = (res, r', t')"
  shows "send_inv W r' \<and> progress r r' \<and> (\<forall>sr. res = Some sr \<longrightarrow> range_ok W r' sr)"
proof -
  obtain popped q where pop: "Pop (retransmitQueue r) = (popped, q)" by fastforce
  let ?r = "r\<lparr>retransmitQueue := q\<rparr>"
  from inv have tq: "tq_ok (retransmitQueue r)" and W: "length W < 2 ^ 63" "unat (offset r) \<le> length W"
    and rs: "\<forall>sr \<in> set (sentRanges r) \<union> set (tq_queue (retransmitQueue r)). range_ok W r sr"
    by (simp_all add: send_inv_def)
  note P = Pop_simps [OF tq pop]
  have inv1: "send_inv W ?r"
    by (rule send_inv_ranges [OF inv]) (use P(1,2) rs in auto)
  show ?thesis
  proof (cases popped)
    case None
    with trig pop have "trigger_new mp (?r, t) = (res, r', t')" by (simp add: triggerPacket_def)
    from trigger_new_inv [OF inv1 this] show ?thesis by simp
  next
    case (Some p)
    have okp: "range_ok W r p" using P(3) [OF Some] rs by blast
    let ?h = "StreamPacketHeaderSize (sr_ID p) (sr_Offset p) (int (length (sr_Data p)))"
    consider (whole) "?h + int (length (sr_Data p)) \<le> mp"
      | (wait) "\<not> ?h + int (length (sr_Data p)) \<le> mp" "sr_Data p = [] \<or> mp \<le> ?h + 1"
      | (split) "\<not> ?h + int (length (sr_Data p)) \<le> mp" "\<not> (sr_Data p = [] \<or> mp \<le> ?h + 1)" by blast
    then show ?thesis
    proof cases
      case whole
      with trig pop Some have "res = Some p" "requeueIfMore (?r, t) = (r', t')"
        by (simp_all add: triggerPacket_def)
      moreover from this(2) have "r' = ?r" by (metis requeueIfMore_fst fst_conv)
      ultimately show ?thesis using inv1 okp by (simp add: range_ok_def)
    next
      case wait
      let ?r2 = "?r\<lparr>retransmitQueue := tq_Push p q\<rparr>"
      have "send_inv W ?r2"
        by (rule send_inv_ranges [OF inv]) (use P(1,2) rs okp tq_Push_simps [OF P(1), of p] in auto)
      moreover have "trigger_new mp (?r2, t) = (res, r', t')"
        using trig pop Some wait by (simp add: triggerPacket_def)
      ultimately show ?thesis using trigger_new_inv [of W ?r2 mp t res r' t'] by simp
    next
      case split
      obtain fr tlr r1 where sp: "splitSentRange p mp ?r = ((fr, tlr), r1)" by (metis prod.collapse)
      let ?r2 = "r1\<lparr>retransmitQueue := tq_Push tlr (retransmitQueue r1)\<rparr>"
      have r1: "r1 = ?r\<lparr>sentRanges := replaceSentRange p [fr, tlr] (sentRanges r), ss_nextRef := ss_nextRef r + 2\<rparr>"
        using sp by (auto simp: splitSentRange_def Let_def)
      have "res = Some fr" "requeueIfMore (?r2, t) = (r', t')"
        using trig pop Some split sp by (simp_all add: triggerPacket_def)
      moreover from this(2) have r': "r' = ?r2" by (metis requeueIfMore_fst fst_conv)
      have okp': "range_ok W ?r p" using okp by (simp add: range_ok_def)
      have "range_ok W r fr" "range_ok W r tlr"
        using split_ranges_ok(1,2) [OF okp' W(1) _ sp] W(2) split(2) by (auto simp: range_ok_def)
      moreover have "send_inv W ?r2"
        by (rule send_inv_ranges [OF inv])
          (use P(1,2) rs tq_Push_simps [OF P(1), of tlr] set_replaceSentRange [of p "[fr, tlr]" "sentRanges r"]
            calculation in \<open>auto simp: r1\<close>)
      ultimately show ?thesis using r' by (simp add: r1 range_ok_def)
    qed
  qed
qed


lemma append_inv:
  assumes inv: "send_inv W r" and app: "AppendDataContext eof data (r, t) = (res, r', t')"
    and small: "length (W @ concat data) < 2 ^ 63"
  shows "if res = AppendOk then send_inv (W @ concat data) r' \<and> progress r r'
         else r' = r"
proof (cases "res = AppendOk")
  case False
  with app show ?thesis by (auto simp: AppendDataContext_def Let_def split: if_splits)
next
  case True
  with app have r': "inputBuffer r' = inputBuffer r @ data" "offset r' = offset r" "eofSent r' = eofSent r"
      "ss_id r' = ss_id r" "sentRanges r' = sentRanges r" "retransmitQueue r' = retransmitQueue r"
      "flow r' = flow r"
    by (auto simp: AppendDataContext_def Let_def split: if_splits)
  have "range_ok (W @ concat data) r' sr" if "range_ok W r sr" for sr
    using that by (rule range_ok_mono) (use inv r' in \<open>simp_all add: send_inv_def\<close>)
  with inv small r' have "send_inv (W @ concat data) r'" by (auto simp: send_inv_def)
  with True r' show ?thesis by simp
qed

lemma signals_inv:
  assumes "send_inv W r"
  shows "send_inv W (fst (ss_Close (r, t)))" and "send_inv W (fst (onCancel (r, t)))"
    and "send_inv W (fst (updateFlowWindow n (r, t)))"
proof -
  show "send_inv W (fst (ss_Close (r, t)))" and "send_inv W (fst (onCancel (r, t)))"
    unfolding ss_Close_def onCancel_def signalWriter_def
    by (simp_all, (rule send_inv_ranges [OF assms]; use assms in \<open>simp add: send_inv_def\<close>)+)
  have "0 \<le> SendableSize (snd (fc_UpdateWindow n (flow r)))"
    by (rule fc.sendable_nonneg_update) (use assms in \<open>simp add: send_inv_def\<close>)
  moreover have "SentSize (snd (fc_UpdateWindow n (flow r))) = SentSize (flow r)"
    by (simp add: fc_UpdateWindow_def)
  ultimately have "send_inv W (r\<lparr>flow := snd (fc_UpdateWindow n (flow r))\<rparr>)"
    using assms by (simp add: send_inv_def range_ok_def)
  then show "send_inv W (fst (updateFlowWindow n (r, t)))"
    by (cases "fc_UpdateWindow n (flow r)") (simp add: updateFlowWindow_def Let_def)
qed

lemma onACK_fst:
  "distinct (map sr_ref (sentRanges r)) \<Longrightarrow>
     fst (onACK sr (r, t)) = r\<lparr>sentRanges := filter (\<lambda>x. x \<noteq> sr) (sentRanges r)\<rparr>"
proof (cases "sentRanges r")
  case (Cons x xs)
  assume "distinct (map sr_ref (sentRanges r))"
  then have "filter (\<lambda>y. y \<noteq> x) xs = xs" using Cons by (intro filter_True) auto
  with Cons show ?thesis by (cases "x = sr") (simp_all add: onACK_def)
qed (simp add: onACK_def)

lemma onACK_subset: "set (sentRanges (fst (onACK sr (r, t)))) \<subseteq> set (sentRanges r)"
  by (cases "sentRanges r") (auto simp: onACK_def)

lemma ack_lost_inv:
  assumes "send_inv W r" and "range_ok W r sr"
  shows "send_inv W (fst (onACK sr (r, t)))" and "send_inv W (fst (onLost sr (r, t)))"
proof -
  have tq: "tq_ok (retransmitQueue r)" using assms(1) by (simp add: send_inv_def)
  have keep: "ss_id (fst (onACK sr (r, t))) = ss_id r" "offset (fst (onACK sr (r, t))) = offset r"
    "eofSent (fst (onACK sr (r, t))) = eofSent r" "inputBuffer (fst (onACK sr (r, t))) = inputBuffer r"
    "flow (fst (onACK sr (r, t))) = flow r" "retransmitQueue (fst (onACK sr (r, t))) = retransmitQueue r"
    by (simp_all add: onACK_def split: list.splits)
  show "send_inv W (fst (onACK sr (r, t)))"
    by (rule send_inv_ranges [OF assms(1)])
      (use keep onACK_subset [of sr r t] assms(1) in \<open>auto simp: send_inv_def\<close>)
  show "send_inv W (fst (onLost sr (r, t)))"
    by (rule send_inv_ranges [OF assms(1)])
      (use assms tq_Push_simps [OF tq, of sr] in \<open>auto simp: onLost_def send_inv_def\<close>)
qed

section \<open>Runs of a sender\<close>

text \<open>
  Everything that happens to a send stream, in any order: the application writes and closes, the peer
  cancels or opens the window, the run loop asks for a packet, and the acknowledgement or the loss of
  a packet that was emitted is reported, possibly late or more than once.
\<close>

record send_run =
  written :: bytes
  emitted :: "SentRange list"
  stream :: sendStream
  trig :: "ref withTriggerQueue"

inductive send_step :: "send_run \<Rightarrow> send_run \<Rightarrow> bool" where
  append: "AppendDataContext eof data (stream s, trig s) = (AppendOk, r, t) \<Longrightarrow>
     length (written s @ concat data) < 2 ^ 63 \<Longrightarrow>
     send_step s (s\<lparr>written := written s @ concat data, stream := r, trig := t\<rparr>)"
| close: "ss_Close (stream s, trig s) = (r, t) \<Longrightarrow> send_step s (s\<lparr>stream := r, trig := t\<rparr>)"
| cancel: "onCancel (stream s, trig s) = (r, t) \<Longrightarrow> send_step s (s\<lparr>stream := r, trig := t\<rparr>)"
| window: "updateFlowWindow n (stream s, trig s) = (r, t) \<Longrightarrow> send_step s (s\<lparr>stream := r, trig := t\<rparr>)"
| packet: "triggerPacket mp (stream s, trig s) = (Some sr, r, t) \<Longrightarrow>
     send_step s (s\<lparr>emitted := emitted s @ [sr], stream := r, trig := t\<rparr>)"
| idle: "triggerPacket mp (stream s, trig s) = (None, r, t) \<Longrightarrow> send_step s (s\<lparr>stream := r, trig := t\<rparr>)"
| ack: "sr \<in> set (emitted s) \<Longrightarrow> onACK sr (stream s, trig s) = (r, t) \<Longrightarrow>
     send_step s (s\<lparr>stream := r, trig := t\<rparr>)"
| lost: "sr \<in> set (emitted s) \<Longrightarrow> onLost sr (stream s, trig s) = (r, t) \<Longrightarrow>
     send_step s (s\<lparr>stream := r, trig := t\<rparr>)"

inductive send_reachable :: "StreamID \<Rightarrow> int \<Rightarrow> send_run \<Rightarrow> bool" for i w where
  init: "send_reachable i w
     \<lparr>written = [], emitted = [], stream = (newSendStream p i (newFlowController w))\<lparr>pendingOpen := b\<rparr>, trig = t\<rparr>"
| step: "send_reachable i w s \<Longrightarrow> send_step s s' \<Longrightarrow> send_reachable i w s'"

inductive_cases send_stepE: "send_step s s'"

definition run_ok :: "send_run \<Rightarrow> bool" where
  "run_ok s \<longleftrightarrow> send_inv (written s) (stream s) \<and>
     (\<forall>sr \<in> set (emitted s). range_ok (written s) (stream s) sr)"

lemma run_ok_keep:
  assumes "run_ok s" and "send_inv (written s) r" and "progress (stream s) r"
    and "\<forall>sr \<in> set new. range_ok (written s) r sr"
  shows "run_ok (s\<lparr>emitted := emitted s @ new, stream := r, trig := t\<rparr>)"
proof -
  have "range_ok (written s) r sr" if "sr \<in> set (emitted s)" for sr
  proof -
    have "range_ok (written s) (stream s) sr" using assms(1) that by (simp add: run_ok_def)
    then have "range_ok (written s @ []) r sr"
      by (rule range_ok_mono) (use assms(1,3) in \<open>simp_all add: run_ok_def send_inv_def\<close>)
    then show ?thesis by simp
  qed
  with assms(2,4) show ?thesis by (auto simp: run_ok_def)
qed

lemma run_ok_quiet:
  "run_ok s \<Longrightarrow> send_inv (written s) r \<Longrightarrow> progress (stream s) r \<Longrightarrow> run_ok (s\<lparr>stream := r, trig := t\<rparr>)"
  using run_ok_keep [of s r "[]" t] by simp

lemma quiet_progress:
  "progress r (fst (ss_Close (r, t)))" "progress r (fst (onCancel (r, t)))"
  "progress r (fst (updateFlowWindow n (r, t)))" "progress r (fst (onACK sr (r, t)))"
  "progress r (fst (onLost sr (r, t)))"
  by (auto simp: ss_Close_def signalWriter_def onCancel_def updateFlowWindow_def onACK_def onLost_def
      Let_def split: prod.splits list.splits)

lemma run_ok_step: "send_step s s' \<Longrightarrow> run_ok s \<Longrightarrow> run_ok s'"
proof (induction rule: send_step.induct)
  case (append eof data s r t)
  then have inv: "send_inv (written s) (stream s)" by (simp add: run_ok_def)
  note app = append_inv [OF inv append(1,2)]
  have "range_ok (written s @ concat data) r sr" if "sr \<in> set (emitted s)" for sr
  proof -
    have "range_ok (written s) (stream s) sr" using append.prems that by (simp add: run_ok_def)
    then show ?thesis by (rule range_ok_mono) (use app inv in \<open>simp_all add: send_inv_def\<close>)
  qed
  with app show ?case by (simp add: run_ok_def)
next
  case (close s r t)
  then show ?case
    using run_ok_quiet signals_inv(1) quiet_progress(1) by (metis fst_conv run_ok_def)
next
  case (cancel s r t)
  then show ?case
    using run_ok_quiet signals_inv(2) quiet_progress(2) by (metis fst_conv run_ok_def)
next
  case (window n s r t)
  then show ?case
    using run_ok_quiet signals_inv(3) quiet_progress(3) by (metis fst_conv run_ok_def)
next
  case (packet mp s sr r t)
  then have "send_inv (written s) (stream s)" by (simp add: run_ok_def)
  from triggerPacket_inv [OF this packet(1)] show ?case
    by (intro run_ok_keep [OF packet(2), of r "[sr]"]) simp_all
next
  case (idle mp s r t)
  then have "send_inv (written s) (stream s)" by (simp add: run_ok_def)
  from triggerPacket_inv [OF this idle(1)] show ?case
    by (intro run_ok_quiet [OF idle(2)]) simp_all
next
  case (ack sr s r t)
  then have "send_inv (written s) (stream s)" "range_ok (written s) (stream s) sr"
    by (simp_all add: run_ok_def)
  from ack_lost_inv(1) [OF this, of "trig s"] quiet_progress(4) [where r = "stream s" and sr = sr and t = "trig s"]
    ack(2) show ?case by (intro run_ok_quiet [OF ack(3)]) simp_all
next
  case (lost sr s r t)
  then have "send_inv (written s) (stream s)" "range_ok (written s) (stream s) sr"
    by (simp_all add: run_ok_def)
  from ack_lost_inv(2) [OF this, of "trig s"] quiet_progress(5) [where r = "stream s" and sr = sr and t = "trig s"]
    lost(2) show ?case by (intro run_ok_quiet [OF lost(3)]) simp_all
qed

lemma run_ok_reachable:
  assumes "0 \<le> w" shows "send_reachable i w s \<Longrightarrow> run_ok s"
proof (induction rule: send_reachable.induct)
  case (init b t)
  show ?case
    using assms
    by (simp add: run_ok_def send_inv_def newSendStream_def newFlowController_def SendableSize_def
        newWithTriggerQueue_def tq_ok_def)
qed (rule run_ok_step)

definition as_frame :: "SentRange \<Rightarrow> RecvData" where
  "as_frame sr = \<lparr>Offset = sr_Offset sr, Data = sr_Data sr, Eof = sr_Eof sr\<rparr>"

lemma range_ok_frame:
  assumes "range_ok W r sr" and "unat (offset r) \<le> length W"
  shows "frame_of (take (unat (offset r)) W) (as_frame sr)"
  using assms by (auto simp: range_ok_def frame_of_def as_frame_def drop_take min_def)


section \<open>Size, progress, identity\<close>

lemma VarintLen_le: "uint (VarintLen x) \<le> 8" "0 \<le> uint (VarintLen x)"
  by (simp_all add: VarintLen_def)

lemma HeaderSize_len:
  "StreamPacketHeaderSize i off 0 \<le> StreamPacketHeaderSize i off n"
  by (simp add: StreamPacketHeaderSize_def)

text \<open>What a packet takes on the wire beside its data: kind, flags, and the varints that are there.\<close>

lemma triggerPacket_size:
  assumes "triggerPacket mp (r, t) = (Some sr, r', t')" and "0 \<le> SendableSize (flow r)"
    and "\<forall>x \<in> set (tq_queue (retransmitQueue r)). sr_ID x = ss_id r" and "tq_ok (retransmitQueue r)"
  shows "StreamPacketHeaderSize (sr_ID sr) (sr_Offset sr) 0 + int (length (sr_Data sr)) \<le> mp"
proof -
  have new: "StreamPacketHeaderSize (sr_ID sr) (sr_Offset sr) 0 + int (length (sr_Data sr)) \<le> mp"
    if trig: "trigger_new mp (q, t) = (Some sr, r', t')" and fl: "flow q = flow r" for q
  proof -
    let ?h = "StreamPacketHeaderSize (ss_id q) (offset q) mp"
    from trig have ne: "\<not> eofSent q" "\<not> mp \<le> ?h" by (auto simp: trigger_new_def Let_def split: if_splits)
    obtain data eof q1 where ch: "next_chunk (mp - ?h) q = ((data, eof), q1)" by (metis prod.collapse)
    have "0 \<le> mp - ?h" "0 \<le> SendableSize (flow q)" using ne assms(2) fl by simp_all
    note pr = next_chunk_props [OF ch this]
    from pr(4) obtain b where q1: "q1 = q\<lparr>inputBuffer := b\<rparr>" by blast
    have "sr_ID sr = ss_id q" "sr_Offset sr = offset q" "sr_Data sr = data"
      using trig ne ch by (auto simp: trigger_new_def emit_range_def Let_def q1 split: if_splits prod.splits)
    with pr(2) HeaderSize_len [of "ss_id q" "offset q" mp] show ?thesis by simp
  qed
  obtain popped q where pop: "Pop (retransmitQueue r) = (popped, q)" by fastforce
  let ?r = "r\<lparr>retransmitQueue := q\<rparr>"
  show ?thesis
  proof (cases popped)
    case None
    with assms(1) pop have "trigger_new mp (?r, t) = (Some sr, r', t')" by (simp add: triggerPacket_def)
    then show ?thesis by (rule new) simp
  next
    case (Some p)
    let ?h = "StreamPacketHeaderSize (sr_ID p) (sr_Offset p) (int (length (sr_Data p)))"
    note H = HeaderSize_len [of "sr_ID p" "sr_Offset p" "int (length (sr_Data p))"]
    consider (whole) "?h + int (length (sr_Data p)) \<le> mp"
      | (wait) "\<not> ?h + int (length (sr_Data p)) \<le> mp" "sr_Data p = [] \<or> mp \<le> ?h + 1"
      | (split) "\<not> ?h + int (length (sr_Data p)) \<le> mp" "\<not> (sr_Data p = [] \<or> mp \<le> ?h + 1)" by blast
    then show ?thesis
    proof cases
      case whole
      with assms(1) pop Some H show ?thesis by (simp add: triggerPacket_def)
    next
      case wait
      with assms(1) pop Some
      have "trigger_new mp (?r\<lparr>retransmitQueue := tq_Push p q\<rparr>, t) = (Some sr, r', t')"
        by (simp add: triggerPacket_def)
      then show ?thesis by (rule new) simp
    next
      case split
      obtain fr tlr r1 where sp: "splitSentRange p mp ?r = ((fr, tlr), r1)" by (metis prod.collapse)
      with assms(1) pop Some split have "sr = fr" by (simp add: triggerPacket_def)
      moreover from split have m: "0 \<le> mp - ?h" by auto
      moreover have "sr_ID fr = sr_ID p" "sr_Offset fr = sr_Offset p" "int (length (sr_Data fr)) \<le> mp - ?h"
        using sp m by (auto simp: splitSentRange_def Let_def min_def)
      ultimately show ?thesis using H by simp
    qed
  qed
qed

text \<open>The head of a chunk list with bytes in it gives bytes.\<close>

lemma read_chunk_loop_nonempty:
  "read_chunk_loop m cs buf = (buf', cs', all) \<Longrightarrow> int (length buf) \<le> m \<Longrightarrow> 0 < m \<Longrightarrow> concat cs \<noteq> [] \<Longrightarrow> buf' \<noteq> []"
proof (induction m cs buf rule: read_chunk_loop.induct)
  case (2 m chunk rest buf)
  show ?case
  proof (cases "int (length buf) + int (length chunk) > m")
    case True
    with 2 show ?thesis by (auto simp: Let_def)
  next
    case False
    with 2 have rec: "read_chunk_loop m rest (buf @ chunk) = (buf', cs', all)" by simp
    show ?thesis
    proof (cases "chunk = []")
      case True
      with 2 False show ?thesis by simp
    next
      case ne: False
      from read_chunk_loop_props [OF rec] False have "buf' @ concat cs' = (buf @ chunk) @ concat rest"
        and "int (length buf') \<le> m" by simp_all
      show ?thesis
      proof (cases "concat rest = []")
        case True
        have "concat cs = [] \<Longrightarrow> read_chunk_loop m cs b = (b', cs', a) \<Longrightarrow> int (length b) \<le> m \<Longrightarrow> b' = b" for cs b b' cs' a
          by (induction m cs b rule: read_chunk_loop.induct) (auto simp: Let_def split: if_splits)
        from this [OF True rec] False ne show ?thesis by simp
      next
        case nr: False
        show ?thesis using "2.IH" [OF False rec] False nr "2.prems"(3) by simp
      qed
    qed
  qed
qed simp

lemma trigger_new_progress:
  assumes "\<not> eofSent r" and "StreamPacketHeaderSize (ss_id r) (offset r) mp < mp"
    and "0 < SendableSize (flow r)" and "\<not> cancelRequested r" and "concat (inputBuffer r) \<noteq> []"
  shows "\<exists>sr r' t'. trigger_new mp (r, t) = (Some sr, r', t') \<and> sr_Data sr \<noteq> []"
proof -
  let ?m = "min (mp - StreamPacketHeaderSize (ss_id r) (offset r) mp) (SendableSize (flow r))"
  obtain buf cs all where l: "read_chunk_loop ?m (inputBuffer r) [] = (buf, cs, all)" by (metis prod_cases3)
  have "buf \<noteq> []" by (rule read_chunk_loop_nonempty [OF l]) (use assms in simp_all)
  moreover have "next_chunk (mp - StreamPacketHeaderSize (ss_id r) (offset r) mp) r
      = ((buf, all \<and> signalEOF r), r\<lparr>inputBuffer := cs\<rparr>)"
    using assms l by (simp add: next_chunk_def readChunk_def)
  ultimately show ?thesis
    using assms(1,2) by (auto simp: trigger_new_def emit_range_def Let_def split: prod.splits)
qed

text \<open>Serial numbers: the ranges in flight are different allocations.\<close>

definition refs_ok :: "sendStream \<Rightarrow> bool" where
  "refs_ok r \<longleftrightarrow> distinct (map sr_ref (sentRanges r)) \<and> (\<forall>sr \<in> set (sentRanges r). sr_ref sr < ss_nextRef r)"

lemma refs_ok_trigger_new:
  assumes "refs_ok r" and "trigger_new mp (r, t) = (res, r', t')"
  shows "refs_ok r'"
proof -
  have keep: "sentRanges (snd (next_chunk m r)) = sentRanges r" "ss_nextRef (snd (next_chunk m r)) = ss_nextRef r" for m
    by (simp_all add: next_chunk_def readChunk_def Let_def split: prod.splits)
  have emit: "refs_ok r2" if "refs_ok r1" "emit_range d e (r1, t) = (sr, r2, t2)" for r1 d e sr r2 t2
  proof -
    have "sentRanges r2 = sentRanges r1 @ [sr]" "sr_ref sr = ss_nextRef r1" "ss_nextRef r2 = Suc (ss_nextRef r1)"
      using that(2) by (auto simp: emit_range_def requeueIfMore_def signalWriter_def Let_def split: if_splits)
    with that(1) show ?thesis by (auto simp: refs_ok_def image_iff less_Suc_eq)
  qed
  obtain data eof r1 where ch: "next_chunk (mp - StreamPacketHeaderSize (ss_id r) (offset r) mp) r = ((data, eof), r1)"
    by (metis prod.collapse)
  with keep [of "mp - StreamPacketHeaderSize (ss_id r) (offset r) mp"] assms(1)
  have r1: "refs_ok r1" "refs_ok (r1\<lparr>pendingOpen := False\<rparr>)" by (simp_all add: refs_ok_def)
  show ?thesis
    using assms ch r1 emit
    by (auto simp: trigger_new_def Let_def split: if_splits prod.splits)
qed

lemma sr_refs_replace:
  assumes "distinct (map sr_ref xs)" and "distinct (map sr_ref new)"
    and "\<forall>x \<in> set xs. \<forall>y \<in> set new. sr_ref x \<noteq> sr_ref y"
  shows "distinct (map sr_ref (replaceSentRange src new xs))"
  using assms
proof (induction xs)
  case (Cons x xs)
  then show ?case using set_replaceSentRange [of src new xs] by (auto simp: image_iff) (metis UnE subsetD)+
qed simp

lemma refs_ok_triggerPacket:
  assumes ok: "refs_ok r" and trig: "triggerPacket mp (r, t) = (res, r', t')"
  shows "refs_ok r'"
proof -
  obtain popped q where pop: "Pop (retransmitQueue r) = (popped, q)" by fastforce
  let ?r = "r\<lparr>retransmitQueue := q\<rparr>"
  have q: "refs_ok (r\<lparr>retransmitQueue := q'\<rparr>)" for q' using ok by (simp add: refs_ok_def)
  show ?thesis
  proof (cases popped)
    case None
    with trig pop have "trigger_new mp (?r, t) = (res, r', t')" by (simp add: triggerPacket_def)
    from refs_ok_trigger_new [OF q this] show ?thesis .
  next
    case (Some p)
    obtain fr tlr r1 where sp: "splitSentRange p mp ?r = ((fr, tlr), r1)" by (metis prod.collapse)
    have f: "sr_ref fr = ss_nextRef r" "sr_ref tlr = Suc (ss_nextRef r)"
      and r1: "sentRanges r1 = replaceSentRange p [fr, tlr] (sentRanges r)" "ss_nextRef r1 = ss_nextRef r + 2"
      using sp by (auto simp: splitSentRange_def Let_def)
    have "distinct (map sr_ref (sentRanges r1))"
      unfolding r1 by (rule sr_refs_replace) (use ok f in \<open>auto simp: refs_ok_def\<close>)
    moreover have "\<forall>sr \<in> set (sentRanges r1). sr_ref sr < ss_nextRef r1"
      using set_replaceSentRange [of p "[fr, tlr]" "sentRanges r"] ok f unfolding r1
      by (fastforce simp: refs_ok_def)
    ultimately have "refs_ok (r1\<lparr>retransmitQueue := x\<rparr>)" for x by (simp add: refs_ok_def)
    with trig pop Some show ?thesis
      using refs_ok_trigger_new [OF q] q sp
      by (auto simp: triggerPacket_def Let_def dest!: requeueIfMore_eq split: if_splits)
  qed
qed


lemma refs_ok_filter: "refs_ok r \<Longrightarrow> refs_ok (fst (onACK sr (r, t)))"
  by (auto simp: onACK_fst refs_ok_def distinct_map_filter)

lemma refs_ok_step: "send_step s s' \<Longrightarrow> refs_ok (stream s) \<Longrightarrow> refs_ok (stream s')"
proof (induction rule: send_step.induct)
  case (append eof data s r t)
  then show ?case by (auto simp: AppendDataContext_def refs_ok_def Let_def split: if_splits)
next
  case (window n s r t)
  then show ?case by (auto simp: updateFlowWindow_def refs_ok_def Let_def split: if_splits prod.splits)
next
  case (packet mp s sr r t)
  then show ?case using refs_ok_triggerPacket by simp
next
  case (idle mp s r t)
  then show ?case using refs_ok_triggerPacket by simp
next
  case (ack sr s r t)
  then show ?case using refs_ok_filter [of "stream s" sr "trig s"] by simp
qed (auto simp: ss_Close_def signalWriter_def onCancel_def onLost_def refs_ok_def)

lemma refs_ok_reachable: "send_reachable i w s \<Longrightarrow> refs_ok (stream s)"
proof (induction rule: send_reachable.induct)
  case (init b t)
  show ?case by (simp add: refs_ok_def newSendStream_def)
qed (rule refs_ok_step)

section \<open>Properties\<close>

text \<open>
  In every run of a send stream (writes, close, cancel, window updates, packets, late or repeated
  acknowledgements and losses), every range that was ever emitted, retransmissions and split
  retransmissions included, is a frame of the written bytes up to the send offset, and a range
  carries the end mark only if it ends there.
\<close>

theorem sender_frames:
  assumes "send_reachable i w s" and "0 \<le> w" and "sr \<in> set (emitted s)"
  shows "frame_of (take (unat (offset (stream s))) (written s)) (as_frame sr) \<and>
    unat (offset (stream s)) \<le> length (written s)"
  using run_ok_reachable [OF assms(2,1)] assms(3)
  by (auto simp: run_ok_def send_inv_def intro: range_ok_frame)

theorem sender_frames_witness:
  "\<exists>(s :: send_run) sr. sr \<in> set (emitted s) \<and> sr_Data sr = [7, 8] \<and> sr_Eof sr \<and>
    frame_of (take (unat (offset (stream s))) (written s)) (as_frame sr) \<and>
    unat (offset (stream s)) \<le> length (written s)"
proof -
  let ?r0 = "(newSendStream 0 1 (newFlowController 10))\<lparr>pendingOpen := False\<rparr>"
  let ?s0 = "\<lparr>written = [], emitted = [], stream = ?r0, trig = newWithTriggerQueue\<rparr>"
  obtain r1 t1 where a: "AppendDataContext True [[7, 8]] (?r0, newWithTriggerQueue) = (AppendOk, r1, t1)"
    and r1: "r1 = ?r0\<lparr>inputBuffer := [[7, 8]], dataInBuffer := 2, signalEOF := True\<rparr>"
    by (simp add: AppendDataContext_def newSendStream_def)
  let ?s1 = "?s0\<lparr>written := [] @ concat [[7, 8]], stream := r1, trig := t1\<rparr>"
  obtain sr r2 t2 where p: "triggerPacket 100 (r1, t1) = (Some sr, r2, t2)" and sr: "sr_Data sr = [7, 8]" "sr_Eof sr"
    by (simp add: r1 triggerPacket_def Pop_def newSendStream_def newWithTriggerQueue_def trigger_new_def
        StreamPacketHeaderSize_def payloadOverhead_def VarintLen_def next_chunk_def SendableSize_def
        newFlowController_def readChunk_def emit_range_def requeueIfMore_def RecordSend_def Let_def)
  let ?s2 = "?s1\<lparr>emitted := [] @ [sr], stream := r2, trig := t2\<rparr>"
  have "send_reachable 1 10 ?s0" by (rule send_reachable.init)
  moreover have "send_step ?s0 ?s1" using send_step.append [of True "[[7, 8]]" ?s0 r1 t1] a by simp
  moreover have "send_step ?s1 ?s2" using send_step.packet [of 100 ?s1 sr r2 t2] p by simp
  ultimately have reach: "send_reachable 1 10 ?s2" by (blast intro: send_reachable.step)
  have em: "sr \<in> set (emitted ?s2)" by simp
  have "0 \<le> (10 :: int)" by simp
  from sender_frames [OF reach this em] em sr show ?thesis by blast
qed

text \<open>
  C28: the sender never goes beyond the window the peer has granted, and retransmissions do not count
  twice: in every run the send offset is exactly what was charged to flow control, and every emitted
  range ends within the window.
\<close>

theorem flow_window_respected:
  assumes "send_reachable i w s" and "0 \<le> w"
  shows "int (unat (offset (stream s))) = SentSize (flow (stream s)) \<and>
    SentSize (flow (stream s)) \<le> WindowSize (flow (stream s)) \<and>
    (\<forall>sr \<in> set (emitted s).
       int (unat (sr_Offset sr) + length (sr_Data sr)) \<le> WindowSize (flow (stream s)))"
proof -
  from run_ok_reachable [OF assms(2,1)]
  have f: "SentSize (flow (stream s)) = int (unat (offset (stream s)))" "0 \<le> SendableSize (flow (stream s))"
    and e: "\<forall>sr \<in> set (emitted s). unat (sr_Offset sr) + length (sr_Data sr) \<le> unat (offset (stream s))"
    by (simp_all add: run_ok_def send_inv_def range_ok_def)
  have "int (unat (sr_Offset sr) + length (sr_Data sr)) \<le> WindowSize (flow (stream s))"
    if "sr \<in> set (emitted s)" for sr
  proof -
    have "int (unat (sr_Offset sr) + length (sr_Data sr)) \<le> int (unat (offset (stream s)))"
      using e that unfolding of_nat_le_iff by blast
    with f show ?thesis by (simp add: SendableSize_def)
  qed
  with f show ?thesis by (simp add: SendableSize_def)
qed

theorem flow_window_respected_witness:
  "let s = \<lparr>written = [], emitted = [], stream = (newSendStream 0 1 (newFlowController 10))\<lparr>pendingOpen := True\<rparr>,
            trig = newWithTriggerQueue\<rparr> in
    int (unat (offset (stream s))) = SentSize (flow (stream s)) \<and>
    SentSize (flow (stream s)) \<le> WindowSize (flow (stream s))"
  using flow_window_respected [OF send_reachable.init [of 1 10 True 0 newWithTriggerQueue]]
  unfolding Let_def by simp

text \<open>
  A packet fits the budget it was asked for: in every run, the encoded header (kind, flags, the
  varints present) plus the data of the range \<open>triggerPacket\<close> returns is at most \<open>maxPayload\<close>.
\<close>

theorem packet_fits_budget:
  assumes "send_reachable i w s" and "0 \<le> w"
    and "triggerPacket mp (stream s, trig s) = (Some sr, r, t)"
  shows "2 + (if sr_ID sr \<noteq> 0 then uint (VarintLen (sr_ID sr)) else 0)
    + (if sr_Offset sr \<noteq> 0 then uint (VarintLen (sr_Offset sr)) else 0) + int (length (sr_Data sr)) \<le> mp"
proof -
  have "send_inv (written s) (stream s)" using run_ok_reachable [OF assms(2,1)] by (simp add: run_ok_def)
  then have "StreamPacketHeaderSize (sr_ID sr) (sr_Offset sr) 0 + int (length (sr_Data sr)) \<le> mp"
    by (intro triggerPacket_size [OF assms(3)]) (auto simp: send_inv_def range_ok_def)
  then show ?thesis by (simp add: StreamPacketHeaderSize_def payloadOverhead_def)
qed

theorem packet_fits_budget_witness:
  "let s = \<lparr>written = [], emitted = [], stream = (newSendStream 0 1 (newFlowController 10))\<lparr>pendingOpen := True\<rparr>,
            trig = newWithTriggerQueue\<rparr>;
       sr = \<lparr>sr_ref = 0, sr_ID = 1, sr_Offset = 0, sr_Data = [], sr_SentSize = 0, sr_Eof = False\<rparr> in
    fst (triggerPacket 20 (stream s, trig s)) = Some sr \<and>
    2 + (if sr_ID sr \<noteq> 0 then uint (VarintLen (sr_ID sr)) else 0)
    + (if sr_Offset sr \<noteq> 0 then uint (VarintLen (sr_Offset sr)) else 0) + int (length (sr_Data sr)) \<le> 20"
proof -
  let ?s = "\<lparr>written = [], emitted = [], stream = (newSendStream 0 1 (newFlowController 10))\<lparr>pendingOpen := True\<rparr>,
            trig = newWithTriggerQueue\<rparr>"
  let ?sr = "\<lparr>sr_ref = 0, sr_ID = 1, sr_Offset = 0, sr_Data = [], sr_SentSize = 0, sr_Eof = False\<rparr>"
  have res: "fst (triggerPacket 20 (stream ?s, trig ?s)) = Some ?sr"
    by (simp add: triggerPacket_def Pop_def newSendStream_def newWithTriggerQueue_def trigger_new_def
        StreamPacketHeaderSize_def payloadOverhead_def VarintLen_def next_chunk_def SendableSize_def
        newFlowController_def readChunk_def emit_range_def Let_def split: prod.splits)
  then obtain r t where "triggerPacket 20 (stream ?s, trig ?s) = (Some ?sr, r, t)" by (metis prod.collapse)
  from packet_fits_budget [OF send_reachable.init [of 1 10 True 0 newWithTriggerQueue] _ this]
  have "2 + (if sr_ID ?sr \<noteq> 0 then uint (VarintLen (sr_ID ?sr)) else 0)
    + (if sr_Offset ?sr \<noteq> 0 then uint (VarintLen (sr_Offset ?sr)) else 0) + int (length (sr_Data ?sr)) \<le> 20"
    by simp
  with res show ?thesis unfolding Let_def by blast
qed

text \<open>
  Splitting a retransmission loses nothing: the two fragments carry the bytes of the original one
  behind the other, the second starts where the first ends, and the end mark is on the second only.
\<close>

theorem split_partitions:
  assumes "range_ok W r p" and "length W < 2 ^ 63" and "unat (offset r) \<le> length W"
    and "StreamPacketHeaderSize (sr_ID p) (sr_Offset p) (int (length (sr_Data p))) < mp"
  shows "let ((front, tail), r') = splitSentRange p mp r in
    sr_Data front @ sr_Data tail = sr_Data p \<and> sr_Offset front = sr_Offset p \<and>
    unat (sr_Offset tail) = unat (sr_Offset front) + length (sr_Data front) \<and>
    \<not> sr_Eof front \<and> sr_Eof tail = sr_Eof p"
proof -
  obtain fr tlr r' where sp: "splitSentRange p mp r = ((fr, tlr), r')" by (metis prod.collapse)
  from split_ranges_ok(3-7) [OF assms(1,2,3) sp assms(4)] show ?thesis unfolding sp by simp
qed

theorem split_partitions_witness:
  "let p = \<lparr>sr_ref = 0, sr_ID = 0, sr_Offset = 0, sr_Data = [1, 2, 3], sr_SentSize = 3, sr_Eof = True\<rparr>;
       r = (newSendStream 0 0 (newFlowController 10))\<lparr>offset := 3, eofSent := True\<rparr> in
    let ((front, tail), r') = splitSentRange p 7 r in
    sr_Data front @ sr_Data tail = sr_Data p \<and> sr_Offset front = sr_Offset p \<and>
    unat (sr_Offset tail) = unat (sr_Offset front) + length (sr_Data front) \<and>
    \<not> sr_Eof front \<and> sr_Eof tail = sr_Eof p"
  unfolding Let_def [of "\<lparr>sr_ref = 0, sr_ID = 0, sr_Offset = 0, sr_Data = [1, 2, 3], sr_SentSize = 3, sr_Eof = True\<rparr>"]
    Let_def [of "(newSendStream 0 0 (newFlowController 10))\<lparr>offset := 3, eofSent := True\<rparr>"]
  by (rule split_partitions [where W = "[1, 2, 3]"])
    (simp_all add: range_ok_def newSendStream_def StreamPacketHeaderSize_def payloadOverhead_def VarintLen_def)

text \<open>
  The constant-time path of \<open>onACK\<close> (drop the head when it is the acknowledged range) gives the
  same list as the filter it stands for, in every reachable state.
\<close>

theorem onACK_is_filter:
  assumes "send_reachable i w s"
  shows "sentRanges (fst (onACK sr (stream s, trig s))) = filter (\<lambda>x. x \<noteq> sr) (sentRanges (stream s))"
  using refs_ok_reachable [OF assms] onACK_fst [of "stream s" sr "trig s"] by (simp add: refs_ok_def)

theorem onACK_is_filter_witness:
  "let s = \<lparr>written = [], emitted = [], stream = (newSendStream 0 1 (newFlowController 10))\<lparr>pendingOpen := True\<rparr>,
            trig = newWithTriggerQueue\<rparr>;
       sr = \<lparr>sr_ref = 0, sr_ID = 1, sr_Offset = 0, sr_Data = [], sr_SentSize = 0, sr_Eof = False\<rparr> in
    sentRanges (fst (onACK sr (stream s, trig s))) = filter (\<lambda>x. x \<noteq> sr) (sentRanges (stream s))"
  unfolding Let_def by (rule onACK_is_filter [OF send_reachable.init])

text \<open>
  The sender makes progress: with bytes buffered, an open window, room for a byte behind the
  header, no cancel and nothing to retransmit, \<open>triggerPacket\<close> returns a range with data.
\<close>

theorem sender_progress:
  assumes "tq_queue (retransmitQueue r) = []" and "\<not> eofSent r" and "\<not> cancelRequested r"
    and "0 < SendableSize (flow r)" and "concat (inputBuffer r) \<noteq> []"
    and "StreamPacketHeaderSize (ss_id r) (offset r) mp < mp"
  shows "\<exists>sr st. triggerPacket mp (r, t) = (Some sr, st) \<and> sr_Data sr \<noteq> []"
proof -
  have "Pop (retransmitQueue r) = (None, retransmitQueue r)" using assms(1) by (simp add: Pop_def)
  then have "triggerPacket mp (r, t) = trigger_new mp (r, t)" by (simp add: triggerPacket_def)
  with trigger_new_progress [OF assms(2,6,4,3,5), of t] show ?thesis by auto
qed

theorem sender_progress_witness:
  "\<exists>sr st. triggerPacket 100 ((newSendStream 0 1 (newFlowController 10))\<lparr>inputBuffer := [[7]]\<rparr>, newWithTriggerQueue)
    = (Some sr, st) \<and> sr_Data sr \<noteq> []"
  by (rule sender_progress)
    (simp_all add: newSendStream_def newWithTriggerQueue_def newFlowController_def SendableSize_def
      StreamPacketHeaderSize_def payloadOverhead_def VarintLen_def)

end
