(* ===== verification/Stream_Id.thy ===== *)
theory Stream_Id
  imports Recv_Stream
begin

text \<open>
  Stream identifiers (\<open>src/trsf/api.go\<close>), the issuer of identifiers (\<open>src/trsf/conn.go\<close>) and the
  stubs that stand in for a finished half of a bidirectional stream
  (\<open>src/trsf/finished_stream.go\<close>).

  The low two bits of an identifier say which side opened the stream and whether it has two
  directions; an issuer steps by four and so stays in its class. The stubs are stateless, so their
  methods are functions of the call's arguments only.
\<close>

section \<open>Identifiers\<close>

definition StreamID_Next :: "StreamID \<Rightarrow> StreamID" where
  "StreamID_Next s = s + 4"

definition ServerBidirectionalStart :: StreamID where "ServerBidirectionalStart = 0"
definition ClientBidirectionalStart :: StreamID where "ClientBidirectionalStart = 1"
definition ServerUnidirectionalStart :: StreamID where "ServerUnidirectionalStart = 2"
definition ClientUnidirectionalStart :: StreamID where "ClientUnidirectionalStart = 3"

definition IsServerInitiated :: "StreamID \<Rightarrow> bool" where
  "IsServerInitiated s \<longleftrightarrow> s mod 2 = 0"

definition IsClientInitiated :: "StreamID \<Rightarrow> bool" where
  "IsClientInitiated s \<longleftrightarrow> s mod 2 = 1"

definition IsBidirectional :: "StreamID \<Rightarrow> bool" where
  "IsBidirectional s \<longleftrightarrow> s mod 4 < 2"

definition IsUnidirectional :: "StreamID \<Rightarrow> bool" where
  "IsUnidirectional s \<longleftrightarrow> s mod 4 \<ge> 2"

record IDIssuer =
  nextID :: StreamID

definition NewIDIssuer :: "StreamID \<Rightarrow> IDIssuer" where
  "NewIDIssuer start = \<lparr>nextID = start\<rparr>"

definition IDIssuer_Next :: "IDIssuer \<Rightarrow> StreamID \<times> IDIssuer" where
  "IDIssuer_Next i = (nextID i, i\<lparr>nextID := StreamID_Next (nextID i)\<rparr>)"

section \<open>Finished halves\<close>

datatype stream_error = ErrStreamFinished

record finishedSendStream =
  fs_id :: StreamID

definition fs_Write :: "bytes \<Rightarrow> (stream_error, nat) result" where
  "fs_Write p = (if length p = 0 then Inr 0 else Inl ErrStreamFinished)"

definition fs_WriteContext :: "bytes \<Rightarrow> (stream_error, nat) result" where
  "fs_WriteContext data = fs_Write data"

definition fs_Close :: "(stream_error, unit) result" where
  "fs_Close = Inr ()"

definition fs_HasSendData :: bool where "fs_HasSendData \<longleftrightarrow> False"
definition fs_Completed :: bool where "fs_Completed \<longleftrightarrow> True"

fun fs_AppendData :: "bool \<Rightarrow> bytes list \<Rightarrow> (stream_error, unit) result" where
  "fs_AppendData eof [] = Inr ()"
| "fs_AppendData eof (d # ds) = (if length d > 0 then Inl ErrStreamFinished else fs_AppendData eof ds)"

definition fs_AppendDataContext :: "bool \<Rightarrow> bytes list \<Rightarrow> (stream_error, unit) result" where
  "fs_AppendDataContext eof data = fs_AppendData eof data"

record finishedRecvStream =
  fr_id :: StreamID

text \<open>\<open>None\<close> is \<open>io.EOF\<close>, as in \<open>ReadContext\<close>.\<close>

definition fr_Read :: "nat \<Rightarrow> bytes option" where "fr_Read n = None"
definition fr_ReadContext :: "nat \<Rightarrow> bytes option" where "fr_ReadContext n = None"
definition fr_ReadDirect :: "u64 \<Rightarrow> bytes \<times> bool" where "fr_ReadDirect maxN = ([], True)"
definition fr_ReadDirectContext :: "u64 \<Rightarrow> bytes \<times> bool" where "fr_ReadDirectContext maxN = ([], True)"
definition fr_HasRecvData :: bool where "fr_HasRecvData \<longleftrightarrow> False"
definition fr_EOF :: bool where "fr_EOF \<longleftrightarrow> True"

section \<open>Classes of identifiers\<close>

lemma class_step_mod:
  "(s + 4 * k) mod 4 = s mod 4" "(s + 4 * k) mod 2 = s mod 2" for s k :: u64
proof -
  have "(uint s + 4 * uint k) mod 2 ^ 64 mod 4 = uint s mod 4"
    by (subst mod_mod_cancel) simp_all
  moreover have "(uint s + 4 * uint k) mod 2 ^ 64 mod 2 = uint s mod 2"
    by (subst mod_mod_cancel) (simp, presburger)
  moreover have "uint (s + 4 * k) = (uint s + 4 * uint k) mod 2 ^ 64"
    by (simp add: uint_word_ariths mod_simps)
  ultimately show "(s + 4 * k) mod 4 = s mod 4" "(s + 4 * k) mod 2 = s mod 2"
    by (simp_all add: word_uint_eq_iff uint_mod)
qed

lemma class_step [simp]:
  "IsServerInitiated (s + 4 * k) = IsServerInitiated s" "IsClientInitiated (s + 4 * k) = IsClientInitiated s"
  "IsBidirectional (s + 4 * k) = IsBidirectional s" "IsUnidirectional (s + 4 * k) = IsUnidirectional s"
  unfolding IsServerInitiated_def IsClientInitiated_def IsBidirectional_def IsUnidirectional_def
    class_step_mod by (rule refl)+

lemma one_initiator: "IsClientInitiated s \<longleftrightarrow> \<not> IsServerInitiated s"
proof -
  have "s mod 2 = 0 \<or> s mod 2 = 1"
    by (cases "even s") (simp_all add: even_iff_mod_2_eq_zero odd_iff_mod_2_eq_one)
  then show ?thesis by (auto simp: IsClientInitiated_def IsServerInitiated_def)
qed

lemma one_direction: "IsUnidirectional s \<longleftrightarrow> \<not> IsBidirectional s"
  by (auto simp: IsUnidirectional_def IsBidirectional_def)

text \<open>The identifiers an issuer hands out in \<open>n\<close> calls.\<close>

fun issue :: "nat \<Rightarrow> IDIssuer \<Rightarrow> StreamID list" where
  "issue 0 i = []"
| "issue (Suc n) i = (let (x, i') = IDIssuer_Next i in x # issue n i')"

lemma issue_eq: "issue n i = map (\<lambda>k. nextID i + 4 * of_nat k) [0..<n]"
proof (induction n arbitrary: i)
  case (Suc n)
  have "issue (Suc n) i = nextID i # map (\<lambda>k. nextID i + 4 + 4 * of_nat k) [0..<n]"
    by (simp add: IDIssuer_Next_def StreamID_Next_def Suc.IH)
  also have "\<dots> = map (\<lambda>k. nextID i + 4 * of_nat k) (0 # map Suc [0..<n])"
    by (simp add: algebra_simps)
  also have "0 # map Suc [0..<n] = [0..<Suc n]" by (simp add: map_Suc_upt upt_conv_Cons del: upt_Suc)
  finally show ?case .
qed simp

lemma four_times_inj: "4 * of_nat j = (4 * of_nat k :: u64) \<Longrightarrow> j < 2 ^ 62 \<Longrightarrow> k < 2 ^ 62 \<Longrightarrow> j = k"
proof -
  assume a: "4 * of_nat j = (4 * of_nat k :: u64)" and "j < 2 ^ 62" and "k < 2 ^ 62"
  have "of_nat (4 * j) = (of_nat (4 * k) :: u64)" using a by simp
  then have "unat (of_nat (4 * j) :: u64) = unat (of_nat (4 * k) :: u64)" by (simp only:)
  with \<open>j < 2 ^ 62\<close> \<open>k < 2 ^ 62\<close> have "4 * j = 4 * k"
    by (subst (asm) (1 2) unat_of_nat_len) simp_all
  then show "j = k" by simp
qed

text \<open>
  C36: an issuer never hands out an identifier twice in 2^62 calls, and every identifier it hands out is
  in the class of its first one: opened by the same side, with the same directions. So the four
  issuers of the two ends of a connection never collide.
\<close>

theorem issued_ids:
  assumes "n \<le> 2 ^ 62"
  shows "distinct (issue n i) \<and>
    (\<forall>x \<in> set (issue n i). IsServerInitiated x = IsServerInitiated (nextID i) \<and>
       IsClientInitiated x = (\<not> IsServerInitiated (nextID i)) \<and>
       IsBidirectional x = IsBidirectional (nextID i) \<and>
       IsUnidirectional x = (\<not> IsBidirectional (nextID i)))"
proof -
  have "distinct (issue n i)"
    unfolding issue_eq distinct_map
    using assms by (auto intro!: inj_onI four_times_inj)
  then show ?thesis by (auto simp: issue_eq one_initiator one_direction)
qed

theorem issued_ids_witness:
  "issue 3 (NewIDIssuer ClientBidirectionalStart) = [1, 5, 9] \<and>
   distinct (issue 3 (NewIDIssuer ClientBidirectionalStart)) \<and> \<not> IsServerInitiated 5 \<and> IsBidirectional 9"
  using issued_ids [of 3 "NewIDIssuer ClientBidirectionalStart"]
  by (simp add: issue_eq NewIDIssuer_def ClientBidirectionalStart_def IsServerInitiated_def IsBidirectional_def upt_rec)

section \<open>A finished half is a drained stream\<close>

text \<open>
  What a reader of a bidirectional view relies on when the receiving half may have been reaped: from a
  drained state every read reports the end at once, without bytes and without blocking, for ever.
\<close>

locale drained_reader =
  fixes read_direct :: "u64 \<Rightarrow> 's \<Rightarrow> (bytes \<times> bool) read_outcome \<times> 's"
    and read_buf :: "nat \<Rightarrow> 's \<Rightarrow> bytes option read_outcome \<times> 's"
    and drained :: "'s \<Rightarrow> bool"
  assumes direct_end: "drained s \<Longrightarrow> fst (read_direct n s) = ReadOk ([], True)"
    and direct_stays: "drained s \<Longrightarrow> drained (snd (read_direct n s))"
    and buf_end: "drained s \<Longrightarrow> fst (read_buf k s) = ReadOk None"
    and buf_stays: "drained s \<Longrightarrow> drained (snd (read_buf k s))"
begin

fun reads :: "u64 list \<Rightarrow> 's \<Rightarrow> (bytes \<times> bool) read_outcome list" where
  "reads [] s = []"
| "reads (n # ns) s = fst (read_direct n s) # reads ns (snd (read_direct n s))"

fun buf_reads :: "nat list \<Rightarrow> 's \<Rightarrow> bytes option read_outcome list" where
  "buf_reads [] s = []"
| "buf_reads (k # ks) s = fst (read_buf k s) # buf_reads ks (snd (read_buf k s))"

lemma reads_drained: "drained s \<Longrightarrow> reads ns s = replicate (length ns) (ReadOk ([], True))"
  by (induction ns arbitrary: s) (simp_all add: direct_end direct_stays)

lemma buf_reads_drained: "drained s \<Longrightarrow> buf_reads ks s = replicate (length ks) (ReadOk None)"
  by (induction ks arbitrary: s) (simp_all add: buf_end buf_stays)

end

interpretation stub: drained_reader
  "\<lambda>n (_ :: finishedRecvStream). (ReadOk (fr_ReadDirectContext n), \<lparr>fr_id = i\<rparr>)"
  "\<lambda>k (_ :: finishedRecvStream). (ReadOk (fr_ReadContext k), \<lparr>fr_id = i\<rparr>)"
  "\<lambda>_. fr_EOF" for i
  by unfold_locales (simp_all add: fr_ReadDirectContext_def fr_ReadContext_def fr_EOF_def)

interpretation live: drained_reader ReadDirectContext ReadContext "\<lambda>(r, _). rs_EOF r"
  by unfold_locales
    (auto simp: ReadDirectContext_def ReadContext_def rs_EOF_def EOF_def oq_Read_def ReadDirect_def Let_def
      split: prod.splits)

text \<open>
  The stub that stands in for a reaped receiving half cannot be told from a live stream whose end
  has been read: any sequence of reads, direct or into a buffer, reports the end each time.
\<close>

theorem stub_reads_as_drained:
  assumes "rs_EOF r"
  shows "live.reads ns (r, uw) = map (\<lambda>n. ReadOk (fr_ReadDirectContext n)) ns \<and>
    live.buf_reads ks (r, uw) = map (\<lambda>k. ReadOk (fr_ReadContext k)) ks \<and>
    rs_EOF r = fr_EOF \<and> (queue (oq r) = [] \<longrightarrow> HasRecvData r = fr_HasRecvData)"
  using assms live.reads_drained [of "(r, uw)" ns] live.buf_reads_drained [of "(r, uw)" ks]
  by (simp add: fr_ReadDirectContext_def fr_ReadContext_def fr_EOF_def fr_HasRecvData_def map_replicate_const
      HasRecvData_def HasData_def)

theorem stub_reads_as_drained_witness:
  "let r = (newReceiveStream 0 1 8)\<lparr>oq := NewOrderingQueue\<lparr>eofReached := True\<rparr>\<rparr> in
    live.reads [4, 0] (r, newWithTriggerQueue) = [ReadOk ([], True), ReadOk ([], True)] \<and>
    live.buf_reads [9] (r, newWithTriggerQueue) = [ReadOk None] \<and> HasRecvData r = fr_HasRecvData"
  using stub_reads_as_drained [of "(newReceiveStream 0 1 8)\<lparr>oq := NewOrderingQueue\<lparr>eofReached := True\<rparr>\<rparr>"
      "[4, 0]" newWithTriggerQueue "[9]"]
  by (simp add: newReceiveStream_def NewOrderingQueue_def rs_EOF_def EOF_def fr_ReadDirectContext_def
      fr_ReadContext_def)

end
