(* ===== verification/Conn.thy ===== *)
theory Conn
  imports Ack_Handler Ack_Wire Send_Stream Stream_Id "HOL-Library.AList"
begin

text \<open>
  The connection (\<open>src/trsf/conn.go\<close>): the stream tables, the demultiplexing of inbound packets, the
  datagram path and the run loop that turns the components' requests into packets.

  \<^item> Stream objects live in the two heaps \<open>sendObjs\<close> and \<open>recvObjs\<close>, keyed by address; the tables,
    the queues and the closures of sent packets hold addresses, as the source holds pointers. A stream
    that has left its table can still be referenced from elsewhere. One counter, \<open>nextRef\<close>, supplies
    fresh addresses, also for messages and send actions, whose queues compare pointers.
  \<^item> The closures the connection hands to the sent-packet handler are the constructors of
    \<open>callback\<close>; \<open>run_callback\<close> is their bodies. \<open>run_events\<close> carries out the calls a method
    of the handler makes, in order.
  \<^item> The RTT statistics, read by the congestion controller and by the MTU tracker, are those of the
    handler; the function the controller registers with the tracker is called by \<open>announce\<close>.
  \<^item> Readings of the clock are arguments: one for each point of the run loop where the source reads
    it. In \<open>handlePacket\<close> the readings after the first one are a single argument.
  \<^item> A panic (a nil call, a division by zero, a negative slice length) is \<open>None\<close>.
  \<^item> A bounded channel is a list with its capacity checked; the timers of \<open>time.AfterFunc\<close> are the
    list \<open>removals\<close>.
  \<^item> \<open>congestionBlocked\<close> is an association list, and the loop over it goes from front to back, where
    the order of a Go map is not specified; nothing below depends on it.
  \<^item> Logging and the contexts are not modelled.
\<close>

section \<open>Data\<close>

record Message =
  m_PacketNumber :: PacketNumber
  m_Data :: bytes

record SendAction =
  fired :: bool
  sa_PacketNumber :: PacketNumber
  sa_Data :: "bytes option"
  sa_ACK :: "bytes option"

record pendingDatagram =
  payload :: bytes
  exempt :: bool

datatype callback =
    RangeACK ref SentRange int      \<comment> \<open>stream data: the MTU tracker, then \<open>rangeACK\<close>\<close>
  | RangeLost ref SentRange int
  | CancelLost ref
  | WindowACK ref u64
  | WindowLost ref
  | ProbeACK
  | ProbeLost
  | DatagramLost

record Streams =
  sendObjs :: "ref \<Rightarrow> sendStream option"
  recvObjs :: "ref \<Rightarrow> recvStream option"
  nextRef :: ref
  sendStreams :: "StreamID \<Rightarrow> ref option"
  recvStreams :: "StreamID \<Rightarrow> ref option"
  congestionBlocked :: "(StreamID \<times> ref) list"
  bidiIDIssuer :: IDIssuer
  uniIDIssuer :: IDIssuer
  sendTrigger :: "ref withTriggerQueue"
  updateWindow :: "ref withTriggerQueue"
  cancelTrigger :: "ref withTriggerQueue"
  sh :: "callback SentPacketHandler"
  cong :: newReno
  pt :: PacketNumTracker
  recv :: "(ref \<times> Message) withTriggerQueue"
  send :: "(ref \<times> SendAction) withTriggerQueue"
  isServer :: bool
  newRecvStreamQueue :: "ref list"
  newBidiStreamQueue :: "(ref \<times> ref) list"
  sentCounter :: u64
  mtuTracker :: MTUTracker
  loopIter :: u64
  blockedNs :: u64
  blocks :: u64
  parkStartNs :: time
  wakeTimer :: u64
  wakeSend :: u64
  armedPacer :: u64
  recvStreamGraceNs :: duration
  removals :: "(time \<times> StreamID) list"
  datagramRecv :: "bytes list"
  datagramsReceived :: u64
  datagramsDroppedRcv :: u64
  isDatagramKind :: "(u8 \<Rightarrow> bool) option"
  datagramSend :: "pendingDatagram list"
  datagramTrigger :: trigger
  datagramsSent :: u64
  datagramsSentUncontrolled :: u64
  datagramsLost :: u64
  datagramsDroppedOversize :: u64
  datagramsDroppedCongest :: u64
  datagramsDroppedSendQueue :: u64
  unroutedTransportKind :: u64

definition DefaultInitialMTU :: int where "DefaultInitialMTU = 1200"
definition ipv6UDPHeaderBytes :: int where "ipv6UDPHeaderBytes = 48"
definition DefaultMaxMTU :: int where "DefaultMaxMTU = 1500 - ipv6UDPHeaderBytes"

definition NewStreams :: "bool \<Rightarrow> int \<Rightarrow> int \<Rightarrow> u64 \<Rightarrow> Streams" where
  "NewStreams server initialMTU maxMTU pnStart =
     (let rt = NewRTTStats (333 * Millisecond);
          m = NewMTUTracker initialMTU maxMTU (30 * Second) in
      \<lparr>sendObjs = (\<lambda>_. None), recvObjs = (\<lambda>_. None), nextRef = 0, sendStreams = (\<lambda>_. None),
       recvStreams = (\<lambda>_. None), congestionBlocked = [],
       bidiIDIssuer = NewIDIssuer (if server then ServerBidirectionalStart else ClientBidirectionalStart),
       uniIDIssuer = NewIDIssuer (if server then ServerUnidirectionalStart else ClientUnidirectionalStart),
       sendTrigger = newWithTriggerQueue, updateWindow = newWithTriggerQueue,
       cancelTrigger = newWithTriggerQueue, sh = NewSentPacketHandler rt,
       cong = NewNewReno (CurrentMTU m) (SRTT rt), pt = NewPacketNumTracker, recv = newWithTriggerQueue,
       send = newWithTriggerQueue, isServer = server, newRecvStreamQueue = [], newBidiStreamQueue = [],
       sentCounter = pnStart, mtuTracker = m, loopIter = 0, blockedNs = 0, blocks = 0, parkStartNs = 0,
       wakeTimer = 0, wakeSend = 0, armedPacer = 0, recvStreamGraceNs = 60 * Second, removals = [],
       datagramRecv = [], datagramsReceived = 0, datagramsDroppedRcv = 0, isDatagramKind = None,
       datagramSend = [], datagramTrigger = newTrigger, datagramsSent = 0, datagramsSentUncontrolled = 0,
       datagramsLost = 0, datagramsDroppedOversize = 0, datagramsDroppedCongest = 0,
       datagramsDroppedSendQueue = 0, unroutedTransportKind = 0\<rparr>)"

text \<open>\<open>ConsumePacketNumber\<close> of the packet-number issuer (\<open>src/objproto/objproto.go\<close>).\<close>

definition ConsumePacketNumber :: "Streams \<Rightarrow> PacketNumber \<times> Streams" where
  "ConsumePacketNumber s = (let n = sentCounter s + 1 in (n, s\<lparr>sentCounter := n\<rparr>))"

definition SetRecvStreamRemovalGrace :: "duration \<Rightarrow> Streams \<Rightarrow> Streams" where
  "SetRecvStreamRemovalGrace d s = s\<lparr>recvStreamGraceNs := d\<rparr>"

text \<open>A method of a stream object, run on the object at an address.\<close>

definition on_send :: "ref \<Rightarrow> (send_state \<Rightarrow> send_state) \<Rightarrow> Streams \<Rightarrow> Streams" where
  "on_send p f s =
     (case sendObjs s p of
        None \<Rightarrow> s
      | Some r \<Rightarrow> let (r, t) = f (r, sendTrigger s) in s\<lparr>sendObjs := (sendObjs s)(p := Some r), sendTrigger := t\<rparr>)"

definition on_recv :: "ref \<Rightarrow> (recvStream \<Rightarrow> recvStream) \<Rightarrow> Streams \<Rightarrow> Streams" where
  "on_recv p f s =
     (case recvObjs s p of None \<Rightarrow> s | Some r \<Rightarrow> s\<lparr>recvObjs := (recvObjs s)(p := Some (f r))\<rparr>)"

text \<open>\<open>EOF()\<close> of the receiving stream at an address.\<close>

definition recv_EOF :: "ref \<Rightarrow> Streams \<Rightarrow> bool" where
  "recv_EOF p s = (case recvObjs s p of None \<Rightarrow> False | Some r \<Rightarrow> rs_EOF r)"

section \<open>Calls made by the sent-packet handler\<close>

definition announce :: "int option \<times> MTUTracker \<Rightarrow> Streams \<Rightarrow> Streams" where
  "announce = (\<lambda>(upd, m) s.
     let s = s\<lparr>mtuTracker := m\<rparr> in
     case upd of None \<Rightarrow> s | Some x \<Rightarrow> s\<lparr>cong := reno_OnMTU x (cong s)\<rparr>)"

abbreviation smoothed :: "Streams \<Rightarrow> duration" where
  "smoothed s \<equiv> SRTT (rtt (sh s))"

fun run_callback :: "callback \<Rightarrow> time \<Rightarrow> Streams \<Rightarrow> Streams" where
  "run_callback (RangeACK p sr n) now s =
     on_send p (onACK sr) (s\<lparr>mtuTracker := OnLargePacketACKed n now (mtuTracker s)\<rparr>)"
| "run_callback (RangeLost p sr n) now s =
     on_send p (onLost sr) (announce (OnLargePacketLost (smoothed s) n now (mtuTracker s)) s)"
| "run_callback (CancelLost p) now s =
     (if recv_EOF p s then s else s\<lparr>cancelTrigger := tq_Push p (cancelTrigger s)\<rparr>)"
| "run_callback (WindowACK p w) now s = on_recv p (onWindowAck w) s"
| "run_callback (WindowLost p) now s =
     (if recv_EOF p s then s else s\<lparr>updateWindow := tq_Push p (updateWindow s)\<rparr>)"
| "run_callback ProbeACK now s = announce (mt_OnACK now (mtuTracker s)) s"
| "run_callback ProbeLost now s = announce (mt_OnLost now (mtuTracker s)) s"
| "run_callback DatagramLost now s = s\<lparr>datagramsLost := datagramsLost s + 1\<rparr>"

fun run_event :: "callback ah_event \<Rightarrow> Streams \<Rightarrow> Streams option" where
  "run_event (Call cb now) s = Some (run_callback cb now s)"
| "run_event NilCall s = None"
| "run_event (CcSend n now) s =
     Some (s\<lparr>cong := reno_RecordSend (smoothed s) (CurrentMTU (mtuTracker s)) n now (cong s)\<rparr>)"
| "run_event (CcACK n now) s = map_option (\<lambda>c. s\<lparr>cong := c\<rparr>) (RecordACK n now (cong s))"
| "run_event (CcLoss n now) s = Some (s\<lparr>cong := RecordLoss (CurrentMTU (mtuTracker s)) n now (cong s)\<rparr>)"

fun run_events :: "callback ah_event list \<Rightarrow> Streams \<Rightarrow> Streams option" where
  "run_events [] s = Some s"
| "run_events (e # es) s = Option.bind (run_event e s) (run_events es)"

definition on_sent :: "callback SentPacket \<Rightarrow> Streams \<Rightarrow> Streams option" where
  "on_sent p s = (let (evs, h) = OnSent p (sh s) in run_events evs (s\<lparr>sh := h\<rparr>))"

definition can_send :: "Streams \<Rightarrow> bool" where
  "can_send s = ah_CanSend (cong s) (sh s)"

text \<open>\<open>s.send.Push(&SendAction{...})\<close>: every action is a new object.\<close>

definition push_action :: "SendAction \<Rightarrow> Streams \<Rightarrow> Streams" where
  "push_action a s = s\<lparr>send := tq_Push (nextRef s, a) (send s), nextRef := nextRef s + 1\<rparr>"

definition data_action :: "PacketNumber \<Rightarrow> bytes \<Rightarrow> bytes option \<Rightarrow> SendAction" where
  "data_action pn data ack = \<lparr>fired = False, sa_PacketNumber = pn, sa_Data = Some data, sa_ACK = ack\<rparr>"

definition ack_action :: "bytes option \<Rightarrow> SendAction" where
  "ack_action ack = \<lparr>fired = False, sa_PacketNumber = 0, sa_Data = None, sa_ACK = ack\<rparr>"

section \<open>Opening and finding streams\<close>

definition CreateBidirectionalStream :: "Streams \<Rightarrow> (ref \<times> ref) \<times> Streams" where
  "CreateBidirectionalStream r =
     (let (i, iss) = IDIssuer_Next (bidiIDIssuer r);
          p = nextRef r; q = nextRef r + 1;
          ss = newSendStream p i (newFlowController (uint InitialFlowWindow));
          rs = newReceiveStream q i InitialFlowWindow;
          ss = ss\<lparr>pendingOpen := True\<rparr> in
      ((p, q),
       r\<lparr>bidiIDIssuer := iss, nextRef := nextRef r + 2,
         sendObjs := (sendObjs r)(p := Some ss), recvObjs := (recvObjs r)(q := Some rs),
         sendStreams := (sendStreams r)(i := Some p), recvStreams := (recvStreams r)(i := Some q),
         sendTrigger := PushBecause p pushOther (sendTrigger r)\<rparr>))"

definition CreateSendStream :: "Streams \<Rightarrow> ref \<times> Streams" where
  "CreateSendStream r =
     (let (i, iss) = IDIssuer_Next (uniIDIssuer r);
          p = nextRef r;
          ss = newSendStream p i (newFlowController (uint InitialFlowWindow));
          ss = ss\<lparr>pendingOpen := True\<rparr> in
      (p,
       r\<lparr>uniIDIssuer := iss, nextRef := nextRef r + 1,
         sendObjs := (sendObjs r)(p := Some ss), sendStreams := (sendStreams r)(i := Some p),
         sendTrigger := PushBecause p pushOther (sendTrigger r)\<rparr>))"

definition getRecvStream :: "StreamID \<Rightarrow> Streams \<Rightarrow> ref option \<times> Streams" where
  "getRecvStream streamID s =
     (case recvStreams s streamID of
        Some q \<Rightarrow> (Some q, s)
      | None \<Rightarrow>
          if \<not> isServer s \<and> IsServerInitiated streamID \<or> isServer s \<and> IsClientInitiated streamID then
            let q = nextRef s;
                rs = newReceiveStream q streamID InitialFlowWindow;
                s = s\<lparr>nextRef := nextRef s + 1, recvObjs := (recvObjs s)(q := Some rs),
                      recvStreams := (recvStreams s)(streamID := Some q)\<rparr> in
            if IsBidirectional streamID then
              let p = nextRef s;
                  sd = newSendStream p streamID (newFlowController (uint InitialFlowWindow));
                  s = s\<lparr>nextRef := nextRef s + 1, sendObjs := (sendObjs s)(p := Some sd),
                        sendStreams := (sendStreams s)(streamID := Some p)\<rparr> in
              (Some q, if length (newBidiStreamQueue s) < 100
                       then s\<lparr>newBidiStreamQueue := newBidiStreamQueue s @ [(p, q)]\<rparr> else s)
            else
              (Some q, if length (newRecvStreamQueue s) < 100
                       then s\<lparr>newRecvStreamQueue := newRecvStreamQueue s @ [q]\<rparr> else s)
          else (None, s))"

definition GetSendStream :: "StreamID \<Rightarrow> Streams \<Rightarrow> ref option" where
  "GetSendStream i s = sendStreams s i"

definition GetReceiveStream :: "StreamID \<Rightarrow> Streams \<Rightarrow> ref option" where
  "GetReceiveStream i s = recvStreams s i"

text \<open>A half of a bidirectional view: a stream, or the stub for a finished one.\<close>

datatype half = Live ref | Finished StreamID

definition GetBidirectionalStream :: "StreamID \<Rightarrow> Streams \<Rightarrow> (half \<times> half) option" where
  "GetBidirectionalStream i s =
     (if \<not> IsBidirectional i then None
      else if recvStreams s i = None \<and> sendStreams s i = None then None
      else Some (case sendStreams s i of None \<Rightarrow> Finished i | Some p \<Rightarrow> Live p,
                 case recvStreams s i of None \<Rightarrow> Finished i | Some q \<Rightarrow> Live q))"

text \<open>\<open>None\<close>: the call blocks.\<close>

definition AcceptReceiveStream :: "Streams \<Rightarrow> (ref \<times> Streams) option" where
  "AcceptReceiveStream s =
     (case newRecvStreamQueue s of [] \<Rightarrow> None | q # qs \<Rightarrow> Some (q, s\<lparr>newRecvStreamQueue := qs\<rparr>))"

definition AcceptBidirectionalStream :: "Streams \<Rightarrow> ((ref \<times> ref) \<times> Streams) option" where
  "AcceptBidirectionalStream s =
     (case newBidiStreamQueue s of [] \<Rightarrow> None | b # bs \<Rightarrow> Some (b, s\<lparr>newBidiStreamQueue := bs\<rparr>))"

definition removeRecvStream :: "StreamID \<Rightarrow> Streams \<Rightarrow> Streams" where
  "removeRecvStream streamID s = s\<lparr>recvStreams := (recvStreams s)(streamID := None)\<rparr>"

definition removeSendStream :: "StreamID \<Rightarrow> Streams \<Rightarrow> Streams" where
  "removeSendStream streamID s = s\<lparr>sendStreams := (sendStreams s)(streamID := None)\<rparr>"

definition scheduleRecvStreamRemoval :: "time \<Rightarrow> ref \<Rightarrow> Streams \<Rightarrow> Streams" where
  "scheduleRecvStreamRemoval now q s =
     (case recvObjs s q of
        None \<Rightarrow> s
      | Some rs \<Rightarrow>
          let (marked, rs') = markRemovalScheduled rs;
              s = s\<lparr>recvObjs := (recvObjs s)(q := Some rs')\<rparr> in
          if \<not> marked then s
          else s\<lparr>removals := removals s @ [(Add now (recvStreamGraceNs s), rs_id rs)]\<rparr>)"

text \<open>The two halves of a view at once.\<close>

definition CloseBoth :: "ref \<Rightarrow> ref \<Rightarrow> Streams \<Rightarrow> Streams" where
  "CloseBoth p q s =
     (let s = (case recvObjs s q of
                 None \<Rightarrow> s
               | Some r \<Rightarrow> let (r, c) = rs_Cancel (r, cancelTrigger s) in
                   s\<lparr>recvObjs := (recvObjs s)(q := Some r), cancelTrigger := c\<rparr>) in
      on_send p ss_Close s)"

section \<open>Inbound packets\<close>

definition MaxDatagramSize :: "Streams \<Rightarrow> int" where
  "MaxDatagramSize s = CurrentMTU (mtuTracker s) - fixedOverhead"

definition SetDatagramKinds :: "(u8 \<Rightarrow> bool) option \<Rightarrow> Streams \<Rightarrow> Streams" where
  "SetDatagramKinds fn s = s\<lparr>isDatagramKind := fn\<rparr>"

definition IsDatagramKind :: "u8 \<Rightarrow> Streams \<Rightarrow> bool" where
  "IsDatagramKind kind s =
     (if kind < USER_DEFINED_START then False
      else case isDatagramKind s of None \<Rightarrow> False | Some fn \<Rightarrow> fn kind)"

definition handleDatagram :: "time \<Rightarrow> Message \<Rightarrow> Streams \<Rightarrow> Streams" where
  "handleDatagram now recvData s =
     (let s = s\<lparr>pt := InsertUnacked now (m_PacketNumber recvData) (pt s)\<rparr> in
      if length (datagramRecv s) < 256
      then s\<lparr>datagramRecv := datagramRecv s @ [m_Data recvData], datagramsReceived := datagramsReceived s + 1\<rparr>
      else s\<lparr>datagramsDroppedRcv := datagramsDroppedRcv s + 1\<rparr>)"

definition handle_stream_data :: "time \<Rightarrow> PacketNumber \<Rightarrow> StreamPacket \<Rightarrow> Streams \<Rightarrow> Streams" where
  "handle_stream_data now pn data s =
     (let s = s\<lparr>pt := InsertUnacked now pn (pt s)\<rparr> in
      if IsProbe data then s
      else
        let streamID = (case StreamPacket_Id data of None \<Rightarrow> 0 | Some i \<Rightarrow> Varint_Value i) in
        case getRecvStream streamID s of
          (None, s) \<Rightarrow> s
        | (Some q, s) \<Rightarrow>
            let off = (case StreamPacket_Offset data of None \<Rightarrow> 0 | Some v \<Rightarrow> Varint_Value v);
                s = on_recv q (\<lambda>rs. case ProcessChunk off (sp_Data data) (IsEof data) rs of
                                      Inl e \<Rightarrow> rs | Inr (b, rs') \<Rightarrow> rs') s in
            if IsEof data \<or> recv_EOF q s then scheduleRecvStreamRemoval now q s else s)"

definition handle_ack :: "time \<Rightarrow> StreamACKPacket \<Rightarrow> Streams \<Rightarrow> Streams option" where
  "handle_ack now ack s =
     (let (ranges, ackDelay) = ParseTransferACK ack;
          (res, evs, h) = ReceiveACK now ranges ackDelay (sh s) in
      run_events evs (s\<lparr>sh := h\<rparr>))"

definition handle_window_update :: "time \<Rightarrow> PacketNumber \<Rightarrow> UpdateWindow \<Rightarrow> Streams \<Rightarrow> Streams" where
  "handle_window_update now pn uw s =
     (let s = s\<lparr>pt := InsertUnacked now pn (pt s)\<rparr> in
      case sendStreams s (Varint_Value (uw_Id uw)) of
        None \<Rightarrow> s
      | Some p \<Rightarrow> on_send p (updateFlowWindow (sint (Varint_Value (WindowMax uw)))) s)"

definition handle_cancel :: "time \<Rightarrow> PacketNumber \<Rightarrow> CancelStreamPacket \<Rightarrow> Streams \<Rightarrow> Streams" where
  "handle_cancel now pn cs s =
     (let s = s\<lparr>pt := InsertUnacked now pn (pt s)\<rparr> in
      case sendStreams s (Varint_Value (cs_Id cs)) of None \<Rightarrow> s | Some p \<Rightarrow> on_send p onCancel s)"

definition handlePacket :: "time \<Rightarrow> time \<Rightarrow> Message \<Rightarrow> Streams \<Rightarrow> Streams option" where
  "handlePacket t0 now recvData s =
     (let s = s\<lparr>mtuTracker := OnPeerActivity t0 (mtuTracker s)\<rparr> in
      if m_Data recvData \<noteq> [] \<and> IsDatagramKind (hd (m_Data recvData)) s
      then Some (handleDatagram now recvData s)
      else
        case StreamAppPacket_DecodeExact (m_Data recvData) of
          Inl e \<Rightarrow> Some s
        | Inr pkt \<Rightarrow>
            (case StreamData pkt of
               Some data \<Rightarrow> Some (handle_stream_data now (m_PacketNumber recvData) data s)
             | None \<Rightarrow>
               (case StreamAck pkt of
                  Some ack \<Rightarrow> handle_ack now ack s
                | None \<Rightarrow>
                  (case WindowUpdate pkt of
                     Some uw \<Rightarrow> Some (handle_window_update now (m_PacketNumber recvData) uw s)
                   | None \<Rightarrow>
                     (case StreamCancel pkt of
                        Some cs \<Rightarrow> Some (handle_cancel now (m_PacketNumber recvData) cs s)
                      | None \<Rightarrow> Some s)))))"

section \<open>Datagrams\<close>

datatype datagram_error =
    ErrDatagramTooLarge
  | ErrCongestionBlocked
  | ErrDatagramQueueFull
  | ErrDatagramKindReserved
  | ErrDatagramKindUnregistered

definition sendDatagram :: "bytes \<Rightarrow> bool \<Rightarrow> Streams \<Rightarrow> (datagram_error, unit) result \<times> Streams" where
  "sendDatagram b ex s =
     (if length b = 0 \<or> hd b < USER_DEFINED_START then (Inl ErrDatagramKindReserved, s)
      else if \<not> IsDatagramKind (hd b) s then (Inl ErrDatagramKindUnregistered, s)
      else if int (length b) > MaxDatagramSize s
      then (Inl ErrDatagramTooLarge, s\<lparr>datagramsDroppedOversize := datagramsDroppedOversize s + 1\<rparr>)
      else if \<not> ex \<and> \<not> can_send s
      then (Inl ErrCongestionBlocked, s\<lparr>datagramsDroppedCongest := datagramsDroppedCongest s + 1\<rparr>)
      else if length (datagramSend s) < 32
      then (Inr (), s\<lparr>datagramSend := datagramSend s @ [\<lparr>payload = b, exempt = ex\<rparr>],
                      datagramTrigger := Notify (datagramTrigger s)\<rparr>)
      else (Inl ErrDatagramQueueFull, s\<lparr>datagramsDroppedSendQueue := datagramsDroppedSendQueue s + 1\<rparr>))"

definition SendDatagram :: "bytes \<Rightarrow> Streams \<Rightarrow> (datagram_error, unit) result \<times> Streams" where
  "SendDatagram b s = sendDatagram b False s"

definition SendDatagramUncontrolled :: "bytes \<Rightarrow> Streams \<Rightarrow> (datagram_error, unit) result \<times> Streams" where
  "SendDatagramUncontrolled b s = sendDatagram b True s"

definition datagram_packet :: "pendingDatagram \<Rightarrow> PacketNumber \<Rightarrow> time \<Rightarrow> callback SentPacket" where
  "datagram_packet dg pn now =
     \<lparr>sp_OnACK = None, sp_OnLost = Some DatagramLost,
      PacketSize = fixedOverhead + int (length (payload dg)), sp_StreamID = 0, sp_PacketNumber = pn,
      SentTime = now, CongestionExempt = exempt dg, PathEvidence = True, Retransmittable = False,
      IsMTUProbe = False, sp_Kind = hd (payload dg)\<rparr>"

definition trySendDatagram :: "time \<Rightarrow> bytes option \<Rightarrow> Streams \<Rightarrow> (bool \<times> Streams) option" where
  "trySendDatagram now ack s =
     (case datagramSend s of
        [] \<Rightarrow> Some (False, s)
      | dg # dgs \<Rightarrow>
          let s = s\<lparr>datagramSend := dgs\<rparr> in
          if \<not> exempt dg \<and> \<not> can_send s
          then Some (False, s\<lparr>datagramsDroppedCongest := datagramsDroppedCongest s + 1\<rparr>)
          else
            let (pn, s) = ConsumePacketNumber s in
            map_option (\<lambda>s.
              let s = (if exempt dg then s\<lparr>datagramsSentUncontrolled := datagramsSentUncontrolled s + 1\<rparr>
                       else s\<lparr>datagramsSent := datagramsSent s + 1\<rparr>) in
              (True, push_action (data_action pn (payload dg) ack) s))
              (on_sent (datagram_packet dg pn now) s))"

definition ReceiveDatagram :: "Streams \<Rightarrow> (bytes \<times> Streams) option" where
  "ReceiveDatagram s =
     (case datagramRecv s of [] \<Rightarrow> None | b # bs \<Rightarrow> Some (b, s\<lparr>datagramRecv := bs\<rparr>))"

definition noteUnroutedTransportKind :: "u8 \<Rightarrow> Streams \<Rightarrow> Streams" where
  "noteUnroutedTransportKind kind s = s\<lparr>unroutedTransportKind := unroutedTransportKind s + 1\<rparr>"

section \<open>The seam to the network\<close>

definition Streams_Send :: "Message \<Rightarrow> Streams \<Rightarrow> Streams" where
  "Streams_Send msg s = s\<lparr>recv := tq_Push (nextRef s, msg) (recv s), nextRef := nextRef s + 1\<rparr>"

text \<open>One pass of the loop of \<open>Recv\<close>: \<open>None\<close> waits for a notification.\<close>

definition Streams_Recv :: "Streams \<Rightarrow> SendAction option \<times> Streams" where
  "Streams_Recv s = (let (x, q) = Pop (send s) in (map_option snd x, s\<lparr>send := q\<rparr>))"

text \<open>
  \<open>SendAction.Send\<close>: the messages handed to the transport, in order, with the packet number where
  one is given; \<open>ok\<close> is what the transport answers to the first message.
\<close>

definition SendAction_Send :: "bool \<Rightarrow> SendAction \<Rightarrow> (bytes \<times> PacketNumber option) list \<times> SendAction" where
  "SendAction_Send ok a =
     (if fired a then ([], a)
      else
        let a = a\<lparr>fired := True\<rparr>;
            acks = (case sa_ACK a of None \<Rightarrow> [] | Some b \<Rightarrow> [(b, None)]) in
        if acks \<noteq> [] \<and> \<not> ok then (acks, a)
        else (acks @ (case sa_Data a of None \<Rightarrow> [] | Some b \<Rightarrow> [(b, Some (sa_PacketNumber a))]), a))"

section \<open>The run loop\<close>

datatype wakeReason =
    wokeNothing | wokeTimer | wokeSend | wokeWindow | wokeCancel | wokeAck | wokeRecv | wokeSentHandler

definition resumesLoop :: "wakeReason \<Rightarrow> bool" where
  "resumesLoop r \<longleftrightarrow> r = wokeRecv \<or> r = wokeSentHandler"

definition noteWake :: "time \<Rightarrow> time \<Rightarrow> wakeReason \<Rightarrow> Streams \<Rightarrow> Streams" where
  "noteWake now parkStart r s =
     (let s = s\<lparr>parkStartNs := 0, blockedNs := blockedNs s + word_of_int (Sub now parkStart)\<rparr> in
      case r of
        wokeTimer \<Rightarrow> s\<lparr>wakeTimer := wakeTimer s + 1\<rparr>
      | wokeSend \<Rightarrow> s\<lparr>wakeSend := wakeSend s + 1\<rparr>
      | _ \<Rightarrow> s)"

definition blockedNsNow :: "time \<Rightarrow> Streams \<Rightarrow> u64" where
  "blockedNsNow now s =
     (if parkStartNs s \<noteq> 0 \<and> now - parkStartNs s > 0
      then blockedNs s + word_of_int (now - parkStartNs s) else blockedNs s)"

definition nextWakeDeadline :: "time \<Rightarrow> Streams \<Rightarrow> (time \<times> bool) option" where
  "nextWakeDeadline now s =
     (let deadline = LossDetectionTimeout (sh s);
          deadline = (case NextDeadline now (mtuTracker s) of
                        None \<Rightarrow> deadline
                      | Some m \<Rightarrow> if IsZero deadline \<or> Before m deadline then m else deadline) in
      if can_send s \<and> Len (sendTrigger s) > 0 then
        map_option (\<lambda>pacer.
          if \<not> IsZero pacer \<and> (IsZero deadline \<or> Before pacer deadline) then (pacer, True) else (deadline, False))
          (PacingTimeout (cong s) (sh s))
      else Some (deadline, False))"

text \<open>The head of an iteration: streams parked for congestion come back once the window is open.\<close>

definition revive_blocked :: "Streams \<Rightarrow> Streams" where
  "revive_blocked s =
     (if congestionBlocked s \<noteq> [] \<and> can_send s
      then s\<lparr>congestionBlocked := [],
             sendTrigger := fold (\<lambda>b. PushBecause (snd b) pushCwnd) (congestionBlocked s) (sendTrigger s)\<rparr>
      else s)"

text \<open>The \<open>select\<close>: which arm is taken, if it is ready.\<close>

datatype arm = ArmTimer | ArmSend | ArmDatagram | ArmWindow | ArmCancel | ArmAck | ArmRecv | ArmSentHandler

definition select :: "time \<Rightarrow> time \<Rightarrow> arm \<Rightarrow> Streams \<Rightarrow> (wakeReason \<times> Streams) option" where
  "select now deadline a s =
     (case a of
        ArmTimer \<Rightarrow> if \<not> IsZero deadline \<and> deadline \<le> now then Some (wokeTimer, s) else None
      | ArmSend \<Rightarrow> map_option (\<lambda>q. (wokeSend, s\<lparr>sendTrigger := q\<rparr>)) (Notification (sendTrigger s))
      | ArmDatagram \<Rightarrow> map_option (\<lambda>q. (wokeSend, s\<lparr>datagramTrigger := q\<rparr>)) (Notification (datagramTrigger s))
      | ArmWindow \<Rightarrow> map_option (\<lambda>q. (wokeWindow, s\<lparr>updateWindow := q\<rparr>)) (Notification (updateWindow s))
      | ArmCancel \<Rightarrow> map_option (\<lambda>q. (wokeCancel, s\<lparr>cancelTrigger := q\<rparr>)) (Notification (cancelTrigger s))
      | ArmAck \<Rightarrow> if recvAdded (pt s) then Some (wokeAck, s\<lparr>pt := (pt s)\<lparr>recvAdded := False\<rparr>\<rparr>) else None
      | ArmRecv \<Rightarrow> map_option (\<lambda>q. (wokeRecv, s\<lparr>recv := q\<rparr>)) (Notification (recv s))
      | ArmSentHandler \<Rightarrow> map_option (\<lambda>h. (wokeSentHandler, s\<lparr>sh := h\<rparr>)) (Notification (sh s)))"

text \<open>The send half of an iteration, in the order of the source; the clock readings it makes.\<close>

record clock =
  at_wake :: time
  at_ack :: time
  at_send :: time
  at_probe :: time

definition loss_timeout :: "time \<Rightarrow> Streams \<Rightarrow> (bool \<times> Streams) option" where
  "loss_timeout now s =
     (let lossTimeout = LossDetectionTimeout (sh s) in
      if \<not> IsZero lossTimeout \<and> After now lossTimeout then
        let (res, evs, h) = OnTimeout now (sh s) in
        map_option (Pair (case res of Inl e \<Rightarrow> False | Inr isPTO \<Rightarrow> isPTO)) (run_events evs (s\<lparr>sh := h\<rparr>))
      else Some (False, s))"

definition make_ack :: "time \<Rightarrow> Streams \<Rightarrow> bytes option \<times> Streams" where
  "make_ack now s =
     (let ((ackRanges, ackHeld), t) = GenerateACK now (pt s);
          s = s\<lparr>pt := t\<rparr> in
      if length ackRanges > 0 then
        (case TransferACK ackRanges ackHeld of
           Inl e \<Rightarrow> (None, s)
         | Inr ackPkt \<Rightarrow>
             (case StreamACKPacket_Append ackPkt [ApplicationPayloadKind_StreamAck] of
                Inl e \<Rightarrow> (None, s)
              | Inr encodedAck \<Rightarrow> (Some encodedAck, s)))
      else (None, s))"

definition encode_cancel :: "StreamID \<Rightarrow> bytes option" where
  "encode_cancel i =
     (let (encodedID, ok) = EncodeVarint i in
      if \<not> ok then None
      else case CancelStreamPacket_Append \<lparr>cs_Id = encodedID\<rparr> [ApplicationPayloadKind_StreamCancel] of
             Inl e \<Rightarrow> None | Inr b \<Rightarrow> Some b)"

definition encode_window :: "StreamID \<Rightarrow> u64 \<Rightarrow> bytes option" where
  "encode_window i w =
     (let (encodedID, ok1) = EncodeVarint i; (encodedSize, ok2) = EncodeVarint w in
      if \<not> ok1 then None
      else if \<not> ok2 then None
      else case UpdateWindow_Append \<lparr>uw_Id = encodedID, WindowMax = encodedSize\<rparr>
                  [ApplicationPayloadKind_StreamWindowUpdate] of
             Inl e \<Rightarrow> None | Inr b \<Rightarrow> Some b)"

definition encode_stream :: "StreamID \<Rightarrow> SentRange \<Rightarrow> bytes option" where
  "encode_stream i sr =
     (let pkt = StreamPacket_zero;
          (encodedID, ok1) = EncodeVarint i;
          (encodedOffset, ok2) = EncodeVarint (sr_Offset sr) in
      if i \<noteq> 0 \<and> \<not> ok1 then None
      else
        let pkt = (if i \<noteq> 0 then StreamPacket_SetId (SetHasId pkt True) encodedID else pkt) in
        if sr_Offset sr \<noteq> 0 \<and> \<not> ok2 then None
        else
          let pkt = (if sr_Offset sr \<noteq> 0 then StreamPacket_SetOffset (SetHasOffset pkt True) encodedOffset else pkt);
              pkt = (SetIsEof pkt (sr_Eof sr))\<lparr>sp_Data := sr_Data sr\<rparr> in
          case StreamPacket_Append pkt [ApplicationPayloadKind_StreamData] of Inl e \<Rightarrow> None | Inr b \<Rightarrow> Some b)"

definition encode_probe :: "int \<Rightarrow> bytes option" where
  "encode_probe probe =
     (let pkt = (SetIsProbe StreamPacket_zero True)\<lparr>sp_Data := replicate (nat (probe - fixedOverhead)) 0\<rparr> in
      case StreamPacket_Append pkt [ApplicationPayloadKind_StreamData] of Inl e \<Rightarrow> None | Inr b \<Rightarrow> Some b)"

definition control_packet ::
  "u8 \<Rightarrow> callback option \<Rightarrow> callback \<Rightarrow> StreamID \<Rightarrow> PacketNumber \<Rightarrow> int \<Rightarrow> time \<Rightarrow> callback SentPacket" where
  "control_packet kind onack onlost i pn n now =
     \<lparr>sp_OnACK = onack, sp_OnLost = Some onlost, PacketSize = n, sp_StreamID = i, sp_PacketNumber = pn,
      SentTime = now, CongestionExempt = False, PathEvidence = True, Retransmittable = True,
      IsMTUProbe = False, sp_Kind = kind\<rparr>"

definition probe_packet :: "PacketNumber \<Rightarrow> int \<Rightarrow> time \<Rightarrow> callback SentPacket" where
  "probe_packet pn probe now =
     \<lparr>sp_OnACK = Some ProbeACK, sp_OnLost = Some ProbeLost, PacketSize = probe, sp_StreamID = 0,
      sp_PacketNumber = pn, SentTime = now, CongestionExempt = True, PathEvidence = False,
      Retransmittable = False, IsMTUProbe = True, sp_Kind = ApplicationPayloadKind_StreamData\<rparr>"

text \<open>A stream popped from \<open>sendTrigger\<close> that has completed leaves its table and is not served.\<close>

definition drop_completed :: "ref option \<Rightarrow> Streams \<Rightarrow> ref option \<times> Streams" where
  "drop_completed st s =
     (case st of
        None \<Rightarrow> (None, s)
      | Some p \<Rightarrow>
          (case sendObjs s p of
             None \<Rightarrow> (st, s)
           | Some r \<Rightarrow> if Completed r then (None, removeSendStream (ss_id r) s) else (st, s)))"

text \<open>The window is closed: only an acknowledgement goes out, and what was popped is put back or parked.\<close>

definition congestion_gate :: "bytes option \<Rightarrow> ref option \<Rightarrow> ref option \<Rightarrow> ref option \<Rightarrow> Streams \<Rightarrow> Streams" where
  "congestion_gate ack uw cs st s =
     (let s = (if ack \<noteq> None then push_action (ack_action ack) s else s);
          s = (case cs of
                 None \<Rightarrow> s
               | Some q \<Rightarrow> if recv_EOF q s then s else s\<lparr>cancelTrigger := tq_Push q (cancelTrigger s)\<rparr>);
          s = (case uw of
                 None \<Rightarrow> s
               | Some q \<Rightarrow> if recv_EOF q s then s else s\<lparr>updateWindow := tq_Push q (updateWindow s)\<rparr>) in
      case st of
        None \<Rightarrow> s
      | Some p \<Rightarrow>
          (case sendObjs s p of
             None \<Rightarrow> s
           | Some r \<Rightarrow> s\<lparr>congestionBlocked := AList.update (ss_id r) p (congestionBlocked s)\<rparr>))"

definition repush_stream :: "ref option \<Rightarrow> Streams \<Rightarrow> Streams" where
  "repush_stream st s =
     (case st of None \<Rightarrow> s | Some p \<Rightarrow> s\<lparr>sendTrigger := PushBecause p pushSelf (sendTrigger s)\<rparr>)"

definition send_cancel ::
  "time \<Rightarrow> bytes option \<Rightarrow> ref \<Rightarrow> recvStream \<Rightarrow> ref option \<Rightarrow> ref option \<Rightarrow> Streams \<Rightarrow> Streams option" where
  "send_cancel now ack q rs uw st s =
     (let (pn, s) = ConsumePacketNumber s in
      map_option (\<lambda>s.
        case encode_cancel (rs_id rs) of
          None \<Rightarrow> s
        | Some encodedCancel \<Rightarrow>
            let s = push_action (data_action pn encodedCancel ack) s;
                s = scheduleRecvStreamRemoval now q s;
                s = repush_stream st s in
            (case uw of None \<Rightarrow> s | Some w \<Rightarrow> s\<lparr>updateWindow := tq_Push w (updateWindow s)\<rparr>))
        (on_sent (control_packet ApplicationPayloadKind_StreamCancel None (CancelLost q) (rs_id rs) pn
                    (fixedOverhead + payloadOverhead) now) s))"

definition send_window ::
  "time \<Rightarrow> bytes option \<Rightarrow> ref \<Rightarrow> recvStream \<Rightarrow> ref option \<Rightarrow> Streams \<Rightarrow> Streams option" where
  "send_window now ack q rs st s =
     (let newWindow = rs_Window rs; (pn, s) = ConsumePacketNumber s in
      map_option (\<lambda>s.
        case encode_window (rs_id rs) newWindow of
          None \<Rightarrow> s
        | Some encodedWindow \<Rightarrow> repush_stream st (push_action (data_action pn encodedWindow ack) s))
        (on_sent (control_packet ApplicationPayloadKind_StreamWindowUpdate (Some (WindowACK q newWindow))
                    (WindowLost q) (rs_id rs) pn (fixedOverhead + payloadOverhead) now) s))"

text \<open>Stream data; the flag says that the iteration ends here (the packet could not be encoded).\<close>

definition send_data :: "time \<Rightarrow> bytes option \<Rightarrow> ref option \<Rightarrow> Streams \<Rightarrow> (bool \<times> Streams) option" where
  "send_data now ack st s =
     (case st of
        None \<Rightarrow> Some (False, s)
      | Some p \<Rightarrow>
          (case sendObjs s p of
             None \<Rightarrow> Some (False, s)
           | Some r \<Rightarrow>
               let maxPayload = CurrentMTU (mtuTracker s) - fixedOverhead;
                   (sentRange, r', t) = triggerPacket maxPayload (r, sendTrigger s);
                   s = s\<lparr>sendObjs := (sendObjs s)(p := Some r'), sendTrigger := t\<rparr> in
               case sentRange of
                 None \<Rightarrow> Some (False, s)
               | Some sr \<Rightarrow>
                   let (pn, s) = ConsumePacketNumber s;
                       n = fixedOverhead + payloadOverhead + int (length (sr_Data sr)) in
                   map_option (\<lambda>s.
                     case encode_stream (ss_id r) sr of
                       None \<Rightarrow> (True, s)
                     | Some encodedPkt \<Rightarrow> (False, push_action (data_action pn encodedPkt ack) s))
                     (on_sent (control_packet ApplicationPayloadKind_StreamData (Some (RangeACK p sr n))
                                 (RangeLost p sr n) (ss_id r) pn n now) s)))"

text \<open>The MTU probe, and otherwise the acknowledgement on its own.\<close>

definition send_probe :: "time \<Rightarrow> bytes option \<Rightarrow> Streams \<Rightarrow> Streams option" where
  "send_probe now ack s =
     (let (probe, m) = Probe now (mtuTracker s); s = s\<lparr>mtuTracker := m\<rparr> in
      if probe \<noteq> - 1 then
        let (pn, s) = ConsumePacketNumber s in
        Option.bind (on_sent (probe_packet pn probe now) s) (\<lambda>s.
          if probe - fixedOverhead < 0 then None
          else case encode_probe probe of
                 None \<Rightarrow> Some s
               | Some data \<Rightarrow> Some (push_action (data_action pn data ack) s))
      else if ack \<noteq> None then Some (push_action (ack_action ack) s)
      else Some s)"

text \<open>The receiving stream at an address, when there is one and it has not reached its end.\<close>

definition open_recv :: "ref option \<Rightarrow> Streams \<Rightarrow> (ref \<times> recvStream) option" where
  "open_recv x s =
     (case x of
        None \<Rightarrow> None
      | Some q \<Rightarrow> (case recvObjs s q of None \<Rightarrow> None | Some rs \<Rightarrow> if rs_EOF rs then None else Some (q, rs)))"

definition pop_work :: "Streams \<Rightarrow> (ref option \<times> ref option \<times> ref option) \<times> Streams" where
  "pop_work s =
     (let (uw, q1) = Pop (updateWindow s);
          (cs, q2) = Pop (cancelTrigger s);
          (st, q3) = Pop (sendTrigger s);
          (st, s) = drop_completed st (s\<lparr>updateWindow := q1, cancelTrigger := q2, sendTrigger := q3\<rparr>) in
      ((uw, cs, st), s))"

definition send_work :: "clock \<Rightarrow> bool \<Rightarrow> bytes option \<Rightarrow> Streams \<Rightarrow> Streams option" where
  "send_work clk isPTO ack s =
     (let ((uw, cs, st), s) = pop_work s in
      if \<not> can_send s \<and> \<not> isPTO then Some (congestion_gate ack uw cs st s)
      else
        case open_recv cs s of
          Some (q, rs) \<Rightarrow> send_cancel (at_send clk) ack q rs uw st s
        | None \<Rightarrow>
            (case open_recv uw s of
               Some (q, rs) \<Rightarrow> send_window (at_send clk) ack q rs st s
             | None \<Rightarrow>
                 Option.bind (send_data (at_send clk) ack st s) (\<lambda>(done, s).
                   if done then Some s else send_probe (at_probe clk) ack s)))"

definition send_half :: "clock \<Rightarrow> Streams \<Rightarrow> Streams option" where
  "send_half clk s =
     Option.bind (loss_timeout (at_wake clk) s) (\<lambda>(isPTO, s).
       let (ack, s) = make_ack (at_ack clk) s in
       Option.bind (trySendDatagram (at_send clk) ack s) (\<lambda>(taken, s).
         if taken then Some s else send_work clk isPTO ack s))"

text \<open>
  An iteration of \<open>run\<close> from its head: it handles one received message, or parks (\<open>Inr\<close>, with the
  deadline of the timer).
\<close>

definition loop_head :: "time \<Rightarrow> time \<Rightarrow> Streams \<Rightarrow> (Streams + time \<times> Streams) option" where
  "loop_head t0 now s =
     (let s = revive_blocked (s\<lparr>loopIter := loopIter s + 1\<rparr>);
          (recvedData, q) = Pop (recv s);
          s = s\<lparr>recv := q\<rparr> in
      case recvedData of
        Some (x, msg) \<Rightarrow> map_option Inl (handlePacket t0 now msg s)
      | None \<Rightarrow>
          map_option (\<lambda>(deadline, fromPacer).
            let s = s\<lparr>blocks := blocks s + 1\<rparr>;
                s = (if fromPacer then s\<lparr>armedPacer := armedPacer s + 1\<rparr> else s) in
            Inr (deadline, s\<lparr>parkStartNs := now\<rparr>))
            (nextWakeDeadline now s))"

text \<open>The end of the park: the arm taken, then the send half unless the wake only resumes the loop.\<close>

definition loop_tail :: "time \<Rightarrow> time \<Rightarrow> clock \<Rightarrow> arm \<Rightarrow> Streams \<Rightarrow> Streams option option" where
  "loop_tail parkStart deadline clk a s =
     map_option (\<lambda>(woke, s).
       let s = noteWake (at_wake clk) parkStart woke s in
       if resumesLoop woke then Some s else send_half clk s)
       (select (at_wake clk) deadline a s)"

end
