(* ===== verification/Conn_Inv.thy ===== *)
theory Conn_Inv
  imports Conn
begin

text \<open>
  The invariant of the connection of theory \<open>Conn\<close>: no dangling references between the tables, the
  queues, the packets in flight and the stream objects; exact accounting of what is in flight; a path
  MTU within its bounds; a congestion window that stays open. Every operation keeps it, and the run
  loop panics at one place only.
\<close>

section \<open>What the handler calls\<close>

text \<open>The calls a method of the handler makes come from packets it holds.\<close>

fun ev_ok :: "('cb \<Rightarrow> bool) \<Rightarrow> 'cb ah_event \<Rightarrow> bool" where
  "ev_ok P (Call cb now) \<longleftrightarrow> P cb"
| "ev_ok P NilCall \<longleftrightarrow> False"
| "ev_ok P (CcSend n now) \<longleftrightarrow> True"
| "ev_ok P (CcACK n now) \<longleftrightarrow> 0 \<le> n"
| "ev_ok P (CcLoss n now) \<longleftrightarrow> True"

definition sp_ok :: "('cb \<Rightarrow> bool) \<Rightarrow> 'cb SentPacket \<Rightarrow> bool" where
  "sp_ok P p \<longleftrightarrow> (\<forall>cb. sp_OnACK p = Some cb \<longrightarrow> P cb) \<and> (\<forall>cb. sp_OnLost p = Some cb \<longrightarrow> P cb) \<and>
     (Retransmittable p \<longrightarrow> sp_OnLost p \<noteq> None \<and> \<not> CongestionExempt p) \<and> 0 < PacketSize p"

lemma call_ok: "(\<forall>cb. f = Some cb \<longrightarrow> P cb) \<Longrightarrow> list_all (ev_ok P) (call f now)"
  by (cases f) (simp_all add: call_def)

lemma calls_ok:
  assumes "\<forall>p \<in> set ps. \<forall>cb. f p = Some cb \<longrightarrow> P cb"
  shows "list_all (ev_ok P) (concat (map (\<lambda>p. call (f p) now) ps))"
  using assms by (induction ps) (simp_all add: call_ok)

lemma controlled_size_nonneg:
  "\<forall>p \<in> set ps. sp_ok P p \<Longrightarrow> 0 \<le> total_size (controlled ps)"
proof -
  assume "\<forall>p \<in> set ps. sp_ok P p"
  then have "sizes_pos (controlled ps)" by (simp add: sizes_pos_def sp_ok_def)
  from total_size_pos [OF this] show ?thesis by simp
qed

lemma detectAck_events:
  assumes "\<forall>p \<in> set (ah_sentRanges ah). sp_ok P p"
  shows "list_all (ev_ok P) (fst (snd (detectAck now ranges ah)))"
    and "set (ah_sentRanges (snd (snd (detectAck now ranges ah)))) \<subseteq> set (ah_sentRanges ah)"
proof -
  let ?acked = "filter (\<lambda>p. acked_by (sp_PacketNumber p) ranges) (ah_sentRanges ah)"
  have "\<forall>p \<in> set ?acked. sp_ok P p" using assms by simp
  note ok = this controlled_size_nonneg [OF this]
  have "list_all (ev_ok P) (concat (map (\<lambda>p. call (sp_OnACK p) now) ?acked))"
    by (rule calls_ok) (use ok(1) in \<open>simp add: sp_ok_def\<close>)
  with ok(2) show "list_all (ev_ok P) (fst (snd (detectAck now ranges ah)))"
    by (simp add: detectAck_eq Let_def)
  show "set (ah_sentRanges (snd (snd (detectAck now ranges ah)))) \<subseteq> set (ah_sentRanges ah)"
    by (auto simp: detectAck_eq Let_def removeBytesInFlight_def)
qed

lemma detect_lost_loop_lost:
  "detect_lost_loop now d ps ah = (remain, lost, ah') \<Longrightarrow> set lost \<subseteq> set ps"
proof (induction ps arbitrary: ah remain lost ah')
  case (Cons p ps)
  from Cons.prems show ?case
    by (auto simp: Let_def split: if_splits prod.splits dest!: Cons.IH)
qed simp

lemma detectLost_events:
  assumes "\<forall>p \<in> set (ah_sentRanges ah). sp_ok P p"
  shows "list_all (ev_ok P) (fst (detectLost now ah))"
proof -
  obtain remain lost a where l:
    "detect_lost_loop now (lossDelay_of (rtt ah)) (ah_sentRanges ah) (ah\<lparr>lossTime := 0\<rparr>) = (remain, lost, a)"
    by (metis prod_cases3)
  have "list_all (ev_ok P) (concat (map (\<lambda>p. call (sp_OnLost p) now) lost))"
    by (rule calls_ok) (use detect_lost_loop_lost [OF l] assms in \<open>auto simp: sp_ok_def\<close>)
  then show ?thesis by (simp add: detectLost_def l Let_def)
qed

lemma timeout_body_events:
  assumes "\<forall>p \<in> set (ah_sentRanges ah). sp_ok P p"
  shows "list_all (ev_ok P) (fst (snd (on_timeout_body now ah)))"
proof -
  obtain n evs a where d: "declareLostUnretransmittable now ah = (n, evs, a)" by (metis prod_cases3)
  have "list_all (ev_ok P)
      (concat (map (\<lambda>p. call (sp_OnLost p) now) (filter (\<lambda>p. \<not> Retransmittable p) (ah_sentRanges ah))))"
    by (rule calls_ok) (use assms in \<open>auto simp: sp_ok_def\<close>)
  then have evs: "list_all (ev_ok P) evs"
    using d by (auto simp: declareLostUnretransmittable_def Let_def split: if_splits)
  have "set (ah_sentRanges a) \<subseteq> set (ah_sentRanges ah)" using declareLost_sentRanges(1) [of now ah] d by auto
  then have "sp_ok P p \<and> Retransmittable p" if "find Retransmittable (ah_sentRanges a) = Some p" for p
  proof -
    have "p \<in> set (ah_sentRanges a)" "Retransmittable p" using that by (auto simp: find_Some_iff)
    then show ?thesis using assms \<open>set (ah_sentRanges a) \<subseteq> set (ah_sentRanges ah)\<close> by blast
  qed
  then have "list_all (ev_ok P)
      (case sp_OnLost p of None \<Rightarrow> [NilCall] | Some cb \<Rightarrow> [Call cb now])"
    if "find Retransmittable (ah_sentRanges a) = Some p" for p
    using that by (fastforce simp: sp_ok_def split: option.splits)
  with evs detectLost_events [OF assms] d show ?thesis
    by (auto simp: on_timeout_body_def Let_def split: prod.splits option.splits)
qed

lemma OnTimeout_events:
  assumes "\<forall>p \<in> set (ah_sentRanges ah). sp_ok P p"
  shows "list_all (ev_ok P) (fst (snd (OnTimeout now ah)))"
    and "\<forall>p \<in> set (ah_sentRanges (snd (snd (OnTimeout now ah)))). sp_ok P p"
  using timeout_body_events [OF assms, of now] timeout_body_keeps(1) [of now ah] assms
  by (cases "on_timeout_body now ah", auto simp: OnTimeout_def)+

lemma ReceiveACK_events:
  assumes "\<forall>p \<in> set (ah_sentRanges ah). sp_ok P p"
  shows "list_all (ev_ok P) (fst (snd (ReceiveACK now r d ah)))"
    and "\<forall>p \<in> set (ah_sentRanges (snd (snd (ReceiveACK now r d ah)))). sp_ok P p"
proof -
  obtain acked evs a where a: "detectAck now r (noteSpuriousLoss r ah) = (Inr acked, evs, a)"
    by (metis detectAck_eq)
  have s: "ah_sentRanges (noteSpuriousLoss r ah) = ah_sentRanges ah" by (simp add: noteSpuriousLoss_def)
  from detectAck_events [of "noteSpuriousLoss r ah" P now r] a s assms
  have e: "list_all (ev_ok P) evs" "set (ah_sentRanges a) \<subseteq> set (ah_sentRanges ah)" by simp_all
  then have "\<forall>p \<in> set (ah_sentRanges a). sp_ok P p" using assms by auto
  then have b: "list_all (ev_ok P) x \<and> (\<forall>p \<in> set (ah_sentRanges y). sp_ok P p)"
    if "detectLost now b = (x, y)" and "ah_sentRanges b = ah_sentRanges a" for b x y
    using that detectLost_events [of b P now] detectLost_keeps(1) [of now b] by auto
  show "list_all (ev_ok P) (fst (snd (ReceiveACK now r d ah)))"
    using e by (auto simp: ReceiveACK_def a Let_def split: prod.splits dest: b)
  show "\<forall>p \<in> set (ah_sentRanges (snd (snd (ReceiveACK now r d ah)))). sp_ok P p"
    using assms \<open>\<forall>p \<in> set (ah_sentRanges a). sp_ok P p\<close>
    by (auto simp: ReceiveACK_def a Let_def split: prod.splits dest: b)
qed

lemma OnSent_events:
  "list_all (ev_ok P) (fst (OnSent p ah))" "ah_sentRanges (snd (OnSent p ah)) = ah_sentRanges ah @ [p]"
  by (simp_all add: OnSent_def addBytesInFlight_def Let_def)

section \<open>The invariant\<close>

abbreviation send_refs :: "Streams \<Rightarrow> ref set" where "send_refs s \<equiv> dom (sendObjs s)"
abbreviation recv_refs :: "Streams \<Rightarrow> ref set" where "recv_refs s \<equiv> dom (recvObjs s)"

fun cb_ok :: "Streams \<Rightarrow> callback \<Rightarrow> bool" where
  "cb_ok s (RangeACK p sr n) \<longleftrightarrow> p \<in> send_refs s"
| "cb_ok s (RangeLost p sr n) \<longleftrightarrow> p \<in> send_refs s"
| "cb_ok s (CancelLost q) \<longleftrightarrow> q \<in> recv_refs s"
| "cb_ok s (WindowACK q w) \<longleftrightarrow> q \<in> recv_refs s"
| "cb_ok s (WindowLost q) \<longleftrightarrow> q \<in> recv_refs s"
| "cb_ok s ProbeACK \<longleftrightarrow> lastProbe (mtuTracker s) \<noteq> 0"
| "cb_ok s ProbeLost \<longleftrightarrow> True"
| "cb_ok s DatagramLost \<longleftrightarrow> True"

text \<open>Objects know their address, and addresses have been handed out.\<close>

definition heap_ok :: "Streams \<Rightarrow> bool" where
  "heap_ok s \<longleftrightarrow> (\<forall>p r. sendObjs s p = Some r \<longrightarrow> ss_self r = p \<and> p < nextRef s) \<and>
     (\<forall>q r. recvObjs s q = Some r \<longrightarrow> rs_self r = q \<and> q < nextRef s)"

text \<open>A table entry leads to an object with that identifier.\<close>

definition tables_ok :: "Streams \<Rightarrow> bool" where
  "tables_ok s \<longleftrightarrow> (\<forall>i p. sendStreams s i = Some p \<longrightarrow> (\<exists>r. sendObjs s p = Some r \<and> ss_id r = i)) \<and>
     (\<forall>i q. recvStreams s i = Some q \<longrightarrow> (\<exists>r. recvObjs s q = Some r \<and> rs_id r = i))"

definition queues_ok :: "Streams \<Rightarrow> bool" where
  "queues_ok s \<longleftrightarrow> tq_ok (sendTrigger s) \<and> tq_ok (updateWindow s) \<and> tq_ok (cancelTrigger s) \<and>
     set (tq_queue (sendTrigger s)) \<subseteq> send_refs s \<and> set (tq_queue (updateWindow s)) \<subseteq> recv_refs s \<and>
     set (tq_queue (cancelTrigger s)) \<subseteq> recv_refs s \<and> snd ` set (congestionBlocked s) \<subseteq> send_refs s"

definition flight_ok :: "Streams \<Rightarrow> bool" where
  "flight_ok s \<longleftrightarrow> ah_ok (sh s) \<and> (\<forall>p \<in> set (ah_sentRanges (sh s)). sp_ok (cb_ok s) p)"

definition path_ok :: "Streams \<Rightarrow> bool" where
  "path_ok s \<longleftrightarrow> mtu_ok (mtuTracker s) \<and> fixedOverhead \<le> mt_min (mtuTracker s) \<and>
     2 * mt_min (mtuTracker s) \<le> cwnd (cong s)"

definition conn_inv :: "Streams \<Rightarrow> bool" where
  "conn_inv s \<longleftrightarrow> heap_ok s \<and> tables_ok s \<and> queues_ok s \<and> flight_ok s \<and> path_ok s"

lemmas conn_inv_parts = conn_inv_def heap_ok_def tables_ok_def queues_ok_def flight_ok_def path_ok_def

text \<open>What may happen to a state without making a stored reference invalid.\<close>

definition extends :: "Streams \<Rightarrow> Streams \<Rightarrow> bool" where
  "extends s s' \<longleftrightarrow> send_refs s \<subseteq> send_refs s' \<and> recv_refs s \<subseteq> recv_refs s' \<and>
     (lastProbe (mtuTracker s) \<noteq> 0 \<longrightarrow> lastProbe (mtuTracker s') \<noteq> 0)"

lemma extends_refl [simp]: "extends s s"
  by (simp add: extends_def)

lemma extends_trans: "extends a b \<Longrightarrow> extends b c \<Longrightarrow> extends a c"
  unfolding extends_def by (meson subset_trans)

lemma cb_ok_mono: "cb_ok s cb \<Longrightarrow> extends s s' \<Longrightarrow> cb_ok s' cb"
  by (cases cb) (auto simp: extends_def)

lemma sp_ok_mono: "sp_ok (cb_ok s) p \<Longrightarrow> extends s s' \<Longrightarrow> sp_ok (cb_ok s') p"
  by (auto simp: sp_ok_def intro: cb_ok_mono)

lemma ev_ok_mono: "ev_ok (cb_ok s) e \<Longrightarrow> extends s s' \<Longrightarrow> ev_ok (cb_ok s') e"
  by (cases e) (auto intro: cb_ok_mono)

lemma flight_ok_mono: "flight_ok s \<Longrightarrow> extends s s' \<Longrightarrow> sh s' = sh s \<Longrightarrow> flight_ok s'"
  by (auto simp: flight_ok_def intro: sp_ok_mono)

section \<open>Methods of stream objects\<close>

text \<open>A method keeps the identity of its object and queues nothing but the object itself.\<close>

definition send_method :: "(send_state \<Rightarrow> send_state) \<Rightarrow> bool" where
  "send_method f \<longleftrightarrow> (\<forall>r t. tq_ok t \<longrightarrow>
     ss_self (fst (f (r, t))) = ss_self r \<and> ss_id (fst (f (r, t))) = ss_id r \<and>
     tq_ok (snd (f (r, t))) \<and> set (tq_queue (snd (f (r, t)))) \<subseteq> insert (ss_self r) (set (tq_queue t)))"

lemma PushBecause_ok:
  assumes "tq_ok t"
  shows "tq_ok (PushBecause x why t)" and "set (tq_queue (PushBecause x why t)) = insert x (set (tq_queue t))"
  using assms by (auto simp: tq_ok_def PushBecause_def Notify_def Let_def)

lemma tq_Push_ok:
  assumes "tq_ok t"
  shows "tq_ok (tq_Push x t)" and "set (tq_queue (tq_Push x t)) = insert x (set (tq_queue t))"
  unfolding tq_Push_def by (rule PushBecause_ok [OF assms])+

lemma Pop_ok:
  assumes "tq_ok t"
  shows "tq_ok (snd (Pop t))" and "set (tq_queue (snd (Pop t))) \<subseteq> set (tq_queue t)"
    and "fst (Pop t) = Some y \<Longrightarrow> y \<in> set (tq_queue t)"
  using assms by (cases "tq_queue t"; auto simp: Pop_def tq_ok_def Notify_def Let_def)+

lemma send_method_simple:
  "send_method (onACK sr)" "send_method (onLost sr)" "send_method onCancel"
  "send_method (updateFlowWindow n)" "send_method ss_Close"
  by (auto simp: send_method_def onACK_def onLost_def onCancel_def updateFlowWindow_def fc_UpdateWindow_def
      ss_Close_def signalWriter_def PushBecause_ok Let_def split: list.splits)

lemma send_method_requeue: "send_method requeueIfMore"
  by (auto simp: send_method_def requeueIfMore_def PushBecause_ok)

lemma send_method_append: "send_method (\<lambda>st. snd (AppendDataContext eof data st))"
  by (auto simp: send_method_def AppendDataContext_def PushBecause_ok Let_def)

lemma requeue_cases:
  "requeueIfMore (r, t) = (r, t) \<or> requeueIfMore (r, t) = (r, PushBecause (ss_self r) pushSelf t)"
  by (auto simp: requeueIfMore_def)

lemma next_chunk_keeps:
  "ss_self (snd (next_chunk m r)) = ss_self r" "ss_id (snd (next_chunk m r)) = ss_id r"
  by (auto simp: next_chunk_def readChunk_def Let_def split: prod.splits)

lemma send_method_trigger_new: "send_method (\<lambda>st. snd (trigger_new mp st))"
  unfolding send_method_def
proof (intro allI impI)
  fix r :: sendStream and t :: "ref withTriggerQueue"
  assume t: "tq_ok t"
  obtain data eof r1 where
    c: "next_chunk (mp - StreamPacketHeaderSize (ss_id r) (offset r) mp) r = ((data, eof), r1)"
    by (metis prod.collapse)
  from next_chunk_keeps [of "mp - StreamPacketHeaderSize (ss_id r) (offset r) mp" r] c
  have r1: "ss_self r1 = ss_self r" "ss_id r1 = ss_id r" by simp_all
  show "ss_self (fst (snd (trigger_new mp (r, t)))) = ss_self r \<and>
      ss_id (fst (snd (trigger_new mp (r, t)))) = ss_id r \<and> tq_ok (snd (snd (trigger_new mp (r, t)))) \<and>
      set (tq_queue (snd (snd (trigger_new mp (r, t))))) \<subseteq> insert (ss_self r) (set (tq_queue t))"
    using t r1
    by (auto simp: trigger_new_def c emit_range_def requeueIfMore_def signalWriter_def PushBecause_ok Let_def)
qed

lemma send_method_triggerPacket: "send_method (\<lambda>st. snd (triggerPacket mp st))"
  unfolding send_method_def
proof (intro allI impI)
  fix r :: sendStream and t :: "ref withTriggerQueue"
  assume t: "tq_ok t"
  have new: "ss_self (fst (snd (trigger_new mp (x, t)))) = ss_self x \<and>
      ss_id (fst (snd (trigger_new mp (x, t)))) = ss_id x \<and> tq_ok (snd (snd (trigger_new mp (x, t)))) \<and>
      set (tq_queue (snd (snd (trigger_new mp (x, t))))) \<subseteq> insert (ss_self x) (set (tq_queue t))" for x
    using send_method_trigger_new [of mp] t by (simp add: send_method_def)
  obtain p q where pop: "Pop (retransmitQueue r) = (p, q)" by fastforce
  show "ss_self (fst (snd (triggerPacket mp (r, t)))) = ss_self r \<and>
      ss_id (fst (snd (triggerPacket mp (r, t)))) = ss_id r \<and> tq_ok (snd (snd (triggerPacket mp (r, t)))) \<and>
      set (tq_queue (snd (snd (triggerPacket mp (r, t))))) \<subseteq> insert (ss_self r) (set (tq_queue t))"
  proof (cases p)
    case None
    with pop new [of "r\<lparr>retransmitQueue := q\<rparr>"] show ?thesis by (simp add: triggerPacket_def)
  next
    case (Some sr)
    with pop new [of "r\<lparr>retransmitQueue := tq_Push sr q\<rparr>"] t show ?thesis
      by (auto simp: triggerPacket_def splitSentRange_def requeueIfMore_def PushBecause_ok Let_def)
  qed
qed

text \<open>Both facts that an operation of the connection has to establish.\<close>

definition keeps :: "Streams \<Rightarrow> Streams \<Rightarrow> bool" where
  "keeps s s' \<longleftrightarrow> conn_inv s' \<and> extends s s'"

lemma keepsD: "keeps s s' \<Longrightarrow> conn_inv s'" "keeps s s' \<Longrightarrow> extends s s'"
  by (simp_all add: keeps_def)

lemma keeps_trans: "keeps a b \<Longrightarrow> keeps b c \<Longrightarrow> keeps a c"
  by (auto simp: keeps_def intro: extends_trans)

lemma keeps_refl: "conn_inv s \<Longrightarrow> keeps s s"
  by (simp add: keeps_def)

lemma set_send_obj_keeps:
  assumes inv: "conn_inv s" and p: "sendObjs s p = Some r" and "ss_self r' = ss_self r" and "ss_id r' = ss_id r"
    and "tq_ok t" and "set (tq_queue t) \<subseteq> send_refs s"
  shows "keeps s (s\<lparr>sendObjs := (sendObjs s)(p := Some r'), sendTrigger := t\<rparr>)"
proof -
  let ?s = "s\<lparr>sendObjs := (sendObjs s)(p := Some r'), sendTrigger := t\<rparr>"
  have e: "extends s ?s" by (auto simp: extends_def)
  have "heap_ok ?s" using assms by (auto simp: conn_inv_def heap_ok_def)
  moreover have "tables_ok ?s" using assms by (fastforce simp: conn_inv_def tables_ok_def)
  moreover have "queues_ok ?s" using assms by (auto simp: conn_inv_def queues_ok_def)
  moreover have "flight_ok ?s" using inv e by (auto simp: conn_inv_def intro: flight_ok_mono)
  moreover have "path_ok ?s" using inv by (simp add: conn_inv_def path_ok_def)
  ultimately show ?thesis using e by (simp add: keeps_def conn_inv_def)
qed

lemma on_send_keeps:
  assumes inv: "conn_inv s" and f: "send_method f"
  shows "keeps s (on_send p f s)"
proof (cases "sendObjs s p")
  case None
  with inv show ?thesis by (simp add: on_send_def keeps_refl)
next
  case (Some r)
  obtain r' t where c: "f (r, sendTrigger s) = (r', t)" by fastforce
  have "tq_ok (sendTrigger s)" "set (tq_queue (sendTrigger s)) \<subseteq> send_refs s" "ss_self r = p"
    using inv Some by (auto simp: conn_inv_parts)
  with f c Some have "ss_self r' = ss_self r" "ss_id r' = ss_id r" "tq_ok t" "set (tq_queue t) \<subseteq> send_refs s"
    by (auto simp: send_method_def dest!: spec [where x = r] spec [where x = "sendTrigger s"])
  from set_send_obj_keeps [OF inv Some this] show ?thesis by (simp add: on_send_def Some c)
qed

lemma set_recv_obj_keeps:
  assumes inv: "conn_inv s" and q: "recvObjs s q = Some r" and "rs_self r' = rs_self r" and "rs_id r' = rs_id r"
  shows "keeps s (s\<lparr>recvObjs := (recvObjs s)(q := Some r')\<rparr>)"
proof -
  let ?s = "s\<lparr>recvObjs := (recvObjs s)(q := Some r')\<rparr>"
  have e: "extends s ?s" by (auto simp: extends_def)
  have "heap_ok ?s" using assms by (auto simp: conn_inv_def heap_ok_def)
  moreover have "tables_ok ?s" using assms by (fastforce simp: conn_inv_def tables_ok_def)
  moreover have "queues_ok ?s" using assms by (auto simp: conn_inv_def queues_ok_def)
  moreover have "flight_ok ?s" using inv e by (auto simp: conn_inv_def intro: flight_ok_mono)
  moreover have "path_ok ?s" using inv by (simp add: conn_inv_def path_ok_def)
  ultimately show ?thesis using e by (simp add: keeps_def conn_inv_def)
qed

lemma on_recv_keeps:
  assumes "conn_inv s" and "\<And>r. rs_self (f r) = rs_self r \<and> rs_id (f r) = rs_id r"
  shows "keeps s (on_recv q f s)"
  using assms by (cases "recvObjs s q") (auto simp: on_recv_def keeps_refl set_recv_obj_keeps)

lemma push_queue_keeps:
  assumes "conn_inv s"
  shows "q \<in> recv_refs s \<Longrightarrow> keeps s (s\<lparr>cancelTrigger := tq_Push q (cancelTrigger s)\<rparr>)"
    and "q \<in> recv_refs s \<Longrightarrow> keeps s (s\<lparr>updateWindow := tq_Push q (updateWindow s)\<rparr>)"
    and "p \<in> send_refs s \<Longrightarrow> keeps s (s\<lparr>sendTrigger := PushBecause p why (sendTrigger s)\<rparr>)"
  using assms unfolding conn_inv_def keeps_def
  by (auto simp: heap_ok_def tables_ok_def queues_ok_def path_ok_def tq_Push_ok PushBecause_ok extends_def
      intro: flight_ok_mono)

lemma set_queue_keeps:
  assumes "conn_inv s" and "tq_ok t"
  shows "set (tq_queue t) \<subseteq> recv_refs s \<Longrightarrow> keeps s (s\<lparr>updateWindow := t\<rparr>)"
    and "set (tq_queue t) \<subseteq> recv_refs s \<Longrightarrow> keeps s (s\<lparr>cancelTrigger := t\<rparr>)"
    and "set (tq_queue t) \<subseteq> send_refs s \<Longrightarrow> keeps s (s\<lparr>sendTrigger := t\<rparr>)"
  using assms unfolding conn_inv_def keeps_def
  by (auto simp: heap_ok_def tables_ok_def queues_ok_def path_ok_def extends_def intro: flight_ok_mono)

text \<open>Fields no part of the invariant reads.\<close>

lemma counters_keep:
  assumes "conn_inv s"
  shows "keeps s (s\<lparr>datagramsLost := a1\<rparr>)" "keeps s (s\<lparr>sentCounter := a2\<rparr>)" "keeps s (s\<lparr>pt := a3\<rparr>)"
    "keeps s (s\<lparr>removals := a4\<rparr>)" "keeps s (s\<lparr>recv := a5\<rparr>)" "keeps s (s\<lparr>loopIter := a6\<rparr>)"
    "keeps s (s\<lparr>datagramSend := a7\<rparr>)" "keeps s (s\<lparr>datagramsDroppedCongest := a8\<rparr>)"
    "keeps s (s\<lparr>datagramsSent := a9\<rparr>)" "keeps s (s\<lparr>datagramsSentUncontrolled := a10\<rparr>)"
    "keeps s (s\<lparr>datagramTrigger := a11\<rparr>)" "keeps s (s\<lparr>datagramsDroppedOversize := a12\<rparr>)"
    "keeps s (s\<lparr>datagramsDroppedSendQueue := a13\<rparr>)" "keeps s (s\<lparr>isDatagramKind := a14\<rparr>)"
    "keeps s (s\<lparr>newRecvStreamQueue := a15\<rparr>)" "keeps s (s\<lparr>newBidiStreamQueue := a16\<rparr>)"
    "keeps s (s\<lparr>datagramRecv := a17\<rparr>)" "keeps s (s\<lparr>send := a18\<rparr>)" "keeps s (s\<lparr>blocks := a19\<rparr>)"
    "keeps s (s\<lparr>armedPacer := a20\<rparr>)" "keeps s (s\<lparr>parkStartNs := a21\<rparr>)"
    "keeps s (s\<lparr>datagramsReceived := a22\<rparr>)" "keeps s (s\<lparr>datagramsDroppedRcv := a23\<rparr>)"
    "keeps s (s\<lparr>blockedNs := a24\<rparr>)" "keeps s (s\<lparr>wakeTimer := a25\<rparr>)" "keeps s (s\<lparr>wakeSend := a26\<rparr>)"
    "keeps s (s\<lparr>recvStreamGraceNs := a27\<rparr>)"
  using assms unfolding conn_inv_def keeps_def
  by (auto simp: heap_ok_def tables_ok_def queues_ok_def path_ok_def extends_def intro: flight_ok_mono)

section \<open>Carrying out the handler's calls\<close>

lemma mtu_fields:
  "mt_min (OnLargePacketACKed n now t) = mt_min t" "lastProbe (OnLargePacketACKed n now t) = lastProbe t"
  "mt_min (OnPeerActivity now t) = mt_min t" "lastProbe (OnPeerActivity now t) = lastProbe t"
  by (simp_all add: OnLargePacketACKed_def OnPeerActivity_def Let_def)

lemma mtu_update_keeps:
  assumes "conn_inv s" and "mtu_ok m" and "mt_min m = mt_min (mtuTracker s)"
    and "lastProbe (mtuTracker s) \<noteq> 0 \<longrightarrow> lastProbe m \<noteq> 0"
  shows "keeps s (s\<lparr>mtuTracker := m\<rparr>)"
  using assms unfolding conn_inv_def keeps_def
  by (auto simp: heap_ok_def tables_ok_def queues_ok_def path_ok_def extends_def intro: flight_ok_mono)

lemma cong_update_keeps:
  assumes "conn_inv s" and "2 * mt_min (mtuTracker s) \<le> cwnd c"
  shows "keeps s (s\<lparr>cong := c\<rparr>)"
  using assms unfolding conn_inv_def keeps_def
  by (auto simp: heap_ok_def tables_ok_def queues_ok_def path_ok_def extends_def intro: flight_ok_mono)

lemma announce_keeps:
  assumes "conn_inv s" and "mtu_ok m" and "mt_min m = mt_min (mtuTracker s)"
    and "lastProbe (mtuTracker s) \<noteq> 0 \<longrightarrow> lastProbe m \<noteq> 0"
  shows "keeps s (announce (upd, m) s)"
proof -
  note k = mtu_update_keeps [OF assms]
  show ?thesis
  proof (cases upd)
    case None
    with k show ?thesis by (simp add: announce_def)
  next
    case (Some x)
    have "2 * mt_min m \<le> cwnd (reno_OnMTU x (cong s))"
      using assms(1,3) by (auto simp: reno_OnMTU_def conn_inv_def path_ok_def)
    with cong_update_keeps [OF keepsD(1) [OF k]] have "keeps (s\<lparr>mtuTracker := m\<rparr>)
        (s\<lparr>mtuTracker := m, cong := reno_OnMTU x (cong s)\<rparr>)" by simp
    from keeps_trans [OF k this] show ?thesis by (simp add: announce_def Some)
  qed
qed

lemma fallBack_fields:
  assumes "mtu_ok t"
  shows "mt_min (snd (fallBackToBase t)) = mt_min t" "lastProbe (snd (fallBackToBase t)) \<noteq> 0"
  using assms by (simp_all add: fallBackToBase_def mtu_ok_def)

lemma lost_fields:
  assumes "mtu_ok t"
  shows "mt_min (snd (OnLargePacketLost srtt n now t)) = mt_min t"
    and "lastProbe t \<noteq> 0 \<longrightarrow> lastProbe (snd (OnLargePacketLost srtt n now t)) \<noteq> 0"
    and "mt_min (snd (mt_OnLost now t)) = mt_min t"
    and "lastProbe t \<noteq> 0 \<longrightarrow> lastProbe (snd (mt_OnLost now t)) \<noteq> 0"
    and "mt_min (snd (mt_OnACK now t)) = mt_min t" and "lastProbe (snd (mt_OnACK now t)) = lastProbe t"
  using assms
  by (auto simp: OnLargePacketLost_def evaluateBlackHole_def mt_OnLost_def mt_OnACK_def fallBackToBase_def
      mtu_ok_def Let_def)

lemma run_callback_keeps:
  assumes inv: "conn_inv s" and cb: "cb_ok s cb"
  shows "keeps s (run_callback cb now s)"
proof (cases cb)
  case (RangeACK p sr n)
  have m: "mtu_ok (mtuTracker s)" using inv by (simp add: conn_inv_def path_ok_def)
  have "keeps s (s\<lparr>mtuTracker := OnLargePacketACKed n now (mtuTracker s)\<rparr>)"
    by (rule mtu_update_keeps [OF inv]) (simp_all add: mtu_fields mtu_ok_ops(2) [OF m])
  from keeps_trans [OF this on_send_keeps [OF keepsD(1) [OF this] send_method_simple(1)]]
  show ?thesis by (simp add: RangeACK)
next
  case (RangeLost p sr n)
  have m: "mtu_ok (mtuTracker s)" using inv by (simp add: conn_inv_def path_ok_def)
  obtain u m' where l: "OnLargePacketLost (smoothed s) n now (mtuTracker s) = (u, m')" by fastforce
  have "keeps s (announce (u, m') s)"
    using mtu_ok_ops(4) [OF m, of "smoothed s" n now] lost_fields(1,2) [OF m, of "smoothed s" n now] l
    by (intro announce_keeps [OF inv]) simp_all
  from keeps_trans [OF this on_send_keeps [OF keepsD(1) [OF this] send_method_simple(2)]]
  show ?thesis by (simp add: RangeLost l)
next
  case (CancelLost q)
  with cb inv push_queue_keeps(1) [OF inv, of q] show ?thesis by (simp add: keeps_refl)
next
  case (WindowACK q w)
  then show ?thesis by (simp add: on_recv_keeps [OF inv] onWindowAck_def)
next
  case (WindowLost q)
  with cb inv push_queue_keeps(2) [OF inv, of q] show ?thesis by (simp add: keeps_refl)
next
  case ProbeACK
  have m: "mtu_ok (mtuTracker s)" using inv by (simp add: conn_inv_def path_ok_def)
  obtain u m' where l: "mt_OnACK now (mtuTracker s) = (u, m')" by fastforce
  have "keeps s (announce (u, m') s)"
    using mtu_ok_ops(6) [OF m, of now] lost_fields(5,6) [OF m, of now] l cb ProbeACK
    by (intro announce_keeps [OF inv]) simp_all
  then show ?thesis by (simp add: ProbeACK l)
next
  case ProbeLost
  have m: "mtu_ok (mtuTracker s)" using inv by (simp add: conn_inv_def path_ok_def)
  obtain u m' where l: "mt_OnLost now (mtuTracker s) = (u, m')" by fastforce
  have "keeps s (announce (u, m') s)"
    using mtu_ok_ops(5) [OF m, of now] lost_fields(3,4) [OF m, of now] l
    by (intro announce_keeps [OF inv]) simp_all
  then show ?thesis by (simp add: ProbeLost l)
next
  case DatagramLost
  then show ?thesis by (simp add: counters_keep [OF inv])
qed

text \<open>A step that cannot panic and keeps the invariant.\<close>

definition total_keeps :: "Streams \<Rightarrow> Streams option \<Rightarrow> bool" where
  "total_keeps s x \<longleftrightarrow> (\<exists>s'. x = Some s' \<and> keeps s s')"

lemma total_keeps_Some [simp]: "total_keeps s (Some s') = keeps s s'"
  by (simp add: total_keeps_def)

lemma total_keeps_trans: "keeps s s1 \<Longrightarrow> total_keeps s1 x \<Longrightarrow> total_keeps s x"
  by (auto simp: total_keeps_def intro: keeps_trans)

lemma total_keeps_bind:
  assumes "total_keeps s x" and "\<And>s1. keeps s s1 \<Longrightarrow> total_keeps s1 (f s1)"
  shows "total_keeps s (Option.bind x f)"
proof -
  obtain s1 where "x = Some s1" "keeps s s1" using assms(1) by (auto simp: total_keeps_def)
  with total_keeps_trans [OF this(2) assms(2) [OF this(2)]] show ?thesis by simp
qed

lemma total_keeps_map:
  assumes "total_keeps s x" and "\<And>s1. keeps s s1 \<Longrightarrow> keeps s1 (f s1)"
  shows "total_keeps s (map_option f x)"
  using assms by (auto simp: total_keeps_def intro: keeps_trans)

lemma RecordACK_cwnd:
  assumes "0 < cwnd c" and "0 \<le> n"
  shows "\<exists>c'. RecordACK n now c = Some c' \<and> cwnd c \<le> cwnd c'"
proof -
  have "0 \<le> (n * n) sdiv cwnd c" using assms by (simp add: signed_divide_int_def sgn_if pos_imp_zdiv_nonneg_iff)
  then show ?thesis using assms by (auto simp: RecordACK_def Let_def)
qed

lemma cwnd_pos: "conn_inv s \<Longrightarrow> 0 < cwnd (cong s)"
  by (simp add: conn_inv_def path_ok_def mtu_ok_def)

lemma run_event_keeps:
  assumes inv: "conn_inv s" and ev: "ev_ok (cb_ok s) e"
  shows "total_keeps s (run_event e s)"
proof (cases e)
  case (Call cb now)
  with ev run_callback_keeps [OF inv] show ?thesis by simp
next
  case NilCall
  with ev show ?thesis by simp
next
  case (CcSend n now)
  have "2 * mt_min (mtuTracker s) \<le> cwnd (cong s)" using inv by (simp add: conn_inv_def path_ok_def)
  then show ?thesis by (simp add: CcSend cong_update_keeps [OF inv] reno_RecordSend_def)
next
  case (CcACK n now)
  obtain c where "RecordACK n now (cong s) = Some c" "cwnd (cong s) \<le> cwnd c"
    using RecordACK_cwnd [OF cwnd_pos [OF inv]] ev CcACK by force
  moreover have "2 * mt_min (mtuTracker s) \<le> cwnd (cong s)" using inv by (simp add: conn_inv_def path_ok_def)
  ultimately show ?thesis by (simp add: CcACK cong_update_keeps [OF inv])
next
  case (CcLoss n now)
  have "2 * mt_min (mtuTracker s) \<le> cwnd (RecordLoss (CurrentMTU (mtuTracker s)) n now (cong s))"
    using inv by (auto simp: RecordLoss_def CurrentMTU_def conn_inv_def path_ok_def mtu_ok_def Let_def)
  then show ?thesis by (simp add: CcLoss cong_update_keeps [OF inv])
qed

lemma run_events_keeps:
  "conn_inv s \<Longrightarrow> list_all (ev_ok (cb_ok s)) es \<Longrightarrow> total_keeps s (run_events es s)"
proof (induction es arbitrary: s)
  case Nil
  then show ?case by (simp add: keeps_refl)
next
  case (Cons e es)
  show ?case unfolding run_events.simps
  proof (rule total_keeps_bind)
    show "total_keeps s (run_event e s)" using Cons.prems by (intro run_event_keeps) simp_all
    fix s1
    assume k: "keeps s s1"
    have "list_all (ev_ok (cb_ok s1)) es"
      using Cons.prems(2) keepsD(2) [OF k] by (auto simp: list_all_iff intro: ev_ok_mono)
    then show "total_keeps s1 (run_events es s1)" by (rule Cons.IH [OF keepsD(1) [OF k]])
  qed
qed

lemma set_handler_keeps:
  assumes "conn_inv s" and "ah_ok h" and "\<forall>p \<in> set (ah_sentRanges h). sp_ok (cb_ok s) p"
  shows "keeps s (s\<lparr>sh := h\<rparr>)"
proof -
  have e: "extends s (s\<lparr>sh := h\<rparr>)" by (simp add: extends_def)
  then have "flight_ok (s\<lparr>sh := h\<rparr>)" using assms(2,3) sp_ok_mono by (auto simp: flight_ok_def)
  with assms(1) e show ?thesis
    by (simp add: keeps_def conn_inv_def heap_ok_def tables_ok_def queues_ok_def path_ok_def)
qed

lemma cb_ok_sh [simp]: "cb_ok (s\<lparr>sh := h\<rparr>) = cb_ok s"
proof
  fix cb show "cb_ok (s\<lparr>sh := h\<rparr>) cb = cb_ok s cb" by (cases cb) simp_all
qed

lemma handler_calls_keep:
  assumes "conn_inv s" and "ah_ok h" and "\<forall>p \<in> set (ah_sentRanges h). sp_ok (cb_ok s) p"
    and "list_all (ev_ok (cb_ok s)) evs"
  shows "total_keeps s (run_events evs (s\<lparr>sh := h\<rparr>))"
proof -
  note k = set_handler_keeps [OF assms(1,2,3)]
  show ?thesis
    by (rule total_keeps_trans [OF k run_events_keeps [OF keepsD(1) [OF k]]]) (simp add: assms(4))
qed

lemma conn_inv_flight:
  assumes "conn_inv s"
  shows "ah_ok (sh s)" and "\<forall>p \<in> set (ah_sentRanges (sh s)). sp_ok (cb_ok s) p"
  using assms by (auto simp: conn_inv_def flight_ok_def)

lemma on_sent_keeps:
  assumes inv: "conn_inv s" and p: "sp_ok (cb_ok s) p"
  shows "total_keeps s (on_sent p s)"
proof -
  obtain evs h where o: "OnSent p (sh s) = (evs, h)" by fastforce
  from OnSent_events(1) [of "cb_ok s" p "sh s"] OnSent_events(2) [of p "sh s"] o
  have e: "list_all (ev_ok (cb_ok s)) evs" "ah_sentRanges h = ah_sentRanges (sh s) @ [p]" by simp_all
  have "ah_ok h" using ah_ok_OnSent [OF conn_inv_flight(1) [OF inv], of p] o by simp
  from handler_calls_keep [OF inv this _ e(1)] conn_inv_flight(2) [OF inv] p e(2)
  show ?thesis by (auto simp: on_sent_def o)
qed

section \<open>New streams\<close>

lemma nextRef_unused:
  assumes "conn_inv s"
  shows "recvObjs s (nextRef s) = None" and "sendObjs s (nextRef s) = None"
proof -
  have "q < nextRef s" if "recvObjs s q = Some r" for q r using assms that by (simp add: conn_inv_def heap_ok_def)
  from this [of "nextRef s"] show "recvObjs s (nextRef s) = None" by (cases "recvObjs s (nextRef s)") auto
  have "q < nextRef s" if "sendObjs s q = Some r" for q r using assms that by (simp add: conn_inv_def heap_ok_def)
  from this [of "nextRef s"] show "sendObjs s (nextRef s) = None" by (cases "sendObjs s (nextRef s)") auto
qed

lemma alloc_recv_keeps:
  assumes "conn_inv s"
  shows "keeps s (s\<lparr>nextRef := nextRef s + 1, recvObjs := (recvObjs s)(nextRef s := Some (newReceiveStream (nextRef s) i w)),
                    recvStreams := (recvStreams s)(i := Some (nextRef s))\<rparr>)" (is "keeps s ?s")
proof -
  have n: "recvObjs s (nextRef s) = None" using assms by (rule nextRef_unused)
  have e: "extends s ?s" by (auto simp: extends_def)
  have "heap_ok ?s" using assms by (auto simp: conn_inv_def heap_ok_def newReceiveStream_def less_SucI)
  moreover have "tables_ok ?s" using assms n by (fastforce simp: conn_inv_def tables_ok_def newReceiveStream_def)
  moreover have "queues_ok ?s" using assms by (auto simp: conn_inv_def queues_ok_def)
  moreover have "flight_ok ?s" using assms e by (auto simp: conn_inv_def intro: flight_ok_mono)
  moreover have "path_ok ?s" using assms by (simp add: conn_inv_def path_ok_def)
  ultimately show ?thesis using e by (simp add: keeps_def conn_inv_def)
qed

lemma alloc_send_keeps:
  assumes "conn_inv s" and "ss_self ss = nextRef s" and "ss_id ss = i"
  shows "keeps s (s\<lparr>nextRef := nextRef s + 1, sendObjs := (sendObjs s)(nextRef s := Some ss),
                    sendStreams := (sendStreams s)(i := Some (nextRef s))\<rparr>)" (is "keeps s ?s")
proof -
  have n: "sendObjs s (nextRef s) = None" using assms(1) by (rule nextRef_unused)
  have e: "extends s ?s" by (auto simp: extends_def)
  have "heap_ok ?s" using assms by (auto simp: conn_inv_def heap_ok_def less_SucI)
  moreover have "tables_ok ?s" using assms n by (fastforce simp: conn_inv_def tables_ok_def)
  moreover have "queues_ok ?s" using assms by (auto simp: conn_inv_def queues_ok_def)
  moreover have "flight_ok ?s" using assms e by (auto simp: conn_inv_def intro: flight_ok_mono)
  moreover have "path_ok ?s" using assms by (simp add: conn_inv_def path_ok_def)
  ultimately show ?thesis using e by (simp add: keeps_def conn_inv_def)
qed

lemma issuer_keeps:
  assumes "conn_inv s"
  shows "keeps s (s\<lparr>bidiIDIssuer := i\<rparr>)" "keeps s (s\<lparr>uniIDIssuer := i\<rparr>)"
    "keeps s (s\<lparr>sendStreams := (sendStreams s)(x := None)\<rparr>)"
    "keeps s (s\<lparr>recvStreams := (recvStreams s)(x := None)\<rparr>)"
    "nextRef s \<le> n \<Longrightarrow> keeps s (s\<lparr>nextRef := n\<rparr>)"
  using assms unfolding conn_inv_def keeps_def
  by (fastforce simp: heap_ok_def tables_ok_def queues_ok_def path_ok_def extends_def intro: flight_ok_mono)+

lemma new_fields:
  "ss_self (newSendStream p i f) = p" "ss_id (newSendStream p i f) = i"
  "rs_self (newReceiveStream q i w) = q" "rs_id (newReceiveStream q i w) = i"
  by (simp_all add: newSendStream_def newReceiveStream_def)

lemma getRecvStream_keeps:
  assumes inv: "conn_inv s"
  shows "keeps s (snd (getRecvStream i s))"
    and "fst (getRecvStream i s) = Some q \<Longrightarrow> q \<in> recv_refs (snd (getRecvStream i s))"
proof -
  let ?q = "nextRef s"
  define s1 where "s1 = s\<lparr>nextRef := nextRef s + 1,
      recvObjs := (recvObjs s)(?q := Some (newReceiveStream ?q i InitialFlowWindow)),
      recvStreams := (recvStreams s)(i := Some ?q)\<rparr>"
  define s2 where "s2 = s1\<lparr>nextRef := nextRef s1 + 1,
      sendObjs := (sendObjs s1)(nextRef s1 := Some (newSendStream (nextRef s1) i (newFlowController (uint InitialFlowWindow)))),
      sendStreams := (sendStreams s1)(i := Some (nextRef s1))\<rparr>"
  have k1: "keeps s s1" unfolding s1_def by (rule alloc_recv_keeps [OF inv])
  have k2: "keeps s1 s2" unfolding s2_def by (rule alloc_send_keeps [OF keepsD(1) [OF k1]]) (simp_all add: new_fields)
  note k12 = keeps_trans [OF k1 k2]
  have a1: "keeps s (s1\<lparr>newRecvStreamQueue := y\<rparr>)" for y
    by (rule keeps_trans [OF k1 counters_keep(15) [OF keepsD(1) [OF k1]]])
  have a2: "keeps s (s2\<lparr>newBidiStreamQueue := x\<rparr>)" for x
    by (rule keeps_trans [OF k12 counters_keep(16) [OF keepsD(1) [OF k12]]])
  have g: "getRecvStream i s = (case recvStreams s i of
        Some q \<Rightarrow> (Some q, s)
      | None \<Rightarrow>
          if \<not> isServer s \<and> IsServerInitiated i \<or> isServer s \<and> IsClientInitiated i then
            if IsBidirectional i
            then (Some ?q, if length (newBidiStreamQueue s2) < 100
                           then s2\<lparr>newBidiStreamQueue := newBidiStreamQueue s2 @ [(nextRef s1, ?q)]\<rparr> else s2)
            else (Some ?q, if length (newRecvStreamQueue s1) < 100
                           then s1\<lparr>newRecvStreamQueue := newRecvStreamQueue s1 @ [?q]\<rparr> else s1)
          else (None, s))"
    by (simp add: getRecvStream_def s1_def s2_def Let_def split: option.split)
  show "keeps s (snd (getRecvStream i s))"
    unfolding g using a1 a2 k1 k12 keeps_refl [OF inv] by (simp split: option.splits)
  have r: "?q \<in> recv_refs s1" "?q \<in> recv_refs s2" by (auto simp: s1_def s2_def)
  have t: "q \<in> recv_refs s" if "recvStreams s i = Some q"
    using inv that unfolding conn_inv_def tables_ok_def by blast
  show "q \<in> recv_refs (snd (getRecvStream i s))" if "fst (getRecvStream i s) = Some q"
    using that t r unfolding g by (auto split: option.splits if_splits)
qed

lemma CreateBidirectionalStream_keeps:
  assumes inv: "conn_inv s"
  shows "keeps s (snd (CreateBidirectionalStream s))"
proof -
  obtain i iss where i: "IDIssuer_Next (bidiIDIssuer s) = (i, iss)" by fastforce
  let ?ss = "(newSendStream (nextRef s) i (newFlowController (uint InitialFlowWindow)))\<lparr>pendingOpen := True\<rparr>"
  note k0 = issuer_keeps(1) [OF inv, of iss]
  note k1 = keeps_trans [OF k0 alloc_send_keeps [OF keepsD(1) [OF k0], of ?ss i]]
  note k2 = keeps_trans [OF k1 alloc_recv_keeps [OF keepsD(1) [OF k1], of i InitialFlowWindow]]
  note k3 = keeps_trans [OF k2 push_queue_keeps(3) [OF keepsD(1) [OF k2], of "nextRef s" pushOther]]
  let ?s3 = "s\<lparr>bidiIDIssuer := iss, nextRef := nextRef s + 1, sendObjs := (sendObjs s)(nextRef s := Some ?ss),
      sendStreams := (sendStreams s)(i := Some (nextRef s)), nextRef := nextRef s + 1 + 1,
      recvObjs := (recvObjs s)(nextRef s + 1 := Some (newReceiveStream (nextRef s + 1) i InitialFlowWindow)),
      recvStreams := (recvStreams s)(i := Some (nextRef s + 1)),
      sendTrigger := PushBecause (nextRef s) pushOther (sendTrigger s)\<rparr>"
  have "snd (CreateBidirectionalStream s) = ?s3"
    by (rule Streams.equality) (simp_all add: CreateBidirectionalStream_def i Let_def)
  moreover have "keeps s ?s3" using k3 by (simp add: new_fields)
  ultimately show ?thesis by simp
qed

lemma CreateSendStream_keeps:
  assumes inv: "conn_inv s"
  shows "keeps s (snd (CreateSendStream s))"
proof -
  obtain i iss where i: "IDIssuer_Next (uniIDIssuer s) = (i, iss)" by fastforce
  let ?ss = "(newSendStream (nextRef s) i (newFlowController (uint InitialFlowWindow)))\<lparr>pendingOpen := True\<rparr>"
  note k0 = issuer_keeps(2) [OF inv, of iss]
  note k1 = keeps_trans [OF k0 alloc_send_keeps [OF keepsD(1) [OF k0], of ?ss i]]
  note k3 = keeps_trans [OF k1 push_queue_keeps(3) [OF keepsD(1) [OF k1], of "nextRef s" pushOther]]
  from k3 show ?thesis by (simp add: CreateSendStream_def i new_fields Let_def)
qed

lemma scheduleRecvStreamRemoval_keeps:
  assumes inv: "conn_inv s"
  shows "keeps s (scheduleRecvStreamRemoval now q s)"
proof (cases "recvObjs s q")
  case None
  with inv show ?thesis by (simp add: scheduleRecvStreamRemoval_def keeps_refl)
next
  case (Some rs)
  obtain b rs' where m: "markRemovalScheduled rs = (b, rs')" by fastforce
  have k: "keeps s (s\<lparr>recvObjs := (recvObjs s)(q := Some rs')\<rparr>)"
    by (rule set_recv_obj_keeps [OF inv Some]) (use m in \<open>auto simp: markRemovalScheduled_def split: if_splits\<close>)
  with keeps_trans [OF k counters_keep(4) [OF keepsD(1) [OF k]]] show ?thesis
    by (simp add: scheduleRecvStreamRemoval_def Some m Let_def)
qed

text \<open>A read or a cancellation by the application: the object changes and may be queued.\<close>

lemma recv_method_keeps:
  assumes inv: "conn_inv s" and q: "recvObjs s q = Some r" and "rs_self r' = rs_self r" "rs_id r' = rs_id r"
    and t: "tq_ok t" "set (tq_queue t) \<subseteq> recv_refs s"
  shows "keeps s (s\<lparr>recvObjs := (recvObjs s)(q := Some r'), updateWindow := t\<rparr>)"
    and "keeps s (s\<lparr>recvObjs := (recvObjs s)(q := Some r'), cancelTrigger := t\<rparr>)"
proof -
  note k = set_recv_obj_keeps [OF inv q assms(3,4)]
  let ?s = "s\<lparr>recvObjs := (recvObjs s)(q := Some r')\<rparr>"
  have "set (tq_queue t) \<subseteq> recv_refs ?s" using t(2) by auto
  from set_queue_keeps(1,2) [OF keepsD(1) [OF k] t(1) this, THEN keeps_trans [OF k]]
  show "keeps s (s\<lparr>recvObjs := (recvObjs s)(q := Some r'), updateWindow := t\<rparr>)"
    and "keeps s (s\<lparr>recvObjs := (recvObjs s)(q := Some r'), cancelTrigger := t\<rparr>)" by simp_all
qed

lemma CloseBoth_keeps:
  assumes inv: "conn_inv s"
  shows "keeps s (CloseBoth p q s)"
proof -
  define s1 where "s1 = (case recvObjs s q of
      None \<Rightarrow> s
    | Some r \<Rightarrow> let (r, c) = rs_Cancel (r, cancelTrigger s) in
        s\<lparr>recvObjs := (recvObjs s)(q := Some r), cancelTrigger := c\<rparr>)"
  have "keeps s s1"
  proof (cases "recvObjs s q")
    case (Some r)
    obtain r' c where c: "rs_Cancel (r, cancelTrigger s) = (r', c)" by fastforce
    have t: "tq_ok (cancelTrigger s)" "set (tq_queue (cancelTrigger s)) \<subseteq> recv_refs s" "rs_self r = q"
      using inv Some by (auto simp: conn_inv_parts)
    have "rs_self r' = rs_self r" "rs_id r' = rs_id r" "tq_ok c" "set (tq_queue c) \<subseteq> recv_refs s"
      using c t Some by (auto simp: rs_Cancel_def tq_Push_ok split: if_splits)
    from recv_method_keeps(2) [OF inv Some this] show ?thesis by (simp add: s1_def Some c)
  qed (simp add: s1_def keeps_refl [OF inv])
  from keeps_trans [OF this on_send_keeps [OF keepsD(1) [OF this] send_method_simple(5)]]
  show ?thesis by (simp add: CloseBoth_def s1_def)
qed

section \<open>Inbound packets\<close>

lemma handleDatagram_keeps:
  assumes inv: "conn_inv s"
  shows "keeps s (handleDatagram now m s)"
proof -
  define s1 where "s1 = s\<lparr>pt := InsertUnacked now (m_PacketNumber m) (pt s)\<rparr>"
  have k: "keeps s s1" unfolding s1_def by (rule counters_keep(3) [OF inv])
  have "keeps s1 (s1\<lparr>datagramRecv := a, datagramsReceived := b\<rparr>)" for a b
    by (rule keeps_trans [OF counters_keep(17) counters_keep(22)])
      (use keepsD(1) [OF k] keepsD(1) [OF counters_keep(17) [OF keepsD(1) [OF k]]] in simp_all)
  moreover have "keeps s1 (s1\<lparr>datagramsDroppedRcv := b\<rparr>)" for b
    by (rule counters_keep(23) [OF keepsD(1) [OF k]])
  ultimately show ?thesis
    by (auto simp: handleDatagram_def s1_def [symmetric] Let_def intro: keeps_trans [OF k])
qed

lemma ProcessChunk_fields:
  "ProcessChunk off d e rs = Inr (b, rs') \<Longrightarrow> rs_self rs' = rs_self rs \<and> rs_id rs' = rs_id rs"
  by (auto simp: ProcessChunk_def split: if_splits sum.splits)

lemma handle_stream_data_keeps:
  assumes inv: "conn_inv s"
  shows "keeps s (handle_stream_data now pn data s)"
proof -
  let ?i = "case StreamPacket_Id data of None \<Rightarrow> 0 | Some i \<Rightarrow> Varint_Value i"
  let ?f = "\<lambda>rs. case ProcessChunk (case StreamPacket_Offset data of None \<Rightarrow> 0 | Some v \<Rightarrow> Varint_Value v)
      (sp_Data data) (IsEof data) rs of Inl e \<Rightarrow> rs | Inr (b, rs') \<Rightarrow> rs'"
  define s1 where "s1 = s\<lparr>pt := InsertUnacked now pn (pt s)\<rparr>"
  have k1: "keeps s s1" unfolding s1_def by (rule counters_keep(3) [OF inv])
  obtain x s2 where g: "getRecvStream ?i s1 = (x, s2)" by fastforce
  have k2: "keeps s s2" using keeps_trans [OF k1 getRecvStream_keeps(1) [OF keepsD(1) [OF k1]], of ?i] g by simp
  have k3: "keeps s (on_recv q ?f s2)" for q
    by (rule keeps_trans [OF k2 on_recv_keeps [OF keepsD(1) [OF k2]]])
      (auto split: sum.splits dest: ProcessChunk_fields)
  have k4: "keeps s (scheduleRecvStreamRemoval now q (on_recv q ?f s2))" for q
    by (rule keeps_trans [OF k3 scheduleRecvStreamRemoval_keeps [OF keepsD(1) [OF k3]]])
  show ?thesis
    using k1 k2 k3 k4 by (auto simp: handle_stream_data_def s1_def [symmetric] g Let_def split: option.splits)
qed

lemma handle_ack_keeps:
  assumes inv: "conn_inv s"
  shows "total_keeps s (handle_ack now ack s)"
proof -
  obtain r d where p: "ParseTransferACK ack = (r, d)" by fastforce
  obtain res evs h where a: "ReceiveACK now r d (sh s) = (res, evs, h)" by (metis prod_cases3)
  from ReceiveACK_events [OF conn_inv_flight(2) [OF inv], of now r d] a
  have "list_all (ev_ok (cb_ok s)) evs" "\<forall>p \<in> set (ah_sentRanges h). sp_ok (cb_ok s) p" by simp_all
  moreover have "ah_ok h" using ah_ok_ReceiveACK [OF conn_inv_flight(1) [OF inv], of now r d] a by simp
  ultimately show ?thesis using handler_calls_keep [OF inv] by (simp add: handle_ack_def p a)
qed

lemma handle_window_cancel_keeps:
  assumes inv: "conn_inv s"
  shows "keeps s (handle_window_update now pn uw s)" and "keeps s (handle_cancel now pn cs s)"
proof -
  define s1 where "s1 = s\<lparr>pt := InsertUnacked now pn (pt s)\<rparr>"
  have k: "keeps s s1" unfolding s1_def by (rule counters_keep(3) [OF inv])
  have "keeps s (on_send p (updateFlowWindow n) s1)" "keeps s (on_send p onCancel s1)" for p n
    by (rule keeps_trans [OF k on_send_keeps [OF keepsD(1) [OF k]]], rule send_method_simple)+
  with k show "keeps s (handle_window_update now pn uw s)" "keeps s (handle_cancel now pn cs s)"
    by (auto simp: handle_window_update_def handle_cancel_def s1_def [symmetric] Let_def split: option.splits)
qed

lemma handlePacket_keeps:
  assumes inv: "conn_inv s"
  shows "total_keeps s (handlePacket t0 now m s)"
proof -
  have mo: "mtu_ok (mtuTracker s)" using inv by (simp add: conn_inv_def path_ok_def)
  define s1 where "s1 = s\<lparr>mtuTracker := OnPeerActivity t0 (mtuTracker s)\<rparr>"
  have k: "keeps s s1" unfolding s1_def
    by (rule mtu_update_keeps [OF inv]) (simp_all add: mtu_fields mtu_ok_ops(3) [OF mo])
  note i = keepsD(1) [OF k]
  have "total_keeps s1 (handlePacket t0 now m s)"
    using handleDatagram_keeps [OF i] handle_stream_data_keeps [OF i] handle_ack_keeps [OF i]
      handle_window_cancel_keeps [OF i] keeps_refl [OF i]
    by (auto simp: handlePacket_def s1_def [symmetric] Let_def split: option.splits sum.splits)
  with k show ?thesis by (rule total_keeps_trans)
qed

section \<open>The run loop\<close>

lemma push_action_keeps:
  assumes inv: "conn_inv s"
  shows "keeps s (push_action a s)"
proof -
  note k = counters_keep(18) [OF inv, of "tq_Push (nextRef s, a) (send s)"]
  from keeps_trans [OF k issuer_keeps(5) [OF keepsD(1) [OF k], of "nextRef s + 1"]]
  show ?thesis by (simp add: push_action_def)
qed

lemma repush_stream_keeps:
  assumes "conn_inv s" and "\<forall>p. st = Some p \<longrightarrow> p \<in> send_refs s"
  shows "keeps s (repush_stream st s)"
  using assms by (cases st) (simp_all add: repush_stream_def keeps_refl push_queue_keeps)

lemma push_window_keeps:
  assumes "conn_inv s" and "\<forall>q. uw = Some q \<longrightarrow> q \<in> recv_refs s"
  shows "keeps s (case uw of None \<Rightarrow> s | Some w \<Rightarrow> s\<lparr>updateWindow := tq_Push w (updateWindow s)\<rparr>)"
  using assms by (cases uw) (simp_all add: keeps_refl push_queue_keeps)

text \<open>What the pops of an iteration yield are live references.\<close>

definition work_ok :: "Streams \<Rightarrow> ref option \<Rightarrow> ref option \<Rightarrow> ref option \<Rightarrow> bool" where
  "work_ok s uw cs st \<longleftrightarrow> (\<forall>q. uw = Some q \<longrightarrow> q \<in> recv_refs s) \<and> (\<forall>q. cs = Some q \<longrightarrow> q \<in> recv_refs s) \<and>
     (\<forall>p. st = Some p \<longrightarrow> p \<in> send_refs s)"

lemma work_ok_mono: "work_ok s uw cs st \<Longrightarrow> extends s s' \<Longrightarrow> work_ok s' uw cs st"
  unfolding work_ok_def extends_def by blast

lemma drop_completed_keeps:
  assumes inv: "conn_inv s"
  shows "keeps s (snd (drop_completed st s))"
    and "fst (drop_completed st s) = Some p \<Longrightarrow> st = Some p"
  using issuer_keeps(3) [OF inv] keeps_refl [OF inv]
  by (auto simp: drop_completed_def removeSendStream_def split: option.splits if_splits)

lemma pop_work_keeps:
  assumes inv: "conn_inv s" and pop: "pop_work s = ((uw, cs, st), s')"
  shows "keeps s s'" and "work_ok s' uw cs st"
proof -
  let ?u = "Pop (updateWindow s)" and ?c = "Pop (cancelTrigger s)" and ?t = "Pop (sendTrigger s)"
  have q: "tq_ok (updateWindow s)" "tq_ok (cancelTrigger s)" "tq_ok (sendTrigger s)"
    "set (tq_queue (updateWindow s)) \<subseteq> recv_refs s" "set (tq_queue (cancelTrigger s)) \<subseteq> recv_refs s"
    "set (tq_queue (sendTrigger s)) \<subseteq> send_refs s" using inv by (simp_all add: conn_inv_def queues_ok_def)
  define s1 where "s1 = s\<lparr>updateWindow := snd ?u\<rparr>"
  define s2 where "s2 = s1\<lparr>cancelTrigger := snd ?c\<rparr>"
  define s3 where "s3 = s2\<lparr>sendTrigger := snd ?t\<rparr>"
  have k1: "keeps s s1" unfolding s1_def
    by (rule set_queue_keeps(1) [OF inv Pop_ok(1) [OF q(1)]]) (rule subset_trans [OF Pop_ok(2) [OF q(1)] q(4)])
  have k2: "keeps s1 s2" unfolding s2_def
    by (rule set_queue_keeps(2) [OF keepsD(1) [OF k1] Pop_ok(1) [OF q(2)]])
      (use subset_trans [OF Pop_ok(2) [OF q(2)] q(5)] in \<open>simp add: s1_def\<close>)
  have k3: "keeps s2 s3" unfolding s3_def
    by (rule set_queue_keeps(3) [OF keepsD(1) [OF k2] Pop_ok(1) [OF q(3)]])
      (use subset_trans [OF Pop_ok(2) [OF q(3)] q(6)] in \<open>simp add: s1_def s2_def\<close>)
  note k = keeps_trans [OF keeps_trans [OF k1 k2] k3]
  have d: "drop_completed (fst ?t) s3 = (st, s')" and f: "fst ?u = uw" "fst ?c = cs"
    using pop by (auto simp: pop_work_def s1_def s2_def s3_def Let_def split: prod.splits)
  note kd = drop_completed_keeps(1) [OF keepsD(1) [OF k], of "fst ?t"]
  show kk: "keeps s s'" using keeps_trans [OF k kd] d by simp
  have "work_ok s uw cs st"
    using Pop_ok(3) [OF q(1)] Pop_ok(3) [OF q(2)] Pop_ok(3) [OF q(3)] q(4,5,6) f
      drop_completed_keeps(2) [OF keepsD(1) [OF k], of "fst ?t"] d
    unfolding work_ok_def by (metis fst_conv subsetD)
  with kk show "work_ok s' uw cs st" by (auto intro: work_ok_mono keepsD(2))
qed

lemma repush_recv_keeps:
  assumes "conn_inv s" and "\<forall>q. x = Some q \<longrightarrow> q \<in> recv_refs s"
  shows "keeps s (case x of None \<Rightarrow> s
      | Some q \<Rightarrow> if recv_EOF q s then s else s\<lparr>cancelTrigger := tq_Push q (cancelTrigger s)\<rparr>)"
    and "keeps s (case x of None \<Rightarrow> s
      | Some q \<Rightarrow> if recv_EOF q s then s else s\<lparr>updateWindow := tq_Push q (updateWindow s)\<rparr>)"
  using assms by (auto simp: keeps_refl push_queue_keeps split: option.splits)

lemma set_blocked_keeps:
  assumes "conn_inv s" and "snd ` set b \<subseteq> send_refs s"
  shows "keeps s (s\<lparr>congestionBlocked := b\<rparr>)"
  using assms unfolding conn_inv_def keeps_def
  by (auto simp: heap_ok_def tables_ok_def queues_ok_def path_ok_def extends_def intro: flight_ok_mono)

lemma snd_update: "snd ` set (AList.update i p al) \<subseteq> insert p (snd ` set al)"
  by (induction al) auto

lemma park_keeps:
  assumes inv: "conn_inv s" and st: "\<forall>p. st = Some p \<longrightarrow> p \<in> send_refs s"
  shows "keeps s (case st of None \<Rightarrow> s
      | Some p \<Rightarrow> (case sendObjs s p of None \<Rightarrow> s
          | Some r \<Rightarrow> s\<lparr>congestionBlocked := AList.update (ss_id r) p (congestionBlocked s)\<rparr>))"
proof -
  have b: "snd ` set (congestionBlocked s) \<subseteq> send_refs s" using inv by (simp add: conn_inv_def queues_ok_def)
  have "keeps s (s\<lparr>congestionBlocked := AList.update i p (congestionBlocked s)\<rparr>)" if "p \<in> send_refs s" for i p
    by (rule set_blocked_keeps [OF inv]) (use snd_update [of i p "congestionBlocked s"] b that in blast)
  with st keeps_refl [OF inv] show ?thesis by (simp split: option.splits)
qed

lemma congestion_gate_keeps:
  assumes inv: "conn_inv s" and w: "work_ok s uw cs st"
  shows "keeps s (congestion_gate ack uw cs st s)"
proof -
  define s1 where "s1 = (if ack \<noteq> None then push_action (ack_action ack) s else s)"
  define s2 where "s2 = (case cs of None \<Rightarrow> s1
      | Some q \<Rightarrow> if recv_EOF q s1 then s1 else s1\<lparr>cancelTrigger := tq_Push q (cancelTrigger s1)\<rparr>)"
  define s3 where "s3 = (case uw of None \<Rightarrow> s2
      | Some q \<Rightarrow> if recv_EOF q s2 then s2 else s2\<lparr>updateWindow := tq_Push q (updateWindow s2)\<rparr>)"
  have k1: "keeps s s1" unfolding s1_def by (simp add: push_action_keeps [OF inv] keeps_refl [OF inv])
  note w1 = work_ok_mono [OF w keepsD(2) [OF k1]]
  have k2: "keeps s1 s2" unfolding s2_def
    by (rule repush_recv_keeps [OF keepsD(1) [OF k1]]) (use w1 in \<open>simp add: work_ok_def\<close>)
  note w2 = work_ok_mono [OF w1 keepsD(2) [OF k2]]
  have k3: "keeps s2 s3" unfolding s3_def
    by (rule repush_recv_keeps [OF keepsD(1) [OF k2]]) (use w2 in \<open>simp add: work_ok_def\<close>)
  note w3 = work_ok_mono [OF w2 keepsD(2) [OF k3]]
  have "keeps s3 (congestion_gate ack uw cs st s)"
    unfolding congestion_gate_def Let_def s1_def [symmetric] s2_def [symmetric] s3_def [symmetric]
    by (rule park_keeps [OF keepsD(1) [OF k3]]) (use w3 in \<open>simp add: work_ok_def\<close>)
  from keeps_trans [OF keeps_trans [OF keeps_trans [OF k1 k2] k3] this] show ?thesis .
qed

lemma control_packet_ok:
  "(\<forall>cb. a = Some cb \<longrightarrow> cb_ok s cb) \<Longrightarrow> cb_ok s l \<Longrightarrow> 0 < n \<Longrightarrow>
     sp_ok (cb_ok s) (control_packet k a l i pn n now)"
  by (simp add: sp_ok_def control_packet_def)

lemma overhead_pos: "0 < fixedOverhead" "0 < fixedOverhead + payloadOverhead" "0 < fixedOverhead + payloadOverhead + int n"
  by (simp_all add: fixedOverhead_def payloadOverhead_def)

lemma send_cancel_keeps:
  assumes inv: "conn_inv s" and w: "work_ok s uw cs st" and q: "q \<in> recv_refs s"
  shows "total_keeps s (send_cancel now ack q rs uw st s)"
proof -
  note k0 = counters_keep(2) [OF inv, of "sentCounter s + 1"]
  let ?s0 = "s\<lparr>sentCounter := sentCounter s + 1\<rparr>"
  let ?pn = "sentCounter s + 1"
  have p: "sp_ok (cb_ok ?s0) (control_packet 4 None (CancelLost q) (rs_id rs) ?pn (fixedOverhead + payloadOverhead) now)"
    by (rule control_packet_ok) (use q in \<open>simp_all add: overhead_pos\<close>)
  note so = total_keeps_trans [OF k0 on_sent_keeps [OF keepsD(1) [OF k0] p]]
  show ?thesis unfolding send_cancel_def ConsumePacketNumber_def Let_def split
  proof (rule total_keeps_map [OF so])
    fix s1 assume k: "keeps s s1"
    show "keeps s1 (case encode_cancel (rs_id rs) of None \<Rightarrow> s1
        | Some e \<Rightarrow> (case uw of
            None \<Rightarrow> repush_stream st (scheduleRecvStreamRemoval now q (push_action (data_action ?pn e ack) s1))
          | Some w \<Rightarrow> (repush_stream st (scheduleRecvStreamRemoval now q (push_action (data_action ?pn e ack) s1)))
              \<lparr>updateWindow := tq_Push w (updateWindow (repush_stream st (scheduleRecvStreamRemoval now q
                 (push_action (data_action ?pn e ack) s1))))\<rparr>))"
    proof (cases "encode_cancel (rs_id rs)")
      case None
      then show ?thesis using k by (simp add: keeps_refl keepsD(1))
    next
      case (Some e)
      note k1 = push_action_keeps [OF keepsD(1) [OF k], of "data_action ?pn e ack"]
      note k2 = keeps_trans [OF k1 scheduleRecvStreamRemoval_keeps [OF keepsD(1) [OF k1], of now q]]
      note w2 = work_ok_mono [OF work_ok_mono [OF w keepsD(2) [OF k]] keepsD(2) [OF k2]]
      have "keeps s1 (repush_stream st (scheduleRecvStreamRemoval now q (push_action (data_action ?pn e ack) s1)))"
        by (rule keeps_trans [OF k2 repush_stream_keeps [OF keepsD(1) [OF k2]]]) (use w2 in \<open>simp add: work_ok_def\<close>)
      note k3 = this
      note w3 = work_ok_mono [OF work_ok_mono [OF w keepsD(2) [OF k]] keepsD(2) [OF k3]]
      have "\<forall>x. uw = Some x \<longrightarrow> x \<in> recv_refs (repush_stream st (scheduleRecvStreamRemoval now q
          (push_action (data_action ?pn e ack) s1)))"
        using w3 unfolding work_ok_def by blast
      from keeps_trans [OF k3 push_window_keeps [OF keepsD(1) [OF k3] this]] show ?thesis by (simp add: Some)
    qed
  qed
qed

lemma send_window_keeps:
  assumes inv: "conn_inv s" and w: "work_ok s uw cs st" and q: "q \<in> recv_refs s"
  shows "total_keeps s (send_window now ack q rs st s)"
proof -
  note k0 = counters_keep(2) [OF inv, of "sentCounter s + 1"]
  let ?s0 = "s\<lparr>sentCounter := sentCounter s + 1\<rparr>"
  let ?pn = "sentCounter s + 1"
  have p: "sp_ok (cb_ok ?s0) (control_packet 6 (Some (WindowACK q (rs_Window rs))) (WindowLost q) (rs_id rs) ?pn
      (fixedOverhead + payloadOverhead) now)"
    by (rule control_packet_ok) (use q in \<open>simp_all add: overhead_pos\<close>)
  note so = total_keeps_trans [OF k0 on_sent_keeps [OF keepsD(1) [OF k0] p]]
  show ?thesis unfolding send_window_def ConsumePacketNumber_def Let_def split
  proof (rule total_keeps_map [OF so])
    fix s1 assume k: "keeps s s1"
    show "keeps s1 (case encode_window (rs_id rs) (rs_Window rs) of None \<Rightarrow> s1
        | Some e \<Rightarrow> repush_stream st (push_action (data_action ?pn e ack) s1))"
    proof (cases "encode_window (rs_id rs) (rs_Window rs)")
      case None
      then show ?thesis using k by (simp add: keeps_refl keepsD(1))
    next
      case (Some e)
      note k1 = push_action_keeps [OF keepsD(1) [OF k], of "data_action ?pn e ack"]
      note w1 = work_ok_mono [OF work_ok_mono [OF w keepsD(2) [OF k]] keepsD(2) [OF k1]]
      have "\<forall>p. st = Some p \<longrightarrow> p \<in> send_refs (push_action (data_action ?pn e ack) s1)"
        using w1 unfolding work_ok_def by blast
      from keeps_trans [OF k1 repush_stream_keeps [OF keepsD(1) [OF k1] this]] show ?thesis by (simp add: Some)
    qed
  qed
qed

lemma send_data_keeps:
  assumes inv: "conn_inv s"
  shows "total_keeps s (map_option snd (send_data now ack st s))"
proof (cases "Option.bind st (sendObjs s)")
  case None
  then show ?thesis by (cases st) (simp_all add: send_data_def keeps_refl [OF inv])
next
  case (Some r)
  then obtain p where st: "st = Some p" and r: "sendObjs s p = Some r" by (cases st) auto
  let ?mp = "CurrentMTU (mtuTracker s) - fixedOverhead"
  obtain x r' t where tp: "triggerPacket ?mp (r, sendTrigger s) = (x, r', t)" by (metis prod_cases3)
  let ?s0 = "s\<lparr>sendObjs := (sendObjs s)(p := Some r'), sendTrigger := t\<rparr>"
  have k0: "keeps s ?s0"
    using on_send_keeps [OF inv send_method_triggerPacket, of p ?mp] by (simp add: on_send_def r tp)
  show ?thesis
  proof (cases x)
    case None
    with k0 show ?thesis by (simp add: send_data_def st r tp)
  next
    case (Some sr)
    let ?pn = "sentCounter s + 1" and ?n = "fixedOverhead + payloadOverhead + int (length (sr_Data sr))"
    note k1 = keeps_trans [OF k0 counters_keep(2) [OF keepsD(1) [OF k0], of ?pn]]
    let ?s1 = "s\<lparr>sendObjs := (sendObjs s)(p := Some r'), sendTrigger := t, sentCounter := ?pn\<rparr>"
    let ?pkt = "control_packet 3 (Some (RangeACK p sr ?n)) (RangeLost p sr ?n) (ss_id r) ?pn ?n now"
    have k1': "keeps s ?s1" using k1 by simp
    have "sp_ok (cb_ok ?s1) ?pkt" by (rule control_packet_ok) (simp_all add: overhead_pos)
    note so = total_keeps_trans [OF k1' on_sent_keeps [OF keepsD(1) [OF k1'] this]]
    have "total_keeps s (map_option (\<lambda>s. snd (case encode_stream (ss_id r) sr of
        None \<Rightarrow> (True, s) | Some e \<Rightarrow> (False, push_action (data_action ?pn e ack) s))) (on_sent ?pkt ?s1))"
      by (rule total_keeps_map [OF so]) (auto simp: keepsD(1) keeps_refl push_action_keeps split: option.split)
    then show ?thesis
      by (simp add: send_data_def st r tp Some ConsumePacketNumber_def option.map_comp comp_def Let_def)
  qed
qed

lemma Probe_result:
  assumes "mtu_ok t" and "Probe now t = (p, t')"
  shows "mt_min t' = mt_min t" and "p \<noteq> - 1 \<Longrightarrow> mt_min t \<le> p \<and> lastProbe t' \<noteq> 0"
    and "lastProbe t \<noteq> 0 \<longrightarrow> lastProbe t' \<noteq> 0"
  using assms by (auto simp: Probe_def probe_middle_def mtu_ok_def Let_def split: if_splits)

lemma send_probe_keeps:
  assumes inv: "conn_inv s"
  shows "total_keeps s (send_probe now ack s)"
proof -
  have m: "mtu_ok (mtuTracker s)" "fixedOverhead \<le> mt_min (mtuTracker s)"
    using inv by (simp_all add: conn_inv_def path_ok_def)
  obtain p t where pr: "Probe now (mtuTracker s) = (p, t)" by fastforce
  note res = Probe_result [OF m(1) pr]
  have k0: "keeps s (s\<lparr>mtuTracker := t\<rparr>)"
    using mtu_ok_ops(1) [OF m(1), of now] pr res by (intro mtu_update_keeps [OF inv]) simp_all
  note a = push_action_keeps [OF keepsD(1) [OF k0]]
  show ?thesis
  proof (cases "p = - 1")
    case True
    with k0 keeps_trans [OF k0 a] show ?thesis by (simp add: send_probe_def pr Let_def)
  next
    case False
    let ?pn = "sentCounter s + 1"
    let ?s1 = "s\<lparr>mtuTracker := t, sentCounter := ?pn\<rparr>"
    have k1: "keeps s ?s1" using keeps_trans [OF k0 counters_keep(2) [OF keepsD(1) [OF k0], of ?pn]] by simp
    have "0 < p" using res(2) [OF False] m by (simp add: mtu_ok_def)
    then have "sp_ok (cb_ok ?s1) (probe_packet ?pn p now)"
      using res(2) [OF False] by (simp add: sp_ok_def probe_packet_def)
    note so = total_keeps_trans [OF k1 on_sent_keeps [OF keepsD(1) [OF k1] this]]
    have "total_keeps s (Option.bind (on_sent (probe_packet ?pn p now) ?s1) (\<lambda>s.
          if p - fixedOverhead < 0 then None
          else case encode_probe p of None \<Rightarrow> Some s
               | Some data \<Rightarrow> Some (push_action (data_action ?pn data ack) s)))"
      by (rule total_keeps_bind [OF so])
        (use res(2) [OF False] m(2) in \<open>auto simp: keepsD(1) keeps_refl push_action_keeps split: option.split\<close>)
    with False show ?thesis by (simp add: send_probe_def pr ConsumePacketNumber_def Let_def)
  qed
qed

lemma trySendDatagram_keeps:
  assumes inv: "conn_inv s"
  shows "total_keeps s (map_option snd (trySendDatagram now ack s))"
proof (cases "datagramSend s")
  case Nil
  then show ?thesis by (simp add: trySendDatagram_def keeps_refl [OF inv])
next
  case (Cons dg dgs)
  let ?s0 = "s\<lparr>datagramSend := dgs\<rparr>" and ?pn = "sentCounter s + 1"
  let ?s1 = "s\<lparr>datagramSend := dgs, sentCounter := ?pn\<rparr>"
  note k0 = counters_keep(7) [OF inv, of dgs]
  note kd = keeps_trans [OF k0 counters_keep(8) [OF keepsD(1) [OF k0]]]
  have k1: "keeps s ?s1" using keeps_trans [OF k0 counters_keep(2) [OF keepsD(1) [OF k0], of ?pn]] by simp
  have "sp_ok (cb_ok ?s1) (datagram_packet dg ?pn now)"
    using overhead_pos(1) by (simp add: sp_ok_def datagram_packet_def add_pos_nonneg)
  note so = total_keeps_trans [OF k1 on_sent_keeps [OF keepsD(1) [OF k1] this]]
  have c: "keeps x (push_action a (x\<lparr>datagramsSentUncontrolled := n\<rparr>))" "keeps x (push_action a (x\<lparr>datagramsSent := n\<rparr>))"
    if "keeps s x" for x n a
    using keeps_trans [OF counters_keep(10) [OF keepsD(1) [OF that]] push_action_keeps]
      keeps_trans [OF counters_keep(9) [OF keepsD(1) [OF that]] push_action_keeps]
      counters_keep(9,10) [OF keepsD(1) [OF that], THEN keepsD(1)] by blast+
  have "total_keeps s (map_option (\<lambda>s. push_action (data_action ?pn (payload dg) ack)
      (if exempt dg then s\<lparr>datagramsSentUncontrolled := datagramsSentUncontrolled s + 1\<rparr>
       else s\<lparr>datagramsSent := datagramsSent s + 1\<rparr>)) (on_sent (datagram_packet dg ?pn now) ?s1))"
    by (rule total_keeps_map [OF so]) (simp add: c)
  with kd show ?thesis
    by (simp add: trySendDatagram_def Cons ConsumePacketNumber_def option.map_comp comp_def Let_def)
qed

lemma loss_timeout_keeps:
  assumes inv: "conn_inv s"
  shows "total_keeps s (map_option snd (loss_timeout now s))"
proof -
  obtain res evs h where t: "OnTimeout now (sh s) = (res, evs, h)" by (metis prod_cases3)
  from OnTimeout_events [OF conn_inv_flight(2) [OF inv], of now] t
  have "list_all (ev_ok (cb_ok s)) evs" "\<forall>p \<in> set (ah_sentRanges h). sp_ok (cb_ok s) p" by simp_all
  moreover have "ah_ok h" using ah_ok_OnTimeout [OF conn_inv_flight(1) [OF inv], of now] t by simp
  ultimately have "total_keeps s (run_events evs (s\<lparr>sh := h\<rparr>))" using handler_calls_keep [OF inv] by simp
  then show ?thesis
    by (simp add: loss_timeout_def t keeps_refl [OF inv] option.map_comp comp_def option.map_ident Let_def)
qed

lemma make_ack_keeps: "conn_inv s \<Longrightarrow> keeps s (snd (make_ack now s))"
  using counters_keep(3) [of s] by (auto simp: make_ack_def Let_def split: prod.splits sum.splits)

lemma open_recv_ref: "open_recv x s = Some (q, rs) \<Longrightarrow> q \<in> recv_refs s"
  by (auto simp: open_recv_def split: option.splits if_splits)

lemma total_keeps_bind_pair:
  assumes "total_keeps s (map_option snd x)" and "\<And>b s1. keeps s s1 \<Longrightarrow> total_keeps s1 (f b s1)"
  shows "total_keeps s (Option.bind x (\<lambda>(b, s). f b s))"
proof -
  obtain b s1 where "x = Some (b, s1)" "keeps s s1" using assms(1) by (auto simp: total_keeps_def)
  with total_keeps_trans [OF this(2) assms(2) [OF this(2)]] show ?thesis by simp
qed

lemma send_work_keeps:
  assumes inv: "conn_inv s"
  shows "total_keeps s (send_work clk isPTO ack s)"
proof -
  obtain uw cs st s1 where pw: "pop_work s = ((uw, cs, st), s1)" by (metis prod_cases3 prod.exhaust)
  note k = pop_work_keeps(1) [OF inv pw] and w = pop_work_keeps(2) [OF inv pw]
  note i = keepsD(1) [OF k]
  have d: "total_keeps s1 (Option.bind (send_data (at_send clk) ack st s1)
      (\<lambda>(done, s). if done then Some s else send_probe (at_probe clk) ack s))"
    by (rule total_keeps_bind_pair [OF send_data_keeps [OF i]])
      (auto simp: send_probe_keeps keepsD(1) keeps_refl)
  have "total_keeps s1 (send_work clk isPTO ack s)"
    using congestion_gate_keeps [OF i w] d
    by (auto simp: send_work_def pw intro: send_cancel_keeps [OF i w open_recv_ref]
        send_window_keeps [OF i w open_recv_ref] split: option.splits)
  with k show ?thesis by (rule total_keeps_trans)
qed

lemma send_half_keeps:
  assumes inv: "conn_inv s"
  shows "total_keeps s (send_half clk s)"
  unfolding send_half_def
proof (rule total_keeps_bind_pair [OF loss_timeout_keeps [OF inv]])
  fix isPTO s1
  assume "keeps s s1"
  note i = keepsD(1) [OF this]
  obtain ack s2 where a: "make_ack (at_ack clk) s1 = (ack, s2)" by fastforce
  have k: "keeps s1 s2" using make_ack_keeps [OF i, of "at_ack clk"] a by simp
  have "total_keeps s2 (Option.bind (trySendDatagram (at_send clk) ack s2)
      (\<lambda>(taken, s). if taken then Some s else send_work clk isPTO ack s))"
    by (rule total_keeps_bind_pair [OF trySendDatagram_keeps [OF keepsD(1) [OF k]]])
      (auto simp: send_work_keeps keepsD(1) keeps_refl)
  from total_keeps_trans [OF k this]
  show "total_keeps s1 (let (ack, s) = make_ack (at_ack clk) s1 in
      Option.bind (trySendDatagram (at_send clk) ack s)
        (\<lambda>(taken, s). if taken then Some s else send_work clk isPTO ack s))" by (simp add: a)
qed

lemma revive_blocked_keeps:
  assumes inv: "conn_inv s"
  shows "keeps s (revive_blocked s)"
proof -
  let ?t = "fold (\<lambda>b. PushBecause (snd b) pushCwnd) (congestionBlocked s) (sendTrigger s)"
  have q: "tq_ok (sendTrigger s)" "set (tq_queue (sendTrigger s)) \<subseteq> send_refs s"
    "snd ` set (congestionBlocked s) \<subseteq> send_refs s" using inv by (simp_all add: conn_inv_def queues_ok_def)
  have "tq_ok (fold (\<lambda>b. PushBecause (snd b) pushCwnd) bs t) \<and>
      set (tq_queue (fold (\<lambda>b. PushBecause (snd b) pushCwnd) bs t)) = set (tq_queue t) \<union> snd ` set bs"
    if "tq_ok t" for bs :: "(StreamID \<times> ref) list" and t
    using that by (induction bs arbitrary: t) (auto simp: PushBecause_ok)
  from this [OF q(1), of "congestionBlocked s"] q
  have t: "tq_ok ?t" "set (tq_queue ?t) \<subseteq> send_refs s" by auto
  note k = set_blocked_keeps [OF inv, of "[]"]
  have "keeps s (s\<lparr>congestionBlocked := [], sendTrigger := ?t\<rparr>)"
    using keeps_trans [OF k set_queue_keeps(3) [OF keepsD(1) [OF k] t(1)]] t(2) by simp
  then show ?thesis by (simp add: revive_blocked_def keeps_refl [OF inv])
qed

lemma select_keeps:
  assumes inv: "conn_inv s" and sel: "select now d a s = Some (w, s')"
  shows "keeps s s'"
proof -
  have q: "tq_ok (updateWindow s)" "tq_ok (cancelTrigger s)" "tq_ok (sendTrigger s)"
    "set (tq_queue (updateWindow s)) \<subseteq> recv_refs s" "set (tq_queue (cancelTrigger s)) \<subseteq> recv_refs s"
    "set (tq_queue (sendTrigger s)) \<subseteq> send_refs s" using inv by (simp_all add: conn_inv_def queues_ok_def)
  have n: "tq_ok (t\<lparr>notify := b\<rparr>) = tq_ok t" for b and t :: "ref withTriggerQueue" by (simp add: tq_ok_def)
  have "ah_ok ((sh s)\<lparr>notify := b\<rparr>)" for b using conn_inv_flight(1) [OF inv] by (simp add: ah_ok_def)
  then have h: "keeps s (s\<lparr>sh := (sh s)\<lparr>notify := b\<rparr>\<rparr>)" for b
    by (rule set_handler_keeps [OF inv]) (use conn_inv_flight(2) [OF inv] in simp)
  show ?thesis
    using sel h counters_keep(3,5,11) [OF inv] keeps_refl [OF inv] q
      set_queue_keeps [OF inv, of "(sendTrigger s)\<lparr>notify := False\<rparr>"]
      set_queue_keeps [OF inv, of "(updateWindow s)\<lparr>notify := False\<rparr>"]
      set_queue_keeps [OF inv, of "(cancelTrigger s)\<lparr>notify := False\<rparr>"]
    by (auto simp: select_def Notification_def n split: arm.splits if_splits)
qed

lemma noteWake_keeps:
  assumes inv: "conn_inv s"
  shows "keeps s (noteWake now ps r s)"
proof -
  note k1 = counters_keep(21) [OF inv, of 0]
  let ?s = "s\<lparr>parkStartNs := 0, blockedNs := blockedNs s + word_of_int (Sub now ps)\<rparr>"
  have k2: "keeps s ?s" using keeps_trans [OF k1 counters_keep(24) [OF keepsD(1) [OF k1]]] by simp
  from keeps_trans [OF k2 counters_keep(25) [OF keepsD(1) [OF k2]]]
    keeps_trans [OF k2 counters_keep(26) [OF keepsD(1) [OF k2]]] k2
  show ?thesis by (cases r) (simp_all add: noteWake_def)
qed

text \<open>Where the loop can panic: the pacer's division, and nowhere else.\<close>

lemma loop_head_keeps:
  assumes inv: "conn_inv s"
  shows "loop_head t0 now s = Some (Inl s') \<Longrightarrow> keeps s s'"
    and "loop_head t0 now s = Some (Inr (d, s')) \<Longrightarrow> keeps s s'"
    and "loop_head t0 now s = None \<Longrightarrow>
      PacingTimeout (cong (revive_blocked s)) (sh (revive_blocked s)) = None"
proof -
  note k0 = counters_keep(6) [OF inv, of "loopIter s + 1"]
  define s1 where "s1 = revive_blocked (s\<lparr>loopIter := loopIter s + 1\<rparr>)"
  have k1: "keeps s s1" unfolding s1_def
    by (rule keeps_trans [OF k0 revive_blocked_keeps [OF keepsD(1) [OF k0]]])
  obtain x q where p: "Pop (recv s1) = (x, q)" by fastforce
  let ?s2 = "s1\<lparr>recv := q\<rparr>"
  have k2: "keeps s ?s2" by (rule keeps_trans [OF k1 counters_keep(5) [OF keepsD(1) [OF k1]]])
  note h = total_keeps_trans [OF k2 handlePacket_keeps [OF keepsD(1) [OF k2], of t0 now]]
  have h': "handlePacket t0 now m ?s2 \<noteq> None" for m using h [of m] by (auto simp: total_keeps_def)
  let ?s3 = "?s2\<lparr>blocks := blocks ?s2 + 1\<rparr>"
  have k3: "keeps s ?s3" by (rule keeps_trans [OF k2 counters_keep(19) [OF keepsD(1) [OF k2]]])
  have k4: "keeps s (?s3\<lparr>armedPacer := armedPacer ?s3 + 1\<rparr>)"
    by (rule keeps_trans [OF k3 counters_keep(20) [OF keepsD(1) [OF k3]]])
  have park: "keeps s ((if b then ?s3\<lparr>armedPacer := armedPacer ?s3 + 1\<rparr> else ?s3)\<lparr>parkStartNs := now\<rparr>)" for b
    using keeps_trans [OF k3 counters_keep(21) [OF keepsD(1) [OF k3], of now]]
      keeps_trans [OF k4 counters_keep(21) [OF keepsD(1) [OF k4], of now]] by simp
  have eq: "loop_head t0 now s = (case x of
      Some (y, msg) \<Rightarrow> map_option Inl (handlePacket t0 now msg ?s2)
    | None \<Rightarrow> map_option (\<lambda>(deadline, b).
        Inr (deadline, (if b then ?s3\<lparr>armedPacer := armedPacer ?s3 + 1\<rparr> else ?s3)\<lparr>parkStartNs := now\<rparr>))
        (nextWakeDeadline now ?s2))"
    by (simp only: loop_head_def Let_def s1_def [symmetric] p split)
  show "keeps s s'" if "loop_head t0 now s = Some (Inl s')"
    using that unfolding eq by (auto split: option.splits) (metis h total_keeps_Some)
  show "keeps s s'" if "loop_head t0 now s = Some (Inr (d, s'))"
    using that park unfolding eq by (auto split: option.splits)
  have same: "cong s1 = cong (revive_blocked s)" "sh s1 = sh (revive_blocked s)"
    by (simp_all add: s1_def revive_blocked_def can_send_def)
  show "PacingTimeout (cong (revive_blocked s)) (sh (revive_blocked s)) = None" if "loop_head t0 now s = None"
    using that unfolding eq
    by (auto simp: nextWakeDeadline_def same h' Let_def split: option.splits if_splits)
qed

lemma loop_tail_keeps:
  assumes inv: "conn_inv s" and t: "loop_tail ps d clk a s = Some x"
  shows "total_keeps s x"
proof -
  obtain w s1 where sel: "select (at_wake clk) d a s = Some (w, s1)"
    and x: "x = (let s = noteWake (at_wake clk) ps w s1 in if resumesLoop w then Some s else send_half clk s)"
    using t by (auto simp: loop_tail_def)
  note k = select_keeps [OF inv sel]
  note k2 = keeps_trans [OF k noteWake_keeps [OF keepsD(1) [OF k], of "at_wake clk" ps w]]
  show ?thesis
    using k2 total_keeps_trans [OF k2 send_half_keeps [OF keepsD(1) [OF k2], of clk]] by (simp add: x Let_def)
qed

section \<open>Runs of a connection\<close>

text \<open>
  Everything that happens to a connection: steps of the run loop, calls of the application on the
  connection or on a stream it holds, messages from and actions to the network, and the removal timers.
\<close>

record conn =
  streams :: Streams
  parked :: "(time \<times> time) option"

inductive app_step :: "Streams \<Rightarrow> Streams \<Rightarrow> bool" where
  create_bidi: "app_step s (snd (CreateBidirectionalStream s))"
| create_send: "app_step s (snd (CreateSendStream s))"
| append: "app_step s (on_send p (\<lambda>st. snd (AppendDataContext eof data st)) s)"
| close: "app_step s (on_send p ss_Close s)"
| close_both: "app_step s (CloseBoth p q s)"
| cancel: "recvObjs s q = Some r \<Longrightarrow> rs_Cancel (r, cancelTrigger s) = (r', t) \<Longrightarrow>
     app_step s (s\<lparr>recvObjs := (recvObjs s)(q := Some r'), cancelTrigger := t\<rparr>)"
| read_direct: "recvObjs s q = Some r \<Longrightarrow> ReadDirectContext n (r, updateWindow s) = (out, r', t) \<Longrightarrow>
     app_step s (s\<lparr>recvObjs := (recvObjs s)(q := Some r'), updateWindow := t\<rparr>)"
| read: "recvObjs s q = Some r \<Longrightarrow> ReadContext k (r, updateWindow s) = (out', r', t) \<Longrightarrow>
     app_step s (s\<lparr>recvObjs := (recvObjs s)(q := Some r'), updateWindow := t\<rparr>)"
| accept_recv: "AcceptReceiveStream s = Some (q, s') \<Longrightarrow> app_step s s'"
| accept_bidi: "AcceptBidirectionalStream s = Some (b, s') \<Longrightarrow> app_step s s'"
| datagram: "app_step s (snd (sendDatagram b ex s))"
| kinds: "app_step s (SetDatagramKinds fn s)"
| take_datagram: "ReceiveDatagram s = Some (b, s') \<Longrightarrow> app_step s s'"
| grace: "app_step s (SetRecvStreamRemovalGrace d s)"
| message: "app_step s (Streams_Send msg s)"
| action: "app_step s (snd (Streams_Recv s))"
| removal: "(t, i) \<in> set (removals s) \<Longrightarrow>
     app_step s ((removeRecvStream i s)\<lparr>removals := remove1 (t, i) (removals s)\<rparr>)"

inductive conn_step :: "conn \<Rightarrow> conn \<Rightarrow> bool" where
  app: "app_step (streams c) s \<Longrightarrow> conn_step c (c\<lparr>streams := s\<rparr>)"
| handle: "parked c = None \<Longrightarrow> loop_head t0 now (streams c) = Some (Inl s) \<Longrightarrow> conn_step c (c\<lparr>streams := s\<rparr>)"
| park: "parked c = None \<Longrightarrow> loop_head t0 now (streams c) = Some (Inr (d, s)) \<Longrightarrow>
     conn_step c (c\<lparr>streams := s, parked := Some (now, d)\<rparr>)"
| wake: "parked c = Some (ps, d) \<Longrightarrow> loop_tail ps d clk a (streams c) = Some (Some s) \<Longrightarrow>
     conn_step c (c\<lparr>streams := s, parked := None\<rparr>)"

inductive conn_reachable :: "bool \<Rightarrow> int \<Rightarrow> int \<Rightarrow> u64 \<Rightarrow> conn \<Rightarrow> bool" for server mn mx pn where
  init: "conn_reachable server mn mx pn \<lparr>streams = NewStreams server mn mx pn, parked = None\<rparr>"
| step: "conn_reachable server mn mx pn c \<Longrightarrow> conn_step c c' \<Longrightarrow> conn_reachable server mn mx pn c'"

inductive_cases app_stepE: "app_step s s'"
inductive_cases conn_stepE: "conn_step c c'"

lemma recv_op_fields:
  "rs_Cancel (r, t) = (r', t') \<Longrightarrow> tq_ok t \<Longrightarrow> rs_self r' = rs_self r \<and> rs_id r' = rs_id r \<and> tq_ok t' \<and>
     set (tq_queue t') \<subseteq> insert (rs_self r) (set (tq_queue t))"
  "ReadDirectContext n (r, t) = (out, r', t') \<Longrightarrow> tq_ok t \<Longrightarrow> rs_self r' = rs_self r \<and> rs_id r' = rs_id r \<and> tq_ok t' \<and>
     set (tq_queue t') \<subseteq> insert (rs_self r) (set (tq_queue t))"
  "ReadContext k (r, t) = (out', r', t') \<Longrightarrow> tq_ok t \<Longrightarrow> rs_self r' = rs_self r \<and> rs_id r' = rs_id r \<and> tq_ok t' \<and>
     set (tq_queue t') \<subseteq> insert (rs_self r) (set (tq_queue t))"
  by (auto simp: rs_Cancel_def ReadDirectContext_def ReadContext_def grow_window_def tq_Push_ok Let_def
      split: if_splits prod.splits)

lemma app_recv_keeps:
  assumes inv: "conn_inv s" and q: "recvObjs s q = Some r"
  shows "rs_Cancel (r, cancelTrigger s) = (r', t) \<Longrightarrow>
      keeps s (s\<lparr>recvObjs := (recvObjs s)(q := Some r'), cancelTrigger := t\<rparr>)"
    and "ReadDirectContext n (r, updateWindow s) = (out, r', t) \<Longrightarrow>
      keeps s (s\<lparr>recvObjs := (recvObjs s)(q := Some r'), updateWindow := t\<rparr>)"
    and "ReadContext k (r, updateWindow s) = (out', r', t) \<Longrightarrow>
      keeps s (s\<lparr>recvObjs := (recvObjs s)(q := Some r'), updateWindow := t\<rparr>)"
proof -
  have i: "tq_ok (cancelTrigger s)" "set (tq_queue (cancelTrigger s)) \<subseteq> recv_refs s"
    "tq_ok (updateWindow s)" "set (tq_queue (updateWindow s)) \<subseteq> recv_refs s" "rs_self r \<in> recv_refs s"
    using inv q by (auto simp: conn_inv_parts)
  show "keeps s (s\<lparr>recvObjs := (recvObjs s)(q := Some r'), cancelTrigger := t\<rparr>)"
    if "rs_Cancel (r, cancelTrigger s) = (r', t)"
    by (rule recv_method_keeps(2) [OF inv q]) (use recv_op_fields(1) [OF that i(1)] i in blast)+
  show "keeps s (s\<lparr>recvObjs := (recvObjs s)(q := Some r'), updateWindow := t\<rparr>)"
    if "ReadDirectContext n (r, updateWindow s) = (out, r', t)"
    by (rule recv_method_keeps(1) [OF inv q]) (use recv_op_fields(2) [OF that i(3)] i in blast)+
  show "keeps s (s\<lparr>recvObjs := (recvObjs s)(q := Some r'), updateWindow := t\<rparr>)"
    if "ReadContext k (r, updateWindow s) = (out', r', t)"
    by (rule recv_method_keeps(1) [OF inv q]) (use recv_op_fields(3) [OF that i(3)] i in blast)+
qed

lemma sendDatagram_keeps:
  assumes inv: "conn_inv s"
  shows "keeps s (snd (sendDatagram b ex s))"
proof -
  note k = counters_keep(7) [OF inv]
  have "keeps s (s\<lparr>datagramSend := x, datagramTrigger := y\<rparr>)" for x y
    using keeps_trans [OF k counters_keep(11) [OF keepsD(1) [OF k]]] by simp
  with counters_keep(8,12,13) [OF inv] keeps_refl [OF inv] show ?thesis by (simp add: sendDatagram_def)
qed

lemma app_step_keeps:
  assumes inv: "conn_inv s" and "app_step s s'"
  shows "keeps s s'"
  using assms(2)
proof (cases rule: app_step.cases)
  case (removal t i)
  note k = issuer_keeps(4) [OF inv, of i]
  from keeps_trans [OF k counters_keep(4) [OF keepsD(1) [OF k]]] removal show ?thesis
    by (simp add: removeRecvStream_def)
next
  case (message msg)
  note k = counters_keep(5) [OF inv, of "tq_Push (nextRef s, msg) (recv s)"]
  from keeps_trans [OF k issuer_keeps(5) [OF keepsD(1) [OF k], of "nextRef s + 1"]] message show ?thesis
    by (simp add: Streams_Send_def)
next
  case action
  with counters_keep(18) [OF inv] show ?thesis by (simp add: Streams_Recv_def split: prod.splits)
qed (use inv CreateBidirectionalStream_keeps CreateSendStream_keeps on_send_keeps send_method_append
    send_method_simple(5) CloseBoth_keeps app_recv_keeps sendDatagram_keeps counters_keep(14,15,16,17,27)
    in \<open>auto simp: AcceptReceiveStream_def AcceptBidirectionalStream_def SetDatagramKinds_def ReceiveDatagram_def
      SetRecvStreamRemovalGrace_def split: list.splits\<close>)

lemma conn_inv_init:
  assumes "fixedOverhead \<le> mn" and "mn \<le> mx"
  shows "conn_inv (NewStreams server mn mx pn)"
proof -
  have "0 < mn" using assms(1) by (simp add: fixedOverhead_def)
  with assms show ?thesis
    by (simp add: conn_inv_parts NewStreams_def tq_ok_def newWithTriggerQueue_def ah_ok_def NewSentPacketHandler_def
        maxDeclaredLostTracked_def mtu_ok_def NewMTUTracker_def NewNewReno_def CurrentMTU_def Let_def)
qed

lemma conn_inv_reachable:
  assumes "fixedOverhead \<le> mn" and "mn \<le> mx" and "conn_reachable server mn mx pn c"
  shows "conn_inv (streams c)"
  using assms(3)
proof (induction rule: conn_reachable.induct)
  case init
  then show ?case using conn_inv_init [OF assms(1,2)] by simp
next
  case (step c c')
  from step.hyps(2) show ?case
  proof (cases rule: conn_step.cases)
    case (app s)
    then show ?thesis using keepsD(1) [OF app_step_keeps [OF step.IH]] by simp
  next
    case (handle t0 now s)
    then show ?thesis using keepsD(1) [OF loop_head_keeps(1) [OF step.IH]] by simp
  next
    case (park t0 now d s)
    then show ?thesis using keepsD(1) [OF loop_head_keeps(2) [OF step.IH]] by simp
  next
    case (wake ps d clk a s)
    then show ?thesis using loop_tail_keeps [OF step.IH, of ps d clk a "Some s"] keepsD(1) by simp
  qed
qed

end
