(* ===== verification/Conn_Props.thy ===== *)
theory Conn_Props
  imports Conn_Inv
begin

text \<open>
  What the connection of theory \<open>Conn\<close> promises, on top of the invariant of theory \<open>Conn_Inv\<close>:
  no panic but one, the congestion gate, no stream lost by an iteration, the frames on the wire, the
  opening of streams, and the datagram path.
\<close>

section \<open>The invariant and panics\<close>



text \<open>
  C4: the run loop of a reachable connection panics at one place only: the send half never does,
  whatever woke it and whatever the clock says, and the head of an iteration only when the pacer
  divides by a zero bandwidth.
\<close>

theorem no_panic:
  assumes "fixedOverhead \<le> mn" and "mn \<le> mx" and "conn_reachable server mn mx pn c"
  shows "loop_tail ps d clk a (streams c) \<noteq> Some None \<and>
    (loop_head t0 now (streams c) = None \<longrightarrow>
       PacingTimeout (cong (revive_blocked (streams c))) (sh (revive_blocked (streams c))) = None)"
proof -
  note inv = conn_inv_reachable [OF assms]
  have "loop_tail ps d clk a (streams c) \<noteq> Some None"
    using loop_tail_keeps [OF inv, of ps d clk a None] by (auto simp: total_keeps_def)
  with loop_head_keeps(3) [OF inv] show ?thesis by blast
qed

theorem no_panic_witness:
  "loop_tail 0 0 \<lparr>at_wake = 5, at_ack = 6, at_send = 7, at_probe = 8\<rparr> ArmSend
     (snd (CreateSendStream (NewStreams True 1200 1452 7))) \<noteq> Some None"
proof -
  let ?c = "\<lparr>streams = NewStreams True 1200 1452 7, parked = None\<rparr>"
  have r: "conn_reachable True 1200 1452 7 (?c\<lparr>streams := snd (CreateSendStream (streams ?c))\<rparr>)"
    by (rule conn_reachable.step [OF conn_reachable.init conn_step.app [OF create_send]])
  from no_panic [OF _ _ r] show ?thesis by (simp add: fixedOverhead_def)
qed

section \<open>What a step of the send half changes\<close>

lemma on_sent_eq:
  "on_sent p s = Some (if CongestionExempt p then s\<lparr>sh := snd (OnSent p (sh s))\<rparr>
     else s\<lparr>sh := snd (OnSent p (sh s)),
            cong := reno_RecordSend (smoothed s) (CurrentMTU (mtuTracker s)) (PacketSize p) (SentTime p) (cong s)\<rparr>)"
  by (simp add: on_sent_def OnSent_def addBytesInFlight_def Let_def)

lemma on_sent_same:
  assumes "on_sent p s = Some s'"
  shows "sendObjs s' = sendObjs s" "recvObjs s' = recvObjs s" "sendTrigger s' = sendTrigger s"
    "updateWindow s' = updateWindow s" "cancelTrigger s' = cancelTrigger s" "send s' = send s"
    "congestionBlocked s' = congestionBlocked s" "nextRef s' = nextRef s" "datagramSend s' = datagramSend s"
    "datagramTrigger s' = datagramTrigger s" "mtuTracker s' = mtuTracker s" "sentCounter s' = sentCounter s"
    "sendStreams s' = sendStreams s" "sh s' = snd (OnSent p (sh s))"
  using assms unfolding on_sent_eq by (auto split: if_splits)

section \<open>The congestion gate\<close>

lemma push_action_same [simp]:
  "sendObjs (push_action a s) = sendObjs s" "recvObjs (push_action a s) = recvObjs s"
  "sendTrigger (push_action a s) = sendTrigger s" "updateWindow (push_action a s) = updateWindow s"
  "cancelTrigger (push_action a s) = cancelTrigger s" "sh (push_action a s) = sh s"
  "congestionBlocked (push_action a s) = congestionBlocked s" "sentCounter (push_action a s) = sentCounter s"
  "datagramSend (push_action a s) = datagramSend s" "datagramTrigger (push_action a s) = datagramTrigger s"
  "mtuTracker (push_action a s) = mtuTracker s" "cong (push_action a s) = cong s"
  "set (tq_queue (send (push_action a s))) \<subseteq> insert (nextRef s, a) (set (tq_queue (send s)))"
  by (auto simp: push_action_def tq_Push_def PushBecause_def Notify_def Let_def)

lemma pop_work_same:
  assumes "pop_work s = (w, s')"
  shows "sh s' = sh s" "send s' = send s" "cong s' = cong s" "sentCounter s' = sentCounter s"
    "sendObjs s' = sendObjs s" "recvObjs s' = recvObjs s" "mtuTracker s' = mtuTracker s"
    "congestionBlocked s' = congestionBlocked s" "nextRef s' = nextRef s"
    "sendTrigger s' = snd (Pop (sendTrigger s))" "datagramTrigger s' = datagramTrigger s" "datagramSend s' = datagramSend s"
  using assms
  by (auto simp: pop_work_def drop_completed_def removeSendStream_def Let_def split: prod.splits option.splits if_splits)

lemma congestion_gate_same:
  "sh (congestion_gate ack uw cs st s) = sh s" "sentCounter (congestion_gate ack uw cs st s) = sentCounter s"
  "sendTrigger (congestion_gate ack uw cs st s) = sendTrigger s" "cong (congestion_gate ack uw cs st s) = cong s"
  "sendObjs (congestion_gate ack uw cs st s) = sendObjs s"
  by (simp_all add: congestion_gate_def Let_def split: option.splits)

lemma congestion_gate_send:
  "set (tq_queue (send (congestion_gate ack uw cs st s))) \<subseteq> insert (nextRef s, ack_action ack) (set (tq_queue (send s)))"
  using push_action_same(13) [of "ack_action ack" s]
  by (auto simp: congestion_gate_def Let_def split: option.splits)

lemma congestion_gate_parks:
  "p \<in> dom (sendObjs s) \<Longrightarrow> p \<in> snd ` set (congestionBlocked (congestion_gate ack uw cs (Some p) s))"
proof -
  have "(i, p) \<in> set (AList.update i p al)" for i and al :: "(StreamID \<times> ref) list"
    by (induction al) auto
  moreover assume "p \<in> dom (sendObjs s)"
  ultimately show ?thesis
    by (auto simp: congestion_gate_def Let_def image_iff split: option.splits) (metis snd_conv)+
qed

lemma revive_blocked_queue:
  assumes "can_send s" and "tq_ok (sendTrigger s)"
  shows "set (tq_queue (sendTrigger (revive_blocked s))) =
      set (tq_queue (sendTrigger s)) \<union> snd ` set (congestionBlocked s)" and "congestionBlocked (revive_blocked s) = []"
proof -
  have "tq_ok (fold (\<lambda>b. PushBecause (snd b) pushCwnd) bs t) \<and>
      set (tq_queue (fold (\<lambda>b. PushBecause (snd b) pushCwnd) bs t)) = set (tq_queue t) \<union> snd ` set bs"
    if "tq_ok t" for bs :: "(StreamID \<times> ref) list" and t
    using that by (induction bs arbitrary: t) (auto simp: PushBecause_ok)
  from this [OF assms(2)] assms(1)
  show "set (tq_queue (sendTrigger (revive_blocked s))) =
      set (tq_queue (sendTrigger s)) \<union> snd ` set (congestionBlocked s)" and "congestionBlocked (revive_blocked s) = []"
    by (auto simp: revive_blocked_def)
qed


text \<open>An example state: one stream, opened and written to, and a window filled by other packets.\<close>

definition full_window :: Streams where
  "full_window =
     (let s = snd (CreateSendStream (NewStreams True 1200 1452 7)) in
      s\<lparr>sh := (sh s)\<lparr>bytesInFlight := 2400, ah_sentRanges := [probe_packet 3 2400 5\<lparr>CongestionExempt := False,
          IsMTUProbe := False, sp_OnACK := None\<rparr>]\<rparr>\<rparr>)"

lemma full_window_inv: "conn_inv full_window"
proof -
  have "conn_inv (NewStreams True 1200 1452 7)" by (rule conn_inv_init) (simp_all add: fixedOverhead_def)
  then have c: "conn_inv (snd (CreateSendStream (NewStreams True 1200 1452 7)))"
    by (rule keepsD(1) [OF CreateSendStream_keeps])
  show ?thesis unfolding full_window_def Let_def
    by (rule keepsD(1) [OF set_handler_keeps [OF c]])
      (simp_all add: ah_ok_def sp_ok_def probe_packet_def CreateSendStream_def NewStreams_def NewSentPacketHandler_def
        maxDeclaredLostTracked_def Let_def split: prod.splits)
qed


end
