(* ===== verification/Conn_Wire.thy ===== *)
theory Conn_Wire
  imports Conn_Inv
begin

text \<open>
  The packets the connection writes and what the peer's \<open>handlePacket\<close> makes of them: a stream frame,
  a window update and a cancellation come out of the decoder with the numbers that went in, and are
  routed to the operation they were meant for. Also the sizes of what goes out.
\<close>

section \<open>Stream frames\<close>

abbreviation max62 :: u64 where "max62 \<equiv> 4611686018427387903"

definition stream_packet :: "StreamID \<Rightarrow> SentRange \<Rightarrow> StreamPacket" where
  "stream_packet i sr =
     \<lparr>tmp50 = (if i \<noteq> 0 then 128 else 0) OR (if sr_Offset sr \<noteq> 0 then 64 else 0) OR (if sr_Eof sr then 32 else 0),
      sp_Id = (if i \<noteq> 0 then fst (EncodeVarint i) else Varint_zero),
      sp_Offset = (if sr_Offset sr \<noteq> 0 then fst (EncodeVarint (sr_Offset sr)) else Varint_zero),
      sp_Data = sr_Data sr\<rparr>"

lemma stream_packet_flags:
  "hasId (stream_packet i sr) = (if i \<noteq> 0 then 1 else 0)"
  "hasOffset (stream_packet i sr) = (if sr_Offset sr \<noteq> 0 then 1 else 0)"
  "isEof (stream_packet i sr) = (if sr_Eof sr then 1 else 0)"
  "isProbe (stream_packet i sr) = 0"
  by (simp_all add: stream_packet_def hasId_def hasOffset_def isEof_def isProbe_def)

lemma encode_stream_eq:
  "encode_stream i sr =
     (if i \<le> max62 \<and> sr_Offset sr \<le> max62
      then Some (ApplicationPayloadKind_StreamData # StreamPacket_wire (stream_packet i sr)) else None)"
proof -
  let ?p1 = "if i \<noteq> 0 then StreamPacket_SetId (SetHasId StreamPacket_zero True) (fst (EncodeVarint i)) else StreamPacket_zero"
  let ?p2 = "if sr_Offset sr \<noteq> 0
      then StreamPacket_SetOffset (SetHasOffset ?p1 True) (fst (EncodeVarint (sr_Offset sr))) else ?p1"
  have "(SetIsEof ?p2 (sr_Eof sr))\<lparr>sp_Data := sr_Data sr\<rparr> = stream_packet i sr"
    by (simp add: stream_packet_def StreamPacket_SetId_def StreamPacket_SetOffset_def SetHasId_def setHasId_def
        SetHasOffset_def setHasOffset_def SetIsEof_def setIsEof_def hasId_def hasOffset_def StreamPacket_zero_def)
  moreover have "i = 0 \<Longrightarrow> i \<le> max62" "sr_Offset sr = 0 \<Longrightarrow> sr_Offset sr \<le> max62" by simp_all
  ultimately show ?thesis
    unfolding encode_stream_def Let_def case_prod_unfold EncodeVarint_None StreamPacket_Append_wire by auto
qed

lemma stream_packet_ok: "i \<le> max62 \<Longrightarrow> sr_Offset sr \<le> max62 \<Longrightarrow> StreamPacket_ok (stream_packet i sr)"
  unfolding StreamPacket_ok_def stream_packet_flags by (simp add: stream_packet_def EncodeVarint_wf)

lemma stream_packet_fields:
  assumes "i \<le> max62" and "sr_Offset sr \<le> max62"
  shows "(case StreamPacket_Id (stream_packet i sr) of None \<Rightarrow> 0 | Some v \<Rightarrow> Varint_Value v) = i"
    and "(case StreamPacket_Offset (stream_packet i sr) of None \<Rightarrow> 0 | Some v \<Rightarrow> Varint_Value v) = sr_Offset sr"
    and "IsEof (stream_packet i sr) = sr_Eof sr" and "\<not> IsProbe (stream_packet i sr)"
    and "sp_Data (stream_packet i sr) = sr_Data sr"
  unfolding StreamPacket_Id_def StreamPacket_Offset_def IsEof_def IsProbe_def stream_packet_flags
  using assms by (simp_all add: stream_packet_def EncodeVarint_Value)

text \<open>A packet of the union behind its kind byte.\<close>

lemma decode_app_packet:
  assumes "StreamAppPacket_ok x" and "StreamAppPacket_wire x = b"
  shows "StreamAppPacket_DecodeExact b = Inr x"
  using app_packet.exact_roundtrip [OF assms(1)] assms(2) by (simp add: StreamAppPacket_DecodeExact_def)

lemma decode_stream:
  assumes "encode_stream i sr = Some b"
  shows "StreamAppPacket_DecodeExact b =
    Inr (StreamAppPacket_zero\<lparr>Header := \<lparr>Kind = ApplicationPayloadKind_StreamData\<rparr>, var_StreamData := stream_packet i sr\<rparr>)"
proof (rule decode_app_packet)
  have b: "b = ApplicationPayloadKind_StreamData # StreamPacket_wire (stream_packet i sr)"
    and le: "i \<le> max62" "sr_Offset sr \<le> max62"
    using assms by (auto simp: encode_stream_eq split: if_splits)
  show "StreamAppPacket_ok (StreamAppPacket_zero\<lparr>Header := \<lparr>Kind = ApplicationPayloadKind_StreamData\<rparr>,
      var_StreamData := stream_packet i sr\<rparr>)"
    by (simp add: StreamAppPacket_ok_def StreamAppPacket_zero_def IsStreamRelated_def stream_packet_ok le)
  show "StreamAppPacket_wire (StreamAppPacket_zero\<lparr>Header := \<lparr>Kind = ApplicationPayloadKind_StreamData\<rparr>,
      var_StreamData := stream_packet i sr\<rparr>) = b"
    by (simp add: StreamAppPacket_wire_def b)
qed

lemma length_stream_packet:
  assumes "i \<le> max62" and "sr_Offset sr \<le> max62"
  shows "int (length (StreamPacket_wire (stream_packet i sr))) + payloadOverhead =
    StreamPacketHeaderSize i (sr_Offset sr) 0 + 1 + int (length (sr_Data sr))"
proof -
  have "int (length (Varint_wire (fst (EncodeVarint x)))) = uint (VarintLen x)" if "x \<le> max62" for x
    by (simp only: length_Varint_wire EncodeVarint_size [OF that] uint_nat)
  note len = this [OF assms(1)] this [OF assms(2)]
  show ?thesis
    unfolding StreamPacket_wire_def stream_packet_flags StreamPacketHeaderSize_def
    by (cases "i = 0"; cases "sr_Offset sr = 0")
      (simp_all add: stream_packet_def len del: length_Varint_wire)
qed

section \<open>Window updates, cancellations, probes\<close>

lemma decode_window:
  assumes "i \<le> max62" and "w \<le> max62"
  shows "\<exists>b. encode_window i w = Some b \<and> StreamAppPacket_DecodeExact b =
    Inr (StreamAppPacket_zero\<lparr>Header := \<lparr>Kind = ApplicationPayloadKind_StreamWindowUpdate\<rparr>,
           var_WindowUpdate := \<lparr>uw_Id = fst (EncodeVarint i), WindowMax = fst (EncodeVarint w)\<rparr>\<rparr>)"
proof -
  let ?u = "\<lparr>uw_Id = fst (EncodeVarint i), WindowMax = fst (EncodeVarint w)\<rparr>"
  have ok: "UpdateWindow_ok ?u" using assms by (simp add: UpdateWindow_ok_def EncodeVarint_wf)
  have "encode_window i w = Some (ApplicationPayloadKind_StreamWindowUpdate # UpdateWindow_wire ?u)"
    unfolding encode_window_def Let_def case_prod_unfold EncodeVarint_None update_window.enc_wire [OF ok]
    using assms by simp
  moreover have "StreamAppPacket_DecodeExact (ApplicationPayloadKind_StreamWindowUpdate # UpdateWindow_wire ?u) =
      Inr (StreamAppPacket_zero\<lparr>Header := \<lparr>Kind = ApplicationPayloadKind_StreamWindowUpdate\<rparr>, var_WindowUpdate := ?u\<rparr>)"
    by (rule decode_app_packet)
      (simp_all add: StreamAppPacket_ok_def StreamAppPacket_zero_def IsStreamRelated_def StreamAppPacket_wire_def ok)
  ultimately show ?thesis by blast
qed

lemma decode_cancel:
  assumes "i \<le> max62"
  shows "\<exists>b. encode_cancel i = Some b \<and> StreamAppPacket_DecodeExact b =
    Inr (StreamAppPacket_zero\<lparr>Header := \<lparr>Kind = ApplicationPayloadKind_StreamCancel\<rparr>,
           var_StreamCancel := \<lparr>cs_Id = fst (EncodeVarint i)\<rparr>\<rparr>)"
proof -
  let ?u = "\<lparr>cs_Id = fst (EncodeVarint i)\<rparr>"
  have ok: "CancelStreamPacket_ok ?u" using assms by (simp add: CancelStreamPacket_ok_def EncodeVarint_wf)
  have "encode_cancel i = Some (ApplicationPayloadKind_StreamCancel # CancelStreamPacket_wire ?u)"
    unfolding encode_cancel_def Let_def case_prod_unfold EncodeVarint_None cancel_stream.enc_wire [OF ok]
    using assms by simp
  moreover have "StreamAppPacket_DecodeExact (ApplicationPayloadKind_StreamCancel # CancelStreamPacket_wire ?u) =
      Inr (StreamAppPacket_zero\<lparr>Header := \<lparr>Kind = ApplicationPayloadKind_StreamCancel\<rparr>, var_StreamCancel := ?u\<rparr>)"
    by (rule decode_app_packet)
      (simp_all add: StreamAppPacket_ok_def StreamAppPacket_zero_def IsStreamRelated_def StreamAppPacket_wire_def ok)
  ultimately show ?thesis by blast
qed


lemma encode_probe_eq:
  "encode_probe p = Some (ApplicationPayloadKind_StreamData # 16 # replicate (nat (p - fixedOverhead)) 0)"
proof -
  have "StreamPacket_wire ((SetIsProbe StreamPacket_zero True)\<lparr>sp_Data := d\<rparr>) = 16 # d" for d
    by (simp add: StreamPacket_wire_def SetIsProbe_def setIsProbe_def StreamPacket_zero_def hasId_def hasOffset_def)
  then show ?thesis by (simp add: encode_probe_def StreamPacket_Append_wire)
qed

section \<open>Dispatch\<close>

text \<open>Kinds of the transport are below the range of the datagram kinds, so they reach the decoder.\<close>

lemma handlePacket_transport:
  assumes "b = k # bs" and "k < USER_DEFINED_START" and "StreamAppPacket_DecodeExact b = Inr pkt"
  shows "handlePacket t0 now \<lparr>m_PacketNumber = pn, m_Data = b\<rparr> s =
    (let s = s\<lparr>mtuTracker := OnPeerActivity t0 (mtuTracker s)\<rparr> in
     case StreamData pkt of
       Some data \<Rightarrow> Some (handle_stream_data now pn data s)
     | None \<Rightarrow> (case StreamAck pkt of Some ack \<Rightarrow> handle_ack now ack s
         | None \<Rightarrow> (case WindowUpdate pkt of Some uw \<Rightarrow> Some (handle_window_update now pn uw s)
             | None \<Rightarrow> (case StreamCancel pkt of Some cs \<Rightarrow> Some (handle_cancel now pn cs s) | None \<Rightarrow> Some s))))"
  using assms by (simp add: handlePacket_def IsDatagramKind_def Let_def split: option.split)

lemma transport_kinds [simp]:
  "(3 :: u8) < USER_DEFINED_START" "(4 :: u8) < USER_DEFINED_START" "(6 :: u8) < USER_DEFINED_START"
  by (simp_all add: USER_DEFINED_START_def)

lemma handle_stream_frame:
  assumes "encode_stream i sr = Some b"
  shows "handlePacket t0 now \<lparr>m_PacketNumber = pn, m_Data = b\<rparr> s =
    Some (handle_stream_data now pn (stream_packet i sr) (s\<lparr>mtuTracker := OnPeerActivity t0 (mtuTracker s)\<rparr>))"
proof -
  obtain bs where "b = ApplicationPayloadKind_StreamData # bs" using assms by (auto simp: encode_stream_eq split: if_splits)
  from handlePacket_transport [OF this transport_kinds(1) decode_stream [OF assms]]
  show ?thesis by (simp add: StreamData_def)
qed

lemma scheduleRecvStreamRemoval_objs:
  "recvObjs s q = Some r \<Longrightarrow>
     \<exists>r'. recvObjs (scheduleRecvStreamRemoval now q s) = (recvObjs s)(q \<mapsto> r') \<and> oq r' = oq r"
  "sendObjs (scheduleRecvStreamRemoval now q s) = sendObjs s" "pt (scheduleRecvStreamRemoval now q s) = pt s"
  by (auto simp: scheduleRecvStreamRemoval_def markRemovalScheduled_def Let_def split: option.splits prod.splits)

lemma handle_known_stream:
  assumes "i \<le> max62" and "sr_Offset sr \<le> max62" and "recvStreams s i = Some q" and "recvObjs s q = Some r"
  defines "r1 \<equiv> (case ProcessChunk (sr_Offset sr) (sr_Data sr) (sr_Eof sr) r of Inl e \<Rightarrow> r | Inr (b, r') \<Rightarrow> r')"
  shows "\<exists>r'. recvObjs (handle_stream_data now pn (stream_packet i sr) s) = (recvObjs s)(q \<mapsto> r') \<and> oq r' = oq r1"
    and "sendObjs (handle_stream_data now pn (stream_packet i sr) s) = sendObjs s"
    and "pt (handle_stream_data now pn (stream_packet i sr) s) = InsertUnacked now pn (pt s)"
proof -
  let ?s1 = "s\<lparr>pt := InsertUnacked now pn (pt s), recvObjs := (recvObjs s)(q \<mapsto> r1)\<rparr>"
  have h: "handle_stream_data now pn (stream_packet i sr) s =
      (if sr_Eof sr \<or> recv_EOF q ?s1 then scheduleRecvStreamRemoval now q ?s1 else ?s1)"
    using assms(3,4) stream_packet_fields [OF assms(1,2)]
    by (auto simp: handle_stream_data_def getRecvStream_def on_recv_def r1_def Let_def)
  have o: "recvObjs ?s1 q = Some r1" by simp
  from scheduleRecvStreamRemoval_objs(1) [OF o, of now] obtain r' where
    r': "recvObjs (scheduleRecvStreamRemoval now q ?s1) = (recvObjs ?s1)(q \<mapsto> r')" "oq r' = oq r1" by blast
  from r' show "\<exists>r'. recvObjs (handle_stream_data now pn (stream_packet i sr) s) = (recvObjs s)(q \<mapsto> r') \<and> oq r' = oq r1"
    unfolding h by auto
  show "sendObjs (handle_stream_data now pn (stream_packet i sr) s) = sendObjs s"
    and "pt (handle_stream_data now pn (stream_packet i sr) s) = InsertUnacked now pn (pt s)"
    unfolding h by (simp_all add: scheduleRecvStreamRemoval_objs(2,3))
qed


section \<open>Properties\<close>

text \<open>
  A stream frame arrives as it was sent. A frame is encodable exactly when its identifier and offset
  are below \<open>2 ^ 62\<close>; the peer's \<open>handlePacket\<close> then acknowledges the packet and gives
  \<open>ProcessChunk\<close> of the stream with that identifier the offset, the bytes and the end mark that went
  in, and touches no other stream.
\<close>

theorem stream_frame_dispatch:
  assumes "i < 2 ^ 62" and "sr_Offset sr < 2 ^ 62" and "recvStreams s i = Some q" and "recvObjs s q = Some r"
  shows "\<exists>b s' r'. encode_stream i sr = Some b \<and>
    handlePacket t0 now \<lparr>m_PacketNumber = pn, m_Data = b\<rparr> s = Some s' \<and>
    recvObjs s' = (recvObjs s)(q \<mapsto> r') \<and> sendObjs s' = sendObjs s \<and> pt s' = InsertUnacked now pn (pt s) \<and>
    oq r' = (case ProcessChunk (sr_Offset sr) (sr_Data sr) (sr_Eof sr) r of Inl e \<Rightarrow> oq r | Inr (x, r1) \<Rightarrow> oq r1)"
proof -
  have le: "i \<le> max62" "sr_Offset sr \<le> max62" using assms(1,2) by (simp_all add: word_less_nat_alt word_le_nat_alt)
  then obtain b where b: "encode_stream i sr = Some b" by (simp add: encode_stream_eq)
  let ?s = "s\<lparr>mtuTracker := OnPeerActivity t0 (mtuTracker s)\<rparr>"
  have "recvStreams ?s i = Some q" "recvObjs ?s q = Some r" using assms(3,4) by simp_all
  note k = handle_known_stream [OF le this, where now = now and pn = pn]
  from k(1) obtain r' where "recvObjs (handle_stream_data now pn (stream_packet i sr) ?s) = (recvObjs s)(q \<mapsto> r')"
    "oq r' = (case ProcessChunk (sr_Offset sr) (sr_Data sr) (sr_Eof sr) r of Inl e \<Rightarrow> oq r | Inr (x, r1) \<Rightarrow> oq r1)"
    by (auto split: sum.splits)
  with k(2,3) b handle_stream_frame [OF b] show ?thesis by auto
qed

theorem stream_frame_dispatch_witness:
  "\<exists>b s' r'. encode_stream 1 \<lparr>sr_ref = 0, sr_ID = 1, sr_Offset = 300, sr_Data = [7, 8], sr_SentSize = 2, sr_Eof = True\<rparr> = Some b \<and>
    handlePacket 5 6 \<lparr>m_PacketNumber = 9, m_Data = b\<rparr> (snd (CreateBidirectionalStream (NewStreams False 1200 1452 7))) = Some s' \<and>
    recvObjs s' 1 = Some r' \<and> queue (oq r') = [\<lparr>Offset = 300, Data = [7, 8], Eof = True\<rparr>]"
proof -
  let ?s = "snd (CreateBidirectionalStream (NewStreams False 1200 1452 7))"
  let ?sr = "\<lparr>sr_ref = 0, sr_ID = 1, sr_Offset = 300, sr_Data = [7, 8], sr_SentSize = 2, sr_Eof = True\<rparr>"
  let ?r = "newReceiveStream 1 1 InitialFlowWindow"
  have "recvStreams ?s 1 = Some 1" "recvObjs ?s 1 = Some ?r"
    by (simp_all add: CreateBidirectionalStream_def NewStreams_def IDIssuer_Next_def NewIDIssuer_def
        ClientBidirectionalStart_def Let_def)
  moreover have "ProcessChunk 300 [7, 8] True ?r = Inr (True, ?r\<lparr>oq := NewOrderingQueue\<lparr>queue :=
      [\<lparr>Offset = 300, Data = [7, 8], Eof = True\<rparr>], notify := True\<rparr>\<rparr>)"
    by (simp add: ProcessChunk_def Push_def EOF_def newReceiveStream_def NewOrderingQueue_def maybeNotify_def Notify_def
        Let_def)
  ultimately show ?thesis
    using stream_frame_dispatch [of 1 ?sr ?s 1 ?r 5 6 9] by force
qed

text \<open>
  A window update and a cancellation reach the sending stream they are for: with identifier and
  window below \<open>2 ^ 62\<close> they are encodable, and the peer's \<open>handlePacket\<close> runs
  \<open>updateFlowWindow\<close> with the number that was granted, or \<open>onCancel\<close>, on the stream with that
  identifier and on no other.
\<close>

theorem control_frame_dispatch:
  assumes "i < 2 ^ 62" and "w < 2 ^ 62" and "sendStreams s i = Some p" and "sendObjs s p = Some r"
  shows "(\<exists>b s'. encode_window i w = Some b \<and> handlePacket t0 now \<lparr>m_PacketNumber = pn, m_Data = b\<rparr> s = Some s' \<and>
      (sendObjs s', sendTrigger s') =
        (let (r', t) = updateFlowWindow (uint w) (r, sendTrigger s) in ((sendObjs s)(p \<mapsto> r'), t))) \<and>
    (\<exists>b s'. encode_cancel i = Some b \<and> handlePacket t0 now \<lparr>m_PacketNumber = pn, m_Data = b\<rparr> s = Some s' \<and>
      (sendObjs s', sendTrigger s') = (let (r', t) = onCancel (r, sendTrigger s) in ((sendObjs s)(p \<mapsto> r'), t)))"
proof
  have le: "i \<le> max62" "w \<le> max62" using assms(1,2) by (simp_all add: word_less_nat_alt word_le_nat_alt)
  have "- (2 ^ 63) \<le> uint w" by (rule order.trans [OF _ uint_ge_0]) simp
  moreover have "uint w < 2 ^ 63" using assms(2) by (simp add: word_less_def)
  ultimately have sw: "sint w = uint w" by (simp add: sint_uint signed_take_bit_int_eq_self)
  from decode_window [OF le] obtain bs where
    b: "encode_window i w = Some bs" "StreamAppPacket_DecodeExact bs =
      Inr (StreamAppPacket_zero\<lparr>Header := \<lparr>Kind = ApplicationPayloadKind_StreamWindowUpdate\<rparr>,
             var_WindowUpdate := \<lparr>uw_Id = fst (EncodeVarint i), WindowMax = fst (EncodeVarint w)\<rparr>\<rparr>)" by blast
  obtain xs where xs: "bs = 6 # xs"
    using b(1) by (auto simp: encode_window_def UpdateWindow_Append_def Varint_Append_wire split: prod.splits if_splits)
  show "\<exists>b s'. encode_window i w = Some b \<and> handlePacket t0 now \<lparr>m_PacketNumber = pn, m_Data = b\<rparr> s = Some s' \<and>
      (sendObjs s', sendTrigger s') =
        (let (r', t) = updateFlowWindow (uint w) (r, sendTrigger s) in ((sendObjs s)(p \<mapsto> r'), t))"
    unfolding b(1)
    by (simp add: handlePacket_transport [OF xs transport_kinds(3) b(2)] StreamData_def StreamAck_def WindowUpdate_def
        handle_window_update_def EncodeVarint_Value le sw assms on_send_def Let_def split: prod.splits)
next
  have le: "i \<le> max62" using assms(1) by (simp add: word_less_nat_alt word_le_nat_alt)
  from decode_cancel [OF le] obtain bs where
    b: "encode_cancel i = Some bs" "StreamAppPacket_DecodeExact bs =
      Inr (StreamAppPacket_zero\<lparr>Header := \<lparr>Kind = ApplicationPayloadKind_StreamCancel\<rparr>,
             var_StreamCancel := \<lparr>cs_Id = fst (EncodeVarint i)\<rparr>\<rparr>)" by blast
  obtain xs where xs: "bs = 4 # xs"
    using b(1) by (auto simp: encode_cancel_def CancelStreamPacket_Append_def Varint_Append_wire split: prod.splits if_splits)
  show "\<exists>b s'. encode_cancel i = Some b \<and> handlePacket t0 now \<lparr>m_PacketNumber = pn, m_Data = b\<rparr> s = Some s' \<and>
      (sendObjs s', sendTrigger s') = (let (r', t) = onCancel (r, sendTrigger s) in ((sendObjs s)(p \<mapsto> r'), t))"
    unfolding b(1)
    by (simp add: handlePacket_transport [OF xs transport_kinds(2) b(2)] StreamData_def StreamAck_def WindowUpdate_def
        StreamCancel_def handle_cancel_def EncodeVarint_Value le assms on_send_def Let_def split: prod.splits)
qed

theorem control_frame_dispatch_witness:
  "\<exists>b s' r'. encode_window 1 20000000 = Some b \<and>
     handlePacket 5 6 \<lparr>m_PacketNumber = 9, m_Data = b\<rparr> (snd (CreateBidirectionalStream (NewStreams False 1200 1452 7))) = Some s' \<and>
     sendObjs s' 0 = Some r' \<and> WindowSize (flow r') = 20000000"
proof -
  let ?s = "snd (CreateBidirectionalStream (NewStreams False 1200 1452 7))"
  let ?r = "(newSendStream 0 1 (newFlowController (uint InitialFlowWindow)))\<lparr>pendingOpen := True\<rparr>"
  have "sendStreams ?s 1 = Some 0" "sendObjs ?s 0 = Some ?r"
    by (simp_all add: CreateBidirectionalStream_def NewStreams_def IDIssuer_Next_def NewIDIssuer_def
        ClientBidirectionalStart_def Let_def)
  from control_frame_dispatch [OF _ _ this, of 20000000 5 6 9] obtain b s' where
    e: "encode_window 1 20000000 = Some b" "handlePacket 5 6 \<lparr>m_PacketNumber = 9, m_Data = b\<rparr> ?s = Some s'"
    "(sendObjs s', sendTrigger s') =
        (let (r', t) = updateFlowWindow 20000000 (?r, sendTrigger ?s) in ((sendObjs ?s)(0 \<mapsto> r'), t))"
    by auto
  from e(3) have "\<exists>r'. sendObjs s' 0 = Some r' \<and> WindowSize (flow r') = 20000000"
    by (auto simp: updateFlowWindow_def fc_UpdateWindow_def newSendStream_def newFlowController_def
        InitialFlowWindow_def Let_def split: prod.splits)
  with e show ?thesis by blast
qed

text \<open>
  C25: a stream packet fits the path MTU, byte for byte: whatever \<open>triggerPacket\<close> cuts for the budget
  the run loop gives it, the encoded packet with the fixed overhead of the session is at most the MTU.
\<close>

theorem frame_fits_mtu:
  assumes "send_reachable i w st" and "0 \<le> w"
    and "triggerPacket (m - fixedOverhead) (stream st, trig st) = (Some sr, r, t)"
    and "encode_stream (sr_ID sr) sr = Some b"
  shows "fixedOverhead + int (length b) \<le> m"
proof -
  have "send_inv (written st) (stream st)" using run_ok_reachable [OF assms(2,1)] by (simp add: run_ok_def)
  then have "StreamPacketHeaderSize (sr_ID sr) (sr_Offset sr) 0 + int (length (sr_Data sr)) \<le> m - fixedOverhead"
    by (intro triggerPacket_size [OF assms(3)]) (auto simp: send_inv_def range_ok_def)
  with length_stream_packet [of "sr_ID sr" sr] assms(4) show ?thesis
    by (auto simp: encode_stream_eq payloadOverhead_def split: if_splits)
qed

theorem frame_fits_mtu_witness:
  "\<exists>b. encode_stream 1 \<lparr>sr_ref = 0, sr_ID = 1, sr_Offset = 0, sr_Data = [], sr_SentSize = 0, sr_Eof = False\<rparr> = Some b \<and>
     fixedOverhead + int (length b) \<le> 50"
proof -
  let ?r = "(newSendStream 0 1 (newFlowController 10))\<lparr>pendingOpen := True\<rparr>"
  let ?s = "\<lparr>written = [], emitted = [], stream = ?r, trig = newWithTriggerQueue\<rparr>"
  let ?sr = "\<lparr>sr_ref = 0, sr_ID = 1, sr_Offset = 0, sr_Data = [], sr_SentSize = 0, sr_Eof = False\<rparr>"
  have "fst (triggerPacket (50 - fixedOverhead) (?r, newWithTriggerQueue)) = Some ?sr"
    by (simp add: triggerPacket_def Pop_def newSendStream_def newWithTriggerQueue_def trigger_new_def fixedOverhead_def
        StreamPacketHeaderSize_def payloadOverhead_def VarintLen_def next_chunk_def SendableSize_def
        newFlowController_def readChunk_def emit_range_def Let_def split: prod.splits)
  then obtain r t where tp: "triggerPacket (50 - fixedOverhead) (stream ?s, trig ?s) = (Some ?sr, r, t)"
    by (metis prod.collapse send_run.select_convs(3,4))
  obtain b where "encode_stream 1 ?sr = Some b" by (simp add: encode_stream_eq)
  then show ?thesis
    using frame_fits_mtu [OF send_reachable.init [of 1 10 True 0 newWithTriggerQueue] _ tp, of b] by simp
qed

text \<open>
  C26: an MTU probe for the size \<open>p\<close> is recorded as \<open>p\<close> bytes but is \<open>p + 2\<close> bytes on the wire:
  the kind and the flags come on top of a payload that already fills the size. The peer takes it for a
  probe: it acknowledges it and opens no stream.
\<close>

theorem probe_two_bytes_over:
  assumes "fixedOverhead \<le> p"
  shows "\<exists>b. encode_probe p = Some b \<and> fixedOverhead + int (length b) = p + 2 \<and> PacketSize (probe_packet pn p now) = p \<and>
    handlePacket t0 t1 \<lparr>m_PacketNumber = n, m_Data = b\<rparr> s =
      Some (s\<lparr>mtuTracker := OnPeerActivity t0 (mtuTracker s), pt := InsertUnacked t1 n (pt s)\<rparr>)"
proof -
  let ?b = "ApplicationPayloadKind_StreamData # 16 # replicate (nat (p - fixedOverhead)) 0"
  let ?d = "StreamPacket_zero\<lparr>tmp50 := 16, sp_Data := replicate (nat (p - fixedOverhead)) 0\<rparr>"
  let ?x = "StreamAppPacket_zero\<lparr>Header := \<lparr>Kind = ApplicationPayloadKind_StreamData\<rparr>, var_StreamData := ?d\<rparr>"
  have f: "hasId ?d = 0" "hasOffset ?d = 0" "IsProbe ?d"
    by (simp_all add: hasId_def hasOffset_def IsProbe_def isProbe_def)
  have "StreamAppPacket_DecodeExact ?b = Inr ?x"
    by (rule decode_app_packet)
      (simp_all add: StreamAppPacket_ok_def StreamAppPacket_zero_def IsStreamRelated_def StreamAppPacket_wire_def
        StreamPacket_ok_def StreamPacket_wire_def f, simp_all add: StreamPacket_zero_def)
  note h = handlePacket_transport [OF refl transport_kinds(1) this]
  have "handlePacket t0 t1 \<lparr>m_PacketNumber = n, m_Data = ?b\<rparr> s =
      Some (s\<lparr>mtuTracker := OnPeerActivity t0 (mtuTracker s), pt := InsertUnacked t1 n (pt s)\<rparr>)"
    unfolding h using f(3) by (simp add: StreamData_def handle_stream_data_def Let_def)
  with assms show ?thesis by (auto simp: encode_probe_eq probe_packet_def)
qed

theorem probe_two_bytes_over_witness:
  "\<exists>b. encode_probe 1300 = Some b \<and> fixedOverhead + int (length b) = 1302 \<and>
     PacketSize (probe_packet 7 1300 5) = 1300"
  using probe_two_bytes_over [of 1300 7 5 0 0 0 "NewStreams True 1200 1452 7"] by (auto simp: fixedOverhead_def)

end
