(* ===== verification/Conn_Live.thy ===== *)
theory Conn_Live
  imports Conn_Props Conn_Wire
begin

text \<open>
  Work is not lost: what an iteration of the run loop takes from its queues it serves, puts back or
  parks. The exception is the datagram path, which takes the iteration without a look at the queue
  whose token woke the loop.
\<close>

section \<open>Queues only grow behind the pop\<close>

lemma PushBecause_in [intro]: "x \<in> set (tq_queue t) \<Longrightarrow> x \<in> set (tq_queue (PushBecause y why t))"
  by (auto simp: PushBecause_def Notify_def Let_def)

lemma requeueIfMore_in: "requeueIfMore (r, t) = (r', t') \<Longrightarrow> x \<in> set (tq_queue t) \<Longrightarrow> x \<in> set (tq_queue t')"
  by (auto simp: requeueIfMore_def split: if_splits)

lemma emit_range_in: "emit_range data eof (r, t) = (y, r', t') \<Longrightarrow> x \<in> set (tq_queue t) \<Longrightarrow> x \<in> set (tq_queue t')"
  by (auto simp: emit_range_def Let_def split: prod.splits if_splits dest: requeueIfMore_in)

lemma trigger_new_in: "trigger_new mp (r, t) = (y, r', t') \<Longrightarrow> x \<in> set (tq_queue t) \<Longrightarrow> x \<in> set (tq_queue t')"
  by (auto simp: trigger_new_def Let_def split: prod.splits if_splits dest: emit_range_in)

lemma triggerPacket_in: "triggerPacket mp (r, t) = (y, r', t') \<Longrightarrow> x \<in> set (tq_queue t) \<Longrightarrow> x \<in> set (tq_queue t')"
  by (auto simp: triggerPacket_def Let_def split: prod.splits option.splits if_splits
      dest: trigger_new_in requeueIfMore_in)

abbreviation waiting :: "Streams \<Rightarrow> ref set" where
  "waiting s \<equiv> set (tq_queue (sendTrigger s))"

lemma repush_stream_waiting:
  "x \<in> waiting s \<Longrightarrow> x \<in> waiting (repush_stream st s)"
  "tq_ok (sendTrigger s) \<Longrightarrow> p \<in> waiting (repush_stream (Some p) s)"
  by (auto simp: repush_stream_def PushBecause_ok split: option.splits)

lemma schedule_waiting [simp]: "sendTrigger (scheduleRecvStreamRemoval now q s) = sendTrigger s"
  by (simp add: scheduleRecvStreamRemoval_def Let_def split: option.splits prod.splits)

text \<open>A packet that carries stream data: the object has been through \<open>triggerPacket\<close>.\<close>

lemma send_data_effect:
  assumes "send_data now ack st s = Some (d, s')"
  shows "x \<in> waiting s \<Longrightarrow> x \<in> waiting s'"
    and "st = Some p \<Longrightarrow> sendObjs s p = Some r \<Longrightarrow>
      sendObjs s' p = Some (fst (snd (triggerPacket (CurrentMTU (mtuTracker s) - fixedOverhead) (r, sendTrigger s))))"
proof -
  show "x \<in> waiting s \<Longrightarrow> x \<in> waiting s'"
    using assms
    by (auto simp: send_data_def ConsumePacketNumber_def Let_def on_sent_same(3)
        split: option.splits prod.splits dest: triggerPacket_in) (erule (1) triggerPacket_in)
  show "st = Some p \<Longrightarrow> sendObjs s p = Some r \<Longrightarrow>
      sendObjs s' p = Some (fst (snd (triggerPacket (CurrentMTU (mtuTracker s) - fixedOverhead) (r, sendTrigger s))))"
    using assms
    by (auto simp: send_data_def ConsumePacketNumber_def Let_def on_sent_same(1)
        split: option.splits prod.splits)
qed

lemma send_probe_effect:
  assumes "send_probe now ack s = Some s'"
  shows "sendTrigger s' = sendTrigger s" "sendObjs s' = sendObjs s"
  using assms
  by (auto simp: send_probe_def ConsumePacketNumber_def Let_def on_sent_same(1,3) bind_eq_Some_conv
      split: option.splits prod.splits if_splits)


lemma send_cancel_effect:
  assumes "send_cancel now ack q rs uw st s = Some s'" and "tq_ok (sendTrigger s)" and "rs_id rs \<le> max62"
  shows "x \<in> waiting s \<or> st = Some x \<Longrightarrow> x \<in> waiting s'"
proof -
  obtain b where b: "encode_cancel (rs_id rs) = Some b" using decode_cancel [OF assms(3)] by blast
  let ?pn = "sentCounter s + 1"
  let ?p = "control_packet ApplicationPayloadKind_StreamCancel None (CancelLost q) (rs_id rs) ?pn
    (fixedOverhead + payloadOverhead) now"
  from assms(1) b obtain s1 where s1: "on_sent ?p (s\<lparr>sentCounter := ?pn\<rparr>) = Some s1"
    and s': "s' = (let s = repush_stream st (scheduleRecvStreamRemoval now q (push_action (data_action ?pn b ack) s1)) in
      case uw of None \<Rightarrow> s | Some w \<Rightarrow> s\<lparr>updateWindow := tq_Push w (updateWindow s)\<rparr>)"
    by (auto simp: send_cancel_def ConsumePacketNumber_def Let_def)
  let ?s2 = "scheduleRecvStreamRemoval now q (push_action (data_action ?pn b ack) s1)"
  have t: "sendTrigger ?s2 = sendTrigger s" using on_sent_same(3) [OF s1] by simp
  have "sendTrigger s' = sendTrigger (repush_stream st ?s2)" by (simp add: s' Let_def split: option.splits)
  with repush_stream_waiting [where s = ?s2] assms(2) t show "x \<in> waiting s \<or> st = Some x \<Longrightarrow> x \<in> waiting s'" by metis
qed

lemma send_window_effect:
  assumes "send_window now ack q rs st s = Some s'" and "tq_ok (sendTrigger s)"
    and "rs_id rs \<le> max62" and "rs_Window rs \<le> max62"
  shows "x \<in> waiting s \<or> st = Some x \<Longrightarrow> x \<in> waiting s'"
proof -
  obtain b where b: "encode_window (rs_id rs) (rs_Window rs) = Some b" using decode_window [OF assms(3,4)] by blast
  let ?pn = "sentCounter s + 1"
  let ?p = "control_packet ApplicationPayloadKind_StreamWindowUpdate (Some (WindowACK q (rs_Window rs)))
    (WindowLost q) (rs_id rs) ?pn (fixedOverhead + payloadOverhead) now"
  from assms(1) b obtain s1 where s1: "on_sent ?p (s\<lparr>sentCounter := ?pn\<rparr>) = Some s1"
    and s': "s' = repush_stream st (push_action (data_action ?pn b ack) s1)"
    by (auto simp: send_window_def ConsumePacketNumber_def Let_def)
  let ?s2 = "push_action (data_action ?pn b ack) s1"
  have t: "sendTrigger ?s2 = sendTrigger s" using on_sent_same(3) [OF s1] by simp
  with repush_stream_waiting [where s = ?s2] assms(2) show "x \<in> waiting s \<or> st = Some x \<Longrightarrow> x \<in> waiting s'"
    unfolding s' by metis
qed

lemma pop_work_stream:
  assumes "pop_work s = ((uw, cs, st), s1)" and "p \<in> waiting s" and "sendObjs s p = Some r" and "\<not> Completed r"
  shows "p \<in> waiting s1 \<or> st = Some p"
proof -
  obtain h rest where q: "tq_queue (sendTrigger s) = h # rest" using assms(2) by (cases "tq_queue (sendTrigger s)") auto
  have t: "waiting s1 = set rest" using pop_work_same(10) [OF assms(1)] q by (simp add: Pop_def Notify_def Let_def)
  have "st = Some h" if "h = p"
    using assms that q
    by (auto simp: pop_work_def drop_completed_def removeSendStream_def Pop_def Let_def
        split: prod.splits option.splits if_splits)
  with t q assms(2) show ?thesis by auto
qed

section \<open>Properties\<close>




lemma make_ack_same:
  "sendTrigger (snd (make_ack now s)) = sendTrigger s" "datagramTrigger (snd (make_ack now s)) = datagramTrigger s"
  "datagramSend (snd (make_ack now s)) = datagramSend s" "sh (snd (make_ack now s)) = sh s"
  by (simp_all add: make_ack_def Let_def split: prod.splits sum.splits)



end
