(* ===== verification/Codec_Io.thy ===== *)
theory Codec_Io
  imports Wire_Varint
begin

text \<open>
  The generated codecs write and read in three ways: to and from slices that grow (\<open>Append\<close>,
  \<open>Decode\<close>), slices of fixed length with an offset (\<open>EncodeSlice\<close>, \<open>DecodeSlice\<close>), and the interfaces
  \<open>io.Writer\<close> and \<open>io.Reader\<close> (\<open>Write\<close>, \<open>Read\<close>). This theory has the primitives of the last two, the
  wrappers that the generator writes for every format (\<open>EncodeCopy\<close>, \<open>Encode\<close>, \<open>DecodeCopy\<close>,
  \<open>DecodeExactCopy\<close> and the \<open>Must\<close> forms), and the interface that a format with all of them satisfies.
\<close>

section \<open>Effects\<close>

text \<open>
  A step changes a state and gives a value or an error; after an error the state is still that of the
  writer, the slice or the reader.
\<close>

type_synonym ('s, 'a) io = "'s \<Rightarrow> (wire_error, 'a) result \<times> 's"

definition io_return :: "'a \<Rightarrow> ('s, 'a) io" where
  "io_return x s = (Inr x, s)"

definition io_fail :: "wire_error \<Rightarrow> ('s, 'a) io" where
  "io_fail e s = (Inl e, s)"

definition io_bind :: "('s, 'a) io \<Rightarrow> ('a \<Rightarrow> ('s, 'b) io) \<Rightarrow> ('s, 'b) io" where
  "io_bind m f s = (case m s of (Inl e, s') \<Rightarrow> (Inl e, s') | (Inr x, s') \<Rightarrow> f x s')"

text \<open>Statements one after the other, each followed by \<open>if err != nil { return err }\<close>.\<close>

fun io_seq :: "('s, unit) io list \<Rightarrow> ('s, unit) io" where
  "io_seq [] = io_return ()"
| "io_seq (m # ms) = io_bind m (\<lambda>_. io_seq ms)"

declare io_seq.simps [simp del]

text \<open>\<open>if b { return err }\<close>\<close>

definition io_check :: "bool \<Rightarrow> wire_error \<Rightarrow> ('s, unit) io" where
  "io_check b e = (if b then io_fail e else io_return ())"

section \<open>Writers\<close>

text \<open>An \<open>io.Writer\<close>, with its \<open>WriteByte\<close> method when it is an \<open>io.ByteWriter\<close> as well.\<close>

record 's writer =
  wr_Write :: "bytes \<Rightarrow> ('s, unit) io"
  wr_WriteByte :: "(u8 \<Rightarrow> ('s, unit) io) option"

definition write_byte :: "'s writer \<Rightarrow> u8 \<Rightarrow> ('s, unit) io" where
  "write_byte W b = (case wr_WriteByte W of Some f \<Rightarrow> f b | None \<Rightarrow> wr_Write W [b])"

text \<open>A \<open>bytes.Buffer\<close> appends and never fails.\<close>

definition bytesBuffer :: "bytes writer" where
  "bytesBuffer = \<lparr>wr_Write = (\<lambda>bs buf. (Inr (), buf @ bs)), wr_WriteByte = Some (\<lambda>b buf. (Inr (), buf @ [b]))\<rparr>"

text \<open>
  What \<open>io.Writer\<close> promises: \<open>Write\<close> takes all bytes, or takes fewer of them and returns an error.
  \<open>out\<close> is what the writer has taken so far.
\<close>

definition writer_ok :: "'s writer \<Rightarrow> ('s \<Rightarrow> bytes) \<Rightarrow> bool" where
  "writer_ok W out \<longleftrightarrow>
     (\<forall>bs s r s'. wr_Write W bs s = (r, s') \<longrightarrow>
        (if r = Inr () then out s' = out s @ bs else \<exists>k. out s' = out s @ take k bs)) \<and>
     (\<forall>f b s r s'. wr_WriteByte W = Some f \<longrightarrow> f b s = (r, s') \<longrightarrow>
        (if r = Inr () then out s' = out s @ [b] else \<exists>k. out s' = out s @ take k [b]))"

section \<open>Slices\<close>

text \<open>The bytes of one field go to the slice at the offset, if they fit.\<close>

type_synonym cursor = "bytes \<times> nat"

definition put_slice :: "string \<Rightarrow> bytes \<Rightarrow> (cursor, unit) io" where
  "put_slice field bs = (\<lambda>(buf, off).
     if length buf < off + length bs then (Inl (NotEnoughSpace field), (buf, off))
     else (Inr (), (take off buf @ bs @ drop (off + length bs) buf, off + length bs)))"

section \<open>Readers\<close>

text \<open>
  An \<open>io.Reader\<close>: the bytes it will still give, whether it is an \<open>io.Seeker\<close> too, and the error that
  follows the bytes, which is \<open>io.EOF\<close> unless something fails. How the bytes are cut into \<open>Read\<close> calls is
  invisible to \<open>io.ReadFull\<close>, \<open>io.CopyN\<close> and \<open>io.ReadAll\<close>. \<open>ReadByte\<close> of an \<open>io.ByteReader\<close> has the
  outcome of \<open>io.ReadFull\<close> for one byte.
\<close>

record reader =
  src :: bytes
  seekable :: bool
  fault :: wire_error

definition bytesReader :: "bytes \<Rightarrow> reader" where
  "bytesReader buf = \<lparr>src = buf, seekable = True, fault = IoEOF\<rparr>"

definition read_full :: "nat \<Rightarrow> (reader, bytes) io" where
  "read_full n r =
     (if n \<le> length (src r) then (Inr (take n (src r)), r\<lparr>src := drop n (src r)\<rparr>)
      else (Inl (if fault r = IoEOF \<and> src r \<noteq> [] then IoUnexpectedEOF else fault r), r\<lparr>src := []\<rparr>))"

definition copy_n :: "nat \<Rightarrow> (reader, bytes) io" where
  "copy_n n r =
     (if n \<le> length (src r) then (Inr (take n (src r)), r\<lparr>src := drop n (src r)\<rparr>)
      else (Inl (fault r), r\<lparr>src := []\<rparr>))"

definition read_all :: "(reader, bytes) io" where
  "read_all r = (if fault r = IoEOF then (Inr (src r), r\<lparr>src := []\<rparr>) else (Inl (fault r), r\<lparr>src := []\<rparr>))"

text \<open>
  A field whose length came from the wire: a seeker is asked whether it has the bytes before the slice is
  made, any other reader is copied piece by piece.
\<close>

definition read_sized :: "nat \<Rightarrow> (reader, bytes) io" where
  "read_sized n r =
     (if seekable r then
        if length (src r) < n then (Inl (TooLarge (length (src r)) n), r) else read_full n r
      else copy_n n r)"

text \<open>Reading through an \<open>io.LimitReader\<close>; the value comes with the number of bytes left of the limit.\<close>

definition limited :: "nat \<Rightarrow> (reader, 'a) io \<Rightarrow> (reader, 'a \<times> nat) io" where
  "limited n m r =
     (let l = min n (length (src r));
          (res, r') = m \<lparr>src = take n (src r), seekable = False, fault = (if n \<le> length (src r) then IoEOF else fault r)\<rparr>;
          used = l - length (src r')
      in (case res of Inl e \<Rightarrow> Inl e | Inr x \<Rightarrow> Inr (x, n - used), r\<lparr>src := drop used (src r)\<rparr>))"

section \<open>Wrappers\<close>

definition encode_copy :: "(bytes, unit) io \<Rightarrow> bytes \<Rightarrow> (wire_error, bytes) result" where
  "encode_copy wr reserved = (case wr reserved of (Inl e, _) \<Rightarrow> Inl e | (Inr _, buf) \<Rightarrow> Inr buf)"

definition encode_slice :: "(cursor, unit) io \<Rightarrow> bytes \<Rightarrow> (wire_error, bytes) result" where
  "encode_slice sl buf =
     (case sl (buf, 0) of (Inl e, _) \<Rightarrow> Inl e | (Inr _, (buf', off)) \<Rightarrow> Inr (take off buf'))"

text \<open>The \<open>Must\<close> forms panic on an error: \<open>None\<close>.\<close>

definition must :: "(wire_error, bytes) result \<Rightarrow> bytes option" where
  "must r = (case r of Inl _ \<Rightarrow> None | Inr buf \<Rightarrow> Some buf)"

definition decode_copy :: "(reader, 'a) io \<Rightarrow> bytes \<Rightarrow> (wire_error, 'a \<times> bytes) result" where
  "decode_copy rd buf =
     (case rd (bytesReader buf) of
        (Inl e, _) \<Rightarrow> Inl e
      | (Inr x, r) \<Rightarrow> Inr (x, drop (length buf - length (src r)) buf))"

definition no_remain :: "(wire_error, 'a \<times> bytes) result \<Rightarrow> (wire_error, 'a) result" where
  "no_remain m = rbind m (\<lambda>(x, remain).
     if length remain \<noteq> 0 then Inl (RemainingBytes (length remain)) else Inr x)"

definition decode_exact_copy :: "(reader, 'a) io \<Rightarrow> bytes \<Rightarrow> (wire_error, 'a) result" where
  "decode_exact_copy rd buf = no_remain (decode_copy rd buf)"

lemma decode_exact_no_remain: "decode_exact dec buf = no_remain (decode_rest dec buf)"
  by (auto simp: decode_exact_def no_remain_def split: sum.splits)

section \<open>Encoders that agree\<close>

named_theorems buffered \<open>writing to a \<open>bytes.Buffer\<close> is appending\<close>

lemma encode_copy_seq [buffered]:
  "encode_copy (io_seq []) buf = Inr buf"
  "encode_copy (io_seq (m # ms)) buf = rbind (encode_copy m buf) (encode_copy (io_seq ms))"
  by (auto simp: encode_copy_def io_seq.simps io_bind_def io_return_def split: sum.splits prod.splits)

lemma rbind_io_end [buffered]: "rbind m (encode_copy (io_seq [])) = m"
  by (cases m) (simp_all add: encode_copy_seq)

lemma encode_copy_write [buffered]:
  "encode_copy (wr_Write bytesBuffer bs) buf = Inr (buf @ bs)"
  "encode_copy (write_byte bytesBuffer b) buf = Inr (buf @ [b])"
  "encode_copy (io_return ()) buf = Inr buf" "encode_copy (io_fail e) buf = Inl e"
  "encode_copy (io_check c e) buf = (if c then Inl e else Inr buf)"
  by (simp_all add: encode_copy_def bytesBuffer_def write_byte_def io_return_def io_fail_def io_check_def)

lemma encode_copy_if [buffered]:
  "encode_copy (if c then m else n) buf = (if c then encode_copy m buf else encode_copy n buf)"
  by simp

text \<open>
  The bytes an encoder means to write, \<open>None\<close> when it refuses the value, and what the two other kinds of
  encoders do with them.
\<close>

definition wcat :: "bytes option \<Rightarrow> bytes option \<Rightarrow> bytes option" where
  "wcat u v = (case u of None \<Rightarrow> None | Some x \<Rightarrow> map_option (\<lambda>y. x @ y) v)"

lemma wcat_simps [simp]: "wcat None v = None" "wcat u None = None" "wcat (Some x) (Some y) = Some (x @ y)" "wcat u (Some []) = u"
  by (auto simp: wcat_def split: option.splits)

text \<open>The encoder fills the slice at the offset with exactly these bytes, or reports an error and keeps its length.\<close>

definition fills :: "(cursor, unit) io \<Rightarrow> bytes option \<Rightarrow> bool" where
  "fills m w \<longleftrightarrow> (\<forall>buf off. off \<le> length buf \<longrightarrow>
     (case w of
        Some ws \<Rightarrow>
          if off + length ws \<le> length buf
          then m (buf, off) = (Inr (), (take off buf @ ws @ drop (off + length ws) buf, off + length ws))
          else (\<exists>e buf' off'. m (buf, off) = (Inl e, (buf', off')) \<and> length buf' = length buf)
      | None \<Rightarrow> \<exists>e buf' off'. m (buf, off) = (Inl e, (buf', off')) \<and> length buf' = length buf))"

lemma fills_put [intro!]: "fills (put_slice field bs) (Some bs)"
  by (auto simp: fills_def put_slice_def)

lemma fills_return [intro!]: "fills (io_return ()) (Some [])"
  by (auto simp: fills_def io_return_def)

lemma fills_fail [intro!]: "fills (io_fail e) None"
  by (auto simp: fills_def io_fail_def)

lemma fills_check [intro!]: "fills (io_check c e) (if c then None else Some [])"
  by (simp add: io_check_def fills_fail fills_return)

lemma fills_if: "fills m u \<Longrightarrow> fills n v \<Longrightarrow> fills (if c then m else n) (if c then u else v)"
  by simp

lemma fills_bind:
  assumes "fills m u" and "fills n v"
  shows "fills (io_bind m (\<lambda>_. n)) (wcat u v)"
  unfolding fills_def
proof (intro allI impI)
  fix buf :: bytes and off assume off: "off \<le> length buf"
  show "case wcat u v of
        Some ws \<Rightarrow>
          if off + length ws \<le> length buf
          then io_bind m (\<lambda>_. n) (buf, off) = (Inr (), (take off buf @ ws @ drop (off + length ws) buf, off + length ws))
          else (\<exists>e buf' off'. io_bind m (\<lambda>_. n) (buf, off) = (Inl e, (buf', off')) \<and> length buf' = length buf)
      | None \<Rightarrow> \<exists>e buf' off'. io_bind m (\<lambda>_. n) (buf, off) = (Inl e, (buf', off')) \<and> length buf' = length buf"
  proof (cases "\<exists>x. u = Some x \<and> off + length x \<le> length buf")
    case False
    then obtain e buf' off' where "m (buf, off) = (Inl e, (buf', off'))" "length buf' = length buf"
      using assms(1)[unfolded fills_def, rule_format, OF off] by (cases u) auto
    then show ?thesis using False by (cases u; cases v) (auto simp: io_bind_def)
  next
    case True
    then obtain x where x: "u = Some x" "off + length x \<le> length buf" by blast
    let ?buf = "take off buf @ x @ drop (off + length x) buf"
    have m: "m (buf, off) = (Inr (), (?buf, off + length x))"
      using assms(1) off x unfolding fills_def by fastforce
    have len: "length ?buf = length buf" "off + length x \<le> length ?buf" using x off by auto
    note n = assms(2)[unfolded fills_def, rule_format, OF len(2)]
    have t: "take (off + length x) ?buf = take off buf @ x" using off by simp
    have d: "drop (off + length x + k) ?buf = drop (off + length x + k) buf" for k
      using off by (simp add: add.commute add.left_commute)
    show ?thesis
      using n len(1) unfolding t d by (cases v) (auto simp: x io_bind_def m add.assoc split: if_splits)
  qed
qed

lemma fills_seq [intro!]:
  "fills (io_seq []) (Some [])"
  "fills m u \<Longrightarrow> fills (io_seq ms) v \<Longrightarrow> fills (io_seq (m # ms)) (wcat u v)"
  using fills_return fills_bind by (auto simp: io_seq.simps)

text \<open>
  On any writer that keeps its promise: when the encoder returns, the writer has taken exactly these
  bytes; when it fails, an initial piece of them; and it cannot return for a value that is refused.
\<close>

definition writes :: "('s \<Rightarrow> bytes) \<Rightarrow> ('s, unit) io \<Rightarrow> bytes option \<Rightarrow> bool" where
  "writes out m w \<longleftrightarrow> (\<forall>s r s'. m s = (r, s') \<longrightarrow>
     (r = Inr () \<longrightarrow> (\<exists>ws. w = Some ws \<and> out s' = out s @ ws)) \<and>
     (\<forall>ws. w = Some ws \<longrightarrow> (\<exists>k. out s' = out s @ take k ws)))"

lemma writes_write [intro]:
  assumes "writer_ok W out"
  shows "writes out (wr_Write W bs) (Some bs)" and "writes out (write_byte W b) (Some [b])"
proof -
  show a: "writes out (wr_Write W bs) (Some bs)" for bs
    unfolding writes_def using assms unfolding writer_ok_def by (metis option.inject take_all_iff order_refl)
  have "writes out (f b) (Some [b])" if "wr_WriteByte W = Some f" for f
    unfolding writes_def using assms that unfolding writer_ok_def by (metis option.inject take_all_iff order_refl)
  then show "writes out (write_byte W b) (Some [b])" using a by (auto simp: write_byte_def split: option.split)
qed

lemma writes_return [intro]: "writes out (io_return ()) (Some [])"
  by (auto simp: writes_def io_return_def)

lemma writes_fail [intro]: "writes out (io_fail e) None"
  by (auto simp: writes_def io_fail_def)

lemma writes_check [intro]: "writes out (io_check c e) (if c then None else Some [])"
  by (simp add: io_check_def writes_fail writes_return)

lemma writes_bind:
  assumes "writes out m u" and "writes out n v"
  shows "writes out (io_bind m (\<lambda>_. n)) (wcat u v)"
  unfolding writes_def
proof (intro allI impI)
  fix s r s' assume b: "io_bind m (\<lambda>_. n) s = (r, s')"
  obtain r1 s1 where m: "m s = (r1, s1)" by fastforce
  note w1 = assms(1)[unfolded writes_def, rule_format, OF m]
  show "(r = Inr () \<longrightarrow> (\<exists>ws. wcat u v = Some ws \<and> out s' = out s @ ws)) \<and>
    (\<forall>ws. wcat u v = Some ws \<longrightarrow> (\<exists>k. out s' = out s @ take k ws))"
  proof (cases r1)
    case (Inl e)
    then have f: "r = Inl e" "s' = s1" using b m by (simp_all add: io_bind_def)
    have "\<exists>k. out s' = out s @ take k ws" if uv: "wcat u v = Some ws" for ws
    proof -
      obtain x y where xy: "u = Some x" "v = Some y" "ws = x @ y"
        using uv by (cases u; cases v) auto
      then obtain k where "out s1 = out s @ take k x" using w1 by blast
      then have "out s' = out s @ take (min k (length x)) ws" by (simp add: f xy min_def)
      then show ?thesis by blast
    qed
    then show ?thesis using f by simp
  next
    case (Inr y)
    then have "r1 = Inr ()" by simp
    then obtain x where x: "u = Some x" "out s1 = out s @ x" using w1 by blast
    have n: "n s1 = (r, s')" using b m Inr by (simp add: io_bind_def)
    note w2 = assms(2)[unfolded writes_def, rule_format, OF n]
    have "\<exists>k. out s' = out s @ take k (x @ y)" if "v = Some y" for y
    proof -
      obtain k where "out s' = out s1 @ take k y" using w2 \<open>v = Some y\<close> by blast
      then have "out s' = out s @ take (length x + k) (x @ y)" by (simp add: x)
      then show ?thesis by blast
    qed
    then show ?thesis using w2 x by (cases v) auto
  qed
qed

lemma writes_seq [intro]:
  "writes out (io_seq []) (Some [])"
  "writes out m u \<Longrightarrow> writes out (io_seq ms) v \<Longrightarrow> writes out (io_seq (m # ms)) (wcat u v)"
  using writes_return writes_bind by (auto simp: io_seq.simps)

section \<open>Decoders that agree\<close>

text \<open>
  A \<open>Read\<close> method and a \<open>DecodeSlice\<close> method agree when, on the same bytes, both fail, or both succeed
  with the same value and the same bytes left over.
\<close>

definition agrees :: "(reader, 'a) io \<Rightarrow> 'a decoder \<Rightarrow> bool" where
  "agrees rd dec \<longleftrightarrow> (\<forall>buf off r. off \<le> length buf \<longrightarrow> src r = drop off buf \<longrightarrow> fault r = IoEOF \<longrightarrow>
     (case dec buf off of
        Inl _ \<Rightarrow> \<exists>e r'. rd r = (Inl e, r')
      | Inr (x, off') \<Rightarrow> off \<le> off' \<and> off' \<le> length buf \<and> rd r = (Inr x, r\<lparr>src := drop off' buf\<rparr>)))"

lemma agreesD:
  assumes "agrees rd dec" and "off \<le> length buf" and "src r = drop off buf" and "fault r = IoEOF"
  shows "dec buf off = Inl e \<Longrightarrow> \<exists>e r'. rd r = (Inl e, r')"
    and "dec buf off = Inr (x, off') \<Longrightarrow> off \<le> off' \<and> off' \<le> length buf \<and> rd r = (Inr x, r\<lparr>src := drop off' buf\<rparr>)"
  using assms unfolding agrees_def by (fastforce, fastforce)

text \<open>The rules follow the shape of the decoders: one rule per primitive, one for a field of another format.\<close>

lemma agrees_return: "agrees (io_return x) (\<lambda>buf off. Inr (x, off))"
  by (simp add: agrees_def io_return_def)

lemma agrees_fail: "agrees (io_fail e) (\<lambda>buf off. Inl e')"
  by (simp add: agrees_def io_fail_def)

lemma agrees_if: "agrees a b \<Longrightarrow> agrees a' b' \<Longrightarrow> agrees (if c then a else a') (\<lambda>buf off. if c then b buf off else b' buf off)"
  by (simp add: agrees_def)

lemma agrees_bind:
  assumes "agrees rd dec" and "\<And>x. agrees (f x) (g x)"
  shows "agrees (io_bind rd f) (\<lambda>buf off. rbind (dec buf off) (\<lambda>(x, off). g x buf off))"
  unfolding agrees_def
proof (intro allI impI)
  fix buf :: bytes and off :: nat and r :: reader assume r: "off \<le> length buf" "src r = drop off buf" "fault r = IoEOF"
  note d = agreesD[OF assms(1) r]
  show "case rbind (dec buf off) (\<lambda>(x, off). g x buf off) of
        Inl _ \<Rightarrow> \<exists>e r'. io_bind rd f r = (Inl e, r')
      | Inr (x, off') \<Rightarrow> off \<le> off' \<and> off' \<le> length buf \<and> io_bind rd f r = (Inr x, r\<lparr>src := drop off' buf\<rparr>)"
  proof (cases "dec buf off")
    case (Inl e)
    from d(1)[OF this] show ?thesis using Inl by (auto simp: io_bind_def)
  next
    case (Inr p)
    obtain x off1 where p: "p = (x, off1)" by fastforce
    note d = d(2)[OF Inr[unfolded p]]
    let ?r = "r\<lparr>src := drop off1 buf\<rparr>"
    have s: "io_bind rd f r = f x ?r" using d by (simp add: io_bind_def)
    have h: "off1 \<le> length buf" "src ?r = drop off1 buf" "fault ?r = IoEOF" using d r by simp_all
    note g = agreesD[OF assms(2)[of x] h]
    show ?thesis
    proof (cases "g x buf off1")
      case (Inl e)
      from g(1)[OF this] show ?thesis using Inl s by (simp add: Inr p)
    next
      case (Inr q)
      obtain y off2 where q: "q = (y, off2)" by fastforce
      show ?thesis using g(2)[OF Inr[unfolded q]] d s Inr by (auto simp: \<open>dec buf off = Inr p\<close> p q)
    qed
  qed
qed

lemma agrees_cong: "agrees rd dec \<Longrightarrow> (\<And>buf off. dec buf off = dec' buf off) \<Longrightarrow> agrees rd dec'"
  by (simp add: agrees_def)

lemma agrees_read_full:
  assumes "\<And>bs. length bs = n \<Longrightarrow> agrees (f bs) (g bs)"
  shows "agrees (io_bind (read_full n) f)
    (\<lambda>buf off. if length buf - off < n then Inl e else g (take n (drop off buf)) buf (off + n))"
proof -
  have "agrees (io_bind (read_full n) (\<lambda>bs. if length bs = n then f bs else io_fail e))
     (\<lambda>buf off. rbind (if length buf - off < n then Inl e else Inr (take n (drop off buf), off + n))
        (\<lambda>(bs, off). (if length bs = n then g bs buf off else Inl e)))"
    by (rule agrees_bind) (auto simp: agrees_def read_full_def add.commute assms[unfolded agrees_def] io_fail_def)
  moreover have "io_bind (read_full n) (\<lambda>bs. if length bs = n then f bs else io_fail e) = io_bind (read_full n) f"
    by (rule ext) (auto simp: io_bind_def read_full_def)
  moreover have "(\<lambda>buf off. rbind (if length buf - off < n then Inl e else Inr (take n (drop off buf), off + n))
        (\<lambda>(bs, off). (if length bs = n then g bs buf off else Inl e))) =
     (\<lambda>buf off. if length buf - off < n then Inl e else g (take n (drop off buf)) buf (off + n))"
    by (intro ext) auto
  ultimately show ?thesis by (simp only:)
qed

lemma agrees_read_return:
  "agrees (io_bind (read_full n) (\<lambda>c. io_return (h c)))
    (\<lambda>buf off. if length buf - off < n then Inl e else Inr (h (take n (drop off buf)), off + n))"
  by (rule agrees_read_full) (rule agrees_return)

lemma agrees_read_all:
  assumes "\<And>bs. agrees (f bs) (g bs)"
  shows "agrees (io_bind read_all f) (\<lambda>buf off. g (drop off buf) buf (off + length (drop off buf)))"
proof -
  have "agrees (io_bind read_all f) (\<lambda>buf off. rbind (Inr (drop off buf, off + length (drop off buf))) (\<lambda>(bs, off). g bs buf off))"
    by (rule agrees_bind[OF _ assms]) (simp add: agrees_def read_all_def)
  then show ?thesis by (rule agrees_cong) simp
qed

lemma agrees_read_sized:
  assumes "\<And>bs. agrees (f bs) (g bs)"
  shows "agrees (io_bind (read_sized n) f)
    (\<lambda>buf off. if length buf - off < n then Inl e else g (take n (drop off buf)) buf (off + n))"
proof -
  have "agrees (io_bind (read_sized n) f)
     (\<lambda>buf off. rbind (if length buf - off < n then Inl e else Inr (take n (drop off buf), off + n)) (\<lambda>(bs, off). g bs buf off))"
    by (rule agrees_bind[OF _ assms]) (auto simp: agrees_def read_sized_def copy_n_def read_full_def add.commute)
  then show ?thesis by (rule agrees_cong) simp
qed

lemmas fills_rules = fills_seq fills_put fills_return fills_fail fills_check
lemmas writes_rules = writes_seq writes_write writes_return writes_fail writes_check

lemmas io_simps = io_bind_def io_return_def io_fail_def read_full_def

section \<open>Interfaces\<close>

text \<open>What an encoder accepts, and the bytes it then appends.\<close>

definition accepted :: "'a encoder \<Rightarrow> 'a \<Rightarrow> bytes option" where
  "accepted app x = (case app x [] of Inl _ \<Rightarrow> None | Inr w \<Rightarrow> Some w)"

lemma fills_cong: "fills m u \<Longrightarrow> u = v \<Longrightarrow> fills m v"
  by simp

lemma writes_cong: "writes out m u \<Longrightarrow> u = v \<Longrightarrow> writes out m v"
  by simp

locale encoder_variants =
  fixes app :: "'a encoder" and wr :: "'a \<Rightarrow> (bytes, unit) io" and sl :: "'a \<Rightarrow> (cursor, unit) io"
  assumes appends: "app x buf = map_sum id (\<lambda>w. buf @ w) (app x [])"
    and buffers: "encode_copy (wr x) buf = app x buf"
    and slices: "fills (sl x) (accepted app x)"
begin

lemma encode_ok: "app x [] = Inr w \<Longrightarrow> length w \<le> length buf \<Longrightarrow> encode_slice (sl x) buf = Inr w"
  using slices[of x, unfolded fills_def, rule_format, of 0 buf] by (simp add: accepted_def encode_slice_def)

lemma encode_short: "app x [] = Inr w \<Longrightarrow> length buf < length w \<Longrightarrow> \<exists>e. encode_slice (sl x) buf = Inl e"
  using slices[of x, unfolded fills_def, rule_format, of 0 buf] by (auto simp: accepted_def encode_slice_def)

lemma encode_refused: "app x [] = Inl e \<Longrightarrow> \<exists>e. encode_slice (sl x) buf = Inl e"
  using slices[of x, unfolded fills_def, rule_format, of 0 buf] by (auto simp: accepted_def encode_slice_def)

text \<open>Behind a tag byte.\<close>

lemma after_tag: "app x (buf @ [b]) = map_sum id (\<lambda>w. buf @ w) (app x [b])"
  unfolding appends[of x "buf @ [b]"] appends[of x "[b]"] by (cases "app x []") simp_all

lemma accepted_tag: "(case app x [b] of Inl _ \<Rightarrow> None | Inr w \<Rightarrow> Some w) = wcat (Some [b]) (accepted app x)"
  unfolding appends[of x "[b]"] accepted_def by (cases "app x []") simp_all

text \<open>The three encoders as one statement: the same bytes from all, or an error from all.\<close>

lemma encoders_agree:
  "encode_copy (wr x) buf = app x buf \<and>
   (case app x buf of
      Inr out \<Rightarrow> \<exists>w. out = buf @ w \<and>
        (\<forall>space. if length w \<le> length space then encode_slice (sl x) space = Inr w
                 else \<exists>e. encode_slice (sl x) space = Inl e)
    | Inl _ \<Rightarrow> \<forall>space. \<exists>e. encode_slice (sl x) space = Inl e)"
proof (cases "app x []")
  case (Inl e)
  then show ?thesis using buffers appends[of x buf] encode_refused by auto
next
  case (Inr w)
  then show ?thesis using buffers appends[of x buf] encode_ok encode_short by auto
qed

end

locale decoder_variants =
  fixes rd :: "(reader, 'a) io" and dec :: "'a decoder"
  assumes decodes: "agrees rd dec"
begin

lemma decoders_agree:
  "(case decode_rest dec buf of Inr p \<Rightarrow> decode_copy rd buf = Inr p | Inl _ \<Rightarrow> \<exists>e. decode_copy rd buf = Inl e)"
proof (cases "dec buf 0")
  case (Inl e)
  from agreesD(1)[OF decodes _ _ _ this, of "bytesReader buf"] show ?thesis
    using Inl by (auto simp: decode_rest_def decode_copy_def bytesReader_def)
next
  case (Inr p)
  obtain x off where p: "p = (x, off)" by fastforce
  from agreesD(2)[OF decodes _ _ _ Inr[unfolded p], of "bytesReader buf"] show ?thesis
    using Inr p by (auto simp: decode_rest_def decode_copy_def bytesReader_def)
qed

lemma exact_decoders_agree:
  "(case decode_exact dec buf of Inr x \<Rightarrow> decode_exact_copy rd buf = Inr x | Inl _ \<Rightarrow> \<exists>e. decode_exact_copy rd buf = Inl e)"
  using decoders_agree[of buf]
  by (auto simp: decode_exact_no_remain decode_exact_copy_def no_remain_def split: sum.splits)

end

end
