(* ===== verification/Exec_Frame.thy ===== *)
theory Exec_Frame
  imports Codec_Io
begin

text \<open>
  The frames of the remote execution tool (\<open>src/exec/frame/frame.go\<close>): header, frame, control frame,
  terminal size and signal, with every method of each. A union is a datatype with one constructor per
  variant struct and one for the nil interface.
\<close>

section \<open>FrameHeader\<close>

type_synonym FrameType = u8

abbreviation (input) FrameType_Stdin :: FrameType where "FrameType_Stdin \<equiv> 0"
abbreviation (input) FrameType_Stdout :: FrameType where "FrameType_Stdout \<equiv> 1"
abbreviation (input) FrameType_Stderr :: FrameType where "FrameType_Stderr \<equiv> 2"
abbreviation (input) FrameType_Control :: FrameType where "FrameType_Control \<equiv> 3"
abbreviation (input) FrameType_Synth :: FrameType where "FrameType_Synth \<equiv> 4"

record FrameHeader =
  fh_Type :: FrameType
  fh_Len :: u32

definition FrameHeader_Write :: "FrameHeader \<Rightarrow> 's writer \<Rightarrow> ('s, unit) io" where
  "FrameHeader_Write f W = io_seq [wr_Write W [fh_Type f], wr_Write W (PutUint32 (fh_Len f))]"

definition FrameHeader_EncodeSlice :: "FrameHeader \<Rightarrow> (cursor, unit) io" where
  "FrameHeader_EncodeSlice f =
     io_seq [put_slice ''FrameHeader::Type'' [fh_Type f], put_slice ''FrameHeader::Len'' (PutUint32 (fh_Len f))]"

definition FrameHeader_Append :: "FrameHeader encoder" where
  "FrameHeader_Append f buf = (let buf = buf @ [fh_Type f] in Inr (buf @ PutUint32 (fh_Len f)))"

definition FrameHeader_Read :: "(reader, FrameHeader) io" where
  "FrameHeader_Read =
     io_bind (read_full 1) (\<lambda>t.
     io_bind (read_full 4) (\<lambda>l.
     io_return \<lparr>fh_Type = t ! 0, fh_Len = Uint32 l\<rparr>))"

definition FrameHeader_DecodeSlice :: "FrameHeader decoder" where
  "FrameHeader_DecodeSlice buf off =
     (if length buf - off < 1 then Inl (NotEnoughData ''FrameHeader::Type'')
      else
        let t = buf ! off; off = off + 1 in
        if length buf - off < 4 then Inl (NotEnoughData ''FrameHeader::Len'')
        else Inr (\<lparr>fh_Type = t, fh_Len = Uint32 (take 4 (drop off buf))\<rparr>, off + 4))"

section \<open>TerminalWindowSize\<close>

record TerminalWindowSize =
  Columns :: u16
  Rows :: u16
  Width :: u16
  Height :: u16

definition TerminalWindowSize_Write :: "TerminalWindowSize \<Rightarrow> 's writer \<Rightarrow> ('s, unit) io" where
  "TerminalWindowSize_Write t W =
     io_seq [wr_Write W (PutUint16 (Columns t)), wr_Write W (PutUint16 (Rows t)),
             wr_Write W (PutUint16 (Width t)), wr_Write W (PutUint16 (Height t))]"

definition TerminalWindowSize_EncodeSlice :: "TerminalWindowSize \<Rightarrow> (cursor, unit) io" where
  "TerminalWindowSize_EncodeSlice t =
     io_seq [put_slice ''TerminalWindowSize::Columns'' (PutUint16 (Columns t)),
             put_slice ''TerminalWindowSize::Rows'' (PutUint16 (Rows t)),
             put_slice ''TerminalWindowSize::Width'' (PutUint16 (Width t)),
             put_slice ''TerminalWindowSize::Height'' (PutUint16 (Height t))]"

definition TerminalWindowSize_Append :: "TerminalWindowSize encoder" where
  "TerminalWindowSize_Append t buf =
     (let buf = buf @ PutUint16 (Columns t);
          buf = buf @ PutUint16 (Rows t);
          buf = buf @ PutUint16 (Width t)
      in Inr (buf @ PutUint16 (Height t)))"

definition TerminalWindowSize_Read :: "(reader, TerminalWindowSize) io" where
  "TerminalWindowSize_Read =
     io_bind (read_full 2) (\<lambda>c.
     io_bind (read_full 2) (\<lambda>r.
     io_bind (read_full 2) (\<lambda>w.
     io_bind (read_full 2) (\<lambda>h.
     io_return \<lparr>Columns = Uint16 c, Rows = Uint16 r, Width = Uint16 w, Height = Uint16 h\<rparr>))))"

definition TerminalWindowSize_DecodeSlice :: "TerminalWindowSize decoder" where
  "TerminalWindowSize_DecodeSlice buf off =
     (if length buf - off < 2 then Inl (NotEnoughData ''TerminalWindowSize::Columns'')
      else
        let c = Uint16 (take 2 (drop off buf)); off = off + 2 in
        if length buf - off < 2 then Inl (NotEnoughData ''TerminalWindowSize::Rows'')
        else
          let r = Uint16 (take 2 (drop off buf)); off = off + 2 in
          if length buf - off < 2 then Inl (NotEnoughData ''TerminalWindowSize::Width'')
          else
            let w = Uint16 (take 2 (drop off buf)); off = off + 2 in
            if length buf - off < 2 then Inl (NotEnoughData ''TerminalWindowSize::Height'')
            else Inr (\<lparr>Columns = c, Rows = r, Width = w, Height = Uint16 (take 2 (drop off buf))\<rparr>, off + 2))"

section \<open>Signal\<close>

text \<open>The signal number is an \<open>int32\<close>, kept here as its 32 bits.\<close>

record Signal =
  sg_Signal :: u32

definition Signal_Write :: "Signal \<Rightarrow> 's writer \<Rightarrow> ('s, unit) io" where
  "Signal_Write s W = io_seq [wr_Write W (PutUint32 (sg_Signal s))]"

definition Signal_EncodeSlice :: "Signal \<Rightarrow> (cursor, unit) io" where
  "Signal_EncodeSlice s = io_seq [put_slice ''Signal::Signal'' (PutUint32 (sg_Signal s))]"

definition Signal_Append :: "Signal encoder" where
  "Signal_Append s buf = Inr (buf @ PutUint32 (sg_Signal s))"

definition Signal_Read :: "(reader, Signal) io" where
  "Signal_Read = io_bind (read_full 4) (\<lambda>b. io_return \<lparr>sg_Signal = Uint32 b\<rparr>)"

definition Signal_DecodeSlice :: "Signal decoder" where
  "Signal_DecodeSlice buf off =
     (if length buf - off < 4 then Inl (NotEnoughData ''Signal::Signal'')
      else Inr (\<lparr>sg_Signal = Uint32 (take 4 (drop off buf))\<rparr>, off + 4))"

section \<open>Control\<close>

type_synonym ControlType = u8

abbreviation (input) ControlType_TerminalWindowSize :: ControlType where "ControlType_TerminalWindowSize \<equiv> 0"
abbreviation (input) ControlType_Signal :: ControlType where "ControlType_Signal \<equiv> 1"

datatype Variant75 = Nil75 | Tmp280 TerminalWindowSize | Tmp277 Signal | Tmp598

record ControlFrame =
  cf_Type :: ControlType
  tmp181 :: Variant75

definition Control_Signal :: "ControlFrame \<Rightarrow> Signal option" where
  "Control_Signal c =
     (if cf_Type c = ControlType_TerminalWindowSize then None
      else if cf_Type c = ControlType_Signal then (case tmp181 c of Tmp277 s \<Rightarrow> Some s | _ \<Rightarrow> None)
      else None)"

definition Control_SetSignal :: "ControlFrame \<Rightarrow> Signal \<Rightarrow> ControlFrame \<times> bool" where
  "Control_SetSignal c s =
     (if cf_Type c = ControlType_TerminalWindowSize then (c, False)
      else if cf_Type c = ControlType_Signal then (c\<lparr>tmp181 := Tmp277 s\<rparr>, True)
      else (c, False))"

definition Control_TerminalWindowSize :: "ControlFrame \<Rightarrow> TerminalWindowSize option" where
  "Control_TerminalWindowSize c =
     (if cf_Type c = ControlType_TerminalWindowSize then (case tmp181 c of Tmp280 t \<Rightarrow> Some t | _ \<Rightarrow> None)
      else None)"

definition Control_SetTerminalWindowSize :: "ControlFrame \<Rightarrow> TerminalWindowSize \<Rightarrow> ControlFrame \<times> bool" where
  "Control_SetTerminalWindowSize c t =
     (if cf_Type c = ControlType_TerminalWindowSize then (c\<lparr>tmp181 := Tmp280 t\<rparr>, True) else (c, False))"

definition Control_Write :: "ControlFrame \<Rightarrow> 's writer \<Rightarrow> ('s, unit) io" where
  "Control_Write c W = io_seq
     [write_byte W (cf_Type c),
      if cf_Type c = ControlType_TerminalWindowSize then
        (case tmp181 c of Tmp280 t \<Rightarrow> TerminalWindowSize_Write t W | _ \<Rightarrow> io_fail InvalidUnion)
      else if cf_Type c = ControlType_Signal then
        (case tmp181 c of Tmp277 s \<Rightarrow> Signal_Write s W | _ \<Rightarrow> io_fail InvalidUnion)
      else (case tmp181 c of Tmp598 \<Rightarrow> io_fail UnexpectedPacket | _ \<Rightarrow> io_fail InvalidUnion)]"

definition Control_EncodeSlice :: "ControlFrame \<Rightarrow> (cursor, unit) io" where
  "Control_EncodeSlice c = io_seq
     [put_slice ''Control::Type'' [cf_Type c],
      if cf_Type c = ControlType_TerminalWindowSize then
        (case tmp181 c of Tmp280 t \<Rightarrow> TerminalWindowSize_EncodeSlice t | _ \<Rightarrow> io_fail InvalidUnion)
      else if cf_Type c = ControlType_Signal then
        (case tmp181 c of Tmp277 s \<Rightarrow> Signal_EncodeSlice s | _ \<Rightarrow> io_fail InvalidUnion)
      else (case tmp181 c of Tmp598 \<Rightarrow> io_fail UnexpectedPacket | _ \<Rightarrow> io_fail InvalidUnion)]"

definition Control_Append :: "ControlFrame encoder" where
  "Control_Append c buf =
     (let buf = buf @ [cf_Type c] in
      if cf_Type c = ControlType_TerminalWindowSize then
        (case tmp181 c of Tmp280 t \<Rightarrow> TerminalWindowSize_Append t buf | _ \<Rightarrow> Inl InvalidUnion)
      else if cf_Type c = ControlType_Signal then
        (case tmp181 c of Tmp277 s \<Rightarrow> Signal_Append s buf | _ \<Rightarrow> Inl InvalidUnion)
      else (case tmp181 c of Tmp598 \<Rightarrow> Inl UnexpectedPacket | _ \<Rightarrow> Inl InvalidUnion))"

definition Control_Read :: "(reader, ControlFrame) io" where
  "Control_Read =
     io_bind (read_full 1) (\<lambda>b.
     let t = b ! 0 in
     if t = ControlType_TerminalWindowSize then
       io_bind TerminalWindowSize_Read (\<lambda>w. io_return \<lparr>cf_Type = t, tmp181 = Tmp280 w\<rparr>)
     else if t = ControlType_Signal then
       io_bind Signal_Read (\<lambda>s. io_return \<lparr>cf_Type = t, tmp181 = Tmp277 s\<rparr>)
     else io_fail UnexpectedPacket)"

definition Control_DecodeSlice :: "ControlFrame decoder" where
  "Control_DecodeSlice buf off =
     (if length buf - off < 1 then Inl (NotEnoughData ''Control::Type'')
      else
        let t = buf ! off; off = off + 1 in
        if t = ControlType_TerminalWindowSize then
          rbind (TerminalWindowSize_DecodeSlice buf off) (\<lambda>(w, off). Inr (\<lparr>cf_Type = t, tmp181 = Tmp280 w\<rparr>, off))
        else if t = ControlType_Signal then
          rbind (Signal_DecodeSlice buf off) (\<lambda>(s, off). Inr (\<lparr>cf_Type = t, tmp181 = Tmp277 s\<rparr>, off))
        else Inl UnexpectedPacket)"

section \<open>Frame\<close>

datatype Variant91 = Nil91 | Tmp230 ControlFrame | Tmp221 bytes

record Frame =
  fr_Header :: FrameHeader
  tmp167 :: Variant91

definition Frame_Control :: "Frame \<Rightarrow> ControlFrame option" where
  "Frame_Control f =
     (if fh_Type (fr_Header f) = FrameType_Control then (case tmp167 f of Tmp230 c \<Rightarrow> Some c | _ \<Rightarrow> None) else None)"

definition Frame_SetControl :: "Frame \<Rightarrow> ControlFrame \<Rightarrow> Frame \<times> bool" where
  "Frame_SetControl f c =
     (if fh_Type (fr_Header f) = FrameType_Control then (f\<lparr>tmp167 := Tmp230 c\<rparr>, True) else (f, False))"

definition Frame_Data :: "Frame \<Rightarrow> bytes option" where
  "Frame_Data f =
     (if fh_Type (fr_Header f) = FrameType_Control then None
      else (case tmp167 f of Tmp221 d \<Rightarrow> Some d | _ \<Rightarrow> None))"

definition Frame_SetData :: "Frame \<Rightarrow> bytes \<Rightarrow> Frame \<times> bool" where
  "Frame_SetData f d =
     (if fh_Type (fr_Header f) = FrameType_Control then (f, False)
      else
        let f = (case tmp167 f of Tmp221 _ \<Rightarrow> f | _ \<Rightarrow> f\<lparr>tmp167 := Tmp221 []\<rparr>) in
        if length d > 4294967295 then (f, False)
        else (f\<lparr>fr_Header := (fr_Header f)\<lparr>fh_Len := of_nat (length d)\<rparr>, tmp167 := Tmp221 d\<rparr>, True))"

text \<open>A subrange: the control frame is written to a buffer of its own, and its length compared with the header.\<close>

definition Frame_Write :: "Frame \<Rightarrow> 's writer \<Rightarrow> ('s, unit) io" where
  "Frame_Write f W = io_seq
     [FrameHeader_Write (fr_Header f) W,
      let n = unat (fh_Len (fr_Header f)) in
      if fh_Type (fr_Header f) = FrameType_Control then
        (case tmp167 f of
           Tmp230 c \<Rightarrow>
             (case encode_copy (Control_Write c bytesBuffer) [] of
                Inl e \<Rightarrow> io_fail e
              | Inr sub \<Rightarrow> io_seq [io_check (length sub \<noteq> n) (SubrangeMismatch n (length sub)), wr_Write W sub])
         | _ \<Rightarrow> io_fail InvalidUnion)
      else
        (case tmp167 f of
           Tmp221 d \<Rightarrow> io_seq [io_check (length d \<noteq> n) (SizeMismatch n (length d)), wr_Write W d]
         | _ \<Rightarrow> io_fail InvalidUnion)]"

definition put_subrange :: "nat \<Rightarrow> (cursor, unit) io \<Rightarrow> (cursor, unit) io" where
  "put_subrange n m = (\<lambda>(buf, off).
     if length buf < off + n then (Inl (NotEnoughSpace ''subrange''), (buf, off))
     else
       let (res, sub, o') = m (take n (drop off buf), 0);
           buf' = take off buf @ sub @ drop (off + n) buf
       in case res of
            Inl e \<Rightarrow> (Inl e, (buf', off))
          | Inr _ \<Rightarrow> if o' \<noteq> n then (Inl (SubrangeMismatch n o'), (buf', off)) else (Inr (), (buf', off + n)))"

definition Frame_EncodeSlice :: "Frame \<Rightarrow> (cursor, unit) io" where
  "Frame_EncodeSlice f = io_seq
     [FrameHeader_EncodeSlice (fr_Header f),
      let n = unat (fh_Len (fr_Header f)) in
      if fh_Type (fr_Header f) = FrameType_Control then
        (case tmp167 f of Tmp230 c \<Rightarrow> put_subrange n (Control_EncodeSlice c) | _ \<Rightarrow> io_fail InvalidUnion)
      else
        (case tmp167 f of
           Tmp221 d \<Rightarrow> io_seq [io_check (length d \<noteq> n) (SizeMismatch n (length d)), put_slice ''Frame::tmp167::Data'' d]
         | _ \<Rightarrow> io_fail InvalidUnion)]"

definition Frame_Append :: "Frame encoder" where
  "Frame_Append f buf =
     rbind (FrameHeader_Append (fr_Header f) buf) (\<lambda>buf.
     let n = unat (fh_Len (fr_Header f)) in
     if fh_Type (fr_Header f) = FrameType_Control then
       (case tmp167 f of
          Tmp230 c \<Rightarrow>
            rbind (Control_Append c buf) (\<lambda>sub.
            if length sub - length buf \<noteq> n then Inl (SubrangeMismatch n (length sub - length buf)) else Inr sub)
        | _ \<Rightarrow> Inl InvalidUnion)
     else
       (case tmp167 f of
          Tmp221 d \<Rightarrow> if length d \<noteq> n then Inl (SizeMismatch n (length d)) else Inr (buf @ d)
        | _ \<Rightarrow> Inl InvalidUnion))"

definition Frame_Read :: "(reader, Frame) io" where
  "Frame_Read =
     io_bind FrameHeader_Read (\<lambda>h.
     let n = unat (fh_Len h) in
     if fh_Type h = FrameType_Control then
       io_bind (limited n Control_Read) (\<lambda>(c, left).
       if left \<noteq> 0 then io_fail (SubrangeMismatch n left) else io_return \<lparr>fr_Header = h, tmp167 = Tmp230 c\<rparr>)
     else io_bind (read_sized n) (\<lambda>d. io_return \<lparr>fr_Header = h, tmp167 = Tmp221 d\<rparr>))"

definition Frame_DecodeSlice :: "Frame decoder" where
  "Frame_DecodeSlice buf off =
     rbind (FrameHeader_DecodeSlice buf off) (\<lambda>(h, off).
     let n = unat (fh_Len h) in
     if fh_Type h = FrameType_Control then
       if length buf - off < n then Inl (NotEnoughData ''subrange'')
       else rbind (Control_DecodeSlice (take n (drop off buf)) 0) (\<lambda>(c, _).
         Inr (\<lparr>fr_Header = h, tmp167 = Tmp230 c\<rparr>, off + n))
     else if length buf - off < n then Inl (NotEnoughData ''Frame::tmp167::Data'')
     else Inr (\<lparr>fr_Header = h, tmp167 = Tmp221 (take n (drop off buf))\<rparr>, off + n))"

section \<open>Wrappers\<close>

definition FrameHeader_EncodeCopy :: "FrameHeader \<Rightarrow> bytes \<Rightarrow> (wire_error, bytes) result" where
  "FrameHeader_EncodeCopy x reserved = encode_copy (FrameHeader_Write x bytesBuffer) reserved"

definition FrameHeader_MustEncodeCopy :: "FrameHeader \<Rightarrow> bytes \<Rightarrow> bytes option" where
  "FrameHeader_MustEncodeCopy x reserved = must (FrameHeader_EncodeCopy x reserved)"

definition FrameHeader_Encode :: "FrameHeader \<Rightarrow> bytes \<Rightarrow> (wire_error, bytes) result" where
  "FrameHeader_Encode x buf = encode_slice (FrameHeader_EncodeSlice x) buf"

definition FrameHeader_MustEncode :: "FrameHeader \<Rightarrow> bytes \<Rightarrow> bytes option" where
  "FrameHeader_MustEncode x reserved = must (FrameHeader_Encode x reserved)"

definition FrameHeader_MustAppend :: "FrameHeader \<Rightarrow> bytes \<Rightarrow> bytes option" where
  "FrameHeader_MustAppend x buf = must (FrameHeader_Append x buf)"

definition FrameHeader_DecodeCopy :: "bytes \<Rightarrow> (wire_error, FrameHeader \<times> bytes) result" where
  "FrameHeader_DecodeCopy buf = decode_copy FrameHeader_Read buf"

definition FrameHeader_DecodeExactCopy :: "bytes \<Rightarrow> (wire_error, FrameHeader) result" where
  "FrameHeader_DecodeExactCopy buf = no_remain (FrameHeader_DecodeCopy buf)"

definition FrameHeader_Decode :: "bytes \<Rightarrow> (wire_error, FrameHeader \<times> bytes) result" where
  "FrameHeader_Decode buf = decode_rest FrameHeader_DecodeSlice buf"

definition FrameHeader_DecodeExact :: "bytes \<Rightarrow> (wire_error, FrameHeader) result" where
  "FrameHeader_DecodeExact buf = no_remain (FrameHeader_Decode buf)"

definition TerminalWindowSize_EncodeCopy :: "TerminalWindowSize \<Rightarrow> bytes \<Rightarrow> (wire_error, bytes) result" where
  "TerminalWindowSize_EncodeCopy x reserved = encode_copy (TerminalWindowSize_Write x bytesBuffer) reserved"

definition TerminalWindowSize_MustEncodeCopy :: "TerminalWindowSize \<Rightarrow> bytes \<Rightarrow> bytes option" where
  "TerminalWindowSize_MustEncodeCopy x reserved = must (TerminalWindowSize_EncodeCopy x reserved)"

definition TerminalWindowSize_Encode :: "TerminalWindowSize \<Rightarrow> bytes \<Rightarrow> (wire_error, bytes) result" where
  "TerminalWindowSize_Encode x buf = encode_slice (TerminalWindowSize_EncodeSlice x) buf"

definition TerminalWindowSize_MustEncode :: "TerminalWindowSize \<Rightarrow> bytes \<Rightarrow> bytes option" where
  "TerminalWindowSize_MustEncode x reserved = must (TerminalWindowSize_Encode x reserved)"

definition TerminalWindowSize_MustAppend :: "TerminalWindowSize \<Rightarrow> bytes \<Rightarrow> bytes option" where
  "TerminalWindowSize_MustAppend x buf = must (TerminalWindowSize_Append x buf)"

definition TerminalWindowSize_DecodeCopy :: "bytes \<Rightarrow> (wire_error, TerminalWindowSize \<times> bytes) result" where
  "TerminalWindowSize_DecodeCopy buf = decode_copy TerminalWindowSize_Read buf"

definition TerminalWindowSize_DecodeExactCopy :: "bytes \<Rightarrow> (wire_error, TerminalWindowSize) result" where
  "TerminalWindowSize_DecodeExactCopy buf = no_remain (TerminalWindowSize_DecodeCopy buf)"

definition TerminalWindowSize_Decode :: "bytes \<Rightarrow> (wire_error, TerminalWindowSize \<times> bytes) result" where
  "TerminalWindowSize_Decode buf = decode_rest TerminalWindowSize_DecodeSlice buf"

definition TerminalWindowSize_DecodeExact :: "bytes \<Rightarrow> (wire_error, TerminalWindowSize) result" where
  "TerminalWindowSize_DecodeExact buf = no_remain (TerminalWindowSize_Decode buf)"

definition Signal_EncodeCopy :: "Signal \<Rightarrow> bytes \<Rightarrow> (wire_error, bytes) result" where
  "Signal_EncodeCopy x reserved = encode_copy (Signal_Write x bytesBuffer) reserved"

definition Signal_MustEncodeCopy :: "Signal \<Rightarrow> bytes \<Rightarrow> bytes option" where
  "Signal_MustEncodeCopy x reserved = must (Signal_EncodeCopy x reserved)"

definition Signal_Encode :: "Signal \<Rightarrow> bytes \<Rightarrow> (wire_error, bytes) result" where
  "Signal_Encode x buf = encode_slice (Signal_EncodeSlice x) buf"

definition Signal_MustEncode :: "Signal \<Rightarrow> bytes \<Rightarrow> bytes option" where
  "Signal_MustEncode x reserved = must (Signal_Encode x reserved)"

definition Signal_MustAppend :: "Signal \<Rightarrow> bytes \<Rightarrow> bytes option" where
  "Signal_MustAppend x buf = must (Signal_Append x buf)"

definition Signal_DecodeCopy :: "bytes \<Rightarrow> (wire_error, Signal \<times> bytes) result" where
  "Signal_DecodeCopy buf = decode_copy Signal_Read buf"

definition Signal_DecodeExactCopy :: "bytes \<Rightarrow> (wire_error, Signal) result" where
  "Signal_DecodeExactCopy buf = no_remain (Signal_DecodeCopy buf)"

definition Signal_Decode :: "bytes \<Rightarrow> (wire_error, Signal \<times> bytes) result" where
  "Signal_Decode buf = decode_rest Signal_DecodeSlice buf"

definition Signal_DecodeExact :: "bytes \<Rightarrow> (wire_error, Signal) result" where
  "Signal_DecodeExact buf = no_remain (Signal_Decode buf)"

definition Control_EncodeCopy :: "ControlFrame \<Rightarrow> bytes \<Rightarrow> (wire_error, bytes) result" where
  "Control_EncodeCopy x reserved = encode_copy (Control_Write x bytesBuffer) reserved"

definition Control_MustEncodeCopy :: "ControlFrame \<Rightarrow> bytes \<Rightarrow> bytes option" where
  "Control_MustEncodeCopy x reserved = must (Control_EncodeCopy x reserved)"

definition Control_Encode :: "ControlFrame \<Rightarrow> bytes \<Rightarrow> (wire_error, bytes) result" where
  "Control_Encode x buf = encode_slice (Control_EncodeSlice x) buf"

definition Control_MustEncode :: "ControlFrame \<Rightarrow> bytes \<Rightarrow> bytes option" where
  "Control_MustEncode x reserved = must (Control_Encode x reserved)"

definition Control_MustAppend :: "ControlFrame \<Rightarrow> bytes \<Rightarrow> bytes option" where
  "Control_MustAppend x buf = must (Control_Append x buf)"

definition Control_DecodeCopy :: "bytes \<Rightarrow> (wire_error, ControlFrame \<times> bytes) result" where
  "Control_DecodeCopy buf = decode_copy Control_Read buf"

definition Control_DecodeExactCopy :: "bytes \<Rightarrow> (wire_error, ControlFrame) result" where
  "Control_DecodeExactCopy buf = no_remain (Control_DecodeCopy buf)"

definition Control_Decode :: "bytes \<Rightarrow> (wire_error, ControlFrame \<times> bytes) result" where
  "Control_Decode buf = decode_rest Control_DecodeSlice buf"

definition Control_DecodeExact :: "bytes \<Rightarrow> (wire_error, ControlFrame) result" where
  "Control_DecodeExact buf = no_remain (Control_Decode buf)"

definition Frame_EncodeCopy :: "Frame \<Rightarrow> bytes \<Rightarrow> (wire_error, bytes) result" where
  "Frame_EncodeCopy x reserved = encode_copy (Frame_Write x bytesBuffer) reserved"

definition Frame_MustEncodeCopy :: "Frame \<Rightarrow> bytes \<Rightarrow> bytes option" where
  "Frame_MustEncodeCopy x reserved = must (Frame_EncodeCopy x reserved)"

definition Frame_Encode :: "Frame \<Rightarrow> bytes \<Rightarrow> (wire_error, bytes) result" where
  "Frame_Encode x buf = encode_slice (Frame_EncodeSlice x) buf"

definition Frame_MustEncode :: "Frame \<Rightarrow> bytes \<Rightarrow> bytes option" where
  "Frame_MustEncode x reserved = must (Frame_Encode x reserved)"

definition Frame_MustAppend :: "Frame \<Rightarrow> bytes \<Rightarrow> bytes option" where
  "Frame_MustAppend x buf = must (Frame_Append x buf)"

definition Frame_DecodeCopy :: "bytes \<Rightarrow> (wire_error, Frame \<times> bytes) result" where
  "Frame_DecodeCopy buf = decode_copy Frame_Read buf"

definition Frame_DecodeExactCopy :: "bytes \<Rightarrow> (wire_error, Frame) result" where
  "Frame_DecodeExactCopy buf = no_remain (Frame_DecodeCopy buf)"

definition Frame_Decode :: "bytes \<Rightarrow> (wire_error, Frame \<times> bytes) result" where
  "Frame_Decode buf = decode_rest Frame_DecodeSlice buf"

definition Frame_DecodeExact :: "bytes \<Rightarrow> (wire_error, Frame) result" where
  "Frame_DecodeExact buf = no_remain (Frame_Decode buf)"

section \<open>Encoders\<close>

lemma FrameHeader_variants: "encoder_variants FrameHeader_Append (\<lambda>f. FrameHeader_Write f bytesBuffer) FrameHeader_EncodeSlice"
proof
  show "fills (FrameHeader_EncodeSlice x) (accepted FrameHeader_Append x)" for x
    unfolding FrameHeader_EncodeSlice_def
    by (rule fills_cong, (rule fills_rules)+) (simp add: accepted_def FrameHeader_Append_def)
qed (simp_all add: FrameHeader_Append_def FrameHeader_Write_def buffered)

lemma TerminalWindowSize_variants:
  "encoder_variants TerminalWindowSize_Append (\<lambda>f. TerminalWindowSize_Write f bytesBuffer) TerminalWindowSize_EncodeSlice"
proof
  show "fills (TerminalWindowSize_EncodeSlice x) (accepted TerminalWindowSize_Append x)" for x
    unfolding TerminalWindowSize_EncodeSlice_def
    by (rule fills_cong, (rule fills_rules)+) (simp add: accepted_def TerminalWindowSize_Append_def)
qed (simp_all add: TerminalWindowSize_Append_def TerminalWindowSize_Write_def buffered)

lemma Signal_variants: "encoder_variants Signal_Append (\<lambda>f. Signal_Write f bytesBuffer) Signal_EncodeSlice"
proof
  show "fills (Signal_EncodeSlice x) (accepted Signal_Append x)" for x
    unfolding Signal_EncodeSlice_def
    by (rule fills_cong, (rule fills_rules)+) (simp add: accepted_def Signal_Append_def)
qed (simp_all add: Signal_Append_def Signal_Write_def buffered)

interpretation frame_header: encoder_variants FrameHeader_Append "\<lambda>f. FrameHeader_Write f bytesBuffer" FrameHeader_EncodeSlice
  by (rule FrameHeader_variants)
interpretation window_size: encoder_variants TerminalWindowSize_Append "\<lambda>f. TerminalWindowSize_Write f bytesBuffer" TerminalWindowSize_EncodeSlice
  by (rule TerminalWindowSize_variants)
interpretation signal: encoder_variants Signal_Append "\<lambda>f. Signal_Write f bytesBuffer" Signal_EncodeSlice
  by (rule Signal_variants)

interpretation control: encoder_variants Control_Append "\<lambda>f. Control_Write f bytesBuffer" Control_EncodeSlice
proof
  show "fills (Control_EncodeSlice c) (accepted Control_Append c)" for c
  proof -
    have "fills (if cf_Type c = 0 then (case tmp181 c of Tmp280 t \<Rightarrow> TerminalWindowSize_EncodeSlice t | _ \<Rightarrow> io_fail InvalidUnion)
        else if cf_Type c = 1 then (case tmp181 c of Tmp277 s \<Rightarrow> Signal_EncodeSlice s | _ \<Rightarrow> io_fail InvalidUnion)
        else (case tmp181 c of Tmp598 \<Rightarrow> io_fail UnexpectedPacket | _ \<Rightarrow> io_fail InvalidUnion))
      (if cf_Type c = 0 then (case tmp181 c of Tmp280 t \<Rightarrow> accepted TerminalWindowSize_Append t | _ \<Rightarrow> None)
        else if cf_Type c = 1 then (case tmp181 c of Tmp277 s \<Rightarrow> accepted Signal_Append s | _ \<Rightarrow> None) else None)"
      by (cases "tmp181 c") (auto simp: window_size.slices signal.slices)
    note fills_seq(2)[OF fills_put fills_seq(2)[OF this fills_seq(1)], of "''Control::Type''" "[cf_Type c]"]
    then show ?thesis unfolding Control_EncodeSlice_def
      by (rule fills_cong)
        (cases "tmp181 c"; simp add: accepted_def Control_Append_def Let_def TerminalWindowSize_Append_def Signal_Append_def)
  qed
  show "Control_Append c buf = map_sum id (\<lambda>w. buf @ w) (Control_Append c [])" for c buf
    using window_size.appends[of _ "buf @ [0]"] window_size.appends[of _ "[0]"]
      by (cases "tmp181 c") (simp_all add: Control_Append_def Let_def TerminalWindowSize_Append_def Signal_Append_def)
  show "encode_copy (Control_Write c bytesBuffer) buf = Control_Append c buf" for c buf
    by (cases "tmp181 c") (simp_all add: Control_Write_def Control_Append_def buffered Let_def window_size.buffers signal.buffers 
      TerminalWindowSize_Append_def Signal_Append_def)
qed



lemma fills_subrange:
  assumes "fills m w"
  shows "fills (put_subrange n m) (case w of Some ws \<Rightarrow> if length ws = n then Some ws else None | None \<Rightarrow> None)"
  unfolding fills_def
proof (intro allI impI)
  fix buf :: bytes and off assume off: "off \<le> length buf"
  let ?w = "case w of Some ws \<Rightarrow> if length ws = n then Some ws else None | None \<Rightarrow> None"
  let ?bad = "\<exists>e buf' off'. put_subrange n m (buf, off) = (Inl e, (buf', off')) \<and> length buf' = length buf"
  show "case ?w of Some ws \<Rightarrow>
      if off + length ws \<le> length buf
      then put_subrange n m (buf, off) = (Inr (), (take off buf @ ws @ drop (off + length ws) buf, off + length ws))
      else ?bad
    | None \<Rightarrow> ?bad"
  proof (cases "length buf < off + n")
    case True
    then have ?bad by (simp add: put_subrange_def)
    then show ?thesis using True by (auto split: option.split)
  next
    case False
    let ?sub = "take n (drop off buf)"
    note f = assms[unfolded fills_def, rule_format, of 0 ?sub]
    obtain res sub o' where m: "m (?sub, 0) = (res, sub, o')" by (cases "m (?sub, 0)") auto
    have n: "length ?sub = n" using False by simp
    have l: "length sub = n" using f n m by (cases w) (auto split: if_splits)
    then have len: "length (take off buf @ sub @ drop (off + n) buf) = length buf" using False off by simp
    have p: "put_subrange n m (buf, off) = (case res of Inl e \<Rightarrow> (Inl e, (take off buf @ sub @ drop (off + n) buf, off))
        | Inr _ \<Rightarrow> if o' \<noteq> n then (Inl (SubrangeMismatch n o'), (take off buf @ sub @ drop (off + n) buf, off))
                  else (Inr (), (take off buf @ sub @ drop (off + n) buf, off + n)))"
      using False by (simp add: put_subrange_def m Let_def split: sum.split)
    show ?thesis
    proof (cases "\<exists>ws. w = Some ws \<and> length ws = n")
      case True
      then show ?thesis using f m n False p by auto
    next
      case bad: False
      have "(\<exists>e. res = Inl e) \<or> o' \<noteq> n" using f m n bad by (cases w) (auto split: if_splits)
      then have ?bad using p len by (cases res) auto
      then show ?thesis using bad by (cases w) auto
    qed
  qed
qed

lemma Control_subrange:
  "rbind (Control_Append c buf) (\<lambda>sub. if length sub - length buf \<noteq> n then Inl (SubrangeMismatch n (length sub - length buf)) else Inr sub) =
   (case Control_Append c [] of Inl e \<Rightarrow> Inl e
    | Inr w \<Rightarrow> if length w \<noteq> n then Inl (SubrangeMismatch n (length w)) else Inr (buf @ w))"
  unfolding control.appends[of c buf] by (cases "Control_Append c []") simp_all

lemma Frame_body:
  "Frame_Append f buf = rbind (FrameHeader_Append (fr_Header f) buf) (\<lambda>buf.
     let n = unat (fh_Len (fr_Header f)) in
     if fh_Type (fr_Header f) = FrameType_Control then
       (case tmp167 f of
          Tmp230 c \<Rightarrow> (case Control_Append c [] of Inl e \<Rightarrow> Inl e
            | Inr w \<Rightarrow> if length w \<noteq> n then Inl (SubrangeMismatch n (length w)) else Inr (buf @ w))
        | _ \<Rightarrow> Inl InvalidUnion)
     else
       (case tmp167 f of
          Tmp221 d \<Rightarrow> if length d \<noteq> n then Inl (SizeMismatch n (length d)) else Inr (buf @ d)
        | _ \<Rightarrow> Inl InvalidUnion))"
  unfolding Frame_Append_def Let_def Control_subrange ..

interpretation fr: encoder_variants Frame_Append "\<lambda>f. Frame_Write f bytesBuffer" Frame_EncodeSlice
proof
  show "fills (Frame_EncodeSlice f) (accepted Frame_Append f)" for f
  proof -
    let ?n = "unat (fh_Len (fr_Header f))"
    let ?body = "if fh_Type (fr_Header f) = FrameType_Control then
        (case tmp167 f of Tmp230 c \<Rightarrow> put_subrange ?n (Control_EncodeSlice c) | _ \<Rightarrow> io_fail InvalidUnion)
      else (case tmp167 f of
           Tmp221 d \<Rightarrow> io_seq [io_check (length d \<noteq> ?n) (SizeMismatch ?n (length d)), put_slice ''Frame::tmp167::Data'' d]
         | _ \<Rightarrow> io_fail InvalidUnion)"
    let ?w = "if fh_Type (fr_Header f) = FrameType_Control then
        (case tmp167 f of Tmp230 c \<Rightarrow> (case accepted Control_Append c of Some ws \<Rightarrow> if length ws = ?n then Some ws else None | None \<Rightarrow> None)
          | _ \<Rightarrow> None)
      else (case tmp167 f of Tmp221 d \<Rightarrow> if length d \<noteq> ?n then None else Some d | _ \<Rightarrow> None)"
    have d: "fills (io_seq [io_check (length d \<noteq> ?n) e, put_slice field d]) (if length d \<noteq> ?n then None else Some d)" for d e field
      by (rule fills_cong, (rule fills_rules)+) simp
    have "fills ?body ?w" using d fills_subrange[OF control.slices] by (cases "tmp167 f") (simp_all add: fills_fail)
    note fills_seq(2)[OF frame_header.slices fills_seq(2)[OF this fills_seq(1)]]
    then show ?thesis unfolding Frame_EncodeSlice_def Let_def
      by (rule fills_cong) (cases "tmp167 f"; auto simp: accepted_def Frame_body Let_def FrameHeader_Append_def split: sum.split)
  qed
  show "Frame_Append f buf = map_sum id (\<lambda>w. buf @ w) (Frame_Append f [])" for f buf
    by (cases "tmp167 f") (auto simp: Frame_body Let_def FrameHeader_Append_def split: sum.split)
  show "encode_copy (Frame_Write f bytesBuffer) buf = Frame_Append f buf" for f buf
    by (cases "tmp167 f")
      (auto simp: Frame_Write_def Frame_body buffered frame_header.buffers control.buffers Let_def FrameHeader_Append_def split: sum.split)
qed

lemma Frame_Write_any:
  assumes W: "writer_ok W out"
  shows "writes out (Frame_Write f W) (accepted Frame_Append f)"
proof -
  let ?n = "unat (fh_Len (fr_Header f))"
  have h: "writes out (FrameHeader_Write (fr_Header f) W) (accepted FrameHeader_Append (fr_Header f))"
    unfolding FrameHeader_Write_def
    by (rule writes_cong, (rule writes_rules W)+) (simp add: accepted_def FrameHeader_Append_def)
  have d: "writes out (io_seq [io_check (length d \<noteq> ?n) e, wr_Write W d]) (if length d \<noteq> ?n then None else Some d)" for d e
    by (rule writes_cong, (rule writes_rules W)+) simp
  have "writes out (if fh_Type (fr_Header f) = FrameType_Control then
        (case tmp167 f of
           Tmp230 c \<Rightarrow>
             (case Control_Append c [] of
                Inl e \<Rightarrow> io_fail e
              | Inr sub \<Rightarrow> io_seq [io_check (length sub \<noteq> ?n) (SubrangeMismatch ?n (length sub)), wr_Write W sub])
         | _ \<Rightarrow> io_fail InvalidUnion)
      else
        (case tmp167 f of
           Tmp221 d \<Rightarrow> io_seq [io_check (length d \<noteq> ?n) (SizeMismatch ?n (length d)), wr_Write W d]
         | _ \<Rightarrow> io_fail InvalidUnion))
     (if fh_Type (fr_Header f) = FrameType_Control then
        (case tmp167 f of Tmp230 c \<Rightarrow> (case Control_Append c [] of Inl _ \<Rightarrow> None | Inr w \<Rightarrow> if length w \<noteq> ?n then None else Some w)
          | _ \<Rightarrow> None)
      else (case tmp167 f of Tmp221 d \<Rightarrow> if length d \<noteq> ?n then None else Some d | _ \<Rightarrow> None))"
    using d by (cases "tmp167 f") (auto simp: writes_fail split: sum.split)
  note writes_seq(2)[OF h writes_seq(2)[OF this writes_seq(1)]]
  then show ?thesis unfolding Frame_Write_def Let_def control.buffers
    by (rule writes_cong) (cases "tmp167 f"; auto simp: accepted_def Frame_body Let_def FrameHeader_Append_def split: sum.split)
qed

section \<open>Decoders\<close>


lemma FrameHeader_agrees: "agrees FrameHeader_Read FrameHeader_DecodeSlice"
  unfolding agrees_def FrameHeader_Read_def FrameHeader_DecodeSlice_def Let_def io_simps
  by (auto simp: add.commute)

lemma TerminalWindowSize_agrees: "agrees TerminalWindowSize_Read TerminalWindowSize_DecodeSlice"
  unfolding agrees_def TerminalWindowSize_Read_def TerminalWindowSize_DecodeSlice_def Let_def io_simps
  by (auto simp: add.commute)

lemma Signal_agrees: "agrees Signal_Read Signal_DecodeSlice"
  unfolding agrees_def Signal_Read_def Signal_DecodeSlice_def Let_def io_simps
  by (auto simp: add.commute)

interpretation frame_header: decoder_variants FrameHeader_Read FrameHeader_DecodeSlice
  by unfold_locales (rule FrameHeader_agrees)
interpretation window_size: decoder_variants TerminalWindowSize_Read TerminalWindowSize_DecodeSlice
  by unfold_locales (rule TerminalWindowSize_agrees)
interpretation signal: decoder_variants Signal_Read Signal_DecodeSlice
  by unfold_locales (rule Signal_agrees)

lemma Control_agrees: "agrees Control_Read Control_DecodeSlice"
proof -
  let ?g = "\<lambda>bs buf off. if bs ! 0 = 0 then
          rbind (TerminalWindowSize_DecodeSlice buf off) (\<lambda>(w, off). Inr (\<lparr>cf_Type = bs ! 0, tmp181 = Tmp280 w\<rparr>, off))
        else if bs ! 0 = 1 then
          rbind (Signal_DecodeSlice buf off) (\<lambda>(s, off). Inr (\<lparr>cf_Type = bs ! 0, tmp181 = Tmp277 s\<rparr>, off))
        else Inl UnexpectedPacket"
  have "agrees Control_Read (\<lambda>buf off. if length buf - off < 1 then Inl (NotEnoughData ''Control::Type'')
      else ?g (take 1 (drop off buf)) buf (off + 1))"
    unfolding Control_Read_def Let_def
    by (rule agrees_read_full) (intro agrees_if agrees_bind agrees_return agrees_fail
        TerminalWindowSize_agrees Signal_agrees)
  then show ?thesis by (rule agrees_cong) (simp add: Control_DecodeSlice_def Let_def)
qed

interpretation control: decoder_variants Control_Read Control_DecodeSlice
  by unfold_locales (rule Control_agrees)

lemma limited_agrees:
  assumes m: "agrees m dec" and r: "off \<le> length buf" "src r = drop off buf" "fault r = IoEOF" and n: "off + n \<le> length buf"
  shows "dec (take n (drop off buf)) 0 = Inl e \<Longrightarrow> \<exists>e r'. limited n m r = (Inl e, r')"
    and "dec (take n (drop off buf)) 0 = Inr (x, o') \<Longrightarrow> o' \<le> n \<and> limited n m r = (Inr (x, n - o'), r\<lparr>src := drop (off + o') buf\<rparr>)"
proof -
  let ?sub = "take n (drop off buf)" and ?r = "\<lparr>src = take n (drop off buf), seekable = False, fault = IoEOF\<rparr>"
  note a = agreesD[OF m, of 0 ?sub ?r]
  show "\<exists>e r'. limited n m r = (Inl e, r')" if "dec ?sub 0 = Inl e"
    using a(1)[OF _ _ _ that] r n by (auto simp: limited_def Let_def)
  show "o' \<le> n \<and> limited n m r = (Inr (x, n - o'), r\<lparr>src := drop (off + o') buf\<rparr>)" if "dec ?sub 0 = Inr (x, o')"
    using a(2)[OF _ _ _ that] r n by (auto simp: limited_def Let_def add.commute)
qed

lemma limited_short:
  "length (src r) < n \<Longrightarrow> limited n m r = (Inr (x, left), r') \<Longrightarrow> 0 < left"
  by (auto simp: limited_def Let_def split: prod.splits sum.splits)

text \<open>The bytes a control frame takes, by its kind.\<close>

definition control_size :: "ControlFrame \<Rightarrow> nat" where
  "control_size c = (if cf_Type c = ControlType_TerminalWindowSize then 9 else 5)"

lemma Control_DecodeSlice_size: "Control_DecodeSlice buf off = Inr (c, off') \<Longrightarrow> off' = off + control_size c"
  by (auto simp: Control_DecodeSlice_def TerminalWindowSize_DecodeSlice_def Signal_DecodeSlice_def control_size_def Let_def
      rbind_Inr_iff split: if_splits)

definition Frame_strict :: "Frame decoder" where
  "Frame_strict buf off =
     rbind (Frame_DecodeSlice buf off) (\<lambda>(f, off).
     case Frame_Control f of
       Some c \<Rightarrow> if control_size c \<noteq> unat (fh_Len (fr_Header f)) then Inl (SubrangeMismatch 0 0) else Inr (f, off)
     | None \<Rightarrow> Inr (f, off))"

lemma Frame_agrees: "agrees Frame_Read Frame_strict"
proof -
  let ?k = "\<lambda>h. let n = unat (fh_Len h) in
     if fh_Type h = FrameType_Control then
       io_bind (limited n Control_Read) (\<lambda>(c, left).
       if left \<noteq> 0 then io_fail (SubrangeMismatch n left) else io_return \<lparr>fr_Header = h, tmp167 = Tmp230 c\<rparr>)
     else io_bind (read_sized n) (\<lambda>d. io_return \<lparr>fr_Header = h, tmp167 = Tmp221 d\<rparr>)"
  let ?d = "\<lambda>h buf off. let n = unat (fh_Len h) in
     if length buf - off < n then
       Inl (NotEnoughData (if fh_Type h = FrameType_Control then ''subrange'' else ''Frame::tmp167::Data''))
     else if fh_Type h = FrameType_Control then
       rbind (Control_DecodeSlice (take n (drop off buf)) 0) (\<lambda>(c, _).
         if control_size c \<noteq> n then Inl (SubrangeMismatch 0 0) else Inr (\<lparr>fr_Header = h, tmp167 = Tmp230 c\<rparr>, off + n))
     else Inr (\<lparr>fr_Header = h, tmp167 = Tmp221 (take n (drop off buf))\<rparr>, off + n)"
  have "agrees (?k h) (?d h)" for h
    unfolding agrees_def
  proof (intro allI impI)
    fix buf :: bytes and off :: nat and r :: reader assume r: "off \<le> length buf" "src r = drop off buf" "fault r = IoEOF"
    let ?n = "unat (fh_Len h)"
    show "case ?d h buf off of Inl _ \<Rightarrow> \<exists>e r'. ?k h r = (Inl e, r')
      | Inr (x, off') \<Rightarrow> off \<le> off' \<and> off' \<le> length buf \<and> ?k h r = (Inr x, r\<lparr>src := drop off' buf\<rparr>)"
    proof (cases "fh_Type h = FrameType_Control")
      case False
      then show ?thesis using r
        by (auto simp: Let_def io_simps read_sized_def copy_n_def add.commute)
    next
      case True
      show ?thesis
      proof (cases "length buf - off < ?n")
        case short: True
        then have "length (src r) < ?n" using r by simp
        note s = limited_short[OF this, of Control_Read]
        obtain res r' where l: "limited ?n Control_Read r = (res, r')" by fastforce
        show ?thesis using s l True short by (cases res) (auto simp: Let_def io_bind_def io_fail_def)
      next
        case enough: False
        then have n: "off + ?n \<le> length buf" using r(1) by simp
        note a = limited_agrees[OF Control_agrees r n]
        show ?thesis
        proof (cases "Control_DecodeSlice (take ?n (drop off buf)) 0")
          case (Inl e)
          then show ?thesis using a(1) True enough by (auto simp: Let_def io_bind_def)
        next
          case (Inr p)
          obtain c o' where p: "p = (c, o')" by fastforce
          have o': "o' = control_size c" using Control_DecodeSlice_size Inr p by fastforce
          show ?thesis using a(2)[OF Inr[unfolded p]] True enough n
            by (auto simp: Let_def Inr p o' io_simps)
        qed
      qed
    qed
  qed
  then have "agrees Frame_Read (\<lambda>buf off. rbind (FrameHeader_DecodeSlice buf off) (\<lambda>(h, off). ?d h buf off))"
    unfolding Frame_Read_def by (intro agrees_bind FrameHeader_agrees)
  then show ?thesis
  proof (rule agrees_cong)
    fix buf off
    show "rbind (FrameHeader_DecodeSlice buf off) (\<lambda>(h, off). ?d h buf off) = Frame_strict buf off"
    proof (cases "FrameHeader_DecodeSlice buf off")
      case (Inr p)
      then show ?thesis
        by (cases p; cases "Control_DecodeSlice (take (unat (fh_Len (fst p))) (drop (snd p) buf)) 0")
          (auto simp: Frame_strict_def Frame_DecodeSlice_def Frame_Control_def Let_def)
    qed (simp add: Frame_strict_def Frame_DecodeSlice_def)
  qed
qed

interpretation strict: decoder_variants Frame_Read Frame_strict
  by unfold_locales (rule Frame_agrees)

section \<open>Round trip\<close>

lemma FrameHeader_read:
  "FrameHeader_DecodeSlice (pre @ fh_Type h # PutUint32 (fh_Len h) @ suf) (length pre) = Inr (h, length pre + 5)"
  by (simp add: FrameHeader_DecodeSlice_def Let_def nth_append)

lemma Control_read:
  "Control_Append c [] = Inr w \<Longrightarrow> Control_DecodeSlice w 0 = Inr (c, length w)"
  by (cases "tmp181 c")
    (auto simp: Control_Append_def Control_DecodeSlice_def TerminalWindowSize_Append_def TerminalWindowSize_DecodeSlice_def
      Signal_Append_def Signal_DecodeSlice_def Let_def split: if_splits)

definition Frame_wire :: "Frame \<Rightarrow> bytes" where
  "Frame_wire f = fh_Type (fr_Header f) # PutUint32 (fh_Len (fr_Header f)) @
     (case tmp167 f of Tmp230 c \<Rightarrow> projr (Control_Append c []) | Tmp221 d \<Rightarrow> d | Nil91 \<Rightarrow> [])"

definition Frame_ok :: "Frame \<Rightarrow> bool" where
  "Frame_ok f \<longleftrightarrow>
     (if fh_Type (fr_Header f) = FrameType_Control
      then (\<exists>c w. tmp167 f = Tmp230 c \<and> Control_Append c [] = Inr w \<and> length w = unat (fh_Len (fr_Header f)))
      else (\<exists>d. tmp167 f = Tmp221 d \<and> length d = unat (fh_Len (fr_Header f))))"

lemma Frame_Append_ok: "Frame_Append f buf = Inr out \<longleftrightarrow> Frame_ok f \<and> out = buf @ Frame_wire f"
  by (cases "tmp167 f") (auto simp: Frame_body Frame_ok_def Frame_wire_def FrameHeader_Append_def Let_def split: sum.splits)

interpretation fr: self_delimiting Frame_Append Frame_DecodeSlice Frame_wire Frame_ok
proof
  show "Frame_Append f buf = Inr (buf @ Frame_wire f)" if "Frame_ok f" for f buf using that by (simp add: Frame_Append_ok)
  show "Frame_DecodeSlice (pre @ Frame_wire f @ suf) (length pre) = Inr (f, length pre + length (Frame_wire f))" if "Frame_ok f" for f pre suf
  proof -
    let ?h = "fr_Header f"
    obtain body where b: "Frame_wire f = fh_Type ?h # PutUint32 (fh_Len ?h) @ body" "length body = unat (fh_Len ?h)"
      and c: "fh_Type ?h = 3 \<Longrightarrow> \<exists>c. tmp167 f = Tmp230 c \<and> Control_Append c [] = Inr body"
      and d: "fh_Type ?h \<noteq> 3 \<Longrightarrow> tmp167 f = Tmp221 body"
      using \<open>Frame_ok f\<close> by (fastforce simp: Frame_ok_def Frame_wire_def split: if_splits)
    have h: "FrameHeader_DecodeSlice (pre @ Frame_wire f @ suf) (length pre) = Inr (?h, length pre + 5)"
      using FrameHeader_read[of pre ?h "body @ suf"] by (simp add: b(1))
    have t: "take (unat (fh_Len ?h)) (drop (length pre + 5) (pre @ Frame_wire f @ suf)) = body" by (simp add: b)
    have l: "length (pre @ Frame_wire f @ suf) - (length pre + 5) = unat (fh_Len ?h) + length suf" using b by simp
    show ?thesis
    proof (cases "fh_Type ?h = 3")
      case True
      then obtain ct where "tmp167 f = Tmp230 ct" "Control_Append ct [] = Inr body" using c by blast
      then show ?thesis unfolding Frame_DecodeSlice_def h Let_def rbind.simps prod.case t l
        using Control_read True by (simp add: b(2)) (simp add: b)
    next
      case False
      then show ?thesis unfolding Frame_DecodeSlice_def h Let_def rbind.simps prod.case t l using d by (simp add: b)
    qed
  qed
qed

lemma control_size_ok: "Control_Append c [] = Inr w \<Longrightarrow> length w = control_size c"
  using Control_DecodeSlice_size[OF Control_read] by simp

lemma Frame_ok_strict: "Frame_ok f \<Longrightarrow> Frame_Control f = Some c \<Longrightarrow> control_size c = unat (fh_Len (fr_Header f))"
  using control_size_ok by (auto simp: Frame_ok_def Frame_Control_def split: if_splits)

text \<open>Reading frames one after the other from a stream.\<close>

lemma Frame_Read_wire:
  assumes "Frame_ok f" "src r = Frame_wire f @ suf" "fault r = IoEOF"
  shows "Frame_Read r = (Inr f, r\<lparr>src := suf\<rparr>)"
proof -
  have "Frame_strict (Frame_wire f @ suf) 0 = Inr (f, length (Frame_wire f))"
    using fr.dec_wire[OF assms(1), of "[]" suf] Frame_ok_strict[OF assms(1)]
    by (auto simp: Frame_strict_def split: option.split)
  from agreesD(2)[OF Frame_agrees _ _ assms(3) this] assms(2) show ?thesis by simp
qed

section \<open>Properties\<close>

text \<open>
  All ways to encode and decode a frame agree. \<open>EncodeCopy\<close> gives what \<open>Append\<close> gives, errors
  included. When \<open>Append\<close> adds the bytes \<open>w\<close>, \<open>Encode\<close> returns \<open>w\<close> for every buffer that has room and an
  error otherwise, and every decoder returns the frame from \<open>w\<close>; when \<open>Append\<close> refuses, so does \<open>Encode\<close>.
\<close>

theorem frame_roundtrip:
  "Frame_EncodeCopy f buf = Frame_Append f buf \<and>
   (case Frame_Append f buf of
      Inl _ \<Rightarrow> \<forall>space. \<exists>e. Frame_Encode f space = Inl e
    | Inr out \<Rightarrow> \<exists>w. out = buf @ w \<and>
        (\<forall>space. if length w \<le> length space then Frame_Encode f space = Inr w else \<exists>e. Frame_Encode f space = Inl e) \<and>
        (\<forall>suf. Frame_Decode (w @ suf) = Inr (f, suf) \<and> Frame_DecodeCopy (w @ suf) = Inr (f, suf)) \<and>
        Frame_DecodeExact w = Inr f \<and> Frame_DecodeExactCopy w = Inr f)"
proof -
  have "Frame_Decode (Frame_wire f @ suf) = Inr (f, suf) \<and> Frame_DecodeCopy (Frame_wire f @ suf) = Inr (f, suf)"
    if "Frame_ok f" for suf
    using fr.dec_rest[OF that, of suf] Frame_Read_wire[OF that, of "bytesReader (Frame_wire f @ suf)" suf]
    by (simp add: Frame_Decode_def Frame_DecodeCopy_def decode_copy_def bytesReader_def)
  note d = this this[of "[]"]
  show ?thesis
  proof (cases "Frame_Append f buf")
    case (Inl e)
    then show ?thesis using fr.encoders_agree[of f buf] by (simp add: Frame_EncodeCopy_def Frame_Encode_def)
  next
    case (Inr out)
    then have ok: "Frame_ok f" "out = buf @ Frame_wire f" by (simp_all add: Frame_Append_ok)
    then show ?thesis using fr.encoders_agree[of f buf] d[OF ok(1)]
      by (simp add: Inr Frame_EncodeCopy_def Frame_Encode_def Frame_DecodeExact_def Frame_DecodeExactCopy_def no_remain_def)
  qed
qed

text \<open>
  \<open>DecodeSlice\<close> does not look at the end of a control frame. \<open>DecodeCopy\<close>, which goes through \<open>Read\<close>,
  accepts exactly the inputs that \<open>Decode\<close> accepts and whose control frame fills the length of the
  header; where both accept, frame and rest are the same. So \<open>Decode\<close> also takes control frames followed
  by up to 4 GiB of other bytes, which it drops without an error.
\<close>

theorem control_tail_ignored:
  "Frame_DecodeCopy buf = Inr (f, rest) \<longleftrightarrow>
   Frame_Decode buf = Inr (f, rest) \<and>
   (case Frame_Control f of None \<Rightarrow> True | Some c \<Rightarrow> unat (fh_Len (fr_Header f)) = control_size c)"
proof -
  have "Frame_DecodeCopy buf = Inr (f, rest) \<longleftrightarrow> decode_rest Frame_strict buf = Inr (f, rest)"
    using strict.decoders_agree[of buf] by (auto simp: Frame_DecodeCopy_def split: sum.splits)
  also have "\<dots> \<longleftrightarrow> Frame_Decode buf = Inr (f, rest) \<and>
      (case Frame_Control f of None \<Rightarrow> True | Some c \<Rightarrow> unat (fh_Len (fr_Header f)) = control_size c)"
    by (auto simp: Frame_Decode_def decode_rest_def Frame_strict_def split: sum.splits option.splits)
  finally show ?thesis .
qed

text \<open>A signal frame with one byte too many.\<close>

theorem control_tail_ignored_witness:
  "\<exists>f. Frame_Decode [3, 0, 0, 0, 6, 1, 0, 0, 0, 2, 99] = Inr (f, []) \<and> Frame_DecodeCopy [3, 0, 0, 0, 6, 1, 0, 0, 0, 2, 99] \<noteq> Inr (f, [])"
  by (simp add: control_tail_ignored Frame_Decode_def decode_rest_def Frame_DecodeSlice_def FrameHeader_DecodeSlice_def Let_def Uint32_def
    Control_DecodeSlice_def Signal_DecodeSlice_def Frame_Control_def control_size_def)

end
