(* ===== verification/Exec_Stream.thy ===== *)
theory Exec_Stream
  imports Exec_Frame
begin

text \<open>
  A command that runs on another machine: the streams of \<open>src/exec/exec_stream.go\<close> and
  \<open>src/exec/exec.go\<close>. Output and input travel as frames over one stream; on the client a loop distributes
  the frames of the runner to two pipes, on the runner a loop takes the frames of the client.
  The stream below is the parameter of the writers; the loops read the bytes it delivers.
\<close>

section \<open>Writers\<close>

text \<open>The methods of \<open>trsf.BidirectionalStream\<close> that the writers call.\<close>

record 's stream_ops =
  st_AppendData :: "bool \<Rightarrow> bytes list \<Rightarrow> ('s, unit) io"

datatype Auditor_event = AStdin bytes | AStdout bytes | AStderr bytes

record outStreamWrapper =
  frameType :: FrameType
  audit :: bool

definition header_bytes :: "FrameType \<Rightarrow> u32 \<Rightarrow> bytes" where
  "header_bytes t n = the (FrameHeader_MustAppend \<lparr>fh_Type = t, fh_Len = n\<rparr> [])"

function out_chunks :: "FrameType \<Rightarrow> bytes \<Rightarrow> bytes list list" where
  "out_chunks t p =
     (if length p = 0 then []
      else
        let chunk = min (length p) 4294967295;
            dataToSend = take chunk p
        in [header_bytes t (of_nat (length dataToSend)), dataToSend] # out_chunks t (drop chunk p))"
  by pat_completeness auto
termination by (relation "measure (\<lambda>(t, p). length p)") (auto simp: Let_def)

declare out_chunks.simps [simp del]

text \<open>What is reported to the auditor, and the calls of \<open>AppendData\<close>, one per chunk, until one fails.\<close>

definition outStreamWrapper_audit :: "outStreamWrapper \<Rightarrow> bytes \<Rightarrow> Auditor_event list" where
  "outStreamWrapper_audit o' p =
     (if \<not> audit o' then []
      else if frameType o' = FrameType_Stdout then [AStdout p]
      else if frameType o' = FrameType_Stderr then [AStderr p] else [])"

definition outStreamWrapper_Write :: "'s stream_ops \<Rightarrow> outStreamWrapper \<Rightarrow> bytes \<Rightarrow> ('s, nat) io" where
  "outStreamWrapper_Write S o' p =
     io_bind (io_seq (map (st_AppendData S False) (out_chunks (frameType o') p))) (\<lambda>_. io_return (length p))"

definition outStreamWrapper_Close :: "'s stream_ops \<Rightarrow> outStreamWrapper \<Rightarrow> ('s, unit) io" where
  "outStreamWrapper_Close S c = st_AppendData S True [header_bytes (frameType c) 0]"

definition stdinWrapper_Close :: "'s stream_ops \<Rightarrow> ('s, unit) io" where
  "stdinWrapper_Close S = st_AppendData S False [header_bytes FrameType_Stdin 0]"

definition stdinWrapper_Write :: "'s stream_ops \<Rightarrow> bytes \<Rightarrow> ('s, nat) io" where
  "stdinWrapper_Write S data =
     io_bind (st_AppendData S False [header_bytes FrameType_Stdin (of_nat (length data)), data])
       (\<lambda>_. io_return (length data))"

definition control_bytes :: "ControlFrame \<Rightarrow> bytes list" where
  "control_bytes ctrl =
     (let enc = the (Control_MustAppend ctrl []) in [header_bytes FrameType_Control (of_nat (length enc)), enc])"

definition SendSignal :: "'s stream_ops \<Rightarrow> u32 \<Rightarrow> ('s, unit) io" where
  "SendSignal S sig =
     (let ctrl = fst (Control_SetSignal \<lparr>cf_Type = ControlType_Signal, tmp181 = Nil75\<rparr> \<lparr>sg_Signal = sig\<rparr>)
      in st_AppendData S False (control_bytes ctrl))"

definition SetTerminalWindowSize :: "'s stream_ops \<Rightarrow> u16 \<Rightarrow> u16 \<Rightarrow> u16 \<Rightarrow> u16 \<Rightarrow> ('s, unit) io" where
  "SetTerminalWindowSize S rows columns width height =
     (let ctrl = fst (Control_SetTerminalWindowSize \<lparr>cf_Type = ControlType_TerminalWindowSize, tmp181 = Nil75\<rparr>
            \<lparr>Columns = columns, Rows = rows, Width = width, Height = height\<rparr>)
      in st_AppendData S False (control_bytes ctrl))"

section \<open>Pipes\<close>

text \<open>
  An \<open>io.Pipe\<close>: what its reader has got, how the writing end was closed (\<open>Some None\<close> for \<open>Close\<close>,
  \<open>Some (Some e)\<close> for \<open>CloseWithError\<close>; the first one counts), and how many bytes the reader still takes
  before it closes its end, \<open>None\<close> when it reads to the end.
\<close>

record pipe =
  p_got :: bytes
  p_end :: "wire_error option option"
  p_takes :: "nat option"

abbreviation ErrClosedPipe :: wire_error where "ErrClosedPipe \<equiv> IoFault 1"

definition new_pipe :: "nat option \<Rightarrow> pipe" where
  "new_pipe k = \<lparr>p_got = [], p_end = None, p_takes = k\<rparr>"

definition pipe_CloseWithError :: "wire_error option \<Rightarrow> pipe \<Rightarrow> pipe" where
  "pipe_CloseWithError e p = (if p_end p = None then p\<lparr>p_end := Some e\<rparr> else p)"

definition pipe_Write :: "bytes \<Rightarrow> (pipe, unit) io" where
  "pipe_Write d p =
     (if p_end p \<noteq> None then (Inl ErrClosedPipe, p)
      else case p_takes p of
        None \<Rightarrow> (Inr (), p\<lparr>p_got := p_got p @ d\<rparr>)
      | Some k \<Rightarrow>
          if length d \<le> k then (Inr (), p\<lparr>p_got := p_got p @ d, p_takes := Some (k - length d)\<rparr>)
          else (Inl ErrClosedPipe, p\<lparr>p_got := p_got p @ take k d, p_takes := Some 0\<rparr>))"

section \<open>The client\<close>

record CommandExecutionStream =
  stdoutPipe :: pipe
  stderrPipe :: pipe
  winSize :: u32

definition LastWindowSize :: "CommandExecutionStream \<Rightarrow> u16 \<times> u16 \<times> bool" where
  "LastWindowSize w =
     (let v = winSize w in if v = 0 then (0, 0, False) else (ucast (drop_bit 16 v), ucast v, True))"

text \<open>The deferred closes, which run when the loop returns.\<close>

definition close_pipes :: "CommandExecutionStream \<Rightarrow> CommandExecutionStream" where
  "close_pipes w = w\<lparr>stderrPipe := pipe_CloseWithError None (stderrPipe w), stdoutPipe := pipe_CloseWithError None (stdoutPipe w)\<rparr>"

text \<open>
  One frame. \<open>Inl\<close>: the loop returns. A frame of a kind other than control has its data (the reader sets
  it), so the pointer that \<open>Data\<close> returns is not nil.
\<close>

definition demux_frame :: "Frame \<Rightarrow> CommandExecutionStream \<Rightarrow> CommandExecutionStream + CommandExecutionStream" where
  "demux_frame f w =
     (let t = fh_Type (fr_Header f); d = the (Frame_Data f) in
      if t = FrameType_Stdout \<or> t = FrameType_Synth then
        if fh_Len (fr_Header f) = 0 then Inr (w\<lparr>stdoutPipe := pipe_CloseWithError None (stdoutPipe w)\<rparr>)
        else (case pipe_Write d (stdoutPipe w) of
                (Inl e, p) \<Rightarrow> Inl (w\<lparr>stdoutPipe := pipe_CloseWithError (Some e) p\<rparr>)
              | (Inr _, p) \<Rightarrow> Inr (w\<lparr>stdoutPipe := p\<rparr>))
      else if t = FrameType_Stderr then
        if fh_Len (fr_Header f) = 0 then Inr (w\<lparr>stderrPipe := pipe_CloseWithError None (stderrPipe w)\<rparr>)
        else (case pipe_Write d (stderrPipe w) of
                (Inl e, p) \<Rightarrow> Inl (w\<lparr>stderrPipe := pipe_CloseWithError (Some e) p\<rparr>)
              | (Inr _, p) \<Rightarrow> Inr (w\<lparr>stderrPipe := p\<rparr>))
      else if t = FrameType_Control then
        (case Frame_Control f of
           None \<Rightarrow> Inr w
         | Some c \<Rightarrow>
             if cf_Type c = ControlType_TerminalWindowSize then
               (case Control_TerminalWindowSize c of
                  None \<Rightarrow> Inr w
                | Some ws \<Rightarrow> Inr (w\<lparr>winSize := push_bit 16 (ucast (Rows ws)) OR ucast (Columns ws)\<rparr>))
             else Inr w)
      else Inr w)"

text \<open>Every frame that is read takes at least its header from the reader.\<close>

lemma read_full_src: "read_full n r = (res, r') \<Longrightarrow> length (src r') \<le> length (src r)"
  by (auto simp: read_full_def split: if_splits)

lemma FrameHeader_Read_src: "FrameHeader_Read r = (Inr h, r') \<Longrightarrow> length (src r') + 5 \<le> length (src r)"
  by (auto simp: FrameHeader_Read_def io_simps split: if_splits)

lemma read_sized_src: "read_sized n r = (res, r') \<Longrightarrow> length (src r') \<le> length (src r)"
  by (auto simp: read_sized_def copy_n_def read_full_def split: if_splits)

lemma limited_src: "limited n m r = (res, r') \<Longrightarrow> length (src r') \<le> length (src r)"
  by (auto simp: limited_def Let_def split: prod.splits)

lemma Frame_Read_src: "Frame_Read r = (Inr f, r') \<Longrightarrow> length (src r') < length (src r)"
proof -
  assume a: "Frame_Read r = (Inr f, r')"
  then obtain h r1 where h: "FrameHeader_Read r = (Inr h, r1)"
    by (auto simp: Frame_Read_def io_bind_def split: prod.splits sum.splits)
  then have "length (src r') \<le> length (src r1)"
    using a by (auto simp: Frame_Read_def io_bind_def io_fail_def io_return_def Let_def
        dest!: limited_src read_sized_src split: prod.splits sum.splits if_splits)
  then show ?thesis using FrameHeader_Read_src[OF h] by simp
qed

function demux :: "reader \<Rightarrow> CommandExecutionStream \<Rightarrow> CommandExecutionStream" where
  "demux r w =
     (case Frame_Read r of
        (Inl e, _) \<Rightarrow>
          close_pipes (if e = IoEOF then w
            else w\<lparr>stdoutPipe := pipe_CloseWithError (Some e) (stdoutPipe w),
                   stderrPipe := pipe_CloseWithError (Some e) (stderrPipe w)\<rparr>)
      | (Inr f, r') \<Rightarrow>
          (case demux_frame f w of Inl w' \<Rightarrow> close_pipes w' | Inr w' \<Rightarrow> demux r' w'))"
  by pat_completeness auto
termination
  by (relation "measure (\<lambda>(r, w). length (src r))") (auto dest: Frame_Read_src[OF sym])

declare demux.simps [simp del]

definition NewCommandExecutionStream :: "reader \<Rightarrow> nat option \<Rightarrow> nat option \<Rightarrow> CommandExecutionStream" where
  "NewCommandExecutionStream stream k k' = demux stream \<lparr>stdoutPipe = new_pipe k, stderrPipe = new_pipe k', winSize = 0\<rparr>"

text \<open>\<open>Close\<close>: the readers of both pipes go away, then the stream is cancelled and closed.\<close>

definition CommandExecutionStream_Close ::
  "('s \<Rightarrow> 's) \<Rightarrow> ('s \<Rightarrow> 's) \<Rightarrow> CommandExecutionStream \<Rightarrow> 's \<Rightarrow> CommandExecutionStream \<times> 's" where
  "CommandExecutionStream_Close cancel close w s =
     (w\<lparr>stdoutPipe := (stdoutPipe w)\<lparr>p_takes := Some 0\<rparr>, stderrPipe := (stderrPipe w)\<lparr>p_takes := Some 0\<rparr>\<rparr>, close (cancel s))"

section \<open>The runner\<close>

text \<open>
  What \<open>handleInput\<close> sees when it runs: the options, whether there is a terminal and a process (both
  are set before it starts), and what it has done: bytes for the child, reports to the auditor, signals
  and window sizes that it passed on. Results of the last two are only logged.
\<close>

record runner =
  StdinDevNull :: bool
  ro_Audit :: bool
  hasPty :: bool
  hasProcess :: bool
  pipeIn :: pipe
  warnedDroppedStdin :: bool
  audited :: "Auditor_event list"
  signalled :: "u32 list"
  resized :: "TerminalWindowSize list"

definition input_frame :: "Frame \<Rightarrow> runner \<Rightarrow> (wire_error \<times> runner) + runner" where
  "input_frame f w =
     (if fh_Type (fr_Header f) = FrameType_Stdin then
        if StdinDevNull w then
          if fh_Len (fr_Header f) = 0 then Inr w
          else Inr (if \<not> warnedDroppedStdin w then w\<lparr>warnedDroppedStdin := True\<rparr> else w)
        else if fh_Len (fr_Header f) = 0 then Inr (w\<lparr>pipeIn := pipe_CloseWithError None (pipeIn w)\<rparr>)
        else
          let d = the (Frame_Data f);
              w = (if ro_Audit w then w\<lparr>audited := audited w @ [AStdin d]\<rparr> else w)
          in (case pipe_Write d (pipeIn w) of
                (Inl e, p) \<Rightarrow> Inl (e, w\<lparr>pipeIn := p\<rparr>)
              | (Inr _, p) \<Rightarrow> Inr (w\<lparr>pipeIn := p\<rparr>))
      else
        (case Frame_Control f of
           Some c \<Rightarrow>
             if cf_Type c = ControlType_TerminalWindowSize then
               if \<not> hasPty w then Inr w
               else (case Control_TerminalWindowSize c of None \<Rightarrow> Inr w | Some ws \<Rightarrow> Inr (w\<lparr>resized := resized w @ [ws]\<rparr>))
             else if cf_Type c = ControlType_Signal then
               if \<not> hasProcess w then Inr w
               else (case Control_Signal c of None \<Rightarrow> Inr w | Some s \<Rightarrow> Inr (w\<lparr>signalled := signalled w @ [sg_Signal s]\<rparr>))
             else Inr w
         | None \<Rightarrow> Inr w))"

text \<open>The loop, with the error it returns; \<open>pipeIn\<close> is closed in any case.\<close>

definition close_input :: "runner \<Rightarrow> runner" where
  "close_input w = w\<lparr>pipeIn := pipe_CloseWithError None (pipeIn w)\<rparr>"

function handleInput :: "reader \<Rightarrow> runner \<Rightarrow> wire_error option \<times> runner" where
  "handleInput r w =
     (case Frame_Read r of
        (Inl e, _) \<Rightarrow> (if e = IoEOF then None else Some e, close_input w)
      | (Inr f, r') \<Rightarrow>
          (case input_frame f w of Inl (e, w') \<Rightarrow> (Some e, close_input w') | Inr w' \<Rightarrow> handleInput r' w'))"
  by pat_completeness auto
termination
  by (relation "measure (\<lambda>(r, w). length (src r))") (auto dest: Frame_Read_src[OF sym])

declare handleInput.simps [simp del]

end
