(* ===== verification/Exec_Stream_Props.thy ===== *)
theory Exec_Stream_Props
  imports Exec_Stream
begin

text \<open>
  What the two ends of an execution stream promise each other: output frames come out of the right pipe
  in the order they were written, also when the stream is cut, and the runner gets input, signals and
  sizes in the order in which the client sent them.
\<close>

section \<open>Frames on the stream\<close>

lemma header_bytes_eq [simp]: "header_bytes t n = t # PutUint32 n"
  by (simp add: header_bytes_def FrameHeader_MustAppend_def must_def FrameHeader_Append_def)

text \<open>A frame that carries data, and the frame of a control message.\<close>

definition data_frame :: "FrameType \<Rightarrow> bytes \<Rightarrow> Frame" where
  "data_frame t d = \<lparr>fr_Header = \<lparr>fh_Type = t, fh_Len = of_nat (length d)\<rparr>, tmp167 = Tmp221 d\<rparr>"

lemma data_frame_ok: "t \<noteq> FrameType_Control \<Longrightarrow> length d < 2 ^ 32 \<Longrightarrow> Frame_ok (data_frame t d)"
  by (simp add: Frame_ok_def data_frame_def unat_of_nat)

lemma data_frame_wire: "Frame_wire (data_frame t d) = t # PutUint32 (of_nat (length d)) @ d"
  by (simp add: Frame_wire_def data_frame_def)

definition control_frame :: "ControlFrame \<Rightarrow> Frame" where
  "control_frame c = \<lparr>fr_Header = \<lparr>fh_Type = FrameType_Control, fh_Len = of_nat (control_size c)\<rparr>, tmp167 = Tmp230 c\<rparr>"

lemma control_frame_ok: "Control_Append c [] = Inr w \<Longrightarrow> Frame_ok (control_frame c)"
  using control_size_ok[of c w] by (auto simp: Frame_ok_def control_frame_def control_size_def)

lemma control_bytes_eq:
  "Control_Append c [] = Inr w \<Longrightarrow> concat (control_bytes c) = Frame_wire (control_frame c)"
  using control_size_ok[of c w]
  by (simp add: control_bytes_def Control_MustAppend_def must_def Frame_wire_def control_frame_def Let_def)

text \<open>The chunks of one write are data frames that together hold the bytes.\<close>

function out_frames :: "FrameType \<Rightarrow> bytes \<Rightarrow> Frame list" where
  "out_frames t p = (if p = [] then [] else data_frame t (take 4294967295 p) # out_frames t (drop 4294967295 p))"
  by pat_completeness auto
termination by (relation "measure (\<lambda>(t, p). length p)") auto

declare out_frames.simps [simp del]

lemma out_Nil [simp]: "out_frames t [] = []" "out_chunks t [] = []"
  by (simp_all add: out_frames.simps[of t "[]"] out_chunks.simps[of t "[]"])

lemma out_chunks_frames: "concat (concat (out_chunks t p)) = concat (map Frame_wire (out_frames t p))"
proof (induction t p rule: out_frames.induct)
  case (1 t p)
  have "take (min (length p) 4294967295) p = take 4294967295 p" "drop (min (length p) 4294967295) p = drop 4294967295 p"
    by (simp_all add: min_def)
  then show ?case using 1
    by (cases "p = []") (simp_all add: out_chunks.simps[of t p] out_frames.simps[of t p] Let_def data_frame_wire)
qed

lemma out_frames_data:
  "t \<noteq> FrameType_Control \<Longrightarrow> \<forall>f \<in> set (out_frames t p). Frame_ok f \<and> (\<exists>d. f = data_frame t d \<and> d \<noteq> [] \<and> length d < 2 ^ 32)"
proof (induction t p rule: out_frames.induct)
  case (1 t p)
  have "Frame_ok (data_frame t (take 4294967295 p))" by (rule data_frame_ok[OF 1(2)]) simp
  moreover have "length (take 4294967295 p) < 2 ^ 32" by simp
  ultimately show ?case using 1 by (cases "p = []") (auto simp: out_frames.simps[of t p])
qed

lemma out_frames_concat: "concat (map (\<lambda>f. the (Frame_Data f)) (out_frames t p)) = p" if "t \<noteq> FrameType_Control"
  using that
proof (induction t p rule: out_frames.induct)
  case (1 t p)
  then show ?case
    by (cases "p = []") (simp_all add: out_frames.simps[of t p] Frame_Data_def data_frame_def)
qed

section \<open>Reading a stream that may be cut\<close>

lemma Frame_Read_end: "src r = [] \<Longrightarrow> fault r = IoEOF \<Longrightarrow> \<exists>r'. Frame_Read r = (Inl IoEOF, r')"
  by (simp add: Frame_Read_def FrameHeader_Read_def io_simps)

lemma Frame_Read_cut:
  assumes "Frame_ok f" and "n < length (Frame_wire f)" and "src r = take n (Frame_wire f)" and "fault r = IoEOF"
  shows "\<exists>e r'. Frame_Read r = (Inl e, r')"
proof -
  have "\<exists>e. Frame_strict (take n (Frame_wire f)) 0 = Inl e"
  proof (rule ccontr)
    assume "\<not> ?thesis"
    then obtain g off where g: "Frame_strict (take n (Frame_wire f)) 0 = Inr (g, off)"
      by (cases "Frame_strict (take n (Frame_wire f)) 0") auto
    then have d: "Frame_DecodeSlice (take n (Frame_wire f)) 0 = Inr (g, off)"
      by (auto simp: Frame_strict_def rbind_Inr_iff split: option.splits if_splits)
    let ?h = "fr_Header f"
    obtain body where b: "Frame_wire f = fh_Type ?h # PutUint32 (fh_Len ?h) @ body" "length body = unat (fh_Len ?h)"
      using assms(1) by (fastforce simp: Frame_ok_def Frame_wire_def split: if_splits)
    have "5 \<le> n" using d b assms(2) by (auto simp: Frame_DecodeSlice_def FrameHeader_DecodeSlice_def rbind_Inr_iff Let_def split: if_splits)
    then obtain m where m: "n = Suc (4 + m)" using le_Suc_ex[of 5 n] by auto
    have t: "take n (Frame_wire f) = fh_Type ?h # PutUint32 (fh_Len ?h) @ take m body" 
      using take_append[of n "fh_Type ?h # PutUint32 (fh_Len ?h)" body] by (simp add: b(1) m)
    have "FrameHeader_DecodeSlice (take n (Frame_wire f)) 0 = Inr (?h, 5)"
      using FrameHeader_read[of "[]" ?h "take m body"] by (simp add: t)
    moreover have "m < unat (fh_Len ?h)" using assms(2) b m by simp
    ultimately show False using d b m by (auto simp: Frame_DecodeSlice_def Let_def split: if_splits)
  qed
  then obtain e where "Frame_strict (take n (Frame_wire f)) 0 = Inl e" by blast
  then show ?thesis using agreesD(1)[OF Frame_agrees _ _ assms(4)] assms(3) by fastforce
qed

text \<open>
  The end of the data of a frame: a reader that cannot seek reports the plain end of file, wherever in
  the data the bytes stop.
\<close>

lemma Frame_Read_cut_data:
  assumes "t \<noteq> FrameType_Control" "length d < 2 ^ 32" "m < length d"
    and "src r = t # PutUint32 (of_nat (length d)) @ take m d" "fault r = IoEOF" "\<not> seekable r"
  shows "\<exists>r'. Frame_Read r = (Inl IoEOF, r')"
proof -
  have "FrameHeader_Read r = (Inr \<lparr>fh_Type = t, fh_Len = of_nat (length d)\<rparr>, r\<lparr>src := take m d\<rparr>)"
    using assms(4) by (simp add: FrameHeader_Read_def io_simps)
  moreover have "unat (of_nat (length d) :: u32) = length d" using assms(2) by (simp add: unat_of_nat)
  ultimately show ?thesis using assms by (auto simp: Frame_Read_def io_bind_def read_sized_def copy_n_def Let_def)
qed

text \<open>The frames a loop gets to see: those that are complete before the cut.\<close>

fun complete :: "nat \<Rightarrow> Frame list \<Rightarrow> Frame list" where
  "complete n [] = []"
| "complete n (f # fs) = (if length (Frame_wire f) \<le> n then f # complete (n - length (Frame_wire f)) fs else [])"

lemma complete_prefix: "\<exists>k. complete n fs = take k fs"
proof (induction fs arbitrary: n)
  case (Cons f fs)
  then obtain k where "complete (n - length (Frame_wire f)) fs = take k fs" by blast
  then have "complete n (f # fs) = take (if length (Frame_wire f) \<le> n then Suc k else 0) (f # fs)" by simp
  then show ?case by blast
qed simp

lemma complete_all: "length (concat (map Frame_wire fs)) \<le> n \<Longrightarrow> complete n fs = fs"
  by (induction fs arbitrary: n) auto

fun demux_frames :: "Frame list \<Rightarrow> CommandExecutionStream \<Rightarrow> CommandExecutionStream + CommandExecutionStream" where
  "demux_frames [] w = Inr w"
| "demux_frames (f # fs) w = (case demux_frame f w of Inl w' \<Rightarrow> Inl w' | Inr w' \<Rightarrow> demux_frames fs w')"

lemma demux_cut:
  assumes "\<forall>f \<in> set fs. Frame_ok f" "src r = take n (concat (map Frame_wire fs))" "fault r = IoEOF"
    "demux_frames (complete n fs) w = Inr w'"
  shows "\<exists>w''. demux r w = close_pipes w'' \<and>
    (w'' = w' \<or> (\<exists>e. w'' = w'\<lparr>stdoutPipe := pipe_CloseWithError (Some e) (stdoutPipe w'),
                   stderrPipe := pipe_CloseWithError (Some e) (stderrPipe w')\<rparr>)) \<and>
    (length (concat (map Frame_wire fs)) \<le> n \<longrightarrow> w'' = w')"
  using assms
proof (induction fs arbitrary: n r w)
  case Nil
  then show ?case using Frame_Read_end[of r] by (auto simp: demux.simps)
next
  case (Cons f fs)
  let ?l = "length (Frame_wire f)"
  show ?case
  proof (cases "?l \<le> n")
    case True
    then have s: "src r = Frame_wire f @ take (n - ?l) (concat (map Frame_wire fs))" using Cons.prems(2) by simp
    have rd: "Frame_Read r = (Inr f, r\<lparr>src := take (n - ?l) (concat (map Frame_wire fs))\<rparr>)"
      using Frame_Read_wire[OF _ s Cons.prems(3)] Cons.prems(1) by simp
    obtain w1 where w1: "demux_frame f w = Inr w1" "demux_frames (complete (n - ?l) fs) w1 = Inr w'"
      using Cons.prems(4) True by (auto split: sum.splits)
    have "demux r w = demux (r\<lparr>src := take (n - ?l) (concat (map Frame_wire fs))\<rparr>) w1"
      by (simp add: demux.simps[of r] rd w1)
    then show ?thesis using Cons.IH[of "r\<lparr>src := take (n - ?l) (concat (map Frame_wire fs))\<rparr>" "n - ?l" w1] Cons.prems w1 True
      by (simp add: le_diff_conv2 add.commute)
  next
    case False
    then obtain e r' where rd: "Frame_Read r = (Inl e, r')"
      using Frame_Read_cut[of f n r] Cons.prems by auto
    then show ?thesis using Cons.prems(4) False by (auto simp: demux.simps[of r])
  qed
qed

section \<open>Distribution\<close>

definition payload :: "FrameType set \<Rightarrow> Frame list \<Rightarrow> bytes" where
  "payload T fs = concat (map (\<lambda>f. the (Frame_Data f)) (filter (\<lambda>f. fh_Type (fr_Header f) \<in> T) fs))"

lemma payload_append: "payload T (fs @ gs) = payload T fs @ payload T gs"
  by (simp add: payload_def)

definition output_frame :: "Frame \<Rightarrow> bool" where
  "output_frame f \<longleftrightarrow> (\<exists>t d. f = data_frame t d \<and> t \<in> {FrameType_Stdout, FrameType_Stderr, FrameType_Synth} \<and>
     d \<noteq> [] \<and> length d < 2 ^ 32)"

abbreviation (input) open_pipe :: "pipe \<Rightarrow> bool" where
  "open_pipe p \<equiv> p_end p = None \<and> p_takes p = None"

lemma of_nat_len_zero: "length d < 2 ^ 32 \<Longrightarrow> (of_nat (length d) :: u32) = 0 \<longleftrightarrow> d = []"
  by (simp add: word_unat_eq_iff unat_of_nat)

lemma demux_frames_output:
  assumes "\<forall>f \<in> set fs. output_frame f" "open_pipe (stdoutPipe w)" "open_pipe (stderrPipe w)"
  shows "demux_frames fs w = Inr (w\<lparr>
    stdoutPipe := (stdoutPipe w)\<lparr>p_got := p_got (stdoutPipe w) @ payload {FrameType_Stdout, FrameType_Synth} fs\<rparr>,
    stderrPipe := (stderrPipe w)\<lparr>p_got := p_got (stderrPipe w) @ payload {FrameType_Stderr} fs\<rparr>\<rparr>)"
  using assms
proof (induction fs arbitrary: w)
  case Nil
  then show ?case by (simp add: payload_def)
next
  case (Cons f fs)
  obtain t d where f: "f = data_frame t d" "t = 1 \<or> t = 2 \<or> t = 4" "d \<noteq> []" "length d < 2 ^ 32"
    using Cons.prems(1) by (auto simp: output_frame_def)
  have z: "(of_nat (length d) :: u32) \<noteq> 0" using of_nat_len_zero[OF f(4)] f(3) by simp
  show ?case using f(2)
  proof (elim disjE)
    assume "t = 1"
    then show ?thesis using Cons z f(1)
      by (simp add: demux_frame_def data_frame_def Frame_Data_def Let_def pipe_Write_def payload_def)
  next
    assume "t = 2"
    then show ?thesis using Cons z f(1)
      by (simp add: demux_frame_def data_frame_def Frame_Data_def Let_def pipe_Write_def payload_def)
  next
    assume "t = 4"
    then show ?thesis using Cons z f(1)
      by (simp add: demux_frame_def data_frame_def Frame_Data_def Let_def pipe_Write_def payload_def)
  qed
qed

text \<open>What the two writers of a runner put on the stream, write by write.\<close>

definition runner_output :: "(FrameType \<times> bytes) list \<Rightarrow> bytes" where
  "runner_output ws = concat (map (\<lambda>(t, p). concat (concat (out_chunks t p))) ws)"

definition sent_to :: "FrameType set \<Rightarrow> (FrameType \<times> bytes) list \<Rightarrow> bytes" where
  "sent_to T ws = concat (map snd (filter (\<lambda>(t, p). t \<in> T) ws))"

definition output_frames :: "(FrameType \<times> bytes) list \<Rightarrow> Frame list" where
  "output_frames ws = concat (map (\<lambda>(t, p). out_frames t p) ws)"

lemma runner_output_frames: "runner_output ws = concat (map Frame_wire (output_frames ws))"
  by (induction ws) (auto simp: runner_output_def output_frames_def out_chunks_frames)

lemma payload_out_frames: "t \<noteq> FrameType_Control \<Longrightarrow> payload T (out_frames t p) = (if t \<in> T then p else [])"
proof -
  assume t: "t \<noteq> FrameType_Control"
  have "\<forall>f \<in> set (out_frames t p). fh_Type (fr_Header f) = t" using out_frames_data[OF t, of p] by (fastforce simp: data_frame_def)
  then have "filter (\<lambda>f. fh_Type (fr_Header f) \<in> T) (out_frames t p) = (if t \<in> T then out_frames t p else [])"
    by (auto simp: filter_id_conv filter_empty_conv)
  then show ?thesis using out_frames_concat[OF t] by (simp add: payload_def)
qed

lemma output_frames_ok:
  assumes "\<forall>(t, p) \<in> set ws. t \<in> {FrameType_Stdout, FrameType_Stderr, FrameType_Synth}"
  shows "\<forall>f \<in> set (output_frames ws). Frame_ok f \<and> output_frame f" and "payload T (output_frames ws) = sent_to T ws"
proof -
  have t: "t \<noteq> 3" if "(t, p) \<in> set ws" for t p using assms that by auto
  show "\<forall>f \<in> set (output_frames ws). Frame_ok f \<and> output_frame f"
  proof
    fix f assume "f \<in> set (output_frames ws)"
    then obtain t p where tp: "(t, p) \<in> set ws" "f \<in> set (out_frames t p)" by (auto simp: output_frames_def)
    then show "Frame_ok f \<and> output_frame f"
      using out_frames_data[OF t[OF tp(1)], of p] assms unfolding output_frame_def by blast
  qed
  show "payload T (output_frames ws) = sent_to T ws"
    using assms by (induction ws) (auto simp: output_frames_def sent_to_def payload_append payload_out_frames, auto simp: payload_def)
qed

lemma payload_take: "\<exists>k. payload T (take n fs) = take k (payload T fs)"
proof -
  have "payload T fs = payload T (take n fs) @ payload T (drop n fs)" by (metis append_take_drop_id payload_append)
  then have "payload T (take n fs) = take (length (payload T (take n fs))) (payload T fs)" by simp
  then show ?thesis by blast
qed

section \<open>The stream below\<close>

text \<open>
  What the writers need of \<open>trsf.BidirectionalStream\<close>: an \<open>AppendData\<close> that returns without an error has
  put its slices, one behind the other, at the end of what is sent, and one that fails has put nothing there.
\<close>

locale byte_stream =
  fixes S :: "'s stream_ops" and sent :: "'s \<Rightarrow> bytes"
  assumes append_data: "st_AppendData S eof ds s = (Inr (), s') \<Longrightarrow> sent s' = sent s @ concat ds"
    and append_err: "st_AppendData S eof ds s = (Inl e, s') \<Longrightarrow> sent s' = sent s"
begin

lemma append_seq:
  "io_seq (map (st_AppendData S False) dss) s = (Inr (), s') \<Longrightarrow> sent s' = sent s @ concat (concat dss)"
proof (induction dss arbitrary: s)
  case (Cons ds dss)
  obtain s1 where s1: "st_AppendData S False ds s = (Inr (), s1)" "io_seq (map (st_AppendData S False) dss) s1 = (Inr (), s')"
    using Cons.prems by (auto simp: io_seq.simps io_bind_def split: prod.splits sum.splits)
  then show ?case using Cons.IH[OF s1(2)] append_data[OF s1(1)] by simp
qed (simp add: io_seq.simps io_return_def)

lemma out_write:
  "outStreamWrapper_Write S o' p s = (Inr n, s') \<Longrightarrow> n = length p \<and> sent s' = sent s @ runner_output [(frameType o', p)]"
  using append_seq
  by (fastforce simp: outStreamWrapper_Write_def io_bind_def io_return_def runner_output_def split: prod.splits sum.splits)

lemma stdin_write:
  "stdinWrapper_Write S d s = (Inr n, s') \<Longrightarrow> n = length d \<and> sent s' = sent s @ Frame_wire (data_frame FrameType_Stdin d)"
  by (auto simp: stdinWrapper_Write_def io_bind_def io_return_def data_frame_wire dest!: append_data split: prod.splits sum.splits)

lemma stdin_close:
  "stdinWrapper_Close S s = (Inr (), s') \<Longrightarrow> sent s' = sent s @ Frame_wire (data_frame FrameType_Stdin [])"
  by (auto simp: stdinWrapper_Close_def data_frame_wire dest!: append_data)

end

section \<open>Input\<close>

text \<open>What a client does to the runner, the frame of each action, and its intended effect.\<close>

datatype client_op = WriteStdin bytes | CloseStdin | SendSig u32 | Resize u16 u16 u16 u16

definition signal_frame :: "u32 \<Rightarrow> ControlFrame" where
  "signal_frame s = \<lparr>cf_Type = ControlType_Signal, tmp181 = Tmp277 \<lparr>sg_Signal = s\<rparr>\<rparr>"

definition size_frame :: "TerminalWindowSize \<Rightarrow> ControlFrame" where
  "size_frame t = \<lparr>cf_Type = ControlType_TerminalWindowSize, tmp181 = Tmp280 t\<rparr>"

definition window :: "u16 \<Rightarrow> u16 \<Rightarrow> u16 \<Rightarrow> u16 \<Rightarrow> TerminalWindowSize" where
  "window rows columns width height = \<lparr>Columns = columns, Rows = rows, Width = width, Height = height\<rparr>"

fun op_frame :: "client_op \<Rightarrow> Frame" where
  "op_frame (WriteStdin d) = data_frame FrameType_Stdin d"
| "op_frame CloseStdin = data_frame FrameType_Stdin []"
| "op_frame (SendSig s) = control_frame (signal_frame s)"
| "op_frame (Resize r c w h) = control_frame (size_frame (window r c w h))"

fun client_do :: "'s stream_ops \<Rightarrow> client_op \<Rightarrow> ('s, unit) io" where
  "client_do S (WriteStdin d) = io_bind (stdinWrapper_Write S d) (\<lambda>_. io_return ())"
| "client_do S CloseStdin = stdinWrapper_Close S"
| "client_do S (SendSig s) = SendSignal S s"
| "client_do S (Resize r c w h) = SetTerminalWindowSize S r c w h"

lemma control_parts:
  "Control_Append (signal_frame s) [] = Inr (1 # PutUint32 s)"
  "Control_Append (size_frame t) [] = Inr (0 # PutUint16 (Columns t) @ PutUint16 (Rows t) @ PutUint16 (Width t) @ PutUint16 (Height t))"
  by (simp_all add: Control_Append_def signal_frame_def size_frame_def Signal_Append_def TerminalWindowSize_Append_def Let_def)

context byte_stream
begin

lemma client_does: "client_do S x s = (Inr (), s') \<Longrightarrow> sent s' = sent s @ Frame_wire (op_frame x)"
proof (cases x)
  case (WriteStdin d)
  then show "client_do S x s = (Inr (), s') \<Longrightarrow> ?thesis"
    using stdin_write by (fastforce simp: io_bind_def io_return_def split: prod.splits sum.splits)
next
  case CloseStdin
  then show "client_do S x s = (Inr (), s') \<Longrightarrow> ?thesis" using stdin_close by simp
next
  case (SendSig n)
  then show "client_do S x s = (Inr (), s') \<Longrightarrow> ?thesis"
    using control_bytes_eq[OF control_parts(1)[of n]] append_data
    by (simp add: SendSignal_def Control_SetSignal_def signal_frame_def)
next
  case (Resize r c w h)
  then show "client_do S x s = (Inr (), s') \<Longrightarrow> ?thesis"
    using control_bytes_eq[OF control_parts(2)[of "window r c w h"]] append_data
    by (simp add: SetTerminalWindowSize_def Control_SetTerminalWindowSize_def size_frame_def window_def)
qed

text \<open>A session of the client: its actions one after the other.\<close>

lemma client_session:
  "io_seq (map (client_do S) ops) s = (Inr (), s') \<Longrightarrow> sent s' = sent s @ concat (map (\<lambda>x. Frame_wire (op_frame x)) ops)"
proof (induction ops arbitrary: s)
  case (Cons x ops)
  obtain s1 where s1: "client_do S x s = (Inr (), s1)" "io_seq (map (client_do S) ops) s1 = (Inr (), s')"
    using Cons.prems by (auto simp: io_seq.simps io_bind_def split: prod.splits sum.splits)
  then show ?case using Cons.IH[OF s1(2)] client_does[OF s1(1)] by simp
qed (simp add: io_seq.simps io_return_def)

end

text \<open>The effect of an action on a runner that has a process and a terminal.\<close>

fun op_effect :: "client_op \<Rightarrow> runner \<Rightarrow> (wire_error \<times> runner) + runner" where
  "op_effect (WriteStdin d) w =
     (if d = [] then Inr (w\<lparr>pipeIn := pipe_CloseWithError None (pipeIn w)\<rparr>)
      else
        let w = (if ro_Audit w then w\<lparr>audited := audited w @ [AStdin d]\<rparr> else w) in
        if p_end (pipeIn w) \<noteq> None then Inl (ErrClosedPipe, w)
        else Inr (w\<lparr>pipeIn := (pipeIn w)\<lparr>p_got := p_got (pipeIn w) @ d\<rparr>\<rparr>))"
| "op_effect CloseStdin w = Inr (w\<lparr>pipeIn := pipe_CloseWithError None (pipeIn w)\<rparr>)"
| "op_effect (SendSig s) w = Inr (w\<lparr>signalled := signalled w @ [s]\<rparr>)"
| "op_effect (Resize r c x h) w = Inr (w\<lparr>resized := resized w @ [window r c x h]\<rparr>)"

fun op_effects :: "client_op list \<Rightarrow> runner \<Rightarrow> wire_error option \<times> runner" where
  "op_effects [] w = (None, close_input w)"
| "op_effects (x # ops) w = (case op_effect x w of Inl (e, w') \<Rightarrow> (Some e, close_input w') | Inr w' \<Rightarrow> op_effects ops w')"

fun op_fits :: "client_op \<Rightarrow> bool" where
  "op_fits (WriteStdin d) = (length d < 2 ^ 32)"
| "op_fits _ = True"

definition live_runner :: "runner \<Rightarrow> bool" where
  "live_runner w \<longleftrightarrow> \<not> StdinDevNull w \<and> hasPty w \<and> hasProcess w \<and> p_takes (pipeIn w) = None"

lemma op_frame_ok: "op_fits x \<Longrightarrow> Frame_ok (op_frame x)"
  by (cases x) (auto intro: data_frame_ok control_frame_ok[OF control_parts(1)] control_frame_ok[OF control_parts(2)])

lemma input_frame_op:
  assumes "op_fits x" "live_runner w"
  shows "input_frame (op_frame x) w = op_effect x w"
  using assms of_nat_len_zero
  by (cases x) (auto simp: input_frame_def live_runner_def data_frame_def Frame_Data_def Frame_Control_def control_frame_def
      signal_frame_def size_frame_def Control_Signal_def Control_TerminalWindowSize_def pipe_Write_def Let_def)

lemma op_effect_live: "live_runner w \<Longrightarrow> op_effect x w = Inr w' \<Longrightarrow> live_runner w'"
  by (cases x) (auto simp: live_runner_def pipe_CloseWithError_def Let_def split: if_splits)

lemma handleInput_ops:
  assumes "\<forall>x \<in> set ops. op_fits x" "live_runner w" "src r = concat (map (\<lambda>x. Frame_wire (op_frame x)) ops)" "fault r = IoEOF"
  shows "handleInput r w = op_effects ops w"
  using assms
proof (induction ops arbitrary: r w)
  case Nil
  then show ?case using Frame_Read_end[of r] by (auto simp: handleInput.simps)
next
  case (Cons x ops)
  let ?r = "r\<lparr>src := concat (map (\<lambda>x. Frame_wire (op_frame x)) ops)\<rparr>"
  have rd: "Frame_Read r = (Inr (op_frame x), ?r)"
    using Frame_Read_wire[OF op_frame_ok, of x r "concat (map (\<lambda>x. Frame_wire (op_frame x)) ops)"] Cons.prems by simp
  have e: "input_frame (op_frame x) w = op_effect x w" using input_frame_op Cons.prems by simp
  show ?case
  proof (cases "op_effect x w")
    case (Inl p)
    then show ?thesis by (simp add: handleInput.simps[of r] rd e split: prod.split)
  next
    case (Inr w')
    then have "live_runner w'" using op_effect_live Cons.prems(2) by blast
    then show ?thesis using Cons.IH[of w' ?r] Cons.prems Inr by (simp add: handleInput.simps[of r] rd e)
  qed
qed

section \<open>Output\<close>

text \<open>
  Output is distributed correctly. Let a runner write to its standard output and error in any
  order and in pieces of any size, and let the client receive the first \<open>n\<close> bytes of what this puts on
  the stream. Then the bytes in the client's pipe for standard output are an initial piece of what was
  written there, likewise for standard error, both pipes are closed, and nothing is missing when all
  bytes arrive.
\<close>

lemma output_distributed:
  assumes "\<forall>(t, p) \<in> set ws. t \<in> {FrameType_Stdout, FrameType_Stderr, FrameType_Synth}"
    and "src r = take n (runner_output ws)" and "fault r = IoEOF"
    and "w = NewCommandExecutionStream r None None"
  shows "(\<exists>k. p_got (stdoutPipe w) = take k (sent_to {FrameType_Stdout, FrameType_Synth} ws)) \<and>
    (\<exists>k. p_got (stderrPipe w) = take k (sent_to {FrameType_Stderr} ws)) \<and>
    p_end (stdoutPipe w) \<noteq> None \<and> p_end (stderrPipe w) \<noteq> None \<and>
    (length (runner_output ws) \<le> n \<longrightarrow>
       p_got (stdoutPipe w) = sent_to {FrameType_Stdout, FrameType_Synth} ws \<and> p_end (stdoutPipe w) = Some None \<and>
       p_got (stderrPipe w) = sent_to {FrameType_Stderr} ws \<and> p_end (stderrPipe w) = Some None)"
proof -
  let ?fs = "output_frames ws" and ?w0 = "\<lparr>stdoutPipe = new_pipe None, stderrPipe = new_pipe None, winSize = 0\<rparr>"
  note ok = output_frames_ok[OF assms(1)]
  obtain k where k: "complete n ?fs = take k ?fs" using complete_prefix by blast
  have f: "\<forall>f \<in> set (complete n ?fs). output_frame f" using ok(1) by (auto simp: k dest: in_set_takeD)
  note d = demux_frames_output[OF f, of ?w0]
  obtain w' where w': "demux_frames (complete n ?fs) ?w0 = Inr w'"
    "p_got (stdoutPipe w') = payload {1, 4} (complete n ?fs)" "p_got (stderrPipe w') = payload {2} (complete n ?fs)"
    "p_end (stdoutPipe w') = None" "p_end (stderrPipe w') = None"
    using d by (simp add: new_pipe_def)
  obtain w'' where w'': "w = close_pipes w''"
    "w'' = w' \<or> (\<exists>e. w'' = w'\<lparr>stdoutPipe := pipe_CloseWithError (Some e) (stdoutPipe w'), stderrPipe := pipe_CloseWithError (Some e) (stderrPipe w')\<rparr>)"
    "length (runner_output ws) \<le> n \<longrightarrow> w'' = w'"
    using demux_cut[OF _ _ assms(3) w'(1)] ok(1) assms(2,4) by (auto simp: runner_output_frames NewCommandExecutionStream_def)
  have g: "p_got (stdoutPipe w) = payload {1, 4} (complete n ?fs)" "p_got (stderrPipe w) = payload {2} (complete n ?fs)"
    "p_end (stdoutPipe w) \<noteq> None" "p_end (stderrPipe w) \<noteq> None"
    using w''(1,2) w' by (auto simp: close_pipes_def pipe_CloseWithError_def)
  have all: "p_got (stdoutPipe w) = sent_to {1, 4} ws \<and> p_end (stdoutPipe w) = Some None \<and>
       p_got (stderrPipe w) = sent_to {2} ws \<and> p_end (stderrPipe w) = Some None" if "length (runner_output ws) \<le> n"
    using complete_all[of ?fs n] that w''(1,3) w' ok(2) by (simp add: runner_output_frames close_pipes_def pipe_CloseWithError_def)
  show ?thesis using g all payload_take[of _ k ?fs] unfolding k ok(2) by auto
qed

end
