(* ===== verification/Exec_Shell.thy ===== *)
theory Exec_Shell
  imports Exec_Stream_Props
begin

text \<open>
  The interactive client of \<open>src/exec/exec_shell.go\<close>: the search for the detach key in what the user
  types, raw or in the Win32 input encoding, and the loop that forwards the input.
\<close>

section \<open>Scanning\<close>

text \<open>\<open>bytes.IndexByte\<close>, with \<open>None\<close> for -1.\<close>

fun IndexByte :: "bytes \<Rightarrow> u8 \<Rightarrow> nat option" where
  "IndexByte [] c = None"
| "IndexByte (b # bs) c = (if b = c then Some 0 else map_option Suc (IndexByte bs c))"

text \<open>\<open>bytes.Split\<close> at a separator of one byte: one more field than separators.\<close>

fun Split :: "bytes \<Rightarrow> u8 \<Rightarrow> bytes list" where
  "Split [] c = [[]]"
| "Split (b # bs) c = (if b = c then [] # Split bs c else (b # hd (Split bs c)) # tl (Split bs c))"

text \<open>\<open>strconv.Atoi\<close> on a field that has only digits, as the scan ensures: an error when it is empty or too large.\<close>

definition digit :: "u8 \<Rightarrow> bool" where
  "digit c \<longleftrightarrow> 48 \<le> c \<and> c \<le> 57"

definition Atoi :: "bytes \<Rightarrow> nat option" where
  "Atoi s =
     (let v = fold (\<lambda>c n. n * 10 + (unat c - 48)) s 0 in
      if s = [] \<or> \<not> list_all digit s \<or> 2 ^ 63 \<le> v then None else Some v)"

text \<open>The inner loop: the place of the terminator, \<open>None\<close> when another byte or the limit comes first.\<close>

function find_end :: "bytes \<Rightarrow> nat \<Rightarrow> nat \<Rightarrow> nat option" where
  "find_end buf j limit =
     (if j < limit then
        let c = buf ! j in
        if c = 95 then Some j
        else if c \<noteq> 59 \<and> (c < 48 \<or> c > 57) then None
        else find_end buf (j + 1) limit
      else None)"
  by pat_completeness auto
termination by (relation "measure (\<lambda>(buf, j, limit). limit - j)") auto

declare find_end.simps [simp del]

text \<open>One round of the outer loop: the end of a detach sequence that starts at \<open>i\<close>.\<close>

definition win32_at :: "bytes \<Rightarrow> nat \<Rightarrow> nat option" where
  "win32_at buf i =
     (if buf ! i \<noteq> 27 \<or> buf ! (i + 1) \<noteq> 91 then None
      else
        case find_end buf (i + 2) (min (i + 2 + 64) (length buf)) of
          None \<Rightarrow> None
        | Some j \<Rightarrow>
            let fields = Split (take (j - (i + 2)) (drop (i + 2) buf)) 59 in
            if length fields \<noteq> 6 then None
            else (case (Atoi (fields ! 2), Atoi (fields ! 3)) of
                    (Some uc, Some kd) \<Rightarrow> if uc = 29 \<and> kd = 1 then Some (j + 1) else None
                  | _ \<Rightarrow> None))"

function scan_from :: "bytes \<Rightarrow> nat \<Rightarrow> (nat \<times> nat) option" where
  "scan_from buf i =
     (if i + 2 < length buf then
        (case win32_at buf i of Some e \<Rightarrow> Some (i, e) | None \<Rightarrow> scan_from buf (i + 1))
      else None)"
  by pat_completeness auto
termination by (relation "measure (\<lambda>(buf, i). length buf - i)") auto

declare scan_from.simps [simp del]

definition scanWin32InputDetach :: "bytes \<Rightarrow> (nat \<times> nat) option" where
  "scanWin32InputDetach buf = scan_from buf 0"

definition detachIndex :: "bytes \<Rightarrow> (nat \<times> nat) option" where
  "detachIndex buf =
     (case (IndexByte buf 29, scanWin32InputDetach buf) of
        (None, None) \<Rightarrow> None
      | (None, Some w) \<Rightarrow> Some w
      | (Some raw, None) \<Rightarrow> Some (raw, raw + 1)
      | (Some raw, Some (winStart, winEnd)) \<Rightarrow>
          if raw \<le> winStart then Some (raw, raw + 1) else Some (winStart, winEnd))"

section \<open>The input pump\<close>

text \<open>
  One \<open>Read\<close> of the terminal: the bytes, the error that came with them, and whether
  \<open>swallowLocalReadEOF\<close> calls the error an artefact of the platform. The pump stops with a reason:
  \<open>Detached\<close>, or the error of a write or a read; \<open>Blocked\<close> when the terminal has given nothing more.
\<close>

record term_read =
  tr_data :: bytes
  tr_err :: "wire_error option"
  tr_artefact :: bool

datatype pump_exit = Detached | PumpFailed wire_error | Blocked

definition maxSwallowedReadEOF :: nat where
  "maxSwallowedReadEOF = 64"

text \<open>\<open>close\<close> is \<open>Close\<close> of the stream; like the write just before it, its error is dropped.\<close>

fun pump :: "'s stream_ops \<Rightarrow> ('s \<Rightarrow> 's) \<Rightarrow> nat \<Rightarrow> term_read list \<Rightarrow> 's \<Rightarrow> pump_exit \<times> 's" where
  "pump S close swallowed [] s = (Blocked, s)"
| "pump S close swallowed (r # rs) s =
     (let after = (\<lambda>swallowed s.
            case tr_err r of
              None \<Rightarrow> pump S close swallowed rs s
            | Some e \<Rightarrow>
                if tr_artefact r \<and> swallowed < maxSwallowedReadEOF then pump S close (swallowed + 1) rs s
                else (PumpFailed e, s))
      in
      if length (tr_data r) > 0 then
        (case detachIndex (tr_data r) of
           Some (start, _) \<Rightarrow>
             (Detached, close (if start > 0 then snd (stdinWrapper_Write S (take start (tr_data r)) s) else s))
         | None \<Rightarrow>
             (case stdinWrapper_Write S (tr_data r) s of
                (Inl e, s') \<Rightarrow> (PumpFailed e, s')
              | (Inr _, s') \<Rightarrow> after 0 s'))
      else after swallowed s)"

section \<open>What the scan finds\<close>

lemma IndexByte_None: "IndexByte buf c = None \<longleftrightarrow> c \<notin> set buf"
  by (induction buf) auto

lemma IndexByte_Some: "IndexByte buf c = Some i \<Longrightarrow> i < length buf \<and> buf ! i = c \<and> c \<notin> set (take i buf)"
proof (induction buf arbitrary: i)
  case (Cons b bs)
  then show ?case by (cases i) (auto split: if_splits)
qed simp

lemma find_end_Some: "find_end buf j limit = Some k \<Longrightarrow> j \<le> k \<and> k < limit"
proof (induction buf j limit rule: find_end.induct)
  case (1 buf j limit)
  then show ?case by (auto simp: find_end.simps[of buf j limit] Let_def split: if_splits)
qed

text \<open>A terminator found before the limit is found with any later limit, in any buffer that begins the same.\<close>

lemma find_end_mono:
  "find_end buf j limit = Some k \<Longrightarrow> take limit buf = take limit buf' \<Longrightarrow> limit \<le> length buf \<Longrightarrow> limit \<le> limit' \<Longrightarrow>
   find_end buf' j limit' = Some k"
proof (induction buf j limit rule: find_end.induct)
  case (1 buf j limit)
  have "j < limit" using 1(2) by (auto simp: find_end.simps[of buf j limit] split: if_splits)
  then have "buf ! j = buf' ! j" "j < limit'" using 1(3-5) by (metis nth_take, simp)
  then show ?case using 1 \<open>j < limit\<close>
    by (auto simp: find_end.simps[of buf j limit] find_end.simps[of buf' j limit'] Let_def split: if_splits)
qed

lemma win32_at_end: "win32_at buf i = Some e \<Longrightarrow> i + 2 < e \<and> e \<le> length buf"
  by (auto simp: win32_at_def Let_def dest!: find_end_Some split: if_splits option.splits)

lemma win32_at_mono:
  assumes "win32_at (take s buf) i = Some e" "i + 2 < s" "s \<le> length buf"
  shows "win32_at buf i = Some e"
proof -
  let ?p = "take s buf"
  have n: "buf ! i = ?p ! i" "buf ! (i + 1) = ?p ! (i + 1)" using assms(2,3) by simp_all
  obtain j where j: "find_end ?p (i + 2) (min (i + 2 + 64) (length ?p)) = Some j"
    using assms(1) by (auto simp: win32_at_def split: if_splits option.splits)
  have e: "find_end buf (i + 2) (min (i + 2 + 64) (length buf)) = Some j"
    by (rule find_end_mono[OF j]) (use assms(3) in auto)
  have "j < length ?p" using find_end_Some[OF j] by simp
  then have "j - (i + 2) \<le> s - (i + 2)" using assms(3) by simp
  then have t: "take (j - (i + 2)) (drop (i + 2) ?p) = take (j - (i + 2)) (drop (i + 2) buf)"
    unfolding drop_take take_take by (simp only: min_absorb1)
  show ?thesis using assms(1) unfolding win32_at_def n j e option.case t .
qed

lemma scan_from_Some:
  "scan_from buf i = Some (st, e) \<Longrightarrow> i \<le> st \<and> st + 2 < length buf \<and> win32_at buf st = Some e \<and> (\<forall>k. i \<le> k \<and> k < st \<longrightarrow> win32_at buf k = None)"
proof (induction buf i rule: scan_from.induct)
  case (1 buf i)
  show ?case
  proof (cases "win32_at buf i")
    case None
    then have "scan_from buf (i + 1) = Some (st, e)" "i + 2 < length buf" using 1(2) by (auto simp: scan_from.simps[of buf i] split: if_splits)
    then show ?thesis using 1(1)[OF _ None] None by (metis Suc_eq_plus1 Suc_leD Suc_leI le_neq_implies_less)
  next
    case (Some e')
    then show ?thesis using 1(2) by (auto simp: scan_from.simps[of buf i] split: if_splits)
  qed
qed

lemma scan_from_None: "scan_from buf i = None \<Longrightarrow> i \<le> k \<Longrightarrow> k + 2 < length buf \<Longrightarrow> win32_at buf k = None"
proof (induction buf i rule: scan_from.induct)
  case (1 buf i)
  then have "i + 2 < length buf" by simp
  then have "win32_at buf i = None" "scan_from buf (i + 1) = None" using 1(2) by (auto simp: scan_from.simps[of buf i] split: option.splits)
  then show ?case using 1(1)[OF \<open>i + 2 < length buf\<close> _ _ _ 1(4)] 1(3) by (cases "k = i") simp_all
qed

lemma scan_from_NoneI: "(\<And>k. i \<le> k \<Longrightarrow> k + 2 < length buf \<Longrightarrow> win32_at buf k = None) \<Longrightarrow> scan_from buf i = None"
proof (rule ccontr)
  assume a: "\<And>k. i \<le> k \<Longrightarrow> k + 2 < length buf \<Longrightarrow> win32_at buf k = None" and n: "scan_from buf i \<noteq> None"
  then obtain st e where "scan_from buf i = Some (st, e)" by auto
  from scan_from_Some[OF this] a show False by fastforce
qed

text \<open>Nothing before the trigger is a trigger.\<close>

lemma prefix_no_trigger:
  assumes "IndexByte (take s buf) 29 = None" "\<forall>k < s. k + 2 < length buf \<longrightarrow> win32_at buf k = None" "s \<le> length buf"
  shows "detachIndex (take s buf) = None"
proof -
  have "scan_from (take s buf) 0 = None"
  proof (rule scan_from_NoneI)
    fix k assume k: "0 \<le> k" "k + 2 < length (take s buf)"
    show "win32_at (take s buf) k = None"
    proof (cases "win32_at (take s buf) k")
      case (Some e)
      have "win32_at buf k = Some e" by (rule win32_at_mono[OF Some]) (use k assms(3) in auto)
      then show ?thesis using assms(2) k by auto
    qed
  qed
  then show ?thesis using assms(1) by (simp add: detachIndex_def scanWin32InputDetach_def)
qed

lemma detachIndex_Some:
  assumes "detachIndex buf = Some (st, e)"
  shows "st < e \<and> e \<le> length buf \<and> detachIndex (take st buf) = None \<and>
    (buf ! st = 29 \<and> e = st + 1 \<or> win32_at buf st = Some e)"
proof -
  have raw: "?thesis" if r: "IndexByte buf 29 = Some st" "e = st + 1" and w: "\<forall>k < st. k + 2 < length buf \<longrightarrow> win32_at buf k = None"
  proof -
    note i = IndexByte_Some[OF r(1)]
    have "detachIndex (take st buf) = None" by (rule prefix_no_trigger) (use i w in \<open>auto simp: IndexByte_None\<close>)
    then show ?thesis using i r(2) by auto
  qed
  have win: "?thesis" if w: "scan_from buf 0 = Some (st, e)" and r: "IndexByte (take st buf) 29 = None"
  proof -
    note s = scan_from_Some[OF w]
    have "detachIndex (take st buf) = None" by (rule prefix_no_trigger[OF r]) (use s in auto)
    moreover have "st < e" "e \<le> length buf" using win32_at_end s by (auto dest: win32_at_end)
    ultimately show ?thesis using s by simp
  qed
  show ?thesis
  proof (cases "IndexByte buf 29")
    case None
    then have "scan_from buf 0 = Some (st, e)" using assms by (auto simp: detachIndex_def scanWin32InputDetach_def split: option.splits)
    then show ?thesis using win None by (auto simp: IndexByte_None dest: in_set_takeD)
  next
    case (Some i)
    show ?thesis
    proof (cases "scan_from buf 0")
      case None
      then have "i = st" "e = st + 1" using assms Some by (auto simp: detachIndex_def scanWin32InputDetach_def)
      then show ?thesis using raw Some scan_from_None[OF None] by auto
    next
      case (Some p)
      obtain ws we where p: "p = (ws, we)" by fastforce
      note s = scan_from_Some[OF Some[unfolded p]]
      show ?thesis
      proof (cases "i \<le> ws")
        case True
        then have "i = st" "e = st + 1" using assms Some \<open>IndexByte buf 29 = Some i\<close> p by (auto simp: detachIndex_def scanWin32InputDetach_def)
        then show ?thesis using raw \<open>IndexByte buf 29 = Some i\<close> s True by auto
      next
        case False
        then have "ws = st" "we = e" using assms Some \<open>IndexByte buf 29 = Some i\<close> p by (auto simp: detachIndex_def scanWin32InputDetach_def)
        moreover have "29 \<notin> set (take ws buf)" using IndexByte_Some[OF \<open>IndexByte buf 29 = Some i\<close>] False
          by (metis in_set_takeD min.strict_order_iff nat_le_linear take_take min_def not_le)
        ultimately show ?thesis using win Some p by (auto simp: IndexByte_None)
      qed
    qed
  qed
qed

section \<open>What the pump sends\<close>

text \<open>The frames for the chunks that are sent as a whole.\<close>

definition input_bytes :: "bytes list \<Rightarrow> bytes" where
  "input_bytes cs = concat (map (\<lambda>c. Frame_wire (data_frame FrameType_Stdin c)) cs)"

lemma input_bytes_simps [simp]: "input_bytes [] = []" "input_bytes (c # cs) = Frame_wire (data_frame FrameType_Stdin c) @ input_bytes cs"
  by (simp_all add: input_bytes_def)

text \<open>The chunks that were typed before the reading that holds the trigger, and the typed part of that reading.\<close>

fun before_detach :: "term_read list \<Rightarrow> bytes list" where
  "before_detach [] = []"
| "before_detach (r # rs) =
     (case detachIndex (tr_data r) of
        Some (st, _) \<Rightarrow> (if st > 0 then [take st (tr_data r)] else [])
      | None \<Rightarrow> (if tr_data r = [] then [] else [tr_data r]) @ before_detach rs)"

lemma detachIndex_Nil [simp]: "detachIndex [] = None"
  by (simp add: detachIndex_def scanWin32InputDetach_def scan_from.simps)

lemma before_detach_clean: "c \<in> set (before_detach rs) \<Longrightarrow> c \<noteq> [] \<and> detachIndex c = None"
proof (induction rs)
  case (Cons r rs)
  show ?case
  proof (cases "detachIndex (tr_data r)")
    case None
    then show ?thesis using Cons by (auto split: if_splits)
  next
    case (Some p)
    obtain st e where p: "p = (st, e)" by fastforce
    show ?thesis using detachIndex_Some[OF Some[unfolded p]] Cons.prems Some p by (auto split: if_splits)
  qed
qed simp

lemma detachIndex_None_clean: "detachIndex c = None \<Longrightarrow> 29 \<notin> set c"
  by (auto simp: detachIndex_def IndexByte_None[symmetric] split: option.splits if_splits)

context byte_stream
begin

lemma stdin_write_cases:
  obtains s' where "stdinWrapper_Write S d s = (Inr (length d), s')" "sent s' = sent s @ Frame_wire (data_frame FrameType_Stdin d)"
  | e s' where "stdinWrapper_Write S d s = (Inl e, s')" "sent s' = sent s"
proof (cases "st_AppendData S False [header_bytes FrameType_Stdin (of_nat (length d)), d] s")
  case (Pair r s')
  then show ?thesis using that
    by (cases r) (auto simp: stdinWrapper_Write_def io_bind_def io_return_def data_frame_wire dest: append_data append_err)
qed

text \<open>
  When closing adds nothing to what is sent, the pump sends the chunks before the trigger, in order, and no more;
  a write that fails ends it, or is the last one of all.
\<close>

lemma pump_sends:
  assumes cl: "\<And>s. sent (close s) = sent s" and "pump S close k rs s = (x, s')"
  shows "\<exists>m. sent s' = sent s @ input_bytes (take m (before_detach rs)) \<and>
    (x = Blocked \<longrightarrow> length (before_detach rs) \<le> m) \<and>
    (x = Detached \<longrightarrow> length (before_detach rs) \<le> m + 1 \<and> (\<exists>r \<in> set rs. detachIndex (tr_data r) \<noteq> None))"
  using assms(2)
proof (induction rs arbitrary: k s)
  case Nil
  then show ?case by simp
next
  case (Cons r rs)
  show ?case
  proof (cases "detachIndex (tr_data r)")
    case (Some p)
    obtain st e where p: "p = (st, e)" by fastforce
    have ne: "tr_data r \<noteq> []" using Some by auto
    then have x: "x = Detached" "s' = close (if st > 0 then snd (stdinWrapper_Write S (take st (tr_data r)) s) else s)"
      using Cons.prems Some p by simp_all
    have "\<exists>m \<le> 1. sent s' = sent s @ input_bytes (take m (before_detach (r # rs)))"
    proof (cases "st > 0")
      case True
      show ?thesis
        by (rule stdin_write_cases[of "take st (tr_data r)" s])
          (use True x(2) cl Some p in \<open>auto intro: exI[of _ 1] exI[of _ 0]\<close>)
    qed (use x(2) cl Some p in auto)
    then obtain m where "m \<le> 1" "sent s' = sent s @ input_bytes (take m (before_detach (r # rs)))" by blast
    then show ?thesis using x(1) Some p by (intro exI[of _ m]) auto
  next
    case None
    define c where "c = (if tr_data r = [] then [] else [tr_data r])"
    have b: "before_detach (r # rs) = c @ before_detach rs" using None by (simp add: c_def)
    have "(\<exists>k' s1. sent s1 = sent s @ input_bytes c \<and> (pump S close k' rs s1 = (x, s') \<or> (\<exists>e. x = PumpFailed e \<and> s' = s1)))
      \<or> (\<exists>e. x = PumpFailed e \<and> sent s' = sent s)"
    proof (cases "tr_data r = []")
      case True
      then show ?thesis using Cons.prems by (auto simp: c_def Let_def split: option.splits if_splits)
    next
      case False
      show ?thesis
        by (rule stdin_write_cases[of "tr_data r" s])
          (use False None Cons.prems in \<open>auto simp: c_def Let_def split: option.splits if_splits\<close>)
    qed
    then show ?thesis
    proof (elim disjE exE conjE)
      fix k' s1 assume s1: "sent s1 = sent s @ input_bytes c" and "pump S close k' rs s1 = (x, s')"
      from Cons.IH[OF this(2)] obtain m where m: "sent s' = sent s1 @ input_bytes (take m (before_detach rs))"
        "x = Blocked \<longrightarrow> length (before_detach rs) \<le> m"
        "x = Detached \<longrightarrow> length (before_detach rs) \<le> m + 1 \<and> (\<exists>r \<in> set rs. detachIndex (tr_data r) \<noteq> None)" by blast
      then show ?thesis unfolding b by (intro exI[of _ "length c + m"]) (auto simp: s1 input_bytes_def)
    next
      fix s1 e assume "sent s1 = sent s @ input_bytes c" "x = PumpFailed e" "s' = s1"
      then show ?thesis unfolding b by (intro exI[of _ "length c"]) simp
    next
      fix e assume "x = PumpFailed e" "sent s' = sent s"
      then show ?thesis by (intro exI[of _ 0]) simp
    qed
  qed
qed

end

end
