(* ===== verification/Delivery.thy ===== *)
theory Delivery
  imports Conn_Props Conn_Wire
begin

text \<open>
  One stream from end to end: a run of the sending stream (theory \<open>Send_Stream\<close>), its ranges encoded
  by the connection (theory \<open>Conn_Wire\<close>), a network that loses, repeats and reorders packets, and the
  peer's connection, which hands the packets to the receiving stream an application reads from.
\<close>

section \<open>The end mark of the sender\<close>

text \<open>Unless the peer cancelled, the end mark goes out only behind the last byte written.\<close>

definition end_ok :: "sendStream \<Rightarrow> bool" where
  "end_ok r \<longleftrightarrow> (eofSent r \<and> \<not> cancelRequested r \<longrightarrow> concat (inputBuffer r) = [] \<and> signalEOF r)"

lemma read_chunk_loop_all: "read_chunk_loop n xs buf = (b, rest, True) \<Longrightarrow> rest = []"
  by (induction n xs buf rule: read_chunk_loop.induct) (auto simp: Let_def split: if_splits)

lemma next_chunk_end:
  assumes "next_chunk n r = ((data, eof), r')" and "\<not> eofSent r"
  shows "eofSent r' = eofSent r" "cancelRequested r' = cancelRequested r" "signalEOF r' = signalEOF r"
    and "eof \<Longrightarrow> \<not> cancelRequested r \<Longrightarrow> inputBuffer r' = [] \<and> signalEOF r"
  using assms
  by (auto simp: next_chunk_def readChunk_def Let_def split: if_splits prod.splits dest: read_chunk_loop_all)

lemma emit_range_end:
  assumes "emit_range data eof (r, t) = (sr, r', t')"
  shows "eofSent r' = (eof \<or> eofSent r)" "cancelRequested r' = cancelRequested r" "signalEOF r' = signalEOF r"
    "inputBuffer r' = inputBuffer r"
  using assms
  by (auto simp: emit_range_def requeueIfMore_def signalWriter_def Let_def split: if_splits prod.splits)

lemma trigger_new_end:
  assumes "end_ok r" and "trigger_new mp (r, t) = (x, r', t')"
  shows "end_ok r'"
proof (cases "eofSent r \<or> mp \<le> StreamPacketHeaderSize (ss_id r) (offset r) mp")
  case True
  with assms show ?thesis by (auto simp: trigger_new_def Let_def split: if_splits)
next
  case False
  let ?n = "mp - StreamPacketHeaderSize (ss_id r) (offset r) mp"
  obtain data eof r1 where c: "next_chunk ?n r = ((data, eof), r1)" by (metis prod.collapse)
  note e = next_chunk_end [OF c]
  show ?thesis
  proof (cases "data = [] \<and> \<not> eof \<and> \<not> pendingOpen r1")
    case True
    with assms False c e show ?thesis by (auto simp: trigger_new_def end_ok_def Let_def)
  next
    case ne: False
    define r2 where "r2 = (if data = [] \<and> \<not> eof then r1\<lparr>pendingOpen := False\<rparr> else r1)"
    obtain sr where er: "emit_range data eof (r2, t) = (sr, r', t')"
      using assms(2) False c ne by (auto simp: trigger_new_def r2_def Let_def split: prod.splits)
    have "eofSent r2 = eofSent r1" "cancelRequested r2 = cancelRequested r1" "signalEOF r2 = signalEOF r1"
      "inputBuffer r2 = inputBuffer r1" by (simp_all add: r2_def)
    with emit_range_end [OF er] e False show ?thesis by (auto simp: end_ok_def)
  qed
qed

lemma end_ok_same:
  "end_ok r \<Longrightarrow> eofSent r' = eofSent r \<Longrightarrow> (cancelRequested r \<longrightarrow> cancelRequested r') \<Longrightarrow>
     (signalEOF r \<longrightarrow> signalEOF r') \<Longrightarrow> inputBuffer r' = inputBuffer r \<Longrightarrow> end_ok r'"
  by (auto simp: end_ok_def)

lemma triggerPacket_end:
  assumes "end_ok r" and "triggerPacket mp (r, t) = (x, r', t')"
  shows "end_ok r'"
proof -
  obtain popped q where pq: "Pop (retransmitQueue r) = (popped, q)" by (metis prod.collapse)
  show ?thesis
  proof (cases popped)
    case None
    then have "trigger_new mp (r\<lparr>retransmitQueue := q\<rparr>, t) = (x, r', t')"
      using assms(2) pq by (simp add: triggerPacket_def)
    moreover have "end_ok (r\<lparr>retransmitQueue := q\<rparr>)" by (rule end_ok_same [OF assms(1)]) simp_all
    ultimately show ?thesis using trigger_new_end by blast
  next
    case (Some p)
    have e: "end_ok (r\<lparr>retransmitQueue := u\<rparr>)" for u by (rule end_ok_same [OF assms(1)]) simp_all
    from assms(2) Some pq show ?thesis
      by (auto simp: triggerPacket_def splitSentRange_def requeueIfMore_def Let_def split: if_splits
          dest: trigger_new_end [OF e] intro: end_ok_same [OF assms(1)])
  qed
qed

lemma end_ok_step: "send_step s s' \<Longrightarrow> end_ok (stream s) \<Longrightarrow> end_ok (stream s')"
proof (induction rule: send_step.induct)
  case (append eof data s r t)
  then show ?case
    by (auto simp: AppendDataContext_def end_ok_def Let_def split: if_splits)
next
  case (packet mp s sr r t)
  then show ?case using triggerPacket_end by simp
next
  case (idle mp s r t)
  then show ?case using triggerPacket_end by simp
qed (auto simp: ss_Close_def signalWriter_def onCancel_def updateFlowWindow_def onACK_def onLost_def Let_def
    split: prod.splits list.splits if_splits elim!: end_ok_same)

lemma end_ok_reachable: "send_reachable i w s \<Longrightarrow> end_ok (stream s)"
proof (induction rule: send_reachable.induct)
  case (init b t)
  show ?case by (simp add: end_ok_def newSendStream_def)
qed (rule end_ok_step)

lemma all_sent:
  assumes "send_reachable i w s" and "0 \<le> w" and "eofSent (stream s)" and "\<not> cancelRequested (stream s)"
  shows "unat (offset (stream s)) = length (written s)"
proof -
  have "send_inv (written s) (stream s)" using run_ok_reachable [OF assms(2,1)] by (simp add: run_ok_def)
  then have "concat (inputBuffer (stream s)) = drop (unat (offset (stream s))) (written s)"
    and "unat (offset (stream s)) \<le> length (written s)" by (simp_all add: send_inv_def)
  moreover have "concat (inputBuffer (stream s)) = []"
    using end_ok_reachable [OF assms(1)] assms(3,4) unfolding end_ok_def by blast
  ultimately show ?thesis by simp
qed


section \<open>The peer\<close>

text \<open>
  What happens to the stream at address \<open>q\<close> of the peer: a message comes in from the network and is
  handled, or the application reads. The outputs are what the reads returned; a read that would wait
  returns nothing.
\<close>

datatype peer_op = Arrive time time Message | AppRead u64

fun peer_run :: "ref \<Rightarrow> peer_op list \<Rightarrow> Streams \<Rightarrow> (bytes \<times> bool) list \<times> Streams" where
  "peer_run q [] s = ([], s)"
| "peer_run q (Arrive t0 now m # ops) s =
     (case handlePacket t0 now m s of None \<Rightarrow> ([], s) | Some s' \<Rightarrow> peer_run q ops s')"
| "peer_run q (AppRead n # ops) s =
     (case recvObjs s q of
        None \<Rightarrow> ([], s)
      | Some r \<Rightarrow>
          let (out, r', t) = ReadDirectContext n (r, updateWindow s);
              (outs, s') = peer_run q ops (s\<lparr>recvObjs := (recvObjs s)(q \<mapsto> r'), updateWindow := t\<rparr>) in
          (case out of ReadOk x \<Rightarrow> x # outs | ReadCanceled \<Rightarrow> outs | ReadWait \<Rightarrow> outs, s'))"

definition arrivals_of :: "StreamID \<Rightarrow> SentRange list \<Rightarrow> peer_op list \<Rightarrow> bool" where
  "arrivals_of i srs ops \<longleftrightarrow>
     (\<forall>op \<in> set ops. case op of Arrive t0 now m \<Rightarrow> (\<exists>sr \<in> set srs. encode_stream i sr = Some (m_Data m)) | AppRead n \<Rightarrow> True)"

lemma ProcessChunk_oq:
  assumes "oq_ok str (oq r)" and "frame_of str \<lparr>Offset = off, Data = d, Eof = e\<rparr>"
  defines "r1 \<equiv> (case ProcessChunk off d e r of Inl x \<Rightarrow> r | Inr (b, r') \<Rightarrow> r')"
  shows "oq_ok str (oq r1)" and "nextOffset (oq r1) = nextOffset (oq r)"
  using assms(1) oq_ok_Push [OF assms(1,2)] nextOffset_Push
  by (auto simp: r1_def ProcessChunk_def split: sum.splits)

lemma ReadDirectContext_oq:
  assumes "ReadDirectContext n (r, t) = (out, r', t')"
  obtains bs eof where "ReadDirect n (oq r) = ((bs, eof), oq r')"
    "out = ReadOk (bs, eof) \<or> bs = [] \<and> \<not> eof \<and> (out = ReadCanceled \<or> out = ReadWait)"
proof -
  obtain bs eof q where rd: "ReadDirect n (oq r) = ((bs, eof), q)" by (metis prod.collapse)
  have "oq r' = q \<and> (out = ReadOk (bs, eof) \<or> bs = [] \<and> \<not> eof \<and> (out = ReadCanceled \<or> out = ReadWait))"
    using assms by (auto simp: ReadDirectContext_def rd grow_window_def Let_def split: if_splits)
  with rd that show ?thesis by blast
qed

lemma handle_frame:
  assumes "encode_stream i sr = Some (m_Data m)" and "recvStreams s i = Some q" and "recvObjs s q = Some r"
    and "oq_ok str (oq r)" and "frame_of str (as_frame sr)"
  obtains s' r' where "handlePacket t0 now m s = Some s'" "recvStreams s' i = Some q" "recvObjs s' q = Some r'"
    "oq_ok str (oq r')" "nextOffset (oq r') = nextOffset (oq r)"
proof -
  let ?s = "s\<lparr>mtuTracker := OnPeerActivity t0 (mtuTracker s)\<rparr>"
  let ?s' = "handle_stream_data now (m_PacketNumber m) (stream_packet i sr) ?s"
  have le: "i \<le> max62" "sr_Offset sr \<le> max62" using assms(1) by (auto simp: encode_stream_eq split: if_splits)
  have k: "recvStreams ?s i = Some q" "recvObjs ?s q = Some r" using assms(2,3) by simp_all
  note f = ProcessChunk_oq [OF assms(4,5) [unfolded as_frame_def]]
  have h: "handlePacket t0 now m s = Some ?s'" using handle_stream_frame [OF assms(1), of t0 now "m_PacketNumber m" s]
    by (cases m) simp
  moreover have "recvStreams ?s' i = Some q"
    using assms(2) stream_packet_fields [OF le]
    by (simp add: handle_stream_data_def getRecvStream_def on_recv_def scheduleRecvStreamRemoval_def Let_def
        split: option.splits prod.splits)
  moreover from handle_known_stream(1) [OF le k, of now "m_PacketNumber m"] obtain r' where "recvObjs ?s' q = Some r'"
    "oq r' = oq (case ProcessChunk (sr_Offset sr) (sr_Data sr) (sr_Eof sr) r of Inl e \<Rightarrow> r | Inr (b, r') \<Rightarrow> r')" by auto
  ultimately show ?thesis using that f by simp
qed

lemma peer_run_ok:
  assumes "\<forall>sr \<in> set srs. frame_of str (as_frame sr)"
  shows "arrivals_of i srs ops \<Longrightarrow> recvStreams s i = Some q \<Longrightarrow> recvObjs s q = Some r \<Longrightarrow> oq_ok str (oq r) \<Longrightarrow>
    peer_run q ops s = (outs, s') \<Longrightarrow>
    concat (map fst outs) = take (length (concat (map fst outs))) (drop (unat (nextOffset (oq r))) str) \<and>
    (list_ex snd outs \<longrightarrow> unat (nextOffset (oq r)) + length (concat (map fst outs)) = length str) \<and>
    unat (nextOffset (oq r)) + length (concat (map fst outs)) \<le> length str"
proof (induction q ops s arbitrary: r outs rule: peer_run.induct)
  case (1 q s)
  then show ?case by (auto simp: oq_ok_def)
next
  case (2 q t0 now m ops s)
  from "2.prems"(1) obtain sr where sr: "sr \<in> set srs" "encode_stream i sr = Some (m_Data m)" and ar: "arrivals_of i srs ops"
    by (auto simp: arrivals_of_def)
  from sr(1) assms have "frame_of str (as_frame sr)" by blast
  from handle_frame [OF sr(2) "2.prems"(2-4) this] obtain s1 r1 where
    h: "handlePacket t0 now m s = Some s1" "recvStreams s1 i = Some q" "recvObjs s1 q = Some r1" "oq_ok str (oq r1)"
    "nextOffset (oq r1) = nextOffset (oq r)" by blast
  from "2.IH" [OF h(1) ar h(2-4)] "2.prems"(5) h(1,5) show ?case by simp
next
  case (3 q n ops s)
  obtain out r' t where rd: "ReadDirectContext n (r, updateWindow s) = (out, r', t)" by (metis prod.collapse)
  let ?s1 = "s\<lparr>recvObjs := (recvObjs s)(q \<mapsto> r'), updateWindow := t\<rparr>"
  obtain outs1 where run: "peer_run q ops ?s1 = (outs1, s')"
    and o: "outs = (case out of ReadOk x \<Rightarrow> x # outs1 | ReadCanceled \<Rightarrow> outs1 | ReadWait \<Rightarrow> outs1)"
    using "3.prems"(3,5) rd by (auto split: prod.splits)
  from ReadDirectContext_oq [OF rd] obtain bs eof where
    d: "ReadDirect n (oq r) = ((bs, eof), oq r')"
    "out = ReadOk (bs, eof) \<or> bs = [] \<and> \<not> eof \<and> (out = ReadCanceled \<or> out = ReadWait)" by blast
  note k = oq_ok_ReadDirect [OF "3.prems"(4) d(1)]
  have ar: "arrivals_of i srs ops" using "3.prems"(1) by (simp add: arrivals_of_def)
  have st: "recvStreams ?s1 i = Some q" "recvObjs ?s1 q = Some r'" using "3.prems"(2) by simp_all
  let ?m = "unat (nextOffset (oq r))"
  define c where "c = concat (map fst outs1)"
  have ih: "c = take (length c) (drop (unat (nextOffset (oq r'))) str)"
    "list_ex snd outs1 \<longrightarrow> unat (nextOffset (oq r')) + length c = length str"
    "unat (nextOffset (oq r')) + length c \<le> length str"
    using "3.IH" [OF "3.prems"(3) rd [symmetric] refl refl ar st k(1) run] unfolding c_def by blast+
  have cc: "concat (map fst outs) = bs @ c" and l: "list_ex snd outs \<longleftrightarrow> eof \<or> list_ex snd outs1"
    using o d(2) by (auto simp: c_def)
  have "bs @ c = take (length bs + length c) (drop ?m str)"
    using take_drop_step [of "length bs" ?m str "length c"] k(2) ih(1) unfolding k(3) by simp
  moreover have "eof \<longrightarrow> length c = 0" using k(3,5) ih(3) by auto
  ultimately show ?case unfolding cc l using k(3,5) ih(2,3) by auto
qed


lemma prefix_of_take:
  assumes "x = take (length x) (take n xs)"
  shows "x = take (length x) xs"
proof -
  have "length x = min (length x) (min (length xs) n)" using arg_cong [OF assms, of length] by simp
  then have "min (length x) n = length x" by linarith
  with assms show ?thesis by (metis take_take)
qed

text \<open>
  From end to end: the reader of the peer gets an initial piece of what was written, and everything when
  it reads the end of the stream and has not cancelled.
\<close>

lemma stream_delivers:
  assumes "send_reachable i w st" and "0 \<le> w" and "arrivals_of i (emitted st) ops"
    and "recvStreams s i = Some q" and "recvObjs s q = Some (newReceiveStream q i win)"
    and "peer_run q ops s = (outs, s')"
  shows "concat (map fst outs) = take (length (concat (map fst outs))) (written st) \<and>
    (list_ex snd outs \<longrightarrow> eofSent (stream st) \<and> (cancelRequested (stream st) \<or> concat (map fst outs) = written st))"
proof -
  let ?W = "written st" and ?n = "unat (offset (stream st))" and ?c = "concat (map fst outs)"
  have ok: "send_inv ?W (stream st)" "\<forall>sr \<in> set (emitted st). range_ok ?W (stream st) sr"
    using run_ok_reachable [OF assms(2,1)] by (simp_all add: run_ok_def)
  have n: "?n \<le> length ?W" "length ?W < 2 ^ 63" using ok(1) by (simp_all add: send_inv_def)
  have oq0: "oq (newReceiveStream q i win) = NewOrderingQueue" "nextOffset NewOrderingQueue = 0"
    by (simp_all add: newReceiveStream_def NewOrderingQueue_def)
  have pr: "?c = take (length ?c) str" "list_ex snd outs \<longrightarrow> length ?c = length str"
    if "\<forall>sr \<in> set (emitted st). frame_of str (as_frame sr)" "length str < 2 ^ 64" for str
    using peer_run_ok [OF that(1) assms(3,4,5) _ assms(6)] oq_ok_init [OF that(2)] unfolding oq0 by simp_all
  have fr: "\<forall>sr \<in> set (emitted st). frame_of (take ?n ?W) (as_frame sr)"
    using ok(2) n(1) by (blast intro: range_ok_frame)
  note p = pr [OF fr]
  have c: "?c = take (length ?c) (take ?n ?W)" using p(1) n(2) by simp
  have e: "eofSent (stream st)" if ex: "list_ex snd outs"
  proof (rule ccontr)
    assume ne: "\<not> eofSent (stream st)"
    have "\<forall>sr \<in> set (emitted st). frame_of (take ?n ?W @ [0]) (as_frame sr)"
    proof
      fix sr assume sr: "sr \<in> set (emitted st)"
      with ok(2) ne have "\<not> sr_Eof sr" by (auto simp: range_ok_def)
      with fr sr show "frame_of (take ?n ?W @ [0]) (as_frame sr)" by (auto simp: frame_of_def as_frame_def)
    qed
    from pr(2) [OF this] p(2) ex n show False by simp
  qed
  have "?c = ?W" if "list_ex snd outs" "\<not> cancelRequested (stream st)"
    using all_sent [OF assms(1,2) e [OF that(1)] that(2)] p(2) that(1) c n by simp
  moreover have "?c = take (length ?c) ?W" by (rule prefix_of_take [OF c])
  ultimately show ?thesis using e by blast
qed

text \<open>The peer of the examples, and a run that delivers seven bytes to it in one packet.\<close>

definition samplePeer :: Streams where
  "samplePeer = snd (CreateBidirectionalStream (NewStreams False 1200 1452 7))"

lemma samplePeer_stream:
  "recvStreams samplePeer 1 = Some 1" "recvObjs samplePeer 1 = Some (newReceiveStream 1 1 InitialFlowWindow)"
  by (simp_all add: samplePeer_def CreateBidirectionalStream_def NewStreams_def IDIssuer_Next_def NewIDIssuer_def
      ClientBidirectionalStart_def Let_def)

lemma sample_sender:
  assumes d: "d = [x1, x2, x3, x4, x5, x6, x7]"
  defines "sr \<equiv> \<lparr>sr_ref = 0, sr_ID = 1, sr_Offset = 0, sr_Data = d, sr_SentSize = 7, sr_Eof = True\<rparr>"
  shows "\<exists>st. send_reachable 1 10 st \<and> written st = d \<and> emitted st = [sr] \<and> \<not> cancelRequested (stream st)"
proof -
  let ?r0 = "(newSendStream 0 1 (newFlowController 10))\<lparr>pendingOpen := False\<rparr>"
  let ?s0 = "\<lparr>written = [], emitted = [], stream = ?r0, trig = newWithTriggerQueue\<rparr>"
  obtain r1 t1 where a: "AppendDataContext True [d] (?r0, newWithTriggerQueue) = (AppendOk, r1, t1)"
    and r1: "r1 = ?r0\<lparr>inputBuffer := [d], dataInBuffer := 7, signalEOF := True\<rparr>"
    by (simp add: d AppendDataContext_def newSendStream_def)
  let ?s1 = "?s0\<lparr>written := [] @ concat [d], stream := r1, trig := t1\<rparr>"
  obtain r2 t2 where p: "triggerPacket 100 (r1, t1) = (Some sr, r2, t2)" and nc: "\<not> cancelRequested r2"
    by (simp add: r1 d sr_def triggerPacket_def Pop_def newSendStream_def newWithTriggerQueue_def trigger_new_def
        StreamPacketHeaderSize_def payloadOverhead_def VarintLen_def next_chunk_def SendableSize_def signalWriter_def
        newFlowController_def readChunk_def emit_range_def requeueIfMore_def RecordSend_def Let_def)
  let ?s2 = "?s1\<lparr>emitted := [] @ [sr], stream := r2, trig := t2\<rparr>"
  have "send_reachable 1 10 ?s0" by (rule send_reachable.init)
  moreover have "send_step ?s0 ?s1" using send_step.append [of True "[d]" ?s0 r1 t1] a by (simp add: d)
  moreover have "send_step ?s1 ?s2" using send_step.packet [of 100 ?s1 sr r2 t2] p by simp
  ultimately have "send_reachable 1 10 ?s2" by (blast intro: send_reachable.step)
  then show ?thesis using nc by (intro exI [of _ ?s2]) simp
qed

lemma sample_delivery:
  assumes d: "d = [x1, x2, x3, x4, x5, x6, x7]"
  shows "\<exists>st b s'. send_reachable 1 10 st \<and> written st = d \<and> \<not> cancelRequested (stream st) \<and>
    arrivals_of 1 (emitted st) [Arrive 5 6 \<lparr>m_PacketNumber = 9, m_Data = b\<rparr>, AppRead 10] \<and>
    peer_run 1 [Arrive 5 6 \<lparr>m_PacketNumber = 9, m_Data = b\<rparr>, AppRead 10] samplePeer = ([(d, True)], s')"
proof -
  let ?sr = "\<lparr>sr_ref = 0, sr_ID = 1, sr_Offset = 0, sr_Data = d, sr_SentSize = 7, sr_Eof = True\<rparr>"
  obtain st where st: "send_reachable 1 10 st" "written st = d" "emitted st = [?sr]" "\<not> cancelRequested (stream st)"
    using sample_sender [OF d] by blast
  obtain b where b: "encode_stream 1 ?sr = Some b" by (simp add: encode_stream_eq)
  let ?ops = "[Arrive 5 6 \<lparr>m_PacketNumber = 9, m_Data = b\<rparr>, AppRead 10]"
  have ar: "arrivals_of 1 (emitted st) ?ops" using b st(3) by (simp add: arrivals_of_def)
  let ?p = "samplePeer\<lparr>mtuTracker := OnPeerActivity 5 (mtuTracker samplePeer)\<rparr>"
  have "recvStreams ?p 1 = Some 1" "recvObjs ?p 1 = Some (newReceiveStream 1 1 InitialFlowWindow)"
    using samplePeer_stream by simp_all
  from handle_known_stream(1) [OF _ _ this, of ?sr 6 9] obtain r' where
    "recvObjs (handle_stream_data 6 9 (stream_packet 1 ?sr) ?p) 1 = Some r'"
    "oq r' = \<lparr>notify = True, queue = [\<lparr>Offset = 0, Data = d, Eof = True\<rparr>], nextOffset = 0, eofReached = False\<rparr>"
    by (auto simp: ProcessChunk_def Push_def EOF_def newReceiveStream_def NewOrderingQueue_def maybeNotify_def Notify_def)
  then obtain s' where "peer_run 1 ?ops samplePeer = ([(d, True)], s')"
    by (auto simp: d handle_stream_frame [OF b] ReadDirectContext_def ReadDirect_def grow_window_def Let_def split: prod.splits)
  then show ?thesis using st ar by blast
qed

end
