(* ===== verification/Exec_Trsf.thy ===== *)
theory Exec_Trsf
  imports Exec_Shell Delivery
begin

text \<open>
  The execution streams on top of the streams of \<open>src/trsf\<close>: \<open>AppendData\<close> of a send stream is the
  \<open>byte_stream\<close> that the framing relies on, and the properties of a remote command.
\<close>

section \<open>The stream\<close>

text \<open>Errors of \<open>AppendData\<close>: the stream is closed, or the call has to wait.\<close>

definition trsf_stream :: "send_state stream_ops" where
  "trsf_stream = \<lparr>st_AppendData = (\<lambda>eof ds s.
     case AppendDataContext eof ds s of
       (AppendOk, s') \<Rightarrow> (Inr (), s')
     | (AppendClosed, s') \<Rightarrow> (Inl (IoFault 2), s')
     | (AppendWait, s') \<Rightarrow> (Inl (IoFault 3), s'))\<rparr>"

definition unsent :: "send_state \<Rightarrow> bytes" where
  "unsent s = concat (inputBuffer (fst s))"

interpretation trsf: byte_stream trsf_stream unsent
proof
  fix eof ds s s' assume "st_AppendData trsf_stream eof ds s = (Inr (), s')"
  then have "AppendDataContext eof ds s = (AppendOk, s')"
    by (auto simp: trsf_stream_def split: prod.splits append_outcome.splits)
  then show "unsent s' = unsent s @ concat ds"
    by (auto simp: AppendDataContext_def unsent_def Let_def split: prod.splits if_splits)
next
  fix eof ds s e s' assume "st_AppendData trsf_stream eof ds s = (Inl e, s')"
  then have "fst (AppendDataContext eof ds s) \<noteq> AppendOk \<and> snd (AppendDataContext eof ds s) = s'"
    by (auto simp: trsf_stream_def split: prod.splits append_outcome.splits)
  then show "unsent s' = unsent s"
    by (auto simp: AppendDataContext_def unsent_def Let_def split: prod.splits if_splits)
qed

lemma unsent_Close: "unsent (ss_Close s) = unsent s"
  by (cases s) (simp add: unsent_def ss_Close_def signalWriter_def)

text \<open>A runner for the examples, and the facts that evaluate a session of a client.\<close>

definition sampleRunner :: runner where
  "sampleRunner = \<lparr>StdinDevNull = False, ro_Audit = False, hasPty = True, hasProcess = True, pipeIn = new_pipe None,
     warnedDroppedStdin = False, audited = [], signalled = [], resized = []\<rparr>"

lemmas session_simps = io_seq.simps io_bind_def io_return_def stdinWrapper_Write_def stdinWrapper_Close_def SendSignal_def
  trsf_stream_def AppendDataContext_def newSendStream_def Let_def control_bytes_def Control_MustAppend_def must_def
  Control_SetSignal_def Control_Append_def Signal_Append_def

section \<open>Properties\<close>



text \<open>
  C22: what a client does reaches the runner. Let a client write to the standard input of the command,
  close it, send signals and set the window size, in any order, over a stream of the transport that
  takes every call. When a runner with a process and a terminal reads what was put on the stream, its
  loop does exactly these actions in this order: the bytes go to the child, signals and sizes are passed
  on, and a write after the end of the input ends the session with an error.
\<close>

theorem input_applied:
  assumes "io_seq (map (client_do trsf_stream) ops) s = (Inr (), s')" and "unsent s = []"
    and "\<forall>x \<in> set ops. op_fits x" and "live_runner w"
    and "src r = unsent s'" and "fault r = IoEOF"
  shows "handleInput r w = op_effects ops w"
  using handleInput_ops[OF assms(3,4) _ assms(6)] trsf.client_session[OF assms(1)] assms(2,5) by simp

theorem input_applied_witness:
  "\<exists>s' w'. io_seq (map (client_do trsf_stream) [WriteStdin [104, 105], SendSig 2, CloseStdin])
      (newSendStream 0 1 (newFlowController 10), newWithTriggerQueue) = (Inr (), s') \<and>
    handleInput \<lparr>src = unsent s', seekable = False, fault = IoEOF\<rparr> sampleRunner = (None, w') \<and>
    p_got (pipeIn w') = [104, 105] \<and> signalled w' = [2] \<and> p_end (pipeIn w') = Some None"
proof -
  let ?ops = "[WriteStdin [104, 105], SendSig 2, CloseStdin]"
  obtain s' where s': "io_seq (map (client_do trsf_stream) ?ops) (newSendStream 0 1 (newFlowController 10), newWithTriggerQueue) = (Inr (), s')"
    by (simp add: session_simps)
  have "handleInput \<lparr>src = unsent s', seekable = False, fault = IoEOF\<rparr> sampleRunner = op_effects ?ops sampleRunner"
    by (rule input_applied[OF s']) (simp_all add: unsent_def newSendStream_def live_runner_def sampleRunner_def new_pipe_def)
  then show ?thesis using s' by (simp add: sampleRunner_def new_pipe_def close_input_def pipe_CloseWithError_def)
qed

text \<open>
  An empty write ends the input. \<open>Write\<close> of the client's standard input sends a frame of length
  zero for an empty slice, which the runner takes for the end of the input; the next write makes the
  loop of the runner return an error, so that nothing that follows, signals included, has an effect.
\<close>

theorem empty_write_ends_input:
  assumes "live_runner w" and "p_end (pipeIn w) = None" and "d \<noteq> []" and "\<forall>x \<in> set (WriteStdin d # ops). op_fits x"
    and "io_seq (map (client_do trsf_stream) (WriteStdin [] # WriteStdin d # ops)) s = (Inr (), s')" and "unsent s = []"
    and "src r = unsent s'" and "fault r = IoEOF"
  shows "fst (handleInput r w) = Some ErrClosedPipe \<and> p_got (pipeIn (snd (handleInput r w))) = p_got (pipeIn w) \<and>
    signalled (snd (handleInput r w)) = signalled w"
proof -
  have "handleInput r w = op_effects (WriteStdin [] # WriteStdin d # ops) w"
    by (rule handleInput_ops[OF _ assms(1) _ assms(8)]) (use trsf.client_session[OF assms(5)] assms(4,6,7) in simp_all)
  then show ?thesis using assms(2,3) by (simp add: Let_def close_input_def pipe_CloseWithError_def)
qed

theorem empty_write_ends_input_witness:
  "\<exists>s' w'. io_seq (map (client_do trsf_stream) [WriteStdin [], WriteStdin [104], SendSig 2])
      (newSendStream 0 1 (newFlowController 10), newWithTriggerQueue) = (Inr (), s') \<and>
    handleInput \<lparr>src = unsent s', seekable = False, fault = IoEOF\<rparr> sampleRunner = (Some ErrClosedPipe, w') \<and>
    p_got (pipeIn w') = [] \<and> signalled w' = []"
proof -
  let ?ops = "[WriteStdin [], WriteStdin [104], SendSig 2]"
  obtain s' where s': "io_seq (map (client_do trsf_stream) ?ops) (newSendStream 0 1 (newFlowController 10), newWithTriggerQueue) = (Inr (), s')"
    by (simp add: session_simps)
  let ?h = "handleInput \<lparr>src = unsent s', seekable = False, fault = IoEOF\<rparr> sampleRunner"
  have "fst ?h = Some ErrClosedPipe \<and> p_got (pipeIn (snd ?h)) = p_got (pipeIn sampleRunner) \<and> signalled (snd ?h) = signalled sampleRunner"
    by (rule empty_write_ends_input[OF _ _ _ _ s'])
      (simp_all add: unsent_def newSendStream_def live_runner_def sampleRunner_def new_pipe_def)
  then show ?thesis using s' by (cases ?h) (simp add: sampleRunner_def new_pipe_def)
qed

text \<open>
  C35: a stream that ends inside a frame looks like a complete one. When the bytes from the peer stop
  anywhere in the data of a frame, also the last byte missing, \<open>Frame.Read\<close> reports the plain end of
  file, and both loops take it for the regular end: the client closes its pipes without an error and the
  runner returns none, as on an empty stream.
\<close>

theorem cut_frame_unnoticed:
  assumes "t \<noteq> FrameType_Control" and "length d < 2 ^ 32" and "m < length d"
    and "src r = header_bytes t (of_nat (length d)) @ take m d" and "fault r = IoEOF" and "\<not> seekable r"
  shows "demux r v = demux (r\<lparr>src := []\<rparr>) v \<and> p_end (stdoutPipe (demux r v)) \<noteq> None \<and>
    (p_end (stdoutPipe v) = None \<longrightarrow> p_end (stdoutPipe (demux r v)) = Some None) \<and>
    handleInput r w = (None, close_input w)"
proof -
  obtain r' where "Frame_Read r = (Inl IoEOF, r')"
    using Frame_Read_cut_data[OF assms(1,2,3) _ assms(5,6)] assms(4) by auto
  moreover obtain r'' where "Frame_Read (r\<lparr>src := []\<rparr>) = (Inl IoEOF, r'')" using Frame_Read_end[of "r\<lparr>src := []\<rparr>"] assms(5) by auto
  ultimately show ?thesis
    by (simp add: demux.simps[of r] demux.simps[of "r\<lparr>src := []\<rparr>"] handleInput.simps[of r] close_pipes_def pipe_CloseWithError_def)
qed

theorem cut_frame_unnoticed_witness:
  "\<forall>w. handleInput \<lparr>src = [0, 0, 0, 0, 3, 104, 105], seekable = False, fault = IoEOF\<rparr> w = (None, close_input w)"
  using cut_frame_unnoticed[of 0 "[104, 105, 106]" 2 "\<lparr>src = [0, 0, 0, 0, 3, 104, 105], seekable = False, fault = IoEOF\<rparr>"]
  by (simp add: PutUint32_def)



text \<open>An encoded detach key that two readings cut in half is not recognised and goes to the runner.\<close>

lemma cut_detach_key_missed:
  "detachIndex ([27, 91, 50, 50, 49, 59, 50, 55, 59, 50, 57, 59] @ [49, 59, 56, 59, 49, 95]) = Some (0, 18) \<and>
   detachIndex [27, 91, 50, 50, 49, 59, 50, 55, 59, 50, 57, 59] = None \<and> detachIndex [49, 59, 56, 59, 49, 95] = None"
  by (simp add: detachIndex_def scanWin32InputDetach_def scan_from.simps win32_at_def find_end.simps Atoi_def digit_def)

end
