(* ===== verification/Exec_Session.thy ===== *)
theory Exec_Session
  imports Prelude
begin

text \<open>
  A remote command from start to end (\<open>exec/exec.go\<close>, \<open>executeCommandImpl\<close> around the input loop; \<open>exec/proctree_unix.go\<close>;
  \<open>RemoteShell\<close> and the end of \<open>PumpTerminalIO\<close> in \<open>exec/exec_shell.go\<close>). What the operating system answers is an argument;
  the result is what the function returns and the calls it makes, in order. The calls of the goroutine that waits for the
  child are between those of the function: it starts all goroutines and then waits for them.
\<close>

section \<open>Options and the operating system\<close>

datatype exec_error = DevNullWithPty | DevNullWithWriter | OsError nat

record ExecuteOption =
  eo_OnStdinWriter :: bool
  eo_Audit :: bool
  eo_OnProcessExit :: bool
  eo_StdinDevNull :: bool
  eo_KillProcessTree :: bool
  eo_ShowConsoleWindow :: bool

text \<open>Errors of the calls; \<open>os_wait\<close> is how the child ended and \<open>os_group\<close> the first error of the other goroutines.\<close>

record os_env =
  os_pty :: "exec_error option"
  os_tree :: "exec_error option"
  os_devnull :: "exec_error option"
  os_pipe :: "exec_error option"
  os_start :: "exec_error option"
  os_bind :: "exec_error option"
  os_wait :: "exec_error option"
  os_group :: "exec_error option"

datatype goroutine = CopyIn | CopyToPty | CopyFromPty | StdinWriter | HandleInput | WaitChild

datatype log_line = FailingChild | AfterCleanChild | StreamEnded

datatype exec_call =
    AuditStart | AuditExit "exec_error option" | PtyNew | PtyClose | NewProcTree | ConsoleWindow bool | TreeRelease | TreeBind
  | DevNullOpen | DevNullClose | StdinPipe | Started | Go goroutine | Reaped | ProcessExit "exec_error option"
  | StreamCancel | GroupDone | Log log_line | CloseBoth

section \<open>Starting the child\<close>

text \<open>
  The result is the error, or whether there is a terminal; then the calls, and the deferred calls in the order they run.
\<close>

type_synonym launched = "(exec_error + bool) \<times> exec_call list \<times> exec_call list"

definition launch_pty :: "os_env \<Rightarrow> launched" where
  "launch_pty os =
     (case os_pty os of
        Some e \<Rightarrow> (Inl e, [], [])
      | None \<Rightarrow>
          (case os_start os of
             Some e \<Rightarrow> (Inl e, [PtyNew, PtyClose], [])
           | None \<Rightarrow> (Inr True, [PtyNew, Started, Go CopyToPty, Go CopyFromPty], [])))"

definition start_devnull :: "os_env \<Rightarrow> exec_call list \<Rightarrow> exec_call list \<Rightarrow> launched" where
  "start_devnull os acts defers =
     (case os_devnull os of
        Some e \<Rightarrow> (Inl e, acts, defers)
      | None \<Rightarrow>
          let acts = acts @ [DevNullOpen]; defers = DevNullClose # defers in
          (case os_start os of Some e \<Rightarrow> (Inl e, acts, defers) | None \<Rightarrow> (Inr False, acts @ [Started], defers)))"

definition start_piped :: "os_env \<Rightarrow> exec_call list \<Rightarrow> exec_call list \<Rightarrow> launched" where
  "start_piped os acts defers =
     (case os_pipe os of
        Some e \<Rightarrow> (Inl e, acts, defers)
      | None \<Rightarrow>
          (case os_start os of
             Some e \<Rightarrow> (Inl e, acts @ [StdinPipe], defers)
           | None \<Rightarrow> (Inr False, acts @ [StdinPipe, Started, Go CopyIn], defers)))"

definition launch_cmd :: "os_env \<Rightarrow> ExecuteOption \<Rightarrow> launched" where
  "launch_cmd os opt =
     (case (if eo_KillProcessTree opt then os_tree os else None) of
        Some e \<Rightarrow> (Inl e, [], [])
      | None \<Rightarrow>
          let (acts, defers) = (if eo_KillProcessTree opt then ([NewProcTree], [TreeRelease]) else ([], []));
              acts = acts @ [ConsoleWindow (eo_ShowConsoleWindow opt)];
              (r, acts, defers) = (if eo_StdinDevNull opt then start_devnull os acts defers else start_piped os acts defers) in
          (case r of
             Inl e \<Rightarrow> (Inl e, acts, defers)
           | Inr h \<Rightarrow> (Inr h, if eo_KillProcessTree opt then acts @ [TreeBind] else acts, defers)))"

definition launch :: "os_env \<Rightarrow> ExecuteOption \<Rightarrow> bool \<Rightarrow> launched" where
  "launch os opt ptyEnabled =
     (if eo_StdinDevNull opt \<and> ptyEnabled then (Inl DevNullWithPty, [], [])
      else if eo_StdinDevNull opt \<and> eo_OnStdinWriter opt then (Inl DevNullWithWriter, [], [])
      else if ptyEnabled then launch_pty os else launch_cmd os opt)"

section \<open>The session\<close>

text \<open>The goroutine that waits for the child; \<open>stream.Cancel\<close> is deferred.\<close>

definition wait_child :: "os_env \<Rightarrow> ExecuteOption \<Rightarrow> bool \<Rightarrow> exec_call list" where
  "wait_child os opt ptyHandle =
     [Reaped] @ (if eo_OnProcessExit opt then [ProcessExit (os_wait os)] else []) @ (if ptyHandle then [PtyClose] else []) @ [StreamCancel]"

definition session_log :: "os_env \<Rightarrow> log_line" where
  "session_log os =
     (case os_wait os of Some _ \<Rightarrow> FailingChild | None \<Rightarrow> (case os_group os of Some _ \<Rightarrow> AfterCleanChild | None \<Rightarrow> StreamEnded))"

definition executeCommandImpl :: "os_env \<Rightarrow> ExecuteOption \<Rightarrow> bool \<Rightarrow> exec_error option \<times> exec_call list" where
  "executeCommandImpl os opt ptyEnabled =
     (let (r, acts, defers) = launch os opt ptyEnabled;
          (retErr, acts) =
            (case r of
               Inl e \<Rightarrow> (Some e, acts)
             | Inr h \<Rightarrow>
                 (os_wait os,
                  acts @ (if eo_OnStdinWriter opt then [Go StdinWriter] else []) @ [Go HandleInput, Go WaitChild] @
                  wait_child os opt h @ [GroupDone, Log (session_log os)])) in
      (retErr, (if eo_Audit opt then [AuditStart] else []) @ acts @ defers @
               (if eo_Audit opt then [AuditExit retErr] else []) @ [CloseBoth]))"

definition ExecuteCommandWithOption :: "os_env \<Rightarrow> bool \<Rightarrow> ExecuteOption \<Rightarrow> exec_error option \<times> exec_call list" where
  "ExecuteCommandWithOption os ptyEnabled opt = executeCommandImpl os opt ptyEnabled"

definition ExecuteCommand :: "os_env \<Rightarrow> bool \<Rightarrow> exec_error option \<times> exec_call list" where
  "ExecuteCommand os ptyEnabled =
     executeCommandImpl os \<lparr>eo_OnStdinWriter = False, eo_Audit = False, eo_OnProcessExit = False, eo_StdinDevNull = False,
       eo_KillProcessTree = False, eo_ShowConsoleWindow = False\<rparr> ptyEnabled"

section \<open>Ending the child\<close>

datatype signal = SIGHUP | SIGTERM | SIGKILL

text \<open>
  What a child on a terminal is sent after its input has ended, in milliseconds: \<open>procExited\<close> is looked at when a timer fires.
\<close>

definition pty_signals :: "nat \<Rightarrow> nat option \<Rightarrow> (nat \<times> signal) list" where
  "pty_signals t exited =
     (let running = (\<lambda>now. case exited of None \<Rightarrow> True | Some e \<Rightarrow> now < e) in
      (t, SIGHUP) # (if running (t + 1000) then (t + 1000, SIGTERM) # (if running (t + 2000) then [(t + 2000, SIGKILL)] else []) else []))"

abbreviation (input) treeKillGrace :: nat where "treeKillGrace \<equiv> 2000"

text \<open>\<open>procTree.kill\<close>: the signals to the process group.\<close>

definition tree_kill :: "nat \<Rightarrow> int option \<Rightarrow> (nat \<times> int \<times> signal) list" where
  "tree_kill t pid =
     (case pid of
        None \<Rightarrow> []
      | Some p \<Rightarrow> if p \<le> 0 then [] else [(t, - p, SIGTERM), (t + treeKillGrace, - p, SIGKILL)])"

section \<open>The local terminal\<close>

datatype term_call = MakeRaw | SendWindowSize | StartForwarder | Pump | StopForwarder | WriteReset | Restore

definition RemoteShell ::
  "exec_error option \<Rightarrow> exec_error option \<Rightarrow> exec_error option \<Rightarrow> exec_error option \<times> term_call list" where
  "RemoteShell raw sizeErr pumpErr =
     (case raw of
        Some e \<Rightarrow> (Some e, [MakeRaw])
      | None \<Rightarrow>
          (case sizeErr of
             Some e \<Rightarrow> (Some e, [MakeRaw, SendWindowSize, WriteReset, Restore])
           | None \<Rightarrow> (pumpErr, [MakeRaw, SendWindowSize, StartForwarder, Pump, StopForwarder, WriteReset, Restore])))"

text \<open>
  The end of \<open>PumpTerminalIO\<close>: when the copy of the output ends and with which error, and when the input pump ends and why;
  \<open>None\<close> when it does not. The result is \<open>None\<close> when the function does not return. With the grace over, the pipe is closed
  so that the copy ends, and its error is dropped.
\<close>

datatype pump_error = CopyError exec_error | LocalInputLost exec_error

abbreviation (input) stdinGoneGrace :: nat where "stdinGoneGrace \<equiv> 2000"

definition pump_result ::
  "(nat \<times> exec_error option) option \<Rightarrow> (nat \<times> exec_error option) option \<Rightarrow> (nat \<times> bool \<times> pump_error option) option" where
  "pump_result copyExit stdinExit =
     (case (copyExit, stdinExit) of
        (None, None) \<Rightarrow> None
      | (Some (t, e), None) \<Rightarrow> Some (t, False, map_option CopyError e)
      | (None, Some (u, reason)) \<Rightarrow> Some (u + stdinGoneGrace, True, map_option LocalInputLost reason)
      | (Some (t, e), Some (u, reason)) \<Rightarrow>
          if t \<le> u + stdinGoneGrace then Some (t, False, map_option CopyError e)
          else Some (u + stdinGoneGrace, True, map_option LocalInputLost reason))"

section \<open>Lemmas\<close>

fun audit_call :: "exec_call \<Rightarrow> bool" where
  "audit_call AuditStart = True"
| "audit_call (AuditExit e) = True"
| "audit_call _ = False"

text \<open>Calls that need the child to be gone, or to be still there.\<close>

fun after_reaping :: "exec_call \<Rightarrow> bool" where
  "after_reaping PtyClose = True"
| "after_reaping TreeRelease = True"
| "after_reaping DevNullClose = True"
| "after_reaping (ProcessExit e) = True"
| "after_reaping StreamCancel = True"
| "after_reaping CloseBoth = True"
| "after_reaping _ = False"

lemmas launch_defs = launch_def launch_pty_def launch_cmd_def start_devnull_def start_piped_def

lemma launch_failed:
  assumes "launch os opt pty = (Inl e, acts, defers)"
  shows "Started \<notin> set (acts @ defers)" "Reaped \<notin> set (acts @ defers)" "filter audit_call (acts @ defers) = []" "CloseBoth \<notin> set (acts @ defers)"
    "count_list (acts @ defers) PtyNew = count_list (acts @ defers) PtyClose"
    "count_list (acts @ defers) DevNullOpen = count_list (acts @ defers) DevNullClose"
    "count_list (acts @ defers) NewProcTree = count_list (acts @ defers) TreeRelease"
    "ProcessExit x \<notin> set (acts @ defers)"
  using assms by (auto simp: launch_defs Let_def split: if_splits option.splits)

lemma launch_started:
  assumes "launch os opt pty = (Inr h, acts, defers)"
  shows "count_list acts Started = 1" "Reaped \<notin> set (acts @ defers)" "filter audit_call (acts @ defers) = []" "CloseBoth \<notin> set (acts @ defers)"
    "list_all (\<lambda>c. \<not> after_reaping c) acts" "Started \<notin> set defers" "ProcessExit x \<notin> set (acts @ defers)"
    "count_list (acts @ defers) PtyNew = (if h then 1 else 0)" "count_list (acts @ defers) PtyClose = 0"
    "count_list (acts @ defers) DevNullOpen = count_list (acts @ defers) DevNullClose"
    "count_list (acts @ defers) NewProcTree = count_list (acts @ defers) TreeRelease"
  using assms by (auto simp: launch_defs Let_def split: if_splits option.splits)

section \<open>Properties\<close>

text \<open>
  C21: how a remote command ends, on every path. When the child was started it is reaped once and the result is how
  the child ended, whatever the other goroutines report; when it was not, the result is an error. The terminal is closed exactly
  as often as it was opened, and likewise the null device and the process tree; the auditor is told one start and
  one end, with the error that is returned; the stream is closed last and once. What needs the child to be gone, the close of the
  terminal above all, is done after it was reaped, and the process state is reported once, when asked for.
\<close>

theorem session_outcome:
  assumes "executeCommandImpl os opt ptyEnabled = (ret, cs)"
  shows "(if Started \<in> set cs then ret = os_wait os else ret \<noteq> None) \<and>
    count_list cs Started \<le> 1 \<and> count_list cs Reaped = count_list cs Started \<and>
    count_list cs PtyNew = count_list cs PtyClose \<and> count_list cs DevNullOpen = count_list cs DevNullClose \<and>
    count_list cs NewProcTree = count_list cs TreeRelease \<and>
    filter audit_call cs = (if eo_Audit opt then [AuditStart, AuditExit ret] else []) \<and>
    (\<exists>pre. cs = pre @ [CloseBoth] \<and> CloseBoth \<notin> set pre) \<and>
    (Started \<in> set cs \<longrightarrow> (\<exists>pre post. cs = pre @ Reaped # post \<and> list_all (\<lambda>c. \<not> after_reaping c) pre \<and> Started \<in> set pre) \<and>
      count_list cs (ProcessExit (os_wait os)) = (if eo_OnProcessExit opt then 1 else 0))"
proof -
  obtain r acts defers where l: "launch os opt ptyEnabled = (r, acts, defers)" by (metis prod_cases3)
  let ?start = "if eo_Audit opt then [AuditStart] else []" and ?exit = "\<lambda>e. if eo_Audit opt then [AuditExit e] else []"
  show ?thesis
  proof (cases r)
    case (Inl e)
    then have c: "ret = Some e" "cs = ?start @ (acts @ defers) @ ?exit (Some e) @ [CloseBoth]"
      using assms l by (auto simp: executeCommandImpl_def)
    note f = launch_failed[OF l[unfolded Inl]]
    show ?thesis using f unfolding c by (auto simp: count_notin count_list_append)
  next
    case (Inr h)
    let ?w = "wait_child os opt h @ [GroupDone, Log (session_log os)]"
    let ?go = "(if eo_OnStdinWriter opt then [Go StdinWriter] else []) @ [Go HandleInput, Go WaitChild]"
    have c: "ret = os_wait os" "cs = ?start @ acts @ ?go @ ?w @ defers @ ?exit (os_wait os) @ [CloseBoth]"
      using assms l Inr by (auto simp: executeCommandImpl_def)
    note f = launch_started[OF l[unfolded Inr]]
    have st: "Started \<in> set acts" using f(1) by (metis count_notin zero_neq_one)
    have "cs = (?start @ acts @ ?go) @ Reaped # (tl ?w @ defers @ ?exit (os_wait os) @ [CloseBoth])"
      by (simp add: c wait_child_def)
    moreover have "list_all (\<lambda>c. \<not> after_reaping c) (?start @ acts @ ?go)" using f(5) by simp
    moreover have "Started \<in> set (?start @ acts @ ?go)" using st by simp
    ultimately have "\<exists>pre post. cs = pre @ Reaped # post \<and> list_all (\<lambda>c. \<not> after_reaping c) pre \<and> Started \<in> set pre"
      by blast
    moreover have "\<exists>pre. cs = pre @ [CloseBoth] \<and> CloseBoth \<notin> set pre"
      using f(4) by (intro exI[of _ "butlast cs"]) (auto simp: c butlast_append wait_child_def)
    ultimately show ?thesis using f st unfolding c(1) by (simp add: c(2) count_notin count_list_append wait_child_def)
  qed
qed

theorem session_outcome_witness:
  "executeCommandImpl \<lparr>os_pty = None, os_tree = None, os_devnull = None, os_pipe = None, os_start = None, os_bind = None,
      os_wait = None, os_group = Some (OsError 5)\<rparr>
     \<lparr>eo_OnStdinWriter = False, eo_Audit = True, eo_OnProcessExit = True, eo_StdinDevNull = False, eo_KillProcessTree = False,
      eo_ShowConsoleWindow = False\<rparr> True =
   (None, [AuditStart, PtyNew, Started, Go CopyToPty, Go CopyFromPty, Go HandleInput, Go WaitChild, Reaped, ProcessExit None,
           PtyClose, StreamCancel, GroupDone, Log AfterCleanChild, AuditExit None, CloseBoth]) \<and>
   filter audit_call [AuditStart, PtyNew, Started, Go CopyToPty, Go CopyFromPty, Go HandleInput, Go WaitChild, Reaped, ProcessExit None,
     PtyClose, StreamCancel, GroupDone, Log AfterCleanChild, AuditExit None, CloseBoth] = [AuditStart, AuditExit None]"
proof -
  let ?os = "\<lparr>os_pty = None, os_tree = None, os_devnull = None, os_pipe = None, os_start = None, os_bind = None,
      os_wait = None, os_group = Some (OsError 5)\<rparr>"
  let ?opt = "\<lparr>eo_OnStdinWriter = False, eo_Audit = True, eo_OnProcessExit = True, eo_StdinDevNull = False, eo_KillProcessTree = False,
      eo_ShowConsoleWindow = False\<rparr>"
  have e: "executeCommandImpl ?os ?opt True =
   (None, [AuditStart, PtyNew, Started, Go CopyToPty, Go CopyFromPty, Go HandleInput, Go WaitChild, Reaped, ProcessExit None,
           PtyClose, StreamCancel, GroupDone, Log AfterCleanChild, AuditExit None, CloseBoth])"
    by (simp add: executeCommandImpl_def launch_defs wait_child_def session_log_def)
  show ?thesis using session_outcome[OF e] e by simp
qed

text \<open>The refused combinations start nothing and open nothing.\<close>

lemma refused_options:
  "eo_StdinDevNull opt \<Longrightarrow> ptyEnabled \<or> eo_OnStdinWriter opt \<Longrightarrow>
     set (snd (executeCommandImpl os opt ptyEnabled)) \<subseteq> {AuditStart, AuditExit (fst (executeCommandImpl os opt ptyEnabled)), CloseBoth}"
  by (auto simp: executeCommandImpl_def launch_def)

text \<open>
  A child on a terminal that ends within a second of its input gets the hangup only, and it is killed only when it is still
  there two seconds after.
\<close>

lemma pty_signals_gentle:
  "e \<le> t + 1000 \<Longrightarrow> pty_signals t (Some e) = [(t, SIGHUP)]"
  "(u, SIGKILL) \<in> set (pty_signals t x) \<longleftrightarrow> u = t + 2000 \<and> (\<forall>e. x = Some e \<longrightarrow> t + 2000 < e)"
  by (auto simp: pty_signals_def Let_def split: option.splits if_splits)

text \<open>A process group is named by a negative number, so never the group of the caller.\<close>

lemma tree_kill_group: "(u, g, sig) \<in> set (tree_kill t pid) \<Longrightarrow> g < 0"
  by (auto simp: tree_kill_def split: option.splits if_splits)

text \<open>Once the terminal is raw, its modes are reset and then it is restored, last of all, on every path.\<close>

lemma terminal_restored:
  "raw = None \<Longrightarrow> \<exists>pre. snd (RemoteShell raw sizeErr pumpErr) = pre @ [WriteReset, Restore] \<and> MakeRaw \<in> set pre"
  "raw \<noteq> None \<Longrightarrow> RemoteShell raw sizeErr pumpErr = (raw, [MakeRaw])"
  by (auto simp: RemoteShell_def split: option.splits)

text \<open>The pump returns within the grace once either direction has ended.\<close>

lemma pump_returns:
  "stdinExit = Some (u, reason) \<Longrightarrow> \<exists>t joined e. pump_result copyExit stdinExit = Some (t, joined, e) \<and> t \<le> u + stdinGoneGrace"
  "copyExit = Some (t, e) \<Longrightarrow> \<exists>t' joined e'. pump_result copyExit stdinExit = Some (t', joined, e') \<and> t' \<le> t"
  by (auto simp: pump_result_def split: option.splits prod.splits)

end
