(* ===== verification/Obj_Packet.thy ===== *)
theory Obj_Packet
  imports Wire_Varint
begin

text \<open>
  The datagrams of the session layer (\<open>src/objproto/packet/packet.go\<close>): the packet header with its
  key-phase bit and mask seed, the protected header (control bit and packet number), packets,
  handshakes and probes, with \<open>Append\<close> and \<open>DecodeSlice\<close> of each. Fixed-size arrays are byte lists;
  the optional offset of a handshake, a union in the source, is an option.
\<close>

unbundle bit_operations_syntax

section \<open>PacketHeader\<close>

record ObjHeader =
  tmp77 :: u8
  MaskedKind :: u8
  MaskedConnectionId :: u16
  oh_Len :: u16

definition keyPhase :: "ObjHeader \<Rightarrow> u8" where
  "keyPhase p = drop_bit 7 (tmp77 p) AND 1"

definition KeyPhase :: "ObjHeader \<Rightarrow> bool" where
  "KeyPhase h \<longleftrightarrow> keyPhase h \<noteq> 0"

definition setKeyPhase :: "ObjHeader \<Rightarrow> u8 \<Rightarrow> ObjHeader" where
  "setKeyPhase p x = p\<lparr>tmp77 := (tmp77 p AND NOT (push_bit 7 1)) OR push_bit 7 (x AND 1)\<rparr>"

definition SetKeyPhase :: "ObjHeader \<Rightarrow> bool \<Rightarrow> ObjHeader" where
  "SetKeyPhase p b = setKeyPhase p (if b then 1 else 0)"

definition MaskSeed :: "ObjHeader \<Rightarrow> u8" where
  "MaskSeed p = drop_bit 0 (tmp77 p) AND 127"

definition SetMaskSeed :: "ObjHeader \<Rightarrow> u8 \<Rightarrow> ObjHeader" where
  "SetMaskSeed p x = p\<lparr>tmp77 := (tmp77 p AND NOT (push_bit 0 127)) OR push_bit 0 (x AND 127)\<rparr>"

definition ObjHeader_zero :: ObjHeader where
  "ObjHeader_zero = \<lparr>tmp77 = 0, MaskedKind = 0, MaskedConnectionId = 0, oh_Len = 0\<rparr>"

definition ObjHeader_Append :: "ObjHeader encoder" where
  "ObjHeader_Append p buf =
     (let b = push_bit 7 (keyPhase p AND 1) OR (MaskSeed p AND 127) in
      Inr (buf @ [b] @ [MaskedKind p] @ PutUint16 (MaskedConnectionId p) @ PutUint16 (oh_Len p)))"

definition ObjHeader_DecodeSlice :: "ObjHeader \<Rightarrow> ObjHeader decoder" where
  "ObjHeader_DecodeSlice p buf off =
     (if length buf - off < 1 then Inl (NotEnoughData ''tmp154'')
      else
        let b = buf ! off;
            p = SetMaskSeed (setKeyPhase p (drop_bit 7 (b AND 128))) (b AND 127);
            off = off + 1 in
        if length buf - off < 1 then Inl (NotEnoughData ''PacketHeader::MaskedKind'')
        else
          let p = p\<lparr>MaskedKind := buf ! off\<rparr>; off = off + 1 in
          if length buf - off < 2 then Inl (NotEnoughData ''PacketHeader::MaskedConnectionId'')
          else
            let p = p\<lparr>MaskedConnectionId := Uint16 (take 2 (drop off buf))\<rparr>; off = off + 2 in
            if length buf - off < 2 then Inl (NotEnoughData ''PacketHeader::Len'')
            else Inr (p\<lparr>oh_Len := Uint16 (take 2 (drop off buf))\<rparr>, off + 2))"

section \<open>ProtectedHeader\<close>

record ProtectedHeader =
  tmp72 :: u64

definition control :: "ProtectedHeader \<Rightarrow> u8" where
  "control p = ucast (drop_bit 63 (tmp72 p) AND 1)"

definition Control :: "ProtectedHeader \<Rightarrow> bool" where
  "Control p \<longleftrightarrow> control p \<noteq> 0"

definition setControl :: "ProtectedHeader \<Rightarrow> u8 \<Rightarrow> ProtectedHeader" where
  "setControl p x = p\<lparr>tmp72 := (tmp72 p AND NOT (push_bit 63 1)) OR push_bit 63 (ucast x AND 1)\<rparr>"

definition SetControl :: "ProtectedHeader \<Rightarrow> bool \<Rightarrow> ProtectedHeader" where
  "SetControl p b = setControl p (if b then 1 else 0)"

definition NonceCounter :: "ProtectedHeader \<Rightarrow> u64" where
  "NonceCounter p = drop_bit 0 (tmp72 p) AND 9223372036854775807"

definition SetNonceCounter :: "ProtectedHeader \<Rightarrow> u64 \<Rightarrow> ProtectedHeader" where
  "SetNonceCounter p x =
     p\<lparr>tmp72 := (tmp72 p AND NOT (push_bit 0 9223372036854775807)) OR push_bit 0 (x AND 9223372036854775807)\<rparr>"

definition ProtectedHeader_Append :: "ProtectedHeader encoder" where
  "ProtectedHeader_Append p buf =
     Inr (buf @ [push_bit 7 (control p AND 1) OR ucast (drop_bit 56 (NonceCounter p) AND 127),
                 ucast (drop_bit 48 (NonceCounter p) AND 255), ucast (drop_bit 40 (NonceCounter p) AND 255),
                 ucast (drop_bit 32 (NonceCounter p) AND 255), ucast (drop_bit 24 (NonceCounter p) AND 255),
                 ucast (drop_bit 16 (NonceCounter p) AND 255), ucast (drop_bit 8 (NonceCounter p) AND 255),
                 ucast (NonceCounter p AND 255)])"

definition ProtectedHeader_DecodeSlice :: "ProtectedHeader \<Rightarrow> ProtectedHeader decoder" where
  "ProtectedHeader_DecodeSlice p buf off =
     (if length buf - off < 8 then Inl (NotEnoughData ''tmp16'')
      else
        let b = take 8 (drop off buf);
            p = setControl p (drop_bit 7 (b ! 0 AND 128));
            n = push_bit 56 (ucast (b ! 0 AND 127)) OR push_bit 48 (ucast (b ! 1)) OR push_bit 40 (ucast (b ! 2))
                OR push_bit 32 (ucast (b ! 3)) OR push_bit 24 (ucast (b ! 4)) OR push_bit 16 (ucast (b ! 5))
                OR push_bit 8 (ucast (b ! 6)) OR ucast (b ! 7) in
        Inr (SetNonceCounter p n, off + 8))"

section \<open>Packet\<close>

record Packet =
  pk_Header :: ObjHeader
  pk_Data :: bytes

definition Packet_zero :: Packet where
  "Packet_zero = \<lparr>pk_Header = ObjHeader_zero, pk_Data = []\<rparr>"

definition SetData :: "Packet \<Rightarrow> bytes \<Rightarrow> Packet \<times> bool" where
  "SetData p d =
     (if length d > 65535 then (p, False)
      else (p\<lparr>pk_Header := (pk_Header p)\<lparr>oh_Len := of_nat (length d)\<rparr>, pk_Data := d\<rparr>, True))"

definition Packet_Append :: "Packet encoder" where
  "Packet_Append p buf =
     rbind (ObjHeader_Append (pk_Header p) buf) (\<lambda>buf.
       if length (pk_Data p) \<noteq> unat (oh_Len (pk_Header p))
       then Inl (SizeMismatch (unat (oh_Len (pk_Header p))) (length (pk_Data p)))
       else Inr (buf @ pk_Data p))"

definition Packet_DecodeSlice :: "Packet \<Rightarrow> Packet decoder" where
  "Packet_DecodeSlice p buf off =
     rbind (ObjHeader_DecodeSlice (pk_Header p) buf off) (\<lambda>(h, off).
       if length buf - off < unat (oh_Len h) then Inl (NotEnoughData ''Packet::Data'')
       else Inr (\<lparr>pk_Header = h, pk_Data = take (unat (oh_Len h)) (drop off buf)\<rparr>, off + unat (oh_Len h)))"

definition Packet_DecodeExact :: "bytes \<Rightarrow> (wire_error, Packet) result" where
  "Packet_DecodeExact buf = decode_exact (Packet_DecodeSlice Packet_zero) buf"

section \<open>Kinds\<close>

type_synonym KeyKind = u16
type_synonym CommonKeyKind = u16
type_synonym PacketKind = u8
type_synonym ControlKind = u8

abbreviation (input) KeyKind_Offset :: KeyKind where "KeyKind_Offset \<equiv> 24"
abbreviation (input) KeyKind_X25519 :: KeyKind where "KeyKind_X25519 \<equiv> 52"
abbreviation (input) KeyKind_P256 :: KeyKind where "KeyKind_P256 \<equiv> 249"
abbreviation (input) KeyKind_P384 :: KeyKind where "KeyKind_P384 \<equiv> 36"
abbreviation (input) KeyKind_P521 :: KeyKind where "KeyKind_P521 \<equiv> 51"
abbreviation (input) CommonKeyKind_Aes128Gcm :: CommonKeyKind where "CommonKeyKind_Aes128Gcm \<equiv> 115"
abbreviation (input) CommonKeyKind_Aes192Gcm :: CommonKeyKind where "CommonKeyKind_Aes192Gcm \<equiv> 67"
abbreviation (input) CommonKeyKind_Aes256Gcm :: CommonKeyKind where "CommonKeyKind_Aes256Gcm \<equiv> 34"
abbreviation (input) CommonKeyKind_Chacha20Poly1305 :: CommonKeyKind where
  "CommonKeyKind_Chacha20Poly1305 \<equiv> 62"
abbreviation (input) PacketKind_Handshake :: PacketKind where "PacketKind_Handshake \<equiv> 94"
abbreviation (input) PacketKind_HandshakeAck :: PacketKind where "PacketKind_HandshakeAck \<equiv> 137"
abbreviation (input) PacketKind_Application :: PacketKind where "PacketKind_Application \<equiv> 51"
abbreviation (input) PacketKind_Probe :: PacketKind where "PacketKind_Probe \<equiv> 103"
abbreviation (input) ControlKind_Ping :: ControlKind where "ControlKind_Ping \<equiv> 75"

definition IsCommonKeyKindDefined :: "CommonKeyKind \<Rightarrow> bool" where
  "IsCommonKeyKindDefined k \<longleftrightarrow>
     k = CommonKeyKind_Aes128Gcm \<or> k = CommonKeyKind_Aes192Gcm \<or> k = CommonKeyKind_Aes256Gcm \<or>
     k = CommonKeyKind_Chacha20Poly1305"

section \<open>Handshake\<close>

record Handshake =
  hs_KeyKind :: KeyKind
  hs_CommonKeyKind :: CommonKeyKind
  tmp236 :: "u16 option"
  hs_Len :: u16
  KeyShare :: bytes

definition Handshake_zero :: Handshake where
  "Handshake_zero = \<lparr>hs_KeyKind = 0, hs_CommonKeyKind = 0, tmp236 = None, hs_Len = 0, KeyShare = []\<rparr>"

definition Handshake_Offset :: "Handshake \<Rightarrow> u16 option" where
  "Handshake_Offset h = (if hs_KeyKind h = KeyKind_Offset then tmp236 h else None)"

definition Handshake_SetOffset :: "Handshake \<Rightarrow> u16 \<Rightarrow> Handshake \<times> bool" where
  "Handshake_SetOffset h x =
     (if hs_KeyKind h = KeyKind_Offset then (h\<lparr>tmp236 := Some x\<rparr>, True) else (h, False))"

definition SetKeyShare :: "Handshake \<Rightarrow> bytes \<Rightarrow> Handshake \<times> bool" where
  "SetKeyShare h k =
     (if length k > 65535 then (h, False)
      else (h\<lparr>hs_Len := of_nat (length k), KeyShare := k\<rparr>, True))"

definition Handshake_Append :: "Handshake encoder" where
  "Handshake_Append h buf =
     (let buf = buf @ PutUint16 (hs_KeyKind h); buf = buf @ PutUint16 (hs_CommonKeyKind h) in
      rbind (if hs_KeyKind h = KeyKind_Offset
             then (case tmp236 h of None \<Rightarrow> Inl InvalidUnion | Some x \<Rightarrow> Inr (buf @ PutUint16 x))
             else Inr buf) (\<lambda>buf.
        let buf = buf @ PutUint16 (hs_Len h) in
        if length (KeyShare h) \<noteq> unat (hs_Len h)
        then Inl (SizeMismatch (unat (hs_Len h)) (length (KeyShare h)))
        else Inr (buf @ KeyShare h)))"

definition Handshake_DecodeSlice :: "Handshake \<Rightarrow> Handshake decoder" where
  "Handshake_DecodeSlice h buf off =
     (if length buf - off < 2 then Inl (NotEnoughData ''Handshake::KeyKind'')
      else
        let h = h\<lparr>hs_KeyKind := Uint16 (take 2 (drop off buf))\<rparr>; off = off + 2 in
        if length buf - off < 2 then Inl (NotEnoughData ''Handshake::CommonKeyKind'')
        else
          let h = h\<lparr>hs_CommonKeyKind := Uint16 (take 2 (drop off buf))\<rparr>; off = off + 2 in
          rbind (if hs_KeyKind h = KeyKind_Offset then
                   if length buf - off < 2 then Inl (NotEnoughData ''Handshake::tmp236::Offset'')
                   else Inr (h\<lparr>tmp236 := Some (Uint16 (take 2 (drop off buf)))\<rparr>, off + 2)
                 else Inr (h, off)) (\<lambda>(h, off).
            if length buf - off < 2 then Inl (NotEnoughData ''Handshake::Len'')
            else
              let h = h\<lparr>hs_Len := Uint16 (take 2 (drop off buf))\<rparr>; off = off + 2 in
              if length buf - off < unat (hs_Len h) then Inl (NotEnoughData ''Handshake::KeyShare'')
              else Inr (h\<lparr>KeyShare := take (unat (hs_Len h)) (drop off buf)\<rparr>, off + unat (hs_Len h))))"

definition Handshake_DecodeExact :: "bytes \<Rightarrow> (wire_error, Handshake) result" where
  "Handshake_DecodeExact buf = decode_exact (Handshake_DecodeSlice Handshake_zero) buf"

section \<open>Probe\<close>

record IPAddress =
  ip_Len :: u8
  ip_Address :: bytes

definition SetAddress :: "IPAddress \<Rightarrow> bytes \<Rightarrow> IPAddress \<times> bool" where
  "SetAddress i a =
     (if length a > 255 then (i, False) else (i\<lparr>ip_Len := of_nat (length a), ip_Address := a\<rparr>, True))"

definition IPAddress_Append :: "IPAddress encoder" where
  "IPAddress_Append i buf =
     (let buf = buf @ [ip_Len i] in
      if \<not> (ip_Len i = 4 \<or> ip_Len i = 16) then Inl AssertionFailed
      else if length (ip_Address i) \<noteq> unat (ip_Len i)
      then Inl (SizeMismatch (unat (ip_Len i)) (length (ip_Address i)))
      else Inr (buf @ ip_Address i))"

definition IPAddress_DecodeSlice :: "IPAddress decoder" where
  "IPAddress_DecodeSlice buf off =
     (if length buf - off < 1 then Inl (NotEnoughData ''IPAddress::Len'')
      else
        let n = buf ! off; off = off + 1 in
        if \<not> (n = 4 \<or> n = 16) then Inl AssertionFailed
        else if length buf - off < unat n then Inl (NotEnoughData ''IPAddress::Address'')
        else Inr (\<lparr>ip_Len = n, ip_Address = take (unat n) (drop off buf)\<rparr>, off + unat n))"

record MacAddress =
  mac_Address :: bytes

definition MacAddress_Append :: "MacAddress encoder" where
  "MacAddress_Append m buf = Inr (buf @ take 6 (mac_Address m))"

definition MacAddress_DecodeSlice :: "MacAddress decoder" where
  "MacAddress_DecodeSlice buf off =
     (if length buf - off < 6 then Inl (NotEnoughData ''MacAddress::Address'')
      else Inr (\<lparr>mac_Address = take 6 (drop off buf)\<rparr>, off + 6))"

record ObjProbe =
  pb_MacAddress :: MacAddress
  pb_IpAddress :: IPAddress
  pb_Port :: u16

definition ObjProbe_Append :: "ObjProbe encoder" where
  "ObjProbe_Append p buf =
     rbind (MacAddress_Append (pb_MacAddress p) buf) (\<lambda>buf.
     rbind (IPAddress_Append (pb_IpAddress p) buf) (\<lambda>buf.
     Inr (buf @ PutUint16 (pb_Port p))))"

definition ObjProbe_DecodeSlice :: "ObjProbe decoder" where
  "ObjProbe_DecodeSlice buf off =
     rbind (MacAddress_DecodeSlice buf off) (\<lambda>(m, off).
     rbind (IPAddress_DecodeSlice buf off) (\<lambda>(i, off).
     if length buf - off < 2 then Inl (NotEnoughData ''Probe::Port'')
     else Inr (\<lparr>pb_MacAddress = m, pb_IpAddress = i, pb_Port = Uint16 (take 2 (drop off buf))\<rparr>, off + 2)))"

definition ObjProbe_DecodeExact :: "bytes \<Rightarrow> (wire_error, ObjProbe) result" where
  "ObjProbe_DecodeExact buf = decode_exact ObjProbe_DecodeSlice buf"

section \<open>Bits\<close>

lemma byte_masks: "(127 :: u8) = mask 7" "(128 :: u8) = push_bit 7 (mask 1)" "(127 :: u64) = mask 7"
  "(9223372036854775807 :: u64) = mask 63"
  by (simp_all add: mask_eq_exp_minus_1)

lemma top_bit_cases:
  assumes "n < LENGTH(8)"
  obtains "n < 7" | "n = 7"
  using assms by fastforce

lemma header_byte: "push_bit 7 (keyPhase p AND 1) OR (MaskSeed p AND 127) = tmp77 p"
proof (rule bit_word_eqI, goal_cases)
  case (1 n)
  then show ?case unfolding keyPhase_def MaskSeed_def byte_masks mask_numerals
    by (cases rule: top_bit_cases) (simp_all add: bit_simps)
qed

lemma header_setters: "SetMaskSeed (setKeyPhase p (drop_bit 7 (b AND 128))) (b AND 127) = p\<lparr>tmp77 := b\<rparr>"
proof -
  have "tmp77 (SetMaskSeed (setKeyPhase p (drop_bit 7 (b AND 128))) (b AND 127)) = b"
  proof (rule bit_word_eqI, goal_cases)
    case (1 n)
    then show ?case unfolding SetMaskSeed_def setKeyPhase_def byte_masks mask_numerals
      by (cases rule: top_bit_cases) (simp_all add: bit_simps)
  qed
  then show ?thesis by (simp add: SetMaskSeed_def setKeyPhase_def)
qed

text \<open>The eight bytes of a protected header are its word in big-endian order.\<close>

lemma protected_wire: "ProtectedHeader_Append p buf = Inr (buf @ PutUint64 (tmp72 p))"
proof -
  have top: "push_bit 7 (control p AND 1) OR ucast (drop_bit 56 (NonceCounter p) AND 127) = (ucast (drop_bit 56 (tmp72 p)) :: u8)"
  proof (rule bit_word_eqI, goal_cases)
    case (1 n)
    then show ?case unfolding control_def NonceCounter_def byte_masks mask_numerals
      by (cases rule: top_bit_cases) (auto simp: bit_simps dest: bit_imp_le_length)
  qed
  have "(ucast (drop_bit k (NonceCounter p) AND 255) :: u8) = ucast (drop_bit k (tmp72 p))" if "k + 8 \<le> 63" for k
    unfolding NonceCounter_def byte_masks mask_numerals
    by (rule bit_word_eqI) (use that in \<open>auto simp: bit_simps dest: bit_imp_le_length\<close>)
  note low = this [of 48] this [of 40] this [of 32] this [of 24] this [of 16] this [of 8] this [of 0]
  show ?thesis unfolding ProtectedHeader_Append_def top PutUint64_def using low by simp
qed

lemma protected_read:
  assumes "drop off buf = PutUint64 x @ suf"
  shows "ProtectedHeader_DecodeSlice p buf off = Inr (p\<lparr>tmp72 := x\<rparr>, off + 8)"
proof -
  have "length buf - off = 8 + length suf" by (metis assms length_drop length_append length_Put(3))
  then have t: "take 8 (drop off buf) = PutUint64 x" and l: "\<not> length buf - off < 8" using assms by simp_all
  let ?b = "PutUint64 x"
  let ?n = "push_bit 56 (ucast (?b ! 0 AND 127)) OR push_bit 48 (ucast (?b ! 1)) OR push_bit 40 (ucast (?b ! 2))
    OR push_bit 32 (ucast (?b ! 3)) OR push_bit 24 (ucast (?b ! 4)) OR push_bit 16 (ucast (?b ! 5))
    OR push_bit 8 (ucast (?b ! 6)) OR ucast (?b ! 7) :: u64"
  have n: "?n = x AND mask 63"
  proof (rule bit_word_eqI, goal_cases)
    case (1 n)
    have t: "bit (push_bit 56 (ucast ((ucast (drop_bit 56 x) :: u8) AND mask 7)) :: u64) n \<longleftrightarrow> 56 \<le> n \<and> n < 63 \<and> bit x n"
      by (auto simp: bit_simps dest: bit_imp_le_length)
    show ?case unfolding PutUint64_def byte_masks
      by (simp add: bit_or_iff t bit_be_byte bit_be_low_byte) (simp add: bit_simps, linarith)
  qed
  have c: "drop_bit 7 (?b ! 0 AND 128) = (ucast (drop_bit 63 x) :: u8)"
    unfolding PutUint64_def byte_masks mask_numerals
    by (rule bit_word_eqI) (auto simp: bit_simps dest: bit_imp_le_length)
  have "tmp72 (SetNonceCounter (setControl p (drop_bit 7 (?b ! 0 AND 128))) ?n) = x"
  proof (rule bit_word_eqI, goal_cases)
    case (1 i)
    then consider "i < 63" | "i = 63" by force
    then show ?case unfolding n c unfolding SetNonceCounter_def setControl_def byte_masks mask_numerals
      by cases (simp_all add: bit_simps)
  qed
  then have "SetNonceCounter (setControl p (drop_bit 7 (?b ! 0 AND 128))) ?n = p\<lparr>tmp72 := x\<rparr>"
    by (simp add: SetNonceCounter_def setControl_def)
  with l show ?thesis unfolding ProtectedHeader_DecodeSlice_def Let_def t by simp
qed


section \<open>Codecs\<close>

text \<open>A field of two bytes at an offset; chaining this rule decodes a sequence of them.\<close>

lemma Uint16_at:
  assumes "drop off buf = PutUint16 x @ suf"
  shows "\<not> length buf - off < 2" and "take 2 (drop off buf) = PutUint16 x" and "drop (off + 2) buf = suf"
proof -
  have "length buf - off = 2 + length suf" by (metis assms length_drop length_append length_Put(1))
  then show "\<not> length buf - off < 2" and "take 2 (drop off buf) = PutUint16 x" using assms by simp_all
  have "drop 2 (drop off buf) = suf" by (simp add: assms)
  then show "drop (off + 2) buf = suf" by (simp add: add.commute)
qed

lemma byte_at:
  assumes "drop off buf = b # suf"
  shows "\<not> length buf - off < 1" and "buf ! off = b" and "drop (off + 1) buf = suf"
proof -
  have "off < length buf" using assms by (metis drop_all list.distinct(1) not_le)
  then show "\<not> length buf - off < 1" and "buf ! off = b"
    using assms by (simp_all add: Cons_nth_drop_Suc [symmetric])
  have "drop 1 (drop off buf) = suf" by (simp add: assms)
  then show "drop (off + 1) buf = suf" by simp
qed

lemma bytes_at:
  assumes "drop off buf = xs @ suf"
  shows "\<not> length buf - off < length xs" and "take (length xs) (drop off buf) = xs" and "drop (off + length xs) buf = suf"
proof -
  have "length buf - off = length xs + length suf" by (metis assms length_drop length_append)
  then show "\<not> length buf - off < length xs" and "take (length xs) (drop off buf) = xs" using assms by simp_all
  have "drop (length xs) (drop off buf) = suf" by (simp add: assms)
  then show "drop (off + length xs) buf = suf" by (simp add: add.commute)
qed

definition ObjHeader_wire :: "ObjHeader \<Rightarrow> bytes" where
  "ObjHeader_wire p = [tmp77 p, MaskedKind p] @ PutUint16 (MaskedConnectionId p) @ PutUint16 (oh_Len p)"

lemma ObjHeader_Append_wire: "ObjHeader_Append p buf = Inr (buf @ ObjHeader_wire p)"
  unfolding ObjHeader_Append_def Let_def header_byte ObjHeader_wire_def by simp

lemma length_ObjHeader_wire [simp]: "length (ObjHeader_wire p) = 6"
  by (simp add: ObjHeader_wire_def)

lemma ObjHeader_at:
  assumes "drop off buf = ObjHeader_wire h @ suf"
  shows "ObjHeader_DecodeSlice p buf off = Inr (h, off + 6)" and "drop (off + 6) buf = suf"
proof -
  have "drop off buf = tmp77 h # (MaskedKind h # PutUint16 (MaskedConnectionId h) @ PutUint16 (oh_Len h) @ suf)"
    using assms by (simp add: ObjHeader_wire_def)
  note f1 = byte_at [OF this]
  note f2 = byte_at [OF f1(3)]
  note f3 = Uint16_at [OF f2(3)]
  note f4 = Uint16_at [OF f3(3)]
  show "ObjHeader_DecodeSlice p buf off = Inr (h, off + 6)"
    unfolding ObjHeader_DecodeSlice_def Let_def header_setters
    using f1(1,2) f2(1,2) f3(1,2) f4(1,2) by (simp add: numeral_eq_Suc)
  show "drop (off + 6) buf = suf" using f4(3) by (simp add: numeral_eq_Suc)
qed

interpretation obj_header: self_delimiting ObjHeader_Append "ObjHeader_DecodeSlice p" ObjHeader_wire "\<lambda>_. True"
  by unfold_locales (simp_all add: ObjHeader_Append_wire ObjHeader_at(1))

interpretation protected_header: self_delimiting ProtectedHeader_Append "ProtectedHeader_DecodeSlice p"
  "\<lambda>x. PutUint64 (tmp72 x)" "\<lambda>_. True"
  by unfold_locales (simp_all add: protected_wire protected_read)

definition Packet_ok :: "Packet \<Rightarrow> bool" where
  "Packet_ok p \<longleftrightarrow> length (pk_Data p) = unat (oh_Len (pk_Header p))"

definition Packet_wire :: "Packet \<Rightarrow> bytes" where
  "Packet_wire p = ObjHeader_wire (pk_Header p) @ pk_Data p"

interpretation packet: self_delimiting Packet_Append "Packet_DecodeSlice p" Packet_wire Packet_ok
proof unfold_locales
  fix x buf assume "Packet_ok x"
  then show "Packet_Append x buf = Inr (buf @ Packet_wire x)"
    by (simp add: Packet_Append_def ObjHeader_Append_wire Packet_ok_def Packet_wire_def)
next
  fix x pre suf assume ok: "Packet_ok x"
  let ?buf = "pre @ Packet_wire x @ suf"
  have "drop (length pre) ?buf = ObjHeader_wire (pk_Header x) @ pk_Data x @ suf" by (simp add: Packet_wire_def)
  note f1 = ObjHeader_at [OF this]
  note f2 = bytes_at [OF f1(2)]
  show "Packet_DecodeSlice p ?buf (length pre) = Inr (x, length pre + length (Packet_wire x))"
    unfolding Packet_DecodeSlice_def f1(1) rbind.simps case_prod_conv
    using f2(1,2) ok by (simp add: Packet_ok_def Packet_wire_def)
qed

definition Handshake_ok :: "Handshake \<Rightarrow> bool" where
  "Handshake_ok h \<longleftrightarrow> length (KeyShare h) = unat (hs_Len h) \<and> (hs_KeyKind h = KeyKind_Offset \<longleftrightarrow> tmp236 h \<noteq> None)"

definition Handshake_wire :: "Handshake \<Rightarrow> bytes" where
  "Handshake_wire h = PutUint16 (hs_KeyKind h) @ PutUint16 (hs_CommonKeyKind h) @
     (case tmp236 h of None \<Rightarrow> [] | Some x \<Rightarrow> PutUint16 x) @ PutUint16 (hs_Len h) @ KeyShare h"

interpretation handshake: self_delimiting Handshake_Append "Handshake_DecodeSlice Handshake_zero"
  Handshake_wire Handshake_ok
proof unfold_locales
  fix x buf assume "Handshake_ok x"
  then show "Handshake_Append x buf = Inr (buf @ Handshake_wire x)"
    by (auto simp: Handshake_Append_def Handshake_ok_def Handshake_wire_def Let_def split: option.splits)
next
  fix x pre suf assume ok: "Handshake_ok x"
  let ?buf = "pre @ Handshake_wire x @ suf" and ?off = "length pre"
  have "drop ?off ?buf = PutUint16 (hs_KeyKind x) @ PutUint16 (hs_CommonKeyKind x) @
      (case tmp236 x of None \<Rightarrow> [] | Some y \<Rightarrow> PutUint16 y) @ PutUint16 (hs_Len x) @ KeyShare x @ suf"
    by (simp add: Handshake_wire_def)
  note f1 = Uint16_at [OF this]
  note f2 = Uint16_at [OF f1(3)]
  show "Handshake_DecodeSlice Handshake_zero ?buf ?off = Inr (x, ?off + length (Handshake_wire x))"
  proof (cases "tmp236 x")
    case None
    then have "drop (?off + 2 + 2) ?buf = PutUint16 (hs_Len x) @ KeyShare x @ suf" using f2(3) by simp
    note f3 = Uint16_at [OF this]
    note f4 = bytes_at [OF f3(3)]
    show ?thesis unfolding Handshake_DecodeSlice_def Let_def
      using f1(1,2) f2(1,2) f3(1,2) f4(1,2) None ok
      by (simp add: Handshake_ok_def Handshake_wire_def Handshake_zero_def)
  next
    case (Some y)
    then have "drop (?off + 2 + 2) ?buf = PutUint16 y @ PutUint16 (hs_Len x) @ KeyShare x @ suf" using f2(3) by simp
    note f3 = Uint16_at [OF this]
    note f4 = Uint16_at [OF f3(3)]
    note f5 = bytes_at [OF f4(3)]
    show ?thesis unfolding Handshake_DecodeSlice_def Let_def
      using f1(1,2) f2(1,2) f3(1,2) f4(1,2) f5(1,2) Some ok
      by (simp add: Handshake_ok_def Handshake_wire_def Handshake_zero_def)
  qed
qed


definition ObjProbe_ok :: "ObjProbe \<Rightarrow> bool" where
  "ObjProbe_ok p \<longleftrightarrow> length (mac_Address (pb_MacAddress p)) = 6 \<and>
     (ip_Len (pb_IpAddress p) = 4 \<or> ip_Len (pb_IpAddress p) = 16) \<and>
     length (ip_Address (pb_IpAddress p)) = unat (ip_Len (pb_IpAddress p))"

definition ObjProbe_wire :: "ObjProbe \<Rightarrow> bytes" where
  "ObjProbe_wire p = mac_Address (pb_MacAddress p) @ ip_Len (pb_IpAddress p) # ip_Address (pb_IpAddress p) @
     PutUint16 (pb_Port p)"

interpretation probe: self_delimiting ObjProbe_Append ObjProbe_DecodeSlice ObjProbe_wire ObjProbe_ok
proof unfold_locales
  fix x buf assume "ObjProbe_ok x"
  then show "ObjProbe_Append x buf = Inr (buf @ ObjProbe_wire x)"
    by (auto simp: ObjProbe_Append_def MacAddress_Append_def IPAddress_Append_def ObjProbe_ok_def ObjProbe_wire_def Let_def)
next
  fix x pre suf assume ok: "ObjProbe_ok x"
  let ?buf = "pre @ ObjProbe_wire x @ suf" and ?off = "length pre"
  let ?m = "mac_Address (pb_MacAddress x)" and ?i = "pb_IpAddress x"
  have "drop ?off ?buf = ?m @ ip_Len ?i # ip_Address ?i @ PutUint16 (pb_Port x) @ suf" by (simp add: ObjProbe_wire_def)
  note f1 = bytes_at [OF this]
  note f2 = byte_at [OF f1(3)]
  note f3 = bytes_at [OF f2(3)]
  note f4 = Uint16_at [OF f3(3)]
  have l: "length ?m = 6" "length (ip_Address ?i) = unat (ip_Len ?i)" "ip_Len ?i = 4 \<or> ip_Len ?i = 16"
    using ok by (simp_all add: ObjProbe_ok_def)
  have m: "MacAddress_DecodeSlice ?buf ?off = Inr (pb_MacAddress x, ?off + 6)"
    unfolding MacAddress_DecodeSlice_def using f1(1,2) l(1) by simp
  have i: "IPAddress_DecodeSlice ?buf (?off + 6) = Inr (?i, ?off + 6 + 1 + unat (ip_Len ?i))"
    unfolding IPAddress_DecodeSlice_def Let_def using f2(1,2) f3(1,2) l by simp
  show "ObjProbe_DecodeSlice ?buf ?off = Inr (x, ?off + length (ObjProbe_wire x))"
    unfolding ObjProbe_DecodeSlice_def m i rbind.simps case_prod_conv
    using f4(1,2) l(1,2) by (simp add: ObjProbe_wire_def)
qed

section \<open>Properties\<close>

text \<open>
  The datagrams of the session layer are read back as they were written: a packet whose length
  field is the length of its data, a handshake whose fields are consistent and a probe with an address
  of four or sixteen bytes are encoded without error, and \<open>DecodeExact\<close> of the bytes returns them.
\<close>

theorem session_packets_roundtrip:
  assumes "Packet_ok p" and "Handshake_ok h" and "ObjProbe_ok b"
  shows "(\<exists>w. Packet_Append p [] = Inr w \<and> length w = 6 + length (pk_Data p) \<and> Packet_DecodeExact w = Inr p) \<and>
    (\<exists>w. Handshake_Append h [] = Inr w \<and> Handshake_DecodeExact w = Inr h) \<and>
    (\<exists>w. ObjProbe_Append b [] = Inr w \<and> ObjProbe_DecodeExact w = Inr b)"
  using packet.enc_wire [OF assms(1), of "[]"] packet.exact_roundtrip [OF assms(1)]
    handshake.enc_wire [OF assms(2), of "[]"] handshake.exact_roundtrip [OF assms(2)]
    probe.enc_wire [OF assms(3), of "[]"] probe.exact_roundtrip [OF assms(3)]
  by (simp add: Packet_DecodeExact_def Handshake_DecodeExact_def ObjProbe_DecodeExact_def Packet_wire_def)

theorem session_packets_roundtrip_witness:
  "(\<exists>w. Packet_Append \<lparr>pk_Header = ObjHeader_zero\<lparr>oh_Len := 2\<rparr>, pk_Data = [7, 8]\<rparr> [] = Inr w \<and> length w = 8) \<and>
    (\<exists>w. Handshake_Append \<lparr>hs_KeyKind = 24, hs_CommonKeyKind = 115, tmp236 = Some 300, hs_Len = 1, KeyShare = [9]\<rparr> [] = Inr w \<and>
       Handshake_DecodeExact w = Inr \<lparr>hs_KeyKind = 24, hs_CommonKeyKind = 115, tmp236 = Some 300, hs_Len = 1, KeyShare = [9]\<rparr>)"
  using session_packets_roundtrip
    [of "\<lparr>pk_Header = ObjHeader_zero\<lparr>oh_Len := 2\<rparr>, pk_Data = [7, 8]\<rparr>"
      "\<lparr>hs_KeyKind = 24, hs_CommonKeyKind = 115, tmp236 = Some 300, hs_Len = 1, KeyShare = [9]\<rparr>"
      "\<lparr>pb_MacAddress = \<lparr>mac_Address = [1, 2, 3, 4, 5, 6]\<rparr>, pb_IpAddress = \<lparr>ip_Len = 4, ip_Address = [127, 0, 0, 1]\<rparr>, pb_Port = 9\<rparr>"]
  by (auto simp: Packet_ok_def Handshake_ok_def ObjProbe_ok_def)

end
