(* ===== verification/Obj_Mask.thy ===== *)
theory Obj_Mask
  imports Obj_Packet
begin

text \<open>
  Header masking (\<open>src/objproto/mask.go\<close>): the first byte of a header selects a row of \<open>maskTable\<close>,
  which hides the kind and the connection number of the packet. The random byte \<open>newMaskSeed\<close> draws
  is an argument.
\<close>

unbundle bit_operations_syntax

section \<open>The table\<close>

text \<open>\<open>init\<close> fills the table with this function of the row and the column.\<close>

definition mask_entry :: "u8 \<Rightarrow> nat \<Rightarrow> u8" where
  "mask_entry b i = (b * [29, 139, 55] ! i) XOR ([90, 165, 60] ! i)"

definition maskTable :: "u8 \<Rightarrow> u8 list" where
  "maskTable b = map (mask_entry b) [0, 1, 2]"

definition maskFor :: "u8 \<Rightarrow> u8 list" where
  "maskFor b0 = maskTable b0"

definition maskKind :: "PacketKind \<Rightarrow> u8 \<Rightarrow> u8" where
  "maskKind kind b0 = kind XOR (maskTable b0 ! 0)"

definition unmaskKind :: "u8 \<Rightarrow> u8 \<Rightarrow> PacketKind" where
  "unmaskKind masked b0 = masked XOR (maskTable b0 ! 0)"

definition maskConnID :: "u16 \<Rightarrow> u8 \<Rightarrow> u16" where
  "maskConnID i b0 = (let m = maskTable b0 in i XOR (push_bit 8 (ucast (m ! 1)) OR ucast (m ! 2)))"

definition unmaskConnID :: "u16 \<Rightarrow> u8 \<Rightarrow> u16" where
  "unmaskConnID masked b0 = maskConnID masked b0"

definition newMaskSeed :: "u8 \<Rightarrow> u64 \<Rightarrow> bool \<Rightarrow> u8" where
  "newMaskSeed rnd phase application =
     (let b = rnd in
      if application then (b AND NOT 128) OR push_bit 7 (ucast (phase AND 1)) else b)"

definition headerByte0 :: "ObjHeader \<Rightarrow> u8" where
  "headerByte0 h = (let b = (if KeyPhase h then 128 else 0) in b OR MaskSeed h)"

definition headerKind :: "ObjHeader \<Rightarrow> PacketKind" where
  "headerKind h = unmaskKind (MaskedKind h) (headerByte0 h)"

definition headerConnID :: "ObjHeader \<Rightarrow> u16" where
  "headerConnID h = unmaskConnID (MaskedConnectionId h) (headerByte0 h)"

definition buildHeader :: "u8 \<Rightarrow> PacketKind \<Rightarrow> u16 \<Rightarrow> u16 \<Rightarrow> u64 \<Rightarrow> ObjHeader" where
  "buildHeader rnd kind connID len phase =
     (let b0 = newMaskSeed rnd phase (kind = PacketKind_Application);
          h = ObjHeader_zero;
          h = SetKeyPhase h (b0 AND 128 \<noteq> 0);
          h = SetMaskSeed h (b0 AND 127) in
      h\<lparr>MaskedKind := maskKind kind b0, MaskedConnectionId := maskConnID connID b0, oh_Len := len\<rparr>)"

section \<open>Masking and unmasking\<close>

lemma xor_cancel: "(x XOR m) XOR m = x" for x :: "'a::len word"
  by (simp add: xor.assoc)

lemma bit_128: "bit (128 :: u8) n \<longleftrightarrow> n = 7" "bit (128 :: int) n \<longleftrightarrow> n = 7" "bit (128 :: nat) n \<longleftrightarrow> n = 7"
proof -
  have eq: "(128 :: u8) = 2 ^ 7" "(128 :: int) = 2 ^ 7" "(128 :: nat) = 2 ^ 7" by simp_all
  show "bit (128 :: u8) n \<longleftrightarrow> n = 7" unfolding eq(1) bit_exp_iff by auto
  show "bit (128 :: int) n \<longleftrightarrow> n = 7" unfolding eq(2) bit_exp_iff by auto
  show "bit (128 :: nat) n \<longleftrightarrow> n = 7" unfolding eq(3) bit_exp_iff by auto
qed

lemma top_bit: "b AND 128 \<noteq> 0 \<longleftrightarrow> bit b 7" for b :: u8
proof -
  have "b AND 128 = (if bit b 7 then 128 else 0)"
  proof (rule bit_word_eqI, goal_cases)
    case (1 n)
    then show ?case by (auto simp: bit_and_iff bit_128)
  qed
  then show ?thesis by simp
qed

lemma KeyPhase_bit: "KeyPhase h \<longleftrightarrow> bit (tmp77 h) 7"
  by (simp add: KeyPhase_def keyPhase_def and_one_eq bit_iff_odd_drop_bit odd_iff_mod_2_eq_one)

lemma byte_split: "(if bit b 7 then 128 else 0) OR (b AND 127) = b" for b :: u8
proof (rule bit_word_eqI, goal_cases)
  case (1 n)
  then show ?case unfolding byte_masks(1)
    by (cases rule: top_bit_cases) (simp_all add: bit_or_iff bit_and_iff bit_mask_iff bit_128)
qed

lemma headerByte0_eq: "headerByte0 h = tmp77 h"
  using byte_split [of "tmp77 h"] by (simp add: headerByte0_def KeyPhase_bit MaskSeed_def)

lemma buildHeader_byte: "tmp77 (buildHeader rnd k i l ph) = newMaskSeed rnd ph (k = PacketKind_Application)"
proof -
  let ?b = "newMaskSeed rnd ph (k = PacketKind_Application)"
  have "tmp77 (SetMaskSeed (SetKeyPhase ObjHeader_zero (bit b 7)) (b AND 127)) = b" for b
  proof (rule bit_word_eqI, goal_cases)
    case (1 n)
    then show ?case unfolding SetMaskSeed_def SetKeyPhase_def setKeyPhase_def ObjHeader_zero_def byte_masks mask_numerals
      by (cases rule: top_bit_cases) (simp_all add: bit_simps)
  qed
  from this [of ?b] show ?thesis unfolding buildHeader_def Let_def top_bit by simp
qed

lemma newMaskSeed_phase: "bit (newMaskSeed rnd ph True) 7 \<longleftrightarrow> odd ph"
proof -
  have "bit (ucast (ph AND 1) :: u8) 0 \<longleftrightarrow> bit ph 0"
    by (simp add: bit_unsigned_iff bit_and_iff bit_1_iff del: bit_0)
  moreover have "bit (push_bit 7 w) 7 \<longleftrightarrow> bit w 0" for w :: u8 by (simp add: bit_push_bit_iff del: bit_0)
  ultimately show ?thesis
    by (simp add: newMaskSeed_def bit_or_iff bit_and_iff bit_not_iff bit_128 Let_def bit_0)
qed

section \<open>Properties\<close>

text \<open>
  Masking is undone by the receiver: whatever byte was drawn, the header a sender builds shows the
  receiver the kind, the connection number and the length that went in, and for application packets
  the parity of the key phase.
\<close>

theorem header_unmasks:
  "headerKind (buildHeader rnd kind cid len phase) = kind \<and> headerConnID (buildHeader rnd kind cid len phase) = cid \<and>
   oh_Len (buildHeader rnd kind cid len phase) = len \<and>
   (if kind = PacketKind_Application then KeyPhase (buildHeader rnd kind cid len phase) = odd phase
    else headerByte0 (buildHeader rnd kind cid len phase) = rnd)"
proof -
  let ?h = "buildHeader rnd kind cid len phase" and ?b = "newMaskSeed rnd phase (kind = PacketKind_Application)"
  have f: "MaskedKind ?h = maskKind kind ?b" "MaskedConnectionId ?h = maskConnID cid ?b" "oh_Len ?h = len"
    by (simp_all add: buildHeader_def Let_def)
  have b0: "headerByte0 ?h = ?b" by (simp add: headerByte0_eq buildHeader_byte)
  have "headerKind ?h = kind" "headerConnID ?h = cid"
    unfolding headerKind_def headerConnID_def f b0
    by (simp_all add: maskKind_def unmaskKind_def maskConnID_def unmaskConnID_def Let_def xor_cancel)
  moreover have "if kind = PacketKind_Application then KeyPhase ?h = odd phase else headerByte0 ?h = rnd"
    using newMaskSeed_phase [of rnd phase] b0 by (simp add: KeyPhase_bit buildHeader_byte newMaskSeed_def)
  ultimately show ?thesis using f(3) by simp
qed

text \<open>
  Every column of the table is a permutation of the bytes, as the comment on the multipliers says: no
  two seeds mask a kind, or a byte of the connection number, alike.
\<close>

theorem mask_columns_permute:
  assumes "i < 3"
  shows "inj (\<lambda>b. maskTable b ! i)"
proof -
  have inj: "b = c" if "b * k XOR d = c * k XOR d" "k * k' = (1 :: u8)" for b c d k k' :: u8
  proof -
    have "b * k = c * k" using arg_cong [OF that(1), of "\<lambda>x. x XOR d"] by (simp add: xor_cancel)
    then have "b * (k * k') = c * (k * k')" by (metis mult.assoc)
    then show ?thesis by (simp add: that(2))
  qed
  have inv: "(29 :: u8) * 53 = 1" "(139 :: u8) * 35 = 1" "(55 :: u8) * 135 = 1" by simp_all
  consider "i = 0" | "i = 1" | "i = 2" using assms by linarith
  then show ?thesis
    by cases (auto simp: inj_def maskTable_def mask_entry_def intro: inj [OF _ inv(1)] inj [OF _ inv(2)] inj [OF _ inv(3)])
qed

end
