(* ===== verification/Obj_Nonce.thy ===== *)
theory Obj_Nonce
  imports Prelude
begin

text \<open>
  The replay window of a session (\<open>src/objproto/objproto.go\<close>, \<open>receiveNonceTracker\<close>): the largest
  packet number seen, and the ranges of smaller ones that have not been seen yet. A received packet is
  first tried on the tracker (\<open>dryRun\<close>) and entered once it has been decrypted.
\<close>

section \<open>The tracker\<close>

record nonceRange =
  nr_start :: u64
  nr_end :: u64
  inserted :: time

record receiveNonceTracker =
  largestNonce :: u64
  lastNonceUsed :: time
  unusedRange :: "nonceRange list"

definition Reset :: "receiveNonceTracker \<Rightarrow> receiveNonceTracker" where
  "Reset r = r\<lparr>largestNonce := 0, lastNonceUsed := 0, unusedRange := []\<rparr>"

text \<open>The zero value of the struct.\<close>

definition zeroTracker :: receiveNonceTracker where
  "zeroTracker = \<lparr>largestNonce = 0, lastNonceUsed = 0, unusedRange = []\<rparr>"

text \<open>The loop that takes a number out of the range that holds it; \<open>None\<close> when there is none.\<close>

fun take_nonce :: "u64 \<Rightarrow> time \<Rightarrow> nonceRange list \<Rightarrow> nonceRange list option" where
  "take_nonce nonce now [] = None"
| "take_nonce nonce now (r # rs) =
     (if nr_start r \<le> nonce \<and> nr_end r \<ge> nonce then
        Some (if nr_start r = nonce \<and> nr_end r = nonce then rs
              else if nr_start r = nonce then r\<lparr>nr_start := nr_start r + 1\<rparr> # rs
              else if nr_end r = nonce then r\<lparr>nr_end := nr_end r - 1\<rparr> # rs
              else r\<lparr>nr_end := nonce - 1\<rparr> #
                   \<lparr>nr_start = nonce + 1, nr_end = nr_end r, inserted = now\<rparr> # rs)
      else map_option ((#) r) (take_nonce nonce now rs))"

text \<open>The loop that merges adjacent ranges, with its recheck of a merged one.\<close>

fun merge_adjacent :: "nonceRange list \<Rightarrow> nonceRange list" where
  "merge_adjacent (r # r' # rs) =
     (if nr_end r + 1 = nr_start r'
      then merge_adjacent (r\<lparr>nr_end := nr_end r', inserted := inserted r'\<rparr> # rs)
      else r # merge_adjacent (r' # rs))"
| "merge_adjacent rs = rs"

definition InsertNonce :: "u64 \<Rightarrow> time \<Rightarrow> bool \<Rightarrow> receiveNonceTracker \<Rightarrow> bool \<times> receiveNonceTracker" where
  "InsertNonce nonce now dryRun r =
     (if nonce > largestNonce r then
        if dryRun then (True, r)
        else
          let r = (if nonce > largestNonce r + 1
                   then r\<lparr>unusedRange := unusedRange r @
                          [\<lparr>nr_start = largestNonce r + 1, nr_end = nonce - 1, inserted = now\<rparr>]\<rparr>
                   else r) in
          (True, r\<lparr>largestNonce := nonce\<rparr>)
      else
        case take_nonce nonce now (unusedRange r) of
          None \<Rightarrow> (False, r)
        | Some rs \<Rightarrow> if dryRun then (True, r) else (True, r\<lparr>unusedRange := merge_adjacent rs\<rparr>))"

section \<open>The set of numbers seen\<close>

definition range_set :: "nonceRange \<Rightarrow> u64 set" where
  "range_set r = {nr_start r .. nr_end r}"

abbreviation unseen :: "nonceRange list \<Rightarrow> u64 set" where
  "unseen rs \<equiv> \<Union> (range_set ` set rs)"

definition seen :: "receiveNonceTracker \<Rightarrow> u64 set" where
  "seen r = {n. 0 < n \<and> n \<le> largestNonce r} - unseen (unusedRange r)"

text \<open>Ranges are not empty, in order, apart, above zero and below the largest number.\<close>

definition nranges_ok :: "u64 \<Rightarrow> nonceRange list \<Rightarrow> bool" where
  "nranges_ok m rs \<longleftrightarrow> (\<forall>r \<in> set rs. 0 < nr_start r \<and> nr_start r \<le> nr_end r \<and> nr_end r < m) \<and>
     sorted_wrt (\<lambda>a b. nr_end a < nr_start b) rs"

definition ntracker_ok :: "receiveNonceTracker \<Rightarrow> bool" where
  "ntracker_ok r \<longleftrightarrow> nranges_ok (largestNonce r) (unusedRange r)"

lemma nranges_ok_Cons:
  "nranges_ok m (r # rs) \<longleftrightarrow> 0 < nr_start r \<and> nr_start r \<le> nr_end r \<and> nr_end r < m \<and>
     (\<forall>b \<in> set rs. nr_end r < nr_start b) \<and> nranges_ok m rs"
  by (auto simp: nranges_ok_def)

lemma take_nonce_None: "take_nonce n now rs = None \<longleftrightarrow> n \<notin> unseen rs"
  by (induction rs) (auto simp: range_set_def)

text \<open>Successor and predecessor of words that have one.\<close>

lemma word_succ_pred:
  fixes n :: u64
  shows "a < n \<Longrightarrow> x \<le> n - 1 \<longleftrightarrow> x < n" and "n < b \<Longrightarrow> n + 1 \<le> x \<longleftrightarrow> n < x" and "n < b \<Longrightarrow> n + 1 \<le> b"
proof -
  show "x \<le> n - 1 \<longleftrightarrow> x < n" if "a < n"
  proof -
    have "unat (n - 1) = unat n - 1" using that by (subst unat_minus_one) auto
    with that show ?thesis by (auto simp: word_le_nat_alt word_less_nat_alt)
  qed
  have s: "unat (n + 1) = unat n + 1" if "n < b"
    using that unsigned_less [of b, where ?'a = nat] by (intro unat_plus_one) (simp add: word_less_nat_alt)
  show "n + 1 \<le> x \<longleftrightarrow> n < x" if "n < b" using s [OF that] by (auto simp: word_le_nat_alt word_less_nat_alt)
  show "n + 1 \<le> b" if "n < b" using s [OF that] that by (auto simp: word_le_nat_alt word_less_nat_alt)
qed

lemma interval_without:
  fixes n :: u64
  shows "n < b \<Longrightarrow> {n..b} - {n} = {n + 1..b}" and "a < n \<Longrightarrow> {a..n} - {n} = {a..n - 1}"
    and "a < n \<Longrightarrow> n < b \<Longrightarrow> {a..b} - {n} = {a..n - 1} \<union> {n + 1..b}"
  by (auto simp: word_succ_pred(1) word_succ_pred(2))

text \<open>Taking \<open>n\<close> out of one range: what is put in its place.\<close>

lemma take_nonce_hit:
  assumes "nr_start r \<le> n" and "n \<le> nr_end r" and "nranges_ok m (r # rs)" and "take_nonce n now (r # rs) = Some rs'"
  shows "nranges_ok m rs'" and "unseen rs' = unseen (r # rs) - {n}"
proof -
  have ok: "0 < nr_start r" "nr_end r < m" "\<forall>b \<in> set rs. nr_end r < nr_start b" "nranges_ok m rs"
    using assms(3) by (simp_all add: nranges_ok_Cons)
  have out: "n \<notin> unseen rs" using ok(3) assms(2) by (fastforce simp: range_set_def)
  then have eq: "unseen (r # rs) - {n} = ({nr_start r .. nr_end r} - {n}) \<union> unseen rs" by (auto simp: range_set_def)
  consider "nr_start r = n" "nr_end r = n" | "nr_start r = n" "n < nr_end r"
    | "nr_end r = n" "nr_start r < n" | "nr_start r < n" "n < nr_end r"
    using assms(1,2) by force
  then have "nranges_ok m rs' \<and> unseen rs' = ({nr_start r .. nr_end r} - {n}) \<union> unseen rs"
  proof cases
    case 1
    with assms(4) ok show ?thesis by auto
  next
    case 2
    with assms(4) have "rs' = r\<lparr>nr_start := n + 1\<rparr> # rs" by (auto split: if_splits)
    with 2 ok word_succ_pred(3) [of n "nr_end r"] word_succ_pred(2) [of n "nr_end r" 1] interval_without(1) [OF 2(2)] show ?thesis
      by (auto simp: nranges_ok_Cons range_set_def intro: word_gt_0 [THEN iffD2])
  next
    case 3
    with assms(4) have "rs' = r\<lparr>nr_end := n - 1\<rparr> # rs" by (auto split: if_splits)
    moreover have "n - 1 < n" using word_succ_pred(1) [OF 3(2), of "n - 1"] by simp
    ultimately show ?thesis using 3 ok word_succ_pred(1) [of "nr_start r" n] interval_without(2) [OF 3(2)]
      by (auto simp: nranges_ok_Cons range_set_def intro: less_trans)
  next
    case 4
    with assms(4) have "rs' = r\<lparr>nr_end := n - 1\<rparr> # \<lparr>nr_start = n + 1, nr_end = nr_end r, inserted = now\<rparr> # rs" by (auto split: if_splits)
    moreover have "n - 1 < n" using word_succ_pred(1) [OF 4(1), of "n - 1"] by simp
    moreover have "n < n + 1" using word_succ_pred(2) [OF 4(2), of "n + 1"] by simp
    ultimately show ?thesis
      using 4 ok word_succ_pred(1) [OF 4(1)] word_succ_pred(2,3) [OF 4(2)] interval_without(3) [OF 4]
      by (auto simp: nranges_ok_Cons range_set_def intro: less_trans)
  qed
  then show "nranges_ok m rs'" and "unseen rs' = unseen (r # rs) - {n}" unfolding eq by auto
qed


lemma starts_after:
  assumes "nranges_ok m rs'" and "unseen rs' \<subseteq> unseen rs" and "\<forall>c \<in> set rs. e < nr_start c"
  shows "\<forall>b \<in> set rs'. e < nr_start b"
proof
  fix b assume b: "b \<in> set rs'"
  then have "nr_start b \<in> range_set b" using assms(1) by (simp add: nranges_ok_def range_set_def)
  with b assms(2) obtain c where "c \<in> set rs" "nr_start b \<in> range_set c" by blast
  with assms(3) show "e < nr_start b" by (auto simp: range_set_def intro: less_le_trans)
qed

lemma take_nonce_Some:
  assumes "nranges_ok m rs" and "take_nonce n now rs = Some rs'"
  shows "nranges_ok m rs' \<and> unseen rs' = unseen rs - {n}"
  using assms
proof (induction rs arbitrary: rs')
  case (Cons r rs)
  show ?case
  proof (cases "nr_start r \<le> n \<and> n \<le> nr_end r")
    case True
    with take_nonce_hit [of r n m rs now rs'] Cons.prems show ?thesis by blast
  next
    case False
    then obtain rs1 where rs1: "take_nonce n now rs = Some rs1" "rs' = r # rs1" using Cons.prems(2) by auto
    with Cons.IH [of rs1] Cons.prems(1) have ih: "nranges_ok m rs1" "unseen rs1 = unseen rs - {n}"
      by (auto simp: nranges_ok_Cons)
    have "\<forall>b \<in> set rs1. nr_end r < nr_start b"
      by (rule starts_after [OF ih(1), of rs]) (use ih(2) Cons.prems(1) in \<open>auto simp: nranges_ok_Cons\<close>)
    with ih False Cons.prems(1) show ?thesis by (auto simp: rs1(2) nranges_ok_Cons range_set_def)
  qed
qed simp

lemma merge_adjacent_unseen:
  "nranges_ok m rs \<Longrightarrow> nranges_ok m (merge_adjacent rs) \<and> unseen (merge_adjacent rs) = unseen rs"
proof (induction rs rule: merge_adjacent.induct)
  case (1 r r' rs)
  let ?m = "r\<lparr>nr_end := nr_end r', inserted := inserted r'\<rparr>"
  have ok: "nr_start r \<le> nr_end r" "nr_end r < nr_start r'" "nr_start r' \<le> nr_end r'" "nranges_ok m (r' # rs)"
    using "1.prems" by (simp_all add: nranges_ok_Cons)
  show ?case
  proof (cases "nr_end r + 1 = nr_start r'")
    case True
    have "x \<in> range_set ?m \<longleftrightarrow> x \<in> range_set r \<or> x \<in> range_set r'" for x
      using ok(1-3) word_succ_pred(2) [OF ok(2), of x] True by (auto simp: range_set_def not_le)
    then have u: "unseen (?m # rs) = unseen (r # r' # rs)" by auto
    have "nranges_ok m (?m # rs)" using "1.prems" by (auto simp: nranges_ok_Cons)
    from "1.IH"(1) [OF True this] u True show ?thesis by simp
  next
    case False
    note ih = "1.IH"(2) [OF False ok(4)]
    have "\<forall>b \<in> set (merge_adjacent (r' # rs)). nr_end r < nr_start b"
      by (rule starts_after [of m _ "r' # rs"]) (use ih "1.prems" in \<open>auto simp: nranges_ok_Cons intro: less_le_trans\<close>)
    with ih False "1.prems" show ?thesis by (simp add: nranges_ok_Cons)
  qed
qed simp_all

section \<open>Each number once\<close>

lemma InsertNonce_spec:
  assumes "ntracker_ok r"
  shows "fst (InsertNonce n now dry r) \<longleftrightarrow> n \<noteq> 0 \<and> n \<notin> seen r" and "snd (InsertNonce n now True r) = r"
    and "ntracker_ok (snd (InsertNonce n now False r))"
    and "seen (snd (InsertNonce n now False r)) = (if n = 0 then seen r else insert n (seen r))"
proof -
  let ?m = "largestNonce r" and ?rs = "unusedRange r"
  have ok: "nranges_ok ?m ?rs" using assms by (simp add: ntracker_ok_def)
  have below: "x \<in> unseen ?rs \<Longrightarrow> 0 < x \<and> x < ?m" for x
    using ok by (fastforce simp: nranges_ok_def range_set_def)
  show "snd (InsertNonce n now True r) = r"
    by (simp add: InsertNonce_def Let_def split: option.splits)
  show "fst (InsertNonce n now dry r) \<longleftrightarrow> n \<noteq> 0 \<and> n \<notin> seen r"
    using below [of n] take_nonce_None [of n now ?rs]
    by (auto simp: InsertNonce_def seen_def Let_def word_gt_0 split: option.splits)
  have "ntracker_ok (snd (InsertNonce n now False r)) \<and>
      seen (snd (InsertNonce n now False r)) = (if n = 0 then seen r else insert n (seen r))"
  proof (cases "?m < n")
    case True
    let ?g = "\<lparr>nr_start = ?m + 1, nr_end = n - 1, inserted = now\<rparr>"
    have n0: "n \<noteq> 0" using True by auto
    have lt: "n - 1 < n" using word_succ_pred(1) [OF True, of "n - 1"] by simp
    have le: "x \<le> n - 1 \<longleftrightarrow> x < n" "?m + 1 \<le> x \<longleftrightarrow> ?m < x" for x
      by (rule word_succ_pred(1) [OF True], rule word_succ_pred(2) [OF True])
    have pos: "0 < ?m + 1" using le(2) [of "?m + 1"] by (metis word_gt_0 order_refl word_not_simps(1))
    have nm: "nranges_ok n ?rs" using ok True by (auto simp: nranges_ok_def)
    have nu: "n \<notin> unseen ?rs" using below [of n] True by (metis less_asym)
    show ?thesis
    proof (cases "n > ?m + 1")
      case gap: True
      then have "?m + 1 \<le> n - 1" by (simp add: le(1))
      then have "nranges_ok n (?rs @ [?g])"
        using nm pos lt ok le(2) by (auto simp: nranges_ok_def sorted_wrt_append) (metis order_refl less_trans)
      moreover have "seen (r\<lparr>unusedRange := ?rs @ [?g], largestNonce := n\<rparr>) = insert n (seen r)"
        using True n0 nu below le by (auto simp: seen_def range_set_def word_gt_0 not_le) (metis leD)
      ultimately show ?thesis using True gap n0 by (simp add: InsertNonce_def ntracker_ok_def)
    next
      case False
      then have "n = ?m + 1" using le(2) [of n] True by auto
      moreover have "x \<le> ?m" if "x \<le> n" "x \<noteq> n" for x
      proof (rule ccontr)
        assume "\<not> x \<le> ?m"
        then have "?m + 1 \<le> x" using le(2) [of x] by simp
        with False that show False by simp
      qed
      then have "seen (r\<lparr>largestNonce := n\<rparr>) = insert n (seen r)"
        using True n0 nu by (auto simp: seen_def word_gt_0)
      ultimately show ?thesis using True False n0 nm by (simp add: InsertNonce_def ntracker_ok_def)
    qed
  next
    case False
    show ?thesis
    proof (cases "take_nonce n now ?rs")
      case None
      then have "n \<notin> unseen ?rs" by (simp add: take_nonce_None)
      with False None assms show ?thesis by (auto simp: InsertNonce_def seen_def word_gt_0 not_less)
    next
      case (Some rs')
      have n: "n \<in> unseen ?rs" using Some take_nonce_None [of n now ?rs] by auto
      note t = take_nonce_Some [OF ok Some]
      note m = merge_adjacent_unseen [OF t [THEN conjunct1]]
      have "seen (r\<lparr>unusedRange := merge_adjacent rs'\<rparr>) = insert n (seen r)"
        using t m n below [OF n] by (auto simp: seen_def)
      with False Some m below [OF n] show ?thesis by (auto simp: InsertNonce_def ntracker_ok_def)
    qed
  qed
  then show "ntracker_ok (snd (InsertNonce n now False r))"
    and "seen (snd (InsertNonce n now False r)) = (if n = 0 then seen r else insert n (seen r))" by simp_all
qed


text \<open>The numbers of a session's packets in the order of their arrival; the flag says whether each is taken.\<close>

fun accepts :: "(u64 \<times> time) list \<Rightarrow> receiveNonceTracker \<Rightarrow> bool list" where
  "accepts [] r = []"
| "accepts ((n, now) # ns) r = (let (b, r') = InsertNonce n now False r in b # accepts ns r')"

lemma accepts_spec:
  "ntracker_ok r \<Longrightarrow> accepts ns r =
     map (\<lambda>k. fst (ns ! k) \<noteq> 0 \<and> fst (ns ! k) \<notin> seen r \<union> fst ` set (take k ns)) [0..<length ns]"
proof (induction ns arbitrary: r)
  case (Cons x ns)
  obtain n now where x: "x = (n, now)" by force
  let ?r = "snd (InsertNonce n now False r)"
  note sp = InsertNonce_spec [OF Cons.prems, of n now]
  have zero: "0 \<notin> seen q" for q by (simp add: seen_def)
  have "accepts (x # ns) r = (n \<noteq> 0 \<and> n \<notin> seen r) # accepts ns ?r"
    using sp(1) [of False] by (simp add: x case_prod_unfold Let_def)
  also have "accepts ns ?r = map (\<lambda>k. fst (ns ! k) \<noteq> 0 \<and> fst (ns ! k) \<notin> seen ?r \<union> fst ` set (take k ns)) [0..<length ns]"
    by (rule Cons.IH [OF sp(3)])
  also have "\<dots> = map (\<lambda>k. fst ((x # ns) ! Suc k) \<noteq> 0 \<and>
      fst ((x # ns) ! Suc k) \<notin> seen r \<union> fst ` set (take (Suc k) (x # ns))) [0..<length ns]"
    using sp(4) by (intro map_cong) (auto simp: x)
  finally show ?case by (auto simp: map_upt_Suc x simp del: upt_Suc)
qed simp

section \<open>Properties\<close>

text \<open>
  Replay protection. From a fresh tracker, whatever order the packet numbers arrive in, a packet is
  taken exactly when its number is not zero and has not arrived before: each number once, and no number
  refused for coming late.
\<close>

theorem replay_exactly_once:
  "accepts ns (Reset r) = map (\<lambda>k. fst (ns ! k) \<noteq> 0 \<and> fst (ns ! k) \<notin> fst ` set (take k ns)) [0..<length ns]"
proof -
  have "ntracker_ok (Reset r)" "seen (Reset r) = {}"
    by (auto simp: ntracker_ok_def nranges_ok_def Reset_def seen_def)
  then show ?thesis by (simp add: accepts_spec)
qed

text \<open>
  The trial before decryption and the entry after it agree: on a well-formed tracker \<open>dryRun\<close>
  gives the answer of the real call and leaves the tracker as it is, and the real call refuses exactly
  the numbers already seen, keeps the tracker well-formed and adds just its number.
\<close>

theorem dry_run_agrees:
  assumes "ntracker_ok r"
  shows "fst (InsertNonce n now True r) = fst (InsertNonce n now' False r) \<and> snd (InsertNonce n now True r) = r \<and>
    fst (InsertNonce n now' False r) = (n \<noteq> 0 \<and> n \<notin> seen r) \<and> ntracker_ok (snd (InsertNonce n now' False r)) \<and>
    seen (snd (InsertNonce n now' False r)) = (if n = 0 then seen r else insert n (seen r))"
  using InsertNonce_spec [OF assms] by simp

theorem dry_run_agrees_witness:
  "let r = \<lparr>largestNonce = 9, lastNonceUsed = 0, unusedRange = [\<lparr>nr_start = 3, nr_end = 6, inserted = 5\<rparr>]\<rparr> in
    fst (InsertNonce 4 8 True r) \<and> snd (InsertNonce 4 8 False r) = r\<lparr>unusedRange :=
      [\<lparr>nr_start = 3, nr_end = 3, inserted = 5\<rparr>, \<lparr>nr_start = 5, nr_end = 6, inserted = 8\<rparr>]\<rparr> \<and>
    fst (InsertNonce 4 8 False r) = (4 \<noteq> (0 :: u64) \<and> 4 \<notin> seen r)"
proof -
  let ?r = "\<lparr>largestNonce = 9, lastNonceUsed = 0, unusedRange = [\<lparr>nr_start = 3, nr_end = 6, inserted = 5\<rparr>]\<rparr>"
  have "ntracker_ok ?r" by (simp add: ntracker_ok_def nranges_ok_def)
  from dry_run_agrees [OF this, of 4 8 8] show ?thesis unfolding Let_def by (simp add: InsertNonce_def)
qed

end
