(* ===== verification/Obj_Msg.thy ===== *)
theory Obj_Msg
  imports Prelude "HOL-Library.Multiset"
begin

text \<open>
  The message channel between the socket and the reader of a connection (\<open>src/objproto/message.go\<close>).
  A sender never blocks: when the channel is full, a goroutine carries the message on, so that messages
  can enter the channel out of order; each has a sequence number, and the reader keeps what comes early
  in \<open>reorderBuf\<close>.

  The goroutines that have not yet handed over their message are the list \<open>senders\<close>; the contexts of
  the source are the flag \<open>cancelled\<close>. A read that would wait has the outcome \<open>RecvBlock\<close>.
\<close>

section \<open>The channel\<close>

record 'm internalMessage =
  im_msg :: 'm
  im_seqNum :: u64

record 'm messageChannel =
  messageChan :: "'m internalMessage list"
  chanCap :: nat
  chanClosed :: bool
  cancelled :: bool
  senders :: "'m internalMessage list"
  reorderBuf :: "'m internalMessage list"
  recvSeqNum :: u64
  mc_seqNum :: u64

text \<open>
  What a call reports: \<open>ErrChannelClosed\<close>, the error \<open>context.Canceled\<close> of the channel's own
  context, or the error of the caller's context.
\<close>

datatype chan_error = ErrChannelClosed | Canceled | CtxErr

definition NewMessageChannel :: "nat \<Rightarrow> 'm messageChannel" where
  "NewMessageChannel buffer =
     \<lparr>messageChan = [], chanCap = buffer, chanClosed = False, cancelled = False, senders = [],
      reorderBuf = [], recvSeqNum = 0, mc_seqNum = 0\<rparr>"

text \<open>\<open>CloseChannel\<close> up to its wait for the senders, and what follows the wait.\<close>

definition CloseChannel :: "'m messageChannel \<Rightarrow> 'm messageChannel" where
  "CloseChannel c = c\<lparr>cancelled := True\<rparr>"

definition finishClose :: "'m messageChannel \<Rightarrow> 'm messageChannel option" where
  "finishClose c = (if cancelled c \<and> senders c = [] then Some (c\<lparr>chanClosed := True\<rparr>) else None)"

fun take_seq :: "u64 \<Rightarrow> 'm internalMessage list \<Rightarrow> ('m \<times> 'm internalMessage list) option" where
  "take_seq n [] = None"
| "take_seq n (x # xs) =
     (if im_seqNum x = n then Some (im_msg x, xs) else map_option (\<lambda>(m, ys). (m, x # ys)) (take_seq n xs))"

definition popFromReorderBuf :: "'m messageChannel \<Rightarrow> ('m \<times> 'm messageChannel) option" where
  "popFromReorderBuf c =
     map_option (\<lambda>(m, buf). (m, c\<lparr>reorderBuf := buf, recvSeqNum := recvSeqNum c + 1\<rparr>))
       (take_seq (recvSeqNum c) (reorderBuf c))"

datatype 'm recv_outcome = RecvOk 'm | RecvErr chan_error | RecvBlock

text \<open>The loop of \<open>ReceiveMessage\<close> over what the channel holds.\<close>

fun recv_loop ::
  "u64 \<Rightarrow> 'm internalMessage list \<Rightarrow> 'm internalMessage list \<Rightarrow>
     'm option \<times> 'm internalMessage list \<times> 'm internalMessage list" where
  "recv_loop n [] buf = (None, [], buf)"
| "recv_loop n (x # xs) buf =
     (if im_seqNum x = n then (Some (im_msg x), xs, buf) else recv_loop n xs (buf @ [x]))"

definition ReceiveMessage :: "'m messageChannel \<Rightarrow> 'm recv_outcome \<times> 'm messageChannel" where
  "ReceiveMessage c =
     (case popFromReorderBuf c of
        Some (m, c) \<Rightarrow> (RecvOk m, c)
      | None \<Rightarrow>
          let (r, ch, buf) = recv_loop (recvSeqNum c) (messageChan c) (reorderBuf c);
              c = c\<lparr>messageChan := ch, reorderBuf := buf\<rparr> in
          (case r of
             Some m \<Rightarrow> (RecvOk m, c\<lparr>recvSeqNum := recvSeqNum c + 1\<rparr>)
           | None \<Rightarrow> (if chanClosed c then RecvErr ErrChannelClosed else RecvBlock, c)))"

text \<open>
  Each round of \<open>ReceiveMessageContext\<close> selects one ready arm; the list gives the arms in the order
  they are taken. A round whose arm is not ready waits.
\<close>

datatype recv_arm = ArmChan | ArmCtx | ArmClosed

fun ReceiveMessageContext :: "recv_arm list \<Rightarrow> 'm messageChannel \<Rightarrow> 'm recv_outcome \<times> 'm messageChannel" where
  "ReceiveMessageContext arms c =
     (case popFromReorderBuf c of
        Some (m, c) \<Rightarrow> (RecvOk m, c)
      | None \<Rightarrow>
          (case arms of
             [] \<Rightarrow> (RecvBlock, c)
           | ArmCtx # _ \<Rightarrow> (RecvErr CtxErr, c)
           | ArmClosed # _ \<Rightarrow> (if cancelled c then RecvErr Canceled else RecvBlock, c)
           | ArmChan # arms \<Rightarrow>
               (case messageChan c of
                  [] \<Rightarrow> (if chanClosed c then RecvErr ErrChannelClosed else RecvBlock, c)
                | x # xs \<Rightarrow>
                    if im_seqNum x = recvSeqNum c
                    then (RecvOk (im_msg x), c\<lparr>messageChan := xs, recvSeqNum := recvSeqNum c + 1\<rparr>)
                    else ReceiveMessageContext arms (c\<lparr>messageChan := xs, reorderBuf := reorderBuf c @ [x]\<rparr>))))"

declare ReceiveMessageContext.simps [simp del]

text \<open>
  Both senders refuse once the context is cancelled and otherwise take the next number.
  \<open>SendMessage\<close> tries the channel and leaves a full one to a goroutine; \<open>SendMessageBlocking\<close>
  is itself the waiting sender. A sender between its number and its first try is one that waits.
\<close>

definition mc_SendMessage :: "'m \<Rightarrow> 'm messageChannel \<Rightarrow> (chan_error, unit) result \<times> 'm messageChannel" where
  "mc_SendMessage msg c =
     (if cancelled c then (Inl Canceled, c)
      else
        let x = \<lparr>im_msg = msg, im_seqNum = mc_seqNum c\<rparr>; c = c\<lparr>mc_seqNum := mc_seqNum c + 1\<rparr> in
        (Inr (), if length (messageChan c) < chanCap c then c\<lparr>messageChan := messageChan c @ [x]\<rparr>
                 else c\<lparr>senders := senders c @ [x]\<rparr>))"

definition SendMessageBlocking :: "'m \<Rightarrow> 'm messageChannel \<Rightarrow> (chan_error, unit) result \<times> 'm messageChannel" where
  "SendMessageBlocking msg c =
     (if cancelled c then (Inl Canceled, c)
      else (Inr (), c\<lparr>mc_seqNum := mc_seqNum c + 1,
                      senders := senders c @ [\<lparr>im_msg = msg, im_seqNum = mc_seqNum c\<rparr>]\<rparr>))"

text \<open>A waiting sender hands over its message once there is room, or gives up at the end.\<close>

definition sender_delivers :: "nat \<Rightarrow> 'm messageChannel \<Rightarrow> 'm messageChannel option" where
  "sender_delivers k c =
     (if k < length (senders c) \<and> length (messageChan c) < chanCap c
      then Some (c\<lparr>messageChan := messageChan c @ [senders c ! k],
                   senders := take k (senders c) @ drop (Suc k) (senders c)\<rparr>)
      else None)"

definition sender_gives_up :: "nat \<Rightarrow> 'm messageChannel \<Rightarrow> 'm messageChannel option" where
  "sender_gives_up k c =
     (if k < length (senders c) \<and> cancelled c
      then Some (c\<lparr>senders := take k (senders c) @ drop (Suc k) (senders c)\<rparr>) else None)"

section \<open>Runs\<close>

text \<open>
  Everything accepted and everything read so far. Senders, the reader and the closer take turns in any
  way; \<open>2 ^ 64\<close> messages are never sent on one channel.
\<close>

record 'm chan_run =
  sent_msgs :: "'m list"
  read_msgs :: "'m list"
  chan :: "'m messageChannel"

fun outcome_msgs :: "'m recv_outcome \<Rightarrow> 'm list" where
  "outcome_msgs (RecvOk m) = [m]"
| "outcome_msgs _ = []"

inductive chan_step :: "'m chan_run \<Rightarrow> 'm chan_run \<Rightarrow> bool" where
  send: "mc_SendMessage m (chan s) = (Inr (), c) \<Longrightarrow> length (sent_msgs s) < 2 ^ 64 - 1 \<Longrightarrow>
     chan_step s (s\<lparr>sent_msgs := sent_msgs s @ [m], chan := c\<rparr>)"
| send_blocking: "SendMessageBlocking m (chan s) = (Inr (), c) \<Longrightarrow> length (sent_msgs s) < 2 ^ 64 - 1 \<Longrightarrow>
     chan_step s (s\<lparr>sent_msgs := sent_msgs s @ [m], chan := c\<rparr>)"
| deliver: "sender_delivers k (chan s) = Some c \<Longrightarrow> chan_step s (s\<lparr>chan := c\<rparr>)"
| give_up: "sender_gives_up k (chan s) = Some c \<Longrightarrow> chan_step s (s\<lparr>chan := c\<rparr>)"
| read: "ReceiveMessage (chan s) = (r, c) \<Longrightarrow>
     chan_step s (s\<lparr>read_msgs := read_msgs s @ outcome_msgs r, chan := c\<rparr>)"
| read_ctx: "ReceiveMessageContext arms (chan s) = (r, c) \<Longrightarrow>
     chan_step s (s\<lparr>read_msgs := read_msgs s @ outcome_msgs r, chan := c\<rparr>)"
| close: "chan_step s (s\<lparr>chan := CloseChannel (chan s)\<rparr>)"
| closed: "finishClose (chan s) = Some c \<Longrightarrow> chan_step s (s\<lparr>chan := c\<rparr>)"

inductive chan_reachable :: "nat \<Rightarrow> 'm chan_run \<Rightarrow> bool" for cap where
  init: "chan_reachable cap \<lparr>sent_msgs = [], read_msgs = [], chan = NewMessageChannel cap\<rparr>"
| step: "chan_reachable cap s \<Longrightarrow> chan_step s s' \<Longrightarrow> chan_reachable cap s'"

section \<open>The invariant\<close>

text \<open>
  What has been accepted and not read is in the channel, in the buffer or with a waiting sender, at
  most once, and exactly once until the channel is cancelled.
\<close>

definition numbered :: "'m list \<Rightarrow> nat \<Rightarrow> 'm internalMessage list" where
  "numbered ms k = map (\<lambda>i. \<lparr>im_msg = ms ! i, im_seqNum = of_nat i\<rparr>) [k..<length ms]"

definition held :: "'m messageChannel \<Rightarrow> 'm internalMessage multiset" where
  "held c = mset (messageChan c) + mset (reorderBuf c) + mset (senders c)"

definition holds :: "'m list \<Rightarrow> nat \<Rightarrow> 'm messageChannel \<Rightarrow> bool" where
  "holds ms k c \<longleftrightarrow> k \<le> length ms \<and> length ms < 2 ^ 64 \<and>
     mc_seqNum c = of_nat (length ms) \<and> recvSeqNum c = of_nat k \<and>
     held c \<subseteq># mset (numbered ms k) \<and> (cancelled c \<or> held c = mset (numbered ms k))"

definition chan_ok :: "nat \<Rightarrow> 'm chan_run \<Rightarrow> bool" where
  "chan_ok cap s \<longleftrightarrow> chanCap (chan s) = cap \<and> (chanClosed (chan s) \<longrightarrow> cancelled (chan s)) \<and>
     read_msgs s = take (length (read_msgs s)) (sent_msgs s) \<and>
     holds (sent_msgs s) (length (read_msgs s)) (chan s)"

lemma numbered_Cons:
  "k < length ms \<Longrightarrow> numbered ms k = \<lparr>im_msg = ms ! k, im_seqNum = of_nat k\<rparr> # numbered ms (Suc k)"
  by (simp add: numbered_def upt_conv_Cons)

lemma numbered_snoc:
  "k \<le> length ms \<Longrightarrow> numbered (ms @ [m]) k = numbered ms k @ [\<lparr>im_msg = m, im_seqNum = of_nat (length ms)\<rparr>]"
  by (simp add: numbered_def nth_append)

lemma numbered_unique:
  assumes "x \<in> set (numbered ms k)" "im_seqNum x = of_nat k" "k \<le> length ms" "length ms < 2 ^ 64"
  shows "k < length ms \<and> x = \<lparr>im_msg = ms ! k, im_seqNum = of_nat k\<rparr>"
proof -
  obtain i where i: "k \<le> i" "i < length ms" "x = \<lparr>im_msg = ms ! i, im_seqNum = of_nat i\<rparr>"
    using assms(1) by (auto simp: numbered_def)
  have "unat (of_nat i :: u64) = unat (of_nat k :: u64)" using i(3) assms(2) by simp
  then have "i = k" using i assms(3,4) by (simp add: unat_of_nat take_bit_nat_eq_self)
  then show ?thesis using i by simp
qed

text \<open>Taking the message with the awaited number out of what is held moves the reader on by one.\<close>

lemma holds_take:
  assumes "holds ms k c" "x \<in># held c" "im_seqNum x = recvSeqNum c"
    "held c' = held c - {#x#}" "mc_seqNum c' = mc_seqNum c" "recvSeqNum c' = recvSeqNum c + 1"
    "cancelled c' = cancelled c"
  shows "k < length ms \<and> im_msg x = ms ! k \<and> holds ms (Suc k) c'"
proof -
  have h: "k \<le> length ms" "length ms < 2 ^ 64" "recvSeqNum c = of_nat k" "held c \<subseteq># mset (numbered ms k)"
    "cancelled c \<or> held c = mset (numbered ms k)" "mc_seqNum c = of_nat (length ms)"
    using assms(1) by (simp_all add: holds_def)
  have "x \<in> set (numbered ms k)" using assms(2) h(4) mset_subset_eqD by fastforce
  then have x: "k < length ms" "x = \<lparr>im_msg = ms ! k, im_seqNum = of_nat k\<rparr>"
    using numbered_unique assms(3) h(1-3) by metis+
  have n: "mset (numbered ms k) = add_mset x (mset (numbered ms (Suc k)))"
    using x by (simp add: numbered_Cons)
  have "held c' \<subseteq># mset (numbered ms (Suc k))"
    using h(4) assms(2,4) n by (metis insert_subset_eq_iff multi_member_split add_mset_remove_trivial)
  moreover have "cancelled c \<or> held c' = mset (numbered ms (Suc k))"
    using h(5) assms(4) n by auto
  ultimately show ?thesis using x h assms(5-7) by (simp add: holds_def add.commute)
qed

lemma take_seq_Some:
  "take_seq n xs = Some (m, ys) \<Longrightarrow> \<exists>x. x \<in> set xs \<and> im_seqNum x = n \<and> im_msg x = m \<and> mset xs = add_mset x (mset ys)"
proof (induction xs arbitrary: ys)
  case (Cons a xs)
  then show ?case by (cases "im_seqNum a = n") fastforce+
qed simp

lemma take_seq_None: "take_seq n xs = None \<longleftrightarrow> (\<forall>x \<in> set xs. im_seqNum x \<noteq> n)"
  by (induction xs) auto

text \<open>What a read does, for the three ways it comes to an end.\<close>

definition read_ok :: "'m list \<Rightarrow> nat \<Rightarrow> 'm messageChannel \<Rightarrow> 'm recv_outcome \<Rightarrow> 'm messageChannel \<Rightarrow> bool" where
  "read_ok ms k c r c' \<longleftrightarrow> chanCap c' = chanCap c \<and> chanClosed c' = chanClosed c \<and> cancelled c' = cancelled c \<and>
     senders c' = senders c \<and>
     (case r of RecvOk m \<Rightarrow> k < length ms \<and> m = ms ! k \<and> holds ms (Suc k) c' | _ \<Rightarrow> holds ms k c')"

lemma popFromReorderBuf_ok:
  assumes "holds ms k c" "popFromReorderBuf c = Some (m, c')"
  shows "read_ok ms k c (RecvOk m) c'"
proof -
  obtain buf where p: "take_seq (recvSeqNum c) (reorderBuf c) = Some (m, buf)"
    "c' = c\<lparr>reorderBuf := buf, recvSeqNum := recvSeqNum c + 1\<rparr>"
    using assms(2) by (auto simp: popFromReorderBuf_def)
  obtain x where "x \<in> set (reorderBuf c)" "im_seqNum x = recvSeqNum c" "im_msg x = m"
    "mset (reorderBuf c) = add_mset x (mset buf)"
    using take_seq_Some[OF p(1)] by blast
  then show ?thesis using holds_take[OF assms(1), of x c'] p(2) by (simp add: read_ok_def held_def)
qed

lemma holds_reorder:
  "holds ms k c \<Longrightarrow> messageChan c = x # xs \<Longrightarrow>
     holds ms k (c\<lparr>messageChan := xs, reorderBuf := reorderBuf c @ [x]\<rparr>)"
  by (simp add: holds_def held_def)

lemma holds_front:
  assumes "holds ms k c" "messageChan c = x # xs" "im_seqNum x = recvSeqNum c"
  shows "read_ok ms k c (RecvOk (im_msg x)) (c\<lparr>messageChan := xs, recvSeqNum := recvSeqNum c + 1\<rparr>)"
  using holds_take[OF assms(1), of x "c\<lparr>messageChan := xs, recvSeqNum := recvSeqNum c + 1\<rparr>"] assms(2,3)
  by (simp add: read_ok_def held_def)

lemma ReceiveMessageContext_ok:
  "holds ms k c \<Longrightarrow> ReceiveMessageContext arms c = (r, c') \<Longrightarrow> read_ok ms k c r c'"
proof (induction arms c rule: ReceiveMessageContext.induct)
  case (1 arms c)
  show ?case
  proof (cases "popFromReorderBuf c")
    case (Some p)
    then show ?thesis using 1 popFromReorderBuf_ok by (cases p) (auto simp: ReceiveMessageContext.simps[of arms])
  next
    case pop: None
    have stay: "read_ok ms k c r c'" if "c' = c" "r = RecvBlock \<or> (\<exists>e. r = RecvErr e)"
      using 1(2) that by (auto simp: read_ok_def)
    show ?thesis
    proof (cases "\<exists>as x xs. arms = ArmChan # as \<and> messageChan c = x # xs")
      case True
      then obtain as x xs where a: "arms = ArmChan # as" "messageChan c = x # xs" by blast
      show ?thesis
      proof (cases "im_seqNum x = recvSeqNum c")
        case True
        then show ?thesis using 1(3) pop a(2) holds_front[OF 1(2) a(2)]
          by (auto simp: ReceiveMessageContext.simps[of "ArmChan # as"] a(1))
      next
        case False
        then have r: "ReceiveMessageContext as (c\<lparr>messageChan := xs, reorderBuf := reorderBuf c @ [x]\<rparr>) = (r, c')"
          using 1(3) pop a(2) by (simp add: ReceiveMessageContext.simps[of "ArmChan # as"] a(1))
        show ?thesis
          using 1(1)[OF pop a(1) _ a(2) False holds_reorder[OF 1(2) a(2)] r] by (simp add: read_ok_def)
      qed
    next
      case False
      then show ?thesis using 1(3) pop stay
        by (auto simp: ReceiveMessageContext.simps[of arms] split: list.splits recv_arm.splits if_splits)
    qed
  qed
qed

lemma recv_loop_ok:
  "holds ms k (c\<lparr>messageChan := ch, reorderBuf := buf\<rparr>) \<Longrightarrow>
   recv_loop (recvSeqNum c) ch buf = (r, ch', buf') \<Longrightarrow>
     (case r of None \<Rightarrow> holds ms k (c\<lparr>messageChan := ch', reorderBuf := buf'\<rparr>)
      | Some m \<Rightarrow> k < length ms \<and> m = ms ! k \<and>
          holds ms (Suc k) (c\<lparr>messageChan := ch', reorderBuf := buf', recvSeqNum := recvSeqNum c + 1\<rparr>))"
proof (induction ch arbitrary: buf)
  case (Cons x xs)
  show ?case
  proof (cases "im_seqNum x = recvSeqNum c")
    case True
    then show ?thesis using Cons.prems holds_front[OF Cons.prems(1), of x xs]
      by (auto simp: read_ok_def holds_def held_def)
  next
    case False
    then show ?thesis using Cons.prems Cons.IH[of "buf @ [x]"] holds_reorder[OF Cons.prems(1), of x xs] by simp
  qed
qed auto

lemma ReceiveMessage_ok:
  assumes "holds ms k c" "ReceiveMessage c = (r, c')"
  shows "read_ok ms k c r c'"
proof (cases "popFromReorderBuf c")
  case (Some p)
  then show ?thesis using assms popFromReorderBuf_ok by (cases p) (auto simp: ReceiveMessage_def)
next
  case None
  obtain q ch buf where l: "recv_loop (recvSeqNum c) (messageChan c) (reorderBuf c) = (q, ch, buf)"
    by (cases "recv_loop (recvSeqNum c) (messageChan c) (reorderBuf c)")
  have "holds ms k (c\<lparr>messageChan := messageChan c, reorderBuf := reorderBuf c\<rparr>)" using assms(1) by simp
  from recv_loop_ok[OF this l] show ?thesis
    using assms(2) None l by (auto simp: ReceiveMessage_def read_ok_def split: option.splits)
qed

text \<open>The other steps keep what is held.\<close>

lemma numbered_send:
  assumes "holds ms k c" "length ms < 2 ^ 64 - 1" "\<not> cancelled c" "cancelled c' = cancelled c"
    "held c' = add_mset \<lparr>im_msg = m, im_seqNum = mc_seqNum c\<rparr> (held c)"
    "mc_seqNum c' = mc_seqNum c + 1" "recvSeqNum c' = recvSeqNum c"
  shows "holds (ms @ [m]) k c'"
  using assms by (simp add: holds_def numbered_snoc add.commute)

lemma mc_SendMessage_ok:
  "holds ms k c \<Longrightarrow> length ms < 2 ^ 64 - 1 \<Longrightarrow> mc_SendMessage m c = (Inr (), c') \<Longrightarrow>
     holds (ms @ [m]) k c' \<and> chanCap c' = chanCap c \<and> chanClosed c' = chanClosed c \<and> cancelled c' = cancelled c"
  using numbered_send[of ms k c c' m] by (auto simp: mc_SendMessage_def Let_def held_def split: if_splits)

lemma SendMessageBlocking_ok:
  "holds ms k c \<Longrightarrow> length ms < 2 ^ 64 - 1 \<Longrightarrow> SendMessageBlocking m c = (Inr (), c') \<Longrightarrow>
     holds (ms @ [m]) k c' \<and> chanCap c' = chanCap c \<and> chanClosed c' = chanClosed c \<and> cancelled c' = cancelled c"
  using numbered_send[of ms k c c' m] by (auto simp: SendMessageBlocking_def held_def split: if_splits)

lemma mset_remove_nth: "k < length xs \<Longrightarrow> mset xs = add_mset (xs ! k) (mset (take k xs) + mset (drop (Suc k) xs))"
  by (metis id_take_nth_drop mset_append mset.simps(2) union_mset_add_mset_right)

lemma sender_delivers_ok:
  "holds ms k c \<Longrightarrow> sender_delivers i c = Some c' \<Longrightarrow>
     holds ms k c' \<and> chanCap c' = chanCap c \<and> chanClosed c' = chanClosed c \<and> cancelled c' = cancelled c"
  using mset_remove_nth[of i "senders c"]
  by (auto simp: sender_delivers_def holds_def held_def split: if_splits)

lemma sender_gives_up_ok:
  "holds ms k c \<Longrightarrow> sender_gives_up i c = Some c' \<Longrightarrow>
     holds ms k c' \<and> chanCap c' = chanCap c \<and> chanClosed c' = chanClosed c \<and> cancelled c' = cancelled c"
  using mset_remove_nth[of i "senders c"]
  by (auto simp: sender_gives_up_def holds_def held_def split: if_splits dest: mset_subset_eq_insertD subset_mset.less_imp_le)

lemma chan_ok_read:
  assumes "chan_ok cap s" "read_ok (sent_msgs s) (length (read_msgs s)) (chan s) r c"
  shows "chan_ok cap (s\<lparr>read_msgs := read_msgs s @ outcome_msgs r, chan := c\<rparr>)"
  using assms by (cases r) (auto simp: chan_ok_def read_ok_def take_Suc_conv_app_nth)

lemma chan_ok_step: "chan_step s s' \<Longrightarrow> chan_ok cap s \<Longrightarrow> chan_ok cap s'"
proof (induction rule: chan_step.induct)
  case (send m s c)
  then show ?case using mc_SendMessage_ok[of "sent_msgs s" "length (read_msgs s)" "chan s" m c]
    by (auto simp: chan_ok_def holds_def)
next
  case (send_blocking m s c)
  then show ?case using SendMessageBlocking_ok[of "sent_msgs s" "length (read_msgs s)" "chan s" m c]
    by (auto simp: chan_ok_def holds_def)
next
  case (deliver i s c)
  then show ?case using sender_delivers_ok[of "sent_msgs s" "length (read_msgs s)" "chan s" i c]
    by (auto simp: chan_ok_def)
next
  case (give_up i s c)
  then show ?case using sender_gives_up_ok[of "sent_msgs s" "length (read_msgs s)" "chan s" i c]
    by (auto simp: chan_ok_def)
next
  case (read s r c)
  then show ?case by (intro chan_ok_read ReceiveMessage_ok) (simp_all add: chan_ok_def)
next
  case (read_ctx arms s r c)
  then show ?case by (intro chan_ok_read ReceiveMessageContext_ok[of _ _ _ arms]) (simp_all add: chan_ok_def)
next
  case (close s)
  then show ?case by (auto simp: chan_ok_def CloseChannel_def holds_def held_def)
next
  case (closed s c)
  then show ?case by (auto simp: chan_ok_def finishClose_def holds_def held_def split: if_splits)
qed

lemma chan_ok_reachable: "chan_reachable cap s \<Longrightarrow> chan_ok cap s"
proof (induction rule: chan_reachable.induct)
  case init
  show ?case by (simp add: chan_ok_def NewMessageChannel_def holds_def held_def numbered_def)
next
  case (step s s')
  then show ?case by (blast intro: chan_ok_step)
qed

section \<open>The reader sees what was sent, in order\<close>

lemma recv_loop_finds:
  "\<exists>x \<in> set ch. im_seqNum x = n \<Longrightarrow> \<exists>m ch' buf'. recv_loop n ch buf = (Some m, ch', buf')"
  by (induction n ch buf rule: recv_loop.induct) auto

lemma recv_loop_drains: "recv_loop n ch buf = (None, ch', buf') \<Longrightarrow> ch' = []"
  by (induction n ch buf rule: recv_loop.induct) (auto split: if_splits)

lemma ReceiveMessage_finds:
  assumes "x \<in> set (messageChan c) \<union> set (reorderBuf c)" "im_seqNum x = recvSeqNum c"
  shows "\<exists>m c'. ReceiveMessage c = (RecvOk m, c')"
proof (cases "popFromReorderBuf c")
  case (Some p)
  then show ?thesis by (cases p) (simp add: ReceiveMessage_def)
next
  case None
  then have "\<forall>x \<in> set (reorderBuf c). im_seqNum x \<noteq> recvSeqNum c"
    by (simp add: popFromReorderBuf_def take_seq_None)
  then have "\<exists>x \<in> set (messageChan c). im_seqNum x = recvSeqNum c" using assms by blast
  then obtain m ch' buf' where "recv_loop (recvSeqNum c) (messageChan c) (reorderBuf c) = (Some m, ch', buf')"
    using recv_loop_finds by blast
  then show ?thesis using None by (simp add: ReceiveMessage_def)
qed

lemma ReceiveMessage_blocked: "ReceiveMessage c = (RecvBlock, c') \<Longrightarrow> messageChan c' = []"
  using recv_loop_drains[of "recvSeqNum c" "messageChan c" "reorderBuf c"]
  by (auto simp: ReceiveMessage_def Let_def split: option.splits prod.splits if_splits)

lemma recv_loop_keeps: "recv_loop n ch buf = (None, ch', buf') \<Longrightarrow> mset ch' + mset buf' = mset ch + mset buf"
  by (induction n ch buf rule: recv_loop.induct) (auto split: if_splits)

lemma ReceiveMessage_blocked_same:
  "ReceiveMessage c = (RecvBlock, c') \<Longrightarrow> recvSeqNum c' = recvSeqNum c \<and> held c' = held c"
  using recv_loop_keeps[of "recvSeqNum c" "messageChan c" "reorderBuf c"]
  by (auto simp: ReceiveMessage_def Let_def held_def split: option.splits prod.splits if_splits)

lemma awaited_is_held:
  assumes "holds ms k c" "k < length ms" "\<not> cancelled c"
  shows "\<exists>x. x \<in># held c \<and> im_seqNum x = recvSeqNum c"
  using assms by (auto simp: holds_def numbered_Cons)

lemma ReceiveMessage_open: "ReceiveMessage c = (RecvErr e, c') \<Longrightarrow> chanClosed c"
  by (auto simp: ReceiveMessage_def Let_def split: option.splits prod.splits if_splits)

lemma awaited_with_sender:
  assumes "holds ms k c" "x \<in> set (senders c)" "im_seqNum x = recvSeqNum c" "messageChan c = []" "0 < chanCap c"
  shows "\<exists>i. sender_delivers i c \<noteq> None \<and> im_seqNum (senders c ! i) = recvSeqNum c \<and> im_msg (senders c ! i) = ms ! k"
proof -
  obtain i where i: "i < length (senders c)" "senders c ! i = x" using assms(2) by (auto simp: in_set_conv_nth)
  have "im_msg x = ms ! k"
    using holds_take[OF assms(1), of x "c\<lparr>senders := remove1 x (senders c), recvSeqNum := recvSeqNum c + 1\<rparr>"] assms(2,3)
    by (simp add: held_def)
  then show ?thesis using i assms(3-5) by (intro exI[of _ i]) (simp add: sender_delivers_def)
qed

lemma next_is_read:
  assumes ok: "holds ms k c" and open_: "\<not> cancelled c" "chanClosed c \<longrightarrow> cancelled c" "0 < chanCap c" and k: "k < length ms"
  shows "(\<exists>c'. ReceiveMessage c = (RecvOk (ms ! k), c')) \<or>
    (\<exists>c' i. ReceiveMessage c = (RecvBlock, c') \<and> sender_delivers i c' \<noteq> None \<and>
       im_seqNum (senders c' ! i) = recvSeqNum c' \<and> im_msg (senders c' ! i) = ms ! k)"
proof (cases "ReceiveMessage c")
  case (Pair r c')
  have r: "read_ok ms k c r c'" using ReceiveMessage_ok[OF ok Pair] .
  show ?thesis
  proof (cases r)
    case (RecvOk m)
    then show ?thesis using Pair r by (auto simp: read_ok_def)
  next
    case (RecvErr e)
    then show ?thesis using ReceiveMessage_open Pair open_ by blast
  next
    case RecvBlock
    then have h: "holds ms k c'" "chanCap c' = chanCap c" "\<not> cancelled c'" using r open_ by (auto simp: read_ok_def)
    obtain x where x: "x \<in># held c'" "im_seqNum x = recvSeqNum c'" using awaited_is_held[OF h(1) k h(3)] by blast
    have "x \<notin> set (messageChan c) \<union> set (reorderBuf c)" if "im_seqNum x = recvSeqNum c" for x
      using that ReceiveMessage_finds[of x c] Pair RecvBlock by auto
    moreover have "recvSeqNum c' = recvSeqNum c" "held c' = held c"
      using Pair RecvBlock ReceiveMessage_blocked_same by blast+
    ultimately have "x \<in> set (senders c)" using x by (auto simp: held_def)
    then have "x \<in> set (senders c')" using r RecvBlock by (simp add: read_ok_def)
    then show ?thesis
      using awaited_with_sender[OF h(1) _ x(2)] ReceiveMessage_blocked Pair RecvBlock h(2) open_(3) by auto
  qed
qed

text \<open>
  C24: However senders, goroutines, the reader and \<open>CloseChannel\<close> interleave, what the reader of a message
  channel has read is what was accepted first, in the order in which \<open>SendMessage\<close> accepted it: nothing
  is skipped, repeated or reordered, also when a full channel made the messages overtake each other. On
  an open channel nothing is lost: when a message is unread, either the next \<open>ReceiveMessage\<close> returns it,
  or the read waits and it is a waiting sender, which may hand over its message at once, that has it.
\<close>

theorem messages_in_order:
  assumes "chan_reachable cap s"
  shows "read_msgs s = take (length (read_msgs s)) (sent_msgs s) \<and>
    (\<not> cancelled (chan s) \<and> 0 < cap \<and> length (read_msgs s) < length (sent_msgs s) \<longrightarrow>
      (\<exists>c. ReceiveMessage (chan s) = (RecvOk (sent_msgs s ! length (read_msgs s)), c)) \<or>
      (\<exists>c k. ReceiveMessage (chan s) = (RecvBlock, c) \<and> sender_delivers k c \<noteq> None \<and>
         im_seqNum (senders c ! k) = recvSeqNum c \<and>
         im_msg (senders c ! k) = sent_msgs s ! length (read_msgs s)))"
  using chan_ok_reachable[OF assms] next_is_read[of "sent_msgs s" "length (read_msgs s)" "chan s"]
  unfolding chan_ok_def by blast

text \<open>
  A channel with room for one message: the second and third messages wait in goroutines, the third
  overtakes the second and is put aside by the read that waits for the second.
\<close>

definition overtaken :: "nat messageChannel" where
  "overtaken =
     \<lparr>messageChan = [\<lparr>im_msg = 30, im_seqNum = 2\<rparr>], chanCap = 1, chanClosed = False, cancelled = False,
      senders = [\<lparr>im_msg = 20, im_seqNum = 1\<rparr>], reorderBuf = [], recvSeqNum = 1, mc_seqNum = 3\<rparr>"

lemma overtaken_reachable:
  "chan_reachable 1 \<lparr>sent_msgs = [10, 20, 30], read_msgs = [10], chan = overtaken\<rparr>"
proof -
  let ?c1 = "snd (mc_SendMessage 10 (NewMessageChannel 1)) :: nat messageChannel"
  let ?c2 = "snd (mc_SendMessage 20 ?c1)"
  let ?c3 = "snd (mc_SendMessage 30 ?c2)"
  let ?c4 = "snd (ReceiveMessage ?c3)"
  note e = mc_SendMessage_def NewMessageChannel_def ReceiveMessage_def popFromReorderBuf_def sender_delivers_def
  have "chan_reachable 1 \<lparr>sent_msgs = [10], read_msgs = [], chan = ?c1\<rparr>"
    using chan_reachable.step[OF chan_reachable.init[of 1] chan_step.send[of 10 _ ?c1]] by (simp add: e)
  then have "chan_reachable 1 \<lparr>sent_msgs = [10, 20], read_msgs = [], chan = ?c2\<rparr>"
    using chan_reachable.step[OF _ chan_step.send[of 20 _ ?c2]] by (fastforce simp: e)
  then have "chan_reachable 1 \<lparr>sent_msgs = [10, 20, 30], read_msgs = [], chan = ?c3\<rparr>"
    using chan_reachable.step[OF _ chan_step.send[of 30 _ ?c3]] by (fastforce simp: e)
  then have "chan_reachable 1 \<lparr>sent_msgs = [10, 20, 30], read_msgs = [10], chan = ?c4\<rparr>"
    using chan_reachable.step[OF _ chan_step.read[of _ "RecvOk 10" ?c4]] by (fastforce simp: e)
  then show ?thesis
    using chan_reachable.step[OF _ chan_step.deliver[of 1 _ overtaken]] by (fastforce simp: e overtaken_def)
qed

theorem messages_in_order_witness:
  "chan_reachable 1 \<lparr>sent_msgs = [10, 20, 30], read_msgs = [10], chan = overtaken\<rparr> \<and>
   (\<exists>c k. ReceiveMessage overtaken = (RecvBlock, c) \<and> sender_delivers k c \<noteq> None \<and> im_msg (senders c ! k) = 20)"
  using messages_in_order[OF overtaken_reachable] overtaken_reachable
  by (auto simp: overtaken_def ReceiveMessage_def popFromReorderBuf_def)

end
