(* ===== verification/Obj_Session.thy ===== *)
theory Obj_Session
  imports Obj_Mask Obj_Nonce Obj_Msg
begin

text \<open>
  One connection of the session layer (\<open>activeConnection\<close> of \<open>src/objproto/objproto.go\<close>, with
  \<open>src/objproto/crypto.go\<close> and \<open>src/objproto/control.go\<close>): the keys of a phase and how they ratchet,
  sealing an application packet, and opening one under the previous, the current or the next phase.

  The cryptographic primitives are the functions of a record \<open>crypto\<close>, an argument of what uses them;
  \<open>crypto_laws\<close> collects what their documentation promises. The readings of the clock in one call are
  one argument \<open>now\<close>, the random byte of a header is \<open>rnd\<close>. What \<open>clear\<close> wipes is never read again.
\<close>

unbundle bit_operations_syntax

section \<open>Keys (crypto.go)\<close>

record aead =
  ae_kind :: CommonKeyKind
  ae_key :: bytes

record crypto =
  hkdf :: "bytes \<Rightarrow> bytes \<Rightarrow> nat \<Rightarrow> bytes option"
  Seal :: "aead \<Rightarrow> bytes \<Rightarrow> bytes \<Rightarrow> bytes \<Rightarrow> bytes"
  Open :: "aead \<Rightarrow> bytes \<Rightarrow> bytes \<Rightarrow> bytes \<Rightarrow> bytes option"
  Encrypt :: "bytes \<Rightarrow> bytes \<Rightarrow> bytes"

abbreviation (input) NonceSize :: nat where "NonceSize \<equiv> 12"
abbreviation (input) Overhead :: nat where "Overhead \<equiv> 16"

datatype session_error =
    UnsupportedKeyKind | InvalidKeyLength nat nat | HkdfFailed | CipherFailed | TooLarge | EncodeFailed wire_error
  | DataTooShort | DecodeFailed wire_error | ReplayDetected | DecryptFailed | EmptyControl | UpdateRefused

definition ascii :: "string \<Rightarrow> bytes" where
  "ascii s = map of_char s"

definition DeriveKey :: "crypto \<Rightarrow> bytes \<Rightarrow> bytes \<Rightarrow> nat \<Rightarrow> (session_error, bytes) result" where
  "DeriveKey C secret context keyLen =
     (case hkdf C secret context keyLen of None \<Rightarrow> Inl HkdfFailed | Some key \<Rightarrow> Inr key)"

definition aeadKeyLen :: "CommonKeyKind \<Rightarrow> (session_error, nat) result" where
  "aeadKeyLen kind =
     (if kind = CommonKeyKind_Aes128Gcm then Inr 16
      else if kind = CommonKeyKind_Aes192Gcm then Inr 24
      else if kind = CommonKeyKind_Aes256Gcm \<or> kind = CommonKeyKind_Chacha20Poly1305 then Inr 32
      else Inl UnsupportedKeyKind)"

text \<open>\<open>aes.NewCipher\<close> takes keys of 16, 24 and 32 bytes, \<open>chacha20poly1305.New\<close> of 32.\<close>

definition aes_NewCipher :: "bytes \<Rightarrow> (session_error, bytes) result" where
  "aes_NewCipher key = (if length key \<in> {16, 24, 32} then Inr key else Inl CipherFailed)"

definition NewAEADFromCommonKeyKind :: "CommonKeyKind \<Rightarrow> bytes \<Rightarrow> (session_error, aead) result" where
  "NewAEADFromCommonKeyKind kind key =
     rbind (aeadKeyLen kind) (\<lambda>want.
       if length key \<noteq> want then Inl (InvalidKeyLength (length key) want)
       else if kind = CommonKeyKind_Chacha20Poly1305 then
         (if length key = 32 then Inr \<lparr>ae_kind = kind, ae_key = key\<rparr> else Inl CipherFailed)
       else rbind (aes_NewCipher key) (\<lambda>block. Inr \<lparr>ae_kind = kind, ae_key = block\<rparr>))"

record phaseKeys =
  pk_secret :: bytes
  pk_aead :: aead
  pk_iv :: bytes

definition derivePhaseKeys :: "crypto \<Rightarrow> bytes \<Rightarrow> CommonKeyKind \<Rightarrow> (session_error, phaseKeys) result" where
  "derivePhaseKeys C secret kind =
     rbind (aeadKeyLen kind) (\<lambda>keyLen.
     rbind (DeriveKey C secret (ascii ''ksdk-protocol-key'') keyLen) (\<lambda>key.
     rbind (DeriveKey C secret (ascii ''ksdk-protocol-nonce'') 12) (\<lambda>iv.
     rbind (NewAEADFromCommonKeyKind kind key) (\<lambda>aead.
     Inr \<lparr>pk_secret = secret, pk_aead = aead, pk_iv = iv\<rparr>))))"

definition ratchetSecret :: "crypto \<Rightarrow> bytes \<Rightarrow> (session_error, bytes) result" where
  "ratchetSecret C secret = DeriveKey C secret (ascii ''ksdk-protocol-ku'') 32"

text \<open>\<open>keySchedule\<close> of \<open>objproto.go\<close>: the secrets of the two directions.\<close>

record KeyInfo =
  HSSecret :: bytes
  AckSecret :: bytes
  HsHeaderProtect :: bytes
  AckHeaderProtect :: bytes

definition keySchedule :: "crypto \<Rightarrow> bytes \<Rightarrow> bytes \<Rightarrow> (session_error, KeyInfo) result" where
  "keySchedule C secret integrityInfo =
     rbind (DeriveKey C secret (ascii ''ksdk-protocol-connection'' @ integrityInfo) 32) (\<lambda>preMasterSecret.
     rbind (DeriveKey C preMasterSecret (ascii ''ksdk-protocol-master-hs'') 32) (\<lambda>hsMaster.
     rbind (DeriveKey C preMasterSecret (ascii ''ksdk-protocol-master-ack'') 32) (\<lambda>ackMaster.
     rbind (DeriveKey C preMasterSecret (ascii ''ksdk-protocol-header-protect-ack'') 32) (\<lambda>ackHeaderProtect.
     rbind (DeriveKey C preMasterSecret (ascii ''ksdk-protocol-header-protect-hs'') 32) (\<lambda>hsHeaderProtect.
     Inr \<lparr>HSSecret = hsMaster, AckSecret = ackMaster, HsHeaderProtect = hsHeaderProtect,
          AckHeaderProtect = ackHeaderProtect\<rparr>)))))"

section \<open>The connection\<close>

type_synonym AddrPort = "bytes \<times> u16"

record ConnectionID =
  Transport :: string
  cid_Addr :: AddrPort
  ID :: u16

record objMessage =
  om_From :: ConnectionID
  om_PacketNumber :: u64
  om_Data :: bytes

record activeConnection =
  ac_cid :: ConnectionID
  connTime :: time
  lastTime :: time
  commonKeyKind :: CommonKeyKind
  connectionSecret :: aead
  peerSecret :: aead
  selfIV :: bytes
  peerIV :: bytes
  selfHeaderProtect :: bytes
  peerHeaderProtect :: bytes
  msgs :: "objMessage messageChannel"
  sentCounter :: u64
  recvTracker :: receiveNonceTracker
  sendSecret :: bytes
  sendPhase :: u64
  sendPhaseFrom :: u64
  sendPhaseAt :: time
  recvSecret :: bytes
  recvPhase :: u64
  recvPhaseFrom :: u64
  prevPeerSecret :: "aead option"
  prevPeerIV :: bytes
  prevExpiry :: time
  nextPeerSecret :: aead
  nextPeerIV :: bytes
  nextRecvSecret :: bytes
  transcript :: bytes
  ac_closed :: bool
  proxied :: bool

definition ac_ConsumePacketNumber :: "activeConnection \<Rightarrow> u64 \<times> activeConnection" where
  "ac_ConsumePacketNumber a = (sentCounter a + 1, a\<lparr>sentCounter := sentCounter a + 1\<rparr>)"

section \<open>Key phases\<close>

abbreviation (input) keyUpdatePackets :: u64 where "keyUpdatePackets \<equiv> 4194304"
abbreviation (input) minPacketsBetweenUpdates :: u64 where "minPacketsBetweenUpdates \<equiv> 1024"
abbreviation (input) minTimeBetweenUpdates :: duration where "minTimeBetweenUpdates \<equiv> 1 * Second"
abbreviation (input) prevKeyRetention :: duration where "prevKeyRetention \<equiv> 3 * Second"

definition ratchetSendLocked :: "crypto \<Rightarrow> time \<Rightarrow> activeConnection \<Rightarrow> (session_error, activeConnection) result" where
  "ratchetSendLocked C now a =
     rbind (ratchetSecret C (sendSecret a)) (\<lambda>next.
     rbind (derivePhaseKeys C next (commonKeyKind a)) (\<lambda>keys.
     Inr (a\<lparr>sendSecret := next, connectionSecret := pk_aead keys, selfIV := pk_iv keys,
            sendPhase := sendPhase a + 1, sendPhaseFrom := sentCounter a, sendPhaseAt := now\<rparr>)))"

definition canUpdateLocked :: "time \<Rightarrow> activeConnection \<Rightarrow> bool" where
  "canUpdateLocked now a =
     (if sentCounter a < sendPhaseFrom a + minPacketsBetweenUpdates then False
      else Sub now (sendPhaseAt a) \<ge> minTimeBetweenUpdates)"

definition KeyPhaseAt :: "activeConnection \<Rightarrow> time" where
  "KeyPhaseAt a = sendPhaseAt a"

text \<open>An error leaves the fields set before it as they are, so the state is returned with it.\<close>

definition commitRecvPhaseLocked ::
  "crypto \<Rightarrow> time \<Rightarrow> u64 \<Rightarrow> activeConnection \<Rightarrow> (session_error, unit) result \<times> activeConnection" where
  "commitRecvPhaseLocked C now pn a =
     (let a = a\<lparr>prevPeerSecret := Some (peerSecret a), prevPeerIV := peerIV a, prevExpiry := Add now prevKeyRetention,
                peerSecret := nextPeerSecret a, peerIV := nextPeerIV a, recvSecret := nextRecvSecret a,
                recvPhase := recvPhase a + 1, recvPhaseFrom := pn\<rparr> in
      case ratchetSecret C (recvSecret a) of
        Inl e \<Rightarrow> (Inl e, a)
      | Inr next \<Rightarrow>
          (case derivePhaseKeys C next (commonKeyKind a) of
             Inl e \<Rightarrow> (Inl e, a)
           | Inr keys \<Rightarrow>
               (Inr (), a\<lparr>nextRecvSecret := next, nextPeerSecret := pk_aead keys, nextPeerIV := pk_iv keys\<rparr>)))"

section \<open>A new connection\<close>

text \<open>
  \<open>addActiveConnection\<close> up to its insertion into the endpoint's table: the keys of phase 0 in both
  directions, the precomputed phase 1 of the peer and the header protection keys. A connection that is
  shaken anew for a proxy keeps its message channel and starts its key phases and packet numbers over.
\<close>

definition header_protect_keys ::
  "CommonKeyKind \<Rightarrow> bytes \<Rightarrow> bytes \<Rightarrow> (session_error, bytes \<times> bytes) result" where
  "header_protect_keys kind self peer =
     rbind (if kind = CommonKeyKind_Aes128Gcm then Inr 16
            else if kind = CommonKeyKind_Aes192Gcm then Inr 24
            else if kind = CommonKeyKind_Aes256Gcm \<or> kind = CommonKeyKind_Chacha20Poly1305 then Inr 32
            else Inl UnsupportedKeyKind) (\<lambda>n.
     rbind (aes_NewCipher (take n self)) (\<lambda>s.
     rbind (aes_NewCipher (take n peer)) (\<lambda>p. Inr (s, p))))"

abbreviation (input) messageChannelDepth :: nat where "messageChannelDepth \<equiv> 256"

definition newActiveConnection ::
  "crypto \<Rightarrow> time \<Rightarrow> ConnectionID \<Rightarrow> bytes \<Rightarrow> bytes \<Rightarrow> CommonKeyKind \<Rightarrow> bytes \<Rightarrow> bytes \<Rightarrow> bytes \<Rightarrow>
     activeConnection option \<Rightarrow> (session_error, activeConnection) result" where
  "newActiveConnection C now cid self peer kind selfHP peerHP tr proxyConn =
     rbind (derivePhaseKeys C self kind) (\<lambda>sendKeys.
     rbind (derivePhaseKeys C peer kind) (\<lambda>recvKeys.
     rbind (ratchetSecret C (pk_secret recvKeys)) (\<lambda>nextSecret.
     rbind (derivePhaseKeys C nextSecret kind) (\<lambda>nextKeys.
     rbind (header_protect_keys kind selfHP peerHP) (\<lambda>(selfBlock, peerBlock).
     Inr (case proxyConn of
        Some active \<Rightarrow>
          active\<lparr>connTime := now, lastTime := now, commonKeyKind := kind,
                 connectionSecret := pk_aead sendKeys, peerSecret := pk_aead recvKeys,
                 selfIV := pk_iv sendKeys, peerIV := pk_iv recvKeys,
                 sendSecret := pk_secret sendKeys, sendPhase := 0, sendPhaseFrom := 0, sendPhaseAt := now,
                 recvSecret := pk_secret recvKeys, recvPhase := 0, recvPhaseFrom := 0,
                 prevPeerSecret := None, prevPeerIV := [], prevExpiry := 0,
                 nextPeerSecret := pk_aead nextKeys, nextPeerIV := pk_iv nextKeys, nextRecvSecret := nextSecret,
                 selfHeaderProtect := selfBlock, peerHeaderProtect := peerBlock, transcript := tr,
                 recvTracker := Reset (recvTracker active), sentCounter := 0, proxied := True\<rparr>
      | None \<Rightarrow>
          \<lparr>ac_cid = cid, connTime = now, lastTime = now, commonKeyKind = kind,
           connectionSecret = pk_aead sendKeys, peerSecret = pk_aead recvKeys,
           selfIV = pk_iv sendKeys, peerIV = pk_iv recvKeys,
           selfHeaderProtect = selfBlock, peerHeaderProtect = peerBlock,
           msgs = NewMessageChannel messageChannelDepth, sentCounter = 0, recvTracker = zeroTracker,
           sendSecret = pk_secret sendKeys, sendPhase = 0, sendPhaseFrom = 0, sendPhaseAt = now,
           recvSecret = pk_secret recvKeys, recvPhase = 0, recvPhaseFrom = 0,
           prevPeerSecret = None, prevPeerIV = [], prevExpiry = 0,
           nextPeerSecret = pk_aead nextKeys, nextPeerIV = pk_iv nextKeys, nextRecvSecret = nextSecret,
           transcript = tr, ac_closed = False, proxied = False\<rparr>))))))"

section \<open>Sealing and opening\<close>

text \<open>\<open>subtle.XORBytes\<close> overwrites a prefix of its destination.\<close>

definition XORBytes :: "bytes \<Rightarrow> bytes \<Rightarrow> bytes \<Rightarrow> bytes" where
  "XORBytes dst x y = (let r = map2 (XOR) x y in r @ drop (length r) dst)"

definition headerProtectionMask :: "crypto \<Rightarrow> bytes \<Rightarrow> bytes \<Rightarrow> bytes" where
  "headerProtectionMask C sample headerProtectKey = Encrypt C headerProtectKey sample"

definition openPhase :: "crypto \<Rightarrow> aead \<Rightarrow> bytes \<Rightarrow> bytes \<Rightarrow> bytes \<Rightarrow> bytes \<Rightarrow> (session_error, bytes) result" where
  "openPhase C aead iv nonce ciphertext aad =
     (let n = XORBytes (replicate (length nonce) 0) iv nonce in
      case Open C aead n ciphertext aad of None \<Rightarrow> Inl DecryptFailed | Some plaintext \<Rightarrow> Inr plaintext)"

text \<open>
  \<open>sendApplicationFrame\<close> between \<open>activeConn.mu.Lock\<close> and \<open>sendPacket\<close>: the packet number, the
  trigger of a key update, and the packet. The answer is the datagram and its packet number.
\<close>

definition take_number :: "u64 option \<Rightarrow> activeConnection \<Rightarrow> u64 \<times> activeConnection" where
  "take_number pn a = (case pn of Some n \<Rightarrow> (n, a) | None \<Rightarrow> ac_ConsumePacketNumber a)"

definition update_due :: "time \<Rightarrow> u64 \<Rightarrow> activeConnection \<Rightarrow> bool" where
  "update_due now cnt a \<longleftrightarrow> cnt - sendPhaseFrom a \<ge> keyUpdatePackets \<and> canUpdateLocked now a"

definition protHeader :: "bool \<Rightarrow> u64 \<Rightarrow> ProtectedHeader" where
  "protHeader ctl cnt = SetNonceCounter (SetControl \<lparr>tmp72 = 0\<rparr> ctl) cnt"

definition must :: "('e, 'a list) result \<Rightarrow> 'a list" where
  "must r = (case r of Inr x \<Rightarrow> x | Inl _ \<Rightarrow> [])"

definition seal_nonce :: "bool \<Rightarrow> u64 \<Rightarrow> activeConnection \<Rightarrow> bytes" where
  "seal_nonce ctl cnt a =
     (let nonce = replicate 4 0 @ must (ProtectedHeader_Append (protHeader ctl cnt) []) in
      XORBytes nonce (selfIV a) nonce)"

definition seal_packet ::
  "crypto \<Rightarrow> u8 \<Rightarrow> bytes \<Rightarrow> bool \<Rightarrow> u64 \<Rightarrow> activeConnection \<Rightarrow> (session_error, bytes) result" where
  "seal_packet C rnd data ctl cnt a =
     (let pktLen = 8 + length data + Overhead in
      if pktLen > 65535 then Inl TooLarge
      else
        let hdr = buildHeader rnd PacketKind_Application (ID (ac_cid a)) (of_nat pktLen) (sendPhase a);
            protBytes = must (ProtectedHeader_Append (protHeader ctl cnt) []);
            hdrData = must (ObjHeader_Append hdr []);
            sealed = Seal C (connectionSecret a) (seal_nonce ctl cnt a) data hdrData;
            m = headerProtectionMask C (take 16 sealed) (selfHeaderProtect a);
            finalData = XORBytes protBytes m protBytes @ sealed in
        case Packet_Append \<lparr>pk_Header = hdr, pk_Data = finalData\<rparr> [] of
          Inl e \<Rightarrow> Inl (EncodeFailed e)
        | Inr pktData \<Rightarrow> Inr pktData)"

definition sealApplicationFrame ::
  "crypto \<Rightarrow> u8 \<Rightarrow> time \<Rightarrow> bytes \<Rightarrow> u64 option \<Rightarrow> bool \<Rightarrow> activeConnection \<Rightarrow>
     (session_error, bytes \<times> u64) result \<times> activeConnection" where
  "sealApplicationFrame C rnd now data pn ctl a =
     (let (cnt, a) = take_number pn a in
      case (if update_due now cnt a then ratchetSendLocked C now a else Inr a) of
        Inl e \<Rightarrow> (Inl e, a)
      | Inr a \<Rightarrow> (rbind (seal_packet C rnd data ctl cnt a) (\<lambda>pktData. Inr (pktData, cnt)), a))"

text \<open>
  \<open>UpdateKey\<close>: the ratchet, then an empty control frame, so that the peer sees the new phase.
\<close>

definition UpdateKey ::
  "crypto \<Rightarrow> u8 \<Rightarrow> time \<Rightarrow> activeConnection \<Rightarrow> (session_error, bytes \<times> u64) result \<times> activeConnection" where
  "UpdateKey C rnd now a =
     (if sendPhase a > 0 \<and> \<not> canUpdateLocked now a then (Inl UpdateRefused, a)
      else case ratchetSendLocked C now a of
        Inl e \<Rightarrow> (Inl e, a)
      | Inr a \<Rightarrow> sealApplicationFrame C rnd now [ControlKind_Ping] None True a)"

definition handleControl :: "bytes \<Rightarrow> (session_error, unit) result" where
  "handleControl plaintext =
     (if length plaintext < 1 then Inl EmptyControl
      else if plaintext ! 0 = ControlKind_Ping then Inr ()
      else Inr ())"

text \<open>Which keys open a packet: the phase bit decides, then the packet number.\<close>

datatype phase_choice = CurPhase | PrevPhase aead | NextPhase

definition choose_phase :: "time \<Rightarrow> bool \<Rightarrow> u64 \<Rightarrow> activeConnection \<Rightarrow> phase_choice" where
  "choose_phase now keyPhaseBit nonceCounter a =
     (if (if keyPhaseBit then 1 else 0) = recvPhase a AND 1 then CurPhase
      else case prevPeerSecret a of
        Some k \<Rightarrow> if nonceCounter < recvPhaseFrom a \<and> Before now (prevExpiry a) then PrevPhase k else NextPhase
      | None \<Rightarrow> NextPhase)"

definition open_with :: "crypto \<Rightarrow> phase_choice \<Rightarrow> bytes \<Rightarrow> bytes \<Rightarrow> bytes \<Rightarrow> activeConnection \<Rightarrow> (session_error, bytes) result" where
  "open_with C choice nonce ciphertext hdrData a =
     (case choice of
        CurPhase \<Rightarrow> openPhase C (peerSecret a) (peerIV a) nonce ciphertext hdrData
      | PrevPhase k \<Rightarrow> openPhase C k (prevPeerIV a) nonce ciphertext hdrData
      | NextPhase \<Rightarrow> openPhase C (nextPeerSecret a) (nextPeerIV a) nonce ciphertext hdrData)"

text \<open>
  \<open>receiveApplication\<close> from \<open>activeConn.mu.Lock\<close> on: the header protection is taken off, then the
  packet is tried on the replay window, opened, entered, and handed on.
\<close>

definition acceptApplication ::
  "crypto \<Rightarrow> time \<Rightarrow> ConnectionID \<Rightarrow> ProtectedHeader \<Rightarrow> bytes \<Rightarrow> bytes \<Rightarrow> ObjHeader \<Rightarrow> activeConnection \<Rightarrow>
     (session_error, unit) result \<times> activeConnection" where
  "acceptApplication C now cid prot protBytes ciphertext hdr a =
     (let hdrData = must (ObjHeader_Append hdr []); nonceCounter = NonceCounter prot in
      if \<not> fst (InsertNonce nonceCounter now True (recvTracker a)) then (Inl ReplayDetected, a)
      else
        let choice = choose_phase now (KeyPhase hdr) nonceCounter a in
        case open_with C choice (replicate 4 0 @ protBytes) ciphertext hdrData a of
          Inl e \<Rightarrow> (Inl e, a)
        | Inr plaintext \<Rightarrow>
            let (r, a) = (if choice = NextPhase then commitRecvPhaseLocked C now nonceCounter a else (Inr (), a)) in
            case r of
              Inl e \<Rightarrow> (Inl e, a)
            | Inr _ \<Rightarrow>
                let a = a\<lparr>recvTracker := snd (InsertNonce nonceCounter now False (recvTracker a)), lastTime := now\<rparr> in
                if Control prot then (handleControl plaintext, a)
                else (Inr (), a\<lparr>msgs := snd (mc_SendMessage
                        \<lparr>om_From = cid, om_PacketNumber = nonceCounter, om_Data = plaintext\<rparr> (msgs a))\<rparr>))"

definition openApplication ::
  "crypto \<Rightarrow> time \<Rightarrow> ConnectionID \<Rightarrow> bytes \<Rightarrow> ObjHeader \<Rightarrow> activeConnection \<Rightarrow>
     (session_error, unit) result \<times> activeConnection" where
  "openApplication C now cid data hdr a =
     (if length data < 8 + 16 then (Inl DataTooShort, a)
      else
        let m = headerProtectionMask C (take 16 (drop 8 data)) (peerHeaderProtect a);
            protBytes = XORBytes (take 8 data) m (take 8 data) in
        case ProtectedHeader_DecodeSlice \<lparr>tmp72 = 0\<rparr> protBytes 0 of
          Inl e \<Rightarrow> (Inl (DecodeFailed e), a)
        | Inr (prot, _) \<Rightarrow> acceptApplication C now cid prot protBytes (drop 8 data) hdr a)"

section \<open>The laws of the primitives\<close>

text \<open>
  HKDF with SHA-512 gives up to \<open>255 * 64\<close> bytes, as many as asked for; what an AEAD has sealed it opens
  under the same nonce and header, and it adds its tag; AES maps blocks to blocks.
\<close>

definition crypto_laws :: "crypto \<Rightarrow> bool" where
  "crypto_laws C \<longleftrightarrow>
     (\<forall>s c n. n \<le> 255 * 64 \<longrightarrow> (\<exists>k. hkdf C s c n = Some k \<and> length k = n)) \<and>
     (\<forall>k n p ad. length n = NonceSize \<longrightarrow> Open C k n (Seal C k n p ad) ad = Some p) \<and>
     (\<forall>k n p ad. length (Seal C k n p ad) = length p + Overhead) \<and>
     (\<forall>k b. length b = 16 \<longrightarrow> length (Encrypt C k b) = 16)"

lemma DeriveKey_ok:
  assumes "crypto_laws C" "n \<le> 32"
  shows "\<exists>k. DeriveKey C s c n = Inr k \<and> length k = n"
proof -
  have "n \<le> 255 * 64" using assms(2) by simp
  then obtain k where "hkdf C s c n = Some k" "length k = n" using assms(1) unfolding crypto_laws_def by blast
  then show ?thesis by (simp add: DeriveKey_def)
qed

lemma DeriveKey_length: "crypto_laws C \<Longrightarrow> n \<le> 32 \<Longrightarrow> DeriveKey C s c n = Inr k \<Longrightarrow> length k = n"
  using DeriveKey_ok[of C n s c] by auto

lemma aeadKeyLen_bound: "aeadKeyLen kind = Inr n \<Longrightarrow> n \<in> {16, 24, 32}"
  by (auto simp: aeadKeyLen_def split: if_splits)

lemma aeadKeyLen_chacha: "aeadKeyLen CommonKeyKind_Chacha20Poly1305 = Inr 32"
  by (simp add: aeadKeyLen_def)

lemma aeadKeyLen_defined: "(\<exists>n. aeadKeyLen kind = Inr n) \<longleftrightarrow> IsCommonKeyKindDefined kind"
  by (auto simp: aeadKeyLen_def IsCommonKeyKindDefined_def)

lemma NewAEAD_ok: "aeadKeyLen kind = Inr n \<Longrightarrow> length key = n \<Longrightarrow>
  NewAEADFromCommonKeyKind kind key = Inr \<lparr>ae_kind = kind, ae_key = key\<rparr>"
  using aeadKeyLen_bound[of kind n] aeadKeyLen_chacha
  by (auto simp: NewAEADFromCommonKeyKind_def aes_NewCipher_def)

text \<open>Every supported kind gives keys for every secret.\<close>

lemma derivePhaseKeys_ok:
  assumes "crypto_laws C" "IsCommonKeyKindDefined kind"
  shows "\<exists>k. derivePhaseKeys C secret kind = Inr k \<and> pk_secret k = secret \<and> length (pk_iv k) = NonceSize"
proof -
  obtain n where n: "aeadKeyLen kind = Inr n" using assms(2) aeadKeyLen_defined by blast
  then have "n \<le> 32" using aeadKeyLen_bound by fastforce
  obtain key where k: "DeriveKey C secret (ascii ''ksdk-protocol-key'') n = Inr key" "length key = n"
    using DeriveKey_ok[OF assms(1) \<open>n \<le> 32\<close>] by blast
  obtain iv where i: "DeriveKey C secret (ascii ''ksdk-protocol-nonce'') 12 = Inr iv" "length iv = 12"
    using DeriveKey_ok[OF assms(1), of 12] by auto
  show ?thesis using n k i NewAEAD_ok[OF n k(2)] by (simp add: derivePhaseKeys_def)
qed

lemma derivePhaseKeys_kind: "derivePhaseKeys C secret kind = Inr k \<Longrightarrow> IsCommonKeyKindDefined kind"
  using aeadKeyLen_defined[of kind] by (cases "aeadKeyLen kind") (auto simp: derivePhaseKeys_def)

lemma derivePhaseKeys_iv: "crypto_laws C \<Longrightarrow> derivePhaseKeys C secret kind = Inr k \<Longrightarrow> length (pk_iv k) = NonceSize"
  using derivePhaseKeys_ok[of C kind secret] derivePhaseKeys_kind[of C secret kind k] by auto

section \<open>Phases\<close>

text \<open>The secret of phase \<open>n\<close>, and what it means for a connection to send or receive at it.\<close>

primrec phase_secret :: "crypto \<Rightarrow> bytes \<Rightarrow> nat \<Rightarrow> bytes" where
  "phase_secret C secret 0 = secret"
| "phase_secret C secret (Suc n) = must (ratchetSecret C (phase_secret C secret n))"

definition keys_at :: "crypto \<Rightarrow> bytes \<Rightarrow> CommonKeyKind \<Rightarrow> nat \<Rightarrow> aead \<Rightarrow> bytes \<Rightarrow> bool" where
  "keys_at C secret kind n k iv \<longleftrightarrow>
     derivePhaseKeys C (phase_secret C secret n) kind = Inr \<lparr>pk_secret = phase_secret C secret n, pk_aead = k, pk_iv = iv\<rparr>"

definition sends_at :: "crypto \<Rightarrow> bytes \<Rightarrow> nat \<Rightarrow> activeConnection \<Rightarrow> bool" where
  "sends_at C secret n a \<longleftrightarrow> keys_at C secret (commonKeyKind a) n (connectionSecret a) (selfIV a) \<and>
     sendSecret a = phase_secret C secret n \<and> sendPhase a = of_nat n"

definition receives_at :: "crypto \<Rightarrow> bytes \<Rightarrow> nat \<Rightarrow> activeConnection \<Rightarrow> bool" where
  "receives_at C secret m a \<longleftrightarrow>
     keys_at C secret (commonKeyKind a) m (peerSecret a) (peerIV a) \<and>
     keys_at C secret (commonKeyKind a) (Suc m) (nextPeerSecret a) (nextPeerIV a) \<and>
     recvSecret a = phase_secret C secret m \<and> nextRecvSecret a = phase_secret C secret (Suc m) \<and>
     recvPhase a = of_nat m \<and>
     (\<forall>k. prevPeerSecret a = Some k \<longrightarrow> 0 < m \<and> keys_at C secret (commonKeyKind a) (m - 1) k (prevPeerIV a))"

lemma ratchet_phase: "crypto_laws C \<Longrightarrow> ratchetSecret C (phase_secret C s n) = Inr (phase_secret C s (Suc n))"
  using DeriveKey_ok[of C 32 "phase_secret C s n" "ascii ''ksdk-protocol-ku''"]
  by (auto simp: ratchetSecret_def must_def)

lemma keys_at_ok:
  assumes "crypto_laws C" "IsCommonKeyKindDefined kind"
  shows "\<exists>k iv. keys_at C s kind n k iv"
proof -
  obtain k where k: "derivePhaseKeys C (phase_secret C s n) kind = Inr k" "pk_secret k = phase_secret C s n"
    using derivePhaseKeys_ok[OF assms] by blast
  have "k = \<lparr>pk_secret = pk_secret k, pk_aead = pk_aead k, pk_iv = pk_iv k\<rparr>" by simp
  with k show ?thesis unfolding keys_at_def by metis
qed

lemma keys_at_kind: "keys_at C s kind n k iv \<Longrightarrow> IsCommonKeyKindDefined kind"
  using derivePhaseKeys_kind by (auto simp: keys_at_def)

lemma keys_at_iv: "crypto_laws C \<Longrightarrow> keys_at C s kind n k iv \<Longrightarrow> length iv = NonceSize"
  using derivePhaseKeys_iv by (fastforce simp: keys_at_def)

lemma keys_at_unique: "keys_at C s kind n k iv \<Longrightarrow> keys_at C s kind n k' iv' \<Longrightarrow> k' = k \<and> iv' = iv"
  by (simp add: keys_at_def)

declare phase_secret.simps(2) [simp del]

text \<open>The state after an advance of the sender, and after one of the receiver.\<close>

definition advanced_send :: "crypto \<Rightarrow> bytes \<Rightarrow> nat \<Rightarrow> time \<Rightarrow> aead \<Rightarrow> bytes \<Rightarrow> activeConnection \<Rightarrow> activeConnection" where
  "advanced_send C s n now k iv a =
     a\<lparr>sendSecret := phase_secret C s (Suc n), connectionSecret := k, selfIV := iv,
       sendPhase := sendPhase a + 1, sendPhaseFrom := sentCounter a, sendPhaseAt := now\<rparr>"

lemma ratchetSendLocked_ok:
  assumes "crypto_laws C" "sends_at C s n a"
  shows "\<exists>k iv. ratchetSendLocked C now a = Inr (advanced_send C s n now k iv a) \<and>
    sends_at C s (Suc n) (advanced_send C s n now k iv a)"
proof -
  obtain k iv where k: "keys_at C s (commonKeyKind a) (Suc n) k iv"
    using keys_at_ok[OF assms(1) keys_at_kind] assms(2) unfolding sends_at_def by blast
  have "ratchetSendLocked C now a = Inr (advanced_send C s n now k iv a)"
    using assms(2) ratchet_phase[OF assms(1), of s n] k
    by (simp add: ratchetSendLocked_def sends_at_def keys_at_def advanced_send_def)
  moreover have "sends_at C s (Suc n) (advanced_send C s n now k iv a)"
    using assms(2) k by (simp add: sends_at_def advanced_send_def add.commute)
  ultimately show ?thesis by blast
qed

lemma commitRecvPhaseLocked_ok:
  assumes "crypto_laws C" "receives_at C s m a"
  shows "\<exists>a'. commitRecvPhaseLocked C now pn a = (Inr (), a') \<and> receives_at C s (Suc m) a' \<and>
    recvTracker a' = recvTracker a \<and> msgs a' = msgs a \<and> recvPhaseFrom a' = pn"
proof -
  obtain k iv where k: "keys_at C s (commonKeyKind a) (Suc (Suc m)) k iv"
    using keys_at_ok[OF assms(1) keys_at_kind] assms(2) unfolding receives_at_def by blast
  then have d: "derivePhaseKeys C (phase_secret C s (Suc (Suc m))) (commonKeyKind a) =
      Inr \<lparr>pk_secret = phase_secret C s (Suc (Suc m)), pk_aead = k, pk_iv = iv\<rparr>"
    by (simp add: keys_at_def)
  have n: "nextRecvSecret a = phase_secret C s (Suc m)" using assms(2) by (simp add: receives_at_def)
  show ?thesis unfolding commitRecvPhaseLocked_def Let_def
    using assms(2) k by (simp add: n d ratchet_phase[OF assms(1)] receives_at_def add.commute)
qed

lemma phase_parity: "odd (of_nat n :: u64) \<longleftrightarrow> odd n" "(of_nat n :: u64) AND 1 = (if odd n then 1 else 0)"
proof -
  show o: "odd (of_nat n :: u64) \<longleftrightarrow> odd n" by simp
  have "(of_nat n :: u64) AND 1 = of_bool (odd (of_nat n :: u64))" by (simp only: and_one_eq mod_2_eq_odd)
  with o show "(of_nat n :: u64) AND 1 = (if odd n then 1 else 0)" by simp
qed

section \<open>Masks and nonces\<close>

lemma XORBytes_prefix: "length p \<le> length m \<Longrightarrow> XORBytes p m p = map2 (XOR) m p"
  by (simp add: XORBytes_def Let_def)

lemma map2_xor_twice: "length p \<le> length m \<Longrightarrow> map2 (XOR) m (map2 (XOR) m p) = p" for p :: bytes
  by (induction p arbitrary: m) (auto simp: length_Suc_conv Suc_le_length_iff xor.assoc [symmetric])

lemma XORBytes_twice: "length p \<le> length m \<Longrightarrow> XORBytes (XORBytes p m p) m (XORBytes p m p) = p"
  by (simp add: XORBytes_prefix map2_xor_twice)

lemma protBytes_eq: "must (ProtectedHeader_Append p []) = PutUint64 (tmp72 p)"
  by (simp add: protected_wire must_def)

lemma hdrData_eq: "must (ObjHeader_Append h []) = ObjHeader_wire h"
  by (simp add: ObjHeader_Append_wire must_def)

lemma protHeader_fields:
  assumes "c < 2 ^ 63"
  shows "NonceCounter (protHeader ctl c) = c" and "Control (protHeader ctl c) \<longleftrightarrow> ctl"
proof -
  have high: "\<not> bit c n" if "63 \<le> n" for n
  proof -
    have "take_bit 63 c = c" using assms by (simp add: less_mask_eq take_bit_eq_mask)
    then show ?thesis using that by (metis bit_take_bit_iff not_le)
  qed
  show "NonceCounter (protHeader ctl c) = c"
  proof (rule bit_word_eqI, goal_cases)
    case (1 n)
    then consider "n < 63" | "n = 63" by force
    then show ?case
      unfolding NonceCounter_def protHeader_def SetNonceCounter_def SetControl_def setControl_def byte_masks mask_numerals
      by cases (simp_all add: bit_simps high)
  qed
  have "drop_bit 63 (tmp72 (protHeader ctl c)) AND 1 = of_bool ctl"
  proof (rule bit_word_eqI, goal_cases)
    case (1 n)
    show ?case
      unfolding protHeader_def SetNonceCounter_def SetControl_def setControl_def byte_masks mask_numerals
      by (cases "n = 0") (simp_all add: bit_simps high)
  qed
  then show "Control (protHeader ctl c) \<longleftrightarrow> ctl" by (simp add: Control_def control_def)
qed

section \<open>What is sealed is opened\<close>

definition app_header :: "u8 \<Rightarrow> bytes \<Rightarrow> activeConnection \<Rightarrow> ObjHeader" where
  "app_header rnd data a =
     buildHeader rnd PacketKind_Application (ID (ac_cid a)) (of_nat (8 + length data + Overhead)) (sendPhase a)"

definition app_sealed :: "crypto \<Rightarrow> u8 \<Rightarrow> bytes \<Rightarrow> bool \<Rightarrow> u64 \<Rightarrow> activeConnection \<Rightarrow> bytes" where
  "app_sealed C rnd data ctl cnt a =
     Seal C (connectionSecret a) (seal_nonce ctl cnt a) data (ObjHeader_wire (app_header rnd data a))"

definition app_packet :: "crypto \<Rightarrow> u8 \<Rightarrow> bytes \<Rightarrow> bool \<Rightarrow> u64 \<Rightarrow> activeConnection \<Rightarrow> Packet" where
  "app_packet C rnd data ctl cnt a =
     (let sealed = app_sealed C rnd data ctl cnt a;
          m = Encrypt C (selfHeaderProtect a) (take 16 sealed) in
      \<lparr>pk_Header = app_header rnd data a, pk_Data = map2 (XOR) m (PutUint64 (tmp72 (protHeader ctl cnt))) @ sealed\<rparr>)"

lemma app_sealed_length: "crypto_laws C \<Longrightarrow> length (app_sealed C rnd data ctl cnt a) = length data + 16"
  unfolding app_sealed_def crypto_laws_def by blast

lemma Encrypt_length: "crypto_laws C \<Longrightarrow> 16 \<le> length b \<Longrightarrow> length (Encrypt C k (take 16 b)) = 16"
  unfolding crypto_laws_def by simp

lemma app_packet_ok:
  assumes "crypto_laws C" "8 + length data + 16 \<le> 65535"
  shows "Packet_ok (app_packet C rnd data ctl cnt a)"
proof -
  have "length (Encrypt C (selfHeaderProtect a) (take 16 (app_sealed C rnd data ctl cnt a))) = 16"
    by (rule Encrypt_length[OF assms(1)]) (simp add: app_sealed_length[OF assms(1)])
  moreover have "unat (oh_Len (app_header rnd data a)) = 24 + length data"
    using assms(2) by (simp add: app_header_def buildHeader_def Let_def unat_of_nat take_bit_nat_eq_self del: of_nat_add)
  ultimately show ?thesis by (simp add: Packet_ok_def app_packet_def Let_def app_sealed_length[OF assms(1)])
qed

lemma seal_packet_eq:
  assumes "crypto_laws C"
  shows "seal_packet C rnd data ctl cnt a =
    (if 8 + length data + 16 > 65535 then Inl TooLarge else Inr (Packet_wire (app_packet C rnd data ctl cnt a)))"
proof -
  let ?s = "app_sealed C rnd data ctl cnt a" and ?w = "PutUint64 (tmp72 (protHeader ctl cnt))"
  let ?m = "Encrypt C (selfHeaderProtect a) (take 16 ?s)"
  have "length ?m = 16" by (rule Encrypt_length[OF assms]) (simp add: app_sealed_length[OF assms])
  then have x: "XORBytes ?w ?m ?w = map2 (XOR) ?m ?w" by (simp add: XORBytes_prefix)
  show ?thesis
    using app_packet_ok[OF assms, of data rnd ctl cnt a, THEN packet.enc_wire, of "[]"] x
    by (simp add: seal_packet_def Let_def protBytes_eq hdrData_eq app_packet_def app_sealed_def app_header_def headerProtectionMask_def)
qed

text \<open>Both ends fold the IV of the phase into the nonce in the same way.\<close>

definition phase_nonce :: "bytes \<Rightarrow> bool \<Rightarrow> u64 \<Rightarrow> bytes" where
  "phase_nonce iv ctl cnt = map2 (XOR) iv (replicate 4 0 @ PutUint64 (tmp72 (protHeader ctl cnt)))"

lemma seal_nonce_eq: "length (selfIV a) = 12 \<Longrightarrow> seal_nonce ctl cnt a = phase_nonce (selfIV a) ctl cnt"
  by (simp add: seal_nonce_def Let_def protBytes_eq phase_nonce_def XORBytes_prefix)

lemma openPhase_eq:
  "length iv = 12 \<Longrightarrow> openPhase C k iv (replicate 4 0 @ PutUint64 (tmp72 (protHeader ctl cnt))) ct ad =
     (case Open C k (phase_nonce iv ctl cnt) ct ad of None \<Rightarrow> Inl DecryptFailed | Some p \<Rightarrow> Inr p)"
  by (simp add: openPhase_def Let_def phase_nonce_def XORBytes_def)

lemma open_sealed:
  assumes "crypto_laws C" "keys_at C s kind n (connectionSecret a) (selfIV a)"
  shows "openPhase C (connectionSecret a) (selfIV a) (replicate 4 0 @ PutUint64 (tmp72 (protHeader ctl cnt)))
    (app_sealed C rnd data ctl cnt a) (ObjHeader_wire (app_header rnd data a)) = Inr data"
proof -
  have l: "length (selfIV a) = 12" using keys_at_iv assms by blast
  then have "length (phase_nonce (selfIV a) ctl cnt) = 12" by (simp add: phase_nonce_def)
  then show ?thesis using assms(1) unfolding openPhase_eq[OF l] app_sealed_def seal_nonce_eq[OF l] crypto_laws_def by simp
qed

lemma openApplication_unmask:
  assumes "crypto_laws C" "peerHeaderProtect b = selfHeaderProtect a"
  shows "openApplication C now cid (pk_Data (app_packet C rnd data ctl cnt a)) h b =
    acceptApplication C now cid (protHeader ctl cnt) (PutUint64 (tmp72 (protHeader ctl cnt))) (app_sealed C rnd data ctl cnt a) h b"
proof -
  let ?s = "app_sealed C rnd data ctl cnt a" and ?w = "PutUint64 (tmp72 (protHeader ctl cnt))"
  let ?m = "Encrypt C (selfHeaderProtect a) (take 16 ?s)" and ?d = "pk_Data (app_packet C rnd data ctl cnt a)"
  have m: "length ?m = 16" by (rule Encrypt_length[OF assms(1)]) (simp add: app_sealed_length[OF assms(1)])
  have d: "take 8 ?d = map2 (XOR) ?m ?w" "drop 8 ?d = ?s" "length ?d = 24 + length data"
    using m by (simp_all add: app_packet_def Let_def app_sealed_length[OF assms(1)])
  have x: "XORBytes (take 8 ?d) ?m (take 8 ?d) = ?w"
    using m by (simp add: d(1) XORBytes_prefix map2_xor_twice)
  have p: "ProtectedHeader_DecodeSlice \<lparr>tmp72 = 0\<rparr> ?w 0 = Inr (protHeader ctl cnt, 8)"
    using protected_read[of 0 ?w "tmp72 (protHeader ctl cnt)" "[]" "\<lparr>tmp72 = 0\<rparr>"] by simp
  show ?thesis unfolding openApplication_def Let_def headerProtectionMask_def assms(2) d(2) x p by (simp add: d(3))
qed

text \<open>
  When the receiver at phase \<open>m\<close> has the key for a packet sealed at phase \<open>n\<close>: the phases agree, the
  sender is one ahead, or the sender's packet was overtaken and the previous key is still kept.
\<close>

definition in_reach :: "time \<Rightarrow> nat \<Rightarrow> nat \<Rightarrow> u64 \<Rightarrow> activeConnection \<Rightarrow> bool" where
  "in_reach now n m cnt r \<longleftrightarrow> n = m \<or>
     n = Suc m \<and> \<not> (cnt < recvPhaseFrom r \<and> prevPeerSecret r \<noteq> None \<and> Before now (prevExpiry r)) \<or>
     Suc n = m \<and> cnt < recvPhaseFrom r \<and> prevPeerSecret r \<noteq> None \<and> Before now (prevExpiry r)"

lemma app_header_KeyPhase: "KeyPhase (app_header rnd data a) \<longleftrightarrow> odd (sendPhase a)"
  using newMaskSeed_phase[of rnd "sendPhase a"] by (simp add: app_header_def KeyPhase_bit buildHeader_byte)

lemma choose_phase_bit:
  "recvPhase r = of_nat m \<Longrightarrow> choose_phase now (odd (of_nat n :: u64)) cnt r =
     (if odd n = odd m then CurPhase
      else case prevPeerSecret r of
        Some k \<Rightarrow> if cnt < recvPhaseFrom r \<and> Before now (prevExpiry r) then PrevPhase k else NextPhase
      | None \<Rightarrow> NextPhase)"
  by (simp add: choose_phase_def phase_parity)

lemma open_with_ok:
  assumes laws: "crypto_laws C" and s: "sends_at C sec n s" and r: "receives_at C sec m r"
    and k: "commonKeyKind r = commonKeyKind s" and reach: "in_reach now n m cnt r"
  shows "open_with C (choose_phase now (KeyPhase (app_header rnd data s)) cnt r)
      (replicate 4 0 @ PutUint64 (tmp72 (protHeader ctl cnt))) (app_sealed C rnd data ctl cnt s)
      (ObjHeader_wire (app_header rnd data s)) r = Inr data \<and>
    (choose_phase now (KeyPhase (app_header rnd data s)) cnt r = NextPhase \<longleftrightarrow> n = Suc m)"
proof -
  have sk: "keys_at C sec (commonKeyKind s) n (connectionSecret s) (selfIV s)" "sendPhase s = of_nat n"
    using s by (simp_all add: sends_at_def)
  note o = open_sealed[OF laws sk(1), of ctl cnt rnd data]
  have rm: "recvPhase r = of_nat m" using r by (simp add: receives_at_def)
  note c = choose_phase_bit[OF rm, of now n cnt]
  have same: "k' = connectionSecret s \<and> iv' = selfIV s" if "keys_at C sec (commonKeyKind s) n k' iv'" for k' iv'
    using keys_at_unique[OF sk(1) that] .
  consider "n = m" | "n = Suc m" "\<not> (cnt < recvPhaseFrom r \<and> prevPeerSecret r \<noteq> None \<and> Before now (prevExpiry r))"
    | k where "Suc n = m" "cnt < recvPhaseFrom r" "prevPeerSecret r = Some k" "Before now (prevExpiry r)"
    using reach by (auto simp: in_reach_def)
  then show ?thesis
  proof cases
    case 1
    then have "peerSecret r = connectionSecret s \<and> peerIV r = selfIV s" using r k same by (auto simp: receives_at_def)
    then show ?thesis using 1 c o by (simp add: app_header_KeyPhase sk(2) open_with_def)
  next
    case 2
    then have "nextPeerSecret r = connectionSecret s \<and> nextPeerIV r = selfIV s" using r k same by (auto simp: receives_at_def)
    then show ?thesis using 2 c o
      by (cases "prevPeerSecret r") (auto simp: app_header_KeyPhase sk(2) open_with_def)
  next
    case (3 k')
    then have "keys_at C sec (commonKeyKind s) n k' (prevPeerIV r)" using r k by (auto simp: receives_at_def)
    then have "k' = connectionSecret s \<and> prevPeerIV r = selfIV s" using same by blast
    then show ?thesis using 3 c o by (auto simp: app_header_KeyPhase sk(2) open_with_def)
  qed
qed

lemma receives_at_untouched:
  "receives_at C sec m (a\<lparr>recvTracker := t, lastTime := now\<rparr>) = receives_at C sec m a"
  "receives_at C sec m (a\<lparr>recvTracker := t, lastTime := now, msgs := c\<rparr>) = receives_at C sec m a"
  by (simp_all add: receives_at_def)

lemma acceptApplication_ok:
  assumes laws: "crypto_laws C" and s: "sends_at C sec n s" and r: "receives_at C sec m r"
    and k: "commonKeyKind r = commonKeyKind s" and reach: "in_reach now n m cnt r"
    and t: "ntracker_ok (recvTracker r)" and fresh: "cnt \<noteq> 0" "cnt \<notin> seen (recvTracker r)" and cnt: "cnt < 2 ^ 63"
  shows "\<exists>r'. acceptApplication C now cid (protHeader ctl cnt) (PutUint64 (tmp72 (protHeader ctl cnt)))
        (app_sealed C rnd data ctl cnt s) (app_header rnd data s) r = (if ctl then handleControl data else Inr (), r') \<and>
    receives_at C sec (max n m) r' \<and> ntracker_ok (recvTracker r') \<and>
    seen (recvTracker r') = insert cnt (seen (recvTracker r)) \<and>
    msgs r' = (if ctl then msgs r else snd (mc_SendMessage \<lparr>om_From = cid, om_PacketNumber = cnt, om_Data = data\<rparr> (msgs r)))"
proof -
  note f = protHeader_fields[OF cnt, of ctl] and sp = InsertNonce_spec[OF t, of cnt now]
  note o = open_with_ok[OF laws s r k reach, of rnd data ctl]
  obtain a where a: "(if choose_phase now (KeyPhase (app_header rnd data s)) cnt r = NextPhase
        then commitRecvPhaseLocked C now cnt r else (Inr (), r)) = (Inr (), a)"
    "receives_at C sec (max n m) a" "recvTracker a = recvTracker r" "msgs a = msgs r"
  proof (cases "n = Suc m")
    case True
    then show ?thesis using that commitRecvPhaseLocked_ok[OF laws r, of now cnt] o by auto
  next
    case False
    then have "n \<le> m" using reach by (auto simp: in_reach_def)
    then show ?thesis using that[of r] False o r by (simp add: max_def)
  qed
  have new: "fst (InsertNonce cnt now True (recvTracker r))" using sp(1) fresh by simp
  show ?thesis unfolding acceptApplication_def Let_def f(1) hdrData_eq
    using new o a sp(3,4) fresh(1) by (simp add: f(2) receives_at_untouched)
qed

text \<open>What sealing does to the sender, the key update it may start with included.\<close>

lemma sends_at_counter: "sends_at C sec n (a\<lparr>sentCounter := c\<rparr>) = sends_at C sec n a"
  by (simp add: sends_at_def)

lemma sealApplicationFrame_ok:
  assumes laws: "crypto_laws C" and s: "sends_at C sec n s"
    and seal: "sealApplicationFrame C rnd now data pn ctl s = (Inr (pkt, cnt), s')"
  shows "8 + length data + 16 \<le> 65535 \<and> pkt = Packet_wire (app_packet C rnd data ctl cnt s') \<and>
    cnt = fst (take_number pn s) \<and> ac_cid s' = ac_cid s \<and> selfHeaderProtect s' = selfHeaderProtect s \<and>
    commonKeyKind s' = commonKeyKind s \<and>
    (\<exists>n'. sends_at C sec n' s' \<and> (n' = n \<or> n' = Suc n \<and> update_due now cnt (snd (take_number pn s))))"
proof -
  let ?a = "snd (take_number pn s)"
  have a: "sends_at C sec n ?a" "ac_cid ?a = ac_cid s" "selfHeaderProtect ?a = selfHeaderProtect s" "commonKeyKind ?a = commonKeyKind s"
    using s by (simp_all add: take_number_def ac_ConsumePacketNumber_def sends_at_counter split: option.splits)
  obtain k iv where u: "ratchetSendLocked C now ?a = Inr (advanced_send C sec n now k iv ?a)"
    "sends_at C sec (Suc n) (advanced_send C sec n now k iv ?a)"
    using ratchetSendLocked_ok[OF laws a(1)] by blast
  have c: "cnt = fst (take_number pn s)" and s': "s' = (if update_due now cnt ?a then advanced_send C sec n now k iv ?a else ?a)"
    and p: "seal_packet C rnd data ctl cnt s' = Inr pkt"
    using seal u(1)
    by (auto simp: sealApplicationFrame_def case_prod_unfold Let_def rbind_Inr_iff split: if_splits)
  have "sends_at C sec (if update_due now cnt ?a then Suc n else n) s'" using s' u(2) a(1) by simp
  then show ?thesis using c s' p seal_packet_eq[OF laws, of rnd data ctl cnt s'] a(2-4)
    by (auto simp: advanced_send_def split: if_splits)
qed

end
