(* ===== verification/Obj_Session_Props.thy ===== *)
theory Obj_Session_Props
  imports Obj_Session
begin

text \<open>
  What a connection of the session layer promises: what one end seals the other opens, through every
  advance of the key phase; a packet number is handed on once, whatever datagrams arrive; a refused
  datagram changes nothing; and no nonce is used twice under the key of a phase.
\<close>

section \<open>A packet is handed on once\<close>

text \<open>Anyone can send datagrams: every list of them, at any times.\<close>

fun receive_all :: "crypto \<Rightarrow> ConnectionID \<Rightarrow> (time \<times> bytes \<times> ObjHeader) list \<Rightarrow> activeConnection \<Rightarrow> activeConnection" where
  "receive_all C cid [] a = a"
| "receive_all C cid ((now, data, hdr) # ds) a = receive_all C cid ds (snd (openApplication C now cid data hdr a))"

lemma commitRecvPhaseLocked_frame:
  "recvTracker (snd (commitRecvPhaseLocked C now pn a)) = recvTracker a"
  "msgs (snd (commitRecvPhaseLocked C now pn a)) = msgs a"
  by (simp_all add: commitRecvPhaseLocked_def Let_def split: sum.splits)

text \<open>Whatever the primitives do, a datagram is refused, or taken with a packet number not seen before.\<close>

definition takes :: "u64 \<Rightarrow> objMessage option \<Rightarrow> activeConnection \<Rightarrow> activeConnection \<Rightarrow> bool" where
  "takes n m a a' \<longleftrightarrow> n \<noteq> 0 \<and> n \<notin> seen (recvTracker a) \<and> ntracker_ok (recvTracker a') \<and>
     seen (recvTracker a') = insert n (seen (recvTracker a)) \<and>
     (case m of None \<Rightarrow> msgs a' = msgs a | Some x \<Rightarrow> om_PacketNumber x = n \<and> msgs a' = snd (mc_SendMessage x (msgs a)))"

lemma acceptApplication_cases:
  assumes "ntracker_ok (recvTracker a)" "acceptApplication C now cid prot pb ct hdr a = (r, a')"
  shows "recvTracker a' = recvTracker a \<and> msgs a' = msgs a \<or> (\<exists>m. takes (NonceCounter prot) m a a')"
proof -
  let ?n = "NonceCounter prot" and ?h = "must (ObjHeader_Append hdr [])"
  let ?c = "choose_phase now (KeyPhase hdr) ?n a"
  note sp = InsertNonce_spec[OF assms(1), of ?n now]
  obtain q b where b: "(if ?c = NextPhase then commitRecvPhaseLocked C now ?n a else (Inr (), a)) = (q, b)" by force
  then have fr: "recvTracker b = recvTracker a" "msgs b = msgs a"
    using commitRecvPhaseLocked_frame[of C now ?n a] by (auto split: if_splits)
  show ?thesis
  proof (cases "fst (InsertNonce ?n now True (recvTracker a))")
    case False
    then show ?thesis using assms(2) by (simp add: acceptApplication_def Let_def)
  next
    case new: True
    show ?thesis
    proof (cases "open_with C ?c (replicate 4 0 @ pb) ct ?h a")
      case (Inl e)
      then show ?thesis using assms(2) new by (simp add: acceptApplication_def Let_def)
    next
      case (Inr pt)
      let ?m = "if Control prot then None else Some \<lparr>om_From = cid, om_PacketNumber = ?n, om_Data = pt\<rparr>"
      have "q = Inr () \<Longrightarrow> takes ?n ?m a a'"
        using assms(2) new Inr b fr sp by (auto simp: acceptApplication_def Let_def takes_def)
      moreover have "q \<noteq> Inr () \<Longrightarrow> a' = b"
        using assms(2) new Inr b by (cases q) (auto simp: acceptApplication_def Let_def)
      ultimately show ?thesis using fr by metis
    qed
  qed
qed

lemma openApplication_cases:
  assumes "ntracker_ok (recvTracker a)"
  shows "recvTracker (snd (openApplication C now cid data hdr a)) = recvTracker a \<and>
      msgs (snd (openApplication C now cid data hdr a)) = msgs a \<or>
    (\<exists>n m. takes n m a (snd (openApplication C now cid data hdr a)))"
proof -
  obtain r a' where o: "openApplication C now cid data hdr a = (r, a')" by force
  then have "a' = a \<or> (\<exists>prot pb ct. acceptApplication C now cid prot pb ct hdr a = (r, a'))"
    by (auto simp: openApplication_def Let_def split: if_splits sum.splits prod.splits)
  then show ?thesis using acceptApplication_cases[OF assms] o by (metis snd_conv)
qed

definition handed_on :: "activeConnection \<Rightarrow> u64 list" where
  "handed_on a = map (\<lambda>x. om_PacketNumber (im_msg x)) (messageChan (msgs a) @ senders (msgs a))"

definition once_ok :: "activeConnection \<Rightarrow> bool" where
  "once_ok a \<longleftrightarrow> ntracker_ok (recvTracker a) \<and> distinct (handed_on a) \<and> set (handed_on a) \<subseteq> seen (recvTracker a)"

lemma handed_on_send:
  "mset (map (\<lambda>x. om_PacketNumber (im_msg x)) (messageChan (snd (mc_SendMessage m c)) @ senders (snd (mc_SendMessage m c)))) \<subseteq>#
     add_mset (om_PacketNumber m) (mset (map (\<lambda>x. om_PacketNumber (im_msg x)) (messageChan c @ senders c)))"
  by (simp add: mc_SendMessage_def Let_def)

lemma distinct_submset:
  assumes "mset xs \<subseteq># mset ys" "distinct ys"
  shows "distinct xs"
proof -
  have "count (mset xs) x = (if x \<in> set xs then 1 else 0)" for x
  proof -
    have "count (mset xs) x \<le> 1" using mset_subset_eq_count[OF assms(1), of x] assms(2)
      by (metis distinct_count_atmost_1 le_trans order_refl zero_le_one)
    then show ?thesis using count_mset_gt_0[of x xs] by (auto simp: not_in_iff le_Suc_eq)
  qed
  then show ?thesis by (simp add: distinct_count_atmost_1)
qed

lemma once_ok_takes:
  assumes "once_ok a" "takes n m a a'"
  shows "once_ok a'"
proof -
  let ?num = "\<lambda>x. om_PacketNumber (im_msg x)"
  have sub: "mset (handed_on a') \<subseteq># add_mset n (mset (handed_on a))"
    using assms(2) handed_on_send by (cases m) (auto simp: takes_def handed_on_def)
  have "n \<notin> set (handed_on a)" using assms by (auto simp: once_ok_def takes_def)
  then have "distinct (n # handed_on a)" using assms(1) by (simp add: once_ok_def)
  then have "distinct (handed_on a')" using sub distinct_submset[of "handed_on a'" "n # handed_on a"] by simp
  moreover have "set (handed_on a') \<subseteq> insert n (set (handed_on a))" using set_mset_mono[OF sub] by simp
  ultimately show ?thesis using assms by (auto simp: once_ok_def takes_def)
qed

lemma once_ok_receive_all: "once_ok a \<Longrightarrow> once_ok (receive_all C cid ds a)"
proof (induction ds arbitrary: a)
  case (Cons d ds)
  obtain now data hdr where d: "d = (now, data, hdr)" by (metis prod_cases3)
  let ?b = "snd (openApplication C now cid data hdr a)"
  have t: "ntracker_ok (recvTracker a)" using Cons.prems by (simp add: once_ok_def)
  have "once_ok ?b"
    using openApplication_cases[OF t, of C now cid data hdr]
  proof
    assume "recvTracker ?b = recvTracker a \<and> msgs ?b = msgs a"
    then show ?thesis using Cons.prems by (simp add: once_ok_def handed_on_def)
  next
    assume "\<exists>n m. takes n m a ?b"
    then show ?thesis using once_ok_takes[OF Cons.prems] by blast
  qed
  then show ?case using Cons.IH by (simp add: d)
qed simp

section \<open>No nonce twice\<close>

text \<open>
  What the owner of a connection may do with it: take packet numbers, send with a fresh number or once
  with a taken one, and update the key. The log has the key, the IV and the nonce of every sealing.
\<close>

type_synonym sealing = "aead \<times> bytes \<times> bytes"

abbreviation sealing_of :: "bool \<Rightarrow> u64 \<Rightarrow> activeConnection \<Rightarrow> sealing" where
  "sealing_of ctl cnt a \<equiv> (connectionSecret a, selfIV a, seal_nonce ctl cnt a)"

inductive seal_reach ::
  "crypto \<Rightarrow> activeConnection \<Rightarrow> activeConnection \<Rightarrow> u64 list \<Rightarrow> sealing list \<Rightarrow> bool" for C a0 where
  init: "seal_reach C a0 a0 [] []"
| consume: "seal_reach C a0 a out log \<Longrightarrow> sentCounter a < 2 ^ 63 - 1 \<Longrightarrow> ac_ConsumePacketNumber a = (n, a') \<Longrightarrow>
    seal_reach C a0 a' (n # out) log"
| send: "seal_reach C a0 a out log \<Longrightarrow> sentCounter a < 2 ^ 63 - 1 \<Longrightarrow>
    sealApplicationFrame C rnd now data None ctl a = (Inr (pkt, cnt), a') \<Longrightarrow>
    seal_reach C a0 a' out (sealing_of ctl cnt a' # log)"
| send_taken: "seal_reach C a0 a out log \<Longrightarrow> n \<in> set out \<Longrightarrow>
    sealApplicationFrame C rnd now data (Some n) ctl a = (Inr (pkt, cnt), a') \<Longrightarrow>
    seal_reach C a0 a' (remove1 n out) (sealing_of ctl cnt a' # log)"
| send_fails: "seal_reach C a0 a out log \<Longrightarrow> sentCounter a < 2 ^ 63 - 1 \<Longrightarrow>
    sealApplicationFrame C rnd now data pn ctl a = (Inl e, a') \<Longrightarrow> seal_reach C a0 a' out log"
| update: "seal_reach C a0 a out log \<Longrightarrow> sentCounter a < 2 ^ 63 - 1 \<Longrightarrow>
    UpdateKey C rnd now a = (Inr (pkt, cnt), a') \<Longrightarrow> seal_reach C a0 a' out (sealing_of True cnt a' # log)"
| update_fails: "seal_reach C a0 a out log \<Longrightarrow> sentCounter a < 2 ^ 63 - 1 \<Longrightarrow>
    UpdateKey C rnd now a = (Inl e, a') \<Longrightarrow> seal_reach C a0 a' out log"

text \<open>The nonce gives the packet number back.\<close>

lemma phase_nonce_inj:
  assumes "phase_nonce iv ctl c = phase_nonce iv ctl' c'" "length iv = 12" "c < 2 ^ 63" "c' < 2 ^ 63"
  shows "c = c'"
proof -
  let ?z = "\<lambda>ctl c. replicate 4 0 @ PutUint64 (tmp72 (protHeader ctl c))"
  have "?z ctl c = ?z ctl' c'"
    using arg_cong[OF assms(1), of "map2 (XOR) iv"] assms(2) by (simp add: phase_nonce_def map2_xor_twice)
  then have "PutUint64 (tmp72 (protHeader ctl c)) = PutUint64 (tmp72 (protHeader ctl' c'))" by simp
  then have "tmp72 (protHeader ctl c) = tmp72 (protHeader ctl' c')"
    using protected_read[of 0 _ _ "[]" "\<lparr>tmp72 = 0\<rparr>"] by (metis Inr_inject append_Nil2 drop0 fst_conv ProtectedHeader.select_convs(1) ProtectedHeader.update_convs(1))
  then have "protHeader ctl c = protHeader ctl' c'" by simp
  then show ?thesis using protHeader_fields(1) assms(3,4) by metis
qed

text \<open>Behind every sealing is a packet number of its own, none of them still to be used.\<close>

definition entry :: "aead \<times> bytes \<times> bool \<times> u64 \<Rightarrow> sealing" where
  "entry = (\<lambda>(k, iv, ctl, c). (k, iv, phase_nonce iv ctl c))"

definition number :: "aead \<times> bytes \<times> bool \<times> u64 \<Rightarrow> u64" where
  "number = (\<lambda>(k, iv, ctl, c). c)"

definition log_ok :: "u64 \<Rightarrow> u64 list \<Rightarrow> sealing list \<Rightarrow> bool" where
  "log_ok hi out log \<longleftrightarrow> hi < 2 ^ 63 \<and> (\<exists>es. log = map entry es \<and> distinct (out @ map number es) \<and>
     (\<forall>c \<in> set out \<union> number ` set es. c \<le> hi) \<and> (\<forall>(k, iv, _) \<in> set es. length iv = NonceSize))"

lemma log_ok_distinct:
  assumes "log_ok hi out log"
  shows "distinct log"
proof -
  obtain es where es: "log = map entry es" "distinct (map number es)" "\<forall>c \<in> number ` set es. c \<le> hi" "hi < 2 ^ 63"
    "\<forall>(k, iv, _) \<in> set es. length iv = NonceSize"
    using assms by (auto simp: log_ok_def)
  have "inj_on entry (set es)"
  proof (rule inj_onI)
    fix x y assume xy: "x \<in> set es" "y \<in> set es" "entry x = entry y"
    obtain k iv ctl c k' iv' ctl' c' where t: "x = (k, iv, ctl, c)" "y = (k', iv', ctl', c')" by (metis prod_cases4)
    have e: "iv' = iv" "phase_nonce iv ctl c = phase_nonce iv ctl' c'" using xy(3) by (auto simp: t entry_def)
    have "c \<in> number ` set es" "c' \<in> number ` set es" using xy(1,2) by (force simp: t number_def)+
    then have b: "c < 2 ^ 63" "c' < 2 ^ 63" using es(3,4) by (meson le_less_trans)+
    have "length iv = NonceSize" using es(5) xy(1) by (auto simp: t)
    then have "number x = number y" using phase_nonce_inj[OF e(2) _ b] by (simp add: t number_def)
    then show "x = y" using es(2) xy(1,2) by (metis distinct_map inj_onD)
  qed
  then show ?thesis using es(1,2) by (simp add: distinct_map)
qed

lemma log_ok_mono: "log_ok hi out log \<Longrightarrow> hi \<le> hi' \<Longrightarrow> hi' < 2 ^ 63 \<Longrightarrow> log_ok hi' out log"
  unfolding log_ok_def by (elim conjE exE, intro conjI exI) (auto intro: order_trans)

lemma counter_next:
  fixes hi :: u64
  assumes "hi < 2 ^ 63 - 1"
  shows "hi < hi + 1" and "hi + 1 < 2 ^ 63"
proof -
  have m: "(2 ^ 63 - 1 :: u64) = 9223372036854775807" "(2 ^ 63 :: u64) = 9223372036854775808" by simp_all
  have "unat hi < 9223372036854775807" using assms unfolding m by (simp add: word_less_nat_alt)
  then have "unat (hi + 1) = unat hi + 1" by (intro unat_plus_one) simp
  with \<open>unat hi < _\<close> show "hi < hi + 1" and "hi + 1 < 2 ^ 63" unfolding m by (simp_all add: word_less_nat_alt)
qed

lemma log_ok_consume:
  assumes "log_ok hi out log" "hi < 2 ^ 63 - 1"
  shows "log_ok (hi + 1) ((hi + 1) # out) log"
proof -
  note n = counter_next[OF assms(2)]
  obtain es where es: "log = map entry es" "distinct (out @ map number es)"
    "\<forall>c \<in> set out \<union> number ` set es. c \<le> hi" "\<forall>(k, iv, _) \<in> set es. length iv = NonceSize"
    using assms(1) unfolding log_ok_def by blast
  have "\<forall>c \<in> set out \<union> number ` set es. c < hi + 1" using es(3) n(1) by (meson le_less_trans)
  then have "\<forall>c \<in> set ((hi + 1) # out) \<union> number ` set es. c \<le> hi + 1"
    and "distinct (((hi + 1) # out) @ map number es)"
    using es(2) by (auto simp: less_imp_le)
  then show ?thesis using es(1,4) n(2) unfolding log_ok_def by blast
qed

lemma log_ok_use:
  assumes "log_ok hi out log" "c \<in> set out" "length iv = NonceSize"
  shows "log_ok hi (remove1 c out) ((k, iv, phase_nonce iv ctl c) # log)"
proof -
  obtain es where es: "log = map entry es" "distinct (out @ map number es)" "hi < 2 ^ 63"
    "\<forall>c \<in> set out \<union> number ` set es. c \<le> hi" "\<forall>(k, iv, _) \<in> set es. length iv = NonceSize"
    using assms(1) unfolding log_ok_def by blast
  let ?es = "(k, iv, ctl, c) # es"
  have num: "number (k, iv, ctl, c) = c" by (simp add: number_def)
  have "(k, iv, phase_nonce iv ctl c) # log = map entry ?es" using es(1) by (simp add: entry_def)
  moreover have "distinct (remove1 c out @ map number ?es)"
    using es(2) assms(2) num by (auto simp: distinct_remove1 set_remove1_eq)
  moreover have "\<forall>c \<in> set (remove1 c out) \<union> number ` set ?es. c \<le> hi"
    using es(4) assms(2) num by (auto dest: notin_set_remove1 set_remove1_subset[THEN subsetD])
  moreover have "\<forall>(k, iv, _) \<in> set ?es. length iv = NonceSize" using es(5) assms(3) by auto
  ultimately show ?thesis using es(3) unfolding log_ok_def by (intro conjI exI[of _ ?es])
qed

text \<open>One sealing with the number it takes or is given.\<close>

lemma sealApplicationFrame_counter:
  "sealApplicationFrame C rnd now data pn ctl a = (r, a') \<Longrightarrow>
     sentCounter a' = sentCounter (snd (take_number pn a)) \<and> (\<forall>pkt c. r = Inr (pkt, c) \<longrightarrow> c = fst (take_number pn a))"
  by (auto simp: sealApplicationFrame_def case_prod_unfold Let_def ratchetSendLocked_def rbind_Inr_iff
      split: if_splits sum.splits)

lemma sends_at_seal:
  assumes "crypto_laws C" "sends_at C sec n a" "sealApplicationFrame C rnd now data pn ctl a = (r, a')"
  shows "\<exists>n'. sends_at C sec n' a'"
proof -
  let ?a = "snd (take_number pn a)"
  have s: "sends_at C sec n ?a"
    using assms(2) by (simp add: take_number_def ac_ConsumePacketNumber_def sends_at_counter split: option.splits)
  obtain k iv where u: "ratchetSendLocked C now ?a = Inr (advanced_send C sec n now k iv ?a)"
    "sends_at C sec (Suc n) (advanced_send C sec n now k iv ?a)"
    using ratchetSendLocked_ok[OF assms(1) s] by blast
  then have "a' = ?a \<or> a' = advanced_send C sec n now k iv ?a"
    using assms(3) by (auto simp: sealApplicationFrame_def case_prod_unfold Let_def split: if_splits)
  then show ?thesis using s u(2) by blast
qed

lemma sends_at_nonce:
  assumes "crypto_laws C" "sends_at C sec n a"
  shows "length (selfIV a) = NonceSize" and "seal_nonce ctl c a = phase_nonce (selfIV a) ctl c"
proof -
  show l: "length (selfIV a) = NonceSize" using keys_at_iv[OF assms(1)] assms(2) by (auto simp: sends_at_def)
  show "seal_nonce ctl c a = phase_nonce (selfIV a) ctl c" by (rule seal_nonce_eq[OF l])
qed

lemma log_ok_seal:
  assumes "crypto_laws C" "sends_at C sec n a" "log_ok (sentCounter a) out log"
    "sealApplicationFrame C rnd now data pn ctl a = (r, a')"
    "pn = None \<Longrightarrow> sentCounter a < 2 ^ 63 - 1" "\<And>c. pn = Some c \<Longrightarrow> c \<in> set out"
  shows "case r of Inl _ \<Rightarrow> log_ok (sentCounter a') out log
    | Inr (_, c) \<Rightarrow> log_ok (sentCounter a') (case pn of None \<Rightarrow> out | Some c \<Rightarrow> remove1 c out) (sealing_of ctl c a' # log)"
proof -
  obtain n' where n': "sends_at C sec n' a'" using sends_at_seal[OF assms(1,2,4)] by blast
  note nn = sends_at_nonce[OF assms(1) n'] and cc = sealApplicationFrame_counter[OF assms(4)]
  show ?thesis
  proof (cases pn)
    case None
    then have hi: "sentCounter a' = sentCounter a + 1" "sentCounter a < 2 ^ 63 - 1"
      using cc assms(5) by (simp_all add: take_number_def ac_ConsumePacketNumber_def)
    note lc = log_ok_consume[OF assms(3) hi(2)]
    have "log_ok (sentCounter a') out log"
      using log_ok_mono[OF assms(3), of "sentCounter a'"] counter_next[OF hi(2)] hi(1) by simp
    moreover have "log_ok (sentCounter a') out (sealing_of ctl (sentCounter a + 1) a' # log)"
      using log_ok_use[OF lc, of "sentCounter a + 1"] nn hi(1) by simp
    moreover have "\<forall>pkt c. r = Inr (pkt, c) \<longrightarrow> c = sentCounter a + 1"
      using cc None by (simp add: take_number_def ac_ConsumePacketNumber_def)
    ultimately show ?thesis using None by (auto split: sum.splits)
  next
    case (Some c)
    then have "sentCounter a' = sentCounter a" "\<forall>pkt d. r = Inr (pkt, d) \<longrightarrow> d = c" "c \<in> set out"
      using cc assms(6) by (simp_all add: take_number_def)
    then show ?thesis using log_ok_use[OF assms(3), of c] nn Some assms(3) by (auto split: sum.splits)
  qed
qed

lemma log_ok_fails:
  assumes "log_ok (sentCounter a) out log" "sentCounter a < 2 ^ 63 - 1"
    "sealApplicationFrame C rnd now data pn ctl a = (Inl e, a')"
  shows "log_ok (sentCounter a') out log"
proof -
  have "sentCounter a' = sentCounter a \<or> sentCounter a' = sentCounter a + 1"
    using sealApplicationFrame_counter[OF assms(3)] by (auto simp: take_number_def ac_ConsumePacketNumber_def split: option.splits)
  then show ?thesis using log_ok_mono[OF assms(1), of "sentCounter a'"] counter_next[OF assms(2)] assms(1) by auto
qed

lemma log_ok_update:
  assumes laws: "crypto_laws C" and s: "sends_at C sec n a" and l: "log_ok (sentCounter a) out log"
    and hi: "sentCounter a < 2 ^ 63 - 1" and u: "UpdateKey C rnd now a = (r, a')"
  shows "(\<exists>n'. sends_at C sec n' a') \<and>
    (case r of Inl _ \<Rightarrow> log_ok (sentCounter a') out log | Inr (_, c) \<Rightarrow> log_ok (sentCounter a') out (sealing_of True c a' # log))"
proof -
  obtain k iv where k: "ratchetSendLocked C now a = Inr (advanced_send C sec n now k iv a)"
    "sends_at C sec (Suc n) (advanced_send C sec n now k iv a)"
    using ratchetSendLocked_ok[OF laws s] by blast
  let ?b = "advanced_send C sec n now k iv a"
  have b: "sentCounter ?b = sentCounter a" by (simp add: advanced_send_def)
  show ?thesis
  proof (cases "sendPhase a > 0 \<and> \<not> canUpdateLocked now a")
    case True
    then have "r = Inl UpdateRefused" "a' = a" using u unfolding UpdateKey_def if_P[OF True] by simp_all
    then show ?thesis using s l by auto
  next
    case False
    have 2: "sealApplicationFrame C rnd now [ControlKind_Ping] None True ?b = (r, a')"
      using u unfolding UpdateKey_def if_not_P[OF False] k(1) by simp
    show ?thesis using log_ok_seal[OF laws k(2) _ 2, of out log] sends_at_seal[OF laws k(2) 2] b l hi by (cases r) auto
  qed
qed

lemma seal_reach_ok:
  assumes "seal_reach C a0 a out log" "crypto_laws C" "sends_at C sec n a0" "sentCounter a0 = 0"
  shows "(\<exists>n. sends_at C sec n a) \<and> log_ok (sentCounter a) out log"
  using assms(1)
proof (induction rule: seal_reach.induct)
  case init
  then show ?case using assms(3,4) by (auto simp: log_ok_def)
next
  case (consume a out log m a')
  then show ?case using log_ok_consume by (auto simp: ac_ConsumePacketNumber_def sends_at_counter)
next
  case (send a out log rnd now data ctl pkt cnt a')
  then show ?case using log_ok_seal[OF assms(2) _ _ send(3)] sends_at_seal[OF assms(2) _ send(3)] by force
next
  case (send_taken a out log m rnd now data ctl pkt cnt a')
  then show ?case using log_ok_seal[OF assms(2) _ _ send_taken(3)] sends_at_seal[OF assms(2) _ send_taken(3)] by force
next
  case (send_fails a out log rnd now data pn ctl e a')
  then show ?case using log_ok_fails[OF _ send_fails(2,3)] sends_at_seal[OF assms(2) _ send_fails(3)] by blast
next
  case (update a out log rnd now pkt cnt a')
  then show ?case using log_ok_update[OF assms(2) _ _ update(2,3)] by force
next
  case (update_fails a out log rnd now e a')
  then show ?case using log_ok_update[OF assms(2) _ _ update_fails(2,3)] by force
qed

section \<open>Two ends of a connection\<close>

lemma newActiveConnection_ok:
  assumes "newActiveConnection C now cid self peer kind selfHP peerHP tr p = Inr a" "crypto_laws C"
  shows "sends_at C self 0 a \<and> receives_at C peer 0 a \<and> sentCounter a = 0 \<and> ntracker_ok (recvTracker a) \<and>
    seen (recvTracker a) = {} \<and> commonKeyKind a = kind \<and>
    header_protect_keys kind selfHP peerHP = Inr (selfHeaderProtect a, peerHeaderProtect a) \<and>
    sendPhaseFrom a = 0 \<and> prevPeerSecret a = None \<and>
    (p = None \<longrightarrow> msgs a = NewMessageChannel messageChannelDepth)"
proof -
  obtain sk rk ns nk sb pb where e: "derivePhaseKeys C self kind = Inr sk" "derivePhaseKeys C peer kind = Inr rk"
    "ratchetSecret C (pk_secret rk) = Inr ns" "derivePhaseKeys C ns kind = Inr nk"
    "header_protect_keys kind selfHP peerHP = Inr (sb, pb)"
    using assms(1) unfolding newActiveConnection_def rbind_Inr_iff by (auto split: prod.splits)
  have sec: "pk_secret k = s" if "derivePhaseKeys C s kind = Inr k" for s k
    using derivePhaseKeys_ok[OF assms(2) derivePhaseKeys_kind[OF that], of s] that by auto
  have ks: "derivePhaseKeys C self kind = Inr \<lparr>pk_secret = self, pk_aead = pk_aead sk, pk_iv = pk_iv sk\<rparr>"
    "derivePhaseKeys C peer kind = Inr \<lparr>pk_secret = peer, pk_aead = pk_aead rk, pk_iv = pk_iv rk\<rparr>"
    "derivePhaseKeys C ns kind = Inr \<lparr>pk_secret = ns, pk_aead = pk_aead nk, pk_iv = pk_iv nk\<rparr>"
    using e(1,2,4) sec[OF e(1)] sec[OF e(2)] sec[OF e(4)] by (metis phaseKeys.surjective old.unit.exhaust)+
  have ns: "phase_secret C peer (Suc 0) = ns" using e(3) sec[OF e(2)] by (simp add: phase_secret.simps(2) must_def)
  have K: "keys_at C self kind 0 (pk_aead sk) (pk_iv sk)" "keys_at C peer kind 0 (pk_aead rk) (pk_iv rk)"
    "keys_at C peer kind (Suc 0) (pk_aead nk) (pk_iv nk)"
    using ks ns by (simp_all add: keys_at_def)
  have t: "ntracker_ok (Reset r)" "seen (Reset r) = {}" "ntracker_ok zeroTracker" "seen zeroTracker = {}" for r
    by (auto simp: ntracker_ok_def nranges_ok_def Reset_def zeroTracker_def seen_def)
  have r: "ratchetSecret C peer = Inr ns" using e(3) sec[OF e(2)] by simp
  note a = assms(1)[unfolded newActiveConnection_def e(1,2,4,5) r rbind.simps case_prod_conv sec[OF e(1)] sec[OF e(2)]]
  show ?thesis
  proof (cases p)
    case None
    show ?thesis using a[unfolded None option.case] K ns t e(5)
      by (auto simp: sends_at_def receives_at_def)
  next
    case (Some q)
    show ?thesis using a[unfolded Some option.case] K ns t e(5)
      by (auto simp: sends_at_def receives_at_def Some)
  qed
qed

text \<open>
  Primitives that satisfy the laws: keys from a checksum of secret and context, a checksum of everything
  as the tag of sixteen bytes, and the identity as block cipher.
\<close>

definition checksum :: "bytes \<Rightarrow> u8" where
  "checksum bs = fold (\<lambda>b c. 31 * c + b + 1) bs 0"

definition sampleCrypto :: crypto where
  "sampleCrypto =
     \<lparr>hkdf = \<lambda>s c n. Some (replicate n (checksum (s @ c))),
      Seal = \<lambda>k n p ad. p @ replicate 16 (checksum (ae_key k @ n @ p @ ad)),
      Open = \<lambda>k n ct ad. let p = take (length ct - 16) ct in
        if ct = p @ replicate 16 (checksum (ae_key k @ n @ p @ ad)) then Some p else None,
      Encrypt = \<lambda>k b. b\<rparr>"

lemma sampleCrypto_laws: "crypto_laws sampleCrypto"
  by (simp add: crypto_laws_def sampleCrypto_def)

definition sampleCid :: ConnectionID where
  "sampleCid = \<lparr>Transport = ''udp'', cid_Addr = ([127, 0, 0, 1], 9), ID = 7\<rparr>"

definition sampleEnd :: "bytes \<Rightarrow> bytes \<Rightarrow> (session_error, activeConnection) result" where
  "sampleEnd self peer = newActiveConnection sampleCrypto 5 sampleCid self peer CommonKeyKind_Aes128Gcm
     (replicate 32 (checksum self)) (replicate 32 (checksum peer)) [] None"

lemma sampleEnd_ok: "\<exists>a. sampleEnd self peer = Inr a"
proof -
  have k: "\<exists>k. derivePhaseKeys sampleCrypto s CommonKeyKind_Aes128Gcm = Inr k" for s
    using derivePhaseKeys_ok[OF sampleCrypto_laws, of CommonKeyKind_Aes128Gcm s] by (auto simp: IsCommonKeyKindDefined_def)
  have r: "\<exists>k. ratchetSecret sampleCrypto s = Inr k" for s
    using DeriveKey_ok[OF sampleCrypto_laws, of 32 s] by (auto simp: ratchetSecret_def)
  have h: "\<exists>p. header_protect_keys CommonKeyKind_Aes128Gcm (replicate 32 x) (replicate 32 y) = Inr p" for x y
    by (simp add: header_protect_keys_def aes_NewCipher_def min_def)
  obtain sk rk where a: "derivePhaseKeys sampleCrypto self CommonKeyKind_Aes128Gcm = Inr sk"
    "derivePhaseKeys sampleCrypto peer CommonKeyKind_Aes128Gcm = Inr rk" using k by metis
  obtain ns where b: "ratchetSecret sampleCrypto (pk_secret rk) = Inr ns" using r by blast
  obtain nk where c: "derivePhaseKeys sampleCrypto ns CommonKeyKind_Aes128Gcm = Inr nk" using k by blast
  obtain hs hp where d: "header_protect_keys CommonKeyKind_Aes128Gcm (replicate 32 (checksum self)) (replicate 32 (checksum peer)) =
    Inr (hs, hp)" using h by (metis surj_pair)
  show ?thesis unfolding sampleEnd_def newActiveConnection_def a b c d rbind.simps case_prod_conv by blast
qed

text \<open>A frame that fits a packet is always sealed.\<close>

lemma sealApplicationFrame_succeeds:
  assumes laws: "crypto_laws C" and s: "sends_at C sec n s" and len: "8 + length data + Overhead \<le> 65535"
  shows "\<exists>pkt s'. sealApplicationFrame C rnd t data pn ctl s = (Inr (pkt, fst (take_number pn s)), s')"
proof -
  have a: "sends_at C sec n (snd (take_number pn s))"
    using s by (simp add: take_number_def ac_ConsumePacketNumber_def sends_at_counter split: option.splits)
  have p: "\<exists>pkt. seal_packet C rnd data ctl c b = Inr pkt" for c b
    using len by (simp add: seal_packet_eq[OF laws])
  obtain b where "(if update_due t (fst (take_number pn s)) (snd (take_number pn s))
      then ratchetSendLocked C t (snd (take_number pn s)) else Inr (snd (take_number pn s))) = Inr b"
    using ratchetSendLocked_ok[OF laws a, of t] by (metis (full_types))
  then show ?thesis using p[of "fst (take_number pn s)" b] by (auto simp: sealApplicationFrame_def case_prod_unfold Let_def)
qed

section \<open>Properties\<close>

text \<open>
  C7: what one end seals the other end opens. Let one end send at phase \<open>n\<close> and the other receive at phase
  \<open>m\<close> of the same secret. For data that fits a packet \<open>sendApplicationFrame\<close> succeeds; its datagram,
  before which it may advance the sender by one phase, decodes to an application packet with the
  connection's number; and when its phase is within the receiver's reach (the same, the next, or the
  previous one while its key is kept) and its number is new, the receiver opens it to the very bytes
  that were sent, hands them to the message channel with their packet number (a control frame goes to
  \<open>handleControl\<close> instead), enters the number in its replay window and follows the sender to the later phase.
\<close>

theorem session_delivers:
  assumes laws: "crypto_laws C" and s: "sends_at C sec n s" and r: "receives_at C sec m r"
    and k: "commonKeyKind r = commonKeyKind s" and hp: "peerHeaderProtect r = selfHeaderProtect s"
    and len: "8 + length data + Overhead \<le> 65535" and num: "cnt = fst (take_number pn s)" and cnt: "cnt < 2 ^ 63"
    and tr: "ntracker_ok (recvTracker r)" and fresh: "cnt \<notin> insert 0 (seen (recvTracker r))"
  shows "\<exists>pkt s' p n'. sealApplicationFrame C rnd t data pn ctl s = (Inr (pkt, cnt), s') \<and>
    Packet_DecodeExact pkt = Inr p \<and> headerKind (pk_Header p) = PacketKind_Application \<and>
    headerConnID (pk_Header p) = ID (ac_cid s) \<and> sends_at C sec n' s' \<and> n' \<in> {n, Suc n} \<and>
    (in_reach now n' m cnt r \<longrightarrow>
      (\<exists>r'. openApplication C now cid (pk_Data p) (pk_Header p) r = (if ctl then handleControl data else Inr (), r') \<and>
        receives_at C sec (max n' m) r' \<and> seen (recvTracker r') = insert cnt (seen (recvTracker r)) \<and>
        msgs r' = (if ctl then msgs r
                   else snd (mc_SendMessage \<lparr>om_From = cid, om_PacketNumber = cnt, om_Data = data\<rparr> (msgs r)))))"
proof -
  obtain pkt s' where seal: "sealApplicationFrame C rnd t data pn ctl s = (Inr (pkt, cnt), s')"
    using sealApplicationFrame_succeeds[OF laws s len] num by blast
  let ?p = "app_packet C rnd data ctl cnt s'"
  obtain n' where f: "pkt = Packet_wire ?p" "ac_cid s' = ac_cid s"
    "selfHeaderProtect s' = selfHeaderProtect s" "commonKeyKind s' = commonKeyKind s"
    "sends_at C sec n' s'" "n' \<in> {n, Suc n}"
    using sealApplicationFrame_ok[OF laws s seal] by auto
  have "Packet_DecodeExact pkt = Inr ?p"
    using packet.exact_roundtrip[OF app_packet_ok[OF laws len]] by (simp add: f(1) Packet_DecodeExact_def)
  moreover have h: "pk_Header ?p = app_header rnd data s'" by (simp add: app_packet_def Let_def)
  moreover have "headerKind (app_header rnd data s') = PacketKind_Application"
    "headerConnID (app_header rnd data s') = ID (ac_cid s)"
    unfolding app_header_def by (simp_all add: header_unmasks f(2))
  moreover have "\<exists>r'. openApplication C now cid (pk_Data ?p) (app_header rnd data s') r = (if ctl then handleControl data else Inr (), r') \<and>
        receives_at C sec (max n' m) r' \<and> seen (recvTracker r') = insert cnt (seen (recvTracker r)) \<and>
        msgs r' = (if ctl then msgs r
                   else snd (mc_SendMessage \<lparr>om_From = cid, om_PacketNumber = cnt, om_Data = data\<rparr> (msgs r)))"
    if "in_reach now n' m cnt r"
    unfolding openApplication_unmask[OF laws hp[folded f(3)]]
    using acceptApplication_ok[OF laws f(5) r _ that tr _ _ cnt, of cid ctl rnd data] k f(4) fresh by (metis insertCI)
  ultimately show ?thesis using seal f(5,6)
    by (intro exI[of _ pkt] exI[of _ s'] exI[of _ ?p] exI[of _ n']) simp
qed

lemma sampleEnds:
  assumes "sampleEnd [1] [2] = Inr s" "sampleEnd [2] [1] = Inr r"
  shows "sends_at sampleCrypto [1] 0 s" "receives_at sampleCrypto [1] 0 r" "commonKeyKind r = commonKeyKind s"
    "peerHeaderProtect r = selfHeaderProtect s" "ntracker_ok (recvTracker r)" "seen (recvTracker r) = {}"
    "sentCounter s = 0" "prevPeerSecret r = None" "msgs r = NewMessageChannel messageChannelDepth"
proof -
  note a = newActiveConnection_ok[OF assms(1)[unfolded sampleEnd_def] sampleCrypto_laws]
    and b = newActiveConnection_ok[OF assms(2)[unfolded sampleEnd_def] sampleCrypto_laws]
  show "sends_at sampleCrypto [1] 0 s" "receives_at sampleCrypto [1] 0 r" "commonKeyKind r = commonKeyKind s"
    "ntracker_ok (recvTracker r)" "seen (recvTracker r) = {}"
    "sentCounter s = 0" "prevPeerSecret r = None" "msgs r = NewMessageChannel messageChannelDepth"
    using a b by simp_all
  show "peerHeaderProtect r = selfHeaderProtect s"
    using a b by (auto simp: header_protect_keys_def aes_NewCipher_def)
qed

theorem session_delivers_witness:
  "\<exists>s r pkt s' p r'. sampleEnd [1] [2] = Inr s \<and> sampleEnd [2] [1] = Inr r \<and>
    sealApplicationFrame sampleCrypto 9 6 [10, 20] None False s = (Inr (pkt, 1), s') \<and> Packet_DecodeExact pkt = Inr p \<and>
    openApplication sampleCrypto 7 sampleCid (pk_Data p) (pk_Header p) r = (Inr (), r') \<and> seen (recvTracker r') = {1} \<and>
    msgs r' = snd (mc_SendMessage \<lparr>om_From = sampleCid, om_PacketNumber = 1, om_Data = [10, 20]\<rparr> (NewMessageChannel messageChannelDepth))"
proof -
  obtain s r where e: "sampleEnd [1] [2] = Inr s" "sampleEnd [2] [1] = Inr r" using sampleEnd_ok by metis
  note f = sampleEnds[OF e]
  have n: "1 = fst (take_number None s)" by (simp add: take_number_def ac_ConsumePacketNumber_def f(7))
  have "in_reach 7 n' 0 1 r" if "n' \<in> {0, Suc 0}" for n' using that f(8) by (auto simp: in_reach_def)
  then show ?thesis
    using session_delivers[OF sampleCrypto_laws f(1-4) _ n _ f(5), of "[10, 20]" 9 6 False 7 sampleCid] e f(6,9) by fastforce
qed

text \<open>
  C10: a refused datagram changes nothing. When a connection with keys in place reports an error for a
  datagram, its state, with the keys, the phase and the replay window, is the one before; only an
  authentic control frame with nothing in it is reported after it has been entered.
\<close>

theorem refused_changes_nothing:
  assumes "crypto_laws C" and "receives_at C sec m r" and "openApplication C now cid data hdr r = (Inl e, r')"
  shows "r' = r \<or> e = EmptyControl"
proof -
  have "r' = r \<or> (\<exists>prot pb ct. acceptApplication C now cid prot pb ct hdr r = (Inl e, r'))"
    using assms(3) by (auto simp: openApplication_def Let_def split: if_splits sum.splits prod.splits)
  moreover have "r' = r \<or> e = EmptyControl" if a: "acceptApplication C now cid prot pb ct hdr r = (Inl e, r')" for prot pb ct
    using a commitRecvPhaseLocked_ok[OF assms(1,2), of now "NonceCounter prot"]
    by (auto simp: acceptApplication_def Let_def handleControl_def split: if_splits sum.splits)
  ultimately show ?thesis by blast
qed

theorem refused_changes_nothing_witness:
  "\<exists>r. sampleEnd [2] [1] = Inr r \<and>
    openApplication sampleCrypto 7 sampleCid (replicate 30 0) ObjHeader_zero r = (Inl ReplayDetected, r)"
proof -
  obtain s r where e: "sampleEnd [1] [2] = Inr s" "sampleEnd [2] [1] = Inr r" using sampleEnd_ok by metis
  note f = sampleEnds[OF e]
  have z: "XORBytes (replicate 8 0) (replicate 16 0) (replicate 8 0) = PutUint64 0"
    by (simp add: XORBytes_def PutUint64_def numeral_eq_Suc)
  have "openApplication sampleCrypto 7 sampleCid (replicate 30 0) ObjHeader_zero r =
      acceptApplication sampleCrypto 7 sampleCid \<lparr>tmp72 = 0\<rparr> (PutUint64 0) (replicate 22 0) ObjHeader_zero r"
    using z protected_read[of 0 "PutUint64 0" 0 "[]" "\<lparr>tmp72 = 0\<rparr>"]
    by (simp add: openApplication_def headerProtectionMask_def sampleCrypto_def min_def)
  moreover have "\<not> fst (InsertNonce 0 7 True (recvTracker r))" using InsertNonce_spec(1)[OF f(5)] by simp
  ultimately have "openApplication sampleCrypto 7 sampleCid (replicate 30 0) ObjHeader_zero r = (Inl ReplayDetected, r)"
    by (simp add: acceptApplication_def NonceCounter_def)
  then show ?thesis using refused_changes_nothing[OF sampleCrypto_laws f(2)] e(2) by blast
qed

text \<open>
  C9: no packet is handed on twice. Whatever datagrams arrive at a new connection, in whatever order, at
  whatever times and however often, and whatever the primitives make of them, the messages waiting in
  its channel have different packet numbers.
\<close>

theorem handed_on_once:
  assumes "newActiveConnection C now cid self peer kind selfHP peerHP tr None = Inr a"
  shows "distinct (handed_on (receive_all C from ds a))"
proof -
  have "recvTracker a = zeroTracker" "msgs a = NewMessageChannel messageChannelDepth"
    using assms by (auto simp: newActiveConnection_def rbind_Inr_iff split: prod.splits)
  then have "once_ok a"
    by (simp add: once_ok_def handed_on_def NewMessageChannel_def ntracker_ok_def nranges_ok_def zeroTracker_def)
  then show ?thesis using once_ok_receive_all by (simp add: once_ok_def)
qed

theorem handed_on_once_witness:
  "\<exists>a. sampleEnd [2] [1] = Inr a \<and>
    distinct (handed_on (receive_all sampleCrypto sampleCid (replicate 3 (7, replicate 30 1, ObjHeader_zero)) a))"
proof -
  obtain a where a: "sampleEnd [2] [1] = Inr a" using sampleEnd_ok by metis
  show ?thesis using handed_on_once[OF a[unfolded sampleEnd_def]] a by blast
qed

text \<open>
  C8: no nonce is used twice with a key. From a new connection on, in every sequence of
  \<open>ConsumePacketNumber\<close>, \<open>SendMessage\<close>, \<open>SendMessageWithPacketNumber\<close> (each taken number used once),
  control frames, key updates and failures of these, no two sealings have the key, the IV and the nonce
  in common, as long as fewer than \<open>2 ^ 63\<close> packet numbers are taken.
\<close>

theorem no_nonce_twice:
  assumes "crypto_laws C" and "newActiveConnection C now cid self peer kind selfHP peerHP tr p = Inr a0"
    and "seal_reach C a0 a out log"
  shows "distinct log"
proof -
  have "sends_at C self 0 a0" "sentCounter a0 = 0" using newActiveConnection_ok[OF assms(2,1)] by simp_all
  then show ?thesis using log_ok_distinct seal_reach_ok[OF assms(3,1)] by blast
qed

theorem no_nonce_twice_witness:
  "\<exists>a0 a1 a2. sampleEnd [1] [2] = Inr a0 \<and>
    seal_reach sampleCrypto a0 a2 [] [sealing_of False 2 a2, sealing_of False 1 a1] \<and>
    sealing_of False 2 a2 \<noteq> sealing_of False 1 a1"
proof -
  obtain s r where e: "sampleEnd [1] [2] = Inr s" "sampleEnd [2] [1] = Inr r" using sampleEnd_ok by metis
  note f = sampleEnds[OF e] and laws = sampleCrypto_laws
  obtain p1 a1 where 1: "sealApplicationFrame sampleCrypto 9 6 [10] None False s = (Inr (p1, 1), a1)"
    using sealApplicationFrame_succeeds[OF laws f(1), of "[10]" 9 6 None False]
    by (auto simp: take_number_def ac_ConsumePacketNumber_def f(7))
  have c1: "sentCounter a1 = 1"
    using sealApplicationFrame_counter[OF 1] by (simp add: take_number_def ac_ConsumePacketNumber_def f(7))
  obtain n1 where "sends_at sampleCrypto [1] n1 a1" using sends_at_seal[OF laws f(1) 1] by blast
  then obtain p2 a2 where 2: "sealApplicationFrame sampleCrypto 9 6 [10] None False a1 = (Inr (p2, 2), a2)"
    using sealApplicationFrame_succeeds[OF laws, of "[1]" n1 a1 "[10]" 9 6 None False]
    by (auto simp: take_number_def ac_ConsumePacketNumber_def c1)
  have "seal_reach sampleCrypto s a2 [] [sealing_of False 2 a2, sealing_of False 1 a1]"
    using seal_reach.send[OF seal_reach.send[OF seal_reach.init _ 1] _ 2] by (simp add: f(7) c1)
  then show ?thesis using no_nonce_twice[OF laws e(1)[unfolded sampleEnd_def]] e(1) by fastforce
qed

end
