(* ===== verification/Obj_Endpoint.thy ===== *)
theory Obj_Endpoint
  imports Obj_Session_Props
begin

text \<open>
  The endpoint of the session layer (\<open>endpoint\<close> of \<open>src/objproto/objproto.go\<close>, with the key exchange of
  \<open>src/objproto/crypto.go\<close> and the collectors of \<open>src/objproto/session.go\<close>): the tables of connections,
  pending handshakes and proxies, the handshake, the dispatch of datagrams.

  Connections and proxy settings are shared by reference, so they live in stores; the tables hold
  addresses. A channel is the list of what was sent on it: the packet queue, the accepted connections,
  the probes, and for every handshake the answers on its \<open>hsDone\<close> and whether that was closed. The order
  in which Go ranges over a table, random bytes, the clock and elliptic curves are arguments.
\<close>

section \<open>Key exchange (crypto.go)\<close>

datatype curve = X25519 | P256 | P384 | P521

record ecdh =
  GenerateKey :: "curve \<Rightarrow> bytes \<Rightarrow> bytes option"
  PublicKey :: "curve \<Rightarrow> bytes \<Rightarrow> bytes"
  NewPublicKey :: "curve \<Rightarrow> bytes \<Rightarrow> bool"
  NewPrivateKey :: "curve \<Rightarrow> bytes \<Rightarrow> bool"
  ECDH :: "curve \<Rightarrow> bytes \<Rightarrow> bytes \<Rightarrow> bytes option"

datatype endpoint_error =
    NoConnection | ConnectionMismatch | AlreadyExists | ServerCannotDial | AllocateExists | ProxyNotFound
  | NoProxyPeer | NoSentHandshake | UnsupportedCurve | UnsupportedAead | KeyGenFailed | InvalidShare | EcdhFailed
  | DictionaryTooLarge | UnknownKind | InvalidAddress | Session session_error | Wire wire_error

definition CurveFromKeyKind :: "KeyKind \<Rightarrow> (endpoint_error, curve) result" where
  "CurveFromKeyKind kind =
     (if kind = KeyKind_X25519 then Inr X25519 else if kind = KeyKind_P256 then Inr P256
      else if kind = KeyKind_P384 then Inr P384 else if kind = KeyKind_P521 then Inr P521
      else Inl UnsupportedCurve)"

fun curve_kind :: "curve \<Rightarrow> KeyKind" where
  "curve_kind X25519 = KeyKind_X25519"
| "curve_kind P256 = KeyKind_P256"
| "curve_kind P384 = KeyKind_P384"
| "curve_kind P521 = KeyKind_P521"

definition CommonKeyKindSupported :: "CommonKeyKind \<Rightarrow> (endpoint_error, unit) result" where
  "CommonKeyKindSupported kind = (if IsCommonKeyKindDefined kind then Inr () else Inl UnsupportedAead)"

definition NewHandshake :: "bytes \<Rightarrow> KeyKind \<Rightarrow> CommonKeyKind \<Rightarrow> u16 \<Rightarrow> Handshake" where
  "NewHandshake key kind ckind offset =
     (let probe = \<lparr>hs_KeyKind = kind, hs_CommonKeyKind = ckind, tmp236 = None, hs_Len = of_nat (length key), KeyShare = key\<rparr> in
      if kind = KeyKind_Offset then fst (Handshake_SetOffset probe offset) else probe)"

definition NewECDHHandshake :: "ecdh \<Rightarrow> bytes \<Rightarrow> curve \<Rightarrow> CommonKeyKind \<Rightarrow> (endpoint_error, bytes \<times> Handshake) result" where
  "NewECDHHandshake E rnd curve ckind =
     (case GenerateKey E curve rnd of
        None \<Rightarrow> Inl KeyGenFailed
      | Some priv \<Rightarrow> Inr (priv, NewHandshake (PublicKey E curve priv) (curve_kind curve) ckind 0))"

definition ecdhShared :: "ecdh \<Rightarrow> curve \<Rightarrow> bytes \<Rightarrow> bytes \<Rightarrow> (endpoint_error, bytes) result" where
  "ecdhShared E curve selfPrivate peerPub =
     (if \<not> NewPrivateKey E curve selfPrivate then Inl EcdhFailed
      else case ECDH E curve selfPrivate peerPub of None \<Rightarrow> Inl EcdhFailed | Some secret \<Rightarrow> Inr secret)"

definition ECDHFromHandshake :: "ecdh \<Rightarrow> bytes \<Rightarrow> Handshake \<Rightarrow> (endpoint_error, bytes \<times> CommonKeyKind) result" where
  "ECDHFromHandshake E selfPrivate probe =
     rbind (CurveFromKeyKind (hs_KeyKind probe)) (\<lambda>curve.
       if \<not> NewPublicKey E curve (KeyShare probe) then Inl InvalidShare
       else rbind (ecdhShared E curve selfPrivate (KeyShare probe)) (\<lambda>secret. Inr (secret, hs_CommonKeyKind probe)))"

definition integrityInfo :: "ConnectionID \<Rightarrow> Handshake \<Rightarrow> bytes" where
  "integrityInfo cid hs =
     [ucast (drop_bit 8 (ID cid)), ucast (ID cid)] @ [ucast (drop_bit 8 (hs_KeyKind hs)), ucast (hs_KeyKind hs)] @
     [ucast (drop_bit 8 (hs_CommonKeyKind hs)), ucast (hs_CommonKeyKind hs)]"

section \<open>The endpoint\<close>

datatype EndpointMode = EndpointModeMutual | EndpointModeServer | EndpointModeClient

record PacketData =
  pd_To :: ConnectionID
  pd_Kind :: PacketKind
  pd_Data :: bytes

record ProbeInfo =
  pi_Sender :: ConnectionID
  pi_MacAddress :: bytes
  pi_IpAddress :: AddrPort

record handshakeInfo =
  hi_ConnectionID :: ConnectionID
  hi_KeyKind :: KeyKind
  PrivateKey :: bytes
  hi_LastTime :: time
  Transcript :: bytes
  hsDone :: nat
  proxyConnection :: "nat option"

record proxySetting =
  peer1 :: ConnectionID
  peer2 :: ConnectionID
  lastUsed :: time

record endpoint =
  sentHandshake :: "ConnectionID \<rightharpoonup> handshakeInfo"
  activeConnections :: "ConnectionID \<rightharpoonup> nat"
  conns :: "nat \<Rightarrow> activeConnection option"
  nextConn :: nat
  probeInfo :: "ProbeInfo list"
  pktQueue :: "PacketData list"
  newActiveSess :: "nat list"
  ep_mode :: EndpointMode
  proxySettings :: "ConnectionID \<rightharpoonup> nat"
  proxies :: "nat \<Rightarrow> proxySetting option"
  nextProxy :: nat
  hsAnswers :: "(nat \<times> nat) list"
  hsClosed :: "nat list"
  nextChan :: nat

definition NewEndpoint :: "EndpointMode \<Rightarrow> endpoint" where
  "NewEndpoint mode =
     \<lparr>sentHandshake = Map.empty, activeConnections = Map.empty, conns = Map.empty, nextConn = 0, probeInfo = [],
      pktQueue = [], newActiveSess = [], ep_mode = mode, proxySettings = Map.empty, proxies = Map.empty, nextProxy = 0,
      hsAnswers = [], hsClosed = [], nextChan = 0\<rparr>"

definition sendPacket :: "ConnectionID \<Rightarrow> PacketKind \<Rightarrow> bytes \<Rightarrow> endpoint \<Rightarrow> endpoint" where
  "sendPacket cid kind data s = s\<lparr>pktQueue := pktQueue s @ [\<lparr>pd_To = cid, pd_Kind = kind, pd_Data = data\<rparr>]\<rparr>"

definition upd_conn :: "nat \<Rightarrow> (activeConnection \<Rightarrow> activeConnection) \<Rightarrow> endpoint \<Rightarrow> endpoint" where
  "upd_conn c f s = s\<lparr>conns := (conns s)(c := map_option f (conns s c))\<rparr>"

definition GetConnection :: "ConnectionID \<Rightarrow> endpoint \<Rightarrow> nat option" where
  "GetConnection cid s = activeConnections s cid"

section \<open>Closing\<close>

definition ac_closeUnlocked :: "activeConnection \<Rightarrow> activeConnection" where
  "ac_closeUnlocked a = a\<lparr>ac_closed := True, msgs := CloseChannel (msgs a)\<rparr>"

definition deleteActiveConnection :: "ConnectionID \<Rightarrow> endpoint \<Rightarrow> endpoint" where
  "deleteActiveConnection cid s = s\<lparr>activeConnections := (activeConnections s)(cid := None)\<rparr>"

definition deleteHandshake :: "ConnectionID \<Rightarrow> endpoint \<Rightarrow> endpoint" where
  "deleteHandshake cid s = s\<lparr>sentHandshake := (sentHandshake s)(cid := None)\<rparr>"

definition closeConnection :: "nat \<Rightarrow> endpoint \<Rightarrow> endpoint" where
  "closeConnection c s =
     (case conns s c of
        None \<Rightarrow> s
      | Some a \<Rightarrow>
          if activeConnections s (ac_cid a) = Some c
          then upd_conn c ac_closeUnlocked (deleteActiveConnection (ac_cid a) s) else s)"

definition ac_Close :: "nat \<Rightarrow> endpoint \<Rightarrow> endpoint" where
  "ac_Close c s =
     (case conns s c of
        None \<Rightarrow> s
      | Some a \<Rightarrow> if ac_closed a then s else closeConnection c s)"

definition close_proxy_conn :: "nat option \<Rightarrow> endpoint \<Rightarrow> endpoint" where
  "close_proxy_conn p s = (case p of None \<Rightarrow> s | Some c \<Rightarrow> upd_conn c ac_closeUnlocked s)"

definition hi_closeUnlocked :: "handshakeInfo \<Rightarrow> endpoint \<Rightarrow> endpoint" where
  "hi_closeUnlocked h s = close_proxy_conn (proxyConnection h) (s\<lparr>hsClosed := hsClosed s @ [hsDone h]\<rparr>)"

section \<open>Proxies\<close>

definition getPeer :: "(ConnectionID \<Rightarrow> string) \<Rightarrow> proxySetting \<Rightarrow> ConnectionID \<Rightarrow> ConnectionID option" where
  "getPeer str p cid =
     (if str (peer1 p) = str cid then Some (peer2 p)
      else if str (peer2 p) = str cid then Some (peer1 p) else None)"

definition SetProxy :: "time \<Rightarrow> ConnectionID \<Rightarrow> ConnectionID \<Rightarrow> endpoint \<Rightarrow> (endpoint_error, unit) result \<times> endpoint" where
  "SetProxy now owned allocate s =
     (if activeConnections s allocate \<noteq> None then (Inl AllocateExists, s)
      else
        let p = nextProxy s in
        (Inr (), s\<lparr>proxies := (proxies s)(p \<mapsto> \<lparr>peer1 = owned, peer2 = allocate, lastUsed = now\<rparr>), nextProxy := p + 1,
                   proxySettings := (proxySettings s)(owned \<mapsto> p, allocate \<mapsto> p)\<rparr>))"

definition drop_proxy :: "proxySetting \<Rightarrow> endpoint \<Rightarrow> endpoint" where
  "drop_proxy p s = s\<lparr>proxySettings := (proxySettings s)(peer1 p := None, peer2 p := None)\<rparr>"

definition proxy_at :: "endpoint \<Rightarrow> ConnectionID \<Rightarrow> proxySetting option" where
  "proxy_at s cid = Option.bind (proxySettings s cid) (proxies s)"

definition DeleteProxy :: "ConnectionID \<Rightarrow> endpoint \<Rightarrow> (endpoint_error, unit) result \<times> endpoint" where
  "DeleteProxy peer s =
     (case proxy_at s peer of Some p \<Rightarrow> (Inr (), drop_proxy p s) | None \<Rightarrow> (Inl ProxyNotFound, s))"

definition mayCloseProxy :: "PacketData \<Rightarrow> endpoint \<Rightarrow> bool \<times> endpoint" where
  "mayCloseProxy pkt s = (case proxy_at s (pd_To pkt) of Some p \<Rightarrow> (True, drop_proxy p s) | None \<Rightarrow> (False, s))"

definition closeCannotSend :: "PacketData \<Rightarrow> endpoint \<Rightarrow> endpoint" where
  "closeCannotSend pkt s =
     (let (closed, s) = mayCloseProxy pkt s in
      if closed then s
      else if pd_Kind pkt = PacketKind_Handshake then
        (case sentHandshake s (pd_To pkt) of
           Some sent \<Rightarrow> deleteHandshake (pd_To pkt) (hi_closeUnlocked sent s)
         | None \<Rightarrow> s)
      else if pd_Kind pkt = PacketKind_HandshakeAck \<or> pd_Kind pkt = PacketKind_Application then
        (case activeConnections s (pd_To pkt) of
           Some c \<Rightarrow> upd_conn c ac_closeUnlocked (deleteActiveConnection (pd_To pkt) s)
         | None \<Rightarrow> s)
      else s)"

section \<open>The collectors\<close>

text \<open>The first argument is the order in which the keys of the table are visited.\<close>

fun delete_inactive :: "ConnectionID list \<Rightarrow> time \<Rightarrow> endpoint \<Rightarrow> nat list \<times> endpoint" where
  "delete_inactive [] limit s = ([], s)"
| "delete_inactive (cid # cids) limit s =
     (case activeConnections s cid of
        None \<Rightarrow> delete_inactive cids limit s
      | Some c \<Rightarrow>
          (case conns s c of
             None \<Rightarrow> delete_inactive cids limit s
           | Some a \<Rightarrow>
               if Before (lastTime a) limit
               then let (d, s) = delete_inactive cids limit (upd_conn c ac_closeUnlocked (deleteActiveConnection cid s)) in (c # d, s)
               else delete_inactive cids limit s))"

definition DeleteInactiveConnectionsBefore :: "ConnectionID list \<Rightarrow> time \<Rightarrow> endpoint \<Rightarrow> nat list \<times> endpoint" where
  "DeleteInactiveConnectionsBefore order limit s = delete_inactive order limit s"

fun delete_handshakes :: "ConnectionID list \<Rightarrow> time \<Rightarrow> endpoint \<Rightarrow> (ConnectionID \<times> time) list \<times> endpoint" where
  "delete_handshakes [] limit s = ([], s)"
| "delete_handshakes (cid # cids) limit s =
     (case sentHandshake s cid of
        None \<Rightarrow> delete_handshakes cids limit s
      | Some h \<Rightarrow>
          if Before (hi_LastTime h) limit
          then let (d, s) = delete_handshakes cids limit (deleteHandshake cid (hi_closeUnlocked h s)) in ((cid, hi_LastTime h) # d, s)
          else delete_handshakes cids limit s)"

definition DeleteHandshakeBefore :: "ConnectionID list \<Rightarrow> time \<Rightarrow> endpoint \<Rightarrow> (ConnectionID \<times> time) list \<times> endpoint" where
  "DeleteHandshakeBefore order limit s = delete_handshakes order limit s"

record ProxyInfo =
  px_Peer1 :: ConnectionID
  px_Peer2 :: ConnectionID
  px_LastTime :: time

definition proxy_info :: "proxySetting \<Rightarrow> ProxyInfo" where
  "proxy_info p = \<lparr>px_Peer1 = peer1 p, px_Peer2 = peer2 p, px_LastTime = lastUsed p\<rparr>"

text \<open>A key that an earlier round has deleted is not visited any more.\<close>

fun delete_proxies ::
  "(ConnectionID \<Rightarrow> string) \<Rightarrow> ConnectionID list \<Rightarrow> time \<Rightarrow> string list \<Rightarrow> endpoint \<Rightarrow> ProxyInfo list \<times> endpoint" where
  "delete_proxies str [] limit marked s = ([], s)"
| "delete_proxies str (cid # cids) limit marked s =
     (case proxy_at s cid of
        None \<Rightarrow> delete_proxies str cids limit marked s
      | Some p \<Rightarrow>
          if Before (lastUsed p) limit then
            let (d1, marked) = (if str (peer1 p) \<in> set marked then ([], marked) else ([proxy_info p], str (peer1 p) # marked));
                (d2, marked) = (if str (peer2 p) \<in> set marked then ([], marked) else ([proxy_info p], str (peer2 p) # marked));
                (d, s) = delete_proxies str cids limit marked (drop_proxy p s) in
            (d1 @ d2 @ d, s)
          else delete_proxies str cids limit marked s)"

definition DeleteProxyBefore ::
  "(ConnectionID \<Rightarrow> string) \<Rightarrow> ConnectionID list \<Rightarrow> time \<Rightarrow> endpoint \<Rightarrow> ProxyInfo list \<times> endpoint" where
  "DeleteProxyBefore str order limit s = delete_proxies str order limit [] s"

text \<open>One tick of \<open>AutoGarbageCollect\<close>; the orders are those of the three tables.\<close>

definition garbage_collect ::
  "(ConnectionID \<Rightarrow> string) \<Rightarrow> ConnectionID list \<Rightarrow> ConnectionID list \<Rightarrow> ConnectionID list \<Rightarrow> time \<Rightarrow>
     duration \<Rightarrow> duration \<Rightarrow> duration \<Rightarrow> endpoint \<Rightarrow> endpoint" where
  "garbage_collect str oh oc opx now ht ct pt s =
     (let s = snd (DeleteHandshakeBefore oh (Add now (- ht)) s);
          s = snd (DeleteInactiveConnectionsBefore oc (Add now (- ct)) s) in
      snd (DeleteProxyBefore str opx (Add now (- pt)) s))"

section \<open>The handshake\<close>

abbreviation (input) handshakeReackWindow :: duration where "handshakeReackWindow \<equiv> 10 * Second"

text \<open>\<open>netip.Addr.Unmap\<close>: an IPv4 address written as an IPv6 one becomes IPv4.\<close>

definition Unmap :: "bytes \<Rightarrow> bytes" where
  "Unmap a = (if length a = 16 \<and> take 12 a = replicate 10 0 @ [255, 255] then drop 12 a else a)"

definition unmapAddrPort :: "AddrPort \<Rightarrow> AddrPort" where
  "unmapAddrPort addr = (Unmap (fst addr), snd addr)"

definition wire_err :: "(wire_error, 'a) result \<Rightarrow> (endpoint_error, 'a) result" where
  "wire_err r = (case r of Inl e \<Rightarrow> Inl (Wire e) | Inr x \<Rightarrow> Inr x)"

definition sess_err :: "(session_error, 'a) result \<Rightarrow> (endpoint_error, 'a) result" where
  "sess_err r = (case r of Inl e \<Rightarrow> Inl (Session e) | Inr x \<Rightarrow> Inr x)"

text \<open>The datagram of a handshake: \<open>SetData\<close> also sets the length in the header.\<close>

definition hello_packet :: "u8 \<Rightarrow> u16 \<Rightarrow> Handshake \<Rightarrow> (endpoint_error, bytes) result" where
  "hello_packet rnd cid hs =
     rbind (wire_err (Handshake_Append hs [])) (\<lambda>data.
       let hdr = buildHeader rnd PacketKind_Handshake cid (of_nat (length data)) 0;
           (pkt, fits) = SetData \<lparr>pk_Header = hdr, pk_Data = []\<rparr> data in
       if \<not> fits then Inl DictionaryTooLarge else wire_err (Packet_Append pkt []))"

text \<open>The result of \<open>sendHandshake\<close> is the \<open>hsDone\<close> channel the caller waits on.\<close>

definition sendHandshake ::
  "u8 \<Rightarrow> time \<Rightarrow> ConnectionID \<Rightarrow> bytes \<Rightarrow> Handshake \<Rightarrow> nat option \<Rightarrow> endpoint \<Rightarrow> (endpoint_error, nat) result \<times> endpoint" where
  "sendHandshake rnd now cid priv hs conn s =
     (case hello_packet rnd (ID cid) hs of
        Inl e \<Rightarrow> (Inl e, s)
      | Inr p \<Rightarrow>
          let ch = nextChan s; s = s\<lparr>nextChan := ch + 1\<rparr>;
              s = (case sentHandshake s cid of
                     None \<Rightarrow>
                       s\<lparr>sentHandshake := (sentHandshake s)(cid \<mapsto>
                           \<lparr>hi_ConnectionID = cid, hi_KeyKind = hs_KeyKind hs, PrivateKey = priv, hi_LastTime = now,
                            Transcript = p, hsDone = ch, proxyConnection = conn\<rparr>)\<rparr>
                   | Some sent \<Rightarrow>
                       let s = hi_closeUnlocked sent s in
                       s\<lparr>sentHandshake := (sentHandshake s)(cid \<mapsto>
                           sent\<lparr>hi_KeyKind := hs_KeyKind hs, PrivateKey := priv, hi_LastTime := now,
                                Transcript := p, hsDone := ch, proxyConnection := conn\<rparr>)\<rparr>) in
          (Inr ch, sendPacket cid PacketKind_Handshake p s))"

definition sendRehandshakeForProxy ::
  "u8 \<Rightarrow> time \<Rightarrow> nat \<Rightarrow> bytes \<Rightarrow> Handshake \<Rightarrow> endpoint \<Rightarrow> (endpoint_error, nat) result \<times> endpoint" where
  "sendRehandshakeForProxy rnd now c priv hs s =
     (case conns s c of
        None \<Rightarrow> (Inl NoConnection, s)
      | Some a \<Rightarrow>
          if activeConnections s (ac_cid a) \<noteq> Some c then (Inl NoConnection, s)
          else sendHandshake rnd now (ac_cid a) priv hs (Some c) (deleteActiveConnection (ac_cid a) s))"

definition SendHandshake ::
  "u8 \<Rightarrow> time \<Rightarrow> ConnectionID \<Rightarrow> bytes \<Rightarrow> Handshake \<Rightarrow> endpoint \<Rightarrow> (endpoint_error, nat) result \<times> endpoint" where
  "SendHandshake rnd now cid priv hs s =
     (if ep_mode s = EndpointModeServer then (Inl ServerCannotDial, s)
      else
        let cid = cid\<lparr>cid_Addr := unmapAddrPort (cid_Addr cid)\<rparr> in
        if activeConnections s cid \<noteq> None then (Inl AlreadyExists, s)
        else sendHandshake rnd now cid priv hs None s)"

definition retransmitHandshake :: "ConnectionID \<Rightarrow> endpoint \<Rightarrow> endpoint" where
  "retransmitHandshake cid s =
     (case sentHandshake s cid of None \<Rightarrow> s | Some sent \<Rightarrow> sendPacket cid PacketKind_Handshake (Transcript sent) s)"

text \<open>\<open>storedAckFor\<close>: \<open>None\<close> for no connection, else the ack to replay, if there is one.\<close>

definition storedAckFor :: "time \<Rightarrow> ConnectionID \<Rightarrow> bytes \<Rightarrow> endpoint \<Rightarrow> bytes option option" where
  "storedAckFor now cid hello s =
     (case Option.bind (activeConnections s cid) (conns s) of
        None \<Rightarrow> None
      | Some a \<Rightarrow>
          if Sub now (connTime a) > handshakeReackWindow then Some None
          else if length (transcript a) \<le> length hello \<or> take (length hello) (transcript a) \<noteq> hello then Some None
          else Some (Some (drop (length hello) (transcript a))))"

text \<open>
  \<open>addActiveConnection\<close>: the connection enters the store (or is updated there, for a proxy) and the
  table; it is announced on the channel of the handshake or as a new session.
\<close>

definition addActiveConnection ::
  "crypto \<Rightarrow> time \<Rightarrow> ConnectionID \<Rightarrow> bytes \<Rightarrow> bytes \<Rightarrow> CommonKeyKind \<Rightarrow> bytes \<Rightarrow> bytes \<Rightarrow> bytes \<Rightarrow> nat option \<Rightarrow>
     nat option \<Rightarrow> endpoint \<Rightarrow> (endpoint_error, unit) result \<times> endpoint" where
  "addActiveConnection C now cid self peer kind selfHP peerHP tr done proxyConn s =
     (case newActiveConnection C now cid self peer kind selfHP peerHP tr (Option.bind proxyConn (conns s)) of
        Inl e \<Rightarrow> (Inl (Session e), s)
      | Inr active \<Rightarrow>
          let (c, s) = (case proxyConn of
                          Some c \<Rightarrow> (c, s)
                        | None \<Rightarrow> (nextConn s, s\<lparr>nextConn := nextConn s + 1\<rparr>));
              s = s\<lparr>conns := (conns s)(c \<mapsto> active), activeConnections := (activeConnections s)(cid \<mapsto> c)\<rparr> in
          (Inr (), case done of
                     Some ch \<Rightarrow> s\<lparr>hsAnswers := hsAnswers s @ [(ch, c)]\<rparr>
                   | None \<Rightarrow> s\<lparr>newActiveSess := newActiveSess s @ [c]\<rparr>))"

text \<open>
  \<open>receiveHandshake\<close> in two parts, as the locks divide it: the cheap refusals and the key exchange, then,
  under the write lock, the second look at the table and the insertion.
\<close>

definition exchange_keys ::
  "ecdh \<Rightarrow> crypto \<Rightarrow> bytes \<Rightarrow> ConnectionID \<Rightarrow> Handshake \<Rightarrow> (endpoint_error, Handshake \<times> KeyInfo) result" where
  "exchange_keys E C rnd cid hs =
     rbind (CurveFromKeyKind (hs_KeyKind hs)) (\<lambda>curve.
       if \<not> NewPublicKey E curve (KeyShare hs) then Inl InvalidShare
       else
         rbind (NewECDHHandshake E rnd curve (hs_CommonKeyKind hs)) (\<lambda>(priv, response).
         rbind (ecdhShared E curve priv (KeyShare hs)) (\<lambda>sharedSecret.
         rbind (sess_err (keySchedule C sharedSecret (integrityInfo cid hs))) (\<lambda>keys. Inr (response, keys)))))"

definition ack_packet :: "u8 \<Rightarrow> u16 \<Rightarrow> Handshake \<Rightarrow> (endpoint_error, bytes) result" where
  "ack_packet rnd cid response =
     rbind (wire_err (Handshake_Append response [])) (\<lambda>data.
       wire_err (Packet_Append
         \<lparr>pk_Header = buildHeader rnd PacketKind_HandshakeAck cid (of_nat (length data)) 0, pk_Data = data\<rparr> []))"

definition finishHandshake ::
  "crypto \<Rightarrow> u8 \<Rightarrow> time \<Rightarrow> ConnectionID \<Rightarrow> Handshake \<Rightarrow> bytes \<Rightarrow> Handshake \<Rightarrow> KeyInfo \<Rightarrow> endpoint \<Rightarrow>
     (endpoint_error, unit) result \<times> endpoint" where
  "finishHandshake C rnd now cid hs originalPacket response keys s =
     (if activeConnections s cid \<noteq> None then (Inl AlreadyExists, s)
      else case ack_packet rnd (ID cid) response of
        Inl e \<Rightarrow> (Inl e, s)
      | Inr ackData \<Rightarrow>
          (case addActiveConnection C now cid (AckSecret keys) (HSSecret keys) (hs_CommonKeyKind hs)
                  (AckHeaderProtect keys) (HsHeaderProtect keys) (originalPacket @ ackData) None None s of
             (Inl e, s) \<Rightarrow> (Inl e, s)
           | (Inr _, s) \<Rightarrow> (Inr (), sendPacket cid PacketKind_HandshakeAck ackData s)))"

definition receiveHandshake ::
  "ecdh \<Rightarrow> crypto \<Rightarrow> bytes \<Rightarrow> u8 \<Rightarrow> time \<Rightarrow> ConnectionID \<Rightarrow> Handshake \<Rightarrow> bytes \<Rightarrow> endpoint \<Rightarrow>
     (endpoint_error, unit) result \<times> endpoint" where
  "receiveHandshake E C rndKey rnd now cid hs originalPacket s =
     (case CurveFromKeyKind (hs_KeyKind hs) of
        Inl e \<Rightarrow> (Inl e, s)
      | Inr _ \<Rightarrow>
          (case CommonKeyKindSupported (hs_CommonKeyKind hs) of
             Inl e \<Rightarrow> (Inl e, s)
           | Inr _ \<Rightarrow>
               (case storedAckFor now cid originalPacket s of
                  Some None \<Rightarrow> (Inl AlreadyExists, s)
                | Some (Some ack) \<Rightarrow> (Inr (), sendPacket cid PacketKind_HandshakeAck ack s)
                | None \<Rightarrow>
                    (case exchange_keys E C rndKey cid hs of
                       Inl e \<Rightarrow> (Inl e, s)
                     | Inr (response, keys) \<Rightarrow> finishHandshake C rnd now cid hs originalPacket response keys s))))"

definition receiveHandshakeAck ::
  "ecdh \<Rightarrow> crypto \<Rightarrow> time \<Rightarrow> ConnectionID \<Rightarrow> Handshake \<Rightarrow> bytes \<Rightarrow> endpoint \<Rightarrow>
     (endpoint_error, unit) result \<times> endpoint" where
  "receiveHandshakeAck E C now cid hs originalData s =
     (case sentHandshake s cid of
        None \<Rightarrow> (Inl NoSentHandshake, s)
      | Some sent \<Rightarrow>
          (case rbind (CommonKeyKindSupported (hs_CommonKeyKind hs)) (\<lambda>_.
                rbind (ECDHFromHandshake E (PrivateKey sent) hs) (\<lambda>(sharedSecret, kind).
                rbind (sess_err (keySchedule C sharedSecret (integrityInfo cid hs))) (\<lambda>keys. Inr (keys, kind)))) of
             Inl e \<Rightarrow> (Inl e, s)
           | Inr (keys, kind) \<Rightarrow>
               addActiveConnection C now cid (HSSecret keys) (AckSecret keys) kind (HsHeaderProtect keys)
                 (AckHeaderProtect keys) (Transcript sent @ originalData) (Some (hsDone sent)) (proxyConnection sent)
                 (deleteHandshake cid s)))"

section \<open>Application packets and dispatch\<close>

definition sendApplicationFrame ::
  "crypto \<Rightarrow> u8 \<Rightarrow> time \<Rightarrow> ConnectionID \<Rightarrow> bytes \<Rightarrow> nat \<Rightarrow> u64 option \<Rightarrow> bool \<Rightarrow> endpoint \<Rightarrow>
     (endpoint_error, nat \<times> u64) result \<times> endpoint" where
  "sendApplicationFrame C rnd now cid data c pn ctl s =
     (case activeConnections s cid of
        None \<Rightarrow> (Inl NoConnection, s)
      | Some c' \<Rightarrow>
          if c' \<noteq> c then (Inl ConnectionMismatch, s)
          else case conns s c of
            None \<Rightarrow> (Inl NoConnection, s)
          | Some a \<Rightarrow>
              (case sealApplicationFrame C rnd now data pn ctl a of
                 (Inl e, a) \<Rightarrow> (Inl (Session e), upd_conn c (\<lambda>_. a) s)
               | (Inr (pkt, n), a) \<Rightarrow>
                   (Inr (length pkt, n), sendPacket cid PacketKind_Application pkt (upd_conn c (\<lambda>_. a) s))))"

definition sendApplication ::
  "crypto \<Rightarrow> u8 \<Rightarrow> time \<Rightarrow> ConnectionID \<Rightarrow> bytes \<Rightarrow> nat \<Rightarrow> u64 option \<Rightarrow> endpoint \<Rightarrow>
     (endpoint_error, nat \<times> u64) result \<times> endpoint" where
  "sendApplication C rnd now cid data c pn s = sendApplicationFrame C rnd now cid data c pn False s"

definition sendControl ::
  "crypto \<Rightarrow> u8 \<Rightarrow> time \<Rightarrow> ConnectionID \<Rightarrow> nat \<Rightarrow> ControlKind \<Rightarrow> endpoint \<Rightarrow> (endpoint_error, unit) result \<times> endpoint" where
  "sendControl C rnd now cid c kind s =
     (case sendApplicationFrame C rnd now cid [kind] c None True s of
        (Inl e, s) \<Rightarrow> (Inl e, s) | (Inr _, s) \<Rightarrow> (Inr (), s))"

definition receiveApplication ::
  "crypto \<Rightarrow> time \<Rightarrow> ConnectionID \<Rightarrow> bytes \<Rightarrow> ObjHeader \<Rightarrow> endpoint \<Rightarrow> (endpoint_error, unit) result \<times> endpoint" where
  "receiveApplication C now cid data hdr s =
     (case activeConnections s cid of
        None \<Rightarrow> (Inl NoConnection, s)
      | Some c \<Rightarrow>
          (case conns s c of
             None \<Rightarrow> (Inl NoConnection, s)
           | Some a \<Rightarrow> (let (r, a) = openApplication C now cid data hdr a in (sess_err r, upd_conn c (\<lambda>_. a) s))))"

abbreviation (input) probeInfoCap :: nat where "probeInfoCap \<equiv> 1024"

definition receiveProbe :: "ConnectionID \<Rightarrow> bytes \<Rightarrow> endpoint \<Rightarrow> (endpoint_error, unit) result \<times> endpoint" where
  "receiveProbe cid data s =
     (case ObjProbe_DecodeExact data of
        Inl e \<Rightarrow> (Inl (Wire e), s)
      | Inr probe \<Rightarrow>
          let addr = ip_Address (pb_IpAddress probe) in
          if length addr \<notin> {4, 16} then (Inl InvalidAddress, s)
          else (Inr (), if length (probeInfo s) < probeInfoCap
                        then s\<lparr>probeInfo := probeInfo s @ [\<lparr>pi_Sender = cid, pi_MacAddress = mac_Address (pb_MacAddress probe),
                               pi_IpAddress = (addr, pb_Port probe)\<rparr>]\<rparr>
                        else s))"

definition touch_proxy :: "time \<Rightarrow> ConnectionID \<Rightarrow> endpoint \<Rightarrow> endpoint" where
  "touch_proxy now cid s =
     (case proxySettings s cid of
        None \<Rightarrow> s
      | Some p \<Rightarrow> s\<lparr>proxies := (proxies s)(p := map_option (\<lambda>q. q\<lparr>lastUsed := now\<rparr>) (proxies s p))\<rparr>)"

definition dispatch ::
  "ecdh \<Rightarrow> crypto \<Rightarrow> bytes \<Rightarrow> u8 \<Rightarrow> time \<Rightarrow> ConnectionID \<Rightarrow> PacketKind \<Rightarrow> Packet \<Rightarrow> bytes \<Rightarrow> endpoint \<Rightarrow>
     (endpoint_error, unit) result \<times> endpoint" where
  "dispatch E C rndKey rnd now cid kind pkt data s =
     (if kind = PacketKind_Handshake \<or> kind = PacketKind_HandshakeAck then
        if ep_mode s = EndpointModeClient \<and> kind = PacketKind_Handshake then (Inr (), s)
        else if ep_mode s = EndpointModeServer \<and> kind = PacketKind_HandshakeAck then (Inr (), s)
        else (case Handshake_DecodeExact (pk_Data pkt) of
                Inl e \<Rightarrow> (Inl (Wire e), s)
              | Inr hs \<Rightarrow> if kind = PacketKind_HandshakeAck then receiveHandshakeAck E C now cid hs data s
                          else receiveHandshake E C rndKey rnd now cid hs data s)
      else if kind = PacketKind_Application then receiveApplication C now cid (pk_Data pkt) (pk_Header pkt) s
      else if kind = PacketKind_Probe then receiveProbe cid (pk_Data pkt) s
      else (Inl UnknownKind, s))"

definition receive ::
  "(ConnectionID \<Rightarrow> string) \<Rightarrow> ecdh \<Rightarrow> crypto \<Rightarrow> bytes \<Rightarrow> u8 \<Rightarrow> time \<Rightarrow> string \<Rightarrow> AddrPort \<Rightarrow> bytes \<Rightarrow> endpoint \<Rightarrow>
     (endpoint_error, unit) result \<times> endpoint" where
  "receive str E C rndKey rnd now transport from data s =
     (case Packet_DecodeExact data of
        Inl e \<Rightarrow> (Inl (Wire e), s)
      | Inr pkt \<Rightarrow>
          let kind = headerKind (pk_Header pkt);
              cid = \<lparr>Transport = transport, cid_Addr = from, ID = headerConnID (pk_Header pkt)\<rparr> in
          (case proxy_at s cid of
             Some p \<Rightarrow>
               let s = touch_proxy now cid s in
               (case getPeer str p cid of
                  None \<Rightarrow> (Inl NoProxyPeer, s)
                | Some peer \<Rightarrow> (Inr (), sendPacket peer kind data s))
           | None \<Rightarrow> dispatch E C rndKey rnd now cid kind pkt data s))"

definition Receive ::
  "(ConnectionID \<Rightarrow> string) \<Rightarrow> ecdh \<Rightarrow> crypto \<Rightarrow> bytes \<Rightarrow> u8 \<Rightarrow> time \<Rightarrow> string \<Rightarrow> AddrPort \<Rightarrow> bytes \<Rightarrow> endpoint \<Rightarrow>
     (endpoint_error, unit) result \<times> endpoint" where
  "Receive str E C rndKey rnd now transport from data s =
     receive str E C rndKey rnd now transport (unmapAddrPort from) data s"

definition makeProbe :: "u8 \<Rightarrow> u16 \<Rightarrow> bytes \<Rightarrow> AddrPort \<Rightarrow> (endpoint_error, bytes) result" where
  "makeProbe rnd probeID mac addr =
     (let (ip, ok) = SetAddress \<lparr>ip_Len = 0, ip_Address = []\<rparr> (fst addr) in
      if \<not> ok then Inl InvalidAddress
      else
        rbind (wire_err (ObjProbe_Append \<lparr>pb_MacAddress = \<lparr>mac_Address = mac\<rparr>, pb_IpAddress = ip, pb_Port = snd addr\<rparr> [])) (\<lambda>data.
          wire_err (Packet_Append
            \<lparr>pk_Header = buildHeader rnd PacketKind_Probe probeID (of_nat (length data)) 0, pk_Data = data\<rparr> [])))"

definition SendProbe :: "u8 \<Rightarrow> ConnectionID \<Rightarrow> bytes \<Rightarrow> AddrPort \<Rightarrow> endpoint \<Rightarrow> (endpoint_error, unit) result \<times> endpoint" where
  "SendProbe rnd cid mac addr s =
     (case makeProbe rnd (ID cid) mac addr of
        Inl e \<Rightarrow> (Inl e, s) | Inr data \<Rightarrow> (Inr (), sendPacket cid PacketKind_Probe data s))"

end
