(* ===== verification/Obj_Endpoint_Props.thy ===== *)
theory Obj_Endpoint_Props
  imports Obj_Endpoint
begin

text \<open>
  What the endpoint promises: a handshake ends with two connections that mirror each other, a repeated
  hello is answered with the same bytes and a different one cannot take over a live connection, proxies
  forward in both directions, and no channel is closed twice.
\<close>

section \<open>The handshake\<close>

text \<open>
  What the documentation of \<open>crypto/ecdh\<close> promises for generated keys: they are valid, their public parts
  are at most 133 bytes long, and both sides compute the same secret.
\<close>

definition ecdh_laws :: "ecdh \<Rightarrow> bool" where
  "ecdh_laws E \<longleftrightarrow> (\<forall>c r p. GenerateKey E c r = Some p \<longrightarrow>
     NewPrivateKey E c p \<and> NewPublicKey E c (PublicKey E c p) \<and> length (PublicKey E c p) \<le> 133 \<and>
     (\<forall>r' p'. GenerateKey E c r' = Some p' \<longrightarrow>
        (\<exists>k. ECDH E c p (PublicKey E c p') = Some k \<and> ECDH E c p' (PublicKey E c p) = Some k)))"

lemma CurveFromKeyKind_curve [simp]: "CurveFromKeyKind (curve_kind c) = Inr c"
  by (cases c) (simp_all add: CurveFromKeyKind_def)

lemma curve_kind_not_offset: "curve_kind c \<noteq> KeyKind_Offset"
  by (cases c) simp_all

definition hello_of :: "ecdh \<Rightarrow> curve \<Rightarrow> bytes \<Rightarrow> CommonKeyKind \<Rightarrow> Handshake" where
  "hello_of E c p k = \<lparr>hs_KeyKind = curve_kind c, hs_CommonKeyKind = k, tmp236 = None,
     hs_Len = of_nat (length (PublicKey E c p)), KeyShare = PublicKey E c p\<rparr>"

lemma NewECDHHandshake_eq: "GenerateKey E c r = Some p \<Longrightarrow> NewECDHHandshake E r c k = Inr (p, hello_of E c p k)"
  using curve_kind_not_offset[of c] by (simp add: NewECDHHandshake_def NewHandshake_def Let_def hello_of_def)

lemma hello_of_ok:
  assumes "ecdh_laws E" "GenerateKey E c r = Some p"
  shows "Handshake_ok (hello_of E c p k)" "length (Handshake_wire (hello_of E c p k)) \<le> 200"
proof -
  have "length (PublicKey E c p) \<le> 133" using assms by (auto simp: ecdh_laws_def)
  then show "Handshake_ok (hello_of E c p k)" "length (Handshake_wire (hello_of E c p k)) \<le> 200"
    using curve_kind_not_offset[of c]
    by (simp_all add: Handshake_ok_def Handshake_wire_def hello_of_def unat_of_nat take_bit_nat_eq_self)
qed

text \<open>The two datagrams of a handshake, and what the other side reads from them.\<close>

definition hs_packet :: "u8 \<Rightarrow> PacketKind \<Rightarrow> u16 \<Rightarrow> Handshake \<Rightarrow> Packet" where
  "hs_packet rnd kind cid h =
     \<lparr>pk_Header = buildHeader rnd kind cid (of_nat (length (Handshake_wire h))) 0, pk_Data = Handshake_wire h\<rparr>"

lemma hs_packet_ok: "length (Handshake_wire h) \<le> 200 \<Longrightarrow> Packet_ok (hs_packet rnd kind cid h)"
  by (simp add: Packet_ok_def hs_packet_def buildHeader_def Let_def unat_of_nat take_bit_nat_eq_self)

lemma hello_packet_eq:
  assumes "Handshake_ok h" "length (Handshake_wire h) \<le> 200"
  shows "hello_packet rnd cid h = Inr (Packet_wire (hs_packet rnd PacketKind_Handshake cid h))"
proof -
  have "(buildHeader rnd PacketKind_Handshake cid l 0)\<lparr>oh_Len := l\<rparr> = buildHeader rnd PacketKind_Handshake cid l 0" for l
    by (simp add: buildHeader_def Let_def)
  then show ?thesis
    using handshake.enc_wire[OF assms(1), of "[]"] packet.enc_wire[OF hs_packet_ok[OF assms(2)], of rnd PacketKind_Handshake cid "[]"] assms(2)
    by (simp add: hello_packet_def wire_err_def SetData_def Let_def hs_packet_def)
qed

lemma ack_packet_eq:
  assumes "Handshake_ok h" "length (Handshake_wire h) \<le> 200"
  shows "ack_packet rnd cid h = Inr (Packet_wire (hs_packet rnd PacketKind_HandshakeAck cid h))"
  using handshake.enc_wire[OF assms(1), of "[]"] packet.enc_wire[OF hs_packet_ok[OF assms(2)], of rnd PacketKind_HandshakeAck cid "[]"]
  by (simp add: ack_packet_def wire_err_def hs_packet_def)

lemma hs_packet_read:
  assumes "Handshake_ok h" "length (Handshake_wire h) \<le> 200"
  shows "Packet_DecodeExact (Packet_wire (hs_packet rnd kind cid h)) = Inr (hs_packet rnd kind cid h)"
    and "headerKind (pk_Header (hs_packet rnd kind cid h)) = kind" "headerConnID (pk_Header (hs_packet rnd kind cid h)) = cid"
    and "Handshake_DecodeExact (pk_Data (hs_packet rnd kind cid h)) = Inr h"
proof -
  show "Packet_DecodeExact (Packet_wire (hs_packet rnd kind cid h)) = Inr (hs_packet rnd kind cid h)"
    using packet.exact_roundtrip[OF hs_packet_ok[OF assms(2)]] by (simp add: Packet_DecodeExact_def)
  show "headerKind (pk_Header (hs_packet rnd kind cid h)) = kind" "headerConnID (pk_Header (hs_packet rnd kind cid h)) = cid"
    by (simp_all add: hs_packet_def header_unmasks)
  show "Handshake_DecodeExact (pk_Data (hs_packet rnd kind cid h)) = Inr h"
    using handshake.exact_roundtrip[OF assms(1)] by (simp add: Handshake_DecodeExact_def hs_packet_def)
qed

text \<open>The key schedule and the connection it leads to.\<close>

lemma keySchedule_ok:
  assumes "crypto_laws C"
  shows "\<exists>k. keySchedule C s i = Inr k \<and> length (HsHeaderProtect k) = 32 \<and> length (AckHeaderProtect k) = 32"
proof -
  have d: "\<exists>k. DeriveKey C s c 32 = Inr k \<and> length k = 32" for s c using DeriveKey_ok[OF assms, of 32 s c] by simp
  obtain pm where pm: "DeriveKey C s (ascii ''ksdk-protocol-connection'' @ i) 32 = Inr pm" using d by blast
  obtain a where a: "DeriveKey C pm (ascii ''ksdk-protocol-master-hs'') 32 = Inr a" using d by blast
  obtain b where b: "DeriveKey C pm (ascii ''ksdk-protocol-master-ack'') 32 = Inr b" using d by blast
  obtain x where x: "DeriveKey C pm (ascii ''ksdk-protocol-header-protect-ack'') 32 = Inr x" "length x = 32" using d by blast
  obtain y where y: "DeriveKey C pm (ascii ''ksdk-protocol-header-protect-hs'') 32 = Inr y" "length y = 32" using d by blast
  show ?thesis unfolding keySchedule_def pm a b x(1) y(1) rbind.simps using x(2) y(2) by simp
qed

lemma header_protect_keys_ok:
  assumes "IsCommonKeyKindDefined kind" "length self = 32" "length peer = 32"
  shows "\<exists>n. header_protect_keys kind self peer = Inr (take n self, take n peer) \<and>
    header_protect_keys kind peer self = Inr (take n peer, take n self)"
  using assms by (auto simp: header_protect_keys_def aes_NewCipher_def IsCommonKeyKindDefined_def) (metis take_all order_refl)+

lemma newActiveConnection_total:
  assumes laws: "crypto_laws C" and kind: "IsCommonKeyKindDefined kind" and "length selfHP = 32" "length peerHP = 32"
  shows "\<exists>a. newActiveConnection C now cid self peer kind selfHP peerHP tr p = Inr a"
proof -
  have k: "\<exists>k. derivePhaseKeys C s kind = Inr k" for s using derivePhaseKeys_ok[OF laws kind, of s] by blast
  obtain sk rk where a: "derivePhaseKeys C self kind = Inr sk" "derivePhaseKeys C peer kind = Inr rk" using k by metis
  obtain ns where b: "ratchetSecret C (pk_secret rk) = Inr ns"
    using DeriveKey_ok[OF laws, of 32] by (metis ratchetSecret_def order_refl)
  obtain nk where c: "derivePhaseKeys C ns kind = Inr nk" using k by blast
  obtain hs hp where d: "header_protect_keys kind selfHP peerHP = Inr (hs, hp)"
    using header_protect_keys_ok[OF kind assms(3,4)] by blast
  show ?thesis unfolding newActiveConnection_def a b c d rbind.simps case_prod_conv by blast
qed

lemma newActiveConnection_fields:
  assumes "newActiveConnection C now cid self peer kind selfHP peerHP tr p = Inr a"
  shows "transcript a = tr" "connTime a = now" "ac_cid a = (case p of None \<Rightarrow> cid | Some b \<Rightarrow> ac_cid b)"
    "ac_closed a = (case p of None \<Rightarrow> False | Some b \<Rightarrow> ac_closed b)"
  using assms by (cases p; auto simp: newActiveConnection_def rbind_Inr_iff split: prod.splits)+

text \<open>Two connections that are the ends of one session.\<close>

definition mirrored :: "crypto \<Rightarrow> activeConnection \<Rightarrow> activeConnection \<Rightarrow> bool" where
  "mirrored C a b \<longleftrightarrow> (\<exists>sec sec'. sends_at C sec 0 a \<and> receives_at C sec 0 b \<and> sends_at C sec' 0 b \<and> receives_at C sec' 0 a) \<and>
     peerHeaderProtect b = selfHeaderProtect a \<and> peerHeaderProtect a = selfHeaderProtect b \<and>
     commonKeyKind a = commonKeyKind b \<and> transcript a = transcript b \<and>
     sentCounter a = 0 \<and> sentCounter b = 0 \<and> seen (recvTracker a) = {} \<and> seen (recvTracker b) = {} \<and>
     ntracker_ok (recvTracker a) \<and> ntracker_ok (recvTracker b)"

lemma mirrored_new:
  assumes laws: "crypto_laws C" and kind: "IsCommonKeyKindDefined kind" and l: "length x = 32" "length y = 32"
    and a: "newActiveConnection C now cid u v kind x y tr p = Inr a"
    and b: "newActiveConnection C now' cid' v u kind y x tr p' = Inr b"
  shows "mirrored C a b"
  using newActiveConnection_ok[OF a laws] newActiveConnection_ok[OF b laws] header_protect_keys_ok[OF kind l]
    newActiveConnection_fields(1)[OF a] newActiveConnection_fields(1)[OF b]
  unfolding mirrored_def by auto

lemma integrityInfo_cong:
  "ID cid = ID cid' \<Longrightarrow> hs_KeyKind h = hs_KeyKind h' \<Longrightarrow> hs_CommonKeyKind h = hs_CommonKeyKind h' \<Longrightarrow>
     integrityInfo cid h = integrityInfo cid' h'"
  by (simp add: integrityInfo_def)

text \<open>Both sides of the exchange come to the same keys.\<close>

lemma exchange_agrees:
  assumes E: "ecdh_laws E" and C: "crypto_laws C" and g: "GenerateKey E c r = Some p" "GenerateKey E c r' = Some p'"
    and id: "ID cid = ID cid'"
  shows "\<exists>sec keys. exchange_keys E C r' cid' (hello_of E c p k) = Inr (hello_of E c p' k, keys) \<and>
    ECDHFromHandshake E p (hello_of E c p' k) = Inr (sec, k) \<and>
    keySchedule C sec (integrityInfo cid (hello_of E c p' k)) = Inr keys \<and>
    length (HsHeaderProtect keys) = 32 \<and> length (AckHeaderProtect keys) = 32"
proof -
  obtain sec where sec: "ECDH E c p (PublicKey E c p') = Some sec" "ECDH E c p' (PublicKey E c p) = Some sec"
    using E g unfolding ecdh_laws_def by blast
  have v: "NewPrivateKey E c p" "NewPublicKey E c (PublicKey E c p)" "NewPrivateKey E c p'" "NewPublicKey E c (PublicKey E c p')"
    using E g unfolding ecdh_laws_def by blast+
  have i: "integrityInfo cid' (hello_of E c p k) = integrityInfo cid (hello_of E c p' k)"
    by (rule integrityInfo_cong) (simp_all add: hello_of_def id)
  obtain keys where keys: "keySchedule C sec (integrityInfo cid (hello_of E c p' k)) = Inr keys"
    "length (HsHeaderProtect keys) = 32" "length (AckHeaderProtect keys) = 32"
    using keySchedule_ok[OF C] by blast
  have f: "hs_KeyKind (hello_of E c q k) = curve_kind c" "hs_CommonKeyKind (hello_of E c q k) = k"
    "KeyShare (hello_of E c q k) = PublicKey E c q" for q by (simp_all add: hello_of_def)
  have "exchange_keys E C r' cid' (hello_of E c p k) = Inr (hello_of E c p' k, keys)"
    unfolding exchange_keys_def f i using v sec keys(1)
    by (simp add: NewECDHHandshake_eq[OF g(2)] ecdhShared_def sess_err_def)
  moreover have "ECDHFromHandshake E p (hello_of E c p' k) = Inr (sec, k)"
    unfolding ECDHFromHandshake_def f using v sec by (simp add: ecdhShared_def)
  ultimately show ?thesis using keys by blast
qed

text \<open>The responder and the initiator, each at its datagram.\<close>

abbreviation hello_bytes :: "u8 \<Rightarrow> u16 \<Rightarrow> Handshake \<Rightarrow> bytes" where
  "hello_bytes rnd cid h \<equiv> Packet_wire (hs_packet rnd PacketKind_Handshake cid h)"

abbreviation ack_bytes :: "u8 \<Rightarrow> u16 \<Rightarrow> Handshake \<Rightarrow> bytes" where
  "ack_bytes rnd cid h \<equiv> Packet_wire (hs_packet rnd PacketKind_HandshakeAck cid h)"

lemma SendHandshake_ok:
  assumes "ep_mode s \<noteq> EndpointModeServer" "activeConnections s cid = None" "unmapAddrPort (cid_Addr cid) = cid_Addr cid"
    "Handshake_ok h" "length (Handshake_wire h) \<le> 200"
  shows "\<exists>s'. SendHandshake rnd now cid priv h s = (Inr (nextChan s), s') \<and>
    pktQueue s' = pktQueue s @ [\<lparr>pd_To = cid, pd_Kind = PacketKind_Handshake, pd_Data = hello_bytes rnd (ID cid) h\<rparr>] \<and>
    ep_mode s' = ep_mode s \<and> proxySettings s' = proxySettings s \<and> proxies s' = proxies s \<and>
    (\<exists>sent. sentHandshake s' cid = Some sent \<and> PrivateKey sent = priv \<and> Transcript sent = hello_bytes rnd (ID cid) h \<and>
       hsDone sent = nextChan s \<and> proxyConnection sent = None)"
proof -
  have c: "cid\<lparr>cid_Addr := unmapAddrPort (cid_Addr cid)\<rparr> = cid" by (simp add: assms(3))
  show ?thesis unfolding SendHandshake_def Let_def c using assms(1,2)
    by (auto simp: sendHandshake_def hello_packet_eq[OF assms(4,5)] sendPacket_def Let_def hi_closeUnlocked_def
        close_proxy_conn_def upd_conn_def split: option.splits)
qed

definition recv_cid :: "string \<Rightarrow> AddrPort \<Rightarrow> u16 \<Rightarrow> ConnectionID" where
  "recv_cid tr from n = \<lparr>Transport = tr, cid_Addr = unmapAddrPort from, ID = n\<rparr>"

lemma Receive_handshake:
  assumes "Handshake_ok h" "length (Handshake_wire h) \<le> 200" "proxy_at s (recv_cid tr from n) = None"
  shows "Receive str E C rk rnd now tr from (Packet_wire (hs_packet b kind n h)) s =
    dispatch E C rk rnd now (recv_cid tr from n) kind (hs_packet b kind n h) (Packet_wire (hs_packet b kind n h)) s"
  unfolding Receive_def receive_def hs_packet_read(1)[OF assms(1,2)] Let_def
  using assms(3) hs_packet_read(2,3)[OF assms(1,2)] by (simp add: recv_cid_def)

lemma responder_answers:
  assumes C: "crypto_laws C" and h: "Handshake_ok h" "length (Handshake_wire h) \<le> 200" "hs_KeyKind h = curve_kind c"
      "IsCommonKeyKindDefined (hs_CommonKeyKind h)"
    and h': "Handshake_ok h'" "length (Handshake_wire h') \<le> 200"
    and t: "ep_mode t \<noteq> EndpointModeClient" "activeConnections t cid = None" "proxy_at t cid = None"
    and cid: "cid = recv_cid tr from n"
    and x: "exchange_keys E C rk cid h = Inr (h', keys)" "length (HsHeaderProtect keys) = 32" "length (AckHeaderProtect keys) = 32"
  shows "\<exists>b t'. Receive str E C rk rnd' now tr from (hello_bytes rnd n h) t = (Inr (), t') \<and>
    pktQueue t' = pktQueue t @ [\<lparr>pd_To = cid, pd_Kind = PacketKind_HandshakeAck, pd_Data = ack_bytes rnd' n h'\<rparr>] \<and>
    activeConnections t' cid = Some (nextConn t) \<and> conns t' (nextConn t) = Some b \<and> newActiveSess t' = newActiveSess t @ [nextConn t] \<and>
    newActiveConnection C now cid (AckSecret keys) (HSSecret keys) (hs_CommonKeyKind h) (AckHeaderProtect keys)
      (HsHeaderProtect keys) (hello_bytes rnd n h @ ack_bytes rnd' n h') None = Inr b \<and>
    activeConnections t' = (activeConnections t)(cid \<mapsto> nextConn t)"
proof -
  obtain b where b: "newActiveConnection C now cid (AckSecret keys) (HSSecret keys) (hs_CommonKeyKind h) (AckHeaderProtect keys)
      (HsHeaderProtect keys) (hello_bytes rnd n h @ ack_bytes rnd' n h') None = Inr b"
    using newActiveConnection_total[OF C h(4) x(3,2)] by blast
  have n: "ID cid = n" by (simp add: cid recv_cid_def)
  have "Receive str E C rk rnd' now tr from (hello_bytes rnd n h) t =
      receiveHandshake E C rk rnd' now cid h (hello_bytes rnd n h) t"
    unfolding Receive_handshake[OF h(1,2) t(3)[unfolded cid]] cid[symmetric]
    using t(1) by (simp add: dispatch_def hs_packet_read(4)[OF h(1,2)])
  also have "\<dots> = finishHandshake C rnd' now cid h (hello_bytes rnd n h) h' keys t"
    using t(2) h(3,4) x(1) by (simp add: receiveHandshake_def CommonKeyKindSupported_def storedAckFor_def)
  finally show ?thesis
    using b t(2) by (simp add: finishHandshake_def n ack_packet_eq[OF h'] addActiveConnection_def sendPacket_def)
qed

lemma initiator_completes:
  assumes C: "crypto_laws C" and h': "Handshake_ok h'" "length (Handshake_wire h') \<le> 200" "IsCommonKeyKindDefined (hs_CommonKeyKind h')"
    and s: "ep_mode s \<noteq> EndpointModeServer" "sentHandshake s cid = Some sent" "proxy_at s cid = None" "proxyConnection sent = None"
    and cid: "cid = recv_cid tr from n"
    and x: "ECDHFromHandshake E (PrivateKey sent) h' = Inr (sec, k)" "keySchedule C sec (integrityInfo cid h') = Inr keys"
      "length (HsHeaderProtect keys) = 32" "length (AckHeaderProtect keys) = 32" "k = hs_CommonKeyKind h'"
  shows "\<exists>a s'. Receive str E C rk rnd now tr from (ack_bytes rnd' n h') s = (Inr (), s') \<and>
    activeConnections s' cid = Some (nextConn s) \<and> conns s' (nextConn s) = Some a \<and>
    hsAnswers s' = hsAnswers s @ [(hsDone sent, nextConn s)] \<and> sentHandshake s' cid = None \<and>
    newActiveConnection C now cid (HSSecret keys) (AckSecret keys) k (HsHeaderProtect keys)
      (AckHeaderProtect keys) (Transcript sent @ ack_bytes rnd' n h') None = Inr a"
proof -
  obtain a where a: "newActiveConnection C now cid (HSSecret keys) (AckSecret keys) k (HsHeaderProtect keys)
      (AckHeaderProtect keys) (Transcript sent @ ack_bytes rnd' n h') None = Inr a"
    using newActiveConnection_total[OF C h'(3) x(3,4)] x(5) by blast
  have "Receive str E C rk rnd now tr from (ack_bytes rnd' n h') s =
      receiveHandshakeAck E C now cid h' (ack_bytes rnd' n h') s"
    unfolding Receive_handshake[OF h'(1,2) s(3)[unfolded cid]] cid[symmetric]
    using s(1) by (simp add: dispatch_def hs_packet_read(4)[OF h'(1,2)])
  then show ?thesis
    using s(2,4) x h'(3) a
    by (simp add: receiveHandshakeAck_def CommonKeyKindSupported_def sess_err_def addActiveConnection_def deleteHandshake_def)
qed

lemma receiveHandshake_cases:
  "(\<exists>e. receiveHandshake E C rk rnd now cid h data s = (Inl e, s)) \<or>
   receiveHandshake E C rk rnd now cid h data s =
     (case storedAckFor now cid data s of
        Some None \<Rightarrow> (Inl AlreadyExists, s)
      | Some (Some ack) \<Rightarrow> (Inr (), sendPacket cid PacketKind_HandshakeAck ack s)
      | None \<Rightarrow>
          (case exchange_keys E C rk cid h of
             Inl e \<Rightarrow> (Inl e, s)
           | Inr (response, keys) \<Rightarrow> finishHandshake C rnd now cid h data response keys s))"
proof (cases "CurveFromKeyKind (hs_KeyKind h)")
  case (Inr c)
  then show ?thesis by (cases "CommonKeyKindSupported (hs_CommonKeyKind h)") (simp_all add: receiveHandshake_def)
qed (simp add: receiveHandshake_def)

section \<open>No channel is closed twice\<close>

text \<open>
  Closing a closed channel panics. What the tables refer to is therefore open: a connection in the table
  is open and has the identifier it is listed under, the channel of a pending handshake is open and its
  own, and so is the connection that waits for it, which is not in the table.
\<close>

definition open_at :: "endpoint \<Rightarrow> ConnectionID \<Rightarrow> nat \<Rightarrow> bool" where
  "open_at s cid c \<longleftrightarrow> c < nextConn s \<and> (\<exists>a. conns s c = Some a \<and> \<not> ac_closed a \<and> ac_cid a = cid)"

definition pending_ok :: "endpoint \<Rightarrow> ConnectionID \<Rightarrow> handshakeInfo \<Rightarrow> bool" where
  "pending_ok s cid h \<longleftrightarrow> hsDone h < nextChan s \<and> hsDone h \<notin> set (hsClosed s) \<and>
     (\<forall>c. proxyConnection h = Some c \<longrightarrow> open_at s cid c \<and> activeConnections s cid \<noteq> Some c)"

definition ep_ok :: "endpoint \<Rightarrow> bool" where
  "ep_ok s \<longleftrightarrow> (\<forall>cid c. activeConnections s cid = Some c \<longrightarrow> open_at s cid c) \<and>
     (\<forall>cid h. sentHandshake s cid = Some h \<longrightarrow> pending_ok s cid h) \<and>
     (\<forall>cid cid' h h'. sentHandshake s cid = Some h \<longrightarrow> sentHandshake s cid' = Some h' \<longrightarrow> hsDone h = hsDone h' \<longrightarrow> cid = cid') \<and>
     (\<forall>n \<in> set (hsClosed s). n < nextChan s) \<and> distinct (hsClosed s)"

lemma ep_okI:
  assumes "\<And>cid c. activeConnections s cid = Some c \<Longrightarrow> open_at s cid c"
    and "\<And>cid h. sentHandshake s cid = Some h \<Longrightarrow> pending_ok s cid h"
    and "\<And>cid cid' h h'. sentHandshake s cid = Some h \<Longrightarrow> sentHandshake s cid' = Some h' \<Longrightarrow> hsDone h = hsDone h' \<Longrightarrow> cid = cid'"
    and "\<And>n. n \<in> set (hsClosed s) \<Longrightarrow> n < nextChan s" and "distinct (hsClosed s)"
  shows "ep_ok s"
  using assms unfolding ep_ok_def by blast

lemma ep_okD:
  assumes "ep_ok s"
  shows "activeConnections s cid = Some c \<Longrightarrow> open_at s cid c"
    and "sentHandshake s cid = Some h \<Longrightarrow> pending_ok s cid h"
    and "sentHandshake s cid = Some h \<Longrightarrow> sentHandshake s cid' = Some h' \<Longrightarrow> hsDone h = hsDone h' \<Longrightarrow> cid = cid'"
    and "n \<in> set (hsClosed s) \<Longrightarrow> n < nextChan s" and "distinct (hsClosed s)"
  using assms unfolding ep_ok_def by blast+

lemma open_at_unique: "open_at s cid c \<Longrightarrow> open_at s cid' c \<Longrightarrow> cid' = cid"
  by (auto simp: open_at_def)

text \<open>What the invariant looks at; an operation that leaves it alone keeps the invariant.\<close>

definition same_tables :: "endpoint \<Rightarrow> endpoint \<Rightarrow> bool" where
  "same_tables s s' \<longleftrightarrow> activeConnections s' = activeConnections s \<and> sentHandshake s' = sentHandshake s \<and>
     nextConn s' = nextConn s \<and> nextChan s' = nextChan s \<and> hsClosed s' = hsClosed s \<and>
     (\<forall>c. map_option (\<lambda>a. (ac_cid a, ac_closed a)) (conns s' c) = map_option (\<lambda>a. (ac_cid a, ac_closed a)) (conns s c))"

lemma same_tables_open: "same_tables s s' \<Longrightarrow> open_at s' cid c = open_at s cid c"
proof -
  assume "same_tables s s'"
  then have "map_option (\<lambda>a. (ac_cid a, ac_closed a)) (conns s' c) = map_option (\<lambda>a. (ac_cid a, ac_closed a)) (conns s c)"
    "nextConn s' = nextConn s" by (simp_all add: same_tables_def)
  then show ?thesis by (cases "conns s c"; cases "conns s' c") (auto simp: open_at_def)
qed

lemma ep_ok_same: "same_tables s s' \<Longrightarrow> ep_ok s \<Longrightarrow> ep_ok s'"
  using same_tables_open[of s s'] by (simp add: ep_ok_def pending_ok_def same_tables_def)

lemma same_tables_sendPacket: "same_tables s (sendPacket cid k d s)"
  by (simp add: same_tables_def sendPacket_def)

lemma same_tables_conn:
  "conns s c = Some a \<Longrightarrow> ac_cid a' = ac_cid a \<Longrightarrow> ac_closed a' = ac_closed a \<Longrightarrow> same_tables s (upd_conn c (\<lambda>_. a') s)"
  by (simp add: same_tables_def upd_conn_def)

lemma same_tables_trans: "same_tables s t \<Longrightarrow> same_tables t u \<Longrightarrow> same_tables s u"
  by (simp add: same_tables_def)

text \<open>Taking a connection out of the table and closing it; giving up a handshake.\<close>

lemma open_at_close:
  "open_at (upd_conn c ac_closeUnlocked s) cid d \<longleftrightarrow> open_at s cid d \<and> d \<noteq> c"
  by (auto simp: open_at_def upd_conn_def ac_closeUnlocked_def)

lemma ep_ok_close:
  assumes ok: "ep_ok s" and at: "activeConnections s cid = Some c"
  shows "ep_ok (upd_conn c ac_closeUnlocked (deleteActiveConnection cid s))"
proof -
  let ?d = "deleteActiveConnection cid s" and ?t = "upd_conn c ac_closeUnlocked (deleteActiveConnection cid s)"
  have o: "open_at ?t x d \<longleftrightarrow> open_at s x d \<and> d \<noteq> c" for x d
    unfolding open_at_close by (simp add: open_at_def deleteActiveConnection_def)
  have f: "activeConnections ?t = (activeConnections s)(cid := None)" "sentHandshake ?t = sentHandshake s"
    "nextChan ?t = nextChan s" "hsClosed ?t = hsClosed s"
    by (simp_all add: upd_conn_def deleteActiveConnection_def)
  have c: "open_at s cid c" using ep_okD(1)[OF ok at] .
  show ?thesis
  proof (rule ep_okI, goal_cases)
    case (1 x d)
    then have "activeConnections s x = Some d" "x \<noteq> cid" by (auto simp: f split: if_splits)
    then show ?case using ep_okD(1)[OF ok] open_at_unique[OF c] o by blast
  next
    case (2 x h)
    then have p: "pending_ok s x h" using ep_okD(2)[OF ok] by (simp add: f)
    then have "d \<noteq> c" if "proxyConnection h = Some d" for d
      using that at open_at_unique[OF c, of x] by (auto simp: pending_ok_def)
    then show ?case using p by (auto simp: pending_ok_def o f)
  qed (use ep_okD(3,4,5)[OF ok] in \<open>auto simp: f\<close>)
qed

lemma ep_ok_give_up:
  assumes ok: "ep_ok s" and at: "sentHandshake s cid = Some h"
  shows "ep_ok (deleteHandshake cid (hi_closeUnlocked h s))"
proof -
  let ?t = "deleteHandshake cid (hi_closeUnlocked h s)"
  have o: "open_at ?t x d \<longleftrightarrow> open_at s x d \<and> proxyConnection h \<noteq> Some d" for x d
    by (auto simp: open_at_def deleteHandshake_def hi_closeUnlocked_def close_proxy_conn_def upd_conn_def ac_closeUnlocked_def split: option.splits)
  have f: "activeConnections ?t = activeConnections s" "sentHandshake ?t = (sentHandshake s)(cid := None)"
    "nextChan ?t = nextChan s" "hsClosed ?t = hsClosed s @ [hsDone h]"
    by (simp_all add: deleteHandshake_def hi_closeUnlocked_def close_proxy_conn_def upd_conn_def split: option.splits)
  have h: "pending_ok s cid h" using ep_okD(2)[OF ok at] .
  have mine: "x = cid \<and> activeConnections s cid \<noteq> Some d" if "open_at s x d" "proxyConnection h = Some d" for x d
    using h that open_at_unique[of s cid d x] by (auto simp: pending_ok_def)
  show ?thesis
  proof (rule ep_okI, goal_cases)
    case (1 x d)
    then have "open_at s x d" "activeConnections s x = Some d" using ep_okD(1)[OF ok] by (auto simp: f)
    then show ?case using mine o by blast
  next
    case (2 x h')
    then have x: "sentHandshake s x = Some h'" "x \<noteq> cid" by (auto simp: f split: if_splits)
    then have p: "pending_ok s x h'" "hsDone h' \<noteq> hsDone h" using ep_okD(2,3)[OF ok] at by blast+
    then have "proxyConnection h \<noteq> Some d" if "proxyConnection h' = Some d" for d
      using that x(2) mine[of x d] by (auto simp: pending_ok_def)
    then show ?case using p by (auto simp: pending_ok_def o f)
  next
    case (3 x x' k k')
    then show ?case using ep_okD(3)[OF ok] by (auto simp: f split: if_splits)
  next
    case (4 n)
    then show ?case using ep_okD(4)[OF ok] h by (auto simp: f pending_ok_def)
  next
    case 5
    then show ?case using ep_okD(5)[OF ok] h by (simp add: f pending_ok_def)
  qed
qed

text \<open>A new entry in the table.\<close>

lemma ep_ok_insert:
  assumes ok: "ep_ok s" and c: "c < nextConn s \<and> open_at s cid c \<and> sentHandshake s cid = None \<or> c = nextConn s"
    and a: "ac_cid a = cid" "\<not> ac_closed a"
    and f: "activeConnections t = (activeConnections s)(cid \<mapsto> c)" "sentHandshake t = sentHandshake s"
      "conns t = (conns s)(c \<mapsto> a)" "nextConn t = max (nextConn s) (Suc c)" "nextChan t = nextChan s" "hsClosed t = hsClosed s"
  shows "ep_ok t"
proof -
  have o: "open_at s x d \<Longrightarrow> open_at t x d" for x d
    using c a by (auto simp: open_at_def f)
  have oc: "open_at t cid c" using a by (simp add: open_at_def f)
  show ?thesis
  proof (rule ep_okI, goal_cases)
    case (1 x d)
    then show ?case using ep_okD(1)[OF ok] o oc by (auto simp: f split: if_splits)
  next
    case (2 x h)
    then have p: "pending_ok s x h" using ep_okD(2)[OF ok] by (simp add: f)
    have "activeConnections t x \<noteq> Some d" if d: "proxyConnection h = Some d" for d
    proof (cases "x = cid")
      case True
      then have "d < nextConn s" "c = nextConn s" using p d c 2 by (auto simp: pending_ok_def open_at_def f)
      then show ?thesis using True by (simp add: f)
    qed (use p d in \<open>simp add: pending_ok_def f\<close>)
    then show ?case using p o by (auto simp: pending_ok_def f)
  qed (use ep_okD(3,4,5)[OF ok] in \<open>auto simp: f\<close>)
qed

lemma ep_ok_forget: "ep_ok s \<Longrightarrow> ep_ok (deleteHandshake cid s)"
  by (rule ep_okI) (auto simp: deleteHandshake_def pending_ok_def open_at_def ep_ok_def split: if_splits)

lemma addActiveConnection_ep_ok:
  assumes ok: "ep_ok s" and p: "\<And>c. p = Some c \<Longrightarrow> open_at s cid c \<and> sentHandshake s cid = None"
  shows "ep_ok (snd (addActiveConnection C now cid u v k x y tr ch p s))"
proof (cases "newActiveConnection C now cid u v k x y tr (Option.bind p (conns s))")
  case (Inl e)
  then show ?thesis using ok by (simp add: addActiveConnection_def)
next
  case (Inr a)
  note fl = newActiveConnection_fields(3,4)[OF Inr]
  let ?t = "snd (addActiveConnection C now cid u v k x y tr ch p s)"
  show ?thesis
  proof (cases p)
    case None
    show ?thesis
      by (rule ep_ok_insert[OF ok, of "nextConn s" cid a])
        (use None Inr fl in \<open>auto simp: addActiveConnection_def Let_def split: option.splits\<close>)
  next
    case (Some c)
    then have c: "open_at s cid c" "sentHandshake s cid = None" "c < nextConn s" using p by (auto simp: open_at_def)
    then obtain q where q: "conns s c = Some q" "\<not> ac_closed q" "ac_cid q = cid" by (auto simp: open_at_def)
    show ?thesis
      by (rule ep_ok_insert[OF ok, of c cid a])
        (use Some Inr fl c q in \<open>auto simp: addActiveConnection_def Let_def max_def split: option.splits\<close>)
  qed
qed

lemma sendHandshake_ep_ok:
  assumes ok: "ep_ok s"
    and conn: "\<And>c. conn = Some c \<Longrightarrow> open_at s cid c \<and> activeConnections s cid \<noteq> Some c \<and>
      (\<forall>h. sentHandshake s cid = Some h \<longrightarrow> proxyConnection h \<noteq> Some c)"
  shows "ep_ok (snd (sendHandshake rnd now cid priv hs conn s))"
proof (cases "hello_packet rnd (ID cid) hs")
  case (Inl e)
  then show ?thesis using ok by (simp add: sendHandshake_def)
next
  case (Inr p)
  define u where "u = (case sentHandshake s cid of None \<Rightarrow> s | Some h \<Rightarrow> deleteHandshake cid (hi_closeUnlocked h s))"
  have u: "ep_ok u" using ok ep_ok_give_up[OF ok] by (auto simp: u_def split: option.splits)
  have uc: "open_at u cid c \<and> activeConnections u cid \<noteq> Some c" if "conn = Some c" for c
    using conn[OF that]
    by (auto simp: u_def open_at_def deleteHandshake_def hi_closeUnlocked_def close_proxy_conn_def upd_conn_def split: option.splits)
  let ?t = "snd (sendHandshake rnd now cid priv hs conn s)"
  have t: "activeConnections ?t = activeConnections u" "nextChan ?t = Suc (nextChan s)" "hsClosed ?t = hsClosed u"
    "nextConn ?t = nextConn u" "conns ?t = conns u"
    "\<exists>h'. sentHandshake ?t = (sentHandshake u)(cid \<mapsto> h') \<and> hsDone h' = nextChan s \<and> proxyConnection h' = conn"
    by (auto simp: sendHandshake_def Inr Let_def u_def hi_closeUnlocked_def close_proxy_conn_def upd_conn_def deleteHandshake_def
        sendPacket_def split: option.splits)
  then obtain h' where h': "sentHandshake ?t = (sentHandshake u)(cid \<mapsto> h')" "hsDone h' = nextChan s" "proxyConnection h' = conn"
    by blast
  have n: "nextChan u = nextChan s"
    by (simp add: u_def deleteHandshake_def hi_closeUnlocked_def close_proxy_conn_def upd_conn_def split: option.splits)
  have o: "open_at ?t x d = open_at u x d" for x d by (simp add: open_at_def t(4,5))
  have less: "k < nextChan u" if "k \<in> set (hsClosed u)" for k using ep_okD(4)[OF u that] .
  have old: "hsDone h < nextChan u" if "sentHandshake u x = Some h" for x h
    using ep_okD(2)[OF u that] by (simp add: pending_ok_def)
  show ?thesis
  proof (rule ep_okI, goal_cases)
    case (1 x d)
    then show ?case using ep_okD(1)[OF u] o by (simp add: t(1))
  next
    case (2 x h)
    show ?case
    proof (cases "x = cid")
      case True
      then have "h = h'" using 2 by (simp add: h'(1))
      have "\<forall>c. conn = Some c \<longrightarrow> open_at ?t cid c \<and> activeConnections ?t cid \<noteq> Some c"
        unfolding o t(1) using uc by blast
      moreover have "hsDone h' < nextChan ?t" "hsDone h' \<notin> set (hsClosed ?t)" using h'(2) less n by (auto simp: t(2,3))
      ultimately show ?thesis using h'(3) True by (simp add: pending_ok_def \<open>h = h'\<close>)
    next
      case False
      then have "pending_ok u x h" using 2 ep_okD(2)[OF u] by (simp add: h'(1))
      then show ?thesis using n o by (auto simp: pending_ok_def t(1-3))
    qed
  next
    case (3 x x' k k')
    have key: "hsDone k = nextChan u \<longleftrightarrow> x = cid" if "sentHandshake ?t x = Some k" for x k
      using that old[of x k] h'(1,2) n by (cases "x = cid") auto
    have "x = cid \<longleftrightarrow> x' = cid" using key[OF 3(1)] key[OF 3(2)] 3(3) by simp
    then show ?case using 3 ep_okD(3)[OF u, of x k x' k'] h'(1) by (cases "x = cid") auto
  next
    case (4 k)
    then show ?case using less[of k] n by (simp add: t(2,3))
  next
    case 5
    then show ?case using ep_okD(5)[OF u] by (simp add: t(3))
  qed
qed

text \<open>The handlers of received packets.\<close>

lemma sealApplicationFrame_frame:
  "sealApplicationFrame C rnd now data pn ctl a = (r, a') \<Longrightarrow> ac_cid a' = ac_cid a \<and> ac_closed a' = ac_closed a"
  by (auto simp: sealApplicationFrame_def case_prod_unfold Let_def ratchetSendLocked_def rbind_Inr_iff take_number_def
      ac_ConsumePacketNumber_def split: if_splits sum.splits option.splits)

lemma commitRecvPhaseLocked_keeps:
  "ac_cid (snd (commitRecvPhaseLocked C now pn a)) = ac_cid a" "ac_closed (snd (commitRecvPhaseLocked C now pn a)) = ac_closed a"
  by (simp_all add: commitRecvPhaseLocked_def Let_def split: sum.splits)

lemma acceptApplication_frame:
  assumes "acceptApplication C now cid prot pb ct hdr a = (r, a')"
  shows "ac_cid a' = ac_cid a \<and> ac_closed a' = ac_closed a"
proof -
  let ?n = "NonceCounter prot"
  obtain q b where b: "(if choose_phase now (KeyPhase hdr) ?n a = NextPhase then commitRecvPhaseLocked C now ?n a else (Inr (), a)) = (q, b)"
    by force
  then have "ac_cid b = ac_cid a" "ac_closed b = ac_closed a"
    using commitRecvPhaseLocked_keeps[of C now ?n a] by (auto split: if_splits)
  then show ?thesis using assms b by (auto simp: acceptApplication_def Let_def split: if_splits sum.splits)
qed

lemma openApplication_frame:
  "openApplication C now cid data hdr a = (r, a') \<Longrightarrow> ac_cid a' = ac_cid a \<and> ac_closed a' = ac_closed a"
  by (auto simp: openApplication_def Let_def dest: acceptApplication_frame split: if_splits sum.splits prod.splits)

lemma receiveApplication_ep_ok:
  assumes "ep_ok s"
  shows "ep_ok (snd (receiveApplication C now cid data hdr s))"
proof (cases "Option.bind (activeConnections s cid) (conns s)")
  case None
  then show ?thesis using assms by (auto simp: receiveApplication_def bind_eq_None_conv split: option.splits)
next
  case (Some a)
  then obtain c where c: "activeConnections s cid = Some c" "conns s c = Some a" by (auto simp: bind_eq_Some_conv)
  obtain r a' where q: "openApplication C now cid data hdr a = (r, a')" by force
  show ?thesis using ep_ok_same[OF same_tables_conn[OF c(2)] assms, of a'] openApplication_frame[OF q]
    by (simp add: receiveApplication_def c q)
qed

lemma sendApplicationFrame_ep_ok:
  assumes "ep_ok s"
  shows "ep_ok (snd (sendApplicationFrame C rnd now cid data c pn ctl s))"
proof (cases "activeConnections s cid = Some c \<and> conns s c \<noteq> None")
  case True
  then obtain a where a: "activeConnections s cid = Some c" "conns s c = Some a" by auto
  obtain r a' where q: "sealApplicationFrame C rnd now data pn ctl a = (r, a')" by force
  have u: "same_tables s (upd_conn c (\<lambda>_. a') s)" using same_tables_conn[OF a(2)] sealApplicationFrame_frame[OF q] by simp
  have "ep_ok (sendPacket cid k d (upd_conn c (\<lambda>_. a') s))" for k d
    by (rule ep_ok_same[OF same_tables_trans[OF u same_tables_sendPacket] assms])
  then show ?thesis using a q ep_ok_same[OF u assms] by (auto simp: sendApplicationFrame_def split: sum.splits)
qed (use assms in \<open>auto simp: sendApplicationFrame_def split: option.splits\<close>)

lemma finishHandshake_ep_ok:
  assumes "ep_ok s"
  shows "ep_ok (snd (finishHandshake C rnd now cid h data h' keys s))"
proof (cases "activeConnections s cid = None")
  case True
  show ?thesis
  proof (cases "ack_packet rnd (ID cid) h'")
    case (Inr ack)
    let ?r = "addActiveConnection C now cid (AckSecret keys) (HSSecret keys) (hs_CommonKeyKind h)
      (AckHeaderProtect keys) (HsHeaderProtect keys) (data @ ack) None None s"
    have ok: "ep_ok (snd ?r)" by (rule addActiveConnection_ep_ok[OF assms]) simp
    then show ?thesis using True Inr ep_ok_same[OF same_tables_sendPacket ok]
      by (cases ?r) (auto simp: finishHandshake_def split: sum.splits)
  qed (use assms True in \<open>simp add: finishHandshake_def\<close>)
qed (use assms in \<open>auto simp: finishHandshake_def\<close>)

lemma receiveHandshake_ep_ok:
  assumes "ep_ok s"
  shows "ep_ok (snd (receiveHandshake E C rk rnd now cid h data s))"
  using receiveHandshake_cases[of E C rk rnd now cid h data s] finishHandshake_ep_ok[OF assms] assms
  by (auto split: option.splits sum.splits prod.splits intro: ep_ok_same[OF same_tables_sendPacket])

lemma receiveHandshakeAck_ep_ok:
  assumes "ep_ok s"
  shows "ep_ok (snd (receiveHandshakeAck E C now cid h data s))"
proof (cases "sentHandshake s cid")
  case (Some sent)
  have p: "open_at (deleteHandshake cid s) cid c \<and> sentHandshake (deleteHandshake cid s) cid = None"
    if "proxyConnection sent = Some c" for c
    using ep_okD(2)[OF assms Some] that by (simp add: pending_ok_def open_at_def deleteHandshake_def)
  show ?thesis using assms Some addActiveConnection_ep_ok[OF ep_ok_forget[OF assms] p]
    by (auto simp: receiveHandshakeAck_def split: sum.splits prod.splits)
qed (simp add: receiveHandshakeAck_def assms)

lemma receiveProbe_same: "same_tables s (snd (receiveProbe cid data s))"
  by (simp add: receiveProbe_def same_tables_def Let_def split: sum.splits)

lemma touch_proxy_same: "same_tables s (touch_proxy now cid s)"
  by (simp add: touch_proxy_def same_tables_def split: option.splits)

lemma dispatch_ep_ok: "ep_ok s \<Longrightarrow> ep_ok (snd (dispatch E C rk rnd now cid kind pkt data s))"
  using receiveHandshake_ep_ok receiveHandshakeAck_ep_ok receiveApplication_ep_ok ep_ok_same[OF receiveProbe_same]
  by (simp add: dispatch_def split: sum.splits)

lemma Receive_ep_ok:
  assumes "ep_ok s"
  shows "ep_ok (snd (Receive str E C rk rnd now tr from data s))"
  using dispatch_ep_ok[OF assms] assms ep_ok_same[OF touch_proxy_same assms]
  by (auto simp: Receive_def receive_def Let_def split: sum.splits option.splits intro: ep_ok_same[OF same_tables_sendPacket])

text \<open>The collectors.\<close>

lemma delete_inactive_ep_ok: "ep_ok s \<Longrightarrow> ep_ok (snd (delete_inactive cids limit s))"
  by (induction cids limit s rule: delete_inactive.induct)
    (auto simp: case_prod_unfold Let_def ep_ok_close split: option.splits)

lemma delete_handshakes_ep_ok: "ep_ok s \<Longrightarrow> ep_ok (snd (delete_handshakes cids limit s))"
  by (induction cids limit s rule: delete_handshakes.induct)
    (auto simp: case_prod_unfold Let_def ep_ok_give_up split: option.splits)

lemma drop_proxy_same: "same_tables s (drop_proxy p s)"
  by (simp add: drop_proxy_def same_tables_def)

lemma delete_proxies_ep_ok: "ep_ok s \<Longrightarrow> ep_ok (snd (delete_proxies str cids limit marked s))"
proof (induction cids arbitrary: marked s)
  case (Cons cid cids)
  then show ?case using ep_ok_same[OF drop_proxy_same]
    by (auto simp: case_prod_unfold Let_def split: option.splits)
qed simp

lemma closeCannotSend_ep_ok: "ep_ok s \<Longrightarrow> ep_ok (closeCannotSend pkt s)"
  using ep_ok_same[OF drop_proxy_same, of s]
  by (auto simp: closeCannotSend_def mayCloseProxy_def Let_def ep_ok_close ep_ok_give_up split: option.splits)

text \<open>Every operation on an endpoint, by its owner, by the transport or by the network.\<close>

inductive ep_step :: "(ConnectionID \<Rightarrow> string) \<Rightarrow> ecdh \<Rightarrow> crypto \<Rightarrow> endpoint \<Rightarrow> endpoint \<Rightarrow> bool" for str E C where
  dial: "ep_step str E C s (snd (SendHandshake rnd now cid priv hs s))"
| redial: "ep_step str E C s (snd (sendRehandshakeForProxy rnd now c priv hs s))"
| retransmit: "ep_step str E C s (retransmitHandshake cid s)"
| recv: "ep_step str E C s (snd (Receive str E C rk rnd now tr from data s))"
| send: "ep_step str E C s (snd (sendApplicationFrame C rnd now cid data c pn ctl s))"
| probe: "ep_step str E C s (snd (SendProbe rnd cid mac addr s))"
| close: "ep_step str E C s (ac_Close c s)"
| cannot_send: "ep_step str E C s (closeCannotSend pkt s)"
| set_proxy: "ep_step str E C s (snd (SetProxy now cid cid' s))"
| delete_proxy: "ep_step str E C s (snd (DeleteProxy cid s))"
| collect: "ep_step str E C s (garbage_collect str oh oc opx now ht ct pt s)"

inductive ep_reachable :: "(ConnectionID \<Rightarrow> string) \<Rightarrow> ecdh \<Rightarrow> crypto \<Rightarrow> endpoint \<Rightarrow> bool" for str E C where
  init: "ep_reachable str E C (NewEndpoint mode)"
| step: "ep_reachable str E C s \<Longrightarrow> ep_step str E C s s' \<Longrightarrow> ep_reachable str E C s'"

lemma sendRehandshake_ep_ok:
  assumes ok: "ep_ok s"
  shows "ep_ok (snd (sendRehandshakeForProxy rnd now c priv hs s))"
proof (cases "\<exists>a. conns s c = Some a \<and> activeConnections s (ac_cid a) = Some c")
  case True
  then obtain a where a: "conns s c = Some a" "activeConnections s (ac_cid a) = Some c" by blast
  let ?cid = "ac_cid a" and ?d = "deleteActiveConnection (ac_cid a) s"
  have op: "open_at ?d x d = open_at s x d" for x d by (simp add: open_at_def deleteActiveConnection_def)
  have "ep_ok ?d"
    by (rule ep_okI) (use ok in \<open>auto simp: deleteActiveConnection_def pending_ok_def open_at_def ep_ok_def split: if_splits\<close>)
  moreover have "open_at ?d ?cid c \<and> activeConnections ?d ?cid \<noteq> Some c" and "sentHandshake ?d = sentHandshake s"
    using ep_okD(1)[OF ok a(2)] by (simp_all add: op, simp_all add: deleteActiveConnection_def)
  moreover have "proxyConnection h \<noteq> Some c" if "sentHandshake s ?cid = Some h" for h
    using ep_okD(2)[OF ok that] a(2) by (auto simp: pending_ok_def)
  ultimately have "ep_ok (snd (sendHandshake rnd now ?cid priv hs (Some c) ?d))" by (intro sendHandshake_ep_ok) auto
  then show ?thesis using a by (simp add: sendRehandshakeForProxy_def)
qed (use ok in \<open>auto simp: sendRehandshakeForProxy_def split: option.splits\<close>)

lemma ep_step_ok: "ep_step str E C s s' \<Longrightarrow> ep_ok s \<Longrightarrow> ep_ok s'"
proof (induction rule: ep_step.induct)
  case (dial s rnd now cid priv hs)
  then show ?case using sendHandshake_ep_ok[of s None] by (auto simp: SendHandshake_def Let_def)
next
  case (redial s rnd now c priv hs)
  then show ?case by (rule sendRehandshake_ep_ok)
next
  case (retransmit s cid)
  then show ?case by (auto simp: retransmitHandshake_def split: option.splits intro: ep_ok_same[OF same_tables_sendPacket])
next
  case (recv s rk rnd now tr "from" data)
  then show ?case by (rule Receive_ep_ok)
next
  case (send s rnd now cid data c pn ctl)
  then show ?case by (rule sendApplicationFrame_ep_ok)
next
  case (probe s rnd cid mac addr)
  then show ?case by (auto simp: SendProbe_def split: sum.splits intro: ep_ok_same[OF same_tables_sendPacket])
next
  case (close s c)
  then show ?case by (auto simp: ac_Close_def closeConnection_def ep_ok_close split: option.splits)
next
  case (cannot_send s pkt)
  then show ?case by (rule closeCannotSend_ep_ok)
next
  case (set_proxy s now cid cid')
  then show ?case by (rule ep_ok_same[of s, rotated]) (auto simp: SetProxy_def same_tables_def Let_def)
next
  case (delete_proxy s cid)
  then show ?case using ep_ok_same[OF drop_proxy_same] by (auto simp: DeleteProxy_def split: option.splits)
next
  case (collect s oh oc opx now ht ct pt)
  then show ?case
    by (simp add: garbage_collect_def Let_def DeleteHandshakeBefore_def DeleteInactiveConnectionsBefore_def DeleteProxyBefore_def
        delete_proxies_ep_ok delete_inactive_ep_ok delete_handshakes_ep_ok)
qed

lemma ep_reachable_ok: "ep_reachable str E C s \<Longrightarrow> ep_ok s"
proof (induction rule: ep_reachable.induct)
  case (init mode)
  show ?case by (simp add: ep_ok_def NewEndpoint_def)
next
  case (step s s')
  then show ?case using ep_step_ok by blast
qed

text \<open>Curves that satisfy the laws: a secret is the sum of two checksums.\<close>

definition sampleEcdh :: ecdh where
  "sampleEcdh =
     \<lparr>GenerateKey = \<lambda>c r. Some (take 32 r), PublicKey = \<lambda>c p. p, NewPublicKey = \<lambda>c p. True, NewPrivateKey = \<lambda>c p. True,
      ECDH = \<lambda>c p q. Some [checksum p + checksum q]\<rparr>"

lemma sampleEcdh_laws: "ecdh_laws sampleEcdh"
  by (auto simp: ecdh_laws_def sampleEcdh_def add.commute min_def)

definition sampleServer :: AddrPort where "sampleServer = ([10, 0, 0, 1], 9)"
definition sampleClient :: AddrPort where "sampleClient = ([10, 0, 0, 2], 8)"

lemma sample_unmap: "unmapAddrPort sampleServer = sampleServer" "unmapAddrPort sampleClient = sampleClient"
  by (simp_all add: unmapAddrPort_def Unmap_def sampleServer_def sampleClient_def)

section \<open>Properties\<close>

text \<open>
  C11: a handshake ends in two connections that mirror each other. Let an endpoint that may dial send the
  handshake of \<open>NewECDHHandshake\<close> to a free connection identifier; let an endpoint that may answer, with
  no connection and no proxy at the identifier it sees, receive that datagram; and let the first receive
  the answer. Every step succeeds; both endpoints then have a connection in their table, announced on
  \<open>hsDone\<close> and as a new session; each sends with the secret the other receives with, the header
  protection keys are crossed, and both have the same transcript, no packet sent and none received.
\<close>

theorem handshake_agrees:
  assumes E: "ecdh_laws E" and C: "crypto_laws C" and kind: "IsCommonKeyKindDefined k"
    and gen: "GenerateKey E c r = Some p" "GenerateKey E c r' = Some p'"
    and s: "ep_mode s \<noteq> EndpointModeServer" "activeConnections s cid = None" "proxy_at s cid = None"
      "cid = recv_cid tr addr n"
    and t: "ep_mode t \<noteq> EndpointModeClient" "activeConnections t cid' = None" "proxy_at t cid' = None"
      "cid' = recv_cid tr' addr' n"
    and um: "unmapAddrPort (cid_Addr cid) = cid_Addr cid"
  shows "\<exists>priv h hello ch s1 t1 ack s2 a b ca cb. NewECDHHandshake E r c k = Inr (priv, h) \<and>
    SendHandshake rnd t0 cid priv h s = (Inr ch, s1) \<and>
    pktQueue s1 = pktQueue s @ [\<lparr>pd_To = cid, pd_Kind = PacketKind_Handshake, pd_Data = hello\<rparr>] \<and>
    Receive str E C r' rnd' t1' tr' addr' hello t = (Inr (), t1) \<and>
    pktQueue t1 = pktQueue t @ [\<lparr>pd_To = cid', pd_Kind = PacketKind_HandshakeAck, pd_Data = ack\<rparr>] \<and>
    Receive str E C r'' rnd'' t2' tr addr ack s1 = (Inr (), s2) \<and>
    activeConnections s2 cid = Some ca \<and> conns s2 ca = Some a \<and> (ch, ca) \<in> set (hsAnswers s2) \<and>
    activeConnections t1 cid' = Some cb \<and> conns t1 cb = Some b \<and> cb \<in> set (newActiveSess t1) \<and> mirrored C a b"
proof -
  let ?h = "hello_of E c p k" and ?h' = "hello_of E c p' k"
  note h = hello_of_ok[OF E gen(1), of k] and h' = hello_of_ok[OF E gen(2), of k]
  have id: "ID cid = n" "ID cid' = n" using s(4) t(4) by (simp_all add: recv_cid_def)
  have f: "hs_KeyKind (hello_of E c q k) = curve_kind c" "hs_CommonKeyKind (hello_of E c q k) = k" for q
    by (simp_all add: hello_of_def)
  obtain sec keys where x: "exchange_keys E C r' cid' ?h = Inr (?h', keys)" "ECDHFromHandshake E p ?h' = Inr (sec, k)"
    "keySchedule C sec (integrityInfo cid ?h') = Inr keys" "length (HsHeaderProtect keys) = 32" "length (AckHeaderProtect keys) = 32"
    using exchange_agrees[OF E C gen, of cid cid' k] id by auto
  obtain s1 sent where s1: "SendHandshake rnd t0 cid p ?h s = (Inr (nextChan s), s1)"
    "pktQueue s1 = pktQueue s @ [\<lparr>pd_To = cid, pd_Kind = PacketKind_Handshake, pd_Data = hello_bytes rnd n ?h\<rparr>]"
    "ep_mode s1 = ep_mode s" "proxySettings s1 = proxySettings s" "proxies s1 = proxies s"
    "sentHandshake s1 cid = Some sent" "PrivateKey sent = p" "Transcript sent = hello_bytes rnd n ?h" "hsDone sent = nextChan s"
    "proxyConnection sent = None"
    using SendHandshake_ok[OF s(1,2) um h, of rnd t0 p] id(1) by auto
  obtain b t1 where t1: "Receive str E C r' rnd' t1' tr' addr' (hello_bytes rnd n ?h) t = (Inr (), t1)"
    "pktQueue t1 = pktQueue t @ [\<lparr>pd_To = cid', pd_Kind = PacketKind_HandshakeAck, pd_Data = ack_bytes rnd' n ?h'\<rparr>]"
    "activeConnections t1 cid' = Some (nextConn t)" "conns t1 (nextConn t) = Some b" "newActiveSess t1 = newActiveSess t @ [nextConn t]"
    "newActiveConnection C t1' cid' (AckSecret keys) (HSSecret keys) k (AckHeaderProtect keys)
      (HsHeaderProtect keys) (hello_bytes rnd n ?h @ ack_bytes rnd' n ?h') None = Inr b"
    using responder_answers[OF C h f(1) _ h' t x(1,4,5), of str rnd' t1' rnd] f(2) kind by auto
  have px: "proxy_at s1 cid = None" using s(3) s1(4,5) by (simp add: proxy_at_def)
  obtain a s2 where s2: "Receive str E C r'' rnd'' t2' tr addr (ack_bytes rnd' n ?h') s1 = (Inr (), s2)"
    "activeConnections s2 cid = Some (nextConn s1)" "conns s2 (nextConn s1) = Some a"
    "hsAnswers s2 = hsAnswers s1 @ [(nextChan s, nextConn s1)]"
    "newActiveConnection C t2' cid (HSSecret keys) (AckSecret keys) k (HsHeaderProtect keys)
      (AckHeaderProtect keys) (hello_bytes rnd n ?h @ ack_bytes rnd' n ?h') None = Inr a"
    using initiator_completes[OF C h' _ _ s1(6) px s1(10) s(4) _ x(3,4,5), where k = k and E = E and str = str and rk = r'' and rnd = rnd'' and now = t2' and rnd' = rnd'] f(2) kind s(1) s1 x(2) by auto
  have m: "mirrored C a b" by (rule mirrored_new[OF C kind x(4,5) s2(5) t1(6)])
  have q: "(nextChan s, nextConn s1) \<in> set (hsAnswers s2)" "nextConn t \<in> set (newActiveSess t1)"
    using s2(4) t1(5) by simp_all
  show ?thesis
    by (intro exI conjI, rule NewECDHHandshake_eq[OF gen(1)], rule s1(1), rule s1(2), rule t1(1), rule t1(2), rule s2(1),
      rule s2(2), rule s2(3), rule q(1), rule t1(3), rule t1(4), rule q(2), rule m)
qed

theorem handshake_agrees_witness:
  "\<exists>priv h hello ch s1 t1 ack s2 a b ca cb. NewECDHHandshake sampleEcdh [1, 2] X25519 CommonKeyKind_Aes256Gcm = Inr (priv, h) \<and>
    SendHandshake 3 0 (recv_cid ''udp'' sampleServer 7) priv h (NewEndpoint EndpointModeClient) = (Inr ch, s1) \<and>
    pktQueue s1 = [\<lparr>pd_To = recv_cid ''udp'' sampleServer 7, pd_Kind = PacketKind_Handshake, pd_Data = hello\<rparr>] \<and>
    Receive (\<lambda>_. []) sampleEcdh sampleCrypto [3] 4 1 ''udp'' sampleClient hello (NewEndpoint EndpointModeServer) = (Inr (), t1) \<and>
    pktQueue t1 = [\<lparr>pd_To = recv_cid ''udp'' sampleClient 7, pd_Kind = PacketKind_HandshakeAck, pd_Data = ack\<rparr>] \<and>
    Receive (\<lambda>_. []) sampleEcdh sampleCrypto [5] 6 2 ''udp'' sampleServer ack s1 = (Inr (), s2) \<and>
    activeConnections s2 (recv_cid ''udp'' sampleServer 7) = Some ca \<and> conns s2 ca = Some a \<and> (ch, ca) \<in> set (hsAnswers s2) \<and>
    activeConnections t1 (recv_cid ''udp'' sampleClient 7) = Some cb \<and> conns t1 cb = Some b \<and> cb \<in> set (newActiveSess t1) \<and>
    mirrored sampleCrypto a b"
  using handshake_agrees[OF sampleEcdh_laws sampleCrypto_laws, where k = CommonKeyKind_Aes256Gcm and c = X25519
      and r = "[1, 2]" and r' = "[3]" and s = "NewEndpoint EndpointModeClient" and t = "NewEndpoint EndpointModeServer"
      and cid = "recv_cid ''udp'' sampleServer 7" and cid' = "recv_cid ''udp'' sampleClient 7" and tr = "''udp''" and tr' = "''udp''"
      and addr = sampleServer and addr' = sampleClient and n = 7 and rnd = 3 and ?t0.0 = 0 and rnd' = 4 and t1' = 1
      and str = "\<lambda>_. []" and r'' = "[5]" and rnd'' = 6 and t2' = 2, OF _ _ _ _ _ _ refl _ _ _ refl]
  by (simp add: sampleEcdh_def IsCommonKeyKindDefined_def NewEndpoint_def proxy_at_def recv_cid_def sample_unmap)

text \<open>
  C13: a hello cannot take over a connection. When there is a connection at the identifier, a handshake
  leaves all connections and tables as they are: it is refused, or, when it is byte for byte the hello
  that led to this connection and came within the window, the very ack that answered it is sent again.
\<close>

theorem hello_never_replaces:
  assumes "activeConnections t cid = Some d" and "conns t d = Some b"
    and "receiveHandshake E C rk rnd now cid h data t = (r, t')"
  shows "(\<exists>e. r = Inl e) \<and> t' = t \<or>
    (\<exists>ack. r = Inr () \<and> transcript b = data @ ack \<and> ack \<noteq> [] \<and> Sub now (connTime b) \<le> handshakeReackWindow \<and>
       t' = sendPacket cid PacketKind_HandshakeAck ack t)"
proof (cases "\<exists>ack. storedAckFor now cid data t = Some (Some ack)")
  case True
  then obtain ack where ack: "storedAckFor now cid data t = Some (Some ack)" by blast
  then have f: "Sub now (connTime b) \<le> handshakeReackWindow" "length data < length (transcript b)"
    "take (length data) (transcript b) = data" "drop (length data) (transcript b) = ack"
    using assms(1,2) by (simp_all add: storedAckFor_def split: if_splits)
  have a: "transcript b = data @ ack" using f(3,4) by (metis append_take_drop_id)
  then have a: "transcript b = data @ ack" "ack \<noteq> []" "Sub now (connTime b) \<le> handshakeReackWindow" using f by auto
  show ?thesis using receiveHandshake_cases[of E C rk rnd now cid h data t] assms(3) ack a by auto
next
  case False
  then have "storedAckFor now cid data t = Some None" using assms(1,2) by (auto simp: storedAckFor_def split: if_splits)
  then show ?thesis using receiveHandshake_cases[of E C rk rnd now cid h data t] assms(3) by auto
qed

theorem hello_never_replaces_witness:
  "\<exists>a t. sampleEnd [2] [1] = Inr a \<and>
    t = (NewEndpoint EndpointModeServer)\<lparr>activeConnections := [sampleCid \<mapsto> 0], conns := [0 \<mapsto> a]\<rparr> \<and>
    (\<exists>e. receiveHandshake sampleEcdh sampleCrypto [5] 6 7 sampleCid (hello_of sampleEcdh X25519 [4] CommonKeyKind_Aes256Gcm) [1, 2] t = (Inl e, t))"
proof -
  obtain a where a: "sampleEnd [2] [1] = Inr a" using sampleEnd_ok by metis
  let ?t = "(NewEndpoint EndpointModeServer)\<lparr>activeConnections := [sampleCid \<mapsto> 0], conns := [0 \<mapsto> a]\<rparr>"
  let ?h = "hello_of sampleEcdh X25519 [4] CommonKeyKind_Aes256Gcm"
  obtain r t' where r: "receiveHandshake sampleEcdh sampleCrypto [5] 6 7 sampleCid ?h [1, 2] ?t = (r, t')" by force
  have "transcript a = []" using newActiveConnection_fields(1)[OF a[unfolded sampleEnd_def]] .
  then have "\<exists>e. r = Inl e \<and> t' = ?t"
    using hello_never_replaces[OF _ _ r, of 0 a] by (auto simp: NewEndpoint_def)
  then show ?thesis using a r by blast
qed

text \<open>
  C12: no channel is closed twice. In every state an endpoint can reach, through dialling, shaking hands
  anew, received datagrams of any content, sending, closing, failing transports, proxies and the
  collectors: a connection in the table is open and is listed under its own identifier; the channel of a
  pending handshake has not been closed; a connection that waits for a handshake is open and not in the
  table as well; and no answer channel has been closed more than once. So \<open>closeUnlocked\<close>, which these
  operations call on what the tables hold, never closes a closed channel.
\<close>

theorem nothing_closed_twice:
  assumes "ep_reachable str E C s"
  shows "(\<forall>cid c. activeConnections s cid = Some c \<longrightarrow> (\<exists>a. conns s c = Some a \<and> \<not> ac_closed a \<and> ac_cid a = cid)) \<and>
    (\<forall>cid h. sentHandshake s cid = Some h \<longrightarrow> hsDone h \<notin> set (hsClosed s) \<and>
      (\<forall>c. proxyConnection h = Some c \<longrightarrow>
         (\<exists>a. conns s c = Some a \<and> \<not> ac_closed a \<and> ac_cid a = cid) \<and> activeConnections s cid \<noteq> Some c)) \<and>
    distinct (hsClosed s)"
  using ep_reachable_ok[OF assms] unfolding ep_ok_def pending_ok_def open_at_def by blast

theorem nothing_closed_twice_witness:
  "\<exists>s. ep_reachable (\<lambda>_. []) sampleEcdh sampleCrypto s \<and>
    s = snd (SendHandshake 3 1 (recv_cid ''udp'' sampleServer 7) [2] (hello_of sampleEcdh X25519 [2] CommonKeyKind_Aes256Gcm)
          (snd (SendHandshake 3 0 (recv_cid ''udp'' sampleServer 7) [1] (hello_of sampleEcdh X25519 [1] CommonKeyKind_Aes256Gcm)
             (NewEndpoint EndpointModeClient)))) \<and> distinct (hsClosed s)"
proof (intro exI conjI)
  show r: "ep_reachable (\<lambda>_. []) sampleEcdh sampleCrypto
      (snd (SendHandshake 3 1 (recv_cid ''udp'' sampleServer 7) [2] (hello_of sampleEcdh X25519 [2] CommonKeyKind_Aes256Gcm)
          (snd (SendHandshake 3 0 (recv_cid ''udp'' sampleServer 7) [1] (hello_of sampleEcdh X25519 [1] CommonKeyKind_Aes256Gcm)
             (NewEndpoint EndpointModeClient)))))"
    by (rule ep_reachable.step[OF ep_reachable.step[OF ep_reachable.init ep_step.dial] ep_step.dial])
  show "distinct (hsClosed (snd (SendHandshake 3 1 (recv_cid ''udp'' sampleServer 7) [2] (hello_of sampleEcdh X25519 [2] CommonKeyKind_Aes256Gcm)
          (snd (SendHandshake 3 0 (recv_cid ''udp'' sampleServer 7) [1] (hello_of sampleEcdh X25519 [1] CommonKeyKind_Aes256Gcm)
             (NewEndpoint EndpointModeClient))))))"
    using nothing_closed_twice[OF r] by blast
qed (rule refl)

text \<open>
  A proxy forwards in both directions. After \<open>SetProxy\<close> every datagram that decodes and comes from
  one of the two identifiers is queued unchanged, with its kind, for the other one; apart from the packet
  queue and the time of last use of proxies nothing changes: no key exchange, no decryption, no table.
\<close>

theorem proxy_forwards:
  assumes set: "SetProxy t0 owned allocate s = (Inr (), s1)" and str: "str owned \<noteq> str allocate"
    and dec: "Packet_DecodeExact data = Inr pkt"
    and ends: "cid = owned \<and> peer = allocate \<or> cid = allocate \<and> peer = owned"
    and cid: "Transport cid = tr" "cid_Addr cid = from" "ID cid = headerConnID (pk_Header pkt)"
  shows "\<exists>px. receive str E C rk rnd now tr from data s1 =
    (Inr (), (s1\<lparr>proxies := px\<rparr>)\<lparr>pktQueue := pktQueue s1 @
       [\<lparr>pd_To = peer, pd_Kind = headerKind (pk_Header pkt), pd_Data = data\<rparr>]\<rparr>)"
proof -
  have c: "\<lparr>Transport = tr, cid_Addr = from, ID = headerConnID (pk_Header pkt)\<rparr> = cid" using cid by simp
  let ?p = "\<lparr>peer1 = owned, peer2 = allocate, lastUsed = t0\<rparr>"
  have p: "proxySettings s1 cid = Some (nextProxy s)" "proxies s1 (nextProxy s) = Some ?p"
    using set ends str by (auto simp: SetProxy_def Let_def split: if_splits)
  then have at: "proxy_at s1 cid = Some ?p" by (simp add: proxy_at_def)
  have g: "getPeer str ?p cid = Some peer" using ends str by (auto simp: getPeer_def)
  have "receive str E C rk rnd now tr from data s1 =
      (Inr (), sendPacket peer (headerKind (pk_Header pkt)) data (touch_proxy now cid s1))"
    by (simp add: receive_def dec c at g)
  then show ?thesis by (auto simp: touch_proxy_def p sendPacket_def)
qed

theorem proxy_forwards_witness:
  "\<exists>s1 px. SetProxy 0 (recv_cid ''udp'' sampleServer 7) (recv_cid ''udp'' sampleClient 8) (NewEndpoint EndpointModeMutual) = (Inr (), s1) \<and>
    receive (\<lambda>c. if ID c = 7 then ''a'' else ''b'') sampleEcdh sampleCrypto [1] 2 3 ''udp'' sampleClient
      (Packet_wire \<lparr>pk_Header = buildHeader 5 PacketKind_Application 8 1 0, pk_Data = [9]\<rparr>) s1 =
    (Inr (), (s1\<lparr>proxies := px\<rparr>)\<lparr>pktQueue := [\<lparr>pd_To = recv_cid ''udp'' sampleServer 7, pd_Kind = PacketKind_Application,
       pd_Data = Packet_wire \<lparr>pk_Header = buildHeader 5 PacketKind_Application 8 1 0, pk_Data = [9]\<rparr>\<rparr>]\<rparr>)"
proof -
  let ?a = "recv_cid ''udp'' sampleServer 7" and ?b = "recv_cid ''udp'' sampleClient 8"
  let ?p = "\<lparr>pk_Header = buildHeader 5 PacketKind_Application 8 1 0, pk_Data = [9]\<rparr>"
  obtain s1 where s1: "SetProxy 0 ?a ?b (NewEndpoint EndpointModeMutual) = (Inr (), s1)" "pktQueue s1 = []"
    by (simp add: SetProxy_def NewEndpoint_def Let_def)
  have h: "headerKind (pk_Header ?p) = PacketKind_Application" "headerConnID (pk_Header ?p) = 8" "oh_Len (pk_Header ?p) = 1"
    by (simp_all add: header_unmasks)
  have d: "Packet_DecodeExact (Packet_wire ?p) = Inr ?p"
    using packet.exact_roundtrip[of ?p] h(3) by (simp add: Packet_DecodeExact_def Packet_ok_def)
  have "\<exists>px. receive (\<lambda>c. if ID c = 7 then ''a'' else ''b'') sampleEcdh sampleCrypto [1] 2 3 ''udp'' sampleClient (Packet_wire ?p) s1 =
      (Inr (), (s1\<lparr>proxies := px\<rparr>)\<lparr>pktQueue := pktQueue s1 @
        [\<lparr>pd_To = ?a, pd_Kind = headerKind (pk_Header ?p), pd_Data = Packet_wire ?p\<rparr>]\<rparr>)"
    by (rule proxy_forwards[OF s1(1) _ d, where cid = ?b]) (use h(2) in \<open>auto simp: recv_cid_def sample_unmap\<close>)
  then show ?thesis using s1 h(1) by auto
qed

section \<open>Departures\<close>

text \<open>An expired proxy is reported twice by \<open>DeleteProxyBefore\<close>.\<close>

theorem expired_proxy_reported_twice:
  assumes "proxy_at s cid = Some p" "str (peer1 p) \<noteq> str (peer2 p)" "Before (lastUsed p) limit"
    and "proxySettings s = [peer1 p \<mapsto> n, peer2 p \<mapsto> n]" "cid = peer1 p" "set order \<subseteq> {peer1 p, peer2 p}"
  shows "fst (DeleteProxyBefore str (cid # order) limit s) = [proxy_info p, proxy_info p]"
proof -
  have "proxy_at (drop_proxy p s) x = None" if "x \<in> {peer1 p, peer2 p}" for x
    using that assms(4) by (auto simp: proxy_at_def drop_proxy_def)
  then have "fst (delete_proxies str xs limit m (drop_proxy p s)) = []" if "set xs \<subseteq> {peer1 p, peer2 p}" for xs m
    using that by (induction xs arbitrary: m) auto
  then show ?thesis using assms(1-3,6) by (simp add: DeleteProxyBefore_def case_prod_unfold Let_def)
qed

end
