(* ===== verification/Obj_Ident.thy ===== *)
theory Obj_Ident
  imports Obj_Endpoint_Props
begin

text \<open>
  Connection identifiers in text form (\<open>objproto/objproto.go\<close>, \<open>objproto/vsock_addr.go\<close>,
  \<open>objproto/connection_id_cli.go\<close>). The text of an IP address is that of \<open>net/netip\<close>, and a name is
  resolved by \<open>net.LookupIP\<close>; both are arguments. What is used of \<open>strings\<close> and \<open>strconv\<close> is defined here.
\<close>

section \<open>Strings and numbers\<close>

text \<open>\<open>strings.Cut\<close> at a character.\<close>

fun Cut :: "char \<Rightarrow> string \<Rightarrow> (string \<times> string) option" where
  "Cut c [] = None"
| "Cut c (x # xs) = (if x = c then Some ([], xs) else map_option (\<lambda>(a, b). (x # a, b)) (Cut c xs))"

definition digit_char :: "nat \<Rightarrow> char" where
  "digit_char n = char_of (48 + n)"

definition is_digit :: "char \<Rightarrow> bool" where
  "is_digit c \<longleftrightarrow> 48 \<le> (of_char c :: nat) \<and> (of_char c :: nat) \<le> 57"

definition digit_value :: "char \<Rightarrow> nat" where
  "digit_value c = of_char c - 48"

text \<open>\<open>%d\<close> of \<open>fmt\<close>.\<close>

fun FormatUint :: "nat \<Rightarrow> string" where
  "FormatUint n = (if n < 10 then [digit_char n] else FormatUint (n div 10) @ [digit_char (n mod 10)])"

declare FormatUint.simps [simp del]

definition decimal :: "string \<Rightarrow> nat" where
  "decimal s = foldl (\<lambda>n c. 10 * n + digit_value c) 0 s"

text \<open>\<open>strconv.ParseUint\<close> in base 10: digits only, at least one, and a value of the given size.\<close>

definition ParseUint :: "nat \<Rightarrow> string \<Rightarrow> nat option" where
  "ParseUint bits s = (if s \<noteq> [] \<and> list_all is_digit s \<and> decimal s < 2 ^ bits then Some (decimal s) else None)"

lemma digit_char_ok: "n < 10 \<Longrightarrow> is_digit (digit_char n)" "n < 10 \<Longrightarrow> digit_value (digit_char n) = n"
  by (simp_all add: is_digit_def digit_value_def digit_char_def)

lemma FormatUint_digits: "list_all is_digit (FormatUint n)" "FormatUint n \<noteq> []"
proof (induction n rule: FormatUint.induct)
  case (1 n)
  { case 1 then show ?case using "1.IH" digit_char_ok(1) by (auto simp: FormatUint.simps[of n]) }
  { case 2 then show ?case by (simp add: FormatUint.simps[of n]) }
qed

lemma decimal_FormatUint [simp]: "decimal (FormatUint n) = n"
proof (induction n rule: FormatUint.induct)
  case (1 n)
  then show ?case by (auto simp: FormatUint.simps[of n] decimal_def digit_char_ok(2))
qed

lemma ParseUint_FormatUint: "n < 2 ^ bits \<Longrightarrow> ParseUint bits (FormatUint n) = Some n"
  by (simp add: ParseUint_def FormatUint_digits)

lemma FormatUint_no_sep: "c \<in> set (FormatUint n) \<Longrightarrow> is_digit c"
  using FormatUint_digits(1)[of n] by (auto simp: list_all_iff)

lemma separators: "\<not> is_digit CHR '':''" "\<not> is_digit CHR ''-''" "\<not> is_digit CHR ''*''"
  by (simp_all add: is_digit_def)

lemma Cut_append: "c \<notin> set a \<Longrightarrow> Cut c (a @ c # b) = Some (a, b)"
  by (induction a) auto

lemma Cut_Some: "Cut c s = Some (a, b) \<Longrightarrow> s = a @ c # b \<and> c \<notin> set a"
  by (induction s arbitrary: a) (auto split: if_splits)

section \<open>Addresses of virtual sockets\<close>

definition vsockPrefix :: bytes where
  "vsockPrefix = [1, 0, 0, 0, 0, 0, 0, 0]"

definition VsockAddrPort :: "u32 \<Rightarrow> u32 \<Rightarrow> AddrPort" where
  "VsockAddrPort cid port = (vsockPrefix @ PutUint32 cid @ PutUint32 port, 0)"

text \<open>\<open>Is6\<close> holds of every 16-byte address.\<close>

definition VsockFromAddrPort :: "AddrPort \<Rightarrow> (u32 \<times> u32) option" where
  "VsockFromAddrPort ap =
     (if length (fst ap) \<noteq> 16 \<or> snd ap \<noteq> 0 then None
      else if take 8 (fst ap) \<noteq> vsockPrefix then None
      else Some (Uint32 (take 4 (drop 8 (fst ap))), Uint32 (take 4 (drop 12 (fst ap)))))"

text \<open>An address of a virtual socket is in plain form, and gives back the two numbers.\<close>

lemma vsock_roundtrip:
  "VsockFromAddrPort (VsockAddrPort cid port) = Some (cid, port)" "unmapAddrPort (VsockAddrPort cid port) = VsockAddrPort cid port"
  by (simp_all add: VsockFromAddrPort_def VsockAddrPort_def vsockPrefix_def unmapAddrPort_def Unmap_def numeral_eq_Suc)

datatype ident_error =
  BadFormat | BadVsock string | BadAddress string | BadPort string | LookupFailed | BadIP bytes | NoRandom | BadID string

definition parseVsockAddr :: "string \<Rightarrow> (ident_error, AddrPort) result" where
  "parseVsockAddr s =
     (case Cut CHR '':'' s of
        None \<Rightarrow> Inl (BadVsock s)
      | Some (cidStr, portStr) \<Rightarrow>
          (case ParseUint 32 cidStr of
             None \<Rightarrow> Inl (BadVsock cidStr)
           | Some cid \<Rightarrow>
               (case ParseUint 32 portStr of
                  None \<Rightarrow> Inl (BadVsock portStr)
                | Some port \<Rightarrow> Inr (VsockAddrPort (of_nat cid) (of_nat port)))))"

section \<open>Identifiers\<close>

text \<open>
  What the identifiers use of the network libraries: \<open>netip.AddrPort.String\<close>, \<open>netip.ParseAddrPort\<close>, \<open>net.LookupIP\<close>
  and \<open>randomUint16\<close>; \<open>None\<close> is an error.
\<close>

record netlib =
  AddrString :: "AddrPort \<Rightarrow> string"
  ParseAddrPort :: "string \<Rightarrow> AddrPort option"
  LookupIP :: "string \<Rightarrow> bytes list option"
  randomUint16 :: "u16 option"

definition NewConnectionID :: "string \<Rightarrow> AddrPort \<Rightarrow> u16 \<Rightarrow> ConnectionID" where
  "NewConnectionID transport addr i = \<lparr>Transport = transport, cid_Addr = addr, ID = i\<rparr>"

definition NewRandomConnectionID :: "netlib \<Rightarrow> string \<Rightarrow> AddrPort \<Rightarrow> (ident_error, ConnectionID) result" where
  "NewRandomConnectionID N transport addr =
     (case randomUint16 N of None \<Rightarrow> Inl NoRandom | Some i \<Rightarrow> Inr \<lparr>Transport = transport, cid_Addr = addr, ID = i\<rparr>)"

definition zeroConnectionID :: ConnectionID where
  "zeroConnectionID = \<lparr>Transport = [], cid_Addr = ([], 0), ID = 0\<rparr>"

abbreviation (input) TransportVsock :: string where "TransportVsock \<equiv> ''vsock''"

definition cid_String :: "netlib \<Rightarrow> ConnectionID \<Rightarrow> string" where
  "cid_String N c =
     (case (if Transport c = TransportVsock then VsockFromAddrPort (cid_Addr c) else None) of
        Some (cid, port) \<Rightarrow>
          Transport c @ '':'' @ FormatUint (unat cid) @ '':'' @ FormatUint (unat port) @ ''-'' @ FormatUint (unat (ID c))
      | None \<Rightarrow> Transport c @ '':'' @ AddrString N (cid_Addr c) @ ''-'' @ FormatUint (unat (ID c)))"

type_synonym ParseOption = int

definition ParseOption_AllowRandomID :: ParseOption where
  "ParseOption_AllowRandomID = 1"

definition ParseOption_ResolveAddr :: ParseOption where
  "ParseOption_ResolveAddr = 2"

definition opt_Has :: "ParseOption \<Rightarrow> ParseOption \<Rightarrow> bool" where
  "opt_Has o' flag \<longleftrightarrow> Bit_Operations.and o' flag \<noteq> 0"

text \<open>
  The address: the text of \<open>netip\<close>, or, when that fails and the option is set, a name and a port. When the lookup
  reports no error but no address either, \<open>ParseConnectionID\<close> returns the zero identifier without error:
  the inner sum.
\<close>

definition resolve_addr :: "netlib \<Rightarrow> string \<Rightarrow> (ident_error, AddrPort option) result" where
  "resolve_addr N addrStr =
     (case Cut CHR '':'' addrStr of
        None \<Rightarrow> Inl (BadAddress addrStr)
      | Some (host, portStr) \<Rightarrow>
          (case ParseUint 16 portStr of
             None \<Rightarrow> Inl (BadPort portStr)
           | Some port \<Rightarrow>
               (case LookupIP N host of
                  None \<Rightarrow> Inl LookupFailed
                | Some [] \<Rightarrow> Inr None
                | Some (ip # _) \<Rightarrow>
                    if length ip \<notin> {4, 16} then Inl (BadIP ip) else Inr (Some (ip, of_nat port)))))"

definition parse_addr :: "netlib \<Rightarrow> ParseOption \<Rightarrow> string \<Rightarrow> string \<Rightarrow> (ident_error, AddrPort option) result" where
  "parse_addr N opt transport addrStr =
     (if transport = TransportVsock then rbind (parseVsockAddr addrStr) (\<lambda>a. Inr (Some a))
      else case ParseAddrPort N addrStr of
        Some a \<Rightarrow> Inr (Some a)
      | None \<Rightarrow> if \<not> opt_Has opt ParseOption_ResolveAddr then Inl (BadAddress addrStr) else resolve_addr N addrStr)"

definition parse_id :: "netlib \<Rightarrow> ParseOption \<Rightarrow> string \<Rightarrow> (ident_error, u16) result" where
  "parse_id N opt idStr =
     (if idStr = ''*'' \<and> opt_Has opt ParseOption_AllowRandomID then case randomUint16 N of None \<Rightarrow> Inl NoRandom | Some i \<Rightarrow> Inr i
      else case ParseUint 16 idStr of None \<Rightarrow> Inl (BadID idStr) | Some i \<Rightarrow> Inr (of_nat i))"

definition ParseConnectionID :: "netlib \<Rightarrow> ParseOption \<Rightarrow> string \<Rightarrow> (ident_error, ConnectionID) result" where
  "ParseConnectionID N opt s =
     (case Cut CHR '':'' s of
        None \<Rightarrow> Inl BadFormat
      | Some (transport, rest) \<Rightarrow>
          (case Cut CHR ''-'' rest of
             None \<Rightarrow> Inl BadFormat
           | Some (addrStr, idStr) \<Rightarrow>
               rbind (parse_addr N opt transport addrStr) (\<lambda>a.
                 case a of
                   None \<Rightarrow> Inr zeroConnectionID
                 | Some addr \<Rightarrow>
                     rbind (parse_id N opt idStr) (\<lambda>i. Inr \<lparr>Transport = transport, cid_Addr = addr, ID = i\<rparr>))))"

definition UnmarshalText :: "netlib \<Rightarrow> string \<Rightarrow> (ident_error, ConnectionID) result" where
  "UnmarshalText N text = ParseConnectionID N 0 text"

text \<open>A nil pointer is written as a star.\<close>

definition MarshalText :: "netlib \<Rightarrow> ConnectionID option \<Rightarrow> string" where
  "MarshalText N v = (case v of None \<Rightarrow> ''*'' | Some c \<Rightarrow> cid_String N c)"

text \<open>\<open>MustParseConnectionID\<close> panics on an error: \<open>None\<close>.\<close>

definition MustParseConnectionID :: "netlib \<Rightarrow> string \<Rightarrow> ConnectionID option" where
  "MustParseConnectionID N s = (case ParseConnectionID N 0 s of Inl _ \<Rightarrow> None | Inr c \<Rightarrow> Some c)"

definition AppendString :: "netlib \<Rightarrow> ConnectionID \<Rightarrow> string \<Rightarrow> string" where
  "AppendString N c sb = sb @ cid_String N c"

definition FromArg :: "netlib \<Rightarrow> string \<Rightarrow> (ident_error, ConnectionID) result" where
  "FromArg N arg = UnmarshalText N arg"

section \<open>Text and back\<close>

text \<open>
  The identifiers that have a text: the transport has no colon, and the address is that of a virtual socket, or
  one that \<open>netip\<close> writes without a hyphen and reads back. A hyphen can only be in the zone of an IPv6 address.
\<close>

definition writable :: "netlib \<Rightarrow> ConnectionID \<Rightarrow> bool" where
  "writable N c \<longleftrightarrow> CHR '':'' \<notin> set (Transport c) \<and>
     (if Transport c = TransportVsock then \<exists>cid port. cid_Addr c = VsockAddrPort cid port
      else CHR ''-'' \<notin> set (AddrString N (cid_Addr c)) \<and> ParseAddrPort N (AddrString N (cid_Addr c)) = Some (cid_Addr c))"

lemma u16_lt: "unat (i :: u16) < 2 ^ 16"
proof -
  have "unat i < 2 ^ LENGTH(16)" by (rule unsigned_less)
  then show ?thesis by simp
qed

lemma u32_lt: "unat (i :: u32) < 2 ^ 32"
proof -
  have "unat i < 2 ^ LENGTH(32)" by (rule unsigned_less)
  then show ?thesis by simp
qed

lemma parse_id_FormatUint: "parse_id N opt (FormatUint (unat i)) = Inr i"
proof -
  have "FormatUint (unat i) \<noteq> ''*''" using FormatUint_no_sep[of "CHR ''*''" "unat i"] separators(3) by auto
  then show ?thesis using ParseUint_FormatUint[OF u16_lt] by (simp add: parse_id_def)
qed

lemma parse_cid_String:
  assumes "writable N c"
  shows "ParseConnectionID N opt (cid_String N c) = Inr c"
proof (cases "Transport c = TransportVsock")
  case True
  then obtain cid port where a: "cid_Addr c = VsockAddrPort cid port" using assms by (auto simp: writable_def)
  let ?n = "FormatUint (unat cid) @ '':'' @ FormatUint (unat port)"
  have no: "CHR '':'' \<notin> set (FormatUint k)" "CHR ''-'' \<notin> set (FormatUint k)" for k
    using FormatUint_no_sep separators by auto
  have s: "cid_String N c = TransportVsock @ CHR '':'' # ?n @ CHR ''-'' # FormatUint (unat (ID c))"
    using True by (simp add: cid_String_def a vsock_roundtrip)
  have "Cut CHR ''-'' (?n @ CHR ''-'' # FormatUint (unat (ID c))) = Some (?n, FormatUint (unat (ID c)))"
    by (rule Cut_append) (use no in auto)
  moreover have "Cut CHR '':'' ?n = Some (FormatUint (unat cid), FormatUint (unat port))"
    using Cut_append[OF no(1)] by simp
  ultimately show ?thesis
    using ParseUint_FormatUint[OF u32_lt] True a
    by (simp add: s ParseConnectionID_def Cut_append parse_addr_def parseVsockAddr_def parse_id_FormatUint)
next
  case False
  then have c: "CHR '':'' \<notin> set (Transport c)" "CHR ''-'' \<notin> set (AddrString N (cid_Addr c))"
    "ParseAddrPort N (AddrString N (cid_Addr c)) = Some (cid_Addr c)"
    using assms by (simp_all add: writable_def)
  have s: "cid_String N c = Transport c @ CHR '':'' # AddrString N (cid_Addr c) @ CHR ''-'' # FormatUint (unat (ID c))"
    using False by (simp add: cid_String_def)
  show ?thesis using False c(3)
    by (simp add: s ParseConnectionID_def Cut_append[OF c(1)] Cut_append[OF c(2)] parse_addr_def parse_id_FormatUint)
qed

lemma cid_String_inj: "writable N c \<Longrightarrow> writable N d \<Longrightarrow> cid_String N c = cid_String N d \<longleftrightarrow> c = d"
  using parse_cid_String[of N c 0] parse_cid_String[of N d 0] by (metis Inr_inject)

text \<open>
  What is known of \<open>net/netip\<close>: the text of an address that was read is read back as the address, and has no hyphen
  when the text it was read from has none.
\<close>

definition netip_text :: "netlib \<Rightarrow> bool" where
  "netip_text N \<longleftrightarrow> (\<forall>s a. ParseAddrPort N s = Some a \<longrightarrow> CHR ''-'' \<notin> set s \<longrightarrow>
     ParseAddrPort N (AddrString N a) = Some a \<and> CHR ''-'' \<notin> set (AddrString N a))"

lemma parseVsockAddr_Inr: "parseVsockAddr s = Inr a \<Longrightarrow> \<exists>cid port. a = VsockAddrPort cid port"
  unfolding parseVsockAddr_def by (simp split: option.splits prod.splits) blast

text \<open>Without resolution, what is accepted has a text.\<close>

lemma parsed_writable:
  assumes "netip_text N" and "\<not> opt_Has opt ParseOption_ResolveAddr" and "ParseConnectionID N opt s = Inr c"
  shows "writable N c"
proof -
  obtain tr rest a i where 1: "Cut CHR '':'' s = Some (tr, rest)" "Cut CHR ''-'' rest = Some (a, i)"
    using assms(3) by (auto simp: ParseConnectionID_def split: option.splits)
  have r: "rbind (parse_addr N opt tr a) (\<lambda>a. case a of None \<Rightarrow> Inr zeroConnectionID
      | Some addr \<Rightarrow> rbind (parse_id N opt i) (\<lambda>i. Inr \<lparr>Transport = tr, cid_Addr = addr, ID = i\<rparr>)) = Inr c"
    using assms(3) by (simp add: ParseConnectionID_def 1)
  have "parse_addr N opt tr a \<noteq> Inr None"
    using assms(2) by (auto simp: parse_addr_def rbind_Inr_iff split: option.splits sum.splits)
  then obtain addr where addr: "parse_addr N opt tr a = Inr (Some addr)" using r by (cases "parse_addr N opt tr a") auto
  then obtain n where 2: "parse_addr N opt tr a = Inr (Some addr)" "c = \<lparr>Transport = tr, cid_Addr = addr, ID = n\<rparr>"
    using r by (cases "parse_id N opt i") auto
  have no: "CHR '':'' \<notin> set tr" "CHR ''-'' \<notin> set a" using 1 Cut_Some by blast+
  show ?thesis
  proof (cases "tr = TransportVsock")
    case True
    then have "parseVsockAddr a = Inr addr" using 2 by (auto simp: parse_addr_def rbind_Inr_iff split: sum.splits)
    then show ?thesis using True no 2 parseVsockAddr_Inr by (auto simp: writable_def)
  next
    case False
    then have "ParseAddrPort N a = Some addr" using 2 assms(2) by (auto simp: parse_addr_def split: option.splits)
    then have "ParseAddrPort N (AddrString N addr) = Some addr" "CHR ''-'' \<notin> set (AddrString N addr)"
      using assms(1) no(2) unfolding netip_text_def by blast+
    then show ?thesis using False no 2 by (simp add: writable_def)
  qed
qed

section \<open>Properties\<close>

text \<open>
  C16: identifiers survive their text form. Whatever the options, parsing what \<open>String\<close> writes of an
  identifier gives the identifier, for virtual sockets and for addresses that \<open>netip\<close> reads back, and every text that
  \<open>UnmarshalText\<close> accepts gives such an identifier. So different identifiers have different texts, and a proxy,
  which compares texts, takes exactly the packets of its two ends, each to the other.
\<close>

theorem identifier_text:
  assumes "writable N c" and "writable N (peer1 p)" and "writable N (peer2 p)" and "peer1 p \<noteq> peer2 p" and "netip_text N"
  shows "(\<forall>s d. UnmarshalText N s = Inr d \<longrightarrow> writable N d \<and> UnmarshalText N (MarshalText N (Some d)) = Inr d) \<and>
    ParseConnectionID N opt (cid_String N c) = Inr c \<and> UnmarshalText N (MarshalText N (Some c)) = Inr c \<and>
    MustParseConnectionID N (cid_String N c) = Some c \<and>
    getPeer (cid_String N) p c = (if c = peer1 p then Some (peer2 p) else if c = peer2 p then Some (peer1 p) else None)"
proof (intro conjI)
  have "writable N d" if "UnmarshalText N s = Inr d" for s d
    using parsed_writable[OF assms(5), of 0] that by (simp add: UnmarshalText_def opt_Has_def)
  then show "\<forall>s d. UnmarshalText N s = Inr d \<longrightarrow> writable N d \<and> UnmarshalText N (MarshalText N (Some d)) = Inr d"
    by (simp add: UnmarshalText_def MarshalText_def parse_cid_String)
  show "getPeer (cid_String N) p c = (if c = peer1 p then Some (peer2 p) else if c = peer2 p then Some (peer1 p) else None)"
    unfolding getPeer_def cid_String_inj[OF assms(2,1)] cid_String_inj[OF assms(3,1)] using assms(4) by auto
qed (simp_all add: parse_cid_String[OF assms(1)] UnmarshalText_def MarshalText_def MustParseConnectionID_def)

definition sampleNet :: netlib where
  "sampleNet = \<lparr>AddrString = \<lambda>a. if a = sampleServer then ''10.0.0.1:9'' else ''10.0.0.2:8'',
     ParseAddrPort = \<lambda>s. if s = ''10.0.0.1:9'' then Some sampleServer else if s = ''10.0.0.2:8'' then Some sampleClient else None,
     LookupIP = \<lambda>_. None, randomUint16 = None\<rparr>"

lemma digits: "digit_char 0 = CHR ''0''" "digit_char 3 = CHR ''3''" "digit_char 5 = CHR ''5''" "digit_char 6 = CHR ''6''" "digit_char 7 = CHR ''7''"
  by code_simp+

theorem identifier_text_witness:
  "cid_String sampleNet (NewConnectionID TransportVsock (VsockAddrPort 3 70000) 65535) = ''vsock:3:70000-65535'' \<and>
   ParseConnectionID sampleNet 0 ''vsock:3:70000-65535'' = Inr (NewConnectionID TransportVsock (VsockAddrPort 3 70000) 65535) \<and>
   getPeer (cid_String sampleNet) \<lparr>peer1 = NewConnectionID ''udp'' sampleServer 7, peer2 = NewConnectionID ''udp'' sampleClient 7, lastUsed = 0\<rparr>
     (NewConnectionID TransportVsock (VsockAddrPort 3 70000) 65535) = None"
proof -
  let ?c = "NewConnectionID TransportVsock (VsockAddrPort 3 70000) 65535"
  let ?p = "\<lparr>peer1 = NewConnectionID ''udp'' sampleServer 7, peer2 = NewConnectionID ''udp'' sampleClient 7, lastUsed = 0\<rparr>"
  have "sampleClient \<noteq> sampleServer" by (simp add: sampleClient_def sampleServer_def)
  then have w: "writable sampleNet ?c" "writable sampleNet (peer1 ?p)" "writable sampleNet (peer2 ?p)" "peer1 ?p \<noteq> peer2 ?p" "netip_text sampleNet"
    by (auto simp: writable_def NewConnectionID_def sampleNet_def netip_text_def)
  have s: "cid_String sampleNet ?c = ''vsock:3:70000-65535''"
    by (simp add: cid_String_def NewConnectionID_def vsock_roundtrip FormatUint.simps digits)
  have "?c \<noteq> peer1 ?p" "?c \<noteq> peer2 ?p" by (simp_all add: NewConnectionID_def)
  then show ?thesis using identifier_text[OF w, of 0] s by simp
qed

text \<open>The text of a nil pointer is not read back.\<close>

lemma nil_text_unread: "UnmarshalText N (MarshalText N None) = Inl BadFormat"
  by (simp add: UnmarshalText_def MarshalText_def ParseConnectionID_def)

end
