(* ===== verification/Transport_Leg.thy ===== *)
theory Transport_Leg
  imports Codec_Io Obj_Endpoint
begin

text \<open>
  The transports (\<open>transport/stream.go\<close>, \<open>multileg.go\<close>, \<open>underlay_close.go\<close>, \<open>udp.go\<close>, \<open>websocket.go\<close>,
  \<open>mock.go\<close>): the loops between the sockets and the endpoint. A socket is a number, the bytes written to it
  are kept, and what a call on it returns is an argument of the step that makes the call: \<open>None\<close> for a
  \<open>Write\<close> that takes everything, \<open>Some k\<close> for one that fails after \<open>k\<close> bytes. The goroutines of a leg are
  steps: one for an accepted stream, one for a packet of the send loop, one for a dial that comes back, one
  for a packet read and one for a stream that ends.
\<close>

section \<open>Packets in a stream of bytes\<close>

definition packetHeaderLen :: nat where
  "packetHeaderLen = (case ObjHeader_Append ObjHeader_zero [] of Inl _ \<Rightarrow> 0 | Inr b \<Rightarrow> length b)"

definition readPacket :: "(reader, bytes) io" where
  "readPacket = io_bind (read_full packetHeaderLen) (\<lambda>hdr.
     case ObjHeader_DecodeSlice ObjHeader_zero hdr 0 of
       Inl e \<Rightarrow> io_fail e
     | Inr (h, _) \<Rightarrow> (\<lambda>r.
         (case read_full (unat (oh_Len h)) r of
            (Inl e, r) \<Rightarrow> (Inl (if e = IoEOF then IoUnexpectedEOF else e), r)
          | (Inr body, r) \<Rightarrow> (Inr (hdr @ body), r))))"

lemma packetHeaderLen_eq [simp]: "packetHeaderLen = 6"
  by (simp add: packetHeaderLen_def ObjHeader_Append_def Let_def)

lemma readPacket_consumes: "readPacket r = (Inr d, r') \<Longrightarrow> length (src r') < length (src r)"
  by (auto simp: readPacket_def io_bind_def io_fail_def read_full_def split: sum.splits if_splits)

text \<open>All packets of a stream up to the error that ends it.\<close>

function read_packets :: "reader \<Rightarrow> bytes list \<times> wire_error" where
  "read_packets r =
     (case readPacket r of
        (Inl e, _) \<Rightarrow> ([], e)
      | (Inr d, r') \<Rightarrow> (d # fst (read_packets r'), snd (read_packets r')))"
  by auto
termination by (relation "measure (\<lambda>r. length (src r))") (auto dest: readPacket_consumes sym)

declare read_packets.simps [simp del]

section \<open>Ending what rode a dead socket\<close>

text \<open>The first argument is the order in which the keys of the table are visited.\<close>

definition ListActiveConnections :: "ConnectionID list \<Rightarrow> endpoint \<Rightarrow> nat list" where
  "ListActiveConnections order s = List.map_filter (activeConnections s) order"

definition close_if_at :: "AddrPort \<Rightarrow> nat \<Rightarrow> endpoint \<Rightarrow> endpoint" where
  "close_if_at want c s =
     (case conns s c of
        None \<Rightarrow> s
      | Some a \<Rightarrow> if unmapAddrPort (cid_Addr (ac_cid a)) \<noteq> want then s else ac_Close c s)"

definition CloseConnectionsAt :: "ConnectionID list \<Rightarrow> AddrPort \<Rightarrow> endpoint \<Rightarrow> endpoint" where
  "CloseConnectionsAt order addr s = fold (close_if_at (unmapAddrPort addr)) (ListActiveConnections order s) s"

definition CannotSend :: "PacketData \<Rightarrow> endpoint \<Rightarrow> endpoint" where
  "CannotSend pkt s = closeCannotSend pkt s"

section \<open>The stream leg\<close>

datatype leg_error =
  TransportRequired | ListenerNotAllowed | ListenerRequired | AddrOfRequired |
  MuxNotAllowed | MuxRequired | NoLegs | TwoLegs string | StartFailed

text \<open>Of the functions and the listener in the configuration the checks only see whether they are there.\<close>

record StreamConfig =
  sc_Transport :: string
  sc_Dial :: bool
  sc_Listener :: bool
  sc_AddrOf :: bool

text \<open>The checks of \<open>StreamEndpointEx\<close>; the result is the configuration that its loops run with.\<close>

definition StreamEndpointEx :: "EndpointMode \<Rightarrow> StreamConfig \<Rightarrow> (leg_error, StreamConfig) result" where
  "StreamEndpointEx mode cfg =
     (if sc_Transport cfg = '''' then Inl TransportRequired
      else
        rbind (case mode of
                 EndpointModeClient \<Rightarrow> if sc_Listener cfg then Inl ListenerNotAllowed else Inr cfg
               | EndpointModeServer \<Rightarrow> if \<not> sc_Listener cfg then Inl ListenerRequired else Inr (cfg\<lparr>sc_Dial := False\<rparr>)
               | EndpointModeMutual \<Rightarrow> Inr cfg) (\<lambda>cfg.
          if sc_Listener cfg \<and> \<not> sc_AddrOf cfg then Inl AddrOfRequired else Inr cfg))"

type_synonym streamConns = "AddrPort \<rightharpoonup> nat"

definition streamConns_get :: "streamConns \<Rightarrow> AddrPort \<Rightarrow> nat option" where
  "streamConns_get m addr = m addr"

definition streamConns_set :: "AddrPort \<Rightarrow> nat \<Rightarrow> streamConns \<Rightarrow> streamConns" where
  "streamConns_set addr c m = m(addr \<mapsto> c)"

definition streamConns_remove :: "AddrPort \<Rightarrow> nat \<Rightarrow> streamConns \<Rightarrow> streamConns" where
  "streamConns_remove addr c m = (if m addr = Some c then m(addr := None) else m)"

text \<open>
  The state of a leg: the table of streams, the packets whose dial is under way, the streams with a receive
  loop and the address it was started with, the number of the next stream, the bytes written to each stream
  and the streams that were closed.
\<close>

record leg =
  lg_conns :: streamConns
  lg_dialing :: "PacketData list"
  lg_recv :: "(nat \<times> AddrPort) set"
  lg_next :: nat
  lg_out :: "nat \<Rightarrow> bytes"
  lg_closed :: "nat set"

definition new_leg :: leg where
  "new_leg = \<lparr>lg_conns = Map.empty, lg_dialing = [], lg_recv = {}, lg_next = 0, lg_out = (\<lambda>_. []), lg_closed = {}\<rparr>"

definition conn_Write :: "nat \<Rightarrow> bytes \<Rightarrow> nat option \<Rightarrow> leg \<Rightarrow> leg" where
  "conn_Write c data w l =
     l\<lparr>lg_out := (lg_out l)(c := lg_out l c @ (case w of None \<Rightarrow> data | Some k \<Rightarrow> take k data))\<rparr>"

definition conn_Close :: "nat \<Rightarrow> leg \<Rightarrow> leg" where
  "conn_Close c l = l\<lparr>lg_closed := insert c (lg_closed l)\<rparr>"

text \<open>A stream is accepted; the argument is what \<open>AddrOf\<close> says of it.\<close>

definition stream_accept :: "AddrPort option \<Rightarrow> leg \<Rightarrow> leg" where
  "stream_accept addrOf l =
     (let c = lg_next l; l = l\<lparr>lg_next := c + 1\<rparr> in
      case addrOf of
        None \<Rightarrow> conn_Close c l
      | Some addr \<Rightarrow> l\<lparr>lg_conns := streamConns_set addr c (lg_conns l), lg_recv := insert (c, addr) (lg_recv l)\<rparr>)"

text \<open>One packet of the send loop.\<close>

definition stream_send :: "StreamConfig \<Rightarrow> nat option \<Rightarrow> PacketData \<Rightarrow> leg \<times> endpoint \<Rightarrow> leg \<times> endpoint" where
  "stream_send cfg w pkt = (\<lambda>(l, s).
     if Transport (pd_To pkt) \<noteq> sc_Transport cfg then (l, CannotSend pkt s)
     else case streamConns_get (lg_conns l) (cid_Addr (pd_To pkt)) of
       None \<Rightarrow>
         if pd_Kind pkt = PacketKind_Handshake \<and> sc_Dial cfg
         then (l\<lparr>lg_dialing := lg_dialing l @ [pkt]\<rparr>, s) else (l, CannotSend pkt s)
     | Some c \<Rightarrow>
         let l = conn_Write c (pd_Data pkt) w l in
         if w \<noteq> None
         then (conn_Close c (l\<lparr>lg_conns := streamConns_remove (cid_Addr (pd_To pkt)) c (lg_conns l)\<rparr>), CannotSend pkt s)
         else (l, s))"

text \<open>The dial for a packet comes back, with a stream or not.\<close>

definition stream_dialed :: "bool \<Rightarrow> nat option \<Rightarrow> PacketData \<Rightarrow> leg \<times> endpoint \<Rightarrow> leg \<times> endpoint" where
  "stream_dialed dialed w pkt = (\<lambda>(l, s).
     let l = l\<lparr>lg_dialing := remove1 pkt (lg_dialing l)\<rparr> in
     if \<not> dialed then (l, CannotSend pkt s)
     else
       let c = lg_next l; addr = cid_Addr (pd_To pkt); l = conn_Write c (pd_Data pkt) w (l\<lparr>lg_next := c + 1\<rparr>) in
       if w \<noteq> None then (conn_Close c l, CannotSend pkt s)
       else (l\<lparr>lg_conns := streamConns_set addr c (lg_conns l), lg_recv := insert (c, addr) (lg_recv l)\<rparr>, s))"

text \<open>The receive loop of a stream, over all the bytes that the stream will give.\<close>

definition recv_end :: "ConnectionID list \<Rightarrow> nat \<Rightarrow> AddrPort \<Rightarrow> leg \<times> endpoint \<Rightarrow> leg \<times> endpoint" where
  "recv_end order c addr = (\<lambda>(l, s).
     (conn_Close c (l\<lparr>lg_conns := streamConns_remove addr c (lg_conns l), lg_recv := lg_recv l - {(c, addr)}\<rparr>),
      CloseConnectionsAt order addr s))"

record net_env =
  ne_key :: "nat \<Rightarrow> bytes"
  ne_rnd :: "nat \<Rightarrow> u8"
  ne_now :: "nat \<Rightarrow> time"

text \<open>\<open>Receive\<close> of the \<open>i\<close>-th packet, with the random bytes and the time of that moment.\<close>

definition receive_nth ::
  "(ConnectionID \<Rightarrow> string) \<Rightarrow> ecdh \<Rightarrow> crypto \<Rightarrow> net_env \<Rightarrow> string \<Rightarrow> AddrPort \<Rightarrow> nat \<Rightarrow> bytes \<Rightarrow> endpoint \<Rightarrow> endpoint" where
  "receive_nth str E C env tr addr i data s =
     snd (Receive str E C (ne_key env i) (ne_rnd env i) (ne_now env i) tr addr data s)"

function stream_recv ::
  "(ConnectionID \<Rightarrow> string) \<Rightarrow> ecdh \<Rightarrow> crypto \<Rightarrow> net_env \<Rightarrow> StreamConfig \<Rightarrow> ConnectionID list \<Rightarrow> nat \<Rightarrow> AddrPort \<Rightarrow> nat \<Rightarrow> reader \<Rightarrow>
     leg \<times> endpoint \<Rightarrow> leg \<times> endpoint" where
  "stream_recv str E C env cfg order c addr i r ls =
     (case readPacket r of
        (Inl e, _) \<Rightarrow> recv_end order c addr ls
      | (Inr data, r') \<Rightarrow>
          stream_recv str E C env cfg order c addr (i + 1) r'
            (fst ls, receive_nth str E C env (sc_Transport cfg) addr i data (snd ls)))"
  by auto
termination
  by (relation "measure (\<lambda>(_, _, _, _, _, _, _, _, _, r, _). length (src r))") (auto dest: readPacket_consumes sym)

declare stream_recv.simps [simp del]

section \<open>The datagram leg\<close>

datatype send_result = Sent | TooBig | SendFailed

definition udp_send :: "send_result \<Rightarrow> PacketData \<Rightarrow> (ConnectionID \<times> bytes) list \<times> endpoint \<Rightarrow> (ConnectionID \<times> bytes) list \<times> endpoint" where
  "udp_send res pkt = (\<lambda>(out, s).
     if Transport (pd_To pkt) \<noteq> ''udp'' then (out, s)
     else case res of
       Sent \<Rightarrow> (out @ [(pd_To pkt, pd_Data pkt)], s)
     | TooBig \<Rightarrow> (out, s)
     | SendFailed \<Rightarrow> (out, CannotSend pkt s))"

text \<open>One datagram of \<open>readLoop\<close>: \<open>netip.AddrFromSlice\<close> takes 4 or 16 bytes.\<close>

definition udp_recv ::
  "(ConnectionID \<Rightarrow> string) \<Rightarrow> ecdh \<Rightarrow> crypto \<Rightarrow> net_env \<Rightarrow> nat \<Rightarrow> AddrPort \<Rightarrow> bytes \<Rightarrow> endpoint \<Rightarrow> endpoint" where
  "udp_recv str E C env i from data s =
     (if length (fst from) \<notin> {4, 16} then s
      else receive_nth str E C env ''udp'' (Unmap (fst from), snd from) i data s)"

section \<open>The WebSocket leg\<close>

text \<open>The check of \<open>WebSocketEndpointEx\<close>: the mode is one of the three, the second argument whether there is a mux.\<close>

definition WebSocketEndpointEx :: "EndpointMode \<Rightarrow> bool \<Rightarrow> (leg_error, unit) result" where
  "WebSocketEndpointEx mode mux =
     (if mode = EndpointModeClient \<and> mux then Inl MuxNotAllowed
      else if mode = EndpointModeServer \<and> \<not> mux then Inl MuxRequired else Inr ())"

record wsConn =
  ws_remoteAddr :: AddrPort
  ws_transport :: string

record wsLeg =
  wl_connMap :: "AddrPort \<rightharpoonup> nat"
  wl_conns :: "nat \<Rightarrow> wsConn option"
  wl_next :: nat
  wl_dialing :: "PacketData list"
  wl_sent :: "(nat \<times> bytes) list"
  wl_receiving :: "nat list"

definition connectionMap_Get :: "(AddrPort \<rightharpoonup> nat) \<Rightarrow> AddrPort \<Rightarrow> nat option" where
  "connectionMap_Get m addr = m addr"

definition connectionMap_Set :: "AddrPort \<Rightarrow> nat \<Rightarrow> (AddrPort \<rightharpoonup> nat) \<Rightarrow> (AddrPort \<rightharpoonup> nat)" where
  "connectionMap_Set addr c m = m(addr \<mapsto> c)"

definition connectionMap_Delete :: "AddrPort \<Rightarrow> (AddrPort \<rightharpoonup> nat) \<Rightarrow> (AddrPort \<rightharpoonup> nat)" where
  "connectionMap_Delete addr m = m(addr := None)"

definition newWebSocketConn :: "AddrPort \<Rightarrow> string \<Rightarrow> wsLeg \<Rightarrow> nat \<times> wsLeg" where
  "newWebSocketConn addr tr l =
     (wl_next l, l\<lparr>wl_conns := (wl_conns l)(wl_next l \<mapsto> \<lparr>ws_remoteAddr = addr, ws_transport = tr\<rparr>), wl_next := wl_next l + 1\<rparr>)"

text \<open>The accept handler: the remote address, if it parses, and whether the request came over TLS.\<close>

definition ws_accept :: "AddrPort option \<Rightarrow> bool \<Rightarrow> wsLeg \<Rightarrow> wsLeg" where
  "ws_accept remote tls l =
     (case remote of
        None \<Rightarrow> l
      | Some addr \<Rightarrow>
          let (c, l) = newWebSocketConn addr (if tls then ''wss'' else ''ws'') l in
          l\<lparr>wl_connMap := connectionMap_Set addr c (wl_connMap l), wl_receiving := wl_receiving l @ [c]\<rparr>)"

text \<open>One packet of the send loop; the first argument is whether \<open>Send\<close> succeeds.\<close>

definition ws_send :: "bool \<Rightarrow> PacketData \<Rightarrow> wsLeg \<times> endpoint \<Rightarrow> wsLeg \<times> endpoint" where
  "ws_send sent pkt = (\<lambda>(l, s).
     case connectionMap_Get (wl_connMap l) (cid_Addr (pd_To pkt)) of
       None \<Rightarrow>
         if pd_Kind pkt = PacketKind_Handshake then (l\<lparr>wl_dialing := wl_dialing l @ [pkt]\<rparr>, s)
         else (l, CannotSend pkt s)
     | Some c \<Rightarrow>
         if sent then (l\<lparr>wl_sent := wl_sent l @ [(c, pd_Data pkt)]\<rparr>, s)
         else (l\<lparr>wl_connMap := connectionMap_Delete (cid_Addr (pd_To pkt)) (wl_connMap l)\<rparr>, CannotSend pkt s))"

text \<open>The dial for a packet: whether there is a TLS configuration, whether the dial and the first \<open>Send\<close> succeed.\<close>

definition ws_dialed :: "bool \<Rightarrow> bool \<Rightarrow> bool \<Rightarrow> PacketData \<Rightarrow> wsLeg \<times> endpoint \<Rightarrow> wsLeg \<times> endpoint" where
  "ws_dialed tlsConf dialed sent pkt = (\<lambda>(l, s).
     let l = l\<lparr>wl_dialing := remove1 pkt (wl_dialing l)\<rparr>; addr = cid_Addr (pd_To pkt) in
     if Transport (pd_To pkt) = ''wss'' \<and> \<not> tlsConf then (l, CannotSend pkt s)
     else if \<not> dialed then (l, CannotSend pkt s)
     else
       let (c, l) = newWebSocketConn addr (if Transport (pd_To pkt) = ''wss'' then ''wss'' else ''ws'') l;
           l = l\<lparr>wl_connMap := connectionMap_Set addr c (wl_connMap l)\<rparr> in
       if \<not> sent then (l\<lparr>wl_connMap := connectionMap_Delete addr (wl_connMap l)\<rparr>, CannotSend pkt s)
       else (l\<lparr>wl_sent := wl_sent l @ [(c, pd_Data pkt)], wl_receiving := wl_receiving l @ [c]\<rparr>, s))"

text \<open>One turn of the receive loop of a connection: a message, or the error that ends it.\<close>

definition ws_recv ::
  "(ConnectionID \<Rightarrow> string) \<Rightarrow> ecdh \<Rightarrow> crypto \<Rightarrow> net_env \<Rightarrow> ConnectionID list \<Rightarrow> nat \<Rightarrow> nat \<Rightarrow> bytes option \<Rightarrow>
     wsLeg \<times> endpoint \<Rightarrow> wsLeg \<times> endpoint" where
  "ws_recv str E C env order i c msg = (\<lambda>(l, s).
     case wl_conns l c of
       None \<Rightarrow> (l, s)
     | Some conn \<Rightarrow>
         (case msg of
            None \<Rightarrow>
              (l\<lparr>wl_connMap := connectionMap_Delete (ws_remoteAddr conn) (wl_connMap l), wl_receiving := removeAll c (wl_receiving l)\<rparr>,
               CloseConnectionsAt order (ws_remoteAddr conn) s)
          | Some recv \<Rightarrow> (l, receive_nth str E C env (ws_transport conn) (ws_remoteAddr conn) i recv s)))"

section \<open>Several legs\<close>

text \<open>A leg: its transports, and what \<open>start\<close> returns.\<close>

record Leg =
  transports :: "string list"
  start :: "EndpointMode \<Rightarrow> (leg_error, unit) result"

definition UDPLeg :: "bool \<Rightarrow> Leg" where
  "UDPLeg listens = \<lparr>transports = [''udp''], start = \<lambda>_. if listens then Inr () else Inl StartFailed\<rparr>"

definition WebSocketLeg :: "bool \<Rightarrow> Leg" where
  "WebSocketLeg mux = \<lparr>transports = [''ws'', ''wss''], start = \<lambda>mode. WebSocketEndpointEx mode mux\<rparr>"

definition StreamLeg :: "StreamConfig \<Rightarrow> Leg" where
  "StreamLeg cfg = \<lparr>transports = [sc_Transport cfg], start = \<lambda>mode. rbind (StreamEndpointEx mode cfg) (\<lambda>_. Inr ())\<rparr>"

text \<open>The vsock leg: the port to listen on and whether that works.\<close>

definition VsockLeg :: "u32 \<Rightarrow> bool \<Rightarrow> Leg" where
  "VsockLeg listenPort listens =
     \<lparr>transports = [''vsock''],
      start = \<lambda>mode.
        if listenPort \<noteq> 0 \<and> \<not> listens then Inl StartFailed
        else rbind (StreamEndpointEx mode \<lparr>sc_Transport = ''vsock'', sc_Dial = True, sc_Listener = listenPort \<noteq> 0, sc_AddrOf = True\<rparr>)
               (\<lambda>_. Inr ())\<rparr>"

fun add_routes :: "nat \<Rightarrow> string list \<Rightarrow> (string \<rightharpoonup> nat) \<Rightarrow> (leg_error, string \<rightharpoonup> nat) result" where
  "add_routes ch [] routes = Inr routes"
| "add_routes ch (t # ts) routes =
     (if routes t \<noteq> None then Inl (TwoLegs t) else add_routes ch ts (routes(t \<mapsto> ch)))"

text \<open>The loop over the legs; a leg's channel is its place in the list.\<close>

fun start_legs :: "EndpointMode \<Rightarrow> nat \<Rightarrow> Leg list \<Rightarrow> (string \<rightharpoonup> nat) \<Rightarrow> (leg_error, string \<rightharpoonup> nat) result" where
  "start_legs mode ch [] routes = Inr routes"
| "start_legs mode ch (leg # legs) routes =
     rbind (add_routes ch (transports leg) routes) (\<lambda>routes.
     rbind (start leg mode) (\<lambda>_. start_legs mode (ch + 1) legs routes))"

definition MultiLegEndpoint :: "EndpointMode \<Rightarrow> Leg list \<Rightarrow> (leg_error, (string \<rightharpoonup> nat) \<times> endpoint) result" where
  "MultiLegEndpoint mode legs =
     (if length legs = 0 then Inl NoLegs
      else rbind (start_legs mode 0 legs Map.empty) (\<lambda>routes. Inr (routes, NewEndpoint mode)))"

definition UDPWebsocketDualStackEndpoint :: "EndpointMode \<Rightarrow> bool \<Rightarrow> bool \<Rightarrow> (leg_error, (string \<rightharpoonup> nat) \<times> endpoint) result" where
  "UDPWebsocketDualStackEndpoint mode listens mux = MultiLegEndpoint mode [UDPLeg listens, WebSocketLeg mux]"

text \<open>The packets of the sender channel go to the channels of the legs.\<close>

fun fanOutByTransport ::
  "(string \<rightharpoonup> nat) \<Rightarrow> PacketData list \<Rightarrow> (nat \<Rightarrow> PacketData list) \<times> endpoint \<Rightarrow> (nat \<Rightarrow> PacketData list) \<times> endpoint" where
  "fanOutByTransport routes [] qs = qs"
| "fanOutByTransport routes (pkt # pkts) (q, s) =
     (case routes (Transport (pd_To pkt)) of
        Some dst \<Rightarrow> fanOutByTransport routes pkts (q(dst := q dst @ [pkt]), s)
      | None \<Rightarrow> fanOutByTransport routes pkts (q, CannotSend pkt s))"

section \<open>The pipe in memory\<close>

text \<open>A packet of one endpoint is received by the other, from the address it was sent to.\<close>

definition pipe_step ::
  "(ConnectionID \<Rightarrow> string) \<Rightarrow> ecdh \<Rightarrow> crypto \<Rightarrow> net_env \<Rightarrow> nat \<Rightarrow> PacketData \<Rightarrow> endpoint \<Rightarrow> endpoint" where
  "pipe_step str E C env i pkt peer =
     receive_nth str E C env (Transport (pd_To pkt)) (cid_Addr (pd_To pkt)) i (pd_Data pkt) peer"

end
