(* ===== verification/Obj_Auto.thy ===== *)
theory Obj_Auto
  imports Transport_Leg Obj_Endpoint_Props
begin

text \<open>
  What runs around an endpoint (\<open>objproto/session.go\<close>, \<open>DoECDHHandshake\<close> of \<open>objproto/crypto.go\<close>): the wait for an answer
  with its retransmissions, the loops that update keys and answer probes, and the listings. A wait is a relation
  because \<open>select\<close> may take any of the cases that are ready at the same moment; times are counted from the
  start of the wait, and \<open>onTick\<close> takes no time.
\<close>

section \<open>Waiting for an answer\<close>

datatype wait_error = ErrChannelClosed | ErrTimeout

text \<open>What the channel will deliver: when, and the value, or \<open>None\<close> for a channel that is closed.\<close>

type_synonym 'a arrival = "(duration \<times> 'a option) option"

definition not_before :: "duration \<Rightarrow> 'a arrival \<Rightarrow> bool" where
  "not_before t C \<longleftrightarrow> (case C of None \<Rightarrow> True | Some (u, _) \<Rightarrow> t \<le> u)"

text \<open>
  \<open>until\<close> is the moment at which \<open>timeoutCtx\<close> is done: the timeout or an earlier end of the caller's context. \<open>next\<close> is
  when the timer fires; the list holds the moments at which \<open>onTick\<close> runs.
\<close>

inductive wait_loop ::
  "'a arrival \<Rightarrow> duration \<Rightarrow> duration \<Rightarrow> duration \<Rightarrow> duration list \<Rightarrow> (wait_error, 'a) result \<Rightarrow> bool" for C until where
  answer: "C = Some (t, Some v) \<Longrightarrow> t \<le> until \<Longrightarrow> t \<le> next \<Longrightarrow> wait_loop C until next delay [] (Inr v)"
| closed: "C = Some (t, None) \<Longrightarrow> t \<le> until \<Longrightarrow> t \<le> next \<Longrightarrow> wait_loop C until next delay [] (Inl ErrChannelClosed)"
| timeout: "not_before until C \<Longrightarrow> until \<le> next \<Longrightarrow> wait_loop C until next delay [] (Inl ErrTimeout)"
| tick: "not_before next C \<Longrightarrow> next \<le> until \<Longrightarrow> wait_loop C until (next + delay * 2) (delay * 2) ts out \<Longrightarrow>
    wait_loop C until next delay (next # ts) out"

inductive wait_once :: "'a arrival \<Rightarrow> duration \<Rightarrow> (wait_error, 'a) result \<Rightarrow> bool" for C until where
  once_answer: "C = Some (t, Some v) \<Longrightarrow> t \<le> until \<Longrightarrow> wait_once C until (Inr v)"
| once_closed: "C = Some (t, None) \<Longrightarrow> t \<le> until \<Longrightarrow> wait_once C until (Inl ErrChannelClosed)"
| once_timeout: "not_before until C \<Longrightarrow> wait_once C until (Inl ErrTimeout)"

record ChanWithTimeout =
  cw_onTick :: bool
  cw_tickAfter :: duration

definition WaitWithTimeout ::
  "ChanWithTimeout \<Rightarrow> 'a arrival \<Rightarrow> duration \<Rightarrow> duration list \<Rightarrow> (wait_error, 'a) result \<Rightarrow> bool" where
  "WaitWithTimeout c C until ts out \<longleftrightarrow>
     (if \<not> cw_onTick c \<or> cw_tickAfter c \<le> 0 then ts = [] \<and> wait_once C until out
      else wait_loop C until (cw_tickAfter c) (cw_tickAfter c) ts out)"

abbreviation (input) initialHandshakeRetransmit :: duration where "initialHandshakeRetransmit \<equiv> 333 * Millisecond"

text \<open>The channel that \<open>sendHandshake\<close> returns.\<close>

definition handshake_chan :: ChanWithTimeout where
  "handshake_chan = \<lparr>cw_onTick = True, cw_tickAfter = initialHandshakeRetransmit\<rparr>"

text \<open>\<open>DoECDHHandshake\<close> up to the wait, and the wait: at most ten seconds, less when the context ends before.\<close>

definition dial ::
  "ecdh \<Rightarrow> bytes \<Rightarrow> u8 \<Rightarrow> time \<Rightarrow> ConnectionID \<Rightarrow> curve \<Rightarrow> CommonKeyKind \<Rightarrow> endpoint \<Rightarrow> (endpoint_error, nat) result \<times> endpoint" where
  "dial E rndKey rnd now cid curve ckind s =
     (case NewECDHHandshake E rndKey curve ckind of
        Inl e \<Rightarrow> (Inl e, s)
      | Inr (priv, probe) \<Rightarrow> SendHandshake rnd now cid priv probe s)"

definition DoECDHHandshake ::
  "ecdh \<Rightarrow> bytes \<Rightarrow> u8 \<Rightarrow> time \<Rightarrow> ConnectionID \<Rightarrow> curve \<Rightarrow> CommonKeyKind \<Rightarrow> nat arrival \<Rightarrow> duration \<Rightarrow> endpoint \<Rightarrow>
     duration list \<Rightarrow> (endpoint_error + wait_error, nat) result \<Rightarrow> bool" where
  "DoECDHHandshake E rndKey rnd now cid curve ckind C ctx s ts out \<longleftrightarrow>
     (case fst (dial E rndKey rnd now cid curve ckind s) of
        Inl e \<Rightarrow> ts = [] \<and> out = Inl (Inl e)
      | Inr ch \<Rightarrow> (\<exists>r. WaitWithTimeout handshake_chan C (min ctx (10 * Second)) ts r \<and>
                     out = (case r of Inl e \<Rightarrow> Inl (Inr e) | Inr c \<Rightarrow> Inr c)))"

section \<open>Updating keys\<close>

definition ac_UpdateKey :: "crypto \<Rightarrow> u8 \<Rightarrow> time \<Rightarrow> nat \<Rightarrow> endpoint \<Rightarrow> (endpoint_error, unit) result \<times> endpoint" where
  "ac_UpdateKey C rnd now c s =
     (case conns s c of
        None \<Rightarrow> (Inl NoConnection, s)
      | Some a \<Rightarrow>
          if sendPhase a > 0 \<and> \<not> canUpdateLocked now a then (Inl (Session UpdateRefused), s)
          else case ratchetSendLocked C now a of
            Inl e \<Rightarrow> (Inl (Session e), s)
          | Inr a \<Rightarrow> sendControl C rnd now (ac_cid a) c ControlKind_Ping (upd_conn c (\<lambda>_. a) s))"

definition key_update_conn :: "crypto \<Rightarrow> u8 \<Rightarrow> time \<Rightarrow> duration \<Rightarrow> nat \<Rightarrow> endpoint \<Rightarrow> endpoint" where
  "key_update_conn C rnd now maxKeyAge c s =
     (case conns s c of
        None \<Rightarrow> s
      | Some a \<Rightarrow> if Sub now (KeyPhaseAt a) < maxKeyAge then s else snd (ac_UpdateKey C rnd now c s))"

text \<open>A tick of \<open>AutoKeyUpdate\<close>: the time, the order of the table, and the random byte of a packet header.\<close>

type_synonym key_tick = "time \<times> ConnectionID list \<times> u8"

definition key_update_tick :: "crypto \<Rightarrow> duration \<Rightarrow> key_tick \<Rightarrow> endpoint \<Rightarrow> endpoint" where
  "key_update_tick C maxKeyAge k s =
     (case k of (now, order, rnd) \<Rightarrow> fold (key_update_conn C rnd now maxKeyAge) (ListActiveConnections order s) s)"

definition AutoKeyUpdate :: "crypto \<Rightarrow> duration \<Rightarrow> key_tick list \<Rightarrow> endpoint \<Rightarrow> endpoint" where
  "AutoKeyUpdate C maxKeyAge ks s = fold (key_update_tick C maxKeyAge) ks s"

section \<open>Answering probes\<close>

text \<open>An iteration of \<open>AutoRespondProbes\<close>: the next probe is answered; an error of \<open>SendProbe\<close> is dropped.\<close>

definition AutoRespondProbes :: "u8 \<Rightarrow> bytes \<Rightarrow> AddrPort \<Rightarrow> endpoint \<Rightarrow> endpoint" where
  "AutoRespondProbes rnd mac addr s =
     (case probeInfo s of
        [] \<Rightarrow> s
      | p # ps \<Rightarrow> snd (SendProbe rnd (pi_Sender p) mac addr (s\<lparr>probeInfo := ps\<rparr>)))"

text \<open>\<open>WaitNewActiveConnection\<close> and \<open>WaitProbeInfo\<close>, when something is there and when the time is over.\<close>

definition WaitNewActiveConnection :: "endpoint \<Rightarrow> nat option \<times> endpoint" where
  "WaitNewActiveConnection s =
     (case newActiveSess s of [] \<Rightarrow> (None, s) | c # cs \<Rightarrow> (Some c, s\<lparr>newActiveSess := cs\<rparr>))"

definition WaitProbeInfo :: "endpoint \<Rightarrow> ProbeInfo option \<times> endpoint" where
  "WaitProbeInfo s = (case probeInfo s of [] \<Rightarrow> (None, s) | p # ps \<Rightarrow> (Some p, s\<lparr>probeInfo := ps\<rparr>))"

section \<open>Listings\<close>

definition ListHandshakes :: "ConnectionID list \<Rightarrow> endpoint \<Rightarrow> (ConnectionID \<times> time) list" where
  "ListHandshakes order s = List.map_filter (\<lambda>cid. map_option (\<lambda>h. (cid, hi_LastTime h)) (sentHandshake s cid)) order"

fun list_proxies :: "(ConnectionID \<Rightarrow> string) \<Rightarrow> ConnectionID list \<Rightarrow> string list \<Rightarrow> endpoint \<Rightarrow> ProxyInfo list" where
  "list_proxies str [] listed s = []"
| "list_proxies str (cid # cids) listed s =
     (case proxy_at s cid of
        None \<Rightarrow> list_proxies str cids listed s
      | Some p \<Rightarrow>
          let (d1, listed) = (if str (peer1 p) \<in> set listed then ([], listed) else ([proxy_info p], str (peer1 p) # str (peer2 p) # listed));
              (d2, listed) = (if str (peer2 p) \<in> set listed then ([], listed) else ([proxy_info p], str (peer2 p) # str (peer1 p) # listed)) in
          d1 @ d2 @ list_proxies str cids listed s)"

definition ListProxies :: "(ConnectionID \<Rightarrow> string) \<Rightarrow> ConnectionID list \<Rightarrow> endpoint \<Rightarrow> ProxyInfo list" where
  "ListProxies str order s = list_proxies str order [] s"

section \<open>Lemmas\<close>

text \<open>The moments at which a wait ticks: the delay doubles, so the next tick is one delay later than all before.\<close>

definition tick_at :: "duration \<Rightarrow> nat \<Rightarrow> duration" where
  "tick_at d k = (2 ^ (k + 1) - 1) * d"

lemma tick_at_simps: "tick_at d 0 = d" "tick_at d (Suc k) = tick_at d k + d * 2 ^ k * 2"
  by (simp_all add: tick_at_def algebra_simps)

lemma wait_loop_ticks:
  "wait_loop C until next delay ts out \<Longrightarrow> next = tick_at d k \<Longrightarrow> delay = d * 2 ^ k \<Longrightarrow>
     \<exists>n. ts = map (tick_at d) [k..<k + n] \<and> (\<forall>t\<in>set ts. t \<le> until \<and> not_before t C)"
proof (induction arbitrary: k rule: wait_loop.induct)
  case (tick "next" delay ts out)
  obtain n where n: "ts = map (tick_at d) [Suc k..<Suc k + n]" "\<forall>t\<in>set ts. t \<le> until \<and> not_before t C"
    using tick.IH[of "Suc k"] tick.prems by (auto simp: tick_at_simps algebra_simps)
  have "next # ts = map (tick_at d) [k..<k + Suc n]" using n(1) tick.prems by (simp add: upt_conv_Cons del: upt_Suc)
  then show ?case using n(2) tick.hyps by (metis set_ConsD)
qed (auto intro: exI[of _ 0])

lemma wait_loop_out:
  "wait_loop C until next delay ts out \<Longrightarrow> wait_once C until out"
  by (induction rule: wait_loop.induct) (auto intro: wait_once.intros)

lemma wait_loop_total:
  assumes "0 < delay"
  shows "\<exists>ts out. wait_loop C until next delay ts out"
  using assms
proof (induction "nat (until - next)" arbitrary: "next" delay rule: less_induct)
  case less
  show ?case
  proof (cases "not_before (min until next) C")
    case True
    show ?thesis
    proof (cases "until \<le> next")
      case True
      then show ?thesis using \<open>not_before (min until next) C\<close> by (auto intro: wait_loop.timeout)
    next
      case False
      then have "\<exists>ts out. wait_loop C until (next + delay * 2) (delay * 2) ts out" using less by (intro less.hyps) auto
      then show ?thesis using True False wait_loop.tick[of "next" C until delay] by (force simp: min_def)
    qed
  next
    case False
    then obtain t v where "C = Some (t, v)" "t \<le> until" "t \<le> next" by (auto simp: not_before_def split: option.splits)
    then show ?thesis by (cases v) (auto intro: wait_loop.answer wait_loop.closed)
  qed
qed

lemma hello_sent:
  assumes "SendHandshake rnd now cid priv hs s = (Inr ch, s1)" and "cid' = cid\<lparr>cid_Addr := unmapAddrPort (cid_Addr cid)\<rparr>"
  shows "\<exists>hello h. pktQueue s1 = pktQueue s @ [\<lparr>pd_To = cid', pd_Kind = PacketKind_Handshake, pd_Data = hello\<rparr>] \<and>
    sentHandshake s1 cid' = Some h \<and> Transcript h = hello \<and> hsDone h = ch"
  using assms
  by (auto simp: SendHandshake_def sendHandshake_def sendPacket_def hi_closeUnlocked_def close_proxy_conn_def upd_conn_def Let_def
      split: if_splits sum.splits option.splits)

lemma retransmit_again:
  "sentHandshake s cid = Some h \<Longrightarrow> fold (\<lambda>_. retransmitHandshake cid) ts s =
     s\<lparr>pktQueue := pktQueue s @ replicate (length ts) \<lparr>pd_To = cid, pd_Kind = PacketKind_Handshake, pd_Data = Transcript h\<rparr>\<rparr>"
  by (induction ts arbitrary: s) (simp_all add: retransmitHandshake_def sendPacket_def replicate_append_same)

section \<open>Keys of quiet connections\<close>

text \<open>A connection that has updated its key and sent less than 1024 packets since.\<close>

definition key_settled :: "activeConnection \<Rightarrow> bool" where
  "key_settled a \<longleftrightarrow> sendPhase a > 0 \<and> sentCounter a < sendPhaseFrom a + minPacketsBetweenUpdates"

lemma key_update_quiet: "conns s c = Some a \<Longrightarrow> key_settled a \<Longrightarrow> key_update_conn C rnd now age c s = s"
  by (simp add: key_update_conn_def ac_UpdateKey_def key_settled_def canUpdateLocked_def)

lemma key_update_other:
  "c' \<noteq> c \<Longrightarrow> conns (key_update_conn C rnd now age c' s) c = conns s c"
  "activeConnections (key_update_conn C rnd now age c' s) = activeConnections s"
  by (auto simp: key_update_conn_def ac_UpdateKey_def sendControl_def sendApplicationFrame_def upd_conn_def sendPacket_def
      split: option.splits sum.splits prod.splits if_splits)

lemma key_update_fold_quiet:
  "conns s c = Some a \<Longrightarrow> key_settled a \<Longrightarrow> conns (fold (key_update_conn C rnd now age) cs s) c = Some a"
proof (induction cs arbitrary: s)
  case (Cons x cs)
  then show ?case by (cases "x = c") (simp_all add: key_update_quiet key_update_other)
qed simp

lemma AutoKeyUpdate_quiet: "conns s c = Some a \<Longrightarrow> key_settled a \<Longrightarrow> conns (AutoKeyUpdate C age ks s) c = Some a"
  unfolding AutoKeyUpdate_def
proof (induction ks arbitrary: s)
  case (Cons k ks)
  then show ?case using key_update_fold_quiet by (cases k) (simp add: key_update_tick_def)
qed simp

text \<open>The first update: no floor applies, and the control frame is the first packet of the new phase.\<close>

lemma key_update_first:
  assumes "activeConnections s (ac_cid a) = Some c" and "conns s c = Some a" and "sendPhase a = 0"
    and "age \<le> Sub now (sendPhaseAt a)" and "ratchetSendLocked C now a = Inr b" and "sentCounter a < 2 ^ 63"
  shows "conns (key_update_conn C rnd now age c s) c = Some (b\<lparr>sentCounter := sentCounter a + 1\<rparr>)"
    and "key_settled (b\<lparr>sentCounter := sentCounter a + 1\<rparr>)"
proof -
  have b: "ac_cid b = ac_cid a" "sendPhase b = 1" "sendPhaseFrom b = sentCounter a" "sentCounter b = sentCounter a"
    using assms(3,5) by (auto simp: ratchetSendLocked_def rbind_Inr_iff)
  have "\<not> (4194304 :: u64) \<le> 1" by code_simp
  then have "\<not> update_due now (sentCounter a + 1) (b\<lparr>sentCounter := sentCounter a + 1\<rparr>)" by (simp add: update_due_def b)
  then have "snd (sealApplicationFrame C rnd now [ControlKind_Ping] None True b) = b\<lparr>sentCounter := sentCounter a + 1\<rparr>"
    by (simp add: sealApplicationFrame_def take_number_def ac_ConsumePacketNumber_def b)
  then show "conns (key_update_conn C rnd now age c s) c = Some (b\<lparr>sentCounter := sentCounter a + 1\<rparr>)"
    using assms b(1)
    by (auto simp: key_update_conn_def KeyPhaseAt_def ac_UpdateKey_def sendControl_def sendApplicationFrame_def upd_conn_def sendPacket_def
        split: prod.splits sum.splits)
  show "key_settled (b\<lparr>sentCounter := sentCounter a + 1\<rparr>)" using assms(6) b by (simp add: key_settled_def word_less_nat_alt unat_word_ariths)
qed

lemma key_update_fold_first:
  assumes "activeConnections s (ac_cid a) = Some c" and "conns s c = Some a" and "sendPhase a = 0"
    and "age \<le> Sub now (sendPhaseAt a)" and "ratchetSendLocked C now a = Inr b" and "sentCounter a < 2 ^ 63" and "c \<in> set cs"
  shows "conns (fold (key_update_conn C rnd now age) cs s) c = Some (b\<lparr>sentCounter := sentCounter a + 1\<rparr>)"
  using assms
proof (induction cs arbitrary: s)
  case (Cons x cs)
  show ?case
  proof (cases "x = c")
    case True
    then show ?thesis using key_update_fold_quiet[OF key_update_first[OF Cons.prems(1-6)]] by simp
  next
    case False
    then show ?thesis using Cons by (simp add: key_update_other)
  qed
qed simp

section \<open>Probes\<close>

lemma makeProbe_read:
  assumes "length mac = 6" and "length (fst addr) \<in> {4, 16}"
  shows "\<exists>d pkt. makeProbe rnd n mac addr = Inr d \<and> Packet_DecodeExact d = Inr pkt \<and>
    headerKind (pk_Header pkt) = PacketKind_Probe \<and> headerConnID (pk_Header pkt) = n \<and>
    ObjProbe_DecodeExact (pk_Data pkt) = Inr \<lparr>pb_MacAddress = \<lparr>mac_Address = mac\<rparr>,
      pb_IpAddress = \<lparr>ip_Len = of_nat (length (fst addr)), ip_Address = fst addr\<rparr>, pb_Port = snd addr\<rparr>"
proof -
  let ?pb = "\<lparr>pb_MacAddress = \<lparr>mac_Address = mac\<rparr>, pb_IpAddress = \<lparr>ip_Len = of_nat (length (fst addr)), ip_Address = fst addr\<rparr>,
    pb_Port = snd addr\<rparr>"
  let ?w = "ObjProbe_wire ?pb"
  let ?pkt = "\<lparr>pk_Header = buildHeader rnd PacketKind_Probe n (of_nat (length ?w)) 0, pk_Data = ?w\<rparr>"
  have ok: "ObjProbe_ok ?pb" using assms by (auto simp: ObjProbe_ok_def)
  have "length ?w < 256" using assms by (auto simp: ObjProbe_wire_def)
  then have pok: "Packet_ok ?pkt" by (simp add: Packet_ok_def buildHeader_def Let_def SetKeyPhase_def SetMaskSeed_def unat_of_nat)
  have "makeProbe rnd n mac addr = Inr (Packet_wire ?pkt)"
    using assms probe.enc_wire[OF ok] packet.enc_wire[OF pok]
    by (auto simp: makeProbe_def SetAddress_def wire_err_def Let_def)
  moreover have "Packet_DecodeExact (Packet_wire ?pkt) = Inr ?pkt"
    using packet.exact_roundtrip[OF pok] by (simp add: Packet_DecodeExact_def)
  moreover have "ObjProbe_DecodeExact ?w = Inr ?pb"
    using probe.exact_roundtrip[OF ok] by (simp add: ObjProbe_DecodeExact_def)
  moreover have "headerKind (pk_Header ?pkt) = PacketKind_Probe" "headerConnID (pk_Header ?pkt) = n"
    by (simp_all add: header_unmasks)
  ultimately show ?thesis by (intro exI[of _ "Packet_wire ?pkt"] exI[of _ ?pkt]) simp
qed

text \<open>A probe is received and the loop answers it.\<close>

definition answer_probe ::
  "(ConnectionID \<Rightarrow> string) \<Rightarrow> ecdh \<Rightarrow> crypto \<Rightarrow> bytes \<Rightarrow> u8 \<Rightarrow> time \<Rightarrow> string \<Rightarrow> AddrPort \<Rightarrow> bytes \<Rightarrow> AddrPort \<Rightarrow> bytes \<Rightarrow> endpoint \<Rightarrow> endpoint" where
  "answer_probe str E C rk rnd now tr from mac addr data s =
     AutoRespondProbes rnd mac addr (snd (Receive str E C rk rnd now tr from data s))"

text \<open>Two endpoints at \<open>x\<close> and \<open>y\<close> that both run the loop, and a probe on its way from the first to the second.\<close>

fun bounce ::
  "(ConnectionID \<Rightarrow> string) \<Rightarrow> ecdh \<Rightarrow> crypto \<Rightarrow> bytes \<Rightarrow> u8 \<Rightarrow> time \<Rightarrow> string \<Rightarrow> bytes \<Rightarrow> nat \<Rightarrow> AddrPort \<Rightarrow> AddrPort \<Rightarrow> bytes \<Rightarrow>
     endpoint \<Rightarrow> endpoint \<Rightarrow> endpoint \<times> endpoint" where
  "bounce str E C rk rnd now tr mac 0 x y data a b = (a, b)"
| "bounce str E C rk rnd now tr mac (Suc n) x y data a b =
     (let b' = answer_probe str E C rk rnd now tr x mac y data b in
      bounce str E C rk rnd now tr mac n y x (pd_Data (last (pktQueue b'))) b' a)"

definition no_proxy :: "endpoint \<Rightarrow> bool" where
  "no_proxy s \<longleftrightarrow> proxySettings s = Map.empty \<and> probeInfo s = []"

lemma answer_probe_effect:
  assumes "makeProbe rnd' n mac' addr' = Inr data" and "length mac' = 6" "length (fst addr') \<in> {4, 16}"
    and "length mac = 6" "length (fst addr) \<in> {4, 16}" and "no_proxy s"
  shows "\<exists>d. makeProbe rnd n mac addr = Inr d \<and> answer_probe str E C rk rnd now tr from mac addr data s =
    s\<lparr>pktQueue := pktQueue s @ [\<lparr>pd_To = \<lparr>Transport = tr, cid_Addr = unmapAddrPort from, ID = n\<rparr>, pd_Kind = PacketKind_Probe, pd_Data = d\<rparr>]\<rparr>"
proof -
  obtain pkt where p: "Packet_DecodeExact data = Inr pkt" "headerKind (pk_Header pkt) = PacketKind_Probe"
    "headerConnID (pk_Header pkt) = n" "ObjProbe_DecodeExact (pk_Data pkt) = Inr \<lparr>pb_MacAddress = \<lparr>mac_Address = mac'\<rparr>,
      pb_IpAddress = \<lparr>ip_Len = of_nat (length (fst addr')), ip_Address = fst addr'\<rparr>, pb_Port = snd addr'\<rparr>"
    using makeProbe_read[OF assms(2,3), of rnd' n] assms(1) by auto
  obtain d where d: "makeProbe rnd n mac addr = Inr d" using makeProbe_read[OF assms(4,5), of rnd n] by blast
  let ?cid = "\<lparr>Transport = tr, cid_Addr = unmapAddrPort from, ID = n\<rparr>"
  let ?i = "\<lparr>pi_Sender = ?cid, pi_MacAddress = mac', pi_IpAddress = addr'\<rparr>"
  have "snd (Receive str E C rk rnd now tr from data s) = s\<lparr>probeInfo := [?i]\<rparr>"
    using assms(3,6) p
    by (auto simp: Receive_def receive_def proxy_at_def dispatch_def receiveProbe_def no_proxy_def Let_def)
  then show ?thesis using d assms(6)
    by (simp add: answer_probe_def AutoRespondProbes_def SendProbe_def sendPacket_def no_proxy_def)
qed

text \<open>
  Two endpoints that both answer probes with \<open>AutoRespondProbes\<close> never stop: a single probe between them has made
  them send \<open>n\<close> packets after \<open>n\<close> receptions, for every \<open>n\<close>.
\<close>

lemma bounce_forever:
  assumes "makeProbe rnd' i mac' addr' = Inr data" and "length mac' = 6" "length (fst addr') \<in> {4, 16}"
    and "length mac = 6" "length (fst x) \<in> {4, 16}" "length (fst y) \<in> {4, 16}" and "no_proxy a" and "no_proxy b"
    and "bounce str E C rk rnd now tr mac n x y data a b = (a', b')"
  shows "length (pktQueue a') + length (pktQueue b') = length (pktQueue a) + length (pktQueue b) + n"
  using assms
proof (induction n arbitrary: x y data a b rnd' mac' addr')
  case (Suc n)
  obtain d where d: "makeProbe rnd i mac y = Inr d" "answer_probe str E C rk rnd now tr x mac y data b =
      b\<lparr>pktQueue := pktQueue b @ [\<lparr>pd_To = \<lparr>Transport = tr, cid_Addr = unmapAddrPort x, ID = i\<rparr>, pd_Kind = PacketKind_Probe, pd_Data = d\<rparr>]\<rparr>"
    using answer_probe_effect[OF Suc.prems(1-4,6,8)] by blast
  let ?b = "answer_probe str E C rk rnd now tr x mac y data b"
  have "no_proxy ?b" using Suc.prems(8) d(2) by (simp add: no_proxy_def)
  moreover have "bounce str E C rk rnd now tr mac n y x d ?b a = (a', b')" using Suc.prems(9) d(2) by simp
  ultimately have "length (pktQueue a') + length (pktQueue b') = length (pktQueue ?b) + length (pktQueue a) + n"
    using Suc.IH[OF d(1) Suc.prems(4,6,4,6,5) _ Suc.prems(7)] by blast
  then show ?case using d(2) by simp
qed simp

lemma wait_retransmits:
  assumes "SendHandshake rnd now cid priv hs s = (Inr ch, s1)" and "cid' = cid\<lparr>cid_Addr := unmapAddrPort (cid_Addr cid)\<rparr>"
    and "until \<le> 10 * Second" and "WaitWithTimeout handshake_chan C until ts out"
  shows "(\<exists>p. pd_To p = cid' \<and> pktQueue s1 = pktQueue s @ [p] \<and>
      fold (\<lambda>_. retransmitHandshake cid') ts s1 = s1\<lparr>pktQueue := pktQueue s @ replicate (Suc (length ts)) p\<rparr>) \<and>
    ts = take (length ts) (map (\<lambda>k. k * Millisecond) [333, 999, 2331, 4995]) \<and> (\<forall>t\<in>set ts. not_before t C) \<and>
    wait_once C until out"
proof (intro conjI)
  let ?d = "333 * Millisecond"
  have w: "wait_loop C until ?d ?d ts out" using assms(4) by (simp add: WaitWithTimeout_def handshake_chan_def)
  obtain n where n: "ts = map (tick_at ?d) [0..<n]" "\<forall>t\<in>set ts. t \<le> until \<and> not_before t C"
    using wait_loop_ticks[OF w, of ?d 0] by (auto simp: tick_at_simps)
  have "n \<le> 4"
  proof (rule ccontr)
    assume "\<not> n \<le> 4"
    then have "tick_at ?d 4 \<in> set ts" by (simp add: n(1))
    then show False using n(2) assms(3) by (auto simp: tick_at_def)
  qed
  then have "n \<in> {0, 1, 2, 3, 4}" by auto
  then show "ts = take (length ts) (map (\<lambda>k. k * Millisecond) [333, 999, 2331, 4995])"
    unfolding n(1) by (auto simp: tick_at_def upt_rec)
  show "\<forall>t\<in>set ts. not_before t C" using n(2) by blast
  show "wait_once C until out" using wait_loop_out[OF w] .
  obtain hello h where h: "pktQueue s1 = pktQueue s @ [\<lparr>pd_To = cid', pd_Kind = PacketKind_Handshake, pd_Data = hello\<rparr>]"
    "sentHandshake s1 cid' = Some h" "Transcript h = hello" using hello_sent[OF assms(1,2)] by blast
  show "\<exists>p. pd_To p = cid' \<and> pktQueue s1 = pktQueue s @ [p] \<and>
      fold (\<lambda>_. retransmitHandshake cid') ts s1 = s1\<lparr>pktQueue := pktQueue s @ replicate (Suc (length ts)) p\<rparr>"
    using h by (auto simp: retransmit_again)
qed

section \<open>Properties\<close>

text \<open>
  C14: retransmission of a handshake. \<open>DoECDHHandshake\<close> returns the answer or the end of the channel when that comes in
  time and a timeout otherwise. A dial always ends. After a successful \<open>SendHandshake\<close> each tick puts the very bytes of the hello into the send
  queue again, at 333 ms, 999 ms, 2331 ms and 4995 ms: within the ten seconds of \<open>DoECDHHandshake\<close> there are at most four,
  all within the first five seconds and before the answer.
\<close>

theorem handshake_retransmits:
  assumes "dial E rk rnd now cid curve ck s = (Inr ch, s1)" and "cid' = cid\<lparr>cid_Addr := unmapAddrPort (cid_Addr cid)\<rparr>"
    and "DoECDHHandshake E rk rnd now cid curve ck C ctx s ts out"
  shows "(\<exists>p. pd_To p = cid' \<and> pktQueue s1 = pktQueue s @ [p] \<and>
      fold (\<lambda>_. retransmitHandshake cid') ts s1 = s1\<lparr>pktQueue := pktQueue s @ replicate (Suc (length ts)) p\<rparr>) \<and>
    ts = take (length ts) (map (\<lambda>k. k * Millisecond) [333, 999, 2331, 4995]) \<and> (\<forall>t\<in>set ts. not_before t C) \<and>
    (\<exists>r. wait_once C (min ctx (10 * Second)) r \<and> out = (case r of Inl e \<Rightarrow> Inl (Inr e) | Inr c \<Rightarrow> Inr c)) \<and>
    (\<exists>ts out. DoECDHHandshake E rk rnd now cid curve ck C' ctx' s ts out)"
proof -
  obtain priv hs where hs: "SendHandshake rnd now cid priv hs s = (Inr ch, s1)"
    using assms(1) by (auto simp: dial_def split: sum.splits prod.splits)
  obtain r where r: "WaitWithTimeout handshake_chan C (min ctx (10 * Second)) ts r"
    "out = (case r of Inl e \<Rightarrow> Inl (Inr e) | Inr c \<Rightarrow> Inr c)" using assms(1,3) by (auto simp: DoECDHHandshake_def)
  have "\<exists>ts r. WaitWithTimeout handshake_chan C' (min ctx' (10 * Second)) ts r"
    using wait_loop_total[of "333 * Millisecond" C' _ "333 * Millisecond"] by (simp add: WaitWithTimeout_def handshake_chan_def)
  then have "\<exists>ts out. DoECDHHandshake E rk rnd now cid curve ck C' ctx' s ts out"
    using assms(1) by (auto simp: DoECDHHandshake_def)
  then show ?thesis using wait_retransmits[OF hs assms(2) _ r(1)] r(2) by auto
qed

theorem handshake_retransmits_witness:
  "\<exists>ch s1 ts p. dial sampleEcdh [1] 3 0 (recv_cid ''udp'' sampleServer 7) X25519 CommonKeyKind_Aes256Gcm (NewEndpoint EndpointModeClient) = (Inr ch, s1) \<and>
    DoECDHHandshake sampleEcdh [1] 3 0 (recv_cid ''udp'' sampleServer 7) X25519 CommonKeyKind_Aes256Gcm (Some (2 * Second, Some 5)) (60 * Second)
      (NewEndpoint EndpointModeClient) ts (Inr 5) \<and> ts = [333 * Millisecond, 999 * Millisecond] \<and>
    pktQueue (fold (\<lambda>_. retransmitHandshake (recv_cid ''udp'' sampleServer 7)) ts s1) = [p, p, p]"
proof -
  let ?s = "NewEndpoint EndpointModeClient" and ?cid = "recv_cid ''udp'' sampleServer 7"
  let ?h = "hello_of sampleEcdh X25519 [1] CommonKeyKind_Aes256Gcm"
  let ?k = CommonKeyKind_Aes256Gcm and ?C = "Some (2 * Second, Some 5)"
  have "NewECDHHandshake sampleEcdh [1] X25519 ?k = Inr ([1], ?h)" by (rule NewECDHHandshake_eq) (simp add: sampleEcdh_def)
  then have "\<exists>ch. fst (dial sampleEcdh [1] 3 0 ?cid X25519 ?k ?s) = Inr ch"
    using hello_packet_eq[OF hello_of_ok[OF sampleEcdh_laws, of X25519 "[1]" "[1]"]]
    by (simp add: dial_def sampleEcdh_def SendHandshake_def sendHandshake_def NewEndpoint_def Let_def)
  then obtain ch s1 where s1: "dial sampleEcdh [1] 3 0 ?cid X25519 ?k ?s = (Inr ch, s1)" by (metis prod.collapse)
  have "WaitWithTimeout handshake_chan (Some (2 * Second, Some (5 :: nat))) (10 * Second) [333 * Millisecond, 999 * Millisecond] (Inr 5)"
  proof -
    let ?C = "Some (2 * Second, Some (5 :: nat))" and ?T = "10 * Second"
    have "wait_loop ?C ?T (2331 * Millisecond) (1332 * Millisecond) [] (Inr 5)" by (rule wait_loop.answer[OF refl]) simp_all
    then have "wait_loop ?C ?T (999 * Millisecond) (666 * Millisecond) [999 * Millisecond] (Inr 5)"
      using wait_loop.tick[of "999 * Millisecond" ?C ?T "666 * Millisecond"] by (simp add: not_before_def)
    then show ?thesis
      using wait_loop.tick[of "333 * Millisecond" ?C ?T "333 * Millisecond"]
      by (simp add: not_before_def WaitWithTimeout_def handshake_chan_def)
  qed
  then have w: "DoECDHHandshake sampleEcdh [1] 3 0 ?cid X25519 ?k ?C (60 * Second) ?s [333 * Millisecond, 999 * Millisecond] (Inr 5)"
    using s1 by (auto simp: DoECDHHandshake_def)
  have cid: "?cid = ?cid\<lparr>cid_Addr := unmapAddrPort (cid_Addr ?cid)\<rparr>" by (simp add: recv_cid_def sample_unmap)
  obtain p where "fold (\<lambda>_. retransmitHandshake ?cid) [333 * Millisecond, 999 * Millisecond] s1 =
      s1\<lparr>pktQueue := pktQueue ?s @ replicate (Suc (length [333 * Millisecond, 999 * Millisecond])) p\<rparr>"
    using conjunct1[OF handshake_retransmits[OF s1 cid w]] by blast
  then have "pktQueue (fold (\<lambda>_. retransmitHandshake ?cid) [333 * Millisecond, 999 * Millisecond] s1) = [p, p, p]"
    by (simp add: NewEndpoint_def)
  then show ?thesis using s1 w by blast
qed

text \<open>
  C15: \<open>AutoKeyUpdate\<close> updates the key of a quiet connection once. The first tick after the key has reached its
  age takes the connection to phase 1 with a control frame. From then on, whatever the times, the ages and the number of
  ticks, a connection that sends nothing keeps its key, and so does every connection that has sent less than 1024
  packets since its last update: \<open>canUpdateLocked\<close> refuses.
\<close>

theorem quiet_key_updated_once:
  assumes "activeConnections s (ac_cid a) = Some c" and "conns s c = Some a" and "sendPhase a = 0"
    and "age \<le> Sub now (KeyPhaseAt a)" and "ratchetSendLocked C now a = Inr b" and "sentCounter a < 2 ^ 63"
    and "ac_cid a \<in> set order"
  shows "conns (key_update_tick C age (now, order, rnd) s) c = Some (b\<lparr>sentCounter := sentCounter a + 1\<rparr>) \<and> sendPhase b = 1 \<and>
    conns (AutoKeyUpdate C age' ks (key_update_tick C age (now, order, rnd) s)) c = Some (b\<lparr>sentCounter := sentCounter a + 1\<rparr>) \<and>
    (\<forall>t a'. conns t c = Some a' \<longrightarrow> key_settled a' \<longrightarrow> conns (AutoKeyUpdate C age' ks t) c = Some a')"
proof -
  have in': "c \<in> set (ListActiveConnections order s)"
    using assms(1,7) by (force simp: ListActiveConnections_def map_filter_def)
  have "sendPhase b = 1" using assms(3,5) by (auto simp: ratchetSendLocked_def rbind_Inr_iff)
  moreover have "conns (key_update_tick C age (now, order, rnd) s) c = Some (b\<lparr>sentCounter := sentCounter a + 1\<rparr>)"
    using key_update_fold_first[OF assms(1-3) assms(4)[unfolded KeyPhaseAt_def] assms(5,6) in'] by (simp add: key_update_tick_def)
  ultimately show ?thesis
    using AutoKeyUpdate_quiet key_update_first(2)[OF assms(1-3) assms(4)[unfolded KeyPhaseAt_def] assms(5,6)] by simp
qed

theorem quiet_key_updated_once_witness:
  "\<exists>a b c. sampleEnd [2] [1] = Inr a \<and> ratchetSendLocked sampleCrypto (3600 * Second) a = Inr b \<and>
    conns (AutoKeyUpdate sampleCrypto (600 * Second) (map (\<lambda>k. (int k * 3600 * Second, [ac_cid a], 9)) (1 # [2..<100]))
      ((NewEndpoint EndpointModeMutual)\<lparr>activeConnections := [ac_cid a \<mapsto> 0], conns := [0 \<mapsto> a]\<rparr>)) 0 = Some c \<and>
    sendSecret c = sendSecret b \<and> sendPhase c = 1"
proof -
  obtain a where a: "sampleEnd [2] [1] = Inr a" using sampleEnd_ok by metis
  have f: "sendPhase a = 0" "sendPhaseAt a = 5" "sentCounter a = 0" "ac_cid a = sampleCid" "commonKeyKind a = CommonKeyKind_Aes128Gcm"
    using a by (auto simp: sampleEnd_def newActiveConnection_def rbind_Inr_iff)
  obtain n where n: "ratchetSecret sampleCrypto (sendSecret a) = Inr n"
    using DeriveKey_ok[OF sampleCrypto_laws, of 32 "sendSecret a"] by (auto simp: ratchetSecret_def)
  obtain k where "derivePhaseKeys sampleCrypto n CommonKeyKind_Aes128Gcm = Inr k"
    using derivePhaseKeys_ok[OF sampleCrypto_laws, of CommonKeyKind_Aes128Gcm n] by (auto simp: IsCommonKeyKindDefined_def)
  then obtain b where b: "ratchetSendLocked sampleCrypto (3600 * Second) a = Inr b" by (simp add: ratchetSendLocked_def n f(5))
  let ?s = "(NewEndpoint EndpointModeMutual)\<lparr>activeConnections := [ac_cid a \<mapsto> 0], conns := [0 \<mapsto> a]\<rparr>"
  let ?k = "\<lambda>k. (int k * 3600 * Second, [ac_cid a], 9)"
  have "600 * Second \<le> Sub (3600 * Second) (KeyPhaseAt a)"
    by (simp add: KeyPhaseAt_def f(2) Sub_def minDuration_def maxDuration_def)
  then have "conns (AutoKeyUpdate sampleCrypto (600 * Second) (map ?k [2..<100]) (key_update_tick sampleCrypto (600 * Second) (?k 1) ?s)) 0 =
      Some (b\<lparr>sentCounter := sentCounter a + 1\<rparr>) \<and> sendPhase b = 1"
    using quiet_key_updated_once[of ?s a 0 "600 * Second" "3600 * Second" sampleCrypto b "[ac_cid a]" 9 "600 * Second" "map ?k [2..<100]"]
      b f(1,3) by simp
  then show ?thesis using a b by (simp add: AutoKeyUpdate_def del: upt_rec_numeral)
qed

end
