(* ===== verification/Wire_Variants.thy ===== *)
theory Wire_Variants
  imports Wire_Stream Codec_Io
begin

text \<open>
  The other methods of the formats in \<open>src/trsf/wire/stream.go\<close>: \<open>Write\<close>, \<open>EncodeSlice\<close> and \<open>Read\<close>, with
  their wrappers, and the proof that all encoders of a format agree and that both decoders do.
\<close>

section \<open>Writers, slices and readers\<close>

text \<open>The cells of a varint, as all three encoders compute them.\<close>

definition Varint_cells :: "Varint \<Rightarrow> bytes" where
  "Varint_cells v =
     (let b0 = push_bit 6 (Prefix v AND 3);
          x16 = (ucast (tmp780 v) :: u16);
          x32 = (ucast (tmp780 v) :: u32);
          x64 = tmp780 v in
      if Prefix v = 0 then [b0 OR (ucast (tmp780 v) AND 63)]
      else if Prefix v = 1 then [b0 OR ucast (drop_bit 8 x16 AND 63), ucast (x16 AND 255)]
      else if Prefix v = 2 then
        [b0 OR ucast (drop_bit 24 x32 AND 63), ucast (drop_bit 16 x32 AND 255),
         ucast (drop_bit 8 x32 AND 255), ucast (x32 AND 255)]
      else if Prefix v = 3 then
        [b0 OR ucast (drop_bit 56 x64 AND 63), ucast (drop_bit 48 x64 AND 255),
         ucast (drop_bit 40 x64 AND 255), ucast (drop_bit 32 x64 AND 255),
         ucast (drop_bit 24 x64 AND 255), ucast (drop_bit 16 x64 AND 255),
         ucast (drop_bit 8 x64 AND 255), ucast (x64 AND 255)]
      else [])"

definition Varint_Write :: "Varint \<Rightarrow> 's writer \<Rightarrow> ('s, unit) io" where
  "Varint_Write v W = (if Prefix v \<in> {0, 1, 2, 3} then wr_Write W (Varint_cells v) else io_return ())"

text \<open>The prefix goes to the first byte before the space for the rest is known to be there.\<close>

definition Varint_EncodeSlice :: "Varint \<Rightarrow> (cursor, unit) io" where
  "Varint_EncodeSlice v = (\<lambda>(buf, off).
     if length buf < off + 1 then (Inl (NotEnoughSpace ''Varint::tmp407::Value''), (buf, off))
     else
       let buf = buf[off := push_bit 6 (Prefix v AND 3)] in
       if Prefix v \<in> {0, 1, 2, 3} then put_slice ''Varint::tmp407::Value'' (Varint_cells v) (buf, off)
       else (Inr (), (buf, off)))"

definition Varint_Read :: "Varint \<Rightarrow> (reader, Varint) io" where
  "Varint_Read v =
     io_bind (read_full 1) (\<lambda>b.
     let v1 = SetPrefix v (drop_bit 6 (b ! 0 AND 192)) in
     if Prefix v1 = 0 then io_return (settmp413 v1 (ucast (b ! 0 AND 63)))
     else if Prefix v1 = 1 then
       io_bind (read_full 1) (\<lambda>c. io_return (settmp413 v1
         (ucast ((push_bit 8 (ucast (b ! 0 AND 63)) OR ucast (c ! 0)) :: u16))))
     else if Prefix v1 = 2 then
       io_bind (read_full 3) (\<lambda>c. io_return (settmp413 v1
         (ucast ((push_bit 24 (ucast (b ! 0 AND 63)) OR push_bit 16 (ucast (c ! 0))
            OR push_bit 8 (ucast (c ! 1)) OR ucast (c ! 2)) :: u32))))
     else if Prefix v1 = 3 then
       io_bind (read_full 7) (\<lambda>c. io_return (settmp413 v1
         (push_bit 56 (ucast (b ! 0 AND 63)) OR push_bit 48 (ucast (c ! 0))
            OR push_bit 40 (ucast (c ! 1)) OR push_bit 32 (ucast (c ! 2))
            OR push_bit 24 (ucast (c ! 3)) OR push_bit 16 (ucast (c ! 4))
            OR push_bit 8 (ucast (c ! 5)) OR ucast (c ! 6))))
     else io_return v1)"

definition StreamPacket_flags :: "StreamPacket \<Rightarrow> u8" where
  "StreamPacket_flags s =
     push_bit 7 (hasId s AND 1) OR push_bit 6 (hasOffset s AND 1) OR push_bit 5 (isEof s AND 1)
       OR push_bit 4 (isProbe s AND 1) OR (Reserved s AND 15)"

definition StreamPacket_Write :: "StreamPacket \<Rightarrow> 's writer \<Rightarrow> ('s, unit) io" where
  "StreamPacket_Write s W = io_seq
     [write_byte W (StreamPacket_flags s),
      if hasId s = 1 then Varint_Write (sp_Id s) W else io_return (),
      if hasOffset s = 1 then Varint_Write (sp_Offset s) W else io_return (),
      wr_Write W (sp_Data s)]"

definition StreamPacket_EncodeSlice :: "StreamPacket \<Rightarrow> (cursor, unit) io" where
  "StreamPacket_EncodeSlice s = io_seq
     [put_slice ''StreamPacket::Reserved'' [StreamPacket_flags s],
      if hasId s = 1 then Varint_EncodeSlice (sp_Id s) else io_return (),
      if hasOffset s = 1 then Varint_EncodeSlice (sp_Offset s) else io_return (),
      put_slice ''StreamPacket::Data'' (sp_Data s)]"

definition StreamPacket_Read :: "StreamPacket \<Rightarrow> (reader, StreamPacket) io" where
  "StreamPacket_Read s =
     io_bind (read_full 1) (\<lambda>c.
     let b = c ! 0;
         s = setHasId s (drop_bit 7 (b AND 128));
         s = setHasOffset s (drop_bit 6 (b AND 64));
         s = setIsEof s (drop_bit 5 (b AND 32));
         s = setIsProbe s (drop_bit 4 (b AND 16));
         s = SetReserved s (b AND 15)
     in io_bind (if hasId s = 1 then io_bind (Varint_Read (sp_Id s)) (\<lambda>v. io_return (s\<lparr>sp_Id := v\<rparr>)) else io_return s) (\<lambda>s.
        io_bind (if hasOffset s = 1 then io_bind (Varint_Read (sp_Offset s)) (\<lambda>v. io_return (s\<lparr>sp_Offset := v\<rparr>)) else io_return s) (\<lambda>s.
        io_bind read_all (\<lambda>d. io_return (s\<lparr>sp_Data := d\<rparr>)))))"

definition ACKRange_Write :: "ACKRange \<Rightarrow> 's writer \<Rightarrow> ('s, unit) io" where
  "ACKRange_Write a W = io_seq [Varint_Write (ar_Offset a) W, Varint_Write (ar_Delta a) W]"

definition ACKRange_EncodeSlice :: "ACKRange \<Rightarrow> (cursor, unit) io" where
  "ACKRange_EncodeSlice a = io_seq [Varint_EncodeSlice (ar_Offset a), Varint_EncodeSlice (ar_Delta a)]"

definition ACKRange_Read :: "ACKRange \<Rightarrow> (reader, ACKRange) io" where
  "ACKRange_Read a =
     io_bind (Varint_Read (ar_Offset a)) (\<lambda>o'.
     io_bind (Varint_Read (ar_Delta a)) (\<lambda>d.
     io_return (a\<lparr>ar_Offset := o', ar_Delta := d\<rparr>)))"

text \<open>As in \<open>Append\<close>, the size check makes the loops over the ranges walks over the list.\<close>

definition StreamACKPacket_Write :: "StreamACKPacket \<Rightarrow> 's writer \<Rightarrow> ('s, unit) io" where
  "StreamACKPacket_Write s W = io_seq
     [Varint_Write (LargestAck s) W, Varint_Write (AckDelay s) W, Varint_Write (FirstDelta s) W, Varint_Write (ack_Len s) W,
      io_check (length (Ranges s) \<noteq> unat (Varint_Value (ack_Len s)))
        (SizeMismatch (unat (Varint_Value (ack_Len s))) (length (Ranges s))),
      io_seq (map (\<lambda>a. ACKRange_Write a W) (Ranges s))]"

definition StreamACKPacket_EncodeSlice :: "StreamACKPacket \<Rightarrow> (cursor, unit) io" where
  "StreamACKPacket_EncodeSlice s = io_seq
     [Varint_EncodeSlice (LargestAck s), Varint_EncodeSlice (AckDelay s), Varint_EncodeSlice (FirstDelta s),
      Varint_EncodeSlice (ack_Len s),
      io_check (length (Ranges s) \<noteq> unat (Varint_Value (ack_Len s)))
        (SizeMismatch (unat (Varint_Value (ack_Len s))) (length (Ranges s))),
      io_seq (map ACKRange_EncodeSlice (Ranges s))]"

fun read_ranges :: "nat \<Rightarrow> ACKRange list \<Rightarrow> (reader, ACKRange list) io" where
  "read_ranges 0 acc = io_return acc"
| "read_ranges (Suc n) acc = io_bind (ACKRange_Read ACKRange_zero) (\<lambda>r. read_ranges n (acc @ [r]))"

definition StreamACKPacket_Read :: "StreamACKPacket \<Rightarrow> (reader, StreamACKPacket) io" where
  "StreamACKPacket_Read s =
     io_bind (Varint_Read (LargestAck s)) (\<lambda>la.
     io_bind (Varint_Read (AckDelay s)) (\<lambda>ad.
     io_bind (Varint_Read (FirstDelta s)) (\<lambda>fd.
     io_bind (Varint_Read (ack_Len s)) (\<lambda>ln.
     io_bind (read_ranges (unat (Varint_Value ln)) (Ranges s)) (\<lambda>rs.
     io_return \<lparr>LargestAck = la, AckDelay = ad, FirstDelta = fd, ack_Len = ln, Ranges = rs\<rparr>)))))"

definition UpdateWindow_Write :: "UpdateWindow \<Rightarrow> 's writer \<Rightarrow> ('s, unit) io" where
  "UpdateWindow_Write u W = io_seq [Varint_Write (uw_Id u) W, Varint_Write (WindowMax u) W]"

definition UpdateWindow_EncodeSlice :: "UpdateWindow \<Rightarrow> (cursor, unit) io" where
  "UpdateWindow_EncodeSlice u = io_seq [Varint_EncodeSlice (uw_Id u), Varint_EncodeSlice (WindowMax u)]"

definition UpdateWindow_Read :: "UpdateWindow \<Rightarrow> (reader, UpdateWindow) io" where
  "UpdateWindow_Read u =
     io_bind (Varint_Read (uw_Id u)) (\<lambda>i.
     io_bind (Varint_Read (WindowMax u)) (\<lambda>w.
     io_return \<lparr>uw_Id = i, WindowMax = w\<rparr>))"

definition CancelStreamPacket_Write :: "CancelStreamPacket \<Rightarrow> 's writer \<Rightarrow> ('s, unit) io" where
  "CancelStreamPacket_Write c W = io_seq [Varint_Write (cs_Id c) W]"

definition CancelStreamPacket_EncodeSlice :: "CancelStreamPacket \<Rightarrow> (cursor, unit) io" where
  "CancelStreamPacket_EncodeSlice c = io_seq [Varint_EncodeSlice (cs_Id c)]"

definition CancelStreamPacket_Read :: "CancelStreamPacket \<Rightarrow> (reader, CancelStreamPacket) io" where
  "CancelStreamPacket_Read c = io_bind (Varint_Read (cs_Id c)) (\<lambda>i. io_return \<lparr>cs_Id = i\<rparr>)"

definition PingBody_Write :: "PingBody \<Rightarrow> 's writer \<Rightarrow> ('s, unit) io" where
  "PingBody_Write p W = io_seq [wr_Write W (PutUint64 (Nanos p))]"

definition PingBody_EncodeSlice :: "PingBody \<Rightarrow> (cursor, unit) io" where
  "PingBody_EncodeSlice p = io_seq [put_slice ''PingBody::Nanos'' (PutUint64 (Nanos p))]"

definition PingBody_Read :: "(reader, PingBody) io" where
  "PingBody_Read = io_bind (read_full 8) (\<lambda>b. io_return \<lparr>Nanos = Uint64 b\<rparr>)"

definition CloseBody_Write :: "CloseBody \<Rightarrow> 's writer \<Rightarrow> ('s, unit) io" where
  "CloseBody_Write c W = io_seq
     [wr_Write W [Status c], wr_Write W (PutUint16 (MessageLen c)),
      io_check (length (Message c) \<noteq> unat (MessageLen c)) (SizeMismatch (unat (MessageLen c)) (length (Message c))),
      wr_Write W (Message c)]"

definition CloseBody_EncodeSlice :: "CloseBody \<Rightarrow> (cursor, unit) io" where
  "CloseBody_EncodeSlice c = io_seq
     [put_slice ''CloseBody::Status'' [Status c], put_slice ''CloseBody::MessageLen'' (PutUint16 (MessageLen c)),
      io_check (length (Message c) \<noteq> unat (MessageLen c)) (SizeMismatch (unat (MessageLen c)) (length (Message c))),
      put_slice ''CloseBody::Message'' (Message c)]"

definition CloseBody_Read :: "(reader, CloseBody) io" where
  "CloseBody_Read =
     io_bind (read_full 1) (\<lambda>st.
     io_bind (read_full 2) (\<lambda>l.
     io_bind (read_sized (unat (Uint16 l))) (\<lambda>m.
     io_return \<lparr>Status = st ! 0, MessageLen = Uint16 l, Message = m\<rparr>)))"

definition PacketHeader_Write :: "PacketHeader \<Rightarrow> 's writer \<Rightarrow> ('s, unit) io" where
  "PacketHeader_Write p W = io_seq [write_byte W (Kind p)]"

definition PacketHeader_EncodeSlice :: "PacketHeader \<Rightarrow> (cursor, unit) io" where
  "PacketHeader_EncodeSlice p = io_seq [put_slice ''PacketHeader::Kind'' [Kind p]]"

definition PacketHeader_Read :: "(reader, PacketHeader) io" where
  "PacketHeader_Read = io_bind (read_full 1) (\<lambda>b. io_return \<lparr>Kind = b ! 0\<rparr>)"

definition StreamAppPacket_Write :: "StreamAppPacket \<Rightarrow> 's writer \<Rightarrow> ('s, unit) io" where
  "StreamAppPacket_Write s W = io_seq
     [PacketHeader_Write (Header s) W,
      if Kind (Header s) = ApplicationPayloadKind_StreamData then StreamPacket_Write (var_StreamData s) W
      else if Kind (Header s) = ApplicationPayloadKind_StreamCancel then CancelStreamPacket_Write (var_StreamCancel s) W
      else if Kind (Header s) = ApplicationPayloadKind_StreamAck then StreamACKPacket_Write (var_StreamAck s) W
      else if Kind (Header s) = ApplicationPayloadKind_StreamWindowUpdate then UpdateWindow_Write (var_WindowUpdate s) W
      else io_fail UnexpectedPacket]"

definition StreamAppPacket_EncodeSlice :: "StreamAppPacket \<Rightarrow> (cursor, unit) io" where
  "StreamAppPacket_EncodeSlice s = io_seq
     [PacketHeader_EncodeSlice (Header s),
      if Kind (Header s) = ApplicationPayloadKind_StreamData then StreamPacket_EncodeSlice (var_StreamData s)
      else if Kind (Header s) = ApplicationPayloadKind_StreamCancel then CancelStreamPacket_EncodeSlice (var_StreamCancel s)
      else if Kind (Header s) = ApplicationPayloadKind_StreamAck then StreamACKPacket_EncodeSlice (var_StreamAck s)
      else if Kind (Header s) = ApplicationPayloadKind_StreamWindowUpdate then UpdateWindow_EncodeSlice (var_WindowUpdate s)
      else io_fail UnexpectedPacket]"

definition StreamAppPacket_Read :: "StreamAppPacket \<Rightarrow> (reader, StreamAppPacket) io" where
  "StreamAppPacket_Read s =
     io_bind PacketHeader_Read (\<lambda>h.
     if Kind h = ApplicationPayloadKind_StreamData then
       io_bind (StreamPacket_Read (var_StreamData s)) (\<lambda>p. io_return (s\<lparr>Header := h, var_StreamData := p\<rparr>))
     else if Kind h = ApplicationPayloadKind_StreamCancel then
       io_bind (CancelStreamPacket_Read (var_StreamCancel s)) (\<lambda>p. io_return (s\<lparr>Header := h, var_StreamCancel := p\<rparr>))
     else if Kind h = ApplicationPayloadKind_StreamAck then
       io_bind (StreamACKPacket_Read (var_StreamAck s)) (\<lambda>p. io_return (s\<lparr>Header := h, var_StreamAck := p\<rparr>))
     else if Kind h = ApplicationPayloadKind_StreamWindowUpdate then
       io_bind (UpdateWindow_Read (var_WindowUpdate s)) (\<lambda>p. io_return (s\<lparr>Header := h, var_WindowUpdate := p\<rparr>))
     else io_fail UnexpectedPacket)"

section \<open>Wrappers\<close>

definition Varint_EncodeCopy :: "Varint \<Rightarrow> bytes \<Rightarrow> (wire_error, bytes) result" where
  "Varint_EncodeCopy x reserved = encode_copy (Varint_Write x bytesBuffer) reserved"

definition Varint_MustEncodeCopy :: "Varint \<Rightarrow> bytes \<Rightarrow> bytes option" where
  "Varint_MustEncodeCopy x reserved = must (Varint_EncodeCopy x reserved)"

definition Varint_Encode :: "Varint \<Rightarrow> bytes \<Rightarrow> (wire_error, bytes) result" where
  "Varint_Encode x buf = encode_slice (Varint_EncodeSlice x) buf"

definition Varint_MustEncode :: "Varint \<Rightarrow> bytes \<Rightarrow> bytes option" where
  "Varint_MustEncode x reserved = must (Varint_Encode x reserved)"

definition Varint_MustAppend :: "Varint \<Rightarrow> bytes \<Rightarrow> bytes option" where
  "Varint_MustAppend x buf = must (Varint_Append x buf)"

definition Varint_DecodeCopy :: "Varint \<Rightarrow> bytes \<Rightarrow> (wire_error, Varint \<times> bytes) result" where
  "Varint_DecodeCopy x buf = decode_copy (Varint_Read x) buf"

definition Varint_DecodeExactCopy :: "Varint \<Rightarrow> bytes \<Rightarrow> (wire_error, Varint) result" where
  "Varint_DecodeExactCopy x buf = no_remain (Varint_DecodeCopy x buf)"

definition Varint_Decode :: "Varint \<Rightarrow> bytes \<Rightarrow> (wire_error, Varint \<times> bytes) result" where
  "Varint_Decode x buf = decode_rest (Varint_DecodeSlice x) buf"

definition Varint_DecodeExact :: "Varint \<Rightarrow> bytes \<Rightarrow> (wire_error, Varint) result" where
  "Varint_DecodeExact x buf = no_remain (Varint_Decode x buf)"

definition StreamPacket_EncodeCopy :: "StreamPacket \<Rightarrow> bytes \<Rightarrow> (wire_error, bytes) result" where
  "StreamPacket_EncodeCopy x reserved = encode_copy (StreamPacket_Write x bytesBuffer) reserved"

definition StreamPacket_MustEncodeCopy :: "StreamPacket \<Rightarrow> bytes \<Rightarrow> bytes option" where
  "StreamPacket_MustEncodeCopy x reserved = must (StreamPacket_EncodeCopy x reserved)"

definition StreamPacket_Encode :: "StreamPacket \<Rightarrow> bytes \<Rightarrow> (wire_error, bytes) result" where
  "StreamPacket_Encode x buf = encode_slice (StreamPacket_EncodeSlice x) buf"

definition StreamPacket_MustEncode :: "StreamPacket \<Rightarrow> bytes \<Rightarrow> bytes option" where
  "StreamPacket_MustEncode x reserved = must (StreamPacket_Encode x reserved)"

definition StreamPacket_MustAppend :: "StreamPacket \<Rightarrow> bytes \<Rightarrow> bytes option" where
  "StreamPacket_MustAppend x buf = must (StreamPacket_Append x buf)"

definition StreamPacket_DecodeCopy :: "StreamPacket \<Rightarrow> bytes \<Rightarrow> (wire_error, StreamPacket \<times> bytes) result" where
  "StreamPacket_DecodeCopy x buf = decode_copy (StreamPacket_Read x) buf"

definition StreamPacket_DecodeExactCopy :: "StreamPacket \<Rightarrow> bytes \<Rightarrow> (wire_error, StreamPacket) result" where
  "StreamPacket_DecodeExactCopy x buf = no_remain (StreamPacket_DecodeCopy x buf)"

definition StreamPacket_Decode :: "StreamPacket \<Rightarrow> bytes \<Rightarrow> (wire_error, StreamPacket \<times> bytes) result" where
  "StreamPacket_Decode x buf = decode_rest (StreamPacket_DecodeSlice x) buf"

definition StreamPacket_DecodeExact :: "StreamPacket \<Rightarrow> bytes \<Rightarrow> (wire_error, StreamPacket) result" where
  "StreamPacket_DecodeExact x buf = no_remain (StreamPacket_Decode x buf)"

definition ACKRange_EncodeCopy :: "ACKRange \<Rightarrow> bytes \<Rightarrow> (wire_error, bytes) result" where
  "ACKRange_EncodeCopy x reserved = encode_copy (ACKRange_Write x bytesBuffer) reserved"

definition ACKRange_MustEncodeCopy :: "ACKRange \<Rightarrow> bytes \<Rightarrow> bytes option" where
  "ACKRange_MustEncodeCopy x reserved = must (ACKRange_EncodeCopy x reserved)"

definition ACKRange_Encode :: "ACKRange \<Rightarrow> bytes \<Rightarrow> (wire_error, bytes) result" where
  "ACKRange_Encode x buf = encode_slice (ACKRange_EncodeSlice x) buf"

definition ACKRange_MustEncode :: "ACKRange \<Rightarrow> bytes \<Rightarrow> bytes option" where
  "ACKRange_MustEncode x reserved = must (ACKRange_Encode x reserved)"

definition ACKRange_MustAppend :: "ACKRange \<Rightarrow> bytes \<Rightarrow> bytes option" where
  "ACKRange_MustAppend x buf = must (ACKRange_Append x buf)"

definition ACKRange_DecodeCopy :: "ACKRange \<Rightarrow> bytes \<Rightarrow> (wire_error, ACKRange \<times> bytes) result" where
  "ACKRange_DecodeCopy x buf = decode_copy (ACKRange_Read x) buf"

definition ACKRange_DecodeExactCopy :: "ACKRange \<Rightarrow> bytes \<Rightarrow> (wire_error, ACKRange) result" where
  "ACKRange_DecodeExactCopy x buf = no_remain (ACKRange_DecodeCopy x buf)"

definition ACKRange_Decode :: "ACKRange \<Rightarrow> bytes \<Rightarrow> (wire_error, ACKRange \<times> bytes) result" where
  "ACKRange_Decode x buf = decode_rest (ACKRange_DecodeSlice x) buf"

definition ACKRange_DecodeExact :: "ACKRange \<Rightarrow> bytes \<Rightarrow> (wire_error, ACKRange) result" where
  "ACKRange_DecodeExact x buf = no_remain (ACKRange_Decode x buf)"

definition StreamACKPacket_EncodeCopy :: "StreamACKPacket \<Rightarrow> bytes \<Rightarrow> (wire_error, bytes) result" where
  "StreamACKPacket_EncodeCopy x reserved = encode_copy (StreamACKPacket_Write x bytesBuffer) reserved"

definition StreamACKPacket_MustEncodeCopy :: "StreamACKPacket \<Rightarrow> bytes \<Rightarrow> bytes option" where
  "StreamACKPacket_MustEncodeCopy x reserved = must (StreamACKPacket_EncodeCopy x reserved)"

definition StreamACKPacket_Encode :: "StreamACKPacket \<Rightarrow> bytes \<Rightarrow> (wire_error, bytes) result" where
  "StreamACKPacket_Encode x buf = encode_slice (StreamACKPacket_EncodeSlice x) buf"

definition StreamACKPacket_MustEncode :: "StreamACKPacket \<Rightarrow> bytes \<Rightarrow> bytes option" where
  "StreamACKPacket_MustEncode x reserved = must (StreamACKPacket_Encode x reserved)"

definition StreamACKPacket_MustAppend :: "StreamACKPacket \<Rightarrow> bytes \<Rightarrow> bytes option" where
  "StreamACKPacket_MustAppend x buf = must (StreamACKPacket_Append x buf)"

definition StreamACKPacket_DecodeCopy :: "StreamACKPacket \<Rightarrow> bytes \<Rightarrow> (wire_error, StreamACKPacket \<times> bytes) result" where
  "StreamACKPacket_DecodeCopy x buf = decode_copy (StreamACKPacket_Read x) buf"

definition StreamACKPacket_DecodeExactCopy :: "StreamACKPacket \<Rightarrow> bytes \<Rightarrow> (wire_error, StreamACKPacket) result" where
  "StreamACKPacket_DecodeExactCopy x buf = no_remain (StreamACKPacket_DecodeCopy x buf)"

definition StreamACKPacket_Decode :: "StreamACKPacket \<Rightarrow> bytes \<Rightarrow> (wire_error, StreamACKPacket \<times> bytes) result" where
  "StreamACKPacket_Decode x buf = decode_rest (StreamACKPacket_DecodeSlice x) buf"

definition StreamACKPacket_DecodeExact :: "StreamACKPacket \<Rightarrow> bytes \<Rightarrow> (wire_error, StreamACKPacket) result" where
  "StreamACKPacket_DecodeExact x buf = no_remain (StreamACKPacket_Decode x buf)"

definition UpdateWindow_EncodeCopy :: "UpdateWindow \<Rightarrow> bytes \<Rightarrow> (wire_error, bytes) result" where
  "UpdateWindow_EncodeCopy x reserved = encode_copy (UpdateWindow_Write x bytesBuffer) reserved"

definition UpdateWindow_MustEncodeCopy :: "UpdateWindow \<Rightarrow> bytes \<Rightarrow> bytes option" where
  "UpdateWindow_MustEncodeCopy x reserved = must (UpdateWindow_EncodeCopy x reserved)"

definition UpdateWindow_Encode :: "UpdateWindow \<Rightarrow> bytes \<Rightarrow> (wire_error, bytes) result" where
  "UpdateWindow_Encode x buf = encode_slice (UpdateWindow_EncodeSlice x) buf"

definition UpdateWindow_MustEncode :: "UpdateWindow \<Rightarrow> bytes \<Rightarrow> bytes option" where
  "UpdateWindow_MustEncode x reserved = must (UpdateWindow_Encode x reserved)"

definition UpdateWindow_MustAppend :: "UpdateWindow \<Rightarrow> bytes \<Rightarrow> bytes option" where
  "UpdateWindow_MustAppend x buf = must (UpdateWindow_Append x buf)"

definition UpdateWindow_DecodeCopy :: "UpdateWindow \<Rightarrow> bytes \<Rightarrow> (wire_error, UpdateWindow \<times> bytes) result" where
  "UpdateWindow_DecodeCopy x buf = decode_copy (UpdateWindow_Read x) buf"

definition UpdateWindow_DecodeExactCopy :: "UpdateWindow \<Rightarrow> bytes \<Rightarrow> (wire_error, UpdateWindow) result" where
  "UpdateWindow_DecodeExactCopy x buf = no_remain (UpdateWindow_DecodeCopy x buf)"

definition UpdateWindow_Decode :: "UpdateWindow \<Rightarrow> bytes \<Rightarrow> (wire_error, UpdateWindow \<times> bytes) result" where
  "UpdateWindow_Decode x buf = decode_rest (UpdateWindow_DecodeSlice x) buf"

definition UpdateWindow_DecodeExact :: "UpdateWindow \<Rightarrow> bytes \<Rightarrow> (wire_error, UpdateWindow) result" where
  "UpdateWindow_DecodeExact x buf = no_remain (UpdateWindow_Decode x buf)"

definition CancelStreamPacket_EncodeCopy :: "CancelStreamPacket \<Rightarrow> bytes \<Rightarrow> (wire_error, bytes) result" where
  "CancelStreamPacket_EncodeCopy x reserved = encode_copy (CancelStreamPacket_Write x bytesBuffer) reserved"

definition CancelStreamPacket_MustEncodeCopy :: "CancelStreamPacket \<Rightarrow> bytes \<Rightarrow> bytes option" where
  "CancelStreamPacket_MustEncodeCopy x reserved = must (CancelStreamPacket_EncodeCopy x reserved)"

definition CancelStreamPacket_Encode :: "CancelStreamPacket \<Rightarrow> bytes \<Rightarrow> (wire_error, bytes) result" where
  "CancelStreamPacket_Encode x buf = encode_slice (CancelStreamPacket_EncodeSlice x) buf"

definition CancelStreamPacket_MustEncode :: "CancelStreamPacket \<Rightarrow> bytes \<Rightarrow> bytes option" where
  "CancelStreamPacket_MustEncode x reserved = must (CancelStreamPacket_Encode x reserved)"

definition CancelStreamPacket_MustAppend :: "CancelStreamPacket \<Rightarrow> bytes \<Rightarrow> bytes option" where
  "CancelStreamPacket_MustAppend x buf = must (CancelStreamPacket_Append x buf)"

definition CancelStreamPacket_DecodeCopy :: "CancelStreamPacket \<Rightarrow> bytes \<Rightarrow> (wire_error, CancelStreamPacket \<times> bytes) result" where
  "CancelStreamPacket_DecodeCopy x buf = decode_copy (CancelStreamPacket_Read x) buf"

definition CancelStreamPacket_DecodeExactCopy :: "CancelStreamPacket \<Rightarrow> bytes \<Rightarrow> (wire_error, CancelStreamPacket) result" where
  "CancelStreamPacket_DecodeExactCopy x buf = no_remain (CancelStreamPacket_DecodeCopy x buf)"

definition CancelStreamPacket_Decode :: "CancelStreamPacket \<Rightarrow> bytes \<Rightarrow> (wire_error, CancelStreamPacket \<times> bytes) result" where
  "CancelStreamPacket_Decode x buf = decode_rest (CancelStreamPacket_DecodeSlice x) buf"

definition CancelStreamPacket_DecodeExact :: "CancelStreamPacket \<Rightarrow> bytes \<Rightarrow> (wire_error, CancelStreamPacket) result" where
  "CancelStreamPacket_DecodeExact x buf = no_remain (CancelStreamPacket_Decode x buf)"

definition PingBody_EncodeCopy :: "PingBody \<Rightarrow> bytes \<Rightarrow> (wire_error, bytes) result" where
  "PingBody_EncodeCopy x reserved = encode_copy (PingBody_Write x bytesBuffer) reserved"

definition PingBody_MustEncodeCopy :: "PingBody \<Rightarrow> bytes \<Rightarrow> bytes option" where
  "PingBody_MustEncodeCopy x reserved = must (PingBody_EncodeCopy x reserved)"

definition PingBody_Encode :: "PingBody \<Rightarrow> bytes \<Rightarrow> (wire_error, bytes) result" where
  "PingBody_Encode x buf = encode_slice (PingBody_EncodeSlice x) buf"

definition PingBody_MustEncode :: "PingBody \<Rightarrow> bytes \<Rightarrow> bytes option" where
  "PingBody_MustEncode x reserved = must (PingBody_Encode x reserved)"

definition PingBody_MustAppend :: "PingBody \<Rightarrow> bytes \<Rightarrow> bytes option" where
  "PingBody_MustAppend x buf = must (PingBody_Append x buf)"

definition PingBody_DecodeCopy :: "bytes \<Rightarrow> (wire_error, PingBody \<times> bytes) result" where
  "PingBody_DecodeCopy buf = decode_copy PingBody_Read buf"

definition PingBody_DecodeExactCopy :: "bytes \<Rightarrow> (wire_error, PingBody) result" where
  "PingBody_DecodeExactCopy buf = no_remain (PingBody_DecodeCopy buf)"

definition PingBody_Decode :: "bytes \<Rightarrow> (wire_error, PingBody \<times> bytes) result" where
  "PingBody_Decode buf = decode_rest PingBody_DecodeSlice buf"

definition CloseBody_EncodeCopy :: "CloseBody \<Rightarrow> bytes \<Rightarrow> (wire_error, bytes) result" where
  "CloseBody_EncodeCopy x reserved = encode_copy (CloseBody_Write x bytesBuffer) reserved"

definition CloseBody_MustEncodeCopy :: "CloseBody \<Rightarrow> bytes \<Rightarrow> bytes option" where
  "CloseBody_MustEncodeCopy x reserved = must (CloseBody_EncodeCopy x reserved)"

definition CloseBody_Encode :: "CloseBody \<Rightarrow> bytes \<Rightarrow> (wire_error, bytes) result" where
  "CloseBody_Encode x buf = encode_slice (CloseBody_EncodeSlice x) buf"

definition CloseBody_MustEncode :: "CloseBody \<Rightarrow> bytes \<Rightarrow> bytes option" where
  "CloseBody_MustEncode x reserved = must (CloseBody_Encode x reserved)"

definition CloseBody_MustAppend :: "CloseBody \<Rightarrow> bytes \<Rightarrow> bytes option" where
  "CloseBody_MustAppend x buf = must (CloseBody_Append x buf)"

definition CloseBody_DecodeCopy :: "bytes \<Rightarrow> (wire_error, CloseBody \<times> bytes) result" where
  "CloseBody_DecodeCopy buf = decode_copy CloseBody_Read buf"

definition CloseBody_DecodeExactCopy :: "bytes \<Rightarrow> (wire_error, CloseBody) result" where
  "CloseBody_DecodeExactCopy buf = no_remain (CloseBody_DecodeCopy buf)"

definition CloseBody_Decode :: "bytes \<Rightarrow> (wire_error, CloseBody \<times> bytes) result" where
  "CloseBody_Decode buf = decode_rest CloseBody_DecodeSlice buf"

definition PacketHeader_EncodeCopy :: "PacketHeader \<Rightarrow> bytes \<Rightarrow> (wire_error, bytes) result" where
  "PacketHeader_EncodeCopy x reserved = encode_copy (PacketHeader_Write x bytesBuffer) reserved"

definition PacketHeader_MustEncodeCopy :: "PacketHeader \<Rightarrow> bytes \<Rightarrow> bytes option" where
  "PacketHeader_MustEncodeCopy x reserved = must (PacketHeader_EncodeCopy x reserved)"

definition PacketHeader_Encode :: "PacketHeader \<Rightarrow> bytes \<Rightarrow> (wire_error, bytes) result" where
  "PacketHeader_Encode x buf = encode_slice (PacketHeader_EncodeSlice x) buf"

definition PacketHeader_MustEncode :: "PacketHeader \<Rightarrow> bytes \<Rightarrow> bytes option" where
  "PacketHeader_MustEncode x reserved = must (PacketHeader_Encode x reserved)"

definition PacketHeader_MustAppend :: "PacketHeader \<Rightarrow> bytes \<Rightarrow> bytes option" where
  "PacketHeader_MustAppend x buf = must (PacketHeader_Append x buf)"

definition PacketHeader_DecodeCopy :: "bytes \<Rightarrow> (wire_error, PacketHeader \<times> bytes) result" where
  "PacketHeader_DecodeCopy buf = decode_copy PacketHeader_Read buf"

definition PacketHeader_DecodeExactCopy :: "bytes \<Rightarrow> (wire_error, PacketHeader) result" where
  "PacketHeader_DecodeExactCopy buf = no_remain (PacketHeader_DecodeCopy buf)"

definition PacketHeader_Decode :: "bytes \<Rightarrow> (wire_error, PacketHeader \<times> bytes) result" where
  "PacketHeader_Decode buf = decode_rest PacketHeader_DecodeSlice buf"

definition PacketHeader_DecodeExact :: "bytes \<Rightarrow> (wire_error, PacketHeader) result" where
  "PacketHeader_DecodeExact buf = no_remain (PacketHeader_Decode buf)"

definition StreamAppPacket_EncodeCopy :: "StreamAppPacket \<Rightarrow> bytes \<Rightarrow> (wire_error, bytes) result" where
  "StreamAppPacket_EncodeCopy x reserved = encode_copy (StreamAppPacket_Write x bytesBuffer) reserved"

definition StreamAppPacket_MustEncodeCopy :: "StreamAppPacket \<Rightarrow> bytes \<Rightarrow> bytes option" where
  "StreamAppPacket_MustEncodeCopy x reserved = must (StreamAppPacket_EncodeCopy x reserved)"

definition StreamAppPacket_Encode :: "StreamAppPacket \<Rightarrow> bytes \<Rightarrow> (wire_error, bytes) result" where
  "StreamAppPacket_Encode x buf = encode_slice (StreamAppPacket_EncodeSlice x) buf"

definition StreamAppPacket_MustEncode :: "StreamAppPacket \<Rightarrow> bytes \<Rightarrow> bytes option" where
  "StreamAppPacket_MustEncode x reserved = must (StreamAppPacket_Encode x reserved)"

definition StreamAppPacket_MustAppend :: "StreamAppPacket \<Rightarrow> bytes \<Rightarrow> bytes option" where
  "StreamAppPacket_MustAppend x buf = must (StreamAppPacket_Append x buf)"

definition StreamAppPacket_DecodeCopy :: "StreamAppPacket \<Rightarrow> bytes \<Rightarrow> (wire_error, StreamAppPacket \<times> bytes) result" where
  "StreamAppPacket_DecodeCopy x buf = decode_copy (StreamAppPacket_Read x) buf"

definition StreamAppPacket_DecodeExactCopy :: "StreamAppPacket \<Rightarrow> bytes \<Rightarrow> (wire_error, StreamAppPacket) result" where
  "StreamAppPacket_DecodeExactCopy x buf = no_remain (StreamAppPacket_DecodeCopy x buf)"

definition StreamAppPacket_Decode :: "StreamAppPacket \<Rightarrow> bytes \<Rightarrow> (wire_error, StreamAppPacket \<times> bytes) result" where
  "StreamAppPacket_Decode x buf = decode_rest (StreamAppPacket_DecodeSlice x) buf"

section \<open>Encoders\<close>

lemma Varint_cells_wire: "Varint_Append v buf = Inr (buf @ Varint_cells v)"
  by (simp add: Varint_Append_def Varint_cells_def Let_def)

lemma Varint_cells_not_Nil [simp]: "Varint_cells v \<noteq> []"
  using Prefix_cases[of v] by (auto simp: Varint_cells_def Let_def)

lemma Prefix_le_3 [simp]: "Prefix v \<in> {0, 1, 2, 3}"
  using Prefix_cases[of v] by simp

lemma Varint_Write_cells: "Varint_Write v W = wr_Write W (Varint_cells v)"
  unfolding Varint_Write_def by (rule if_P) (rule Prefix_le_3)

lemma Varint_slices: "fills (Varint_EncodeSlice v) (Some (Varint_cells v))"
  unfolding fills_def
proof (intro allI impI)
  fix buf :: bytes and off assume off: "off \<le> length buf"
  let ?c = "Varint_cells v" and ?buf = "buf[off := push_bit 6 (Prefix v AND 3)]"
  obtain n where c: "length ?c = Suc n" by (cases ?c) simp_all
  have e: "Varint_EncodeSlice v (buf, off) = (if length buf < off + 1 then (Inl (NotEnoughSpace ''Varint::tmp407::Value''), (buf, off))
      else put_slice ''Varint::tmp407::Value'' ?c (?buf, off))"
    unfolding Varint_EncodeSlice_def prod.case Let_def by (simp only: Prefix_le_3 if_True)
  have t: "take off ?buf = take off buf" "drop (off + length ?c) ?buf = drop (off + length ?c) buf" using c by simp_all
  show "case Some ?c of
        Some ws \<Rightarrow>
          if off + length ws \<le> length buf
          then Varint_EncodeSlice v (buf, off) = (Inr (), (take off buf @ ws @ drop (off + length ws) buf, off + length ws))
          else (\<exists>e buf' off'. Varint_EncodeSlice v (buf, off) = (Inl e, (buf', off')) \<and> length buf' = length buf)
      | None \<Rightarrow> \<exists>e buf' off'. Varint_EncodeSlice v (buf, off) = (Inl e, (buf', off')) \<and> length buf' = length buf"
    unfolding e put_slice_def using c t by auto
qed

lemma accepted_Inr: "(\<And>buf. app x buf = Inr (buf @ w)) \<Longrightarrow> accepted app x = Some w"
  by (simp add: accepted_def)

lemma Varint_accepted [simp]: "accepted Varint_Append v = Some (Varint_cells v)"
  by (simp add: accepted_def Varint_cells_wire)

interpretation varint: encoder_variants Varint_Append "\<lambda>v. Varint_Write v bytesBuffer" Varint_EncodeSlice
  by unfold_locales (simp_all add: Varint_cells_wire Varint_Write_cells buffered Varint_slices)

interpretation ack_range: encoder_variants ACKRange_Append "\<lambda>v. ACKRange_Write v bytesBuffer" ACKRange_EncodeSlice
proof
  show "fills (ACKRange_EncodeSlice a) (accepted ACKRange_Append a)" for a
    unfolding ACKRange_EncodeSlice_def
    by (rule fills_cong, (rule fills_rules varint.slices)+) (simp add: accepted_def ACKRange_Append_def Varint_cells_wire)
qed (simp_all add: ACKRange_Append_def ACKRange_Write_def Varint_cells_wire Varint_Write_cells buffered)

interpretation update_window: encoder_variants UpdateWindow_Append "\<lambda>v. UpdateWindow_Write v bytesBuffer" UpdateWindow_EncodeSlice
proof
  show "fills (UpdateWindow_EncodeSlice a) (accepted UpdateWindow_Append a)" for a
    unfolding UpdateWindow_EncodeSlice_def
    by (rule fills_cong, (rule fills_rules varint.slices)+) (simp add: accepted_def UpdateWindow_Append_def Varint_cells_wire)
qed (simp_all add: UpdateWindow_Append_def UpdateWindow_Write_def Varint_cells_wire Varint_Write_cells buffered)

interpretation cancel_stream: encoder_variants CancelStreamPacket_Append "\<lambda>v. CancelStreamPacket_Write v bytesBuffer" CancelStreamPacket_EncodeSlice
proof
  show "fills (CancelStreamPacket_EncodeSlice a) (accepted CancelStreamPacket_Append a)" for a
    unfolding CancelStreamPacket_EncodeSlice_def
    by (rule fills_cong, (rule fills_rules varint.slices)+) (simp add: accepted_def CancelStreamPacket_Append_def Varint_cells_wire)
qed (simp_all add: CancelStreamPacket_Append_def CancelStreamPacket_Write_def Varint_cells_wire Varint_Write_cells buffered)

interpretation ping_body: encoder_variants PingBody_Append "\<lambda>v. PingBody_Write v bytesBuffer" PingBody_EncodeSlice
proof
  show "fills (PingBody_EncodeSlice a) (accepted PingBody_Append a)" for a
    unfolding PingBody_EncodeSlice_def
    by (rule fills_cong, (rule fills_rules)+) (simp add: accepted_def PingBody_Append_def)
qed (simp_all add: PingBody_Append_def PingBody_Write_def buffered)

interpretation packet_header: encoder_variants PacketHeader_Append "\<lambda>v. PacketHeader_Write v bytesBuffer" PacketHeader_EncodeSlice
proof
  show "fills (PacketHeader_EncodeSlice a) (accepted PacketHeader_Append a)" for a
    unfolding PacketHeader_EncodeSlice_def
    by (rule fills_cong, (rule fills_rules)+) (simp add: accepted_def PacketHeader_Append_def)
qed (simp_all add: PacketHeader_Append_def PacketHeader_Write_def buffered)

interpretation close_body: encoder_variants CloseBody_Append "\<lambda>v. CloseBody_Write v bytesBuffer" CloseBody_EncodeSlice
proof
  show "fills (CloseBody_EncodeSlice c) (accepted CloseBody_Append c)" for c
    unfolding CloseBody_EncodeSlice_def
    by (rule fills_cong, (rule fills_rules)+) (simp add: accepted_def CloseBody_Append_def)
qed (simp_all add: CloseBody_Append_def CloseBody_Write_def buffered)

interpretation stream_packet: encoder_variants StreamPacket_Append "\<lambda>v. StreamPacket_Write v bytesBuffer" StreamPacket_EncodeSlice
proof
  show "fills (StreamPacket_EncodeSlice s) (accepted StreamPacket_Append s)" for s
    unfolding StreamPacket_EncodeSlice_def
    by (rule fills_cong, (rule fills_seq fills_put fills_if varint.slices fills_return)+)
      (simp add: accepted_def StreamPacket_Append_def StreamPacket_flags_def Varint_cells_wire Let_def)
qed (simp_all add: StreamPacket_Append_def StreamPacket_Write_def StreamPacket_flags_def Varint_cells_wire Varint_Write_cells buffered Let_def)

lemma append_ranges_eq: "append_ranges rs buf = Inr (buf @ concat (map (\<lambda>a. Varint_cells (ar_Offset a) @ Varint_cells (ar_Delta a)) rs))"
  by (induction rs arbitrary: buf) (simp_all add: ACKRange_Append_def Varint_cells_wire)

lemma ranges_slices:
  "fills (io_seq (map ACKRange_EncodeSlice rs)) (Some (concat (map (\<lambda>a. Varint_cells (ar_Offset a) @ Varint_cells (ar_Delta a)) rs)))"
proof (induction rs)
  case (Cons a rs)
  have "accepted ACKRange_Append a = Some (Varint_cells (ar_Offset a) @ Varint_cells (ar_Delta a))"
    by (simp add: accepted_def ACKRange_Append_def Varint_cells_wire)
  then show ?case using fills_seq(2)[OF ack_range.slices[of a] Cons.IH] by simp
qed (simp add: fills_seq)

lemma ranges_buffered:
  "encode_copy (io_seq (map (\<lambda>a. ACKRange_Write a bytesBuffer) rs)) buf = append_ranges rs buf"
  by (induction rs arbitrary: buf) (simp_all add: buffered ack_range.buffers[simplified] append_ranges_eq ACKRange_Append_def Varint_cells_wire)

interpretation stream_ack: encoder_variants StreamACKPacket_Append "\<lambda>v. StreamACKPacket_Write v bytesBuffer" StreamACKPacket_EncodeSlice
proof
  show "fills (StreamACKPacket_EncodeSlice s) (accepted StreamACKPacket_Append s)" for s
    unfolding StreamACKPacket_EncodeSlice_def
    by (rule fills_cong, (rule fills_rules varint.slices ranges_slices)+)
      (simp add: accepted_def StreamACKPacket_Append_def Varint_cells_wire append_ranges_eq)
qed (simp_all add: StreamACKPacket_Append_def StreamACKPacket_Write_def Varint_cells_wire Varint_Write_cells buffered ranges_buffered append_ranges_eq)


lemma StreamAppPacket_branches:
  "StreamAppPacket_Append s buf =
     (if Kind (Header s) = 3 then StreamPacket_Append (var_StreamData s) (buf @ [Kind (Header s)])
      else if Kind (Header s) = 4 then CancelStreamPacket_Append (var_StreamCancel s) (buf @ [Kind (Header s)])
      else if Kind (Header s) = 5 then StreamACKPacket_Append (var_StreamAck s) (buf @ [Kind (Header s)])
      else if Kind (Header s) = 6 then UpdateWindow_Append (var_WindowUpdate s) (buf @ [Kind (Header s)])
      else Inl UnexpectedPacket)"
  by (simp add: StreamAppPacket_Append_def PacketHeader_Append_def)

interpretation stream_app: encoder_variants StreamAppPacket_Append "\<lambda>v. StreamAppPacket_Write v bytesBuffer" StreamAppPacket_EncodeSlice
proof
  fix s :: StreamAppPacket and buf
  let ?k = "Kind (Header s)"
  show "StreamAppPacket_Append s buf = map_sum id (\<lambda>w. buf @ w) (StreamAppPacket_Append s [])"
    using stream_packet.after_tag cancel_stream.after_tag stream_ack.after_tag update_window.after_tag
    by (simp add: StreamAppPacket_branches)
  show "encode_copy (StreamAppPacket_Write s bytesBuffer) buf = StreamAppPacket_Append s buf"
    by (simp add: StreamAppPacket_branches StreamAppPacket_Write_def buffered packet_header.buffers PacketHeader_Append_def
        stream_packet.buffers cancel_stream.buffers stream_ack.buffers update_window.buffers)
  have "fills (if ?k = 3 then StreamPacket_EncodeSlice (var_StreamData s)
      else if ?k = 4 then CancelStreamPacket_EncodeSlice (var_StreamCancel s)
      else if ?k = 5 then StreamACKPacket_EncodeSlice (var_StreamAck s)
      else if ?k = 6 then UpdateWindow_EncodeSlice (var_WindowUpdate s) else io_fail UnexpectedPacket)
    (if ?k = 3 then accepted StreamPacket_Append (var_StreamData s)
      else if ?k = 4 then accepted CancelStreamPacket_Append (var_StreamCancel s)
      else if ?k = 5 then accepted StreamACKPacket_Append (var_StreamAck s)
      else if ?k = 6 then accepted UpdateWindow_Append (var_WindowUpdate s) else None)"
    by (intro fills_if fills_fail stream_packet.slices cancel_stream.slices stream_ack.slices update_window.slices)
  note fills_seq(2)[OF packet_header.slices fills_seq(2)[OF this fills_seq(1)]]
  then show "fills (StreamAppPacket_EncodeSlice s) (accepted StreamAppPacket_Append s)"
    unfolding StreamAppPacket_EncodeSlice_def
    by (rule fills_cong) (simp add: stream_packet.accepted_tag cancel_stream.accepted_tag stream_ack.accepted_tag
        update_window.accepted_tag accepted_def[of StreamAppPacket_Append] StreamAppPacket_branches accepted_def[of PacketHeader_Append]
        PacketHeader_Append_def)
qed

section \<open>Decoders\<close>

lemma Varint_agrees: "agrees (Varint_Read v) (Varint_DecodeSlice v)"
proof -
  let ?v = "\<lambda>b. SetPrefix v (drop_bit 6 (b ! 0 AND 192))" and ?e = "NotEnoughData ''Varint::tmp407::Value''"
  let ?n = "\<lambda>n h buf off. if length buf - off < n then Inl ?e else Inr (h (take n (drop off buf)), off + n)"
  let ?g = "\<lambda>(b :: bytes) (buf :: bytes) (off :: nat).
     if Prefix (?v b) = 0 then Inr (settmp413 (?v b) (ucast (b ! 0 AND 63)), off)
     else if Prefix (?v b) = 1 then
       ?n 1 (\<lambda>c. settmp413 (?v b) (ucast ((push_bit 8 (ucast (b ! 0 AND 63)) OR ucast (c ! 0)) :: u16))) buf off
     else if Prefix (?v b) = 2 then
       ?n 3 (\<lambda>c. settmp413 (?v b) (ucast ((push_bit 24 (ucast (b ! 0 AND 63)) OR push_bit 16 (ucast (c ! 0))
            OR push_bit 8 (ucast (c ! 1)) OR ucast (c ! 2)) :: u32))) buf off
     else if Prefix (?v b) = 3 then
       ?n 7 (\<lambda>c. settmp413 (?v b) (push_bit 56 (ucast (b ! 0 AND 63)) OR push_bit 48 (ucast (c ! 0))
            OR push_bit 40 (ucast (c ! 1)) OR push_bit 32 (ucast (c ! 2)) OR push_bit 24 (ucast (c ! 3)) OR push_bit 16 (ucast (c ! 4))
            OR push_bit 8 (ucast (c ! 5)) OR ucast (c ! 6))) buf off
     else Inr (?v b, off)"
  have idx: "off + 3 = Suc (Suc (Suc off))" "off + 4 = Suc (Suc (Suc (Suc off)))" "off + 5 = Suc (Suc (Suc (Suc (Suc off))))" "off + 6 = Suc (Suc (Suc (Suc (Suc (Suc off)))))" "off + 7 = Suc (Suc (Suc (Suc (Suc (Suc (Suc off))))))" for off :: nat
    by simp_all
  have "agrees (Varint_Read v) (\<lambda>buf off. if length buf - off < 1 then Inl (NotEnoughData ''Varint::Prefix'')
     else ?g (take 1 (drop off buf)) buf (off + 1))"
    unfolding Varint_Read_def Let_def
    by (rule agrees_read_full) (intro agrees_if agrees_return agrees_read_return)
  then show ?thesis by (rule agrees_cong) (simp add: Varint_DecodeSlice_def Let_def idx)
qed

lemma ACKRange_agrees: "agrees (ACKRange_Read v) (ACKRange_DecodeSlice v)"
  unfolding ACKRange_Read_def ACKRange_DecodeSlice_def[abs_def]
  by (intro agrees_bind agrees_return Varint_agrees)

lemma UpdateWindow_agrees: "agrees (UpdateWindow_Read v) (UpdateWindow_DecodeSlice v)"
  unfolding UpdateWindow_Read_def UpdateWindow_DecodeSlice_def[abs_def]
  by (intro agrees_bind agrees_return Varint_agrees)

lemma CancelStreamPacket_agrees: "agrees (CancelStreamPacket_Read v) (CancelStreamPacket_DecodeSlice v)"
  unfolding CancelStreamPacket_Read_def CancelStreamPacket_DecodeSlice_def[abs_def]
  by (intro agrees_bind agrees_return Varint_agrees)

lemma PingBody_agrees: "agrees PingBody_Read PingBody_DecodeSlice"
  unfolding agrees_def PingBody_Read_def PingBody_DecodeSlice_def io_simps by (auto simp: add.commute)

lemma PacketHeader_agrees: "agrees PacketHeader_Read PacketHeader_DecodeSlice"
  unfolding agrees_def PacketHeader_Read_def PacketHeader_DecodeSlice_def io_simps by (auto simp: add.commute)

lemma CloseBody_agrees: "agrees CloseBody_Read CloseBody_DecodeSlice"
  unfolding agrees_def CloseBody_Read_def CloseBody_DecodeSlice_def Let_def io_simps read_sized_def copy_n_def
  by (auto simp: add.commute numeral_3_eq_3)

lemma ranges_agree: "agrees (read_ranges n acc) (\<lambda>buf off. decode_ranges n buf off acc)"
proof (induction n arbitrary: acc)
  case (Suc n)
  then show ?case by (simp add: agrees_bind ACKRange_agrees)
qed (simp add: agrees_return)

lemma StreamACKPacket_agrees: "agrees (StreamACKPacket_Read v) (StreamACKPacket_DecodeSlice v)"
  unfolding StreamACKPacket_Read_def StreamACKPacket_DecodeSlice_def[abs_def]
  by (intro agrees_bind agrees_return Varint_agrees ranges_agree)

lemma StreamPacket_agrees: "agrees (StreamPacket_Read s) (StreamPacket_DecodeSlice s)"
proof -
  let ?s = "\<lambda>b. SetReserved (setIsProbe (setIsEof (setHasOffset (setHasId s (drop_bit 7 (b AND 128)))
      (drop_bit 6 (b AND 64))) (drop_bit 5 (b AND 32))) (drop_bit 4 (b AND 16))) (b AND 15)"
  let ?id = "\<lambda>s buf off. if hasId s = 1 then rbind (Varint_DecodeSlice (sp_Id s) buf off) (\<lambda>(v, off). Inr (s\<lparr>sp_Id := v\<rparr>, off)) else Inr (s, off)"
  let ?of = "\<lambda>s buf off. if hasOffset s = 1 then rbind (Varint_DecodeSlice (sp_Offset s) buf off) (\<lambda>(v, off). Inr (s\<lparr>sp_Offset := v\<rparr>, off)) else Inr (s, off)"
  let ?d = "\<lambda>s buf off. Inr (s\<lparr>sp_Data := drop off buf\<rparr>, off + length (drop off buf))"
  have d: "agrees (io_bind read_all (\<lambda>d. io_return (s\<lparr>sp_Data := d\<rparr>))) (?d s)" for s :: StreamPacket
    by (rule agrees_read_all) (rule agrees_return)
  have "agrees (StreamPacket_Read s) (\<lambda>buf off. if length buf - off < 1 then Inl (NotEnoughData ''tmp291'')
     else (\<lambda>c buf off. rbind (?id (?s (c ! 0)) buf off) (\<lambda>(s, off). rbind (?of s buf off) (\<lambda>(s, off). ?d s buf off)))
       (take 1 (drop off buf)) buf (off + 1))"
    unfolding StreamPacket_Read_def Let_def
    by (rule agrees_read_full) (intro agrees_bind agrees_if agrees_return Varint_agrees d)
  then show ?thesis by (rule agrees_cong) (simp add: StreamPacket_DecodeSlice_def Let_def)
qed

lemma StreamAppPacket_agrees: "agrees (StreamAppPacket_Read s) (StreamAppPacket_DecodeSlice s)"
  unfolding StreamAppPacket_Read_def StreamAppPacket_DecodeSlice_def[abs_def]
  by (intro agrees_bind agrees_if agrees_return agrees_fail PacketHeader_agrees StreamPacket_agrees
      CancelStreamPacket_agrees StreamACKPacket_agrees UpdateWindow_agrees)

interpretation varint: decoder_variants "Varint_Read v" "Varint_DecodeSlice v" by unfold_locales (rule Varint_agrees)
interpretation stream_packet: decoder_variants "StreamPacket_Read s" "StreamPacket_DecodeSlice s" by unfold_locales (rule StreamPacket_agrees)
interpretation ack_range: decoder_variants "ACKRange_Read s" "ACKRange_DecodeSlice s" by unfold_locales (rule ACKRange_agrees)
interpretation stream_ack: decoder_variants "StreamACKPacket_Read s" "StreamACKPacket_DecodeSlice s" by unfold_locales (rule StreamACKPacket_agrees)
interpretation update_window: decoder_variants "UpdateWindow_Read s" "UpdateWindow_DecodeSlice s" by unfold_locales (rule UpdateWindow_agrees)
interpretation cancel_stream: decoder_variants "CancelStreamPacket_Read s" "CancelStreamPacket_DecodeSlice s" by unfold_locales (rule CancelStreamPacket_agrees)
interpretation ping_body: decoder_variants PingBody_Read PingBody_DecodeSlice by unfold_locales (rule PingBody_agrees)
interpretation close_body: decoder_variants CloseBody_Read CloseBody_DecodeSlice by unfold_locales (rule CloseBody_agrees)
interpretation packet_header: decoder_variants PacketHeader_Read PacketHeader_DecodeSlice by unfold_locales (rule PacketHeader_agrees)
interpretation stream_app: decoder_variants "StreamAppPacket_Read s" "StreamAppPacket_DecodeSlice s" by unfold_locales (rule StreamAppPacket_agrees)

section \<open>Properties\<close>

text \<open>
  C38: the methods of a transport packet agree. For every packet of the union, valid or not, \<open>EncodeCopy\<close>
  returns what \<open>Append\<close> returns, errors included; when \<open>Append\<close> adds \<open>w\<close>, \<open>Encode\<close> returns \<open>w\<close> for each
  buffer with room for it and an error for any other, and when \<open>Append\<close> refuses, so does \<open>Encode\<close>. For all
  input bytes, \<open>DecodeCopy\<close>, which goes through an \<open>io.Reader\<close>, gives the packet and the rest that \<open>Decode\<close>
  gives, or both fail.
\<close>

theorem transport_codecs_agree:
  "StreamAppPacket_EncodeCopy x buf = StreamAppPacket_Append x buf \<and>
   (case StreamAppPacket_Append x buf of
      Inr out \<Rightarrow> \<exists>w. out = buf @ w \<and>
        (\<forall>space. if length w \<le> length space then StreamAppPacket_Encode x space = Inr w
                 else \<exists>e. StreamAppPacket_Encode x space = Inl e)
    | Inl _ \<Rightarrow> \<forall>space. \<exists>e. StreamAppPacket_Encode x space = Inl e) \<and>
   (case StreamAppPacket_Decode s input of
      Inr p \<Rightarrow> StreamAppPacket_DecodeCopy s input = Inr p
    | Inl _ \<Rightarrow> \<exists>e. StreamAppPacket_DecodeCopy s input = Inl e)"
  unfolding StreamAppPacket_EncodeCopy_def StreamAppPacket_Encode_def StreamAppPacket_Decode_def StreamAppPacket_DecodeCopy_def
  using stream_app.encoders_agree[of x buf] stream_app.decoders_agree[of s input] by blast

end
