(* ===== verification/Obj_Variants.thy ===== *)
theory Obj_Variants
  imports Obj_Packet Codec_Io
begin

text \<open>
  The other methods of the formats in \<open>src/objproto/packet/packet.go\<close>: \<open>Write\<close>, \<open>EncodeSlice\<close> and \<open>Read\<close>,
  with their wrappers, the format \<open>EncryptedData\<close>, and the proof that all methods of a format agree.
\<close>

unbundle bit_operations_syntax

section \<open>EncryptedData\<close>

record EncryptedData =
  ed_NonceCounter :: u64
  ed_Data :: bytes

definition EncryptedData_Append :: "EncryptedData encoder" where
  "EncryptedData_Append e buf = (let buf = buf @ PutUint64 (ed_NonceCounter e) in Inr (buf @ ed_Data e))"

definition EncryptedData_DecodeSlice :: "EncryptedData decoder" where
  "EncryptedData_DecodeSlice buf off =
     (if length buf - off < 8 then Inl (NotEnoughData ''EncryptedData::NonceCounter'')
      else
        let n = Uint64 (take 8 (drop off buf)); off = off + 8 in
        Inr (\<lparr>ed_NonceCounter = n, ed_Data = drop off buf\<rparr>, off + length (drop off buf)))"

section \<open>Writers, slices and readers\<close>

definition EncryptedData_Write :: "EncryptedData \<Rightarrow> 's writer \<Rightarrow> ('s, unit) io" where
  "EncryptedData_Write e W = io_seq [wr_Write W (PutUint64 (ed_NonceCounter e)), wr_Write W (ed_Data e)]"

definition EncryptedData_EncodeSlice :: "EncryptedData \<Rightarrow> (cursor, unit) io" where
  "EncryptedData_EncodeSlice e = io_seq
     [put_slice ''EncryptedData::NonceCounter'' (PutUint64 (ed_NonceCounter e)), put_slice ''EncryptedData::Data'' (ed_Data e)]"

definition EncryptedData_Read :: "(reader, EncryptedData) io" where
  "EncryptedData_Read =
     io_bind (read_full 8) (\<lambda>n.
     io_bind read_all (\<lambda>d.
     io_return \<lparr>ed_NonceCounter = Uint64 n, ed_Data = d\<rparr>))"

definition IPAddress_Write :: "IPAddress \<Rightarrow> 's writer \<Rightarrow> ('s, unit) io" where
  "IPAddress_Write i W = io_seq
     [write_byte W (ip_Len i),
      io_check (\<not> (ip_Len i = 4 \<or> ip_Len i = 16)) AssertionFailed,
      io_check (length (ip_Address i) \<noteq> unat (ip_Len i)) (SizeMismatch (unat (ip_Len i)) (length (ip_Address i))),
      wr_Write W (ip_Address i)]"

definition IPAddress_EncodeSlice :: "IPAddress \<Rightarrow> (cursor, unit) io" where
  "IPAddress_EncodeSlice i = io_seq
     [put_slice ''IPAddress::Len'' [ip_Len i],
      io_check (\<not> (ip_Len i = 4 \<or> ip_Len i = 16)) AssertionFailed,
      io_check (length (ip_Address i) \<noteq> unat (ip_Len i)) (SizeMismatch (unat (ip_Len i)) (length (ip_Address i))),
      put_slice ''IPAddress::Address'' (ip_Address i)]"

definition IPAddress_Read :: "(reader, IPAddress) io" where
  "IPAddress_Read =
     io_bind (read_full 1) (\<lambda>b.
     let n = b ! 0 in
     if \<not> (n = 4 \<or> n = 16) then io_fail AssertionFailed
     else io_bind (read_sized (unat n)) (\<lambda>a. io_return \<lparr>ip_Len = n, ip_Address = a\<rparr>))"

definition MacAddress_Write :: "MacAddress \<Rightarrow> 's writer \<Rightarrow> ('s, unit) io" where
  "MacAddress_Write m W = io_seq [wr_Write W (take 6 (mac_Address m))]"

definition MacAddress_EncodeSlice :: "MacAddress \<Rightarrow> (cursor, unit) io" where
  "MacAddress_EncodeSlice m = io_seq [put_slice ''MacAddress::Address'' (take 6 (mac_Address m))]"

definition MacAddress_Read :: "(reader, MacAddress) io" where
  "MacAddress_Read = io_bind (read_full 6) (\<lambda>a. io_return \<lparr>mac_Address = a\<rparr>)"

definition ObjProbe_Write :: "ObjProbe \<Rightarrow> 's writer \<Rightarrow> ('s, unit) io" where
  "ObjProbe_Write p W = io_seq
     [MacAddress_Write (pb_MacAddress p) W, IPAddress_Write (pb_IpAddress p) W, wr_Write W (PutUint16 (pb_Port p))]"

definition ObjProbe_EncodeSlice :: "ObjProbe \<Rightarrow> (cursor, unit) io" where
  "ObjProbe_EncodeSlice p = io_seq
     [MacAddress_EncodeSlice (pb_MacAddress p), IPAddress_EncodeSlice (pb_IpAddress p),
      put_slice ''Probe::Port'' (PutUint16 (pb_Port p))]"

definition ObjProbe_Read :: "(reader, ObjProbe) io" where
  "ObjProbe_Read =
     io_bind MacAddress_Read (\<lambda>m.
     io_bind IPAddress_Read (\<lambda>i.
     io_bind (read_full 2) (\<lambda>p.
     io_return \<lparr>pb_MacAddress = m, pb_IpAddress = i, pb_Port = Uint16 p\<rparr>)))"

definition Handshake_Write :: "Handshake \<Rightarrow> 's writer \<Rightarrow> ('s, unit) io" where
  "Handshake_Write h W = io_seq
     [wr_Write W (PutUint16 (hs_KeyKind h)), wr_Write W (PutUint16 (hs_CommonKeyKind h)),
      if hs_KeyKind h = KeyKind_Offset
      then (case tmp236 h of None \<Rightarrow> io_fail InvalidUnion | Some x \<Rightarrow> wr_Write W (PutUint16 x)) else io_return (),
      wr_Write W (PutUint16 (hs_Len h)),
      io_check (length (KeyShare h) \<noteq> unat (hs_Len h)) (SizeMismatch (unat (hs_Len h)) (length (KeyShare h))),
      wr_Write W (KeyShare h)]"

definition Handshake_EncodeSlice :: "Handshake \<Rightarrow> (cursor, unit) io" where
  "Handshake_EncodeSlice h = io_seq
     [put_slice ''Handshake::KeyKind'' (PutUint16 (hs_KeyKind h)),
      put_slice ''Handshake::CommonKeyKind'' (PutUint16 (hs_CommonKeyKind h)),
      if hs_KeyKind h = KeyKind_Offset
      then (case tmp236 h of None \<Rightarrow> io_fail InvalidUnion | Some x \<Rightarrow> put_slice ''Handshake::tmp236::Offset'' (PutUint16 x))
      else io_return (),
      put_slice ''Handshake::Len'' (PutUint16 (hs_Len h)),
      io_check (length (KeyShare h) \<noteq> unat (hs_Len h)) (SizeMismatch (unat (hs_Len h)) (length (KeyShare h))),
      put_slice ''Handshake::KeyShare'' (KeyShare h)]"

definition Handshake_Read :: "Handshake \<Rightarrow> (reader, Handshake) io" where
  "Handshake_Read h =
     io_bind (read_full 2) (\<lambda>b.
     let h = h\<lparr>hs_KeyKind := Uint16 b\<rparr> in
     io_bind (read_full 2) (\<lambda>b.
     let h = h\<lparr>hs_CommonKeyKind := Uint16 b\<rparr> in
     io_bind (if hs_KeyKind h = KeyKind_Offset
              then io_bind (read_full 2) (\<lambda>b. io_return (h\<lparr>tmp236 := Some (Uint16 b)\<rparr>)) else io_return h) (\<lambda>h.
     io_bind (read_full 2) (\<lambda>b.
     let h = h\<lparr>hs_Len := Uint16 b\<rparr> in
     io_bind (read_sized (unat (hs_Len h))) (\<lambda>k. io_return (h\<lparr>KeyShare := k\<rparr>))))))"

definition ObjHeader_Write :: "ObjHeader \<Rightarrow> 's writer \<Rightarrow> ('s, unit) io" where
  "ObjHeader_Write p W = io_seq
     [wr_Write W [push_bit 7 (keyPhase p AND 1) OR (MaskSeed p AND 127)], wr_Write W [MaskedKind p],
      wr_Write W (PutUint16 (MaskedConnectionId p)), wr_Write W (PutUint16 (oh_Len p))]"

definition ObjHeader_EncodeSlice :: "ObjHeader \<Rightarrow> (cursor, unit) io" where
  "ObjHeader_EncodeSlice p = io_seq
     [put_slice ''PacketHeader::MaskSeed'' [push_bit 7 (keyPhase p AND 1) OR (MaskSeed p AND 127)],
      put_slice ''PacketHeader::MaskedKind'' [MaskedKind p],
      put_slice ''PacketHeader::MaskedConnectionId'' (PutUint16 (MaskedConnectionId p)),
      put_slice ''PacketHeader::Len'' (PutUint16 (oh_Len p))]"

definition ObjHeader_Read :: "ObjHeader \<Rightarrow> (reader, ObjHeader) io" where
  "ObjHeader_Read p =
     io_bind (read_full 1) (\<lambda>b.
     let p = SetMaskSeed (setKeyPhase p (drop_bit 7 (b ! 0 AND 128))) (b ! 0 AND 127) in
     io_bind (read_full 1) (\<lambda>b.
     let p = p\<lparr>MaskedKind := b ! 0\<rparr> in
     io_bind (read_full 2) (\<lambda>b.
     let p = p\<lparr>MaskedConnectionId := Uint16 b\<rparr> in
     io_bind (read_full 2) (\<lambda>b. io_return (p\<lparr>oh_Len := Uint16 b\<rparr>)))))"

definition ProtectedHeader_cells :: "ProtectedHeader \<Rightarrow> bytes" where
  "ProtectedHeader_cells p =
     [push_bit 7 (control p AND 1) OR ucast (drop_bit 56 (NonceCounter p) AND 127),
      ucast (drop_bit 48 (NonceCounter p) AND 255), ucast (drop_bit 40 (NonceCounter p) AND 255),
      ucast (drop_bit 32 (NonceCounter p) AND 255), ucast (drop_bit 24 (NonceCounter p) AND 255),
      ucast (drop_bit 16 (NonceCounter p) AND 255), ucast (drop_bit 8 (NonceCounter p) AND 255),
      ucast (NonceCounter p AND 255)]"

definition ProtectedHeader_Write :: "ProtectedHeader \<Rightarrow> 's writer \<Rightarrow> ('s, unit) io" where
  "ProtectedHeader_Write p W = io_seq [wr_Write W (ProtectedHeader_cells p)]"

definition ProtectedHeader_EncodeSlice :: "ProtectedHeader \<Rightarrow> (cursor, unit) io" where
  "ProtectedHeader_EncodeSlice p = io_seq [put_slice ''ProtectedHeader::NonceCounter'' (ProtectedHeader_cells p)]"

definition ProtectedHeader_Read :: "ProtectedHeader \<Rightarrow> (reader, ProtectedHeader) io" where
  "ProtectedHeader_Read p =
     io_bind (read_full 8) (\<lambda>b.
     let p = setControl p (drop_bit 7 (b ! 0 AND 128));
         n = push_bit 56 (ucast (b ! 0 AND 127)) OR push_bit 48 (ucast (b ! 1)) OR push_bit 40 (ucast (b ! 2))
             OR push_bit 32 (ucast (b ! 3)) OR push_bit 24 (ucast (b ! 4)) OR push_bit 16 (ucast (b ! 5))
             OR push_bit 8 (ucast (b ! 6)) OR ucast (b ! 7)
     in io_return (SetNonceCounter p n))"

definition Packet_Write :: "Packet \<Rightarrow> 's writer \<Rightarrow> ('s, unit) io" where
  "Packet_Write p W = io_seq
     [ObjHeader_Write (pk_Header p) W,
      io_check (length (pk_Data p) \<noteq> unat (oh_Len (pk_Header p))) (SizeMismatch (unat (oh_Len (pk_Header p))) (length (pk_Data p))),
      wr_Write W (pk_Data p)]"

definition Packet_EncodeSlice :: "Packet \<Rightarrow> (cursor, unit) io" where
  "Packet_EncodeSlice p = io_seq
     [ObjHeader_EncodeSlice (pk_Header p),
      io_check (length (pk_Data p) \<noteq> unat (oh_Len (pk_Header p))) (SizeMismatch (unat (oh_Len (pk_Header p))) (length (pk_Data p))),
      put_slice ''Packet::Data'' (pk_Data p)]"

definition Packet_Read :: "Packet \<Rightarrow> (reader, Packet) io" where
  "Packet_Read p =
     io_bind (ObjHeader_Read (pk_Header p)) (\<lambda>h.
     io_bind (read_sized (unat (oh_Len h))) (\<lambda>d.
     io_return \<lparr>pk_Header = h, pk_Data = d\<rparr>))"

section \<open>Wrappers\<close>

definition IPAddress_EncodeCopy :: "IPAddress \<Rightarrow> bytes \<Rightarrow> (wire_error, bytes) result" where
  "IPAddress_EncodeCopy x reserved = encode_copy (IPAddress_Write x bytesBuffer) reserved"

definition IPAddress_MustEncodeCopy :: "IPAddress \<Rightarrow> bytes \<Rightarrow> bytes option" where
  "IPAddress_MustEncodeCopy x reserved = must (IPAddress_EncodeCopy x reserved)"

definition IPAddress_Encode :: "IPAddress \<Rightarrow> bytes \<Rightarrow> (wire_error, bytes) result" where
  "IPAddress_Encode x buf = encode_slice (IPAddress_EncodeSlice x) buf"

definition IPAddress_MustEncode :: "IPAddress \<Rightarrow> bytes \<Rightarrow> bytes option" where
  "IPAddress_MustEncode x reserved = must (IPAddress_Encode x reserved)"

definition IPAddress_MustAppend :: "IPAddress \<Rightarrow> bytes \<Rightarrow> bytes option" where
  "IPAddress_MustAppend x buf = must (IPAddress_Append x buf)"

definition IPAddress_DecodeCopy :: "bytes \<Rightarrow> (wire_error, IPAddress \<times> bytes) result" where
  "IPAddress_DecodeCopy buf = decode_copy IPAddress_Read buf"

definition IPAddress_DecodeExactCopy :: "bytes \<Rightarrow> (wire_error, IPAddress) result" where
  "IPAddress_DecodeExactCopy buf = no_remain (IPAddress_DecodeCopy buf)"

definition IPAddress_Decode :: "bytes \<Rightarrow> (wire_error, IPAddress \<times> bytes) result" where
  "IPAddress_Decode buf = decode_rest IPAddress_DecodeSlice buf"

definition IPAddress_DecodeExact :: "bytes \<Rightarrow> (wire_error, IPAddress) result" where
  "IPAddress_DecodeExact buf = no_remain (IPAddress_Decode buf)"

definition MacAddress_EncodeCopy :: "MacAddress \<Rightarrow> bytes \<Rightarrow> (wire_error, bytes) result" where
  "MacAddress_EncodeCopy x reserved = encode_copy (MacAddress_Write x bytesBuffer) reserved"

definition MacAddress_MustEncodeCopy :: "MacAddress \<Rightarrow> bytes \<Rightarrow> bytes option" where
  "MacAddress_MustEncodeCopy x reserved = must (MacAddress_EncodeCopy x reserved)"

definition MacAddress_Encode :: "MacAddress \<Rightarrow> bytes \<Rightarrow> (wire_error, bytes) result" where
  "MacAddress_Encode x buf = encode_slice (MacAddress_EncodeSlice x) buf"

definition MacAddress_MustEncode :: "MacAddress \<Rightarrow> bytes \<Rightarrow> bytes option" where
  "MacAddress_MustEncode x reserved = must (MacAddress_Encode x reserved)"

definition MacAddress_MustAppend :: "MacAddress \<Rightarrow> bytes \<Rightarrow> bytes option" where
  "MacAddress_MustAppend x buf = must (MacAddress_Append x buf)"

definition MacAddress_DecodeCopy :: "bytes \<Rightarrow> (wire_error, MacAddress \<times> bytes) result" where
  "MacAddress_DecodeCopy buf = decode_copy MacAddress_Read buf"

definition MacAddress_DecodeExactCopy :: "bytes \<Rightarrow> (wire_error, MacAddress) result" where
  "MacAddress_DecodeExactCopy buf = no_remain (MacAddress_DecodeCopy buf)"

definition MacAddress_Decode :: "bytes \<Rightarrow> (wire_error, MacAddress \<times> bytes) result" where
  "MacAddress_Decode buf = decode_rest MacAddress_DecodeSlice buf"

definition MacAddress_DecodeExact :: "bytes \<Rightarrow> (wire_error, MacAddress) result" where
  "MacAddress_DecodeExact buf = no_remain (MacAddress_Decode buf)"

definition ObjProbe_EncodeCopy :: "ObjProbe \<Rightarrow> bytes \<Rightarrow> (wire_error, bytes) result" where
  "ObjProbe_EncodeCopy x reserved = encode_copy (ObjProbe_Write x bytesBuffer) reserved"

definition ObjProbe_MustEncodeCopy :: "ObjProbe \<Rightarrow> bytes \<Rightarrow> bytes option" where
  "ObjProbe_MustEncodeCopy x reserved = must (ObjProbe_EncodeCopy x reserved)"

definition ObjProbe_Encode :: "ObjProbe \<Rightarrow> bytes \<Rightarrow> (wire_error, bytes) result" where
  "ObjProbe_Encode x buf = encode_slice (ObjProbe_EncodeSlice x) buf"

definition ObjProbe_MustEncode :: "ObjProbe \<Rightarrow> bytes \<Rightarrow> bytes option" where
  "ObjProbe_MustEncode x reserved = must (ObjProbe_Encode x reserved)"

definition ObjProbe_MustAppend :: "ObjProbe \<Rightarrow> bytes \<Rightarrow> bytes option" where
  "ObjProbe_MustAppend x buf = must (ObjProbe_Append x buf)"

definition ObjProbe_DecodeCopy :: "bytes \<Rightarrow> (wire_error, ObjProbe \<times> bytes) result" where
  "ObjProbe_DecodeCopy buf = decode_copy ObjProbe_Read buf"

definition ObjProbe_DecodeExactCopy :: "bytes \<Rightarrow> (wire_error, ObjProbe) result" where
  "ObjProbe_DecodeExactCopy buf = no_remain (ObjProbe_DecodeCopy buf)"

definition ObjProbe_Decode :: "bytes \<Rightarrow> (wire_error, ObjProbe \<times> bytes) result" where
  "ObjProbe_Decode buf = decode_rest ObjProbe_DecodeSlice buf"

definition Handshake_EncodeCopy :: "Handshake \<Rightarrow> bytes \<Rightarrow> (wire_error, bytes) result" where
  "Handshake_EncodeCopy x reserved = encode_copy (Handshake_Write x bytesBuffer) reserved"

definition Handshake_MustEncodeCopy :: "Handshake \<Rightarrow> bytes \<Rightarrow> bytes option" where
  "Handshake_MustEncodeCopy x reserved = must (Handshake_EncodeCopy x reserved)"

definition Handshake_Encode :: "Handshake \<Rightarrow> bytes \<Rightarrow> (wire_error, bytes) result" where
  "Handshake_Encode x buf = encode_slice (Handshake_EncodeSlice x) buf"

definition Handshake_MustEncode :: "Handshake \<Rightarrow> bytes \<Rightarrow> bytes option" where
  "Handshake_MustEncode x reserved = must (Handshake_Encode x reserved)"

definition Handshake_MustAppend :: "Handshake \<Rightarrow> bytes \<Rightarrow> bytes option" where
  "Handshake_MustAppend x buf = must (Handshake_Append x buf)"

definition Handshake_DecodeCopy :: "Handshake \<Rightarrow> bytes \<Rightarrow> (wire_error, Handshake \<times> bytes) result" where
  "Handshake_DecodeCopy x buf = decode_copy (Handshake_Read x) buf"

definition Handshake_DecodeExactCopy :: "Handshake \<Rightarrow> bytes \<Rightarrow> (wire_error, Handshake) result" where
  "Handshake_DecodeExactCopy x buf = no_remain (Handshake_DecodeCopy x buf)"

definition Handshake_Decode :: "Handshake \<Rightarrow> bytes \<Rightarrow> (wire_error, Handshake \<times> bytes) result" where
  "Handshake_Decode x buf = decode_rest (Handshake_DecodeSlice x) buf"

definition ObjHeader_EncodeCopy :: "ObjHeader \<Rightarrow> bytes \<Rightarrow> (wire_error, bytes) result" where
  "ObjHeader_EncodeCopy x reserved = encode_copy (ObjHeader_Write x bytesBuffer) reserved"

definition ObjHeader_MustEncodeCopy :: "ObjHeader \<Rightarrow> bytes \<Rightarrow> bytes option" where
  "ObjHeader_MustEncodeCopy x reserved = must (ObjHeader_EncodeCopy x reserved)"

definition ObjHeader_Encode :: "ObjHeader \<Rightarrow> bytes \<Rightarrow> (wire_error, bytes) result" where
  "ObjHeader_Encode x buf = encode_slice (ObjHeader_EncodeSlice x) buf"

definition ObjHeader_MustEncode :: "ObjHeader \<Rightarrow> bytes \<Rightarrow> bytes option" where
  "ObjHeader_MustEncode x reserved = must (ObjHeader_Encode x reserved)"

definition ObjHeader_MustAppend :: "ObjHeader \<Rightarrow> bytes \<Rightarrow> bytes option" where
  "ObjHeader_MustAppend x buf = must (ObjHeader_Append x buf)"

definition ObjHeader_DecodeCopy :: "ObjHeader \<Rightarrow> bytes \<Rightarrow> (wire_error, ObjHeader \<times> bytes) result" where
  "ObjHeader_DecodeCopy x buf = decode_copy (ObjHeader_Read x) buf"

definition ObjHeader_DecodeExactCopy :: "ObjHeader \<Rightarrow> bytes \<Rightarrow> (wire_error, ObjHeader) result" where
  "ObjHeader_DecodeExactCopy x buf = no_remain (ObjHeader_DecodeCopy x buf)"

definition ObjHeader_Decode :: "ObjHeader \<Rightarrow> bytes \<Rightarrow> (wire_error, ObjHeader \<times> bytes) result" where
  "ObjHeader_Decode x buf = decode_rest (ObjHeader_DecodeSlice x) buf"

definition ObjHeader_DecodeExact :: "ObjHeader \<Rightarrow> bytes \<Rightarrow> (wire_error, ObjHeader) result" where
  "ObjHeader_DecodeExact x buf = no_remain (ObjHeader_Decode x buf)"

definition ProtectedHeader_EncodeCopy :: "ProtectedHeader \<Rightarrow> bytes \<Rightarrow> (wire_error, bytes) result" where
  "ProtectedHeader_EncodeCopy x reserved = encode_copy (ProtectedHeader_Write x bytesBuffer) reserved"

definition ProtectedHeader_MustEncodeCopy :: "ProtectedHeader \<Rightarrow> bytes \<Rightarrow> bytes option" where
  "ProtectedHeader_MustEncodeCopy x reserved = must (ProtectedHeader_EncodeCopy x reserved)"

definition ProtectedHeader_Encode :: "ProtectedHeader \<Rightarrow> bytes \<Rightarrow> (wire_error, bytes) result" where
  "ProtectedHeader_Encode x buf = encode_slice (ProtectedHeader_EncodeSlice x) buf"

definition ProtectedHeader_MustEncode :: "ProtectedHeader \<Rightarrow> bytes \<Rightarrow> bytes option" where
  "ProtectedHeader_MustEncode x reserved = must (ProtectedHeader_Encode x reserved)"

definition ProtectedHeader_MustAppend :: "ProtectedHeader \<Rightarrow> bytes \<Rightarrow> bytes option" where
  "ProtectedHeader_MustAppend x buf = must (ProtectedHeader_Append x buf)"

definition ProtectedHeader_DecodeCopy :: "ProtectedHeader \<Rightarrow> bytes \<Rightarrow> (wire_error, ProtectedHeader \<times> bytes) result" where
  "ProtectedHeader_DecodeCopy x buf = decode_copy (ProtectedHeader_Read x) buf"

definition ProtectedHeader_DecodeExactCopy :: "ProtectedHeader \<Rightarrow> bytes \<Rightarrow> (wire_error, ProtectedHeader) result" where
  "ProtectedHeader_DecodeExactCopy x buf = no_remain (ProtectedHeader_DecodeCopy x buf)"

definition ProtectedHeader_Decode :: "ProtectedHeader \<Rightarrow> bytes \<Rightarrow> (wire_error, ProtectedHeader \<times> bytes) result" where
  "ProtectedHeader_Decode x buf = decode_rest (ProtectedHeader_DecodeSlice x) buf"

definition ProtectedHeader_DecodeExact :: "ProtectedHeader \<Rightarrow> bytes \<Rightarrow> (wire_error, ProtectedHeader) result" where
  "ProtectedHeader_DecodeExact x buf = no_remain (ProtectedHeader_Decode x buf)"

definition EncryptedData_EncodeCopy :: "EncryptedData \<Rightarrow> bytes \<Rightarrow> (wire_error, bytes) result" where
  "EncryptedData_EncodeCopy x reserved = encode_copy (EncryptedData_Write x bytesBuffer) reserved"

definition EncryptedData_MustEncodeCopy :: "EncryptedData \<Rightarrow> bytes \<Rightarrow> bytes option" where
  "EncryptedData_MustEncodeCopy x reserved = must (EncryptedData_EncodeCopy x reserved)"

definition EncryptedData_Encode :: "EncryptedData \<Rightarrow> bytes \<Rightarrow> (wire_error, bytes) result" where
  "EncryptedData_Encode x buf = encode_slice (EncryptedData_EncodeSlice x) buf"

definition EncryptedData_MustEncode :: "EncryptedData \<Rightarrow> bytes \<Rightarrow> bytes option" where
  "EncryptedData_MustEncode x reserved = must (EncryptedData_Encode x reserved)"

definition EncryptedData_MustAppend :: "EncryptedData \<Rightarrow> bytes \<Rightarrow> bytes option" where
  "EncryptedData_MustAppend x buf = must (EncryptedData_Append x buf)"

definition EncryptedData_DecodeCopy :: "bytes \<Rightarrow> (wire_error, EncryptedData \<times> bytes) result" where
  "EncryptedData_DecodeCopy buf = decode_copy EncryptedData_Read buf"

definition EncryptedData_DecodeExactCopy :: "bytes \<Rightarrow> (wire_error, EncryptedData) result" where
  "EncryptedData_DecodeExactCopy buf = no_remain (EncryptedData_DecodeCopy buf)"

definition EncryptedData_Decode :: "bytes \<Rightarrow> (wire_error, EncryptedData \<times> bytes) result" where
  "EncryptedData_Decode buf = decode_rest EncryptedData_DecodeSlice buf"

definition EncryptedData_DecodeExact :: "bytes \<Rightarrow> (wire_error, EncryptedData) result" where
  "EncryptedData_DecodeExact buf = no_remain (EncryptedData_Decode buf)"

definition Packet_EncodeCopy :: "Packet \<Rightarrow> bytes \<Rightarrow> (wire_error, bytes) result" where
  "Packet_EncodeCopy x reserved = encode_copy (Packet_Write x bytesBuffer) reserved"

definition Packet_MustEncodeCopy :: "Packet \<Rightarrow> bytes \<Rightarrow> bytes option" where
  "Packet_MustEncodeCopy x reserved = must (Packet_EncodeCopy x reserved)"

definition Packet_Encode :: "Packet \<Rightarrow> bytes \<Rightarrow> (wire_error, bytes) result" where
  "Packet_Encode x buf = encode_slice (Packet_EncodeSlice x) buf"

definition Packet_MustEncode :: "Packet \<Rightarrow> bytes \<Rightarrow> bytes option" where
  "Packet_MustEncode x reserved = must (Packet_Encode x reserved)"

definition Packet_MustAppend :: "Packet \<Rightarrow> bytes \<Rightarrow> bytes option" where
  "Packet_MustAppend x buf = must (Packet_Append x buf)"

definition Packet_DecodeCopy :: "Packet \<Rightarrow> bytes \<Rightarrow> (wire_error, Packet \<times> bytes) result" where
  "Packet_DecodeCopy x buf = decode_copy (Packet_Read x) buf"

definition Packet_DecodeExactCopy :: "Packet \<Rightarrow> bytes \<Rightarrow> (wire_error, Packet) result" where
  "Packet_DecodeExactCopy x buf = no_remain (Packet_DecodeCopy x buf)"

definition Packet_Decode :: "Packet \<Rightarrow> bytes \<Rightarrow> (wire_error, Packet \<times> bytes) result" where
  "Packet_Decode x buf = decode_rest (Packet_DecodeSlice x) buf"

section \<open>Encoders\<close>

interpretation encrypted_data: encoder_variants EncryptedData_Append "\<lambda>x. EncryptedData_Write x bytesBuffer" EncryptedData_EncodeSlice
proof
  show "fills (EncryptedData_EncodeSlice x) (accepted EncryptedData_Append x)" for x
    unfolding EncryptedData_EncodeSlice_def
    by (rule fills_cong, (rule fills_rules)+) (simp add: accepted_def EncryptedData_Append_def)
qed (simp_all add: EncryptedData_Append_def EncryptedData_Write_def buffered)

interpretation mac_address: encoder_variants MacAddress_Append "\<lambda>x. MacAddress_Write x bytesBuffer" MacAddress_EncodeSlice
proof
  show "fills (MacAddress_EncodeSlice x) (accepted MacAddress_Append x)" for x
    unfolding MacAddress_EncodeSlice_def
    by (rule fills_cong, (rule fills_rules)+) (simp add: accepted_def MacAddress_Append_def)
qed (simp_all add: MacAddress_Append_def MacAddress_Write_def buffered)

interpretation ip_address: encoder_variants IPAddress_Append "\<lambda>x. IPAddress_Write x bytesBuffer" IPAddress_EncodeSlice
proof
  show "fills (IPAddress_EncodeSlice x) (accepted IPAddress_Append x)" for x
    unfolding IPAddress_EncodeSlice_def
    by (rule fills_cong, (rule fills_rules)+) (simp add: accepted_def IPAddress_Append_def Let_def)
qed (simp_all add: IPAddress_Append_def IPAddress_Write_def buffered Let_def)

interpretation probe: encoder_variants ObjProbe_Append "\<lambda>x. ObjProbe_Write x bytesBuffer" ObjProbe_EncodeSlice
proof
  have p: "accepted ObjProbe_Append x = wcat (accepted MacAddress_Append (pb_MacAddress x))
      (wcat (accepted IPAddress_Append (pb_IpAddress x)) (Some (PutUint16 (pb_Port x))))" for x
    by (simp add: accepted_def ObjProbe_Append_def MacAddress_Append_def IPAddress_Append_def Let_def)
  show "fills (ObjProbe_EncodeSlice x) (accepted ObjProbe_Append x)" for x
    unfolding ObjProbe_EncodeSlice_def
    by (rule fills_cong, (rule fills_rules mac_address.slices ip_address.slices)+) (simp add: p)
qed (simp_all add: ObjProbe_Append_def MacAddress_Append_def IPAddress_Append_def ObjProbe_Write_def buffered mac_address.buffers
    ip_address.buffers Let_def)

interpretation handshake: encoder_variants Handshake_Append "\<lambda>x. Handshake_Write x bytesBuffer" Handshake_EncodeSlice
proof
  show "fills (Handshake_EncodeSlice x) (accepted Handshake_Append x)" for x
  proof -
    have "fills (if hs_KeyKind x = KeyKind_Offset
        then (case tmp236 x of None \<Rightarrow> io_fail InvalidUnion | Some y \<Rightarrow> put_slice ''Handshake::tmp236::Offset'' (PutUint16 y)) else io_return ())
      (if hs_KeyKind x = KeyKind_Offset then (case tmp236 x of None \<Rightarrow> None | Some y \<Rightarrow> Some (PutUint16 y)) else Some [])"
      by (cases "tmp236 x") auto
    note o' = this
    show ?thesis unfolding Handshake_EncodeSlice_def
      by (rule fills_cong, (rule fills_seq fills_put o' fills_check)+)
        (cases "tmp236 x"; simp add: accepted_def Handshake_Append_def Let_def)
  qed
  show "Handshake_Append x buf = map_sum id (\<lambda>w. buf @ w) (Handshake_Append x [])" for x buf
    by (cases "tmp236 x") (simp_all add: Handshake_Append_def Let_def)
  show "encode_copy (Handshake_Write x bytesBuffer) buf = Handshake_Append x buf" for x buf
    by (cases "tmp236 x") (simp_all add: Handshake_Append_def Handshake_Write_def buffered Let_def)
qed

interpretation obj_header: encoder_variants ObjHeader_Append "\<lambda>x. ObjHeader_Write x bytesBuffer" ObjHeader_EncodeSlice
proof
  show "fills (ObjHeader_EncodeSlice x) (accepted ObjHeader_Append x)" for x
    unfolding ObjHeader_EncodeSlice_def
    by (rule fills_cong, (rule fills_rules)+) (simp add: accepted_def ObjHeader_Append_def)
qed (simp_all add: ObjHeader_Append_def ObjHeader_Write_def buffered Let_def)

lemma ProtectedHeader_cells_wire: "ProtectedHeader_Append p buf = Inr (buf @ ProtectedHeader_cells p)"
  by (simp add: ProtectedHeader_Append_def ProtectedHeader_cells_def)

interpretation protected_header: encoder_variants ProtectedHeader_Append "\<lambda>x. ProtectedHeader_Write x bytesBuffer" ProtectedHeader_EncodeSlice
proof
  show "fills (ProtectedHeader_EncodeSlice x) (accepted ProtectedHeader_Append x)" for x
    unfolding ProtectedHeader_EncodeSlice_def
    by (rule fills_cong, (rule fills_rules)+) (simp add: accepted_def ProtectedHeader_cells_wire)
qed (simp_all add: ProtectedHeader_cells_wire ProtectedHeader_Write_def buffered)

interpretation packet: encoder_variants Packet_Append "\<lambda>x. Packet_Write x bytesBuffer" Packet_EncodeSlice
proof
  show "fills (Packet_EncodeSlice x) (accepted Packet_Append x)" for x
    unfolding Packet_EncodeSlice_def
    by (rule fills_cong, (rule fills_rules obj_header.slices)+)
      (simp add: accepted_def Packet_Append_def ObjHeader_Append_def Let_def)
qed (simp_all add: Packet_Append_def ObjHeader_Append_def Packet_Write_def buffered obj_header.buffers Let_def)

section \<open>Decoders\<close>

lemma MacAddress_agrees: "agrees MacAddress_Read MacAddress_DecodeSlice"
  unfolding MacAddress_Read_def MacAddress_DecodeSlice_def[abs_def] by (rule agrees_read_return)

lemma IPAddress_agrees: "agrees IPAddress_Read IPAddress_DecodeSlice"
  unfolding agrees_def IPAddress_Read_def IPAddress_DecodeSlice_def Let_def io_simps read_sized_def copy_n_def
  by (auto simp: add.commute)

lemma ObjProbe_agrees: "agrees ObjProbe_Read ObjProbe_DecodeSlice"
  unfolding ObjProbe_Read_def ObjProbe_DecodeSlice_def[abs_def]
  by (intro agrees_bind agrees_read_return MacAddress_agrees IPAddress_agrees)

lemma EncryptedData_agrees: "agrees EncryptedData_Read EncryptedData_DecodeSlice"
  unfolding agrees_def EncryptedData_Read_def EncryptedData_DecodeSlice_def Let_def io_simps read_all_def
  by (auto simp: add.commute)

lemma ObjHeader_agrees: "agrees (ObjHeader_Read p) (ObjHeader_DecodeSlice p)"
  unfolding agrees_def ObjHeader_Read_def ObjHeader_DecodeSlice_def Let_def io_simps
  by (auto simp: add.commute)

lemma ProtectedHeader_agrees: "agrees (ProtectedHeader_Read p) (ProtectedHeader_DecodeSlice p)"
  unfolding ProtectedHeader_Read_def ProtectedHeader_DecodeSlice_def[abs_def] Let_def by (rule agrees_read_return)

lemma Packet_agrees: "agrees (Packet_Read p) (Packet_DecodeSlice p)"
proof -
  have d: "agrees (io_bind (read_sized n) (\<lambda>d. io_return (h d))) (\<lambda>buf off. if length buf - off < n then Inl e
      else Inr (h (take n (drop off buf)), off + n))" for n e and h :: "bytes \<Rightarrow> Packet"
    by (rule agrees_read_sized) (rule agrees_return)
  show ?thesis unfolding Packet_Read_def Packet_DecodeSlice_def[abs_def]
    by (intro agrees_bind ObjHeader_agrees d)
qed

lemma Handshake_agrees: "agrees (Handshake_Read h) (Handshake_DecodeSlice h)"
proof -
  define share where "share = (\<lambda>(h :: Handshake) buf off. if length buf - off < unat (hs_Len h) then Inl (NotEnoughData ''Handshake::KeyShare'')
     else Inr (h\<lparr>KeyShare := take (unat (hs_Len h)) (drop off buf)\<rparr>, off + unat (hs_Len h)))"
  define len where "len = (\<lambda>(h :: Handshake) buf off. if length buf - off < 2 then Inl (NotEnoughData ''Handshake::Len'')
     else (\<lambda>b. share (h\<lparr>hs_Len := Uint16 b\<rparr>)) (take 2 (drop off buf)) buf (off + 2))"
  define offset' where "offset' = (\<lambda>(h :: Handshake) buf off. if hs_KeyKind h = KeyKind_Offset
     then if length buf - off < 2 then Inl (NotEnoughData ''Handshake::tmp236::Offset'')
       else Inr (h\<lparr>tmp236 := Some (Uint16 (take 2 (drop off buf)))\<rparr>, off + 2)
     else Inr (h, off))"
  define common where "common = (\<lambda>(h :: Handshake) buf off. if length buf - off < 2 then Inl (NotEnoughData ''Handshake::CommonKeyKind'')
     else (\<lambda>b buf off. rbind (offset' (h\<lparr>hs_CommonKeyKind := Uint16 b\<rparr>) buf off) (\<lambda>(h, off). len h buf off)) (take 2 (drop off buf)) buf (off + 2))"
  have share: "agrees (io_bind (read_sized (unat (hs_Len h))) (\<lambda>k. io_return (h\<lparr>KeyShare := k\<rparr>))) (share h)" for h :: Handshake
    unfolding share_def by (rule agrees_read_sized) (rule agrees_return)
  have len: "agrees (io_bind (read_full 2) (\<lambda>b. let h = h\<lparr>hs_Len := Uint16 b\<rparr> in
      io_bind (read_sized (unat (hs_Len h))) (\<lambda>k. io_return (h\<lparr>KeyShare := k\<rparr>)))) (len h)" for h :: Handshake
    unfolding len_def Let_def by (rule agrees_read_full) (rule share)
  have off: "agrees (if hs_KeyKind h = KeyKind_Offset
      then io_bind (read_full 2) (\<lambda>b. io_return (h\<lparr>tmp236 := Some (Uint16 b)\<rparr>)) else io_return h) (offset' h)" for h :: Handshake
    unfolding offset'_def by (intro agrees_if agrees_read_return agrees_return)
  have common: "agrees (io_bind (read_full 2) (\<lambda>b. let h = h\<lparr>hs_CommonKeyKind := Uint16 b\<rparr> in
     io_bind (if hs_KeyKind h = KeyKind_Offset
              then io_bind (read_full 2) (\<lambda>b. io_return (h\<lparr>tmp236 := Some (Uint16 b)\<rparr>)) else io_return h) (\<lambda>h.
     io_bind (read_full 2) (\<lambda>b.
     let h = h\<lparr>hs_Len := Uint16 b\<rparr> in
     io_bind (read_sized (unat (hs_Len h))) (\<lambda>k. io_return (h\<lparr>KeyShare := k\<rparr>)))))) (common h)" for h :: Handshake
    unfolding common_def by (rule agrees_read_full, subst Let_def) (rule agrees_bind[OF off len])
  have "agrees (Handshake_Read h) (\<lambda>buf off. if length buf - off < 2 then Inl (NotEnoughData ''Handshake::KeyKind'')
     else (\<lambda>b. common (h\<lparr>hs_KeyKind := Uint16 b\<rparr>)) (take 2 (drop off buf)) buf (off + 2))"
    unfolding Handshake_Read_def by (rule agrees_read_full, subst Let_def) (rule common)
  then show ?thesis
    by (rule agrees_cong) (simp add: Handshake_DecodeSlice_def common_def offset'_def len_def share_def Let_def)
qed

interpretation ip_address: decoder_variants IPAddress_Read IPAddress_DecodeSlice by unfold_locales (rule IPAddress_agrees)
interpretation mac_address: decoder_variants MacAddress_Read MacAddress_DecodeSlice by unfold_locales (rule MacAddress_agrees)
interpretation probe: decoder_variants ObjProbe_Read ObjProbe_DecodeSlice by unfold_locales (rule ObjProbe_agrees)
interpretation handshake: decoder_variants "Handshake_Read h" "Handshake_DecodeSlice h" by unfold_locales (rule Handshake_agrees)
interpretation obj_header: decoder_variants "ObjHeader_Read p" "ObjHeader_DecodeSlice p" by unfold_locales (rule ObjHeader_agrees)
interpretation protected_header: decoder_variants "ProtectedHeader_Read p" "ProtectedHeader_DecodeSlice p"
  by unfold_locales (rule ProtectedHeader_agrees)
interpretation encrypted_data: decoder_variants EncryptedData_Read EncryptedData_DecodeSlice by unfold_locales (rule EncryptedData_agrees)
interpretation packet: decoder_variants "Packet_Read p" "Packet_DecodeSlice p" by unfold_locales (rule Packet_agrees)

section \<open>Properties\<close>

text \<open>
  The methods of the session's datagrams agree. For every packet and every handshake, valid or not,
  \<open>EncodeCopy\<close> returns what \<open>Append\<close> returns, and \<open>Encode\<close> the bytes that \<open>Append\<close> adds when the buffer
  has room for them, an error otherwise. For all input bytes \<open>DecodeCopy\<close> and \<open>Decode\<close> both fail or give
  the same value and the same rest.
\<close>

theorem session_codecs_agree:
  "Packet_EncodeCopy p buf = Packet_Append p buf \<and> Handshake_EncodeCopy h buf = Handshake_Append h buf \<and>
   (case Packet_Append p buf of
      Inr out \<Rightarrow> \<exists>w. out = buf @ w \<and>
        (\<forall>space. if length w \<le> length space then Packet_Encode p space = Inr w else \<exists>e. Packet_Encode p space = Inl e)
    | Inl _ \<Rightarrow> \<forall>space. \<exists>e. Packet_Encode p space = Inl e) \<and>
   (case Handshake_Append h buf of
      Inr out \<Rightarrow> \<exists>w. out = buf @ w \<and>
        (\<forall>space. if length w \<le> length space then Handshake_Encode h space = Inr w else \<exists>e. Handshake_Encode h space = Inl e)
    | Inl _ \<Rightarrow> \<forall>space. \<exists>e. Handshake_Encode h space = Inl e) \<and>
   (case Packet_Decode p input of
      Inr r \<Rightarrow> Packet_DecodeCopy p input = Inr r | Inl _ \<Rightarrow> \<exists>e. Packet_DecodeCopy p input = Inl e) \<and>
   (case Handshake_Decode h input of
      Inr r \<Rightarrow> Handshake_DecodeCopy h input = Inr r | Inl _ \<Rightarrow> \<exists>e. Handshake_DecodeCopy h input = Inl e)"
  unfolding Packet_EncodeCopy_def Packet_Encode_def Packet_Decode_def Packet_DecodeCopy_def
    Handshake_EncodeCopy_def Handshake_Encode_def Handshake_Decode_def Handshake_DecodeCopy_def
  using packet.encoders_agree[of p buf] packet.decoders_agree[of p input]
    handshake.encoders_agree[of h buf] handshake.decoders_agree[of h input] by blast

end
