(* ===== verification/Auto_Loops.thy ===== *)
theory Auto_Loops
  imports Conn_Wire Wire_Variants
begin

text \<open>
  The loops between a session and the run loop (\<open>trsf/api.go\<close>: \<open>AutoSend\<close>, \<open>AutoReceive\<close>, \<open>AutoPing\<close>,
  \<open>SendClose\<close>) and the bodies of ping, pong and close (\<open>trsf/keepalive.go\<close>). What a loop does to the world
  outside is a list of effects; the messages that \<open>ReceiveMessageContext\<close> returns, up to its error, and what
  \<open>SendMessage\<close> answers are arguments.
\<close>

section \<open>Ping, pong and close\<close>

text \<open>\<open>MustAppend\<close> panics on an error: \<open>None\<close>. A time is its \<open>UnixNano\<close>.\<close>

definition EncodePing :: "time \<Rightarrow> bytes option" where
  "EncodePing t = PingBody_MustAppend \<lparr>Nanos = word_of_int t\<rparr> [ApplicationPayloadKind_Ping]"

definition EncodePong :: "bytes \<Rightarrow> bytes" where
  "EncodePong pingBody = [ApplicationPayloadKind_Pong] @ pingBody"

definition EncodeClose :: "CloseStatus \<Rightarrow> bytes \<Rightarrow> bytes option" where
  "EncodeClose status message =
     (let (cb, _) = SetMessage \<lparr>Status = status, MessageLen = 0, Message = []\<rparr> message in
      CloseBody_MustAppend cb [ApplicationPayloadKind_Close])"

definition DecodePingPong :: "bytes \<Rightarrow> time option" where
  "DecodePingPong data =
     (if length data < 1 then None
      else case PingBody_DecodeExact (drop 1 data) of
        Inl _ \<Rightarrow> None
      | Inr pb \<Rightarrow> Some (sint (Nanos pb)))"

definition DecodeClose :: "bytes \<Rightarrow> (CloseStatus \<times> bytes) option" where
  "DecodeClose data =
     (if length data < 1 then None
      else case CloseBody_DecodeExact (drop 1 data) of
        Inl _ \<Rightarrow> None
      | Inr cb \<Rightarrow> Some (Status cb, Message cb))"

section \<open>Effects\<close>

datatype receive_error = ClosedByPeer | ReceiveFailed

datatype effect =
    SendMessage bytes
  | OnEvent "Message option" "receive_error option"

definition SendClose :: effect where
  "SendClose = SendMessage [ApplicationPayloadKind_Close]"

definition SendCloseBody :: "CloseStatus \<Rightarrow> bytes \<Rightarrow> effect option" where
  "SendCloseBody status message = map_option SendMessage (EncodeClose status message)"

text \<open>\<open>AutoPing\<close> after a number of ticks.\<close>

definition AutoPing :: "nat \<Rightarrow> effect list" where
  "AutoPing ticks = replicate ticks (SendMessage [ApplicationPayloadKind_Ping])"

section \<open>AutoSend\<close>

text \<open>
  Each action of \<open>Recv\<close> is sent; the pairs are what the transport answers to the acknowledgement and to the
  data of an action. The flag is \<open>False\<close> once \<open>onEnd\<close> was called with an error. When there is no action
  the loop waits.
\<close>

definition action_fails :: "bool \<times> bool \<Rightarrow> SendAction \<Rightarrow> bool" where
  "action_fails ok a \<longleftrightarrow> \<not> fired a \<and> (sa_ACK a \<noteq> None \<and> \<not> fst ok \<or> sa_Data a \<noteq> None \<and> \<not> snd ok)"

fun AutoSend :: "(bool \<times> bool) list \<Rightarrow> Streams \<Rightarrow> (bytes \<times> PacketNumber option) list \<times> bool \<times> Streams" where
  "AutoSend [] s = ([], True, s)"
| "AutoSend (ok # oks) s =
     (case Streams_Recv s of
        (None, s) \<Rightarrow> ([], True, s)
      | (Some a, s) \<Rightarrow>
          let (out, _) = SendAction_Send (fst ok) a in
          if action_fails ok a then (out, False, s)
          else let (out', running, s) = AutoSend oks s in (out @ out', running, s))"

section \<open>AutoReceive\<close>

record recvConfig =
  deliverPong :: bool
  manualPing :: bool

datatype recv_option = WithDeliverPong | WithManualPing

fun apply_option :: "recv_option \<Rightarrow> recvConfig \<Rightarrow> recvConfig" where
  "apply_option WithDeliverPong c = c\<lparr>deliverPong := True\<rparr>"
| "apply_option WithManualPing c = c\<lparr>manualPing := True\<rparr>"

text \<open>\<open>onEvent\<close>, when there is one.\<close>

definition event :: "bool \<Rightarrow> Message option \<Rightarrow> receive_error option \<Rightarrow> effect list" where
  "event on m e = (if on then [OnEvent m e] else [])"

text \<open>One message: the effects, whether the loop goes on, and the streams.\<close>

definition receive_message :: "recvConfig \<Rightarrow> bool \<Rightarrow> Message \<Rightarrow> Streams \<Rightarrow> effect list \<times> bool \<times> Streams" where
  "receive_message cfg on data s =
     (if length (m_Data data) = 0 then ([], True, s)
      else
        let kind = m_Data data ! 0 in
        if IsStreamRelated kind then ([], True, Streams_Send data s)
        else if kind \<ge> USER_DEFINED_START \<and> IsDatagramKind kind s then ([], True, Streams_Send data s)
        else
          let s = (if kind < USER_DEFINED_START \<and> kind \<noteq> ApplicationPayloadKind_Ping \<and>
                      kind \<noteq> ApplicationPayloadKind_Pong \<and> kind \<noteq> ApplicationPayloadKind_Close
                   then noteUnroutedTransportKind kind s else s) in
          if kind = ApplicationPayloadKind_Ping then
            if manualPing cfg then (event on (Some data) None, True, s)
            else ([SendMessage (EncodePong (drop 1 (m_Data data)))], True, s)
          else if kind = ApplicationPayloadKind_Pong then
            ((if deliverPong cfg then event on (Some data) None else []), True, s)
          else if kind = ApplicationPayloadKind_Close then (event on (Some data) (Some ClosedByPeer), False, s)
          else (event on (Some data) None, True, s))"

fun receive_loop :: "recvConfig \<Rightarrow> bool \<Rightarrow> Message list \<Rightarrow> Streams \<Rightarrow> effect list \<times> Streams" where
  "receive_loop cfg on [] s = (event on None (Some ReceiveFailed), s)"
| "receive_loop cfg on (m # ms) s =
     (case receive_message cfg on m s of
        (es, False, s) \<Rightarrow> (es, s)
      | (es, True, s) \<Rightarrow> (let (es', s) = receive_loop cfg on ms s in (es @ es', s)))"

definition AutoReceive :: "recv_option list \<Rightarrow> bool \<Rightarrow> Message list \<Rightarrow> Streams \<Rightarrow> effect list \<times> Streams" where
  "AutoReceive opts on ms s =
     (let cfg = fold apply_option opts \<lparr>deliverPong = False, manualPing = False\<rparr> in receive_loop cfg on ms s)"

section \<open>What the loop does with a message\<close>

text \<open>
  The specification: a message is for the run loop, for the transport, or for the application; the first close
  ends the loop.
\<close>

definition is_close :: "Message \<Rightarrow> bool" where
  "is_close m \<longleftrightarrow> m_Data m \<noteq> [] \<and> hd (m_Data m) = ApplicationPayloadKind_Close"

definition for_run_loop :: "(u8 \<Rightarrow> bool) \<Rightarrow> Message \<Rightarrow> bool" where
  "for_run_loop dg m \<longleftrightarrow> m_Data m \<noteq> [] \<and>
     (hd (m_Data m) \<in> {3, 4, 5, 6} \<or> 64 \<le> hd (m_Data m) \<and> dg (hd (m_Data m)))"

definition unknown_kind :: "Message \<Rightarrow> bool" where
  "unknown_kind m \<longleftrightarrow> m_Data m \<noteq> [] \<and> 7 \<le> hd (m_Data m) \<and> hd (m_Data m) < 64"

definition answer_to :: "recvConfig \<Rightarrow> bool \<Rightarrow> (u8 \<Rightarrow> bool) \<Rightarrow> Message \<Rightarrow> effect list" where
  "answer_to cfg on dg m =
     (case m_Data m of
        [] \<Rightarrow> []
      | k # body \<Rightarrow>
          if k = 0 then if manualPing cfg then event on (Some m) None else [SendMessage (1 # body)]
          else if k = 1 then if deliverPong cfg then event on (Some m) None else []
          else if k = 2 then event on (Some m) (Some ClosedByPeer)
          else if k < 7 \<or> 64 \<le> k \<and> dg k then [] else event on (Some m) None)"

definition kinds :: "Streams \<Rightarrow> u8 \<Rightarrow> bool" where
  "kinds s k \<longleftrightarrow> (case isDatagramKind s of None \<Rightarrow> False | Some fn \<Rightarrow> fn k)"

lemma kinds_keep [simp]: "kinds (Streams_Send m s) = kinds s" "kinds (noteUnroutedTransportKind k s) = kinds s"
  by (simp_all add: fun_eq_iff kinds_def Streams_Send_def noteUnroutedTransportKind_def)

definition queued :: "Streams \<Rightarrow> Message list" where
  "queued s = map snd (tq_queue (recv s))"

text \<open>Every message is an object of its own, so the queue, which keeps an object only once, takes each.\<close>

definition fresh_messages :: "Streams \<Rightarrow> bool" where
  "fresh_messages s \<longleftrightarrow> (\<forall>x\<in>tq_set (recv s). fst x < nextRef s)"

lemma fresh_send: "fresh_messages s \<Longrightarrow> fresh_messages (Streams_Send m s) \<and> queued (Streams_Send m s) = queued s @ [m]"
  by (auto simp: fresh_messages_def queued_def Streams_Send_def tq_Push_def PushBecause_def Notify_def Let_def)

lemma fresh_note: "fresh_messages (noteUnroutedTransportKind k s) = fresh_messages s" "queued (noteUnroutedTransportKind k s) = queued s"
  by (simp_all add: fresh_messages_def queued_def noteUnroutedTransportKind_def)

lemma unrouted_send [simp]: "unroutedTransportKind (Streams_Send m s) = unroutedTransportKind s"
  by (simp add: Streams_Send_def)

lemma u8_less_7: "k < 7 \<longleftrightarrow> k \<in> {0, 1, 2, 3, 4, 5, 6}" for k :: u8
proof
  assume "k < 7"
  then have "unat k < 7" by (simp add: word_less_nat_alt)
  then have "unat k \<in> {0, 1, 2, 3, 4, 5, 6}" by auto
  then show "k \<in> {0, 1, 2, 3, 4, 5, 6}" by (auto dest!: arg_cong[where f = "word_of_nat :: nat \<Rightarrow> u8"])
qed auto

lemma u8_above_1: "\<not> (64 :: u8) \<le> 1" "\<not> (7 :: u8) \<le> 1"
  by (simp_all add: word_le_nat_alt)

lemma IsStreamRelated_kinds: "IsStreamRelated k \<longleftrightarrow> k \<in> {3, 4, 5, 6}"
  by (auto simp: IsStreamRelated_def)

lemma receive_message_spec:
  assumes "fresh_messages s" and "receive_message cfg on m s = (es, go, t)"
  shows "fresh_messages t \<and> kinds t = kinds s \<and> es = answer_to cfg on (kinds s) m \<and> (go \<longleftrightarrow> \<not> is_close m) \<and>
    queued t = queued s @ (if for_run_loop (kinds s) m then [m] else []) \<and>
    unroutedTransportKind t = unroutedTransportKind s + (if unknown_kind m then 1 else 0)"
proof (cases "m_Data m")
  case Nil
  then show ?thesis using assms by (auto simp: receive_message_def answer_to_def is_close_def for_run_loop_def unknown_kind_def)
next
  case (Cons k body)
  have dg: "IsDatagramKind k s \<longleftrightarrow> 64 \<le> k \<and> kinds s k"
    by (auto simp: IsDatagramKind_def kinds_def USER_DEFINED_START_def not_less split: option.splits)
  note d = Cons receive_message_def answer_to_def is_close_def for_run_loop_def unknown_kind_def EncodePong_def
  consider (t) "k \<in> {0, 1, 2}" | (s) "k \<in> {3, 4, 5, 6}" | (u) "7 \<le> k" "k < 64" | (a) "64 \<le> k" "kinds s k" | (e) "64 \<le> k" "\<not> kinds s k"
    using u8_less_7[of k] not_less[of k 7] not_less[of k 64] by blast
  then show ?thesis
  proof cases
    case t
    then consider "k = 0" | "k = 1" | "k = 2" by blast
    then show ?thesis by cases (use assms(1) assms(2)[symmetric] in \<open>simp_all add: d u8_above_1 IsStreamRelated_kinds USER_DEFINED_START_def split: if_splits\<close>)
  next
    case s
    then consider "k = 3" | "k = 4" | "k = 5" | "k = 6" by blast
    then show ?thesis by cases (use assms(2)[symmetric] fresh_send[OF assms(1)] in \<open>simp_all add: d IsStreamRelated_kinds\<close>)
  next
    case u
    then have "k \<notin> {0, 1, 2, 3, 4, 5, 6}" using u8_less_7[of k] by (simp add: not_less[symmetric])
    moreover have "\<not> 64 \<le> k" "\<not> k < 7" using u by (simp_all add: not_le not_less)
    moreover have "unroutedTransportKind (noteUnroutedTransportKind k s) = unroutedTransportKind s + 1"
      by (simp add: noteUnroutedTransportKind_def)
    ultimately show ?thesis using assms(1) assms(2)[symmetric] u fresh_note[of k s]
      by (simp add: d IsStreamRelated_kinds USER_DEFINED_START_def dg)
  next
    case a
    then have "k \<notin> {0, 1, 2, 3, 4, 5, 6}" using u8_less_7[of k] by (auto simp: u8_above_1)
    then show ?thesis using assms(2)[symmetric] a fresh_send[OF assms(1)]
      by (simp add: d IsStreamRelated_kinds USER_DEFINED_START_def dg not_less)
  next
    case e
    then have "k \<notin> {0, 1, 2, 3, 4, 5, 6}" using u8_less_7[of k] by (auto simp: u8_above_1)
    moreover have "\<not> k < 64" using e(1) by (simp add: not_less)
    ultimately show ?thesis using assms(1) assms(2)[symmetric] e
      by (simp add: d IsStreamRelated_kinds USER_DEFINED_START_def dg u8_less_7)
  qed
qed

lemma receive_loop_spec:
  assumes "fresh_messages s" and "receive_loop cfg on ms s = (es, t)" and "bs = takeWhile (\<lambda>m. \<not> is_close m) ms"
  shows "queued t = queued s @ filter (for_run_loop (kinds s)) bs \<and>
    unroutedTransportKind t = unroutedTransportKind s + of_nat (length (filter unknown_kind bs)) \<and>
    es = concat (map (answer_to cfg on (kinds s)) (take (Suc (length bs)) ms)) @
      (if bs = ms then event on None (Some ReceiveFailed) else [])"
  using assms
proof (induction ms arbitrary: s es bs)
  case (Cons m ms)
  obtain e go u where u: "receive_message cfg on m s = (e, go, u)" by (metis prod_cases3)
  note m = receive_message_spec[OF Cons.prems(1) u]
  show ?case
  proof (cases "is_close m")
    case True
    then have "\<not> for_run_loop (kinds s) m" "\<not> unknown_kind m"
      by (auto simp: is_close_def for_run_loop_def unknown_kind_def word_le_nat_alt)
    then show ?thesis using m u True Cons.prems(2,3) by simp
  next
    case False
    obtain es' where r: "receive_loop cfg on ms u = (es', t)" "es = e @ es'"
      using Cons.prems(2) u m False by (cases "receive_loop cfg on ms u") simp
    then show ?thesis using Cons.IH[OF _ r(1) refl] m False Cons.prems(3) by simp
  qed
qed simp

lemma decodable_for_run_loop: "StreamAppPacket_DecodeExact (m_Data m) = Inr x \<Longrightarrow> for_run_loop dg m"
  by (cases "m_Data m")
    (auto simp: for_run_loop_def StreamAppPacket_DecodeExact_def decode_exact_def decode_rest_def StreamAppPacket_DecodeSlice_def
       PacketHeader_DecodeSlice_def split: if_splits)

section \<open>AutoSend\<close>

lemma AutoSend_in_order:
  assumes "AutoSend oks s = (out, running, t)" and "running"
  shows "\<exists>as. map snd (tq_queue (send s)) = as @ map snd (tq_queue (send t)) \<and>
    out = concat (map (\<lambda>a. fst (SendAction_Send True a)) as)"
  using assms
proof (induction oks s arbitrary: out rule: AutoSend.induct)
  case (2 ok oks s)
  show ?case
  proof (cases "tq_queue (send s)")
    case Nil
    then show ?thesis using "2.prems" by (auto simp: Streams_Recv_def Pop_def)
  next
    case (Cons x rest)
    define u where "u = snd (Streams_Recv s)"
    have u: "Streams_Recv s = (Some (snd x), u)" "tq_queue (send u) = rest"
      using Cons by (auto simp: u_def Streams_Recv_def Pop_def Notify_def Let_def)
    obtain o1 a1 where o1: "SendAction_Send (fst ok) (snd x) = (o1, a1)" by force
    have go: "\<not> action_fails ok (snd x)" using "2.prems" u(1) o1 by (auto split: if_splits)
    obtain o2 where o2: "AutoSend oks u = (o2, running, t)" "out = o1 @ o2"
      using "2.prems" u(1) o1 go by (auto split: prod.splits)
    have "o1 = fst (SendAction_Send True (snd x))"
      using go o1 by (auto simp: action_fails_def SendAction_Send_def Let_def split: option.splits if_splits)
    moreover obtain as where "map snd (tq_queue (send u)) = as @ map snd (tq_queue (send t))"
      "o2 = concat (map (\<lambda>a. fst (SendAction_Send True a)) as)"
      using "2.IH"[OF u(1)[symmetric] refl refl o1[symmetric] go o2(1) "2.prems"(2)] by blast
    ultimately show ?thesis using Cons u(2) o2(2) by (intro exI[of _ "snd x # as"]) simp
  qed
qed auto

section \<open>Properties\<close>

text \<open>
  C20: every message finds its place. \<open>AutoReceive\<close> looks at the messages up to the first close. It gives to
  the run loop, in their order, exactly those of the four stream kinds and those of a kind of the
  consumer's range that is registered as a datagram; it answers a ping, drops or reports a pong, reports the
  close and then stops; everything else non-empty goes to the application. The counter of unrouted kinds grows by one for
  each message of a kind from 7 to 63 and for no other, and no message that the decoder of the run
  loop accepts is among them: the predicate and the union have the same members.
\<close>

theorem messages_find_their_place:
  assumes "fresh_messages s" and "AutoReceive opts on ms s = (es, t)"
    and "bs = takeWhile (\<lambda>m. \<not> is_close m) ms"
  shows "queued t = queued s @ filter (for_run_loop (kinds s)) bs \<and>
    unroutedTransportKind t = unroutedTransportKind s + of_nat (length (filter unknown_kind bs)) \<and>
    es = concat (map (answer_to \<lparr>deliverPong = WithDeliverPong \<in> set opts, manualPing = WithManualPing \<in> set opts\<rparr> on (kinds s))
           (take (Suc (length bs)) ms)) @ (if bs = ms then event on None (Some ReceiveFailed) else []) \<and>
    (\<forall>m x. StreamAppPacket_DecodeExact (m_Data m) = Inr x \<longrightarrow> for_run_loop (kinds s) m)"
proof -
  have "fold apply_option opts \<lparr>deliverPong = a, manualPing = b\<rparr> =
      \<lparr>deliverPong = a \<or> WithDeliverPong \<in> set opts, manualPing = b \<or> WithManualPing \<in> set opts\<rparr>" for a b
  proof (induction opts arbitrary: a b)
    case (Cons x xs)
    then show ?case by (cases x) simp_all
  qed simp
  then show ?thesis using receive_loop_spec[OF assms(1) _ assms(3)] assms(2) decodable_for_run_loop by (simp add: AutoReceive_def)
qed

theorem messages_find_their_place_witness:
  "\<exists>es t. AutoReceive [WithDeliverPong] True (map (Message.make 0) [[0, 9], [64, 5], [], [9], [65], [1, 9], [4], [2], [3]])
      ((NewStreams True 1200 1452 0)\<lparr>isDatagramKind := Some (\<lambda>k. k = 64)\<rparr>) = (es, t) \<and>
    queued t = map (Message.make 0) [[64, 5], [4]] \<and> unroutedTransportKind t = 1 \<and>
    es = [SendMessage [1, 9], OnEvent (Some (Message.make 0 [9])) None, OnEvent (Some (Message.make 0 [65])) None,
      OnEvent (Some (Message.make 0 [1, 9])) None, OnEvent (Some (Message.make 0 [2])) (Some ClosedByPeer)]"
proof -
  let ?s = "(NewStreams True 1200 1452 0)\<lparr>isDatagramKind := Some (\<lambda>k. k = 64)\<rparr>"
  let ?ms = "map (Message.make 0) [[0, 9], [64, 5], [], [9], [65], [1, 9], [4], [2], [3]]"
  have f: "fresh_messages ?s" "queued ?s = []" "unroutedTransportKind ?s = 0" "kinds ?s = (\<lambda>k. k = 64)"
    by (simp_all add: fresh_messages_def queued_def NewStreams_def newWithTriggerQueue_def Let_def kinds_def fun_eq_iff)
  obtain es t where e: "AutoReceive [WithDeliverPong] True ?ms ?s = (es, t)" by force
  note all = messages_find_their_place[OF f(1) e refl, unfolded f(2-4)]
  have "queued t = map (Message.make 0) [[64, 5], [4]]" "unroutedTransportKind t = 1"
    "es = [SendMessage [1, 9], OnEvent (Some (Message.make 0 [9])) None, OnEvent (Some (Message.make 0 [65])) None,
      OnEvent (Some (Message.make 0 [1, 9])) None, OnEvent (Some (Message.make 0 [2])) (Some ClosedByPeer)]"
    using all by (simp_all add: Message.defs is_close_def for_run_loop_def unknown_kind_def answer_to_def event_def word_le_nat_alt word_less_nat_alt)
  then show ?thesis using e by blast
qed

text \<open>
  Ping and close arrive as they were meant. A ping with a time, answered by the loop of the peer without
  options, comes back as a pong that the own loop reports when asked to, and the pong still has the time. A
  close ends the loop of the peer, whatever is behind it, and is reported with its status and message; a
  message of more than 65535 bytes is left out without notice.
\<close>

theorem keepalive_bodies_survive:
  assumes "- (2 ^ 63) \<le> t" and "t < 2 ^ 63"
  shows "(\<exists>ping pong. EncodePing t = Some ping \<and>
      fst (AutoReceive [] on [\<lparr>m_PacketNumber = n, m_Data = ping\<rparr>] s) = SendMessage pong # event on None (Some ReceiveFailed) \<and>
      fst (AutoReceive [WithDeliverPong] True [\<lparr>m_PacketNumber = n', m_Data = pong\<rparr>] s') =
        [OnEvent (Some \<lparr>m_PacketNumber = n', m_Data = pong\<rparr>) None, OnEvent None (Some ReceiveFailed)] \<and>
      DecodePingPong ping = Some t \<and> DecodePingPong pong = Some t) \<and>
    (\<exists>c. SendCloseBody status message = Some (SendMessage c) \<and>
      AutoReceive opts True (\<lparr>m_PacketNumber = n, m_Data = c\<rparr> # ms) s =
        ([OnEvent (Some \<lparr>m_PacketNumber = n, m_Data = c\<rparr>) (Some ClosedByPeer)], s) \<and>
      DecodeClose c = Some (status, if length message \<le> 65535 then message else []))"
proof -
  let ?p = "\<lparr>Nanos = word_of_int t\<rparr>"
  have dec: "PingBody_DecodeExact (PutUint64 (word_of_int t)) = Inr ?p"
    using ping_body.exact_roundtrip[of ?p] by (simp add: PingBody_DecodeExact_def PingBody_wire_def)
  have "sint (word_of_int t :: u64) = t" using assms by (simp add: sint_sbintrunc' signed_take_bit_int_eq_self)
  then have d: "DecodePingPong (k # PutUint64 (word_of_int t)) = Some t" for k by (simp add: DecodePingPong_def dec)
  define cb where "cb = fst (SetMessage \<lparr>Status = status, MessageLen = 0, Message = []\<rparr> message)"
  have cb: "CloseBody_ok cb" "Status cb = status" "Message cb = (if length message \<le> 65535 then message else [])"
    by (auto simp: cb_def SetMessage_def CloseBody_ok_def unat_of_nat)
  let ?c = "2 # CloseBody_wire cb"
  have c: "SendCloseBody status message = Some (SendMessage ?c)"
    using close_body.enc_wire[OF cb(1), of "[2]"] by (simp add: SendCloseBody_def EncodeClose_def cb_def CloseBody_MustAppend_def must_def case_prod_unfold)
  have "DecodeClose ?c = Some (status, if length message \<le> 65535 then message else [])"
    using close_body.exact_roundtrip[OF cb(1)] cb(2,3) by (simp add: DecodeClose_def CloseBody_DecodeExact_def)
  moreover have "AutoReceive opts True (\<lparr>m_PacketNumber = n, m_Data = ?c\<rparr> # ms) s =
      ([OnEvent (Some \<lparr>m_PacketNumber = n, m_Data = ?c\<rparr>) (Some ClosedByPeer)], s)"
    by (simp add: AutoReceive_def Let_def receive_message_def IsStreamRelated_kinds USER_DEFINED_START_def event_def)
  moreover have "EncodePing t = Some (0 # PutUint64 (word_of_int t))"
    by (simp add: EncodePing_def PingBody_MustAppend_def PingBody_Append_def must_def)
  moreover have "fst (AutoReceive [] on [\<lparr>m_PacketNumber = n, m_Data = 0 # b\<rparr>] s) = SendMessage (1 # b) # event on None (Some ReceiveFailed)" for b
    by (simp add: AutoReceive_def receive_message_def IsStreamRelated_kinds USER_DEFINED_START_def EncodePong_def Let_def)
  moreover have "fst (AutoReceive [WithDeliverPong] True [\<lparr>m_PacketNumber = n', m_Data = 1 # b\<rparr>] s') =
      [OnEvent (Some \<lparr>m_PacketNumber = n', m_Data = 1 # b\<rparr>) None, OnEvent None (Some ReceiveFailed)]" for b
    by (simp add: AutoReceive_def receive_message_def IsStreamRelated_kinds USER_DEFINED_START_def u8_above_1 event_def Let_def)
  ultimately show ?thesis using c d by blast
qed

theorem keepalive_bodies_survive_witness:
  "\<exists>ping pong. EncodePing 1700000000000000000 = Some ping \<and> DecodePingPong pong = Some 1700000000000000000 \<and>
    fst (AutoReceive [] True [\<lparr>m_PacketNumber = 1, m_Data = ping\<rparr>] (NewStreams True 1200 1452 0)) =
      [SendMessage pong, OnEvent None (Some ReceiveFailed)]"
  using keepalive_bodies_survive[of 1700000000000000000 True 1 "NewStreams True 1200 1452 0"] unfolding event_def if_True by fastforce

end
