(* ===== verification/Transport_Stream.thy ===== *)
theory Transport_Stream
  imports Transport_Leg Obj_Endpoint_Props
begin

text \<open>
  Why a stream needs no framing of its own: every packet an endpoint queues delimits itself, in every state
  the endpoint can reach, so that a reader finds the packets in the bytes of a stream, however many there
  are and wherever the stream is cut.
\<close>

section \<open>Delimited packets\<close>

definition delimited :: "bytes \<Rightarrow> bool" where
  "delimited d \<longleftrightarrow> (\<exists>p. Packet_ok p \<and> d = Packet_wire p)"

lemma delimited_length: "delimited d \<Longrightarrow> 6 \<le> length d"
  by (auto simp: delimited_def Packet_wire_def)

lemma bit_u8_beyond: "\<not> bit (b :: u8) (8 + n)"
  using bit_imp_le_length[of b "8 + n"] by auto

lemma PutUint16_Uint16 [simp]: "PutUint16 (Uint16 [a, b]) = [a, b]"
  unfolding PutUint16_def Uint16_def by (auto intro!: bit_word_eqI simp: bit_simps bit_u8_beyond)

lemma header_of_bytes:
  assumes "length hdr = 6"
  obtains h where "hdr = ObjHeader_wire h"
proof -
  obtain a b c d e f where "hdr = [a, b, c, d, e, f]" using assms by (auto simp: numeral_eq_Suc length_Suc_conv)
  then have "hdr = ObjHeader_wire \<lparr>tmp77 = a, MaskedKind = b, MaskedConnectionId = Uint16 [c, d], oh_Len = Uint16 [e, f]\<rparr>"
    by (simp add: ObjHeader_wire_def)
  then show ?thesis by (rule that)
qed

lemma decoded_delimited:
  assumes "Packet_DecodeExact d = Inr p"
  shows "Packet_ok p \<and> d = Packet_wire p"
proof -
  have len: "6 \<le> length d"
    using assms by (auto simp: Packet_DecodeExact_def decode_exact_def decode_rest_def Packet_DecodeSlice_def ObjHeader_DecodeSlice_def
        Let_def rbind_Inr_iff split: if_splits sum.splits)
  obtain h where h: "take 6 d = ObjHeader_wire h" using header_of_bytes[of "take 6 d"] len by auto
  have "drop 0 d = ObjHeader_wire h @ drop 6 d" by (simp flip: h)
  note dec = ObjHeader_at(1)[OF this]
  have d: "d = ObjHeader_wire h @ drop 6 d" by (simp flip: h)
  show ?thesis using assms len
    by (auto simp: Packet_DecodeExact_def decode_exact_def decode_rest_def Packet_DecodeSlice_def dec Packet_ok_def Packet_wire_def h[symmetric]
        split: if_splits sum.splits)
qed

lemma appended_delimited: "Packet_Append p [] = Inr d \<Longrightarrow> delimited d"
  by (auto simp: Packet_Append_def ObjHeader_Append_wire delimited_def Packet_ok_def Packet_wire_def split: if_splits)

lemma readPacket_wire:
  assumes "Packet_ok p" and "src r = Packet_wire p @ rest"
  shows "readPacket r = (Inr (Packet_wire p), r\<lparr>src := rest\<rparr>)"
proof -
  have "ObjHeader_DecodeSlice ObjHeader_zero (ObjHeader_wire (pk_Header p)) 0 = Inr (pk_Header p, 6)"
    using ObjHeader_at(1)[of 0 _ "pk_Header p" "[]"] by simp
  then show ?thesis using assms
    by (simp add: readPacket_def io_bind_def read_full_def Packet_wire_def Packet_ok_def)
qed

lemma readPacket_cut:
  assumes "Packet_ok p" and "k < length (Packet_wire p)" and "src r = take k (Packet_wire p)" and "fault r = IoEOF"
  shows "fst (readPacket r) = Inl (if k = 0 then IoEOF else IoUnexpectedEOF)"
proof (cases "k < 6")
  case True
  then show ?thesis using assms by (auto simp: readPacket_def io_bind_def read_full_def Packet_wire_def min_def ObjHeader_wire_def)
next
  case False
  have "ObjHeader_DecodeSlice ObjHeader_zero (ObjHeader_wire (pk_Header p)) 0 = Inr (pk_Header p, 6)"
    using ObjHeader_at(1)[of 0 _ "pk_Header p" "[]"] by simp
  then show ?thesis using assms False
    by (auto simp: readPacket_def io_bind_def read_full_def Packet_wire_def Packet_ok_def)
qed

lemma read_packets_concat:
  assumes "\<forall>d\<in>set ds. delimited d" and "src r = concat ds @ rest"
  shows "read_packets r = (ds @ fst (read_packets (r\<lparr>src := rest\<rparr>)), snd (read_packets (r\<lparr>src := rest\<rparr>)))"
  using assms
proof (induction ds arbitrary: r)
  case (Cons d ds)
  then obtain p where p: "Packet_ok p" "d = Packet_wire p" by (auto simp: delimited_def)
  have "readPacket r = (Inr d, r\<lparr>src := concat ds @ rest\<rparr>)" using readPacket_wire[OF p(1)] Cons.prems(2) p(2) by simp
  then show ?case using Cons.IH[of "r\<lparr>src := concat ds @ rest\<rparr>"] Cons.prems(1) by (simp add: read_packets.simps[of r])
next
  case Nil
  then have "r\<lparr>src := rest\<rparr> = r" by simp
  then show ?case by simp
qed

lemma read_packets_end: "src r = [] \<Longrightarrow> fault r = IoEOF \<Longrightarrow> read_packets r = ([], IoEOF)"
  by (simp add: read_packets.simps readPacket_def io_bind_def read_full_def)

text \<open>A stream that is cut somewhere gives whole packets only, and tells a cut from an end.\<close>

lemma read_packets_prefix:
  assumes "\<forall>d\<in>set ds. delimited d" and "src r = take k (concat ds)" and "fault r = IoEOF"
  shows "\<exists>n. read_packets r = (take n ds, if src r = concat (take n ds) then IoEOF else IoUnexpectedEOF)"
  using assms
proof (induction ds arbitrary: r k)
  case Nil
  then show ?case by (simp add: read_packets_end)
next
  case (Cons d ds)
  then obtain p where p: "Packet_ok p" "d = Packet_wire p" by (auto simp: delimited_def)
  show ?case
  proof (cases "length d \<le> k")
    case True
    let ?r = "r\<lparr>src := take (k - length d) (concat ds)\<rparr>"
    have "readPacket r = (Inr d, ?r)" using readPacket_wire[OF p(1)] Cons.prems(2) p(2) True by simp
    moreover obtain n where "read_packets ?r = (take n ds, if src ?r = concat (take n ds) then IoEOF else IoUnexpectedEOF)"
      using Cons.IH[of ?r "k - length d"] Cons.prems by auto
    ultimately have "read_packets r = (take (Suc n) (d # ds), if src r = concat (take (Suc n) (d # ds)) then IoEOF else IoUnexpectedEOF)"
      using Cons.prems(2) True by (simp add: read_packets.simps[of r])
    then show ?thesis ..
  next
    case False
    then have "src r = take k (Packet_wire p)" using Cons.prems(2) p(2) by simp
    then have "fst (readPacket r) = Inl (if k = 0 then IoEOF else IoUnexpectedEOF)"
      using readPacket_cut[OF p(1)] False p(2) Cons.prems(3) by auto
    moreover have "src r = [] \<longleftrightarrow> k = 0" using Cons.prems(2) False delimited_length[of d] Cons.prems(1) by auto
    ultimately have "read_packets r = (take 0 (d # ds), if src r = concat (take 0 (d # ds)) then IoEOF else IoUnexpectedEOF)"
      by (cases "readPacket r") (simp add: read_packets.simps[of r])
    then show ?thesis ..
  qed
qed

section \<open>Everything an endpoint sends is delimited\<close>

text \<open>
  What an endpoint queues is new, or comes from the datagram of a pending handshake, or is the second half
  of the transcript of a connection.
\<close>

definition two_packets :: "bytes \<Rightarrow> bool" where
  "two_packets t \<longleftrightarrow> (\<exists>d e. delimited d \<and> delimited e \<and> t = d @ e)"

definition framed :: "endpoint \<Rightarrow> bool" where
  "framed s \<longleftrightarrow> (\<forall>p\<in>set (pktQueue s). delimited (pd_Data p)) \<and>
     (\<forall>cid h. sentHandshake s cid = Some h \<longrightarrow> delimited (Transcript h)) \<and>
     (\<forall>c a. conns s c = Some a \<longrightarrow> two_packets (transcript a))"

lemma framed_new: "framed (NewEndpoint mode)"
  by (simp add: framed_def NewEndpoint_def)

lemma framed_send: "framed s \<Longrightarrow> delimited d \<Longrightarrow> framed (sendPacket cid k d s)"
  by (auto simp: framed_def sendPacket_def)

text \<open>Operations that queue nothing, start no handshake and leave the transcripts alone.\<close>

definition quiet :: "endpoint \<Rightarrow> endpoint \<Rightarrow> bool" where
  "quiet s t \<longleftrightarrow> pktQueue t = pktQueue s \<and> (\<forall>cid h. sentHandshake t cid = Some h \<longrightarrow> sentHandshake s cid = Some h) \<and>
     (\<forall>c a. conns t c = Some a \<longrightarrow> (\<exists>b. conns s c = Some b \<and> transcript b = transcript a))"

lemma quiet_refl [simp]: "quiet s s" by (simp add: quiet_def)

lemma quiet_trans: "quiet s t \<Longrightarrow> quiet t u \<Longrightarrow> quiet s u"
  unfolding quiet_def by metis

lemma framed_quiet: "quiet s t \<Longrightarrow> framed s \<Longrightarrow> framed t"
  unfolding quiet_def framed_def by metis

lemma quiet_conn: "(\<And>a. transcript (f a) = transcript a) \<Longrightarrow> quiet s (upd_conn c f s)"
  by (auto simp: quiet_def upd_conn_def)

lemma quiet_conn_at: "conns s c = Some a \<Longrightarrow> transcript a' = transcript a \<Longrightarrow> quiet s (upd_conn c (\<lambda>_. a') s)"
  by (auto simp: quiet_def upd_conn_def)

lemma quiet_closed [simp]: "transcript (ac_closeUnlocked a) = transcript a"
  by (simp add: ac_closeUnlocked_def)

lemma quiet_delete [simp]: "quiet s (deleteActiveConnection cid s)" "quiet s (deleteHandshake cid s)" "quiet s (drop_proxy p s)"
  by (auto simp: quiet_def deleteActiveConnection_def deleteHandshake_def drop_proxy_def)

lemma quiet_close_conn: "quiet s (upd_conn c ac_closeUnlocked (deleteActiveConnection cid s))"
  by (rule quiet_trans[OF quiet_delete(1) quiet_conn]) simp

lemma quiet_ac_Close: "quiet s (ac_Close c s)"
  by (simp add: ac_Close_def closeConnection_def quiet_close_conn split: option.splits)

lemma quiet_give_up: "quiet s (hi_closeUnlocked h s)"
proof -
  have "quiet s (s\<lparr>hsClosed := hsClosed s @ [hsDone h]\<rparr>)" by (simp add: quiet_def)
  then show ?thesis using quiet_trans[OF _ quiet_conn[of ac_closeUnlocked]]
    by (auto simp: hi_closeUnlocked_def close_proxy_conn_def split: option.splits)
qed

lemma quiet_forget: "quiet s (deleteHandshake cid (hi_closeUnlocked h s))"
  by (rule quiet_trans[OF quiet_give_up quiet_delete(2)])

lemma quiet_CannotSend: "quiet s (closeCannotSend pkt s)"
  by (auto simp: closeCannotSend_def mayCloseProxy_def Let_def quiet_forget quiet_close_conn split: option.splits)

lemma quiet_delete_inactive: "quiet s (snd (delete_inactive cids limit s))"
  by (induction cids limit s rule: delete_inactive.induct)
    (auto simp: case_prod_unfold Let_def split: option.splits intro: quiet_trans[OF quiet_close_conn])

lemma quiet_delete_handshakes: "quiet s (snd (delete_handshakes cids limit s))"
  by (induction cids limit s rule: delete_handshakes.induct)
    (auto simp: case_prod_unfold Let_def split: option.splits intro: quiet_trans[OF quiet_forget])

lemma quiet_delete_proxies: "quiet s (snd (delete_proxies str cids limit marked s))"
proof (induction cids arbitrary: marked s)
  case (Cons cid cids)
  then show ?case by (auto simp: case_prod_unfold Let_def split: option.splits intro: quiet_trans[OF quiet_delete(3)])
qed simp

lemma quiet_collect: "quiet s (garbage_collect str oh oc opx now ht ct pt s)"
  unfolding garbage_collect_def Let_def DeleteHandshakeBefore_def DeleteInactiveConnectionsBefore_def DeleteProxyBefore_def
  by (intro quiet_trans[OF quiet_delete_handshakes quiet_trans[OF quiet_delete_inactive quiet_delete_proxies]])

text \<open>The packets that are new.\<close>

lemma wire_err_Inr [simp]: "wire_err r = Inr x \<longleftrightarrow> r = Inr x"
  by (cases r) (simp_all add: wire_err_def)

lemma hello_packet_delimited: "hello_packet rnd n hs = Inr d \<Longrightarrow> delimited d"
  by (auto simp: hello_packet_def rbind_Inr_iff Let_def case_prod_unfold split: if_splits intro: appended_delimited)

lemma ack_packet_delimited: "ack_packet rnd n hs = Inr d \<Longrightarrow> delimited d"
  by (auto simp: ack_packet_def rbind_Inr_iff intro: appended_delimited)

lemma makeProbe_delimited: "makeProbe rnd n mac addr = Inr d \<Longrightarrow> delimited d"
  by (auto simp: makeProbe_def rbind_Inr_iff Let_def split: prod.splits if_splits intro: appended_delimited)

lemma seal_packet_delimited: "seal_packet C rnd data ctl cnt a = Inr d \<Longrightarrow> delimited d"
  by (auto simp: seal_packet_def Let_def split: if_splits sum.splits intro: appended_delimited)

lemma sealApplicationFrame_delimited:
  assumes "sealApplicationFrame C rnd now data pn ctl a = (r, a')"
  shows "transcript a' = transcript a" and "r = Inr (d, n) \<Longrightarrow> delimited d"
  using assms
  by (auto simp: sealApplicationFrame_def case_prod_unfold Let_def ratchetSendLocked_def rbind_Inr_iff take_number_def
      ac_ConsumePacketNumber_def split: if_splits sum.splits option.splits intro: seal_packet_delimited)

text \<open>The first packet of a transcript is the only prefix of it that is a packet.\<close>

lemma two_packets_rest:
  assumes "two_packets t" and "delimited d" and "t = d @ e"
  shows "delimited e"
proof -
  obtain p q where "Packet_ok p" "Packet_ok q" "t = Packet_wire p @ Packet_wire q"
    using assms(1) by (auto simp: two_packets_def delimited_def)
  moreover obtain x where "Packet_ok x" "d = Packet_wire x" using assms(2) by (auto simp: delimited_def)
  ultimately show ?thesis using packet.prefix_free(2)[of x p e "Packet_wire q"] assms(3) by (auto simp: delimited_def)
qed

lemma storedAckFor_delimited:
  assumes "framed s" and "delimited hello" and "storedAckFor now cid hello s = Some (Some ack)"
  shows "delimited ack"
proof -
  obtain c a where a: "conns s c = Some a" "take (length hello) (transcript a) = hello" "ack = drop (length hello) (transcript a)"
    using assms(3) by (auto simp: storedAckFor_def bind_eq_Some_conv split: option.splits if_splits)
  have "transcript a = hello @ ack" using append_take_drop_id[of "length hello" "transcript a"] a(2,3) by simp
  moreover have "two_packets (transcript a)" using assms(1) a(1) by (auto simp: framed_def)
  ultimately show ?thesis using two_packets_rest[OF _ assms(2)] by blast
qed

lemma framed_addActiveConnection:
  assumes "framed s" and "two_packets tr"
  shows "framed (snd (addActiveConnection C now cid self peer kind shp php tr done px s))"
proof (cases "newActiveConnection C now cid self peer kind shp php tr (Option.bind px (conns s))")
  case (Inr a)
  then have "transcript a = tr" by (rule newActiveConnection_fields(1))
  then show ?thesis using assms Inr by (auto simp: addActiveConnection_def Let_def framed_def split: option.splits)
qed (use assms in \<open>simp add: addActiveConnection_def\<close>)

lemma framed_sendHandshake:
  assumes "framed s"
  shows "framed (snd (sendHandshake rnd now cid priv hs px s))"
proof (cases "hello_packet rnd (ID cid) hs")
  case (Inr p)
  then have p: "delimited p" by (rule hello_packet_delimited)
  have set: "framed (t\<lparr>sentHandshake := (sentHandshake t)(cid \<mapsto> h)\<rparr>)" if "framed t" "Transcript h = p" for t h
    using that p by (auto simp: framed_def)
  let ?s = "s\<lparr>nextChan := nextChan s + 1\<rparr>"
  have n: "framed ?s" using assms by (simp add: framed_def)
  have new: "framed (?s\<lparr>sentHandshake := (sentHandshake ?s)(cid \<mapsto> h)\<rparr>)" if "Transcript h = p" for h using set[OF n that] .
  show ?thesis
  proof (cases "sentHandshake s cid")
    case None
    then show ?thesis using Inr framed_send[OF new p] by (simp add: sendHandshake_def Let_def)
  next
    case (Some sent)
    then show ?thesis using Inr framed_send[OF set[OF framed_quiet[OF quiet_give_up n]] p] by (simp add: sendHandshake_def Let_def)
  qed
qed (use assms in \<open>simp add: sendHandshake_def\<close>)

lemma commitRecvPhaseLocked_transcript: "transcript (snd (commitRecvPhaseLocked C now pn a)) = transcript a"
  by (simp add: commitRecvPhaseLocked_def Let_def split: sum.splits)

lemma acceptApplication_transcript:
  assumes "acceptApplication C now cid prot pb ct hdr a = (r, a')"
  shows "transcript a' = transcript a"
proof -
  let ?n = "NonceCounter prot"
  obtain q b where b: "(if choose_phase now (KeyPhase hdr) ?n a = NextPhase then commitRecvPhaseLocked C now ?n a else (Inr (), a)) = (q, b)"
    by force
  then have "transcript b = transcript a" using commitRecvPhaseLocked_transcript[of C now ?n a] by (auto split: if_splits)
  then show ?thesis using assms b by (auto simp: acceptApplication_def Let_def split: if_splits sum.splits)
qed

lemma openApplication_transcript: "openApplication C now cid data hdr a = (r, a') \<Longrightarrow> transcript a' = transcript a"
  by (auto simp: openApplication_def Let_def dest: acceptApplication_transcript split: if_splits sum.splits prod.splits)

lemma framed_receiveApplication: "framed s \<Longrightarrow> framed (snd (receiveApplication C now cid data hdr s))"
  by (auto simp: receiveApplication_def case_prod_unfold Let_def split: option.splits
      intro!: framed_quiet[OF quiet_conn_at] openApplication_transcript[OF surjective_pairing])

lemma framed_sendApplicationFrame:
  assumes "framed s"
  shows "framed (snd (sendApplicationFrame C rnd now cid data c pn ctl s))"
proof (cases "activeConnections s cid = Some c \<and> conns s c \<noteq> None")
  case True
  then obtain a where a: "activeConnections s cid = Some c" "conns s c = Some a" by auto
  obtain r a' where q: "sealApplicationFrame C rnd now data pn ctl a = (r, a')" by force
  have "framed (upd_conn c (\<lambda>_. a') s)"
    by (rule framed_quiet[OF quiet_conn_at[OF a(2) sealApplicationFrame_delimited(1)[OF q]] assms])
  then show ?thesis using a q sealApplicationFrame_delimited(2)[OF q]
    by (auto simp: sendApplicationFrame_def split: sum.splits intro: framed_send)
qed (use assms in \<open>auto simp: sendApplicationFrame_def split: option.splits\<close>)

lemma framed_finishHandshake:
  assumes "framed s" and "delimited data"
  shows "framed (snd (finishHandshake C rnd now cid h data h' keys s))"
proof (cases "activeConnections s cid = None")
  case True
  show ?thesis
  proof (cases "ack_packet rnd (ID cid) h'")
    case (Inr ack)
    let ?r = "addActiveConnection C now cid (AckSecret keys) (HSSecret keys) (hs_CommonKeyKind h)
      (AckHeaderProtect keys) (HsHeaderProtect keys) (data @ ack) None None s"
    have ack: "delimited ack" using Inr by (rule ack_packet_delimited)
    then have "two_packets (data @ ack)" using assms(2) by (auto simp: two_packets_def)
    then have ok: "framed (snd ?r)" by (rule framed_addActiveConnection[OF assms(1)])
    then show ?thesis using True Inr framed_send[OF ok ack]
      by (cases ?r) (auto simp: finishHandshake_def split: sum.splits)
  qed (use assms True in \<open>simp add: finishHandshake_def\<close>)
qed (use assms in \<open>auto simp: finishHandshake_def\<close>)

lemma framed_receiveHandshake:
  assumes "framed s" and "delimited data"
  shows "framed (snd (receiveHandshake E C rk rnd now cid h data s))"
  using receiveHandshake_cases[of E C rk rnd now cid h data s] framed_finishHandshake[OF assms]
    framed_send[OF assms(1) storedAckFor_delimited[OF assms]] assms(1)
  by (auto split: option.splits sum.splits prod.splits)

lemma framed_receiveHandshakeAck:
  assumes "framed s" and "delimited data"
  shows "framed (snd (receiveHandshakeAck E C now cid h data s))"
proof (cases "sentHandshake s cid")
  case (Some sent)
  then have "two_packets (Transcript sent @ data)" using assms by (auto simp: framed_def two_packets_def)
  then show ?thesis using Some framed_addActiveConnection[OF framed_quiet[OF quiet_delete(2) assms(1)]] assms(1)
    by (auto simp: receiveHandshakeAck_def split: sum.splits prod.splits)
qed (simp add: receiveHandshakeAck_def assms)

lemma quiet_probe: "quiet s (snd (receiveProbe cid data s))"
  by (simp add: receiveProbe_def quiet_def Let_def split: sum.splits)

lemma quiet_touch: "quiet s (touch_proxy now cid s)"
  by (simp add: touch_proxy_def quiet_def split: option.splits)

lemma framed_dispatch:
  assumes "framed s" and "delimited data"
  shows "framed (snd (dispatch E C rk rnd now cid kind pkt data s))"
  using framed_receiveHandshake[OF assms] framed_receiveHandshakeAck[OF assms] framed_receiveApplication[OF assms(1)]
    framed_quiet[OF quiet_probe assms(1)] assms(1)
  by (simp add: dispatch_def split: sum.splits)

lemma framed_Receive:
  assumes "framed s"
  shows "framed (snd (Receive str E C rk rnd now tr from data s))"
proof (cases "Packet_DecodeExact data")
  case (Inr p)
  then have "delimited data" using decoded_delimited by (auto simp: delimited_def)
  then show ?thesis using Inr framed_dispatch[OF assms] framed_quiet[OF quiet_touch assms]
    by (auto simp: Receive_def receive_def Let_def split: option.splits intro: framed_send)
qed (use assms in \<open>simp add: Receive_def receive_def\<close>)

lemma framed_step: "ep_step str E C s s' \<Longrightarrow> framed s \<Longrightarrow> framed s'"
proof (induction rule: ep_step.induct)
  case (dial s rnd now cid priv hs)
  then show ?case using framed_sendHandshake by (auto simp: SendHandshake_def Let_def)
next
  case (redial s rnd now c priv hs)
  then show ?case using framed_sendHandshake[OF framed_quiet[OF quiet_delete(1)]]
    by (auto simp: sendRehandshakeForProxy_def split: option.splits)
next
  case (retransmit s cid)
  moreover have "delimited (Transcript h)" if "sentHandshake s cid = Some h" for h
    using retransmit that by (auto simp: framed_def)
  ultimately show ?case by (auto simp: retransmitHandshake_def split: option.splits intro: framed_send)
next
  case (probe s rnd cid mac addr)
  then show ?case by (auto simp: SendProbe_def split: sum.splits intro: framed_send makeProbe_delimited)
next
  case (set_proxy s now cid cid')
  then show ?case by (rule framed_quiet[rotated]) (auto simp: SetProxy_def quiet_def Let_def)
next
  case (delete_proxy s cid)
  then show ?case by (rule framed_quiet[rotated]) (simp add: DeleteProxy_def split: option.splits)
qed (rule framed_Receive framed_sendApplicationFrame framed_quiet[OF quiet_ac_Close] framed_quiet[OF quiet_CannotSend]
       framed_quiet[OF quiet_collect], assumption)+

lemma framed_reachable: "ep_reachable str E C s \<Longrightarrow> framed s"
  by (induction rule: ep_reachable.induct) (auto intro: framed_new framed_step)

section \<open>The queue only grows\<close>

definition grows :: "endpoint \<Rightarrow> endpoint \<Rightarrow> bool" where
  "grows s t \<longleftrightarrow> set (pktQueue s) \<subseteq> set (pktQueue t)"

lemma quiet_grows: "quiet s t \<Longrightarrow> grows s t"
  by (simp add: quiet_def grows_def)

lemma pktQueue_send [simp]: "pktQueue (sendPacket cid k d s) = pktQueue s @ [\<lparr>pd_To = cid, pd_Kind = k, pd_Data = d\<rparr>]"
  by (simp add: sendPacket_def)

lemma pktQueue_conn [simp]: "pktQueue (upd_conn c f s) = pktQueue s" "pktQueue (deleteActiveConnection cid s) = pktQueue s"
  "pktQueue (deleteHandshake cid s) = pktQueue s" "pktQueue (hi_closeUnlocked h s) = pktQueue s"
  "pktQueue (touch_proxy now cid s) = pktQueue s" "pktQueue (snd (receiveProbe cid data s)) = pktQueue s"
  using quiet_give_up[of s h] quiet_touch[of s now cid] quiet_probe[of s cid data]
  by (simp_all add: upd_conn_def deleteActiveConnection_def deleteHandshake_def quiet_def)

lemma pktQueue_addActiveConnection [simp]:
  "pktQueue (snd (addActiveConnection C now cid self peer kind shp php tr done px s)) = pktQueue s"
  by (simp add: addActiveConnection_def Let_def split: sum.splits option.splits)

lemma grows_finishHandshake: "grows s (snd (finishHandshake C rnd now cid h data h' keys s))"
proof (cases "ack_packet rnd (ID cid) h'")
  case (Inr ack)
  let ?r = "addActiveConnection C now cid (AckSecret keys) (HSSecret keys) (hs_CommonKeyKind h)
      (AckHeaderProtect keys) (HsHeaderProtect keys) (data @ ack) None None s"
  have "pktQueue (snd ?r) = pktQueue s" by simp
  then show ?thesis using Inr by (cases ?r) (auto simp: finishHandshake_def grows_def split: sum.splits)
qed (simp add: finishHandshake_def grows_def)

lemma grows_receiveHandshake: "grows s (snd (receiveHandshake E C rk rnd now cid h data s))"
  using receiveHandshake_cases[of E C rk rnd now cid h data s] grows_finishHandshake
  by (fastforce simp: grows_def split: option.splits sum.splits prod.splits)

lemma grows_receiveHandshakeAck: "grows s (snd (receiveHandshakeAck E C now cid h data s))"
  by (auto simp: receiveHandshakeAck_def grows_def split: option.splits sum.splits prod.splits)

lemma grows_receiveApplication: "grows s (snd (receiveApplication C now cid data hdr s))"
  by (auto simp: receiveApplication_def grows_def case_prod_unfold Let_def split: option.splits)

lemma grows_Receive: "grows s (snd (Receive str E C rk rnd now tr from data s))"
proof -
  have "grows s (snd (dispatch E C rk rnd now cid kind pkt data s))" for cid kind pkt
    using grows_receiveHandshake grows_receiveHandshakeAck grows_receiveApplication quiet_grows[OF quiet_probe] quiet_grows[OF quiet_refl]
    by (simp add: dispatch_def split: sum.splits)
  then show ?thesis
    by (auto simp: Receive_def receive_def Let_def split: sum.splits option.splits) (simp_all add: grows_def subset_insertI)
qed

lemma grows_sendHandshake: "grows s (snd (sendHandshake rnd now cid priv hs px s))"
  by (auto simp: sendHandshake_def grows_def Let_def split: sum.splits option.splits)

lemma grows_step: "ep_step str E C s s' \<Longrightarrow> grows s s'"
proof (induction rule: ep_step.induct)
  case (dial s rnd now cid priv hs)
  then show ?case using grows_sendHandshake quiet_grows[OF quiet_refl] by (auto simp: SendHandshake_def Let_def)
next
  case (redial s rnd now c priv hs)
  then show ?case using grows_sendHandshake[of "deleteActiveConnection _ s"]
    by (auto simp: sendRehandshakeForProxy_def grows_def split: option.splits)
next
  case (recv s rk rnd now tr "from" data)
  show ?case by (rule grows_Receive)
next
  case (close s c)
  show ?case by (rule quiet_grows[OF quiet_ac_Close])
next
  case (cannot_send s pkt)
  show ?case by (rule quiet_grows[OF quiet_CannotSend])
next
  case (collect s oh oc opx now ht ct pt)
  show ?case by (rule quiet_grows[OF quiet_collect])
qed (auto simp: retransmitHandshake_def sendApplicationFrame_def SendProbe_def SetProxy_def DeleteProxy_def drop_proxy_def grows_def
      Let_def split: option.splits sum.splits prod.splits)

section \<open>A leg at work\<close>

text \<open>
  A leg and its endpoint: what the owner and the receive loops do on the endpoint, streams that are accepted,
  packets of the queue that the send loop takes, dials that come back, streams that end.
\<close>

inductive leg_reachable ::
  "(ConnectionID \<Rightarrow> string) \<Rightarrow> ecdh \<Rightarrow> crypto \<Rightarrow> StreamConfig \<Rightarrow> leg \<times> endpoint \<Rightarrow> bool" for str E C cfg where
  init: "leg_reachable str E C cfg (new_leg, NewEndpoint mode)"
| endpoint: "leg_reachable str E C cfg (l, s) \<Longrightarrow> ep_step str E C s s' \<Longrightarrow> leg_reachable str E C cfg (l, s')"
| accept: "leg_reachable str E C cfg (l, s) \<Longrightarrow> leg_reachable str E C cfg (stream_accept addrOf l, s)"
| send: "leg_reachable str E C cfg (l, s) \<Longrightarrow> pkt \<in> set (pktQueue s) \<Longrightarrow> leg_reachable str E C cfg (stream_send cfg w pkt (l, s))"
| dialed: "leg_reachable str E C cfg (l, s) \<Longrightarrow> pkt \<in> set (lg_dialing l) \<Longrightarrow>
    leg_reachable str E C cfg (stream_dialed ok w pkt (l, s))"
| ended: "leg_reachable str E C cfg (l, s) \<Longrightarrow> (c, addr) \<in> lg_recv l \<Longrightarrow> leg_reachable str E C cfg (recv_end order c addr (l, s))"

lemma reachable_CannotSend: "ep_reachable str E C s \<Longrightarrow> ep_reachable str E C (CannotSend pkt s)"
  unfolding CannotSend_def by (rule ep_reachable.step[OF _ ep_step.cannot_send])

lemma reachable_CloseConnectionsAt: "ep_reachable str E C s \<Longrightarrow> ep_reachable str E C (CloseConnectionsAt order addr s)"
proof -
  have "ep_reachable str E C s \<Longrightarrow> ep_reachable str E C (fold (close_if_at a) cs s)" for a cs s
    by (induction cs arbitrary: s)
      (auto simp: close_if_at_def split: option.splits intro: ep_reachable.step[OF _ ep_step.close])
  then show "ep_reachable str E C s \<Longrightarrow> ep_reachable str E C (CloseConnectionsAt order addr s)"
    by (simp add: CloseConnectionsAt_def)
qed

lemma leg_endpoint_reachable: "leg_reachable str E C cfg (l, s) \<Longrightarrow> ep_reachable str E C s"
proof (induction "(l, s)" arbitrary: l s rule: leg_reachable.induct)
  case (endpoint l s s')
  then show ?case by (blast intro: ep_reachable.step)
qed (auto simp: stream_send_def stream_dialed_def recv_end_def Let_def split: if_splits option.splits
     intro: ep_reachable.init reachable_CannotSend reachable_CloseConnectionsAt)

text \<open>What a stream carries: packets of the queue for one peer, one after the other, the last one cut if a write failed.\<close>

definition for_leg :: "StreamConfig \<Rightarrow> endpoint \<Rightarrow> PacketData \<Rightarrow> bool" where
  "for_leg cfg s p \<longleftrightarrow> p \<in> set (pktQueue s) \<and> Transport (pd_To p) = sc_Transport cfg"

definition carries :: "StreamConfig \<Rightarrow> endpoint \<Rightarrow> AddrPort \<Rightarrow> bool \<Rightarrow> bytes \<Rightarrow> PacketData list \<Rightarrow> bool" where
  "carries cfg s a broken out ps \<longleftrightarrow> (\<forall>p\<in>set ps. for_leg cfg s p \<and> cid_Addr (pd_To p) = a) \<and>
     (if broken then \<exists>k. out = take k (concat (map pd_Data ps)) else out = concat (map pd_Data ps))"

definition stream_ok :: "StreamConfig \<Rightarrow> endpoint \<Rightarrow> bool \<Rightarrow> bytes \<Rightarrow> AddrPort set \<Rightarrow> bool" where
  "stream_ok cfg s broken out B \<longleftrightarrow> (\<exists>a ps. carries cfg s a broken out ps \<and> B \<subseteq> {a})"

definition leg_ok :: "StreamConfig \<Rightarrow> leg \<Rightarrow> endpoint \<Rightarrow> bool" where
  "leg_ok cfg l s \<longleftrightarrow>
     (\<forall>p\<in>set (lg_dialing l). for_leg cfg s p) \<and>
     (\<forall>c a. (c, a) \<in> lg_recv l \<longrightarrow> c < lg_next l) \<and>
     (\<forall>a c. lg_conns l a = Some c \<longrightarrow> (c, a) \<in> lg_recv l \<and> c \<notin> lg_closed l) \<and>
     (\<forall>c. lg_next l \<le> c \<longrightarrow> lg_out l c = [] \<and> c \<notin> lg_closed l) \<and>
     (\<forall>c. stream_ok cfg s (c \<in> lg_closed l) (lg_out l c) (lg_recv l `` {c}))"

lemma grows_CannotSend: "grows s (CannotSend pkt s)"
  unfolding CannotSend_def by (rule quiet_grows[OF quiet_CannotSend])

lemma quiet_close_fold: "quiet s (fold (close_if_at a) cs s)"
proof (induction cs arbitrary: s)
  case (Cons c cs)
  have "quiet s (close_if_at a c s)" by (simp add: close_if_at_def quiet_ac_Close split: option.splits)
  then show ?case using Cons quiet_trans by fastforce
qed simp

lemma grows_CloseConnectionsAt: "grows s (CloseConnectionsAt order addr s)"
  unfolding CloseConnectionsAt_def by (rule quiet_grows[OF quiet_close_fold])

lemma stream_ok_grows: "grows s t \<Longrightarrow> stream_ok cfg s b out B \<Longrightarrow> stream_ok cfg t b out B"
  unfolding stream_ok_def carries_def for_leg_def grows_def by blast

lemma stream_ok_broken: "stream_ok cfg s b out B \<Longrightarrow> stream_ok cfg s True out B"
  unfolding stream_ok_def carries_def by (metis take_all order_refl)

lemma stream_ok_subset: "stream_ok cfg s b out B \<Longrightarrow> B' \<subseteq> B \<Longrightarrow> stream_ok cfg s b out B'"
  unfolding stream_ok_def by blast

lemma stream_ok_new: "B \<subseteq> {a} \<Longrightarrow> stream_ok cfg s b [] B"
  unfolding stream_ok_def carries_def by (intro exI[of _ a] exI[of _ "[]"]) simp

lemma stream_ok_only: "stream_ok cfg s b out B \<Longrightarrow> a \<in> B \<Longrightarrow> a' \<in> B \<Longrightarrow> a' = a"
  unfolding stream_ok_def by blast

lemma stream_ok_write:
  assumes "stream_ok cfg s False out B" and p: "for_leg cfg s p" and a: "cid_Addr (pd_To p) \<in> B"
  shows "stream_ok cfg s (w \<noteq> None) (out @ (case w of None \<Rightarrow> pd_Data p | Some k \<Rightarrow> take k (pd_Data p))) B"
proof -
  let ?a = "cid_Addr (pd_To p)"
  obtain ps where ps: "carries cfg s ?a False out ps" "B \<subseteq> {?a}" using assms(1) a unfolding stream_ok_def by blast
  have "\<exists>n. out @ take k (pd_Data p) = take n (concat (map pd_Data (ps @ [p])))" for k
    using ps(1) by (intro exI[of _ "length out + k"]) (simp add: carries_def)
  then have "carries cfg s ?a (w \<noteq> None) (out @ (case w of None \<Rightarrow> pd_Data p | Some k \<Rightarrow> take k (pd_Data p))) (ps @ [p])"
    using ps(1) p unfolding carries_def by (cases w) simp_all
  then show ?thesis using ps(2) unfolding stream_ok_def by blast
qed

lemma leg_ok_grows: "grows s t \<Longrightarrow> leg_ok cfg l s \<Longrightarrow> leg_ok cfg l t"
  unfolding leg_ok_def by (meson stream_ok_grows grows_def for_leg_def subsetD)

lemma leg_ok_new: "leg_ok cfg new_leg s"
  by (simp add: leg_ok_def new_leg_def stream_ok_new)

lemma leg_okD:
  assumes "leg_ok cfg l s"
  shows "p \<in> set (lg_dialing l) \<Longrightarrow> for_leg cfg s p" and "(c, a) \<in> lg_recv l \<Longrightarrow> c < lg_next l"
    and "lg_conns l a = Some c \<Longrightarrow> (c, a) \<in> lg_recv l \<and> c \<notin> lg_closed l"
    and "lg_next l \<le> c \<Longrightarrow> lg_out l c = [] \<and> c \<notin> lg_closed l"
    and "stream_ok cfg s (c \<in> lg_closed l) (lg_out l c) (lg_recv l `` {c})"
  using assms unfolding leg_ok_def by blast+

lemma leg_okI:
  assumes "\<And>p. p \<in> set (lg_dialing l) \<Longrightarrow> for_leg cfg s p" and "\<And>c a. (c, a) \<in> lg_recv l \<Longrightarrow> c < lg_next l"
    and "\<And>c a. lg_conns l a = Some c \<Longrightarrow> (c, a) \<in> lg_recv l \<and> c \<notin> lg_closed l"
    and "\<And>c. lg_next l \<le> c \<Longrightarrow> lg_out l c = [] \<and> c \<notin> lg_closed l"
    and "\<And>c. stream_ok cfg s (c \<in> lg_closed l) (lg_out l c) (lg_recv l `` {c})"
  shows "leg_ok cfg l s"
  using assms unfolding leg_ok_def by blast

text \<open>A stream leaves the table and is closed.\<close>

lemma leg_ok_close:
  assumes ok: "leg_ok cfg l s" and c: "(c, addr) \<in> lg_recv l"
    and out: "\<And>d. d \<noteq> c \<Longrightarrow> out d = lg_out l d" "stream_ok cfg s True (out c) (lg_recv l `` {c})"
    and R: "R \<subseteq> lg_recv l" "\<And>a d. lg_conns l a = Some d \<Longrightarrow> d \<noteq> c \<Longrightarrow> (d, a) \<in> R"
  shows "leg_ok cfg (conn_Close c (l\<lparr>lg_out := out, lg_conns := streamConns_remove addr c (lg_conns l), lg_recv := R\<rparr>)) s"
proof (rule leg_okI, goal_cases)
  case (1 p)
  then show ?case using leg_okD(1)[OF ok] by (simp add: conn_Close_def)
next
  case (2 d a)
  then have "(d, a) \<in> lg_recv l" using R(1) by (auto simp: conn_Close_def)
  then show ?case using leg_okD(2)[OF ok] by (simp add: conn_Close_def)
next
  case (3 d a)
  then have d: "lg_conns l a = Some d" "d = c \<Longrightarrow> a \<noteq> addr" by (auto simp: conn_Close_def streamConns_remove_def split: if_splits)
  then have "d \<noteq> c" using leg_okD(3)[OF ok d(1)] stream_ok_only[OF leg_okD(5)[OF ok], of addr c a] c by auto
  then show ?case using leg_okD(3)[OF ok d(1)] R(2)[OF d(1)] by (simp add: conn_Close_def)
next
  case (4 d)
  then show ?case using leg_okD(2)[OF ok c] leg_okD(4)[OF ok, of d] out(1)[of d] by (auto simp: conn_Close_def)
next
  case (5 d)
  have "R `` {d} \<subseteq> lg_recv l `` {d}" using R(1) by blast
  then show ?case using leg_okD(5)[OF ok, of d] out by (cases "d = c") (auto simp: conn_Close_def intro: stream_ok_subset)
qed

lemma leg_ok_end:
  assumes ok: "leg_ok cfg l s" and c: "(c, addr) \<in> lg_recv l"
  shows "leg_ok cfg (conn_Close c (l\<lparr>lg_conns := streamConns_remove addr c (lg_conns l), lg_recv := lg_recv l - {(c, addr)}\<rparr>)) s"
  using leg_ok_close[OF ok c, of "lg_out l" "lg_recv l - {(c, addr)}"] stream_ok_broken[OF leg_okD(5)[OF ok]] leg_okD(3)[OF ok] by auto

text \<open>A stream enters the table, with what was written to it first.\<close>

lemma leg_ok_open:
  assumes ok: "leg_ok cfg l s" and out: "stream_ok cfg s False d {addr}"
  shows "leg_ok cfg (l\<lparr>lg_next := lg_next l + 1, lg_out := (lg_out l)(lg_next l := d),
    lg_conns := streamConns_set addr (lg_next l) (lg_conns l), lg_recv := insert (lg_next l, addr) (lg_recv l)\<rparr>) s"
proof -
  have new: "lg_recv l `` {lg_next l} = {}" using leg_okD(2)[OF ok] by auto
  then have R: "insert (lg_next l, addr) (lg_recv l) `` {c} = (if c = lg_next l then {addr} else lg_recv l `` {c})" for c
    by auto
  show ?thesis
    by (rule leg_okI)
      (use leg_okD(1,2)[OF ok] leg_okD(3)[OF ok] leg_okD(4)[OF ok] leg_okD(5)[OF ok] out R in
       \<open>auto simp: streamConns_set_def less_Suc_eq split: if_splits\<close>)
qed

lemma leg_ok_closed_new:
  assumes ok: "leg_ok cfg l s" and out: "stream_ok cfg s True d {}"
  shows "leg_ok cfg (conn_Close (lg_next l) (l\<lparr>lg_next := lg_next l + 1, lg_out := (lg_out l)(lg_next l := d)\<rparr>)) s"
proof -
  have new: "lg_recv l `` {lg_next l} = {}" using leg_okD(2)[OF ok] by auto
  have "lg_conns l a \<noteq> Some (lg_next l)" for a using leg_okD(3)[OF ok, of a "lg_next l"] leg_okD(2)[OF ok, of "lg_next l" a] by auto
  then show ?thesis
    by (intro leg_okI)
      (use leg_okD(1,2)[OF ok] leg_okD(3)[OF ok] leg_okD(4)[OF ok] leg_okD(5)[OF ok] out new in
       \<open>auto simp: conn_Close_def less_Suc_eq\<close>)
qed

lemma leg_ok_accept:
  assumes "leg_ok cfg l s"
  shows "leg_ok cfg (stream_accept addrOf l) s"
proof -
  have "lg_out l (lg_next l) = []" using leg_okD(4)[OF assms, of "lg_next l"] by simp
  then have "(lg_out l)(lg_next l := []) = lg_out l" by auto
  then show ?thesis using leg_ok_closed_new[OF assms stream_ok_new, of undefined] leg_ok_open[OF assms stream_ok_new]
    by (auto simp: stream_accept_def Let_def split: option.splits)
qed

lemma leg_ok_dialing:
  assumes "leg_ok cfg l s" and "\<And>p. p \<in> set ds \<Longrightarrow> for_leg cfg s p"
  shows "leg_ok cfg (l\<lparr>lg_dialing := ds\<rparr>) s"
  using assms unfolding leg_ok_def by simp

lemma leg_ok_dialed:
  assumes ok: "leg_ok cfg l s" and pkt: "pkt \<in> set (lg_dialing l)"
  shows "leg_ok cfg (fst (stream_dialed dialed w pkt (l, s))) s"
proof -
  let ?l = "l\<lparr>lg_dialing := remove1 pkt (lg_dialing l)\<rparr>" and ?a = "cid_Addr (pd_To pkt)"
  have l: "leg_ok cfg ?l s"
    using leg_ok_dialing[OF ok, of "remove1 pkt (lg_dialing l)"] leg_okD(1)[OF ok] notin_set_remove1 by metis
  have out: "lg_out l (lg_next l) = []" using leg_okD(4)[OF ok, of "lg_next l"] by simp
  have wr: "stream_ok cfg s (w \<noteq> None) (case w of None \<Rightarrow> pd_Data pkt | Some k \<Rightarrow> take k (pd_Data pkt)) {?a}"
    using stream_ok_write[OF stream_ok_new leg_okD(1)[OF ok pkt], of "{?a}" ?a w] by simp
  show ?thesis
  proof (cases w)
    case None
    then show ?thesis using l leg_ok_open[OF l, of "pd_Data pkt" ?a] wr out
      by (simp add: stream_dialed_def Let_def conn_Write_def)
  next
    case (Some k)
    then show ?thesis using l leg_ok_closed_new[OF l stream_ok_subset, of "take k (pd_Data pkt)" "{?a}"] wr out
      by (simp add: stream_dialed_def Let_def conn_Write_def)
  qed
qed

lemma leg_ok_send:
  assumes ok: "leg_ok cfg l s" and pkt: "pkt \<in> set (pktQueue s)"
  shows "leg_ok cfg (fst (stream_send cfg w pkt (l, s))) s"
proof (cases "Transport (pd_To pkt) = sc_Transport cfg")
  case True
  let ?a = "cid_Addr (pd_To pkt)"
  have p: "for_leg cfg s pkt" using pkt True by (simp add: for_leg_def)
  show ?thesis
  proof (cases "lg_conns l ?a")
    case None
    have "leg_ok cfg (l\<lparr>lg_dialing := lg_dialing l @ [pkt]\<rparr>) s"
      by (rule leg_ok_dialing[OF ok]) (use p leg_okD(1)[OF ok] in auto)
    then show ?thesis using None True ok by (simp add: stream_send_def streamConns_get_def)
  next
    case (Some c)
    note c = leg_okD(3)[OF ok Some]
    have w: "stream_ok cfg s (w \<noteq> None) (lg_out l c @ (case w of None \<Rightarrow> pd_Data pkt | Some k \<Rightarrow> take k (pd_Data pkt))) (lg_recv l `` {c})"
      using stream_ok_write[OF _ p] leg_okD(5)[OF ok, of c] c by auto
    show ?thesis
    proof (cases w)
      case None
      have "leg_ok cfg (l\<lparr>lg_out := (lg_out l)(c := lg_out l c @ pd_Data pkt)\<rparr>) s"
        by (rule leg_okI) (use leg_okD[OF ok] leg_okD(2)[OF ok, of c ?a] c w None in auto)
      then show ?thesis using None Some True by (simp add: stream_send_def streamConns_get_def conn_Write_def)
    next
      case (Some k)
      then show ?thesis
        using leg_ok_close[OF ok, of c ?a "(lg_out l)(c := lg_out l c @ take k (pd_Data pkt))" "lg_recv l"] c w \<open>lg_conns l ?a = Some c\<close> True
          leg_okD(3)[OF ok]
        by (simp add: stream_send_def streamConns_get_def conn_Write_def Let_def)
    qed
  qed
qed (use ok in \<open>simp add: stream_send_def\<close>)

lemma leg_reachable_ok: "leg_reachable str E C cfg (l, s) \<Longrightarrow> leg_ok cfg l s"
proof (induction "(l, s)" arbitrary: l s rule: leg_reachable.induct)
  case init
  then show ?case by (auto intro: leg_ok_new)
next
  case (endpoint l s s')
  then show ?case using leg_ok_grows[OF grows_step] by blast
next
  case (accept l s addrOf)
  then show ?case by (auto intro: leg_ok_accept)
next
  case (send l s pkt w l' s')
  have "s' = s \<or> s' = CannotSend pkt s" using send(4)[symmetric] by (auto simp: stream_send_def Let_def split: if_splits option.splits)
  moreover have "leg_ok cfg l' s" using leg_ok_send[OF send(2,3), of w] send(4) by simp
  ultimately show ?case using leg_ok_grows[OF grows_CannotSend] by auto
next
  case (dialed l s pkt ok w l' s')
  have "s' = s \<or> s' = CannotSend pkt s" using dialed(4)[symmetric] by (auto simp: stream_dialed_def Let_def split: if_splits)
  moreover have "leg_ok cfg l' s" using leg_ok_dialed[OF dialed(2,3), of ok w] dialed(4) by simp
  ultimately show ?case using leg_ok_grows[OF grows_CannotSend] by auto
next
  case (ended l s c addr order l' s')
  then show ?case using leg_ok_grows[OF grows_CloseConnectionsAt leg_ok_end[OF ended(2,3)], of order addr] by (simp add: recv_end_def)
qed

section \<open>The peer\<close>

text \<open>The bytes of a stream, up to where it was cut, as a reader that is no \<open>io.Seeker\<close>.\<close>

definition stream_reader :: "bytes \<Rightarrow> reader" where
  "stream_reader b = \<lparr>src = b, seekable = False, fault = IoEOF\<rparr>"

fun receive_packets ::
  "(ConnectionID \<Rightarrow> string) \<Rightarrow> ecdh \<Rightarrow> crypto \<Rightarrow> net_env \<Rightarrow> string \<Rightarrow> AddrPort \<Rightarrow> nat \<Rightarrow> bytes list \<Rightarrow> endpoint \<Rightarrow> endpoint" where
  "receive_packets str E C env tr addr i [] s = s"
| "receive_packets str E C env tr addr i (d # ds) s = receive_packets str E C env tr addr (i + 1) ds (receive_nth str E C env tr addr i d s)"

lemma stream_recv_packets:
  "stream_recv str E C env cfg order c addr i r (l, s) =
     recv_end order c addr (l, receive_packets str E C env (sc_Transport cfg) addr i (fst (read_packets r)) s)"
proof (induction "length (src r)" arbitrary: r i s rule: less_induct)
  case less
  obtain q r' where q: "readPacket r = (q, r')" by force
  show ?case
  proof (cases q)
    case (Inr d)
    then show ?thesis using less[OF readPacket_consumes[of r d r'], of "i + 1"] q
      by (simp add: stream_recv.simps[of _ _ _ _ _ _ _ _ i] read_packets.simps[of r])
  qed (simp add: q stream_recv.simps[of _ _ _ _ _ _ _ _ i] read_packets.simps[of r])
qed

lemma delimited_decodes: "delimited d \<Longrightarrow> \<exists>p. Packet_DecodeExact d = Inr p"
  using packet.exact_roundtrip by (auto simp: delimited_def Packet_DecodeExact_def)

lemma stream_contents:
  assumes "leg_reachable str E C cfg (l, s)"
  shows "\<exists>a ps. carries cfg s a (c \<in> lg_closed l) (lg_out l c) ps \<and> (\<forall>d\<in>set (map pd_Data ps). delimited d)"
proof -
  have "framed s" using framed_reachable[OF leg_endpoint_reachable[OF assms]] .
  then have d: "delimited (pd_Data p)" if "for_leg cfg s p" for p using that by (auto simp: framed_def for_leg_def)
  obtain a ps where ps: "carries cfg s a (c \<in> lg_closed l) (lg_out l c) ps"
    using leg_okD(5)[OF leg_reachable_ok[OF assms], of c] unfolding stream_ok_def by blast
  then have "\<forall>d\<in>set (map pd_Data ps). delimited d" using d by (auto simp: carries_def)
  then show ?thesis using ps by blast
qed

section \<open>Properties\<close>

text \<open>
  C17: a stream of packets stays in step. Whatever the endpoint and its leg have done, the bytes written to
  any stream are packets of the endpoint's queue for the leg's transport and for one address, the last
  one cut if its write failed; each decodes. Wherever the stream is cut on its way, the peer's loop hands
  to \<open>Receive\<close> the first of these packets, whole, unchanged and in their order, and then ends; it reads a
  plain end of file exactly when the cut is between two packets. All packets arrive when the stream is
  neither closed nor cut.
\<close>

theorem stream_in_step:
  assumes "leg_reachable str E C cfg (l, s)"
  shows "\<exists>a ps. (\<forall>p\<in>set ps. p \<in> set (pktQueue s) \<and> Transport (pd_To p) = sc_Transport cfg \<and> cid_Addr (pd_To p) = a \<and>
      (\<exists>q. Packet_DecodeExact (pd_Data p) = Inr q)) \<and>
    (\<forall>k. \<exists>n. (let b = take k (lg_out l c); ds = map pd_Data (take n ps) in
      read_packets (stream_reader b) = (ds, if b = concat ds then IoEOF else IoUnexpectedEOF) \<and>
      stream_recv str' E' C' env cfg' order c' addr i (stream_reader b) (l', s') =
        recv_end order c' addr (l', receive_packets str' E' C' env (sc_Transport cfg') addr i ds s'))) \<and>
    (c \<notin> lg_closed l \<longrightarrow> read_packets (stream_reader (lg_out l c)) = (map pd_Data ps, IoEOF))"
proof -
  obtain a ps where ps: "carries cfg s a (c \<in> lg_closed l) (lg_out l c) ps" "\<forall>d\<in>set (map pd_Data ps). delimited d"
    using stream_contents[OF assms, of c] by blast
  obtain m where m: "lg_out l c = take m (concat (map pd_Data ps))"
    using ps(1) unfolding carries_def by (metis take_all order_refl)
  have read: "\<exists>n. read_packets (stream_reader b) = (map pd_Data (take n ps), if b = concat (map pd_Data (take n ps)) then IoEOF else IoUnexpectedEOF)"
    if "b = take k (lg_out l c)" for b k
    using read_packets_prefix[OF ps(2), of "stream_reader b" "min k m"] that m by (auto simp: stream_reader_def take_map min.commute)
  have whole: "read_packets (stream_reader (lg_out l c)) = (map pd_Data ps, IoEOF)" if "c \<notin> lg_closed l"
    using read_packets_concat[OF ps(2), of "stream_reader (lg_out l c)" "[]"] ps(1) that
    by (simp add: carries_def stream_reader_def read_packets_end)
  show ?thesis
  proof (intro exI[of _ a] exI[of _ ps] conjI ballI allI impI, goal_cases)
    case (5 k)
    obtain n where "read_packets (stream_reader (take k (lg_out l c))) =
        (map pd_Data (take n ps), if take k (lg_out l c) = concat (map pd_Data (take n ps)) then IoEOF else IoUnexpectedEOF)"
      using read by blast
    then show ?case by (intro exI[of _ n]) (simp add: Let_def stream_recv_packets)
  qed (use ps whole delimited_decodes in \<open>auto simp: carries_def for_leg_def\<close>)
qed

definition sampleConfig :: StreamConfig where
  "sampleConfig = \<lparr>sc_Transport = ''tcp'', sc_Dial = True, sc_Listener = False, sc_AddrOf = False\<rparr>"

theorem stream_in_step_witness:
  "\<exists>l s p ds. leg_reachable (\<lambda>_. []) sampleEcdh sampleCrypto sampleConfig (l, s) \<and> pktQueue s = [p] \<and>
    lg_conns l sampleServer = Some 0 \<and> lg_out l 0 = pd_Data p \<and>
    read_packets (stream_reader (lg_out l 0)) = (ds, IoEOF) \<and> set ds \<subseteq> {pd_Data p}"
proof -
  let ?cid = "recv_cid ''tcp'' sampleServer 7" and ?h = "hello_of sampleEcdh X25519 [1] CommonKeyKind_Aes256Gcm"
  let ?p = "\<lparr>pd_To = ?cid, pd_Kind = PacketKind_Handshake, pd_Data = hello_bytes 3 7 ?h\<rparr>"
  have id: "ID ?cid = 7" "cid_Addr ?cid = sampleServer" "Transport ?cid = ''tcp''" by (simp_all add: recv_cid_def sample_unmap)
  have h: "Handshake_ok ?h" "length (Handshake_wire ?h) \<le> 200"
    using hello_of_ok[OF sampleEcdh_laws, of X25519 "[1]" "[1]"] by (simp_all add: sampleEcdh_def)
  obtain s where s: "SendHandshake 3 0 ?cid [1] ?h (NewEndpoint EndpointModeClient) = (Inr 0, s)" "pktQueue s = [?p]"
    using SendHandshake_ok[of "NewEndpoint EndpointModeClient" ?cid, OF _ _ _ h, of 3 0 "[1]"] id by (auto simp: NewEndpoint_def sample_unmap)
  let ?l = "new_leg\<lparr>lg_dialing := [?p]\<rparr>"
  let ?m = "\<lparr>lg_conns = [sampleServer \<mapsto> 0], lg_dialing = [], lg_recv = {(0, sampleServer)}, lg_next = 1,
    lg_out = (\<lambda>_. [])(0 := pd_Data ?p), lg_closed = {}\<rparr>"
  have r0: "leg_reachable (\<lambda>_. []) sampleEcdh sampleCrypto sampleConfig (new_leg, s)"
    using leg_reachable.endpoint[OF leg_reachable.init ep_step.dial, where rnd1 = 3 and now1 = 0 and cid1 = ?cid and priv1 = "[1]" and hs1 = ?h] s(1)
    by (metis snd_conv)
  have "stream_send sampleConfig None ?p (new_leg, s) = (?l, s)"
    by (simp add: stream_send_def id sampleConfig_def new_leg_def streamConns_get_def)
  then have r1: "leg_reachable (\<lambda>_. []) sampleEcdh sampleCrypto sampleConfig (?l, s)"
    using leg_reachable.send[OF r0, of ?p None] s(2) by simp
  have "stream_dialed True None ?p (?l, s) = (?m, s)"
    by (simp add: stream_dialed_def Let_def id new_leg_def conn_Write_def streamConns_set_def)
  then have r: "leg_reachable (\<lambda>_. []) sampleEcdh sampleCrypto sampleConfig (?m, s)"
    using leg_reachable.dialed[OF r1, of ?p True None] by simp
  obtain a ps where ps: "\<forall>p\<in>set ps. p \<in> set (pktQueue s) \<and> Transport (pd_To p) = sc_Transport sampleConfig \<and> cid_Addr (pd_To p) = a \<and>
      (\<exists>q. Packet_DecodeExact (pd_Data p) = Inr q)"
    "0 \<notin> lg_closed ?m \<longrightarrow> read_packets (stream_reader (lg_out ?m 0)) = (map pd_Data ps, IoEOF)"
    using stream_in_step[OF r, of 0] by blast
  have "set (map pd_Data ps) \<subseteq> {pd_Data ?p}" using ps(1) s(2) by auto
  then show ?thesis using r s(2) ps(2) by (intro exI[of _ ?m] exI[of _ s] exI[of _ ?p] exI[of _ "map pd_Data ps"]) simp
qed

end
