(* ===== verification/Transport_Props.thy ===== *)
theory Transport_Props
  imports Transport_Stream
begin

text \<open>
  What the transports promise the endpoint: the connections of a dead socket are closed and no others, an
  answer goes out on the stream that the question came from, packets go to the leg of their transport, and
  the end of an old stream leaves its successor alone.
\<close>

section \<open>The connections of a dead socket\<close>

definition rides :: "AddrPort \<Rightarrow> ConnectionID \<Rightarrow> bool" where
  "rides addr cid \<longleftrightarrow> unmapAddrPort (cid_Addr cid) = unmapAddrPort addr"

definition victim :: "AddrPort \<Rightarrow> endpoint \<Rightarrow> nat \<Rightarrow> bool" where
  "victim addr s c \<longleftrightarrow> (\<exists>cid. activeConnections s cid = Some c \<and> rides addr cid)"

lemma active_unique:
  assumes "ep_ok s" and "activeConnections s x = Some c" and "activeConnections s y = Some c"
  shows "x = y"
  using ep_okD(1)[OF assms(1,2)] ep_okD(1)[OF assms(1,3)] by (auto simp: open_at_def)

lemma close_if_at_hit:
  assumes "ep_ok s" and cid: "activeConnections s cid = Some c" "rides addr cid"
  shows "close_if_at (unmapAddrPort addr) c s = upd_conn c ac_closeUnlocked (deleteActiveConnection cid s)"
proof -
  obtain a where "conns s c = Some a" "\<not> ac_closed a" "ac_cid a = cid"
    using ep_okD(1)[OF assms(1) cid(1)] by (auto simp: open_at_def)
  then show ?thesis using cid by (simp add: close_if_at_def ac_Close_def closeConnection_def rides_def)
qed

lemma close_if_at_miss: "\<not> victim addr s c \<Longrightarrow> close_if_at (unmapAddrPort addr) c s = s"
  by (auto simp: victim_def close_if_at_def ac_Close_def closeConnection_def rides_def split: option.splits)

lemma close_if_at_tables:
  assumes "ep_ok s" and t: "t = close_if_at (unmapAddrPort addr) c s"
  shows "ep_ok t" and "activeConnections t cid = (if rides addr cid \<and> activeConnections s cid = Some c then None else activeConnections s cid)"
    and "conns t d = (if d = c \<and> victim addr s d then map_option ac_closeUnlocked (conns s d) else conns s d)"
proof -
  consider (miss) "\<not> victim addr s c" | (hit) x where "activeConnections s x = Some c" "rides addr x" by (auto simp: victim_def)
  then have "ep_ok t \<and> activeConnections t cid = (if rides addr cid \<and> activeConnections s cid = Some c then None else activeConnections s cid) \<and>
    conns t d = (if d = c \<and> victim addr s d then map_option ac_closeUnlocked (conns s d) else conns s d)"
  proof cases
    case miss
    then show ?thesis using assms close_if_at_miss[OF miss] by (auto simp: victim_def)
  next
    case (hit x)
    have v: "victim addr s c" using hit by (auto simp: victim_def)
    have e: "t = upd_conn c ac_closeUnlocked (deleteActiveConnection x s)" using t close_if_at_hit[OF assms(1) hit] by simp
    have "activeConnections s cid = Some c \<longleftrightarrow> cid = x" using hit(1) active_unique[OF assms(1) hit(1), of cid] by blast
    then show ?thesis using ep_ok_close[OF assms(1) hit(1)] hit(2) v unfolding e
      by (cases "cid = x") (simp_all add: upd_conn_def deleteActiveConnection_def)
  qed
  then show "ep_ok t" "activeConnections t cid = (if rides addr cid \<and> activeConnections s cid = Some c then None else activeConnections s cid)"
    "conns t d = (if d = c \<and> victim addr s d then map_option ac_closeUnlocked (conns s d) else conns s d)" by simp_all
qed

lemma close_fold_active:
  "ep_ok s \<Longrightarrow> activeConnections (fold (close_if_at (unmapAddrPort addr)) cs s) cid =
     (if rides addr cid \<and> (\<exists>c\<in>set cs. activeConnections s cid = Some c) then None else activeConnections s cid)"
proof (induction cs arbitrary: s)
  case (Cons c cs)
  note u = close_if_at_tables[OF Cons.prems refl, of addr c]
  show ?case using Cons.IH[OF u(1)] u(2)[of cid] by auto
qed simp

lemma close_fold_conns:
  "ep_ok s \<Longrightarrow> conns (fold (close_if_at (unmapAddrPort addr)) cs s) d =
     (if d \<in> set cs \<and> victim addr s d then map_option ac_closeUnlocked (conns s d) else conns s d)"
proof (induction cs arbitrary: s)
  case (Cons c cs)
  let ?u = "close_if_at (unmapAddrPort addr) c s"
  note u = close_if_at_tables[OF Cons.prems refl, of addr c]
  have v: "victim addr ?u d \<longleftrightarrow> victim addr s d \<and> d \<noteq> c" unfolding victim_def u(2) by (metis option.distinct(1) option.inject)
  show ?case using Cons.IH[OF u(1)] u(3)[of d] by (simp add: v)
qed simp

lemma set_ListActiveConnections:
  "dom (activeConnections s) \<subseteq> set order \<Longrightarrow> set (ListActiveConnections order s) = ran (activeConnections s)"
  by (force simp: ListActiveConnections_def map_filter_def ran_def dom_def)

section \<open>Answers\<close>

text \<open>What an endpoint answers to a datagram that no proxy takes: handshake acks for the identifier it came from.\<close>

definition acks :: "ConnectionID \<Rightarrow> endpoint \<Rightarrow> endpoint \<Rightarrow> bool" where
  "acks cid s t \<longleftrightarrow> (\<exists>ps. pktQueue t = pktQueue s @ ps \<and> (\<forall>p\<in>set ps. pd_To p = cid \<and> pd_Kind p = PacketKind_HandshakeAck))"

lemma acks_same: "pktQueue t = pktQueue s \<Longrightarrow> acks cid s t"
  by (simp add: acks_def)

lemma acks_one: "pktQueue t = pktQueue s \<Longrightarrow> acks cid s (sendPacket cid PacketKind_HandshakeAck d t)"
  by (simp add: acks_def)

lemma acks_finishHandshake: "acks cid s (snd (finishHandshake C rnd now cid h data h' keys s))"
proof (cases "ack_packet rnd (ID cid) h'")
  case (Inr ack)
  let ?r = "addActiveConnection C now cid (AckSecret keys) (HSSecret keys) (hs_CommonKeyKind h)
      (AckHeaderProtect keys) (HsHeaderProtect keys) (data @ ack) None None s"
  have "pktQueue (snd ?r) = pktQueue s" by simp
  then show ?thesis using Inr
    by (cases ?r) (auto simp: finishHandshake_def split: sum.splits intro: acks_same acks_one)
qed (auto simp: finishHandshake_def intro: acks_same)

lemma acks_receiveHandshake: "acks cid s (snd (receiveHandshake E C rk rnd now cid h data s))"
  using receiveHandshake_cases[of E C rk rnd now cid h data s] acks_finishHandshake acks_one[OF refl, of cid s] acks_same[OF refl, of cid s]
  by (auto split: option.splits sum.splits prod.splits)

lemma acks_dispatch: "acks cid s (snd (dispatch E C rk rnd now cid kind pkt data s))"
proof -
  have "acks cid s (snd (receiveHandshakeAck E C now cid h data s))" for h
    by (rule acks_same) (auto simp: receiveHandshakeAck_def split: option.splits sum.splits prod.splits)
  moreover have "acks cid s (snd (receiveApplication C now cid d hdr s))" for d hdr
    by (rule acks_same) (auto simp: receiveApplication_def case_prod_unfold Let_def split: option.splits)
  ultimately show ?thesis using acks_receiveHandshake acks_same[OF pktQueue_conn(6)] acks_same[OF refl, of cid s]
    by (simp add: dispatch_def split: sum.splits)
qed

lemma Receive_acks:
  assumes "\<forall>n. proxy_at s (recv_cid tr addr n) = None"
  shows "\<exists>n. acks (recv_cid tr addr n) s (snd (Receive str E C rk rnd now tr addr data s))"
proof (cases "Packet_DecodeExact data")
  case (Inr p)
  have "\<lparr>Transport = tr, cid_Addr = unmapAddrPort addr, ID = m\<rparr> = recv_cid tr addr m" for m by (simp add: recv_cid_def)
  then show ?thesis using Inr assms acks_dispatch
    by (intro exI[of _ "headerConnID (pk_Header p)"]) (simp add: Receive_def receive_def Let_def)
qed (auto simp: Receive_def receive_def intro: acks_same)

section \<open>Routes\<close>

lemma add_routes_Inr:
  "add_routes ch ts m = Inr m' \<longleftrightarrow> distinct ts \<and> (\<forall>t\<in>set ts. m t = None) \<and> m' = (\<lambda>t. if t \<in> set ts then Some ch else m t)"
  by (induction ts arbitrary: m) (auto simp: fun_eq_iff split: if_splits)

text \<open>The leg that carries a transport, counted from \<open>ch\<close>.\<close>

lemma start_legs_routes:
  assumes "start_legs mode ch legs m = Inr m'"
  shows "(\<forall>t i. i < length legs \<longrightarrow> t \<in> set (transports (legs ! i)) \<longrightarrow> m' t = Some (ch + i)) \<and>
    (\<forall>t. (\<forall>leg\<in>set legs. t \<notin> set (transports leg)) \<longrightarrow> m' t = m t) \<and>
    (\<forall>t. m t \<noteq> None \<longrightarrow> m' t = m t)"
  using assms
proof (induction legs arbitrary: ch m)
  case (Cons leg legs)
  from Cons.prems obtain m1 where m1: "add_routes ch (transports leg) m = Inr m1" "start_legs mode (ch + 1) legs m1 = Inr m'"
    by (cases "add_routes ch (transports leg) m"; cases "start leg mode") simp_all
  note a = m1(1)[unfolded add_routes_Inr]
  note IH = Cons.IH[OF m1(2)]
  show ?case
  proof (intro conjI allI impI)
    fix t i assume i: "i < length (leg # legs)" "t \<in> set (transports ((leg # legs) ! i))"
    show "m' t = Some (ch + i)"
    proof (cases i)
      case 0
      then have "m1 t = Some ch" using a i(2) by simp
      then show ?thesis using IH 0 by simp
    next
      case (Suc j)
      then show ?thesis using IH i by simp
    qed
  next
    fix t assume "\<forall>leg\<in>set (leg # legs). t \<notin> set (transports leg)"
    then show "m' t = m t" using IH a by simp
  next
    fix t assume "m t \<noteq> None"
    then have "m1 t = m t" using a by auto
    then show "m' t = m t" using IH \<open>m t \<noteq> None\<close> by simp
  qed
qed simp

lemma fanOutByTransport_eq:
  "fanOutByTransport routes pkts (q, s) =
     ((\<lambda>i. q i @ filter (\<lambda>p. routes (Transport (pd_To p)) = Some i) pkts),
      fold CannotSend (filter (\<lambda>p. routes (Transport (pd_To p)) = None) pkts) s)"
  by (induction pkts arbitrary: q s) (auto simp: fun_eq_iff split: option.splits)

section \<open>Tables of sockets\<close>

text \<open>
  What the send loops rely on: the socket that was put last at an address is found there, and the end of a socket
  takes nothing from another address. Only a guarded table promises that the end of an old socket leaves the
  entry of its successor alone.
\<close>

locale socket_table =
  fixes get :: "'m \<Rightarrow> 'k \<Rightarrow> 'c option" and put :: "'k \<Rightarrow> 'c \<Rightarrow> 'm \<Rightarrow> 'm" and drop_at :: "'k \<Rightarrow> 'c \<Rightarrow> 'm \<Rightarrow> 'm"
  assumes get_put: "get (put a c m) b = (if b = a then Some c else get m b)"
    and drop_other: "b \<noteq> a \<Longrightarrow> get (drop_at a c m) b = get m b"
    and drop_same: "get (drop_at a c m) a \<noteq> Some c"
begin

lemma dropped: "get (drop_at a c (put a c m)) b = get m b \<or> b = a \<and> get (drop_at a c (put a c m)) b \<noteq> Some c"
  using get_put drop_other drop_same by metis

end

locale guarded_table = socket_table +
  assumes drop_guard: "get m a \<noteq> Some c \<Longrightarrow> drop_at a c m = m"
begin

lemma newer_survives: "c \<noteq> d \<Longrightarrow> drop_at a c (put a d m) = put a d m"
  by (rule drop_guard) (simp add: get_put)

lemma drop_twice: "drop_at a c (drop_at a c m) = drop_at a c m"
  by (rule drop_guard[OF drop_same])

end

interpretation stream_table: guarded_table streamConns_get streamConns_set streamConns_remove
  by unfold_locales (auto simp: streamConns_get_def streamConns_set_def streamConns_remove_def)

interpretation ws_table: socket_table connectionMap_Get connectionMap_Set "\<lambda>addr _. connectionMap_Delete addr"
  by unfold_locales (auto simp: connectionMap_Get_def connectionMap_Set_def connectionMap_Delete_def)

text \<open>The table of the WebSocket leg is not guarded: the end of an old connection takes the entry of its successor.\<close>

lemma ws_end_takes_successor:
  assumes "wl_conns l c = Some conn" and "connectionMap_Get (wl_connMap l) (ws_remoteAddr conn) = Some d" and "d \<noteq> c"
  shows "connectionMap_Get (wl_connMap (fst (ws_recv str E C env order i c None (l, s)))) (ws_remoteAddr conn) = None"
  using assms(1) by (simp add: ws_recv_def connectionMap_Get_def connectionMap_Delete_def)

section \<open>A server with one peer\<close>

lemma sample_accepted:
  "\<exists>hello ack t. Receive (\<lambda>_. []) sampleEcdh sampleCrypto [3] 4 1 tr addr hello (NewEndpoint EndpointModeServer) = (Inr (), t) \<and>
    pktQueue t = [\<lparr>pd_To = recv_cid tr addr 7, pd_Kind = PacketKind_HandshakeAck, pd_Data = ack\<rparr>] \<and>
    dom (activeConnections t) = {recv_cid tr addr 7} \<and>
    ep_reachable (\<lambda>_. []) sampleEcdh sampleCrypto t"
proof -
  let ?k = CommonKeyKind_Aes256Gcm and ?cid = "recv_cid tr addr 7" and ?s = "NewEndpoint EndpointModeServer"
  have gen: "GenerateKey sampleEcdh X25519 [1] = Some [1]" "GenerateKey sampleEcdh X25519 [3] = Some [3]" by (simp_all add: sampleEcdh_def)
  note h = hello_of_ok[OF sampleEcdh_laws gen(1), of ?k] and h' = hello_of_ok[OF sampleEcdh_laws gen(2), of ?k]
  have f: "hs_KeyKind (hello_of sampleEcdh X25519 q ?k) = curve_kind X25519" "hs_CommonKeyKind (hello_of sampleEcdh X25519 q ?k) = ?k" for q
    by (simp_all add: hello_of_def)
  obtain keys where x: "exchange_keys sampleEcdh sampleCrypto [3] ?cid (hello_of sampleEcdh X25519 [1] ?k) =
      Inr (hello_of sampleEcdh X25519 [3] ?k, keys)" "length (HsHeaderProtect keys) = 32" "length (AckHeaderProtect keys) = 32"
    using exchange_agrees[OF sampleEcdh_laws sampleCrypto_laws gen, of ?cid ?cid ?k] by auto
  obtain b t where t: "Receive (\<lambda>_. []) sampleEcdh sampleCrypto [3] 4 1 tr addr (hello_bytes 3 7 (hello_of sampleEcdh X25519 [1] ?k)) ?s = (Inr (), t)"
    "pktQueue t = [\<lparr>pd_To = ?cid, pd_Kind = PacketKind_HandshakeAck, pd_Data = ack_bytes 4 7 (hello_of sampleEcdh X25519 [3] ?k)\<rparr>]"
    "activeConnections t = [?cid \<mapsto> 0]"
    using responder_answers[OF sampleCrypto_laws h f(1) _ h' _ _ _ refl x, of ?s "\<lambda>_. []" 4 1 3] f(2)
    by (auto simp: NewEndpoint_def proxy_at_def IsCommonKeyKindDefined_def)
  have "ep_reachable (\<lambda>_. []) sampleEcdh sampleCrypto t"
    using ep_reachable.step[OF ep_reachable.init ep_step.recv] t(1) by (metis snd_conv)
  then show ?thesis using t by (intro exI conjI) (rule t(1), rule t(2), simp_all)
qed

section \<open>Properties\<close>

text \<open>
  C18: the end of a stream. The loop of stream \<open>c\<close> takes the entry of its address from the table only while
  the entry is \<open>c\<close>, closes \<open>c\<close> and no other stream; every connection whose address is that of the stream, up
  to IPv4 in IPv6, is closed and gone from the table of the endpoint, and every other one is as before;
  nothing is sent and no handshake is given up. The address decides alone: connections of another
  transport, and those that a newer stream with the same address carries, are closed as well.
\<close>

theorem stream_end_effect:
  assumes "ep_reachable str E C s" and "dom (activeConnections s) \<subseteq> set order"
    and "recv_end order c addr (l, s) = (l', t)"
  shows "lg_conns l' = (if lg_conns l addr = Some c then (lg_conns l)(addr := None) else lg_conns l) \<and>
    lg_closed l' = insert c (lg_closed l) \<and> pktQueue t = pktQueue s \<and> sentHandshake t = sentHandshake s \<and>
    (\<forall>cid. activeConnections t cid =
       (if unmapAddrPort (cid_Addr cid) = unmapAddrPort addr then None else activeConnections s cid)) \<and>
    (\<forall>cid d a. activeConnections s cid = Some d \<and> conns s d = Some a \<longrightarrow>
       conns t d = Some (if unmapAddrPort (cid_Addr cid) = unmapAddrPort addr
                         then a\<lparr>ac_closed := True, msgs := CloseChannel (msgs a)\<rparr> else a))"
proof -
  have ok: "ep_ok s" using ep_reachable_ok[OF assms(1)] .
  have t: "t = fold (close_if_at (unmapAddrPort addr)) (ListActiveConnections order s) s"
    using assms(3) by (simp add: recv_end_def CloseConnectionsAt_def)
  note cs = set_ListActiveConnections[OF assms(2)]
  have "pktQueue (fold (close_if_at a) cs u) = pktQueue u \<and> sentHandshake (fold (close_if_at a) cs u) = sentHandshake u" for a cs u
    by (induction cs arbitrary: u)
      (auto simp: close_if_at_def ac_Close_def closeConnection_def upd_conn_def deleteActiveConnection_def split: option.splits)
  then have q: "pktQueue t = pktQueue s" "sentHandshake t = sentHandshake s" by (simp_all add: t)
  have act: "activeConnections t cid = (if rides addr cid then None else activeConnections s cid)" for cid
    using close_fold_active[OF ok, of addr "ListActiveConnections order s" cid] unfolding t cs
    by (cases "activeConnections s cid") (auto simp: ran_def)
  have con: "conns t d = Some (if rides addr cid then ac_closeUnlocked a else a)"
    if d: "activeConnections s cid = Some d" "conns s d = Some a" for cid d a
  proof -
    have "victim addr s d \<longleftrightarrow> rides addr cid" using d(1) active_unique[OF ok d(1)] unfolding victim_def by blast
    moreover have "d \<in> ran (activeConnections s)" using d(1) by (auto simp: ran_def)
    ultimately show ?thesis using close_fold_conns[OF ok, of addr "ListActiveConnections order s" d] d(2) unfolding t cs by simp
  qed
  show ?thesis using assms(3) q act con
    by (auto simp: recv_end_def conn_Close_def streamConns_remove_def rides_def ac_closeUnlocked_def)
qed

text \<open>
  The old stream 0 of an address ends when stream 1 has replaced it: the entry of stream 1 stays and stream
  1 stays open, but the connection that stream 1 carries is closed.
\<close>

theorem stream_end_effect_witness:
  "\<exists>s l' t. activeConnections s (recv_cid ''tcp'' sampleClient 7) \<noteq> None \<and>
    recv_end [recv_cid ''tcp'' sampleClient 7] 0 sampleClient
      (new_leg\<lparr>lg_conns := [sampleClient \<mapsto> 1], lg_recv := {(0, sampleClient), (1, sampleClient)}, lg_next := 2\<rparr>, s) = (l', t) \<and>
    lg_conns l' sampleClient = Some 1 \<and> lg_closed l' = {0} \<and> activeConnections t (recv_cid ''tcp'' sampleClient 7) = None"
proof -
  let ?l = "new_leg\<lparr>lg_conns := [sampleClient \<mapsto> 1], lg_recv := {(0, sampleClient), (1, sampleClient)}, lg_next := 2\<rparr>"
  obtain s where s: "dom (activeConnections s) = {recv_cid ''tcp'' sampleClient 7}" "ep_reachable (\<lambda>_. []) sampleEcdh sampleCrypto s"
    using sample_accepted[of "''tcp''" sampleClient] by blast
  obtain l' t where e: "recv_end [recv_cid ''tcp'' sampleClient 7] 0 sampleClient (?l, s) = (l', t)" by force
  have "dom (activeConnections s) \<subseteq> set [recv_cid ''tcp'' sampleClient 7]" by (simp add: s(1))
  note f = stream_end_effect[OF s(2) this e]
  have "unmapAddrPort (cid_Addr (recv_cid ''tcp'' sampleClient 7)) = unmapAddrPort sampleClient" by (simp add: recv_cid_def sample_unmap)
  then have "activeConnections t (recv_cid ''tcp'' sampleClient 7) = None" using f by simp
  moreover have "lg_conns l' sampleClient = Some 1" "lg_closed l' = {0}" using f by (simp_all add: new_leg_def)
  moreover have "activeConnections s (recv_cid ''tcp'' sampleClient 7) \<noteq> None" using s(1) by (metis domIff insertI1)
  ultimately show ?thesis using e by blast
qed



text \<open>
  Packets go to the leg of their transport. An endpoint built from several legs has each transport on one leg only;
  the fan-out appends to the channel of a leg the packets for its transports, all of them and in the order of
  the queue, and reports the packets that no leg carries, and only those, as undeliverable.
\<close>

theorem packets_find_their_leg:
  assumes "MultiLegEndpoint mode legs = Inr (routes, s0)" and "fanOutByTransport routes pkts (\<lambda>_. [], s) = (q, t)"
  shows "(\<forall>i < length legs. q i = filter (\<lambda>p. Transport (pd_To p) \<in> set (transports (legs ! i))) pkts) \<and>
    (\<forall>i < length legs. \<forall>j < length legs. i \<noteq> j \<longrightarrow> set (transports (legs ! i)) \<inter> set (transports (legs ! j)) = {}) \<and>
    t = fold CannotSend (filter (\<lambda>p. \<forall>leg\<in>set legs. Transport (pd_To p) \<notin> set (transports leg)) pkts) s"
proof -
  have st: "start_legs mode 0 legs Map.empty = Inr routes"
    using assms(1) by (auto simp: MultiLegEndpoint_def rbind_Inr_iff split: if_splits)
  note R = start_legs_routes[OF st]
  have at: "routes x = Some i \<longleftrightarrow> x \<in> set (transports (legs ! i))" if "i < length legs" for i x
    using R that by (metis add_0 option.distinct(1) option.inject in_set_conv_nth)
  have none: "routes x = None \<longleftrightarrow> (\<forall>leg\<in>set legs. x \<notin> set (transports leg))" for x
    using R by (metis in_set_conv_nth option.distinct(1))
  have "q = (\<lambda>i. filter (\<lambda>p. routes (Transport (pd_To p)) = Some i) pkts)"
    "t = fold CannotSend (filter (\<lambda>p. routes (Transport (pd_To p)) = None) pkts) s"
    using assms(2) by (auto simp: fanOutByTransport_eq)
  moreover have "set (transports (legs ! i)) \<inter> set (transports (legs ! j)) = {}" if "i < length legs" "j < length legs" "i \<noteq> j" for i j
    using at[OF that(1)] at[OF that(2)] that(3) by (metis disjoint_iff option.inject)
  ultimately show ?thesis by (simp add: at none cong: filter_cong)
qed

theorem packets_find_their_leg_witness:
  "\<exists>routes q t. UDPWebsocketDualStackEndpoint EndpointModeServer True True = Inr (routes, NewEndpoint EndpointModeServer) \<and>
    (let p = (\<lambda>tr. \<lparr>pd_To = recv_cid tr sampleClient 7, pd_Kind = PacketKind_Application, pd_Data = [1]\<rparr>) in
     fanOutByTransport routes [p ''wss'', p ''tcp'', p ''udp'', p ''ws''] (\<lambda>_. [], NewEndpoint EndpointModeServer) = (q, t) \<and>
     q 0 = [p ''udp''] \<and> q 1 = [p ''wss'', p ''ws''] \<and> t = CannotSend (p ''tcp'') (NewEndpoint EndpointModeServer))"
proof -
  let ?s = "NewEndpoint EndpointModeServer" and ?legs = "[UDPLeg True, WebSocketLeg True]"
  let ?p = "\<lambda>tr. \<lparr>pd_To = recv_cid tr sampleClient 7, pd_Kind = PacketKind_Application, pd_Data = [1]\<rparr>"
  obtain routes where m: "MultiLegEndpoint EndpointModeServer ?legs = Inr (routes, ?s)"
    by (simp add: MultiLegEndpoint_def UDPLeg_def WebSocketLeg_def WebSocketEndpointEx_def)
  obtain q t where f: "fanOutByTransport routes [?p ''wss'', ?p ''tcp'', ?p ''udp'', ?p ''ws''] (\<lambda>_. [], ?s) = (q, t)" by force
  note all = packets_find_their_leg[OF m f]
  have tr: "Transport (recv_cid tr sampleClient 7) = tr" for tr by (simp add: recv_cid_def)
  have "q 0 = [?p ''udp'']" "q 1 = [?p ''wss'', ?p ''ws'']" "t = CannotSend (?p ''tcp'') ?s"
    using all by (simp_all add: tr UDPLeg_def WebSocketLeg_def All_less_Suc)
  then show ?thesis using m f by (auto simp: UDPWebsocketDualStackEndpoint_def Let_def)
qed

end
