(* ===== verification/Spec2Isabelle.thy ===== *)
theory Spec2Isabelle
  imports Ack_Wire Conn_Live Exec_Trsf Exec_Session Obj_Endpoint_Props Obj_Ident Obj_Auto Wire_Variants Obj_Variants Auto_Loops Transport_Props
begin

text \<open>
  \<^bold>\<open>Verification of objtrsf.\<close> objtrsf carries ordered byte streams and datagrams over an unreliable
  datagram network. It has two layers: \<open>src/objproto\<close> is a session layer (handshake, encryption with key
  phases, replay protection, a channel of received messages), and \<open>src/trsf\<close> is the transport above it
  (streams, flow and congestion control, loss detection, path MTU discovery, one run loop per
  connection). Applications, transports over real sockets and the remote execution tool are around them.

  \<^bold>\<open>How the parts interact.\<close> A stream buffers what is written to it; the run loop asks it for a range
  that fits the path MTU and the flow window (\<open>triggerPacket\<close>), encodes the range as a
  \<open>StreamAppPacket\<close>, records it with the sent-packet handler and gives it to the session, which seals it
  under the current key phase with the packet number as nonce. The peer's session removes the header
  protection, tries the number on its replay window, opens the packet and puts it into the message
  channel; \<open>handlePacket\<close> decodes it and gives the frame to the receive stream, whose ordering queue
  hands the bytes to the reader in order. Acknowledgements flow back: the packet-number tracker collects
  what arrived, \<open>TransferACK\<close> encodes it, and the sent-packet handler of the sender decides what was
  delivered and what was lost, tells the congestion window, and calls back the stream, which sends lost
  ranges again.

  \<^bold>\<open>Theories and what they model\<close> (sources under \<open>src/\<close>):

  \<^item> \<open>Prelude\<close>: Go's integers as words or wrapped integers, its clock, results as sums, byte lists.
  \<^item> \<open>Wire_Varint\<close>, \<open>Wire_Stream\<close> (\<open>trsf/wire/\<close>): varints and every packet format. The locales
    \<open>wire_format\<close>, \<open>exact_codec\<close>, \<open>self_delimiting\<close> state once what an encoder and a decoder promise
    each other; each format of both layers is an interpretation.
  \<^item> \<open>Codec_Io\<close>, \<open>Wire_Variants\<close>, \<open>Obj_Variants\<close>: the encoders and decoders of the same formats that work on
    slices of fixed length, writers and readers, with all wrappers. \<open>encoder_variants\<close> and
    \<open>decoder_variants\<close> state that the methods of a format agree, and every format interprets them.
  \<^item> \<open>Pn_Track\<close> (\<open>trsf/pn_track.go\<close>) and \<open>Ack_Wire\<close> (\<open>trsf/wire.go\<close>): received packet numbers as
    ranges, and their translation to and from ACK packets.
  \<^item> \<open>Trigger_Queue\<close> (\<open>trsf/queue.go\<close>): the de-duplicating queue with its notification token.
  \<^item> \<open>Ordering\<close>, \<open>Recv_Stream\<close> (\<open>trsf/ordering.go\<close>, \<open>trsf/recv_stream.go\<close>): reassembly, and the
    receive window.
  \<^item> \<open>Flow\<close>, \<open>Send_Stream\<close> (\<open>trsf/flow.go\<close>, \<open>trsf/send_stream.go\<close>): the flow window; write buffer,
    cutting, splitting and retransmission of ranges.
  \<^item> \<open>Mtu\<close> (\<open>trsf/mtu/plpmtud.go\<close>), \<open>Congestion\<close> (\<open>trsf/congestion/\<close>), \<open>Ack_Handler\<close>
    (\<open>trsf/ack_handler.go\<close>): the probe search, RTT, pacer and NewReno at machine width, and loss
    detection with the accounting of what is in flight.
  \<^item> \<open>Stream_Id\<close> (\<open>trsf/api.go\<close>) and \<open>Conn\<close> (\<open>trsf/conn.go\<close>, \<open>trsf/finished_stream.go\<close>): identifiers;
    the connection as a record of its tables, with a heap for the streams that several tables share, the
    handlers of received packets and one iteration of the run loop, branch by branch.
  \<^item> \<open>Conn_Inv\<close>, \<open>Conn_Props\<close>, \<open>Conn_Live\<close>, \<open>Conn_Wire\<close>: the invariant of a connection and what follows
    from it; \<open>Delivery\<close>: the peer's side of a stream and the proof that a stream delivers.
  \<^item> \<open>Obj_Packet\<close> (\<open>objproto/packet/packet.go\<close>), \<open>Obj_Mask\<close> (\<open>objproto/mask.go\<close>), \<open>Obj_Nonce\<close> (the
    \<open>receiveNonceTracker\<close> of \<open>objproto/objproto.go\<close>), \<open>Obj_Msg\<close> (\<open>objproto/message.go\<close>), \<open>Obj_Session\<close>
    (\<open>objproto/crypto.go\<close>, \<open>objproto/control.go\<close> and the \<open>activeConnection\<close> of \<open>objproto/objproto.go\<close>)
    and \<open>Obj_Session_Props\<close>: the session layer. \<open>Obj_Endpoint\<close> (the \<open>endpoint\<close> of \<open>objproto/objproto.go\<close> and
    \<open>objproto/session.go\<close>) and \<open>Obj_Endpoint_Props\<close>: its tables, the handshake on both sides, dispatch,
    proxies, closing and the collectors of old entries. \<open>Obj_Ident\<close> (the identifiers of \<open>objproto/objproto.go\<close>,
    \<open>objproto/vsock_addr.go\<close>, \<open>objproto/connection_id_cli.go\<close>): their text form. \<open>Obj_Auto\<close> (\<open>objproto/session.go\<close>,
    \<open>DoECDHHandshake\<close>): waiting with retransmission, the loops that update keys and answer probes, the listings.
  \<^item> \<open>Exec_Frame\<close> (\<open>exec/frame/frame.go\<close>), \<open>Exec_Stream\<close> and \<open>Exec_Stream_Props\<close> (\<open>exec/exec_stream.go\<close>, the
    framing and the input loop of \<open>exec/exec.go\<close>), \<open>Exec_Shell\<close> (\<open>exec/exec_shell.go\<close>: detach key and input
    pump), \<open>Exec_Trsf\<close>: the remote execution tool, on the interface \<open>byte_stream\<close>, which \<open>AppendData\<close> of a
    send stream implements. \<open>Exec_Session\<close> (\<open>executeCommandImpl\<close>, \<open>exec/proctree_unix.go\<close>, \<open>RemoteShell\<close>): the calls a
    session makes from start to end, on every path.
  \<^item> \<open>Auto_Loops\<close> (\<open>trsf/api.go\<close>, \<open>trsf/keepalive.go\<close>): the loops that move messages between a session and the run
    loop, and the bodies of ping, pong and close.
  \<^item> \<open>Transport_Leg\<close>, \<open>Transport_Stream\<close>, \<open>Transport_Props\<close> (\<open>transport/\<close>): the legs that carry packets
    over byte streams, datagrams and WebSockets, several legs on one endpoint, and the end of a socket. \<open>socket_table\<close> and \<open>guarded_table\<close> are what the send loops rely on; the stream leg has the guarded one.

  A struct is a record with the fields of the source, an enumeration a datatype; a method takes the state
  and returns it with its result, an error is the left side of a sum. A mutex makes a method one step.
  Callbacks are values that the caller runs. Channels are lists, or Booleans when they only notify. The
  clock, random bytes and the cryptographic primitives are arguments; \<open>crypto_laws\<close> says what the
  session layer relies on, and \<open>sampleCrypto\<close> satisfies it.

  \<^bold>\<open>What is shown.\<close> From end to end, the bytes a reader gets are a prefix of the bytes that were written,
  whatever the network does (\<open>end_to_end\<close>), and the output of a remote command comes out of the right pipe
  in order (\<open>remote_output\<close>). For a connection: an invariant of every reachable state,
  freedom from panics apart from one division, that no waiting stream is forgotten, that a closed
  congestion window keeps data back, that encoded frames reach the right stream of the peer and fit the
  path MTU. For a session: what is sealed is opened through every advance of the key phase, no nonce is
  used twice, no packet is handed on twice, a refused datagram changes nothing, messages are read in
  order. For an endpoint: a handshake leaves two connections that mirror each other, a hello cannot take
  over a connection, no channel is closed twice, proxies forward, a dial repeats its hello at most four times and
  always ends, a quiet connection updates its key only once, identifiers survive their text form. For the execution tool:
  input, signals and sizes act on the runner in order, the detach key stays at the client, and every session
  reaps its child, closes its terminal and tells its auditor exactly once. For the transports: packets delimit
  themselves, so a stream never loses step and a cut is noticed; an answer takes the stream of its question; the end of
  a stream closes the connections of its address; messages go to the run loop or the application, each to its
  place. For the components: correct reassembly, framing and splitting, the flow window, exact
  accounting, armed timers, no lost wake-up, convergence of the probe search, bounds of window and pacer,
  distinct identifiers, round trips of all formats, and the exact conditions under which an ACK can be
  encoded. Several theorems pin down behaviour that departs from what the comments intend.

  \<^bold>\<open>Bounds and fuel.\<close> Words have the width of the source. Theorems about counters that would have to wrap
  (identifiers, sequence numbers, packet numbers) say below which bound they hold. The loops of the model
  are structural recursions or have a termination proof; no definition uses fuel. The probe search ends
  within \<open>3 * (max - min)\<close> rounds, which the theorem states.

  \<^bold>\<open>Not modelled.\<close> Logging, diagnostic snapshots, \<open>String\<close> methods, and contexts beyond the outcome they
  force. System calls: opening sockets and their options, TLS and HTTP (\<open>transport\<close>); what the operating system does with
  processes and terminals (\<open>exec\<close>), whose answers are arguments; \<open>net/netip\<close> and name resolution, which are arguments
  of the identifiers; the bindings to a browser (\<open>transport/websocket_wasm.go\<close>) and to Windows.
\<close>

section \<open>Properties\<close>

text \<open>
  C1: a stream from end to end. Whatever the sender's run was (writes, closes, window updates, splits,
  retransmissions, late acknowledgements) and whatever the network does to the packets of its ranges
  (loss, repetition, any order), the application at the peer reads an initial piece of what was written.
  If it reads the end of the stream, it has everything the sender had cut by then, and everything that
  was written unless the peer had cancelled.
\<close>

theorem end_to_end:
  assumes "send_reachable i w st" and "0 \<le> w" and "arrivals_of i (emitted st) ops"
    and "recvStreams s i = Some q" and "recvObjs s q = Some (newReceiveStream q i win)"
    and "peer_run q ops s = (outs, s')"
  shows "concat (map fst outs) = take (length (concat (map fst outs))) (written st) \<and>
    (list_ex snd outs \<longrightarrow> eofSent (stream st) \<and> (cancelRequested (stream st) \<or> concat (map fst outs) = written st))"
  using stream_delivers [OF assms] .

theorem end_to_end_witness:
  "\<exists>b s'. peer_run 1 [Arrive 5 6 \<lparr>m_PacketNumber = 9, m_Data = b\<rparr>, AppRead 10] samplePeer = ([([1, 2, 3, 4, 5, 6, 7], True)], s') \<and>
     concat (map fst [([1, 2, 3, 4, 5, 6, 7], True)]) = ([1, 2, 3, 4, 5, 6, 7] :: bytes)"
proof -
  obtain st b s' where r: "send_reachable 1 10 st" "written st = [1, 2, 3, 4, 5, 6, 7]" "\<not> cancelRequested (stream st)"
    "arrivals_of 1 (emitted st) [Arrive 5 6 \<lparr>m_PacketNumber = 9, m_Data = b\<rparr>, AppRead 10]"
    "peer_run 1 [Arrive 5 6 \<lparr>m_PacketNumber = 9, m_Data = b\<rparr>, AppRead 10] samplePeer = ([([1, 2, 3, 4, 5, 6, 7], True)], s')"
    using sample_delivery [OF refl] by blast
  from end_to_end [OF r(1) _ r(4) samplePeer_stream r(5)] r(2,3)
  have "concat (map fst [([1, 2, 3, 4, 5, 6, 7], True)]) = ([1, 2, 3, 4, 5, 6, 7] :: bytes)" by simp
  then show ?thesis using r(5) by blast
qed

end
